(* ===== verification/Prelude.thy ===== *)
theory Prelude
  imports "HOL-Library.Word" "HOL-Library.Monad_Syntax"
begin

text \<open>
  Shared vocabulary of the development: the machine types of the C code, the little-endian
  byte layout of integers, and the outcome predicate \<open>returns\<close> with the rules that let
  the component proofs walk through a \<open>do\<close> block.

  Every operation of the library that works on global state is a function
  \<open>f :: \<dots> \<Rightarrow> 's \<Rightarrow> ('a \<times> 's) option\<close>. The result \<open>Some (r, s')\<close> is a
  normal return with value \<open>r\<close>; \<open>None\<close> stands for undefined behaviour of the C
  code (a NULL or out-of-range access) or for an execution that does not return within the
  given fuel. The abstract machine is little-endian with 32-bit \<open>int\<close>, as the code's
  pointer casts and the supported targets assume.
\<close>

unbundle bit_operations_syntax

section \<open>Machine types\<close>

type_synonym byte = "8 word"
type_synonym u16 = "16 word"
type_synonym u32 = "32 word"
type_synonym 's outcome = "'s option"

text \<open>Conversion of an \<open>unsigned int\<close> to \<open>int\<close> and back (two's complement).\<close>

abbreviation int_of_u32 :: "u32 \<Rightarrow> int" where
  "int_of_u32 w \<equiv> sint w"

abbreviation u32_of_int :: "int \<Rightarrow> u32" where
  "u32_of_int i \<equiv> word_of_int i"

section \<open>Outcomes\<close>

named_theorems wp "rewrite rules that push \<open>returns\<close> through program syntax"
named_theorems spec "total-correctness facts of the operations"

definition returns :: "('a \<times> 's) option \<Rightarrow> ('a \<Rightarrow> 's \<Rightarrow> bool) \<Rightarrow> bool" where
  "returns m Q = (case m of None \<Rightarrow> False | Some (r, s) \<Rightarrow> Q r s)"

lemma returns_Some [wp, simp]: "returns (Some (r, s)) Q = Q r s"
  by (simp add: returns_def)

lemma returns_None [wp, simp]: "returns None Q = False"
  by (simp add: returns_def)

lemma returns_bind [wp, simp]:
  "returns (Option.bind m f) Q = returns m (\<lambda>r s. returns (f (r, s)) Q)"
  by (cases m) (auto simp: returns_def split: prod.splits)

lemma returns_if [wp]:
  "returns (if c then a else b) Q = ((c \<longrightarrow> returns a Q) \<and> (\<not> c \<longrightarrow> returns b Q))"
  by simp

lemma returns_mono:
  assumes "returns m Q" and "\<And>r s. Q r s \<Longrightarrow> R r s"
  shows "returns m R"
  using assms by (auto simp: returns_def split: option.splits)

lemma returns_conj:
  "returns m Q \<Longrightarrow> returns m R \<Longrightarrow> returns m (\<lambda>r s. Q r s \<and> R r s)"
  by (auto simp: returns_def split: option.splits)

lemma returnsE:
  assumes "returns m Q"
  obtains r s where "m = Some (r, s)" and "Q r s"
  using assms by (auto simp: returns_def split: option.splits)

lemma returnsI: "m = Some (r, s) \<Longrightarrow> Q r s \<Longrightarrow> returns m Q"
  by simp

lemma returns_iff: "returns m Q \<longleftrightarrow> (\<exists>r s. m = Some (r, s) \<and> Q r s)"
  by (auto simp: returns_def split: option.splits)

lemma returns_bindI:
  assumes "returns m Q" and "\<And>r s. Q r s \<Longrightarrow> returns (f (r, s)) R"
  shows "returns (Option.bind m f) R"
  using assms by (cases m) auto

section \<open>Little-endian layout\<close>

named_theorems layout "sizes and round trips of the byte layouts"

definition bytes_of_u16 :: "u16 \<Rightarrow> byte list" where
  "bytes_of_u16 w = [ucast w, ucast (drop_bit 8 w)]"

definition u16_of_bytes :: "byte \<Rightarrow> byte \<Rightarrow> u16" where
  "u16_of_bytes a b = ucast a OR push_bit 8 (ucast b)"

definition bytes_of_u32 :: "u32 \<Rightarrow> byte list" where
  "bytes_of_u32 w = [ucast w, ucast (drop_bit 8 w), ucast (drop_bit 16 w), ucast (drop_bit 24 w)]"

definition u32_of_bytes :: "byte \<Rightarrow> byte \<Rightarrow> byte \<Rightarrow> byte \<Rightarrow> u32" where
  "u32_of_bytes a b c d =
     ucast a OR push_bit 8 (ucast b) OR push_bit 16 (ucast c) OR push_bit 24 (ucast d)"

lemma length_bytes_of_u16 [layout, simp]: "length (bytes_of_u16 w) = 2"
  by (simp add: bytes_of_u16_def)

lemma length_bytes_of_u32 [layout, simp]: "length (bytes_of_u32 w) = 4"
  by (simp add: bytes_of_u32_def)

lemma bit_u16_of_bytes:
  "bit (u16_of_bytes a b) n = (if n < 8 then bit a n else n < 16 \<and> bit b (n - 8))"
  unfolding u16_of_bytes_def
  by (auto simp: bit_simps dest: bit_imp_le_length)

lemma bit_u32_of_bytes:
  "bit (u32_of_bytes a b c d) n =
     (if n < 8 then bit a n else if n < 16 then bit b (n - 8)
      else if n < 24 then bit c (n - 16) else n < 32 \<and> bit d (n - 24))"
  unfolding u32_of_bytes_def
  by (auto simp: bit_simps dest: bit_imp_le_length)

lemma u16_of_bytes_roundtrip [layout, simp]:
  "u16_of_bytes (ucast w) (ucast (drop_bit 8 w)) = w"
  by (rule bit_word_eqI) (auto simp: bit_simps bit_u16_of_bytes not_less)

lemma u32_of_bytes_roundtrip [layout, simp]:
  "u32_of_bytes (ucast w) (ucast (drop_bit 8 w)) (ucast (drop_bit 16 w)) (ucast (drop_bit 24 w)) = w"
  by (rule bit_word_eqI) (auto simp: bit_simps bit_u32_of_bytes not_less)

lemma bytes_of_u16_of_bytes [layout, simp]: "bytes_of_u16 (u16_of_bytes a b) = [a, b]"
proof -
  have "ucast (u16_of_bytes a b) = a"
    by (rule bit_word_eqI) (simp add: bit_simps bit_u16_of_bytes)
  moreover have "ucast (drop_bit 8 (u16_of_bytes a b)) = b"
    by (rule bit_word_eqI) (simp add: bit_simps bit_u16_of_bytes)
  ultimately show ?thesis by (simp add: bytes_of_u16_def)
qed

lemma bytes_of_u32_of_bytes [layout, simp]: "bytes_of_u32 (u32_of_bytes a b c d) = [a, b, c, d]"
proof -
  have "ucast (u32_of_bytes a b c d) = a"
    by (rule bit_word_eqI) (simp add: bit_simps bit_u32_of_bytes)
  moreover have "ucast (drop_bit 8 (u32_of_bytes a b c d)) = b"
    by (rule bit_word_eqI) (simp add: bit_simps bit_u32_of_bytes)
  moreover have "ucast (drop_bit 16 (u32_of_bytes a b c d)) = c"
    by (rule bit_word_eqI) (simp add: bit_simps bit_u32_of_bytes)
  moreover have "ucast (drop_bit 24 (u32_of_bytes a b c d)) = d"
    by (rule bit_word_eqI) (simp add: bit_simps bit_u32_of_bytes)
  ultimately show ?thesis by (simp add: bytes_of_u32_def)
qed

lemma u32_of_bytes_inject [simp]:
  "u32_of_bytes a b c d = u32_of_bytes a' b' c' d' \<longleftrightarrow> a = a' \<and> b = b' \<and> c = c' \<and> d = d'"
proof
  assume "u32_of_bytes a b c d = u32_of_bytes a' b' c' d'"
  then have "bytes_of_u32 (u32_of_bytes a b c d) = bytes_of_u32 (u32_of_bytes a' b' c' d')" by simp
  then show "a = a' \<and> b = b' \<and> c = c' \<and> d = d'" by (simp only: bytes_of_u32_of_bytes list.inject)
qed simp

text \<open>Reading a four-byte integer out of a byte buffer at an offset, and an array of shorts
  stored in a byte buffer (the view the code takes by casting a pointer).\<close>

definition get_u32 :: "byte list \<Rightarrow> nat \<Rightarrow> u32" where
  "get_u32 bs off = u32_of_bytes (bs ! off) (bs ! (off + 1)) (bs ! (off + 2)) (bs ! (off + 3))"

definition get_u16 :: "byte list \<Rightarrow> nat \<Rightarrow> u16" where
  "get_u16 bs off = u16_of_bytes (bs ! off) (bs ! (off + 1))"

fun u16s_of_bytes :: "byte list \<Rightarrow> u16 list" where
  "u16s_of_bytes (a # b # bs) = u16_of_bytes a b # u16s_of_bytes bs"
| "u16s_of_bytes _ = []"

definition bytes_of_u16s :: "u16 list \<Rightarrow> byte list" where
  "bytes_of_u16s ws = concat (map bytes_of_u16 ws)"

lemma length_bytes_of_u16s [layout, simp]: "length (bytes_of_u16s ws) = 2 * length ws"
  by (induction ws) (auto simp: bytes_of_u16s_def)

lemma u16s_of_bytes_of_u16s [layout, simp]: "u16s_of_bytes (bytes_of_u16s ws) = ws"
  by (induction ws) (auto simp: bytes_of_u16s_def bytes_of_u16_def)

lemma length_u16s_of_bytes [layout, simp]: "length (u16s_of_bytes bs) = length bs div 2"
  by (induction bs rule: u16s_of_bytes.induct) auto

lemma bytes_of_u16s_of_bytes [layout]:
  "even (length bs) \<Longrightarrow> bytes_of_u16s (u16s_of_bytes bs) = bs"
  by (induction bs rule: u16s_of_bytes.induct) (auto simp: bytes_of_u16s_def)

lemma get_u32_bytes [layout, simp]: "get_u32 (bytes_of_u32 w @ xs) 0 = w"
  by (simp add: get_u32_def bytes_of_u32_def)

text \<open>Overwriting part of a buffer at an offset.\<close>

definition splice :: "'a list \<Rightarrow> nat \<Rightarrow> 'a list \<Rightarrow> 'a list" where
  "splice buf off xs = take off buf @ xs @ drop (off + length xs) buf"

lemma length_splice [layout, simp]:
  "off + length xs \<le> length buf \<Longrightarrow> length (splice buf off xs) = length buf"
  by (simp add: splice_def)

lemma splice_read [layout, simp]:
  "off + length xs \<le> length buf \<Longrightarrow> take (length xs) (drop off (splice buf off xs)) = xs"
  by (simp add: splice_def)

lemma splice_nil [simp]: "splice buf off [] = buf"
  by (simp add: splice_def)

lemma nth_splice:
  assumes "off + length xs \<le> length buf" and "k < length buf"
  shows "splice buf off xs ! k =
    (if off \<le> k \<and> k < off + length xs then xs ! (k - off) else buf ! k)"
  using assms by (auto simp: splice_def nth_append min_def)

end
