(* ===== verification/Threading.thy ===== *)
theory Threading
  imports Prelude
begin

text \<open>
  The reader/writer spin lock of \<open>std/threading.c\<close> and \<open>include/std/threading.h\<close>.
  A lock is one 32-bit word: a reader count, a writer flag and an owner. The body of each loop
  iteration, what the code decides from the value it has just loaded, is an \<open>attempt\<close>.
  The four operations are given twice over the same attempts: as functions for an execution in
  which no other thread touches the word (then the compare-and-swap always succeeds), and as a
  step relation of any number of threads whose loads and compare-and-swaps interleave.
\<close>

unbundle bit_operations_syntax

section \<open>The lock word\<close>

type_synonym lock_t = u32
type_synonym owner_t = u16

definition LOCK_READERS_MASK :: u32 where "LOCK_READERS_MASK = 0x000000FF"
definition LOCK_WRITE_FLAG :: u32 where "LOCK_WRITE_FLAG = 0x00000100"
definition LOCK_OWNER_MASK :: u32 where "LOCK_OWNER_MASK = 0xFFFF0000"
definition OWNER_MASK :: u32 where "OWNER_MASK = 0xFFFF"
definition NO_OWNER :: u32 where "NO_OWNER = 0xFF"
definition REQUIRE_TIME :: nat where "REQUIRE_TIME = 99999"
definition MAX_READERS :: u32 where "MAX_READERS = 255"
definition get_thread_num :: owner_t where "get_thread_num = 0"

definition LOCK_IS_WRITE :: "lock_t \<Rightarrow> bool" where
  "LOCK_IS_WRITE lock = (lock AND LOCK_WRITE_FLAG \<noteq> 0)"

definition LOCK_GET_READERS :: "lock_t \<Rightarrow> u32" where
  "LOCK_GET_READERS lock = drop_bit 0 lock AND 0xFF"

definition LOCK_GET_OWNER :: "lock_t \<Rightarrow> u32" where
  "LOCK_GET_OWNER lock = drop_bit 16 (lock AND LOCK_OWNER_MASK)"

definition LOCK_PACK :: "u32 \<Rightarrow> bool \<Rightarrow> u32 \<Rightarrow> lock_t" where
  "LOCK_PACK readers is_write owner =
     (readers AND LOCK_READERS_MASK) OR push_bit 8 (if is_write then 1 else 0)
       OR push_bit 16 (owner AND OWNER_MASK)"

definition NULL_LOCK :: lock_t where "NULL_LOCK = LOCK_PACK 0 False NO_OWNER"

section \<open>One attempt\<close>

datatype attempt = Spin | Give int | Cas lock_t

definition require_read_attempt :: "lock_t \<Rightarrow> attempt" where
  "require_read_attempt old_val =
    (if LOCK_IS_WRITE old_val then Spin
     else let readers = LOCK_GET_READERS old_val in
       if readers \<ge> MAX_READERS then Give 0
       else Cas (LOCK_PACK (readers + 1) False NO_OWNER))"

definition release_read_attempt :: "lock_t \<Rightarrow> attempt" where
  "release_read_attempt old_val =
    (if LOCK_IS_WRITE old_val then Give 0
     else let readers = LOCK_GET_READERS old_val in
       if readers = 0 then Give 0
       else Cas (if readers = 1 then NULL_LOCK else LOCK_PACK (readers - 1) False NO_OWNER))"

definition require_write_attempt :: "owner_t \<Rightarrow> lock_t \<Rightarrow> attempt" where
  "require_write_attempt owner old_val =
    (if \<not> LOCK_IS_WRITE old_val \<and> LOCK_GET_READERS old_val = 0
     then Cas (LOCK_PACK 0 True (ucast owner)) else Spin)"

definition release_write_attempt :: "owner_t \<Rightarrow> lock_t \<Rightarrow> attempt" where
  "release_write_attempt owner old_val =
    (if \<not> LOCK_IS_WRITE old_val then Give 0
     else if LOCK_GET_OWNER old_val \<noteq> ucast owner then Give 0
     else Cas NULL_LOCK)"

section \<open>The operations, undisturbed\<close>

primrec spin :: "(lock_t \<Rightarrow> attempt) \<Rightarrow> nat \<Rightarrow> lock_t \<Rightarrow> int \<times> lock_t" where
  "spin att 0 lock = (0, lock)"
| "spin att (Suc delay) lock =
    (case att lock of Spin \<Rightarrow> spin att delay lock | Give r \<Rightarrow> (r, lock) | Cas new_val \<Rightarrow> (1, new_val))"

text \<open>The operations take a pointer to the lock; \<open>None\<close> is the \<open>NULL\<close> pointer.\<close>

definition THR_require_read :: "lock_t option \<Rightarrow> int \<times> lock_t option" where
  "THR_require_read lock = (case lock of None \<Rightarrow> (0, None)
     | Some l \<Rightarrow> map_prod id Some (spin require_read_attempt REQUIRE_TIME l))"

definition THR_require_write :: "lock_t option \<Rightarrow> owner_t \<Rightarrow> int \<times> lock_t option" where
  "THR_require_write lock owner = (case lock of None \<Rightarrow> (0, None)
     | Some l \<Rightarrow> map_prod id Some (spin (require_write_attempt owner) REQUIRE_TIME l))"

text \<open>The release loops have no bound. Undisturbed they end in their first iteration, since
  the attempt is never \<open>Spin\<close> (\<open>release_attempts_decide\<close> below).\<close>

definition THR_release_read :: "lock_t option \<Rightarrow> int \<times> lock_t option" where
  "THR_release_read lock = (case lock of None \<Rightarrow> (0, None)
     | Some l \<Rightarrow> map_prod id Some (spin release_read_attempt 1 l))"

definition THR_release_write :: "lock_t option \<Rightarrow> owner_t \<Rightarrow> int \<times> lock_t option" where
  "THR_release_write lock owner = (case lock of None \<Rightarrow> (0, None)
     | Some l \<Rightarrow> map_prod id Some (spin (release_write_attempt owner) 1 l))"

section \<open>Fields of a packed word\<close>

named_theorems lockword "fields of packed lock words"

lemma LOCK_IS_WRITE_bit: "LOCK_IS_WRITE l = bit l 8"
proof -
  have "(l AND LOCK_WRITE_FLAG \<noteq> 0) = (\<exists>n. bit (l AND LOCK_WRITE_FLAG) n)"
    by (metis bit_eq_iff bit_0_eq bot_apply bot_bool_def)
  also have "\<dots> = bit l 8"
  proof -
    have flag: "LOCK_WRITE_FLAG = push_bit 8 1" by (simp add: LOCK_WRITE_FLAG_def)
    show ?thesis unfolding flag by (auto simp: bit_simps simp del: push_bit_of_1)
  qed
  finally show ?thesis by (simp add: LOCK_IS_WRITE_def)
qed

lemma mask_defs: "LOCK_READERS_MASK = mask 8" "OWNER_MASK = mask 16" "LOCK_OWNER_MASK = push_bit 16 (mask 16)"
  by (simp_all add: LOCK_READERS_MASK_def OWNER_MASK_def LOCK_OWNER_MASK_def mask_eq_exp_minus_1)

lemma bit_LOCK_PACK:
  "bit (LOCK_PACK r w own) n =
     ((n < 8 \<and> bit r n) \<or> (n = 8 \<and> w) \<or> (16 \<le> n \<and> n < 32 \<and> bit own (n - 16)))"
  by (auto simp: LOCK_PACK_def mask_defs bit_simps)

lemma LOCK_PACK_is_write [lockword, simp]: "LOCK_IS_WRITE (LOCK_PACK r w own) = w"
  by (simp add: LOCK_IS_WRITE_bit bit_LOCK_PACK)

lemma LOCK_PACK_readers [lockword, simp]: "LOCK_GET_READERS (LOCK_PACK r w own) = r AND 0xFF"
proof -
  have m: "(0xFF :: u32) = mask 8" by (simp add: mask_eq_exp_minus_1)
  show ?thesis unfolding m LOCK_GET_READERS_def
    by (rule bit_word_eqI) (auto simp: bit_simps bit_LOCK_PACK)
qed

lemma LOCK_PACK_owner [lockword, simp]: "LOCK_GET_OWNER (LOCK_PACK r w own) = own AND 0xFFFF"
proof -
  have m: "(0xFFFF :: u32) = mask 16" by (simp add: mask_eq_exp_minus_1)
  show ?thesis unfolding m LOCK_GET_OWNER_def mask_defs
    by (rule bit_word_eqI) (auto simp: bit_simps bit_LOCK_PACK)
qed

lemma owner_fits [simp]: "(ucast (own :: owner_t) :: u32) AND 0xFFFF = ucast own"
proof -
  have m: "(0xFFFF :: u32) = mask 16" by (simp add: mask_eq_exp_minus_1)
  show ?thesis unfolding m by (rule bit_word_eqI) (auto simp: bit_simps dest: bit_imp_le_length)
qed

lemma NULL_LOCK_fields [lockword, simp]:
  "\<not> LOCK_IS_WRITE NULL_LOCK" "LOCK_GET_READERS NULL_LOCK = 0"
  by (simp_all add: NULL_LOCK_def)

lemma LOCK_GET_READERS_le: "LOCK_GET_READERS l \<le> 255"
  unfolding LOCK_GET_READERS_def by (simp add: word_and_le1)

lemma readers_AND_id: "r \<le> 255 \<Longrightarrow> (r :: u32) AND 0xFF = r"
proof -
  assume "r \<le> 255"
  then have "unat r < 2 ^ 8" by (simp add: word_le_nat_alt)
  then have "take_bit 8 r = r" by (simp add: word_unat_eq_iff unsigned_take_bit_eq take_bit_nat_eq_self)
  moreover have "(0xFF :: u32) = mask 8" by (simp add: mask_eq_exp_minus_1)
  ultimately show ?thesis by (simp add: take_bit_eq_mask)
qed

section \<open>Functional behaviour\<close>

lemma spin_eq:
  "n \<noteq> 0 \<Longrightarrow> spin att n l =
     (case att l of Spin \<Rightarrow> (0, l) | Give r \<Rightarrow> (r, l) | Cas new_val \<Rightarrow> (1, new_val))"
proof (induction n)
  case (Suc n)
  then show ?case by (cases n) (auto split: attempt.splits)
qed simp

lemma REQUIRE_TIME_pos [simp]: "0 < REQUIRE_TIME"
  by (simp add: REQUIRE_TIME_def)

lemma release_attempts_decide:
  "release_read_attempt l \<noteq> Spin" "release_write_attempt own l \<noteq> Spin"
  by (simp_all add: release_read_attempt_def release_write_attempt_def Let_def)

lemma THR_require_write_eq:
  "THR_require_write (Some l) own =
    (if \<not> LOCK_IS_WRITE l \<and> LOCK_GET_READERS l = 0 then (1, Some (LOCK_PACK 0 True (ucast own)))
     else (0, Some l))"
proof -
  have "spin (require_write_attempt own) REQUIRE_TIME l =
     (if \<not> LOCK_IS_WRITE l \<and> LOCK_GET_READERS l = 0 then (1, LOCK_PACK 0 True (ucast own)) else (0, l))"
    by (simp add: spin_eq require_write_attempt_def)
  then show ?thesis by (simp add: THR_require_write_def)
qed

lemma THR_release_write_eq:
  "THR_release_write (Some l) own =
    (if LOCK_IS_WRITE l \<and> LOCK_GET_OWNER l = ucast own then (1, Some NULL_LOCK) else (0, Some l))"
  by (simp add: THR_release_write_def release_write_attempt_def)

lemma THR_require_read_eq:
  "THR_require_read (Some l) =
    (if \<not> LOCK_IS_WRITE l \<and> LOCK_GET_READERS l < 255
     then (1, Some (LOCK_PACK (LOCK_GET_READERS l + 1) False NO_OWNER)) else (0, Some l))"
proof -
  have "spin require_read_attempt REQUIRE_TIME l =
     (if \<not> LOCK_IS_WRITE l \<and> LOCK_GET_READERS l < 255
      then (1, LOCK_PACK (LOCK_GET_READERS l + 1) False NO_OWNER) else (0, l))"
    by (auto simp: spin_eq require_read_attempt_def MAX_READERS_def Let_def)
  then show ?thesis by (simp add: THR_require_read_def)
qed

text \<open>The word the single writer of this build (owner 0) leaves in a lock it holds.\<close>

definition HELD :: lock_t where "HELD = LOCK_PACK 0 True (ucast get_thread_num)"

lemma HELD_fields [lockword, simp]:
  "LOCK_IS_WRITE HELD" "LOCK_GET_READERS HELD = 0" "LOCK_GET_OWNER HELD = 0"
  by (simp_all add: HELD_def get_thread_num_def)

lemma lock_cycle [lockword, simp]:
  "THR_require_write (Some NULL_LOCK) get_thread_num = (1, Some HELD)"
  "THR_release_write (Some HELD) get_thread_num = (1, Some NULL_LOCK)"
  "THR_require_write (Some HELD) get_thread_num = (0, Some HELD)"
  "THR_release_write (Some NULL_LOCK) get_thread_num = (0, Some NULL_LOCK)"
  by (simp_all add: THR_require_write_eq THR_release_write_eq HELD_def get_thread_num_def)

text \<open>The contract of an exclusive lock, and what follows from it for a critical section.\<close>

locale exclusive_lock =
  fixes acquire :: "'l \<Rightarrow> int \<times> 'l" and release :: "'l \<Rightarrow> int \<times> 'l"
    and idle :: "'l \<Rightarrow> bool" and held :: "'l \<Rightarrow> bool"
  assumes acquire_idle: "idle l \<Longrightarrow> fst (acquire l) = 1 \<and> held (snd (acquire l))"
    and acquire_held: "held l \<Longrightarrow> acquire l = (0, l)"
    and release_held: "held l \<Longrightarrow> fst (release l) = 1 \<and> idle (snd (release l))"
    and release_idle: "idle l \<Longrightarrow> release l = (0, l)"
begin

lemma critical_section: "idle l \<Longrightarrow> idle (snd (release (snd (acquire l))))"
  using acquire_idle release_held by blast

lemma no_reentry: "idle l \<Longrightarrow> acquire (snd (acquire l)) = (0, snd (acquire l))"
  using acquire_idle acquire_held by blast

lemma release_once:
  "held l \<Longrightarrow> release (snd (release l)) = (0, snd (release l))"
  using release_held release_idle by blast

lemma idle_not_held: "idle l \<Longrightarrow> \<not> held l"
  using acquire_idle acquire_held by force

end

text \<open>A lock word is idle for \<open>THR_require_write\<close> when it has no writer and no reader, and it is
  held by an owner when it carries the writer flag and that owner.\<close>

definition lock_idle :: "lock_t option \<Rightarrow> bool" where
  "lock_idle l = (case l of None \<Rightarrow> False | Some w \<Rightarrow> \<not> LOCK_IS_WRITE w \<and> LOCK_GET_READERS w = 0)"

definition lock_held :: "owner_t \<Rightarrow> lock_t option \<Rightarrow> bool" where
  "lock_held own l = (case l of None \<Rightarrow> False | Some w \<Rightarrow> LOCK_IS_WRITE w \<and> LOCK_GET_OWNER w = ucast own)"

interpretation wlock: exclusive_lock "\<lambda>l. THR_require_write l own" "\<lambda>l. THR_release_write l own"
  lock_idle "lock_held own" for own :: owner_t
  by unfold_locales
    (auto simp: lock_idle_def lock_held_def THR_require_write_eq THR_release_write_eq split: option.splits)

lemma HELD_neq_NULL_LOCK [simp]: "HELD \<noteq> NULL_LOCK" "NULL_LOCK \<noteq> HELD"
  using HELD_fields(1) NULL_LOCK_fields(1) by metis+

section \<open>Interleaved execution\<close>

text \<open>
  A thread is between two of its accesses to the lock word. \<open>Load op d\<close> is about to load the
  word with \<open>d\<close> iterations left, \<open>Try op d old\<close> has decided from \<open>old\<close> and is about to
  compare-and-swap. \<open>Reading\<close> and \<open>Writing\<close> are the critical sections, which the callers leave
  through the matching release. A release has no iteration bound, so its count is not used.
\<close>

datatype thr_op = ReqRead | RelRead | ReqWrite | RelWrite

datatype thr_pc = Outside | Load thr_op nat | Try thr_op nat lock_t lock_t | Reading | Writing

record lock_world =
  word_of_lock :: lock_t
  pcs :: "thr_pc list"

primrec attempt_of :: "thr_op \<Rightarrow> owner_t \<Rightarrow> lock_t \<Rightarrow> attempt" where
  "attempt_of ReqRead own = require_read_attempt"
| "attempt_of RelRead own = release_read_attempt"
| "attempt_of ReqWrite own = require_write_attempt own"
| "attempt_of RelWrite own = release_write_attempt own"

primrec acquired :: "thr_op \<Rightarrow> thr_pc" where
  "acquired ReqRead = Reading"
| "acquired RelRead = Outside"
| "acquired ReqWrite = Writing"
| "acquired RelWrite = Outside"

text \<open>Where a failed attempt leaves the thread: a request ends outside without the lock or
  counts its delay down, a release tries again.\<close>

primrec retry :: "thr_op \<Rightarrow> nat \<Rightarrow> thr_pc" where
  "retry ReqRead d = (if d = 0 then Outside else Load ReqRead d)"
| "retry ReqWrite d = (if d = 0 then Outside else Load ReqWrite d)"
| "retry RelRead d = Load RelRead d"
| "retry RelWrite d = Load RelWrite d"

primrec tick :: "thr_op \<Rightarrow> nat \<Rightarrow> nat" where
  "tick ReqRead d = d - 1"
| "tick ReqWrite d = d - 1"
| "tick RelRead d = d"
| "tick RelWrite d = d"

definition goto :: "nat \<Rightarrow> thr_pc \<Rightarrow> lock_world \<Rightarrow> lock_world" where
  "goto t pc w = w\<lparr>pcs := (pcs w)[t := pc]\<rparr>"

inductive lock_step :: "(nat \<Rightarrow> owner_t) \<Rightarrow> lock_world \<Rightarrow> lock_world \<Rightarrow> bool"
  for own :: "nat \<Rightarrow> owner_t" where
  call_read: "t < length (pcs w) \<Longrightarrow> pcs w ! t = Outside \<Longrightarrow>
     lock_step own w (goto t (Load ReqRead REQUIRE_TIME) w)"
| call_write: "t < length (pcs w) \<Longrightarrow> pcs w ! t = Outside \<Longrightarrow>
     lock_step own w (goto t (Load ReqWrite REQUIRE_TIME) w)"
| leave_read: "t < length (pcs w) \<Longrightarrow> pcs w ! t = Reading \<Longrightarrow>
     lock_step own w (goto t (Load RelRead 0) w)"
| leave_write: "t < length (pcs w) \<Longrightarrow> pcs w ! t = Writing \<Longrightarrow>
     lock_step own w (goto t (Load RelWrite 0) w)"
| load_spin: "t < length (pcs w) \<Longrightarrow> pcs w ! t = Load op d \<Longrightarrow>
     attempt_of op (own t) (word_of_lock w) = Spin \<Longrightarrow>
     lock_step own w (goto t (retry op (tick op d)) w)"
| load_give: "t < length (pcs w) \<Longrightarrow> pcs w ! t = Load op d \<Longrightarrow>
     attempt_of op (own t) (word_of_lock w) = Give r \<Longrightarrow>
     lock_step own w (goto t Outside w)"
| load_try: "t < length (pcs w) \<Longrightarrow> pcs w ! t = Load op d \<Longrightarrow>
     attempt_of op (own t) (word_of_lock w) = Cas new_val \<Longrightarrow>
     lock_step own w (goto t (Try op d (word_of_lock w) new_val) w)"
| cas_ok: "t < length (pcs w) \<Longrightarrow> pcs w ! t = Try op d old_val new_val \<Longrightarrow>
     word_of_lock w = old_val \<Longrightarrow>
     lock_step own w (goto t (acquired op) (w\<lparr>word_of_lock := new_val\<rparr>))"
| cas_lost: "t < length (pcs w) \<Longrightarrow> pcs w ! t = Try op d old_val new_val \<Longrightarrow>
     word_of_lock w \<noteq> old_val \<Longrightarrow>
     lock_step own w (goto t (retry op (tick op d)) w)"

inductive lock_reachable :: "(nat \<Rightarrow> owner_t) \<Rightarrow> nat \<Rightarrow> lock_world \<Rightarrow> bool"
  for own :: "nat \<Rightarrow> owner_t" and n :: nat where
  start: "lock_reachable own n \<lparr>word_of_lock = NULL_LOCK, pcs = replicate n Outside\<rparr>"
| step: "lock_reachable own n w \<Longrightarrow> lock_step own w w' \<Longrightarrow> lock_reachable own n w'"

text \<open>Who holds what: a thread holds its share until the compare-and-swap of its release.\<close>

fun holds_read :: "thr_pc \<Rightarrow> bool" where
  "holds_read Reading = True"
| "holds_read (Load RelRead _) = True"
| "holds_read (Try RelRead _ _ _) = True"
| "holds_read _ = False"

fun holds_write :: "thr_pc \<Rightarrow> bool" where
  "holds_write Writing = True"
| "holds_write (Load RelWrite _) = True"
| "holds_write (Try RelWrite _ _ _) = True"
| "holds_write _ = False"

definition readers_of :: "lock_world \<Rightarrow> nat" where
  "readers_of w = length (filter holds_read (pcs w))"

definition writers_of :: "lock_world \<Rightarrow> nat" where
  "writers_of w = length (filter holds_write (pcs w))"

text \<open>A pending compare-and-swap was decided by the operation's own attempt.\<close>

definition try_ok :: "(nat \<Rightarrow> owner_t) \<Rightarrow> lock_world \<Rightarrow> bool" where
  "try_ok own w = (\<forall>t < length (pcs w). \<forall>op d old new_val.
     pcs w ! t = Try op d old new_val \<longrightarrow> attempt_of op (own t) old = Cas new_val)"

definition lock_inv :: "(nat \<Rightarrow> owner_t) \<Rightarrow> lock_world \<Rightarrow> bool" where
  "lock_inv own w = (try_ok own w \<and>
     (if LOCK_IS_WRITE (word_of_lock w)
      then writers_of w = 1 \<and> readers_of w = 0 \<and> LOCK_GET_READERS (word_of_lock w) = 0 \<and>
        (\<forall>t < length (pcs w). holds_write (pcs w ! t) \<longrightarrow> LOCK_GET_OWNER (word_of_lock w) = ucast (own t))
      else writers_of w = 0 \<and> readers_of w = unat (LOCK_GET_READERS (word_of_lock w))))"

lemma count_update:
  "t < length xs \<Longrightarrow>
    length (filter P (xs[t := x])) + (if P (xs ! t) then 1 else 0) =
    length (filter P xs) + (if P x then 1 else (0::nat))"
proof (induction xs arbitrary: t)
  case (Cons y ys)
  then show ?case by (cases t) (auto split: if_splits)
qed simp

lemma count_pos: "t < length xs \<Longrightarrow> P (xs ! t) \<Longrightarrow> 0 < length (filter P xs)"
  by (auto simp: filter_empty_conv)

lemma count_one:
  assumes "length (filter P xs) = 1" "t < length xs" "P (xs ! t)" "u < length xs" "P (xs ! u)"
  shows "t = u"
proof (rule ccontr)
  assume neq: "t \<noteq> u"
  have "{t, u} \<subseteq> {i. i < length xs \<and> P (xs ! i)}" using assms by auto
  then have "card {t, u} \<le> card {i. i < length xs \<and> P (xs ! i)}" by (intro card_mono) auto
  then show False using assms(1) neq by (simp add: length_filter_conv_card)
qed

lemma goto_simps [simp]:
  "word_of_lock (goto t pc w) = word_of_lock w"
  "pcs (goto t pc w) = (pcs w)[t := pc]"
  by (simp_all add: goto_def)

lemma readers_goto:
  "t < length (pcs w) \<Longrightarrow>
    readers_of (goto t pc w) + (if holds_read (pcs w ! t) then 1 else 0) =
    readers_of w + (if holds_read pc then 1 else 0)"
  by (simp add: readers_of_def count_update)

lemma writers_goto:
  "t < length (pcs w) \<Longrightarrow>
    writers_of (goto t pc w) + (if holds_write (pcs w ! t) then 1 else 0) =
    writers_of w + (if holds_write pc then 1 else 0)"
  by (simp add: writers_of_def count_update)

lemma readers_pos: "t < length (pcs w) \<Longrightarrow> holds_read (pcs w ! t) \<Longrightarrow> 0 < readers_of w"
  by (simp only: readers_of_def count_pos)

lemma writers_pos: "t < length (pcs w) \<Longrightarrow> holds_write (pcs w ! t) \<Longrightarrow> 0 < writers_of w"
  by (simp only: writers_of_def count_pos)

lemma inv_goto:
  assumes "lock_inv own w" and "t < length (pcs w)"
    and "holds_read pc = holds_read (pcs w ! t)" and "holds_write pc = holds_write (pcs w ! t)"
    and "\<And>op d old new_val. pc = Try op d old new_val \<Longrightarrow> attempt_of op (own t) old = Cas new_val"
  shows "lock_inv own (goto t pc w)"
proof -
  have "readers_of (goto t pc w) = readers_of w" "writers_of (goto t pc w) = writers_of w"
    using readers_goto[OF assms(2), of pc] writers_goto[OF assms(2), of pc] assms(3,4)
    by (auto split: if_splits)
  moreover have "try_ok own (goto t pc w)"
    using assms(1,2,5) by (simp add: lock_inv_def try_ok_def nth_list_update)
  moreover have "holds_write ((pcs w)[t := pc] ! u) = holds_write (pcs w ! u)" if "u < length (pcs w)" for u
    using assms(2,4) that by (simp add: nth_list_update)
  ultimately show ?thesis using assms(1) by (auto simp: lock_inv_def)
qed

lemma retry_holds [simp]:
  "holds_read (retry op n) = holds_read (Load op d)" "holds_write (retry op n) = holds_write (Load op d)"
  "retry op n \<noteq> Try op' d' old new_val"
  by (cases op; simp)+

lemma Try_holds [simp]:
  "holds_read (Try op d old v) = holds_read (Load op d)" "holds_write (Try op d old v) = holds_write (Load op d)"
  by (cases op; simp)+

lemma inv_give:
  assumes inv: "lock_inv own w" and t: "t < length (pcs w)" "pcs w ! t = Load op d"
    and g: "attempt_of op (own t) (word_of_lock w) = Give r"
  shows "lock_inv own (goto t Outside w)"
proof -
  have "\<not> holds_read (Load op d) \<and> \<not> holds_write (Load op d)"
  proof (cases op)
    case RelRead
    then have "0 < readers_of w" using t by (intro readers_pos) auto
    then show ?thesis using inv g RelRead
      by (auto simp: lock_inv_def release_read_attempt_def Let_def split: if_splits)
  next
    case RelWrite
    then have "holds_write (pcs w ! t)" using t by simp
    then have "holds_write (pcs w ! t)" "0 < writers_of w" using t writers_pos by auto
    then show ?thesis using inv g RelWrite t(1)
      by (auto simp: lock_inv_def release_write_attempt_def split: if_splits)
  qed auto
  then show ?thesis using inv t by (intro inv_goto) auto
qed

lemma inv_cas:
  assumes inv: "lock_inv own w" and t: "t < length (pcs w)" "pcs w ! t = Try op d (word_of_lock w) v"
  shows "lock_inv own (goto t (acquired op) (w\<lparr>word_of_lock := v\<rparr>))"
proof -
  let ?w = "w\<lparr>word_of_lock := v\<rparr>" let ?g = "goto t (acquired op) ?w"
  have att: "attempt_of op (own t) (word_of_lock w) = Cas v"
    using inv t by (auto simp: lock_inv_def try_ok_def)
  have same: "readers_of ?w = readers_of w" "writers_of ?w = writers_of w"
    by (simp_all add: readers_of_def writers_of_def)
  have tok: "try_ok own ?g"
    using inv t(1) by (cases op) (simp_all add: lock_inv_def try_ok_def nth_list_update)
  have r: "readers_of ?g + (if holds_read (Load op d) then 1 else 0) =
      readers_of w + (if holds_read (acquired op) then 1 else 0)"
    using readers_goto[of t ?w "acquired op"] t same by simp
  have wr: "writers_of ?g + (if holds_write (Load op d) then 1 else 0) =
      writers_of w + (if holds_write (acquired op) then 1 else 0)"
    using writers_goto[of t ?w "acquired op"] t same by simp
  have le: "LOCK_GET_READERS (word_of_lock w) \<le> 255" by (rule LOCK_GET_READERS_le)
  show ?thesis
  proof (cases op)
    case ReqRead
    then have lt: "LOCK_GET_READERS (word_of_lock w) < 255" and nw: "\<not> LOCK_IS_WRITE (word_of_lock w)"
      and v: "v = LOCK_PACK (LOCK_GET_READERS (word_of_lock w) + 1) False NO_OWNER"
      using att by (auto simp: require_read_attempt_def MAX_READERS_def Let_def split: if_splits)
    have "LOCK_GET_READERS (word_of_lock w) + 1 \<le> 255" using lt by (rule inc_le)
    then have "LOCK_GET_READERS v = LOCK_GET_READERS (word_of_lock w) + 1"
      by (simp add: v readers_AND_id)
    moreover have "unat (LOCK_GET_READERS (word_of_lock w) + 1) = Suc (unat (LOCK_GET_READERS (word_of_lock w)))"
      using lt by (simp add: unatSuc word_less_nat_alt unat_word_ariths)
    ultimately show ?thesis using inv ReqRead nw r wr tok by (simp add: lock_inv_def v)
  next
    case RelRead
    then have nz: "LOCK_GET_READERS (word_of_lock w) \<noteq> 0" and nw: "\<not> LOCK_IS_WRITE (word_of_lock w)"
      and v: "v = (if LOCK_GET_READERS (word_of_lock w) = 1 then NULL_LOCK
                   else LOCK_PACK (LOCK_GET_READERS (word_of_lock w) - 1) False NO_OWNER)"
      using att by (auto simp: release_read_attempt_def Let_def split: if_splits)
    have m: "unat (LOCK_GET_READERS (word_of_lock w) - 1) = unat (LOCK_GET_READERS (word_of_lock w)) - 1"
      using nz by (simp add: unat_minus_one)
    then have "LOCK_GET_READERS (word_of_lock w) - 1 \<le> 255" using le by (simp add: word_le_nat_alt)
    then have "LOCK_GET_READERS v = LOCK_GET_READERS (word_of_lock w) - 1"
      by (simp add: v readers_AND_id)
    moreover have "0 < unat (LOCK_GET_READERS (word_of_lock w))" using nz by (simp add: unat_gt_0)
    moreover have "\<not> LOCK_IS_WRITE v" by (simp add: v)
    ultimately show ?thesis using inv RelRead nw r wr tok m by (simp add: lock_inv_def)
  next
    case ReqWrite
    then have z: "LOCK_GET_READERS (word_of_lock w) = 0" and nw: "\<not> LOCK_IS_WRITE (word_of_lock w)"
      and v: "v = LOCK_PACK 0 True (ucast (own t))"
      using att by (auto simp: require_write_attempt_def split: if_splits)
    have w0: "writers_of w = 0" using inv nw by (simp add: lock_inv_def)
    have "holds_write ((pcs w)[t := Writing] ! u) \<Longrightarrow> u = t" if "u < length (pcs w)" for u
      using w0 writers_pos[OF that] that t(1) by (auto simp: nth_list_update split: if_splits)
    then show ?thesis using inv ReqWrite nw z r wr tok by (auto simp: lock_inv_def v)
  next
    case RelWrite
    then have "v = NULL_LOCK" "LOCK_IS_WRITE (word_of_lock w)"
      using att by (auto simp: release_write_attempt_def split: if_splits)
    then show ?thesis using inv RelWrite r wr tok by (simp add: lock_inv_def)
  qed
qed

lemma lock_inv_step: "lock_step own w w' \<Longrightarrow> lock_inv own w \<Longrightarrow> lock_inv own w'"
proof (induction rule: lock_step.induct)
  case (load_give t w op d r)
  then show ?case by (intro inv_give)
next
  case (cas_ok t w op d old_val new_val)
  then show ?case by (auto intro: inv_cas)
next
  case (load_spin t w op d)
  then show ?case by (intro inv_goto) auto
next
  case (cas_lost t w op d old_val new_val)
  then show ?case by (intro inv_goto) auto
next
  case (load_try t w op d new_val)
  then show ?case by (intro inv_goto) auto
qed (auto intro: inv_goto)

lemma lock_inv_reachable: "lock_reachable own n w \<Longrightarrow> lock_inv own w"
proof (induction rule: lock_reachable.induct)
  case start
  then show ?case by (auto simp: lock_inv_def try_ok_def readers_of_def writers_of_def)
next
  case (step w w')
  then show ?case using lock_inv_step by blast
qed

text \<open>Mutual exclusion over every interleaving, and what an observer of the word may conclude.\<close>

lemma writer_alone:
  assumes "lock_reachable own n w" and "t < length (pcs w)" "holds_write (pcs w ! t)"
    and "u < length (pcs w)" "u \<noteq> t"
  shows "\<not> holds_write (pcs w ! u)" and "\<not> holds_read (pcs w ! u)"
proof -
  have inv: "lock_inv own w" by (rule lock_inv_reachable[OF assms(1)])
  have "0 < writers_of w" using assms(2,3) by (rule writers_pos)
  then have one: "writers_of w = 1" and none: "readers_of w = 0"
    using inv by (auto simp: lock_inv_def split: if_splits)
  show "\<not> holds_write (pcs w ! u)"
    using count_one[of holds_write "pcs w" t u] one assms by (auto simp: writers_of_def)
  show "\<not> holds_read (pcs w ! u)"
    using none readers_pos[OF assms(4)] by auto
qed

inductive_cases lock_stepE: "lock_step own w w'"

inductive_simps lock_step_iff: "lock_step own w w'"

section \<open>Properties\<close>

text \<open>C21 (mutual exclusion over every interleaving). In every state that any number of threads can
  reach by interleaving the loads and compare-and-swaps of \<open>THR_require_read\<close>, \<open>THR_release_read\<close>,
  \<open>THR_require_write\<close> and \<open>THR_release_write\<close> on one lock word, a thread that holds the lock for
  writing is the only holder, and the word records its owner.\<close>

theorem lock_mutual_exclusion:
  assumes "lock_reachable own n w" and "t < length (pcs w)" and "holds_write (pcs w ! t)"
  shows "LOCK_IS_WRITE (word_of_lock w) \<and> LOCK_GET_OWNER (word_of_lock w) = ucast (own t) \<and>
    (\<forall>u < length (pcs w). u \<noteq> t \<longrightarrow> \<not> holds_write (pcs w ! u) \<and> \<not> holds_read (pcs w ! u))"
proof -
  have inv: "lock_inv own w" by (rule lock_inv_reachable[OF assms(1)])
  moreover have "0 < writers_of w" using assms(2,3) by (rule writers_pos)
  ultimately have "LOCK_IS_WRITE (word_of_lock w)" "LOCK_GET_OWNER (word_of_lock w) = ucast (own t)"
    using assms(2,3) by (auto simp: lock_inv_def split: if_splits)
  then show ?thesis using writer_alone[OF assms] by blast
qed

text \<open>One of two threads takes the lock for writing.\<close>

theorem lock_mutual_exclusion_witness:
  "\<exists>w. lock_reachable (\<lambda>_. 7) 2 w \<and> pcs w = [Writing, Outside] \<and> LOCK_GET_OWNER (word_of_lock w) = 7"
proof -
  let ?own = "\<lambda>_. 7 :: owner_t"
  define w0 where "w0 = \<lparr>word_of_lock = NULL_LOCK, pcs = replicate 2 Outside\<rparr>"
  define l where "l = LOCK_PACK 0 True (ucast (7 :: owner_t))"
  have r0: "lock_reachable ?own 2 w0" unfolding w0_def by (rule lock_reachable.start)
  have "lock_step ?own w0 (goto 0 (Load ReqWrite REQUIRE_TIME) w0)"
    by (rule lock_step.call_write) (simp_all add: w0_def)
  then have r1: "lock_reachable ?own 2 \<lparr>word_of_lock = NULL_LOCK, pcs = [Load ReqWrite REQUIRE_TIME, Outside]\<rparr>"
    using r0 lock_reachable.step by (fastforce simp: goto_def w0_def numeral_2_eq_2)
  have a: "attempt_of ReqWrite 7 NULL_LOCK = Cas l" by (simp add: require_write_attempt_def l_def NULL_LOCK_def)
  have "lock_step ?own \<lparr>word_of_lock = NULL_LOCK, pcs = [Load ReqWrite REQUIRE_TIME, Outside]\<rparr>
      (goto 0 (Try ReqWrite REQUIRE_TIME NULL_LOCK l) \<lparr>word_of_lock = NULL_LOCK, pcs = [Load ReqWrite REQUIRE_TIME, Outside]\<rparr>)"
    using lock_step.load_try[of 0 "\<lparr>word_of_lock = NULL_LOCK, pcs = [Load ReqWrite REQUIRE_TIME, Outside]\<rparr>"
        ReqWrite REQUIRE_TIME ?own l] a by simp
  then have r2: "lock_reachable ?own 2 \<lparr>word_of_lock = NULL_LOCK, pcs = [Try ReqWrite REQUIRE_TIME NULL_LOCK l, Outside]\<rparr>"
    using r1 lock_reachable.step by (fastforce simp: goto_def)
  have "lock_step ?own \<lparr>word_of_lock = NULL_LOCK, pcs = [Try ReqWrite REQUIRE_TIME NULL_LOCK l, Outside]\<rparr>
      \<lparr>word_of_lock = l, pcs = [Writing, Outside]\<rparr>"
    using lock_step.cas_ok[of 0 "\<lparr>word_of_lock = NULL_LOCK, pcs = [Try ReqWrite REQUIRE_TIME NULL_LOCK l, Outside]\<rparr>"
        ReqWrite REQUIRE_TIME NULL_LOCK l ?own] by (simp add: goto_def)
  then have r3: "lock_reachable ?own 2 \<lparr>word_of_lock = l, pcs = [Writing, Outside]\<rparr>"
    using r2 lock_reachable.step by blast
  have "LOCK_GET_OWNER l = 7" using lock_mutual_exclusion[OF r3, of 0] by simp
  then show ?thesis using r3 by (intro exI[of _ "\<lparr>word_of_lock = l, pcs = [Writing, Outside]\<rparr>"]) simp
qed

end
