(* ===== verification/Mm.thy ===== *)
theory Mm
  imports Threading
begin

text \<open>
  The default memory manager of \<open>std/mm.c\<close> and \<open>include/std/mm.h\<close>: a static buffer cut into
  blocks that form a singly linked list, first fit, splitting and lazy coalescing. A block
  header is a record stored at the offset of the block in the buffer; the pointer arithmetic of
  the code is arithmetic on these offsets. Headers stay in the heap when blocks are merged, as the
  bytes do. What clients store in their blocks is modelled by the components that own them.
\<close>

unbundle bit_operations_syntax

section \<open>State\<close>

type_synonym u64 = "64 word"

definition ALLOC_BUFFER_SIZE :: nat where "ALLOC_BUFFER_SIZE = 512000"
definition ALIGNMENT :: nat where "ALIGNMENT = 8"
definition MM_BLOCK_MAGIC :: u32 where "MM_BLOCK_MAGIC = 0xC07DE"
definition NO_OFFSET :: u32 where "NO_OFFSET = 0"
definition sizeof_mm_block :: nat where "sizeof_mm_block = 24"

record mm_block =
  blk_magic :: u32
  blk_size :: u32
  blk_free :: byte
  blk_next :: "nat option"

text \<open>A function pointer of the manager is unset, the function of this file, or one of the
  platform, which acts on the state of the outside world.\<close>

datatype 'f fptr = Null_fun | Builtin | User 'f

record 'w mm_manager =
  mgr_init :: "('w \<Rightarrow> int \<times> 'w) fptr"
  mgr_malloc :: "(u64 \<Rightarrow> 'w \<Rightarrow> nat option \<times> 'w) fptr"
  mgr_free :: "(nat option \<Rightarrow> 'w \<Rightarrow> 'w) fptr"

record 'w mm_state =
  world :: 'w
  mm_manager :: "'w mm_manager"
  mm_heap :: "nat \<Rightarrow> mm_block option"
  mm_allocated :: u32
  malloc_lock :: lock_t

definition mm_head :: nat where "mm_head = 0"

definition lock_malloc :: "('w, 'z) mm_state_scheme \<Rightarrow> (int \<times> ('w, 'z) mm_state_scheme) option" where
  "lock_malloc s = (let (r, l) = THR_require_write (Some (malloc_lock s)) get_thread_num
     in Some (r, s\<lparr>malloc_lock := the l\<rparr>))"

definition unlock_malloc :: "('w, 'z) mm_state_scheme \<Rightarrow> (int \<times> ('w, 'z) mm_state_scheme) option" where
  "unlock_malloc s = (let (r, l) = THR_release_write (Some (malloc_lock s)) get_thread_num
     in Some (r, s\<lparr>malloc_lock := the l\<rparr>))"

definition put_block :: "nat \<Rightarrow> mm_block \<Rightarrow> ('w, 'z) mm_state_scheme \<Rightarrow> ('w, 'z) mm_state_scheme" where
  "put_block a b s = s\<lparr>mm_heap := (mm_heap s)(a \<mapsto> b)\<rparr>"

section \<open>Operations\<close>

definition mm_init :: "('w, 'z) mm_state_scheme \<Rightarrow> (int \<times> ('w, 'z) mm_state_scheme) option" where
  "mm_init s = do {
     b \<leftarrow> mm_heap s mm_head;
     Some (1, if blk_magic b \<noteq> MM_BLOCK_MAGIC
       then put_block mm_head \<lparr>blk_magic = MM_BLOCK_MAGIC,
              blk_size = of_nat (ALLOC_BUFFER_SIZE - sizeof_mm_block), blk_free = 1, blk_next = None\<rparr> s
       else s) }"

definition nft32_mm_init :: "('w, 'z) mm_state_scheme \<Rightarrow> (int \<times> ('w, 'z) mm_state_scheme) option" where
  "nft32_mm_init s = (case mgr_init (mm_manager s) of
     Null_fun \<Rightarrow> Some (1, s)
   | Builtin \<Rightarrow> mm_init s
   | User f \<Rightarrow> (let (r, w) = f (world s) in Some (r, s\<lparr>world := w\<rparr>)))"

text \<open>One pass over the list. The result says whether two blocks were merged.\<close>

partial_function (option) coalesce_pass ::
  "nat option \<Rightarrow> bool \<Rightarrow> ('w, 'z) mm_state_scheme \<Rightarrow> (bool \<times> ('w, 'z) mm_state_scheme) option" where
  "coalesce_pass cur merged s = (case cur of
     None \<Rightarrow> Some (merged, s)
   | Some a \<Rightarrow> do {
       b \<leftarrow> mm_heap s a;
       if blk_magic b \<noteq> MM_BLOCK_MAGIC then Some (merged, s)
       else (case blk_next b of
         None \<Rightarrow> Some (merged, s)
       | Some n \<Rightarrow> do {
           nb \<leftarrow> mm_heap s n;
           if blk_free b \<noteq> 0 \<and> blk_free nb \<noteq> 0
           then coalesce_pass cur True
             (put_block a (b\<lparr>blk_size := blk_size b + (of_nat sizeof_mm_block + blk_size nb),
                blk_next := blk_next nb\<rparr>) s)
           else coalesce_pass (blk_next b) merged s }) })"

partial_function (option) coalesce_memory ::
  "('w, 'z) mm_state_scheme \<Rightarrow> (int \<times> ('w, 'z) mm_state_scheme) option" where
  "coalesce_memory s = do {
     (merged, s) \<leftarrow> coalesce_pass (Some mm_head) False s;
     if merged then coalesce_memory s else Some (1, s) }"

definition align_u64 :: "u64 \<Rightarrow> u64" where
  "align_u64 sz = (sz + (of_nat ALIGNMENT - 1)) AND NOT (of_nat ALIGNMENT - 1)"

definition align_u32 :: "u32 \<Rightarrow> u32" where
  "align_u32 off = (off + (of_nat ALIGNMENT - 1)) AND NOT (of_nat ALIGNMENT - 1)"

text \<open>What the code does with the block it has chosen: split it when the rest can hold a header,
  mark it used and count it. The sizes are computed in \<open>unsigned long\<close> and stored in
  \<open>unsigned int\<close>.\<close>

definition take_block :: "u64 \<Rightarrow> nat \<Rightarrow> mm_block \<Rightarrow> ('w, 'z) mm_state_scheme \<Rightarrow> ('w, 'z) mm_state_scheme" where
  "take_block sz a b s = (let
     (b, s) = (if ucast (blk_size b) \<ge> sz + of_nat sizeof_mm_block
       then let new = a + sizeof_mm_block + unat sz in
         (b\<lparr>blk_next := Some new, blk_size := ucast sz\<rparr>,
          put_block new \<lparr>blk_magic = MM_BLOCK_MAGIC,
            blk_size = ucast (ucast (blk_size b) - sz - of_nat sizeof_mm_block :: u64),
            blk_free = 1, blk_next = blk_next b\<rparr> s)
       else (b, s));
     b = b\<lparr>blk_free := 0\<rparr>
   in (put_block a b s)\<lparr>mm_allocated := mm_allocated s + (blk_size b + of_nat sizeof_mm_block)\<rparr>)"

partial_function (option) malloc_walk ::
  "u64 \<Rightarrow> u32 \<Rightarrow> nat option \<Rightarrow> ('w, 'z) mm_state_scheme \<Rightarrow> (nat option \<times> ('w, 'z) mm_state_scheme) option" where
  "malloc_walk sz offset cur s = (case cur of
     None \<Rightarrow> Some (None, s)
   | Some a \<Rightarrow> do {
       b \<leftarrow> mm_heap s a;
       if blk_magic b \<noteq> MM_BLOCK_MAGIC then Some (None, s)
       else let position = of_nat (a + sizeof_mm_block) in
       if blk_free b \<noteq> 0 \<and> ucast (blk_size b) \<ge> sz \<and> position \<ge> offset
       then Some (Some (a + sizeof_mm_block), take_block sz a b s)
       else malloc_walk sz offset (blk_next b) s })"

text \<open>The function calls itself once, with \<open>prepare_mem\<close> set; \<open>n\<close> counts that call.\<close>

primrec malloc_s_aux ::
  "nat \<Rightarrow> u64 \<Rightarrow> u32 \<Rightarrow> bool \<Rightarrow> ('w, 'z) mm_state_scheme \<Rightarrow> (nat option \<times> ('w, 'z) mm_state_scheme) option" where
  "malloc_s_aux 0 sz offset prepare_mem s = None"
| "malloc_s_aux (Suc n) sz offset prepare_mem s =
    (if sz = 0 then Some (None, s)
     else let sz = align_u64 sz; offset = align_u32 offset in do {
       (ok, s) \<leftarrow> lock_malloc s;
       if ok \<noteq> 0 then do {
         (_, s) \<leftarrow> (if prepare_mem then coalesce_memory s else Some (0, s));
         (ptr, s) \<leftarrow> malloc_walk sz offset (Some mm_head) s;
         (_, s) \<leftarrow> unlock_malloc s;
         (case ptr of Some p \<Rightarrow> Some (Some p, s)
          | None \<Rightarrow> if prepare_mem then Some (None, s) else malloc_s_aux n sz offset True s) }
       else Some (None, s) })"

definition malloc_s ::
  "u64 \<Rightarrow> ('w, 'z) mm_state_scheme \<Rightarrow> (nat option \<times> ('w, 'z) mm_state_scheme) option" where
  "malloc_s sz s = malloc_s_aux 2 sz NO_OFFSET False s"

definition nft32_malloc_s ::
  "u64 \<Rightarrow> ('w, 'z) mm_state_scheme \<Rightarrow> (nat option \<times> ('w, 'z) mm_state_scheme) option" where
  "nft32_malloc_s sz s = (case mgr_malloc (mm_manager s) of
     Null_fun \<Rightarrow> Some (None, s)
   | Builtin \<Rightarrow> malloc_s sz s
   | User f \<Rightarrow> (let (p, w) = f sz (world s) in Some (p, s\<lparr>world := w\<rparr>)))"

text \<open>Pointers into the buffer are offsets, so the first guard is the bound. A pointer below the
  first header or to memory that never held a header reads bytes the model does not have.\<close>

definition free_s :: "nat option \<Rightarrow> ('w, 'z) mm_state_scheme \<Rightarrow> (unit \<times> ('w, 'z) mm_state_scheme) option" where
  "free_s ptr s = (case ptr of None \<Rightarrow> Some ((), s)
   | Some p \<Rightarrow> if p \<ge> ALLOC_BUFFER_SIZE then Some ((), s)
     else do {
       (ok, s) \<leftarrow> lock_malloc s;
       if ok = 0 then Some ((), s)
       else if p < sizeof_mm_block then None
       else do {
         b \<leftarrow> mm_heap s (p - sizeof_mm_block);
         if blk_magic b \<noteq> MM_BLOCK_MAGIC then do { (_, s) \<leftarrow> unlock_malloc s; Some ((), s) }
         else if blk_free b \<noteq> 0 then do { (_, s) \<leftarrow> unlock_malloc s; Some ((), s) }
         else do {
           (_, s) \<leftarrow> unlock_malloc ((put_block (p - sizeof_mm_block) (b\<lparr>blk_free := 1\<rparr>) s)
              \<lparr>mm_allocated := mm_allocated s - (blk_size b + of_nat sizeof_mm_block)\<rparr>);
           Some ((), s) } } })"

definition nft32_free_s :: "nat option \<Rightarrow> ('w, 'z) mm_state_scheme \<Rightarrow> (unit \<times> ('w, 'z) mm_state_scheme) option" where
  "nft32_free_s ptr s = (case mgr_free (mm_manager s) of
     Null_fun \<Rightarrow> Some ((), s)
   | Builtin \<Rightarrow> free_s ptr s
   | User f \<Rightarrow> Some ((), s\<lparr>world := f ptr (world s)\<rparr>))"

definition fptr_or :: "'f option \<Rightarrow> 'f fptr" where
  "fptr_or f = (case f of None \<Rightarrow> Builtin | Some g \<Rightarrow> User g)"

definition nft32_setup_mm_manager ::
  "('w \<Rightarrow> int \<times> 'w) option \<Rightarrow> (u64 \<Rightarrow> 'w \<Rightarrow> nat option \<times> 'w) option \<Rightarrow> (nat option \<Rightarrow> 'w \<Rightarrow> 'w) option \<Rightarrow>
   ('w, 'z) mm_state_scheme \<Rightarrow> (int \<times> ('w, 'z) mm_state_scheme) option" where
  "nft32_setup_mm_manager f_init f_malloc f_free s =
     Some (1, s\<lparr>mm_manager := \<lparr>mgr_init = fptr_or f_init, mgr_malloc = fptr_or f_malloc,
       mgr_free = fptr_or f_free\<rparr>\<rparr>)"

section \<open>The list of blocks a heap stands for\<close>

text \<open>A block is its size and whether it is free. Blocks are contiguous, so the list and the
  address of the first block determine every header.\<close>

type_synonym blocks = "(nat \<times> bool) list"

fun layout :: "(nat \<Rightarrow> mm_block option) \<Rightarrow> nat \<Rightarrow> blocks \<Rightarrow> bool" where
  "layout h a [] = False"
| "layout h a [(n, f)] = (h a = Some \<lparr>blk_magic = MM_BLOCK_MAGIC, blk_size = of_nat n,
     blk_free = (if f then 1 else 0), blk_next = None\<rparr>)"
| "layout h a ((n, f) # b # bs) = (h a = Some \<lparr>blk_magic = MM_BLOCK_MAGIC, blk_size = of_nat n,
     blk_free = (if f then 1 else 0), blk_next = Some (a + sizeof_mm_block + n)\<rparr> \<and>
     layout h (a + sizeof_mm_block + n) (b # bs))"

definition extent :: "blocks \<Rightarrow> nat" where
  "extent bs = sum_list (map (\<lambda>(n, f). sizeof_mm_block + n) bs)"

definition used :: "blocks \<Rightarrow> nat" where
  "used bs = extent (filter (\<lambda>(n, f). \<not> f) bs)"

definition mm_ok :: "blocks \<Rightarrow> ('w, 'z) mm_state_scheme \<Rightarrow> bool" where
  "mm_ok bs s = (layout (mm_heap s) mm_head bs \<and> extent bs = ALLOC_BUFFER_SIZE \<and>
     mm_allocated s = of_nat (used bs) \<and> malloc_lock s = NULL_LOCK)"

text \<open>First fit and merging on the list.\<close>

fun fit :: "nat \<Rightarrow> nat \<Rightarrow> blocks \<Rightarrow> nat option \<times> blocks" where
  "fit sz a [] = (None, [])"
| "fit sz a ((n, f) # bs) =
    (if f \<and> sz \<le> n
     then (Some (a + sizeof_mm_block),
       if sz + sizeof_mm_block \<le> n then (sz, False) # (n - sz - sizeof_mm_block, True) # bs
       else (n, False) # bs)
     else (let (p, bs') = fit sz (a + sizeof_mm_block + n) bs in (p, (n, f) # bs')))"

fun merge_free :: "blocks \<Rightarrow> blocks" where
  "merge_free ((m, True) # (n, True) # bs) = merge_free ((m + sizeof_mm_block + n, True) # bs)"
| "merge_free (b # bs) = b # merge_free bs"
| "merge_free [] = []"

text \<open>The addresses of the blocks in use, and of all blocks.\<close>

fun regions :: "nat \<Rightarrow> blocks \<Rightarrow> (nat \<times> nat \<times> bool) list" where
  "regions a [] = []"
| "regions a ((n, f) # bs) = (a + sizeof_mm_block, n, f) # regions (a + sizeof_mm_block + n) bs"

fun release_at :: "nat \<Rightarrow> nat \<Rightarrow> blocks \<Rightarrow> blocks" where
  "release_at p a [] = []"
| "release_at p a ((n, f) # bs) =
    (if p = a + sizeof_mm_block then (n, True) # bs else (n, f) # release_at p (a + sizeof_mm_block + n) bs)"

section \<open>Refinement of the pointer code by the list\<close>

lemma extent_simps [simp]:
  "extent [] = 0" "extent ((n, f) # bs) = sizeof_mm_block + n + extent bs"
  by (simp_all add: extent_def)

lemma used_simps [simp]:
  "used [] = 0" "used ((n, f) # bs) = (if f then 0 else sizeof_mm_block + n) + used bs"
  by (simp_all add: used_def)

lemma layout_below: "c < a \<Longrightarrow> layout (h(c := x)) a bs = layout h a bs"
  by (induction h a bs rule: layout.induct) auto

lemma layout_hd:
  "layout h a ((n, f) # bs) \<longleftrightarrow>
     h a = Some \<lparr>blk_magic = MM_BLOCK_MAGIC, blk_size = of_nat n, blk_free = (if f then 1 else 0),
        blk_next = (if bs = [] then None else Some (a + sizeof_mm_block + n))\<rparr> \<and>
     (bs \<noteq> [] \<longrightarrow> layout h (a + sizeof_mm_block + n) bs)"
  by (cases bs) auto

lemma ucast_size [simp]: "n < 2 ^ 32 \<Longrightarrow> (ucast (of_nat n :: u32) :: u64) = of_nat n"
  by (simp add: unsigned_of_nat take_bit_nat_eq_self)

lemma ucast_down_size: "(ucast (of_nat n :: u64) :: u32) = of_nat n"
  by (rule word_unat_eq_iff[THEN iffD2])
    (simp add: unat_of_nat unsigned_ucast_eq unsigned_of_nat take_bit_eq_mod mod_mod_cancel)

lemma of_nat_u64_le: "n < 2 ^ 32 \<Longrightarrow> sz \<le> (of_nat n :: u64) \<longleftrightarrow> unat sz \<le> n"
  by (simp add: word_le_nat_alt unat_of_nat)

lemma of_nat_u64_le_plus:
  "n < 2 ^ 32 \<Longrightarrow> unat sz \<le> n \<Longrightarrow> sz + of_nat sizeof_mm_block \<le> (of_nat n :: u64) \<longleftrightarrow> unat sz + sizeof_mm_block \<le> n"
  by (simp add: word_le_nat_alt unat_of_nat unat_word_ariths sizeof_mm_block_def)

lemma take_block_split:
  assumes "unat sz + sizeof_mm_block \<le> n" "n < 2 ^ 32"
    and "blk_size b = of_nat n" "blk_magic b = MM_BLOCK_MAGIC"
  shows "take_block sz a b s = (s
    \<lparr>mm_heap := (mm_heap s)
      (a + sizeof_mm_block + unat sz \<mapsto> \<lparr>blk_magic = MM_BLOCK_MAGIC,
          blk_size = of_nat (n - unat sz - sizeof_mm_block), blk_free = 1, blk_next = blk_next b\<rparr>,
       a \<mapsto> \<lparr>blk_magic = MM_BLOCK_MAGIC, blk_size = of_nat (unat sz), blk_free = 0,
          blk_next = Some (a + sizeof_mm_block + unat sz)\<rparr>),
     mm_allocated := mm_allocated s + of_nat (sizeof_mm_block + unat sz)\<rparr>)"
proof -
  have le: "sz + of_nat sizeof_mm_block \<le> (of_nat n :: u64)"
    using assms by (subst of_nat_u64_le_plus) auto
  have sz: "of_nat (unat sz) = sz" by simp
  have "(of_nat n :: u64) - sz - of_nat sizeof_mm_block = of_nat (n - unat sz - sizeof_mm_block)"
    using assms(1) by (simp add: of_nat_diff)
  then have rest: "(ucast ((of_nat n :: u64) - sz - of_nat sizeof_mm_block) :: u32)
      = of_nat (n - unat sz - sizeof_mm_block)"
    by (simp only: ucast_down_size)
  have down: "(ucast sz :: u32) = of_nat (unat sz)"
    using ucast_down_size[of "unat sz"] by simp
  have rec: "b\<lparr>blk_next := x, blk_size := y, blk_free := z\<rparr> =
      \<lparr>blk_magic = MM_BLOCK_MAGIC, blk_size = y, blk_free = z, blk_next = x\<rparr>" for x y z
    using assms(4) by (cases b) simp
  show ?thesis
    unfolding take_block_def assms(3) ucast_size[OF assms(2)] if_P[OF le] rest down
    by (simp add: Let_def put_block_def add.commute rec)
qed

lemma take_block_whole:
  assumes "\<not> unat sz + sizeof_mm_block \<le> n" "unat sz \<le> n" "n < 2 ^ 32" "blk_size b = of_nat n"
  shows "take_block sz a b s = (s
    \<lparr>mm_heap := (mm_heap s)(a \<mapsto> b\<lparr>blk_free := 0\<rparr>),
     mm_allocated := mm_allocated s + of_nat (sizeof_mm_block + n)\<rparr>)"
proof -
  have gt: "\<not> sz + of_nat sizeof_mm_block \<le> (of_nat n :: u64)"
    using assms by (subst of_nat_u64_le_plus) auto
  show ?thesis unfolding take_block_def assms(4) ucast_size[OF assms(3)] if_not_P[OF gt]
    by (simp add: Let_def put_block_def assms(4) add.commute)
qed

lemma sizeof_pos: "0 < sizeof_mm_block"
  by (simp add: sizeof_mm_block_def)

lemma malloc_walk_fit:
  assumes "layout (mm_heap s) a bs" and "a + extent bs \<le> ALLOC_BUFFER_SIZE"
  shows "returns (malloc_walk sz 0 (Some a) s) (\<lambda>p s'. \<exists>h'.
      p = fst (fit (unat sz) a bs) \<and> layout h' a (snd (fit (unat sz) a bs)) \<and>
      (\<forall>c < a. h' c = mm_heap s c) \<and>
      s' = s\<lparr>mm_heap := h', mm_allocated := mm_allocated s + of_nat (used (snd (fit (unat sz) a bs)) - used bs)\<rparr>)"
  using assms
proof (induction bs arbitrary: a)
  case (Cons blk bs)
  obtain n f where blk: "blk = (n, f)" by (cases blk)
  have n: "n < 2 ^ 32" using Cons.prems(2) by (simp add: blk ALLOC_BUFFER_SIZE_def)
  let ?b = "\<lparr>blk_magic = MM_BLOCK_MAGIC, blk_size = of_nat n, blk_free = (if f then 1 else 0),
        blk_next = (if bs = [] then None else Some (a + sizeof_mm_block + n))\<rparr>"
  have ha: "mm_heap s a = Some ?b" and rest: "bs \<noteq> [] \<Longrightarrow> layout (mm_heap s) (a + sizeof_mm_block + n) bs"
    using Cons.prems(1) unfolding blk layout_hd by auto
  note walk = malloc_walk.simps[of sz 0 "Some a" s]
  show ?case
  proof (cases "f \<and> unat sz \<le> n")
    case True
    then have go: "malloc_walk sz 0 (Some a) s = Some (Some (a + sizeof_mm_block), take_block sz a ?b s)"
      using n by (subst walk) (simp add: ha of_nat_u64_le)
    show ?thesis
    proof (cases "unat sz + sizeof_mm_block \<le> n")
      case split: True
      let ?bs = "(unat sz, False) # (n - unat sz - sizeof_mm_block, True) # bs"
      have fit: "fit (unat sz) a (blk # bs) = (Some (a + sizeof_mm_block), ?bs)"
        using True split by (simp add: blk)
      have used: "used ?bs - used (blk # bs) = sizeof_mm_block + unat sz"
        using True by (simp add: blk)
      have "layout ((mm_heap s)(c := x, a := y)) (a + sizeof_mm_block + n) bs"
        if "bs \<noteq> []" "c < a + sizeof_mm_block + n" for c x y
        using rest that by (simp add: layout_below sizeof_mm_block_def)
      moreover have "a + sizeof_mm_block + unat sz + sizeof_mm_block + (n - unat sz - sizeof_mm_block) = a + sizeof_mm_block + n"
        using split by simp
      ultimately have "layout (mm_heap (take_block sz a ?b s)) a ?bs"
        using split sizeof_pos by (subst take_block_split[OF split n])
          (simp_all add: layout_hd add.assoc del: word_of_nat_eq_0_iff of_nat_unat of_nat_diff)
      then show ?thesis
        unfolding go fit returns_Some fst_conv snd_conv used
        by (intro exI[of _ "mm_heap (take_block sz a ?b s)"])
          (simp add: take_block_split[OF split n])
    next
      case False
      let ?bs = "(n, False) # bs"
      have fit: "fit (unat sz) a (blk # bs) = (Some (a + sizeof_mm_block), ?bs)"
        using True False by (simp add: blk)
      have used: "used ?bs - used (blk # bs) = sizeof_mm_block + n"
        using True by (simp add: blk)
      have "layout ((mm_heap s)(a := y)) (a + sizeof_mm_block + n) bs" if "bs \<noteq> []" for y
        using rest that sizeof_pos by (simp add: layout_below)
      then have "layout (mm_heap (take_block sz a ?b s)) a ?bs"
        using True by (subst take_block_whole[OF False _ n]) (simp_all add: layout_hd)
      then show ?thesis
        unfolding go fit returns_Some fst_conv snd_conv used
        using True by (intro exI[of _ "mm_heap (take_block sz a ?b s)"])
          (simp add: take_block_whole[OF False _ n])
    qed
  next
    case False
    then have go: "malloc_walk sz 0 (Some a) s = malloc_walk sz 0 (blk_next ?b) s"
      using n by (subst walk) (auto simp: ha of_nat_u64_le)
    show ?thesis
    proof (cases "bs = []")
      case True
      then show ?thesis using go False Cons.prems(1)
        by (simp add: blk malloc_walk.simps[of sz 0 None] exI[of _ "mm_heap s"])
    next
      case ne: False
      obtain p bs' where fit: "fit (unat sz) (a + sizeof_mm_block + n) bs = (p, bs')" by fastforce
      have "returns (malloc_walk sz 0 (Some (a + sizeof_mm_block + n)) s) (\<lambda>q s'. \<exists>h'.
          q = p \<and> layout h' (a + sizeof_mm_block + n) bs' \<and>
          (\<forall>c < a + sizeof_mm_block + n. h' c = mm_heap s c) \<and>
          s' = s\<lparr>mm_heap := h', mm_allocated := mm_allocated s + of_nat (used bs' - used bs)\<rparr>)"
        using Cons.IH[OF rest[OF ne]] Cons.prems(2) by (simp add: blk fit)
      then obtain h' where h': "layout h' (a + sizeof_mm_block + n) bs'"
          "\<forall>c < a + sizeof_mm_block + n. h' c = mm_heap s c"
        and run: "malloc_walk sz 0 (Some (a + sizeof_mm_block + n)) s =
          Some (p, s\<lparr>mm_heap := h', mm_allocated := mm_allocated s + of_nat (used bs' - used bs)\<rparr>)"
        by (auto elim!: returnsE)
      have ne': "bs' \<noteq> []" using fit ne by (cases bs) (auto split: if_splits prod.splits)
      have fit2: "fit (unat sz) a (blk # bs) = (p, (n, f) # bs')"
        using False fit by (auto simp: blk)
      have run2: "malloc_walk sz 0 (Some a) s =
          Some (p, s\<lparr>mm_heap := h', mm_allocated := mm_allocated s + of_nat (used bs' - used bs)\<rparr>)"
        using go run ne by simp
      have "layout h' a ((n, f) # bs')"
        using h' ha ne ne' sizeof_pos by (auto simp: layout_hd)
      then show ?thesis
        unfolding run2 fit2 returns_Some fst_conv snd_conv
        by (intro exI[of _ h'] conjI) (use h' in \<open>auto simp: blk\<close>)
    qed
  qed
qed simp

lemmas merge_induct = merge_free.induct [case_names merge used single other empty]

lemma merge_free_nonempty: "bs \<noteq> [] \<Longrightarrow> merge_free bs \<noteq> []"
  by (induction bs rule: merge_free.induct) auto

lemma extent_merge_free [simp]: "extent (merge_free bs) = extent bs"
  by (induction bs rule: merge_free.induct) auto

lemma used_merge_free [simp]: "used (merge_free bs) = used bs"
  by (induction bs rule: merge_free.induct) auto

fun no_adjacent_free :: "blocks \<Rightarrow> bool" where
  "no_adjacent_free ((m, f) # (n, g) # bs) = (\<not> (f \<and> g) \<and> no_adjacent_free ((n, g) # bs))"
| "no_adjacent_free _ = True"

lemma no_adjacent_free_Cons:
  "no_adjacent_free ((n, f) # bs) = (bs = [] \<or> (\<not> (f \<and> snd (hd bs)) \<and> no_adjacent_free bs))"
  by (cases bs) auto

lemma merge_free_hd:
  "snd (hd (merge_free (b # bs))) = snd b"
  by (induction "b # bs" arbitrary: b bs rule: merge_free.induct) auto

lemma merge_free_separated: "no_adjacent_free (merge_free bs)"
proof (induction bs rule: merge_induct)
  case (used n b)
  then show ?case by (simp add: no_adjacent_free_Cons del: no_adjacent_free.simps)
next
  case (single v)
  then show ?case by simp
qed auto

lemma merge_free_id: "no_adjacent_free bs \<Longrightarrow> merge_free bs = bs"
  by (induction bs rule: merge_free.induct) (auto simp: no_adjacent_free_Cons simp del: no_adjacent_free.simps)

lemma coalesce_pass_merge:
  assumes "layout (mm_heap s) a bs"
  shows "\<exists>h'. coalesce_pass (Some a) m s = Some (m \<or> merge_free bs \<noteq> bs, s\<lparr>mm_heap := h'\<rparr>) \<and>
    layout h' a (merge_free bs) \<and> (\<forall>c < a. h' c = mm_heap s c)"
  using assms
proof (induction bs arbitrary: a m s rule: merge_induct)
  case (merge k n bs)
  let ?c = "a + sizeof_mm_block + k"
  have ha: "mm_heap s a = Some \<lparr>blk_magic = MM_BLOCK_MAGIC, blk_size = of_nat k, blk_free = 1, blk_next = Some ?c\<rparr>"
    and hc: "mm_heap s ?c = Some \<lparr>blk_magic = MM_BLOCK_MAGIC, blk_size = of_nat n, blk_free = 1,
      blk_next = (if bs = [] then None else Some (?c + sizeof_mm_block + n))\<rparr>"
    and rest: "bs \<noteq> [] \<Longrightarrow> layout (mm_heap s) (?c + sizeof_mm_block + n) bs"
    using merge(2) by (auto simp: layout_hd)
  define b where "b = \<lparr>blk_magic = MM_BLOCK_MAGIC, blk_size = of_nat (k + sizeof_mm_block + n), blk_free = 1,
      blk_next = (if bs = [] then None else Some (?c + sizeof_mm_block + n))\<rparr>"
  define s1 where "s1 = put_block a b s"
  have step: "coalesce_pass (Some a) m s = coalesce_pass (Some a) True s1"
    by (subst coalesce_pass.simps) (simp add: ha hc s1_def b_def, simp add: add.assoc)
  have "layout (mm_heap s1) a ((k + sizeof_mm_block + n, True) # bs)"
    using rest by (simp add: s1_def put_block_def b_def layout_hd layout_below sizeof_mm_block_def add.assoc)
  then obtain h' where "coalesce_pass (Some a) True s1 = Some (True, s1\<lparr>mm_heap := h'\<rparr>)"
    "layout h' a (merge_free ((k + sizeof_mm_block + n, True) # bs))" "\<forall>c < a. h' c = mm_heap s1 c"
    using merge(1)[of s1 a True] by auto
  moreover have "merge_free ((k, True) # (n, True) # bs) \<noteq> (k, True) # (n, True) # bs"
    using merge_free_separated[of "(k, True) # (n, True) # bs"] by (metis no_adjacent_free.simps(1))
  ultimately show ?case using step by (intro exI[of _ h']) (simp add: s1_def put_block_def)
next
  case (used n bs)
  let ?c = "a + sizeof_mm_block + n"
  have ha: "mm_heap s a = Some \<lparr>blk_magic = MM_BLOCK_MAGIC, blk_size = of_nat n, blk_free = 0,
      blk_next = (if bs = [] then None else Some ?c)\<rparr>"
    and rest: "bs \<noteq> [] \<Longrightarrow> layout (mm_heap s) ?c bs"
    using used(2) by (auto simp: layout_hd)
  show ?case
  proof (cases "bs = []")
    case True
    then show ?thesis using used(2)
      by (intro exI[of _ "mm_heap s"]) (subst coalesce_pass.simps, simp)
  next
    case False
    then obtain h' where h': "coalesce_pass (Some ?c) m s = Some (m \<or> merge_free bs \<noteq> bs, s\<lparr>mm_heap := h'\<rparr>)"
      "layout h' ?c (merge_free bs)" "\<forall>c < ?c. h' c = mm_heap s c"
      using used(1)[OF rest] by blast
    obtain nb where nb: "mm_heap s ?c = Some nb" using rest[OF False] False
      by (cases bs) (auto simp: layout_hd)
    have "coalesce_pass (Some a) m s = coalesce_pass (Some ?c) m s"
      by (subst coalesce_pass.simps) (simp add: ha nb False)
    then show ?thesis using h' ha False sizeof_pos merge_free_nonempty[OF False]
      by (intro exI[of _ h']) (auto simp: layout_hd)
  qed
next
  case (single k)
  then show ?case by (cases k) (intro exI[of _ "mm_heap s"], subst coalesce_pass.simps, simp)
next
  case (other blk n bs)
  obtain k f where blk: "blk = (k, f)" by (cases blk)
  let ?c = "a + sizeof_mm_block + k"
  have ha: "mm_heap s a = Some \<lparr>blk_magic = MM_BLOCK_MAGIC, blk_size = of_nat k,
      blk_free = (if f then 1 else 0), blk_next = Some ?c\<rparr>"
    and rest: "layout (mm_heap s) ?c ((n, False) # bs)"
    using other(2) by (auto simp: layout_hd blk)
  then obtain nb where nb: "mm_heap s ?c = Some nb" "blk_free nb = 0" by (auto simp: layout_hd)
  obtain h' where h': "coalesce_pass (Some ?c) m s =
      Some (m \<or> merge_free ((n, False) # bs) \<noteq> (n, False) # bs, s\<lparr>mm_heap := h'\<rparr>)"
      "layout h' ?c (merge_free ((n, False) # bs))" "\<forall>c < ?c. h' c = mm_heap s c"
    using other(1)[OF rest] by blast
  have "coalesce_pass (Some a) m s = coalesce_pass (Some ?c) m s"
    by (subst coalesce_pass.simps) (simp add: ha nb)
  then show ?case using h' ha sizeof_pos
    by (intro exI[of _ h']) (auto simp: layout_hd blk)
next
  case empty
  then show ?case by simp
qed

lemma coalesce_memory_merge:
  assumes "layout (mm_heap s) mm_head bs"
  shows "\<exists>h'. coalesce_memory s = Some (1, s\<lparr>mm_heap := h'\<rparr>) \<and> layout h' mm_head (merge_free bs)"
proof -
  have once: "\<exists>h'. coalesce_memory s = Some (1, s\<lparr>mm_heap := h'\<rparr>) \<and> layout h' mm_head bs"
    if "layout (mm_heap s) mm_head bs" "merge_free bs = bs" for s :: "('w, 'z) mm_state_scheme" and bs
    using coalesce_pass_merge[OF that(1), of False] that(2)
    by (subst coalesce_memory.simps) auto
  obtain h1 where h1: "coalesce_pass (Some mm_head) False s = Some (merge_free bs \<noteq> bs, s\<lparr>mm_heap := h1\<rparr>)"
    "layout h1 mm_head (merge_free bs)"
    using coalesce_pass_merge[OF assms, of False] by auto
  show ?thesis
  proof (cases "merge_free bs = bs")
    case True
    then show ?thesis using once assms by metis
  next
    case False
    have "\<exists>h'. coalesce_memory (s\<lparr>mm_heap := h1\<rparr>) = Some (1, s\<lparr>mm_heap := h1, mm_heap := h'\<rparr>) \<and>
        layout h' mm_head (merge_free bs)"
      using once[of "s\<lparr>mm_heap := h1\<rparr>" "merge_free bs"] h1 merge_free_id[OF merge_free_separated] by simp
    then show ?thesis using h1(1) False
      by (subst coalesce_memory.simps) auto
  qed
qed

definition malloc_list :: "nat \<Rightarrow> blocks \<Rightarrow> nat option \<times> blocks" where
  "malloc_list sz bs = (case fit sz mm_head bs of
     (Some p, bs') \<Rightarrow> (Some p, bs') | (None, _) \<Rightarrow> fit sz mm_head (merge_free bs))"

text \<open>The rounding of sizes, and where it wraps: a request within seven bytes of the largest
  \<open>unsigned long\<close> is rounded to zero.\<close>

definition round8 :: "nat \<Rightarrow> nat" where
  "round8 n = (n + 7) div 8 * 8"

lemma align_u64_div: "unat (align_u64 w) = unat (w + 7) div 8 * 8"
proof -
  have m: "(of_nat ALIGNMENT - 1 :: u64) = mask 3" by (simp add: ALIGNMENT_def mask_eq_exp_minus_1)
  have seven: "(mask 3 :: u64) = 7" by (simp add: mask_eq_exp_minus_1)
  have "w' AND NOT (mask 3) = push_bit 3 (drop_bit 3 w')" for w' :: u64
    by (rule bit_word_eqI) (auto simp: bit_simps)
  then have "align_u64 w = push_bit 3 (drop_bit 3 (w + 7))"
    unfolding align_u64_def m by (simp only: seven)
  moreover have "unat (push_bit 3 (drop_bit 3 v)) = unat v div 8 * 8" for v :: u64
  proof -
    have "unat v div 8 * 8 < 2 ^ 64" using unsigned_less[of v, where ?'a = nat] by simp
    then show ?thesis
      by (simp add: push_bit_eq_mult drop_bit_eq_div unat_word_ariths unat_div)
  qed
  ultimately show ?thesis by simp
qed

lemma align_u64_round8: "unat w < 2 ^ 64 - 7 \<Longrightarrow> unat (align_u64 w) = round8 (unat w)"
  by (simp add: align_u64_div round8_def unat_word_ariths)

lemma align_u64_wraps: "2 ^ 64 - 7 \<le> unat w \<Longrightarrow> unat (align_u64 w) = 0"
  using unsigned_less[of w, where ?'a = nat] by (simp add: align_u64_div unat_word_ariths mod_if)

lemma round8_idem: "round8 (round8 n) = round8 n"
  by (simp add: round8_def)

lemma align_u64_idem: "align_u64 (align_u64 w) = align_u64 w"
proof -
  have "unat (align_u64 w) < 2 ^ 64 - 7"
  proof -
    have "unat (align_u64 w) div 8 * 8 = unat (align_u64 w)" by (simp add: align_u64_div)
    moreover have "unat (align_u64 w) < 2 ^ 64" using unsigned_less[of "align_u64 w", where ?'a = nat] by simp
    moreover from this have "unat (align_u64 w) div 8 < 2305843009213693952"
      by (simp add: less_mult_imp_div_less)
    ultimately have "unat (align_u64 w) < 18446744073709551609" by linarith
    then show ?thesis by simp
  qed
  moreover have "round8 (unat (align_u64 w)) = unat (align_u64 w)"
    by (simp add: align_u64_div round8_def)
  ultimately show ?thesis using align_u64_round8 by (simp add: word_unat_eq_iff)
qed

lemma align_u32_zero [simp]: "align_u32 0 = 0"
  by (simp add: align_u32_def ALIGNMENT_def)

lemma fit_none: "fst (fit sz a bs) = None \<Longrightarrow> snd (fit sz a bs) = bs"
  by (induction sz a bs rule: fit.induct) (auto split: if_splits prod.splits)

lemma fit_none_iff: "fst (fit sz a bs) = None \<longleftrightarrow> (\<forall>(n, f) \<in> set bs. f \<longrightarrow> n < sz)"
  by (induction sz a bs rule: fit.induct) (auto split: if_splits prod.splits)

lemma used_mono_fit: "used bs \<le> used (snd (fit sz a bs))"
  by (induction sz a bs rule: fit.induct) (auto split: prod.splits)

lemma extent_fit [simp]: "extent (snd (fit sz a bs)) = extent bs"
  by (induction sz a bs rule: fit.induct) (auto split: prod.splits)

lemma lock_malloc_null [wp, simp]:
  "malloc_lock s = NULL_LOCK \<Longrightarrow> lock_malloc s = Some (1, s\<lparr>malloc_lock := HELD\<rparr>)"
  by (simp add: lock_malloc_def)

lemma unlock_malloc_held [wp, simp]:
  "malloc_lock s = HELD \<Longrightarrow> unlock_malloc s = Some (1, s\<lparr>malloc_lock := NULL_LOCK\<rparr>)"
  by (simp add: unlock_malloc_def)

lemma malloc_lock_self [simp]: "malloc_lock s = NULL_LOCK \<Longrightarrow> s\<lparr>malloc_lock := NULL_LOCK\<rparr> = s"
  by simp

text \<open>One search, with or without coalescing, under the lock.\<close>

lemma walk_ok:
  assumes "mm_ok bs s"
  shows "\<exists>h al. malloc_walk sz 0 (Some mm_head) (s\<lparr>malloc_lock := HELD\<rparr>) =
      Some (fst (fit (unat sz) mm_head bs), s\<lparr>malloc_lock := HELD, mm_heap := h, mm_allocated := al\<rparr>) \<and>
    mm_ok (snd (fit (unat sz) mm_head bs)) (s\<lparr>mm_heap := h, mm_allocated := al\<rparr>)"
proof -
  let ?s = "s\<lparr>malloc_lock := HELD\<rparr>" let ?bs = "snd (fit (unat sz) mm_head bs)"
  have ok: "layout (mm_heap ?s) mm_head bs" "mm_head + extent bs \<le> ALLOC_BUFFER_SIZE"
    using assms by (auto simp: mm_ok_def mm_head_def)
  obtain h where "layout h mm_head ?bs"
    and "malloc_walk sz 0 (Some mm_head) ?s = Some (fst (fit (unat sz) mm_head bs),
       ?s\<lparr>mm_heap := h, mm_allocated := mm_allocated ?s + of_nat (used ?bs - used bs)\<rparr>)"
    using malloc_walk_fit[OF ok, of sz] by (auto elim!: returnsE)
  moreover have "(of_nat (used bs) :: u32) + of_nat (used ?bs - used bs) = of_nat (used ?bs)"
    by (simp add: used_mono_fit of_nat_diff)
  ultimately show ?thesis using assms
    by (intro exI[of _ h] exI[of _ "of_nat (used ?bs)"]) (simp add: mm_ok_def)
qed

lemma coalesce_ok:
  assumes "mm_ok bs s"
  shows "\<exists>h. coalesce_memory (s\<lparr>malloc_lock := HELD\<rparr>) = Some (1, s\<lparr>malloc_lock := HELD, mm_heap := h\<rparr>) \<and>
    mm_ok (merge_free bs) (s\<lparr>mm_heap := h\<rparr>)"
  using coalesce_memory_merge[of "s\<lparr>malloc_lock := HELD\<rparr>" bs] assms by (auto simp: mm_ok_def)

lemma mm_ok_lock: "mm_ok bs s \<Longrightarrow> malloc_lock s = NULL_LOCK"
  by (simp add: mm_ok_def)

lemma malloc_prepared:
  assumes "mm_ok bs s" and "sz \<noteq> 0" and "align_u64 sz = sz"
  shows "\<exists>h al. malloc_s_aux (Suc n) sz 0 True s =
      Some (fst (fit (unat sz) mm_head (merge_free bs)), s\<lparr>mm_heap := h, mm_allocated := al\<rparr>) \<and>
    mm_ok (snd (fit (unat sz) mm_head (merge_free bs))) (s\<lparr>mm_heap := h, mm_allocated := al\<rparr>)"
proof -
  obtain h where h: "coalesce_memory (s\<lparr>malloc_lock := HELD\<rparr>) = Some (1, s\<lparr>malloc_lock := HELD, mm_heap := h\<rparr>)"
    "mm_ok (merge_free bs) (s\<lparr>mm_heap := h\<rparr>)" using coalesce_ok[OF assms(1)] by blast
  have comm: "s\<lparr>mm_heap := h, malloc_lock := HELD\<rparr> = s\<lparr>malloc_lock := HELD, mm_heap := h\<rparr>" by simp
  obtain h' al where walk: "malloc_walk sz 0 (Some mm_head) (s\<lparr>malloc_lock := HELD, mm_heap := h\<rparr>) =
      Some (fst (fit (unat sz) mm_head (merge_free bs)), s\<lparr>malloc_lock := HELD, mm_heap := h', mm_allocated := al\<rparr>)"
    and ok: "mm_ok (snd (fit (unat sz) mm_head (merge_free bs))) (s\<lparr>mm_heap := h', mm_allocated := al\<rparr>)"
    using walk_ok[OF h(2), of sz] comm by auto
  show ?thesis
    by (intro exI[of _ h'] exI[of _ al])
      (simp add: assms mm_ok_lock[OF assms(1)] h(1) walk ok Let_def split: option.splits)
qed

text \<open>The allocator refines first fit over the list, with one retry after merging.\<close>

lemma malloc_s_refines [spec]:
  assumes "mm_ok bs s" and "sz \<noteq> 0" and "unat sz < 2 ^ 64 - 7"
  shows "\<exists>h al. malloc_s sz s = Some (fst (malloc_list (round8 (unat sz)) bs), s\<lparr>mm_heap := h, mm_allocated := al\<rparr>) \<and>
    mm_ok (snd (malloc_list (round8 (unat sz)) bs)) (s\<lparr>mm_heap := h, mm_allocated := al\<rparr>)"
proof -
  let ?k = "align_u64 sz"
  have k: "unat ?k = round8 (unat sz)" using assms(3) by (rule align_u64_round8)
  have "unat sz \<noteq> 0" using assms(2) by (simp add: unat_eq_0)
  then have "round8 (unat sz) \<noteq> 0" unfolding round8_def by linarith
  then have nz: "?k \<noteq> 0" using k by (metis unat_0)
  obtain h al where walk: "malloc_walk ?k 0 (Some mm_head) (s\<lparr>malloc_lock := HELD\<rparr>) =
      Some (fst (fit (unat ?k) mm_head bs), s\<lparr>malloc_lock := HELD, mm_heap := h, mm_allocated := al\<rparr>)"
    and ok: "mm_ok (snd (fit (unat ?k) mm_head bs)) (s\<lparr>mm_heap := h, mm_allocated := al\<rparr>)"
    using walk_ok[OF assms(1)] by blast
  show ?thesis
  proof (cases "fst (fit (unat ?k) mm_head bs)")
    case (Some p)
    then have "malloc_list (round8 (unat sz)) bs = fit (unat ?k) mm_head bs"
      by (auto simp: malloc_list_def k split: prod.splits option.splits)
    then show ?thesis using Some ok walk assms(2) mm_ok_lock[OF assms(1)]
      by (intro exI[of _ h] exI[of _ al])
        (simp add: malloc_s_def eval_nat_numeral NO_OFFSET_def Let_def)
  next
    case None
    let ?s = "s\<lparr>mm_heap := h, mm_allocated := al\<rparr>"
    have ok': "mm_ok bs ?s" using ok None by (simp add: fit_none)
    have "malloc_list (round8 (unat sz)) bs = fit (unat ?k) mm_head (merge_free bs)"
      using None by (auto simp: malloc_list_def k split: prod.splits)
    then obtain h' al' where m: "malloc_s_aux 1 ?k 0 True ?s =
        Some (fst (malloc_list (round8 (unat sz)) bs), ?s\<lparr>mm_heap := h', mm_allocated := al'\<rparr>)"
      "mm_ok (snd (malloc_list (round8 (unat sz)) bs)) (?s\<lparr>mm_heap := h', mm_allocated := al'\<rparr>)"
      using malloc_prepared[OF ok' nz align_u64_idem, of 0] by auto
    have "malloc_s sz s = malloc_s_aux 1 ?k 0 True ?s"
      using None walk assms(2) mm_ok_lock[OF assms(1)]
      by (simp add: malloc_s_def eval_nat_numeral NO_OFFSET_def Let_def del: malloc_s_aux.simps(1))
    then show ?thesis using m by (intro exI[of _ h'] exI[of _ al']) simp
  qed
qed

section \<open>Regions\<close>

definition live :: "blocks \<Rightarrow> (nat \<times> nat) set" where
  "live bs = {(p, n). (p, n, False) \<in> set (regions mm_head bs)}"

lemma regions_bounds:
  "(p, n, f) \<in> set (regions a bs) \<Longrightarrow> a + sizeof_mm_block \<le> p \<and> p + n \<le> a + extent bs"
  by (induction a bs rule: regions.induct) auto

lemma regions_disjoint:
  "(p, n, f) \<in> set (regions a bs) \<Longrightarrow> (q, m, g) \<in> set (regions a bs) \<Longrightarrow>
    (p, n, f) = (q, m, g) \<or> p + n + sizeof_mm_block \<le> q \<or> q + m + sizeof_mm_block \<le> p"
proof (induction a bs rule: regions.induct)
  case (2 a k h bs)
  then show ?case using regions_bounds[of p n f "a + sizeof_mm_block + k" bs]
    regions_bounds[of q m g "a + sizeof_mm_block + k" bs] by auto
qed simp

lemma regions_merge:
  "(p, n, False) \<in> set (regions a (merge_free bs)) \<longleftrightarrow> (p, n, False) \<in> set (regions a bs)"
proof (induction bs arbitrary: a rule: merge_free.induct)
  case (1 k n bs)
  then show ?case by (simp add: add.assoc)
qed auto

lemma live_merge [simp]: "live (merge_free bs) = live bs"
  by (simp add: live_def regions_merge)

lemma fit_regions:
  "fit sz a bs = (Some p, bs') \<Longrightarrow> \<exists>n \<ge> sz. (p, n, False) \<notin> set (regions a bs) \<and>
     (\<forall>q m. (q, m, False) \<in> set (regions a bs') \<longleftrightarrow> (q, m) = (p, n) \<or> (q, m, False) \<in> set (regions a bs))"
proof (induction sz a bs arbitrary: bs' rule: fit.induct)
  case (2 sz a n f bs)
  show ?case
  proof (cases "f \<and> sz \<le> n")
    case True
    have notin: "(p, m, False) \<notin> set (regions (a + sizeof_mm_block + n) bs)" if "p = a + sizeof_mm_block" for m
      using that regions_bounds[of p m False "a + sizeof_mm_block + n" bs] sizeof_pos by auto
    show ?thesis
    proof (cases "sz + sizeof_mm_block \<le> n")
      case split: True
      then have "a + sizeof_mm_block + sz + sizeof_mm_block + (n - sz - sizeof_mm_block) = a + sizeof_mm_block + n"
        by simp
      then show ?thesis using True split notin 2(2)
        by (intro exI[of _ sz]) (auto simp del: diff_diff_left simp flip: add.assoc)
    next
      case False
      then show ?thesis using True notin 2(2) by (intro exI[of _ n]) auto
    qed
  next
    case False
    then obtain bs2 where "fit sz (a + sizeof_mm_block + n) bs = (Some p, bs2)" "bs' = (n, f) # bs2"
      using 2(2) by (auto split: prod.splits)
    moreover from this obtain m where "m \<ge> sz" "(p, m, False) \<notin> set (regions (a + sizeof_mm_block + n) bs)"
      "\<forall>q k. (q, k, False) \<in> set (regions (a + sizeof_mm_block + n) bs2) \<longleftrightarrow>
        (q, k) = (p, m) \<or> (q, k, False) \<in> set (regions (a + sizeof_mm_block + n) bs)"
      using 2(1)[OF False] by auto
    moreover from this have "(p, m, False) \<in> set (regions (a + sizeof_mm_block + n) bs2)" by auto
    then have "a + sizeof_mm_block < p" using regions_bounds sizeof_pos by fastforce
    ultimately show ?thesis by (intro exI[of _ m]) auto
  qed
qed simp

lemma malloc_list_live:
  assumes "malloc_list sz bs = (Some p, bs')"
  shows "\<exists>n \<ge> sz. (p, n) \<notin> live bs \<and> live bs' = insert (p, n) (live bs)"
proof -
  have "\<exists>n \<ge> sz. (p, n) \<notin> live cs \<and> live bs' = insert (p, n) (live cs)"
    if "fit sz mm_head cs = (Some p, bs')" for cs
    using fit_regions[OF that] by (auto simp: live_def)
  from this[of bs] this[of "merge_free bs"] show ?thesis using assms
    by (auto simp: malloc_list_def split: prod.splits option.splits)
qed

lemma malloc_list_none:
  "fst (malloc_list sz bs) = None \<Longrightarrow> live (snd (malloc_list sz bs)) = live bs"
  by (auto simp: malloc_list_def fit_none split: prod.splits option.splits)

lemma release_at_regions:
  "(p, n, False) \<in> set (regions a bs) \<Longrightarrow>
     (q, m, False) \<in> set (regions a (release_at p a bs)) \<longleftrightarrow> q \<noteq> p \<and> (q, m, False) \<in> set (regions a bs)"
proof (induction a bs rule: regions.induct)
  case (2 a k f bs)
  have "(p', n', False) \<in> set (regions (a + sizeof_mm_block + k) bs) \<Longrightarrow> p' > a + sizeof_mm_block" for p' n'
    using regions_bounds[of p' n' False "a + sizeof_mm_block + k" bs] sizeof_pos by simp
  then show ?case using 2 by fastforce
qed simp

lemma live_release_at: "(p, n) \<in> live bs \<Longrightarrow> live (release_at p mm_head bs) = live bs - {(p, n)}"
proof -
  assume p: "(p, n) \<in> live bs"
  then have "n = m" if "(p, m) \<in> live bs" for m
    using regions_disjoint[of p n False mm_head bs p m False] that p sizeof_pos by (simp add: live_def)
  then have one: "(q, m) \<in> live bs \<Longrightarrow> q \<noteq> p \<longleftrightarrow> (q, m) \<noteq> (p, n)" for q m by blast
  have "(q, m) \<in> live (release_at p mm_head bs) \<longleftrightarrow> q \<noteq> p \<and> (q, m) \<in> live bs" for q m
    using release_at_regions[of p n mm_head bs q m] p by (simp add: live_def)
  with one show ?thesis by fast
qed

lemma layout_release:
  "layout h a bs \<Longrightarrow> (p, n, False) \<in> set (regions a bs) \<Longrightarrow>
    \<exists>b. h (p - sizeof_mm_block) = Some b \<and> blk_magic b = MM_BLOCK_MAGIC \<and> blk_free b = 0 \<and>
      blk_size b = of_nat n \<and>
      layout (h(p - sizeof_mm_block \<mapsto> b\<lparr>blk_free := 1\<rparr>)) a (release_at p a bs)"
proof (induction a bs rule: regions.induct)
  case (2 a k f bs)
  show ?case
  proof (cases "p = a + sizeof_mm_block")
    case True
    then have "(p, n, False) \<notin> set (regions (a + sizeof_mm_block + k) bs)"
      using regions_bounds[of p n False "a + sizeof_mm_block + k" bs] sizeof_pos by auto
    then have "n = k" "\<not> f" using 2(3) True by auto
    moreover have "bs \<noteq> [] \<longrightarrow> layout (h(a := x)) (a + sizeof_mm_block + k) bs" for x
      using 2(2) sizeof_pos by (auto simp: layout_hd layout_below)
    ultimately show ?thesis using 2(2) True by (auto simp: layout_hd fun_upd_same simp del: fun_upd_apply)
  next
    case False
    then have mem: "(p, n, False) \<in> set (regions (a + sizeof_mm_block + k) bs)" using 2(3) by auto
    then have ne: "bs \<noteq> []" by auto
    then have ne': "release_at p (a + sizeof_mm_block + k) bs \<noteq> []" by (cases bs) (auto split: if_splits)
    have gt: "a < p - sizeof_mm_block"
      using regions_bounds[OF mem] sizeof_pos by auto
    then show ?thesis using 2(1)[OF _ mem] 2(2) False ne ne' by (auto simp: layout_hd)
  qed
qed simp

lemma used_release_at:
  "(p, n, False) \<in> set (regions a bs) \<Longrightarrow> used (release_at p a bs) + (sizeof_mm_block + n) = used bs"
proof (induction a bs rule: regions.induct)
  case (2 a k f bs)
  have "(p, m, g) \<in> set (regions (a + sizeof_mm_block + k) bs) \<Longrightarrow> p > a + sizeof_mm_block" for m g
    using regions_bounds[of p m g "a + sizeof_mm_block + k" bs] sizeof_pos by simp
  then show ?case using 2 by fastforce
qed simp

lemma extent_release_at [simp]: "extent (release_at p a bs) = extent bs"
  by (induction p a bs rule: release_at.induct) auto

lemma free_s_refines [spec]:
  assumes "mm_ok bs s" and "(p, n) \<in> live bs" and "0 < n"
  shows "\<exists>h al. free_s (Some p) s = Some ((), s\<lparr>mm_heap := h, mm_allocated := al\<rparr>) \<and>
    mm_ok (release_at p mm_head bs) (s\<lparr>mm_heap := h, mm_allocated := al\<rparr>)"
proof -
  have mem: "(p, n, False) \<in> set (regions mm_head bs)" using assms(2) by (simp add: live_def)
  obtain b where b: "mm_heap s (p - sizeof_mm_block) = Some b" "blk_magic b = MM_BLOCK_MAGIC" "blk_free b = 0"
    "blk_size b = of_nat n"
    "layout ((mm_heap s)(p - sizeof_mm_block \<mapsto> b\<lparr>blk_free := 1\<rparr>)) mm_head (release_at p mm_head bs)"
    using layout_release[OF _ mem] assms(1) unfolding mm_ok_def by blast
  have le: "sizeof_mm_block \<le> p" "p + n \<le> ALLOC_BUFFER_SIZE"
    using regions_bounds[OF mem] assms(1) by (auto simp: mm_ok_def mm_head_def)
  have al: "of_nat (used bs) - (of_nat n + of_nat sizeof_mm_block) = (of_nat (used (release_at p mm_head bs)) :: u32)"
    using used_release_at[OF mem] by (simp flip: of_nat_add add: algebra_simps)
  show ?thesis using b assms(1,3) le al
    by (auto simp: free_s_def mm_ok_def put_block_def not_le)
qed

section \<open>Initialisation\<close>

text \<open>The whole buffer as one free block.\<close>

definition one_block :: blocks where
  "one_block = [(ALLOC_BUFFER_SIZE - sizeof_mm_block, True)]"

lemma mm_init_ok:
  assumes "mm_heap s mm_head = Some b" and "blk_magic b \<noteq> MM_BLOCK_MAGIC" and "mm_allocated s = 0"
    and "malloc_lock s = NULL_LOCK"
  shows "\<exists>s'. mm_init s = Some (1, s') \<and> mm_ok one_block s' \<and> mm_manager s' = mm_manager s"
  using assms by (auto simp: mm_init_def put_block_def mm_ok_def one_block_def ALLOC_BUFFER_SIZE_def sizeof_mm_block_def)

text \<open>The statically zeroed buffer, with the built-in functions installed.\<close>

definition zeroed :: "'w \<Rightarrow> 'w mm_state" where
  "zeroed w = \<lparr>world = w, mm_manager = \<lparr>mgr_init = Builtin, mgr_malloc = Builtin, mgr_free = Builtin\<rparr>,
     mm_heap = (\<lambda>a. if a = mm_head then Some \<lparr>blk_magic = 0, blk_size = 0, blk_free = 0, blk_next = None\<rparr> else None),
     mm_allocated = 0, malloc_lock = NULL_LOCK\<rparr>"

lemma zeroed_init:
  "\<exists>s'. nft32_mm_init (zeroed w) = Some (1, s') \<and> mm_ok one_block s' \<and> mm_manager s' = mm_manager (zeroed w)"
  using mm_init_ok [of "zeroed w"] by (simp add: nft32_mm_init_def zeroed_def MM_BLOCK_MAGIC_def)

section \<open>Properties\<close>

text \<open>C16 (the allocator never hands out memory in use). On a heap that represents a list of blocks,
  \<open>nft32_malloc_s\<close> returns, keeps the heap well formed, and either returns a region of at least the
  requested size that lies in the buffer, is disjoint from every live region and becomes the only new
  one; or it returns \<open>NULL\<close>, changes no live region, and then even after merging adjacent free blocks
  none of them was large enough for the request rounded up to eight bytes.\<close>

theorem malloc_disjoint:
  assumes "mm_ok bs s" and "mgr_malloc (mm_manager s) = Builtin" and "sz \<noteq> 0" and "unat sz < 2 ^ 64 - 7"
  shows "\<exists>p bs' s'. nft32_malloc_s sz s = Some (p, s') \<and> mm_ok bs' s' \<and>
    (case p of
       Some a \<Rightarrow> \<exists>n \<ge> unat sz. live bs' = insert (a, n) (live bs) \<and> a + n \<le> ALLOC_BUFFER_SIZE \<and>
         (\<forall>(q, m) \<in> live bs. a + n + sizeof_mm_block \<le> q \<or> q + m + sizeof_mm_block \<le> a)
     | None \<Rightarrow> live bs' = live bs \<and> (\<forall>(n, free) \<in> set (merge_free bs). free \<longrightarrow> n < round8 (unat sz)))"
proof -
  let ?r = "malloc_list (round8 (unat sz)) bs"
  obtain h al where m: "malloc_s sz s = Some (fst ?r, s\<lparr>mm_heap := h, mm_allocated := al\<rparr>)"
    and ok: "mm_ok (snd ?r) (s\<lparr>mm_heap := h, mm_allocated := al\<rparr>)"
    using malloc_s_refines assms(1,3,4) by blast
  have le: "unat sz \<le> round8 (unat sz)" unfolding round8_def by linarith
  show ?thesis
  proof (cases "fst ?r")
    case None
    then have "fst (fit (round8 (unat sz)) mm_head (merge_free bs)) = None"
      by (auto simp: malloc_list_def split: prod.splits option.splits)
    then show ?thesis
      using None m ok assms(2) malloc_list_none[OF None]
      by (intro exI[of _ None] exI[of _ "snd ?r"] exI[of _ "s\<lparr>mm_heap := h, mm_allocated := al\<rparr>"])
        (auto simp: nft32_malloc_s_def fit_none_iff)
  next
    case (Some a)
    then obtain bs' where r: "?r = (Some a, bs')" by (cases ?r) auto
    obtain n where n: "round8 (unat sz) \<le> n" "(a, n) \<notin> live bs" "live bs' = insert (a, n) (live bs)"
      using malloc_list_live[OF r] by blast
    have mem: "(a, n, False) \<in> set (regions mm_head bs')" using n(3) by (auto simp: live_def)
    have "a + n \<le> ALLOC_BUFFER_SIZE"
      using regions_bounds[OF mem] ok r by (simp add: mm_ok_def mm_head_def)
    moreover have "a + n + sizeof_mm_block \<le> q \<or> q + k + sizeof_mm_block \<le> a" if "(q, k) \<in> live bs" for q k
    proof -
      have "(q, k, False) \<in> set (regions mm_head bs')" using n(3) that by (auto simp: live_def)
      then show ?thesis using regions_disjoint[OF mem] n(2) that by blast
    qed
    ultimately show ?thesis
      using r m ok assms(2) n le
      by (intro exI[of _ "Some a"] exI[of _ bs'] exI[of _ "s\<lparr>mm_heap := h, mm_allocated := al\<rparr>"])
        (auto simp: nft32_malloc_s_def intro!: exI[of _ n])
  qed
qed

theorem malloc_disjoint_witness:
  "\<exists>s p bs s'. nft32_mm_init (zeroed ()) = Some (1, s) \<and> nft32_malloc_s 100 s = Some (p, s') \<and> mm_ok bs s'"
proof -
  obtain s where s: "nft32_mm_init (zeroed ()) = Some (1, s)" "mm_ok one_block s" "mm_manager s = mm_manager (zeroed ())"
    using zeroed_init[of "()"] by blast
  then have "mgr_malloc (mm_manager s) = Builtin" by (simp add: zeroed_def)
  from malloc_disjoint[OF s(2) this, of 100] s(1) show ?thesis by auto
qed

text \<open>C17 (freeing gives back exactly one region). Freeing a live region of positive size returns and
  leaves a well-formed heap with that region, and no other, gone.\<close>

theorem free_exact:
  assumes "mm_ok bs s" and "mgr_free (mm_manager s) = Builtin" and "(p, n) \<in> live bs" and "0 < n"
  shows "\<exists>bs' s'. nft32_free_s (Some p) s = Some ((), s') \<and> mm_ok bs' s' \<and> live bs' = live bs - {(p, n)}"
  using free_s_refines[OF assms(1,3,4)] live_release_at[OF assms(3)] assms(2)
  by (fastforce simp: nft32_free_s_def)

text \<open>A heap with one live region of 16 bytes.\<close>

definition one_live :: "unit mm_state" where
  "one_live = (zeroed ())\<lparr>mm_heap := (\<lambda>a. None)
     (0 \<mapsto> \<lparr>blk_magic = MM_BLOCK_MAGIC, blk_size = 16, blk_free = 0, blk_next = Some 40\<rparr>,
      40 \<mapsto> \<lparr>blk_magic = MM_BLOCK_MAGIC, blk_size = 511936, blk_free = 1, blk_next = None\<rparr>), mm_allocated := 40\<rparr>"

lemma one_live_ok: "mm_ok [(16, False), (511936, True)] one_live"
  by (simp add: mm_ok_def one_live_def zeroed_def mm_head_def sizeof_mm_block_def ALLOC_BUFFER_SIZE_def)

theorem free_exact_witness:
  "\<exists>bs s. nft32_free_s (Some 24) one_live = Some ((), s) \<and> mm_ok bs s \<and> live bs = {}"
proof -
  have "live [(16, False), (511936, True)] = {(24, 16)}"
    by (auto simp: live_def mm_head_def sizeof_mm_block_def)
  moreover have "mgr_free (mm_manager one_live) = Builtin" by (simp add: one_live_def zeroed_def)
  ultimately show ?thesis using free_exact[OF one_live_ok, of 24 16] by auto
qed

text \<open>A request near the top of the address space succeeds with an empty region. The rounding
  \<open>(size + 7) & ~7\<close> wraps for the last seven sizes, so such a request takes the first free block and
  returns a pointer to a region of size zero instead of failing.\<close>

theorem malloc_size_wraps:
  assumes "mm_ok ((n, True) # bs) s" and "mgr_malloc (mm_manager s) = Builtin"
    and "2 ^ 64 - 7 \<le> unat sz" and "sizeof_mm_block \<le> n"
  shows "\<exists>s'. nft32_malloc_s sz s = Some (Some sizeof_mm_block, s') \<and>
    mm_ok ((0, False) # (n - sizeof_mm_block, True) # bs) s'"
proof -
  have "unat (align_u64 sz) = 0" using assms(3) by (rule align_u64_wraps)
  then have z: "align_u64 sz = 0" by (simp add: unat_eq_0)
  have nz: "sz \<noteq> 0" using assms(3) by auto
  have f: "fit 0 mm_head ((n, True) # bs) = (Some sizeof_mm_block, (0, False) # (n - sizeof_mm_block, True) # bs)"
    using assms(4) by (simp add: mm_head_def)
  from walk_ok[OF assms(1), of 0] obtain h al where
    w: "malloc_walk 0 0 (Some mm_head) (s\<lparr>malloc_lock := HELD\<rparr>) =
      Some (Some sizeof_mm_block, s\<lparr>malloc_lock := HELD, mm_heap := h, mm_allocated := al\<rparr>)"
    and ok: "mm_ok ((0, False) # (n - sizeof_mm_block, True) # bs) (s\<lparr>mm_heap := h, mm_allocated := al\<rparr>)"
    using f by auto
  show ?thesis
    using w ok nz z assms(2) mm_ok_lock[OF assms(1)]
    by (intro exI[of _ "s\<lparr>mm_heap := h, mm_allocated := al\<rparr>"])
      (simp add: nft32_malloc_s_def malloc_s_def eval_nat_numeral NO_OFFSET_def Let_def)
qed

theorem malloc_size_wraps_witness:
  "\<exists>s s'. nft32_mm_init (zeroed ()) = Some (1, s) \<and> nft32_malloc_s (- 1) s = Some (Some 24, s')"
proof -
  obtain s where s: "nft32_mm_init (zeroed ()) = Some (1, s)" "mm_ok one_block s" "mm_manager s = mm_manager (zeroed ())"
    using zeroed_init[of "()"] by blast
  have "mgr_malloc (mm_manager s) = Builtin" using s(3) by (simp add: zeroed_def)
  moreover have "2 ^ 64 - 7 \<le> unat (- 1 :: u64)" by (simp add: unsigned_minus_1_eq_mask mask_eq_exp_minus_1)
  ultimately show ?thesis
    using malloc_size_wraps[of "ALLOC_BUFFER_SIZE - sizeof_mm_block" "[]" s "- 1"] s
    by (auto simp: one_block_def sizeof_mm_block_def ALLOC_BUFFER_SIZE_def)
qed

end
