(* ===== verification/Strs.thy ===== *)
theory Strs
  imports Prelude
begin

text \<open>
  The memory and string helpers of \<open>std/str.c\<close>. A C buffer is the list of its bytes; a
  read or write outside it is undefined behaviour, so every helper returns an option. Loops are
  recursion on the number of iterations that are left.
\<close>

unbundle bit_operations_syntax

section \<open>Buffers\<close>

definition bget :: "byte list \<Rightarrow> nat \<Rightarrow> byte option" where
  "bget buf i = (if i < length buf then Some (buf ! i) else None)"

definition bput :: "byte list \<Rightarrow> nat \<Rightarrow> byte \<Rightarrow> byte list option" where
  "bput buf i v = (if i < length buf then Some (buf[i := v]) else None)"

lemma bget_Some [simp]: "i < length buf \<Longrightarrow> bget buf i = Some (buf ! i)"
  by (simp add: bget_def)

lemma bput_Some [simp]: "i < length buf \<Longrightarrow> bput buf i v = Some (buf[i := v])"
  by (simp add: bput_def)

section \<open>Memory functions\<close>

primrec memcpy_dwords :: "byte list \<Rightarrow> byte list \<Rightarrow> nat \<Rightarrow> byte list option" where
  "memcpy_dwords dst src 0 = Some dst"
| "memcpy_dwords dst src (Suc i) = do {
     dst \<leftarrow> memcpy_dwords dst src i;
     if 4 * i + 4 \<le> length dst \<and> 4 * i + 4 \<le> length src
     then Some (splice dst (4 * i) (bytes_of_u32 (get_u32 src (4 * i)))) else None }"

primrec memcpy_bytes :: "byte list \<Rightarrow> byte list \<Rightarrow> nat \<Rightarrow> nat \<Rightarrow> byte list option" where
  "memcpy_bytes dst src off 0 = Some dst"
| "memcpy_bytes dst src off (Suc i) = do {
     dst \<leftarrow> memcpy_bytes dst src off i;
     c \<leftarrow> bget src (off + i);
     bput dst (off + i) c }"

definition nft32_str_memcpy :: "byte list \<Rightarrow> byte list \<Rightarrow> nat \<Rightarrow> byte list option" where
  "nft32_str_memcpy destination source num = do {
     let num_dwords = num div 4;
     let num_bytes = num mod 4;
     dst \<leftarrow> memcpy_dwords destination source num_dwords;
     memcpy_bytes dst source (num_dwords * 4) num_bytes }"

primrec memset_dwords :: "byte list \<Rightarrow> u32 \<Rightarrow> nat \<Rightarrow> byte list option" where
  "memset_dwords dst val32 0 = Some dst"
| "memset_dwords dst val32 (Suc i) = do {
     dst \<leftarrow> memset_dwords dst val32 i;
     if 4 * i + 4 \<le> length dst then Some (splice dst (4 * i) (bytes_of_u32 val32)) else None }"

primrec memset_bytes :: "byte list \<Rightarrow> byte \<Rightarrow> nat \<Rightarrow> nat \<Rightarrow> byte list option" where
  "memset_bytes dst val8 off 0 = Some dst"
| "memset_bytes dst val8 off (Suc i) = do {
     dst \<leftarrow> memset_bytes dst val8 off i;
     bput dst (off + i) val8 }"

definition nft32_str_memset :: "byte list \<Rightarrow> byte \<Rightarrow> nat \<Rightarrow> byte list option" where
  "nft32_str_memset pointer value num = do {
     let num_dwords = num div 4;
     let num_bytes = num mod 4;
     let val32 = (ucast value OR push_bit 8 (ucast value) OR push_bit 16 (ucast value)
                  OR push_bit 24 (ucast value) :: u32);
     dst \<leftarrow> memset_dwords pointer val32 num_dwords;
     memset_bytes dst value (num_dwords * 4) num_bytes }"

primrec memcmp_loop :: "byte list \<Rightarrow> byte list \<Rightarrow> nat \<Rightarrow> nat \<Rightarrow> int option" where
  "memcmp_loop p q 0 i = Some 0"
| "memcmp_loop p q (Suc k) i = do {
     a \<leftarrow> bget p i; b \<leftarrow> bget q i;
     if a \<noteq> b then Some (uint a - uint b) else memcmp_loop p q k (Suc i) }"

definition nft32_str_memcmp :: "byte list \<Rightarrow> byte list \<Rightarrow> nat \<Rightarrow> int option" where
  "nft32_str_memcmp p q num = memcmp_loop p q num 0"

section \<open>String functions\<close>

primrec strncpy_copy :: "byte list \<Rightarrow> nat \<Rightarrow> nat \<Rightarrow> byte list \<Rightarrow> (nat \<times> byte list) option" where
  "strncpy_copy src 0 i dst = Some (i, dst)"
| "strncpy_copy src (Suc k) i dst = do {
     c \<leftarrow> bget src i;
     if c \<noteq> 0 then do { dst \<leftarrow> bput dst i c; strncpy_copy src k (Suc i) dst }
     else Some (i, dst) }"

primrec strncpy_fill :: "nat \<Rightarrow> nat \<Rightarrow> byte list \<Rightarrow> byte list option" where
  "strncpy_fill 0 i dst = Some dst"
| "strncpy_fill (Suc k) i dst = do { dst \<leftarrow> bput dst i 0; strncpy_fill k (Suc i) dst }"

definition nft32_str_strncpy :: "byte list \<Rightarrow> byte list \<Rightarrow> nat \<Rightarrow> byte list option" where
  "nft32_str_strncpy dst src n = do {
     (i, dst) \<leftarrow> strncpy_copy src n 0 dst;
     strncpy_fill (n - i) i dst }"

primrec strncmp_loop :: "byte list \<Rightarrow> byte list \<Rightarrow> nat \<Rightarrow> nat \<Rightarrow> int option" where
  "strncmp_loop p q 0 i = Some 0"
| "strncmp_loop p q (Suc k) i = do {
     a \<leftarrow> bget p i; b \<leftarrow> bget q i;
     if a \<noteq> b \<or> (a = 0 \<or> b = 0) then Some (uint a - uint b) else strncmp_loop p q k (Suc i) }"

definition nft32_str_strncmp :: "byte list \<Rightarrow> byte list \<Rightarrow> nat \<Rightarrow> int option" where
  "nft32_str_strncmp str1 str2 n = strncmp_loop str1 str2 n 0"

fun nft32_str_strlen :: "byte list \<Rightarrow> nat option" where
  "nft32_str_strlen [] = None"
| "nft32_str_strlen (c # cs) =
     (if c \<noteq> 0 then (case nft32_str_strlen cs of None \<Rightarrow> None | Some len \<Rightarrow> Some (Suc len)) else Some 0)"

text \<open>\<open>strcpy\<close> returns whether the C function returns its destination (\<open>True\<close>) or
  NULL (\<open>False\<close>, for an empty source), with the destination buffer.\<close>

primrec strcpy_loop :: "byte list \<Rightarrow> nat \<Rightarrow> nat \<Rightarrow> byte list \<Rightarrow> (nat \<times> byte list) option" where
  "strcpy_loop src 0 i dst = Some (i, dst)"
| "strcpy_loop src (Suc k) i dst = do {
     c \<leftarrow> bget src i;
     dst \<leftarrow> bput dst i c;
     strcpy_loop src k (Suc i) dst }"

definition nft32_str_strcpy :: "byte list \<Rightarrow> byte list \<Rightarrow> (bool \<times> byte list) option" where
  "nft32_str_strcpy dst src = do {
     len \<leftarrow> nft32_str_strlen src;
     if len = 0 then Some (False, dst)
     else do {
       (i, dst) \<leftarrow> strcpy_loop src len 0 dst;
       dst \<leftarrow> bput dst i 0;
       Some (True, dst) } }"

definition islower_c :: "byte \<Rightarrow> bool" where
  "islower_c c \<longleftrightarrow> 97 \<le> c \<and> c \<le> 122"

definition toupper_c :: "byte \<Rightarrow> byte" where
  "toupper_c c = (if islower_c c then c - 97 + 65 else c)"

fun uppercase_loop :: "byte list \<Rightarrow> byte list option" where
  "uppercase_loop [] = None"
| "uppercase_loop (c # cs) =
     (if c \<noteq> 0 then (case uppercase_loop cs of None \<Rightarrow> None | Some cs \<Rightarrow> Some (toupper_c c # cs))
      else Some (c # cs))"

text \<open>The pointer may be NULL.\<close>

definition nft32_str_uppercase :: "byte list option \<Rightarrow> (bool \<times> byte list option) option" where
  "nft32_str_uppercase str = (case str of None \<Rightarrow> Some (False, None)
     | Some s \<Rightarrow> (case uppercase_loop s of None \<Rightarrow> None | Some s \<Rightarrow> Some (True, Some s)))"

section \<open>What they compute\<close>

lemma splice_splice:
  assumes "off + length xs + length ys \<le> length buf"
  shows "splice (splice buf off xs) (off + length xs) ys = splice buf off (xs @ ys)"
  using assms by (intro nth_equalityI) (auto simp: nth_splice nth_append)

lemma splice_Cons:
  assumes "Suc (i + length xs) \<le> length dst"
  shows "splice (dst[i := c]) (Suc i) xs = splice dst i (c # xs)"
proof (intro nth_equalityI)
  fix k assume "k < length (splice (dst[i := c]) (Suc i) xs)"
  then have k: "k < length dst" using assms by simp
  consider "k < i" | "k = i" | "Suc i \<le> k" by linarith
  then show "splice (dst[i := c]) (Suc i) xs ! k = splice dst i (c # xs) ! k"
    using assms k by cases (auto simp: nth_splice nth_list_update nth_Cons')
qed (use assms in simp)

lemma bytes_of_get_u32:
  "off + 4 \<le> length bs \<Longrightarrow> bytes_of_u32 (get_u32 bs off) = take 4 (drop off bs)"
  by (intro nth_equalityI)
    (auto simp: get_u32_def nth_Cons' less_Suc_eq numeral_eq_Suc)

lemma memcpy_dwords_eq:
  "4 * n \<le> length dst \<Longrightarrow> 4 * n \<le> length src \<Longrightarrow>
   memcpy_dwords dst src n = Some (take (4 * n) src @ drop (4 * n) dst)"
proof (induction n)
  case (Suc n)
  have "splice (take (4 * n) src @ drop (4 * n) dst) (4 * n) (take 4 (drop (4 * n) src))
      = take (4 * Suc n) src @ drop (4 * Suc n) dst"
    using Suc.prems by (simp add: splice_def take_add [symmetric] add.commute)
  with Suc show ?case by (simp add: bytes_of_get_u32)
qed simp

lemma memcpy_bytes_eq:
  "off + n \<le> length dst \<Longrightarrow> off + n \<le> length src \<Longrightarrow> take off dst = take off src \<Longrightarrow>
   memcpy_bytes dst src off n = Some (take (off + n) src @ drop (off + n) dst)"
proof (induction n)
  case 0
  then show ?case by (metis memcpy_bytes.simps(1) add_0_right append_take_drop_id)
next
  case (Suc n)
  then show ?case
    by (auto intro!: nth_equalityI simp: nth_append nth_list_update less_Suc_eq)
qed

lemma memcpy_eq:
  assumes "num \<le> length dst" and "num \<le> length src"
  shows "nft32_str_memcpy dst src num = Some (take num src @ drop num dst)"
proof -
  let ?d = "4 * (num div 4)"
  have d: "?d + num mod 4 = num" by simp
  have "memcpy_dwords dst src (num div 4) = Some (take ?d src @ drop ?d dst)"
    using assms by (intro memcpy_dwords_eq) auto
  moreover have "memcpy_bytes (take ?d src @ drop ?d dst) src ?d (num mod 4)
      = Some (take (?d + num mod 4) src @ drop (?d + num mod 4) (take ?d src @ drop ?d dst))"
    using assms by (intro memcpy_bytes_eq) auto
  moreover have "drop (?d + num mod 4) (take ?d src @ drop ?d dst) = drop num dst"
    using assms by (intro nth_equalityI) (auto simp: nth_append)
  ultimately show ?thesis
    by (simp add: nft32_str_memcpy_def Let_def mult.commute)
qed

lemma memset_eq:
  assumes "num \<le> length dst"
  shows "nft32_str_memset dst v num = Some (replicate num v @ drop num dst)"
proof -
  let ?w = "ucast v OR push_bit 8 (ucast v) OR push_bit 16 (ucast v) OR push_bit 24 (ucast v) :: u32"
  have w: "bytes_of_u32 ?w = replicate 4 v"
    using bytes_of_u32_of_bytes [of v v v v] by (simp add: u32_of_bytes_def numeral_eq_Suc)
  have dw: "4 * n \<le> length dst \<Longrightarrow> memset_dwords dst ?w n = Some (replicate (4 * n) v @ drop (4 * n) dst)" for n
    by (induction n) (auto simp: w splice_def replicate_add [symmetric] add.commute)
  have byt: "off + n \<le> length b \<Longrightarrow> take off b = replicate off v \<Longrightarrow>
      memset_bytes b v off n = Some (replicate (off + n) v @ drop (off + n) b)" for off n b
  proof (induction n)
    case 0
    then show ?case by (metis memset_bytes.simps(1) add_0_right append_take_drop_id)
  next
    case (Suc n)
    then show ?case
      by (auto intro!: nth_equalityI simp: nth_append nth_list_update less_Suc_eq simp del: replicate.simps)
  qed
  have "memset_bytes (replicate (4 * (num div 4)) v @ drop (4 * (num div 4)) dst) v (4 * (num div 4)) (num mod 4)
      = Some (replicate num v @ drop num dst)"
    using assms by (subst byt) (auto intro!: nth_equalityI simp: nth_append)
  then show ?thesis
    using dw [of "num div 4"] assms by (simp add: nft32_str_memset_def Let_def mult.commute)
qed

lemma strlen_eq: "0 \<notin> set cs \<Longrightarrow> nft32_str_strlen (cs @ 0 # r) = Some (length cs)"
  by (induction cs) auto

lemma strlen_None: "nft32_str_strlen s = None \<longleftrightarrow> 0 \<notin> set s"
  by (induction s) (auto split: option.splits)

lemma strlen_Some:
  "nft32_str_strlen s = Some n \<Longrightarrow> n < length s \<and> s ! n = 0 \<and> (\<forall>k < n. s ! k \<noteq> 0)"
proof (induction s arbitrary: n)
  case (Cons c cs)
  then show ?case
    by (auto split: if_splits option.splits simp: nth_Cons' less_Suc_eq_0_disj)
qed simp

lemma uppercase_eq:
  "0 \<notin> set cs \<Longrightarrow> uppercase_loop (cs @ 0 # r) = Some (map toupper_c cs @ 0 # r)"
  by (induction cs) auto

lemma uppercase_None: "uppercase_loop s = None \<longleftrightarrow> 0 \<notin> set s"
  by (induction s) (auto split: option.splits)

lemma toupper_c_nonzero: "c \<noteq> 0 \<Longrightarrow> toupper_c c \<noteq> 0"
proof -
  assume "c \<noteq> 0"
  show "toupper_c c \<noteq> 0"
  proof (cases "islower_c c")
    case True
    then have "97 \<le> unat c" "unat c \<le> 122" by (simp_all add: islower_c_def word_le_nat_alt)
    moreover have "unat (c - 97 + 65) = unat c - 97 + 65"
      using calculation by (simp add: unat_word_ariths unat_sub word_le_nat_alt)
    ultimately show ?thesis using True by (auto simp: toupper_c_def)
  next
    case False
    with \<open>c \<noteq> 0\<close> show ?thesis by (simp add: toupper_c_def)
  qed
qed

lemma strncpy_copy_eq:
  assumes "length cs \<le> k" and "i + k \<le> length dst" and "0 \<notin> set cs"
    and "take (length cs) (drop i src) = cs"
    and "length cs = k \<or> i + length cs < length src \<and> src ! (i + length cs) = 0"
  shows "strncpy_copy src k i dst = Some (i + length cs, splice dst i cs)"
  using assms
proof (induction k arbitrary: i dst cs)
  case 0
  then show ?case by simp
next
  case (Suc k)
  show ?case
  proof (cases cs)
    case Nil
    then show ?thesis using Suc.prems by simp
  next
    case (Cons c cs')
    with Suc.prems(4) have "drop i src \<noteq> []" by auto
    then have ne: "i < length src" by simp
    then have dr: "drop i src = src ! i # drop (Suc i) src" by (simp add: Cons_nth_drop_Suc)
    have i: "i < length src" "src ! i = c" and t: "take (length cs') (drop (Suc i) src) = cs'"
      using Suc.prems(4) ne by (simp_all add: Cons dr)
    have "strncpy_copy src k (Suc i) (dst[i := c]) = Some (Suc i + length cs', splice (dst[i := c]) (Suc i) cs')"
      using Suc.prems Cons t by (intro Suc.IH) auto
    moreover have "splice (dst[i := c]) (Suc i) cs' = splice dst i cs"
      using Suc.prems Cons by (simp add: splice_Cons)
    ultimately show ?thesis
      using i Cons Suc.prems by simp
  qed
qed

lemma strncpy_fill_eq:
  "i + k \<le> length dst \<Longrightarrow> strncpy_fill k i dst = Some (splice dst i (replicate k 0))"
proof (induction k arbitrary: i dst)
  case (Suc k)
  have "splice (dst[i := 0]) (Suc i) (replicate k 0) = splice dst i (replicate (Suc k) 0)"
    using Suc.prems by (simp add: splice_Cons)
  with Suc show ?case by simp
qed simp

lemma strncpy_eq:
  assumes "n \<le> length dst" and "0 \<notin> set cs"
    and "length cs = n \<or> length cs < n \<and> (\<exists>r. src = cs @ 0 # r)" and "take (length cs) src = cs"
  shows "nft32_str_strncpy dst src n = Some (cs @ replicate (n - length cs) 0 @ drop n dst)"
proof -
  have c: "strncpy_copy src n 0 dst = Some (length cs, splice dst 0 cs)"
    using assms strncpy_copy_eq [of cs n 0 dst src] by (auto simp: nth_append)
  have "strncpy_fill (n - length cs) (length cs) (splice dst 0 cs)
      = Some (splice (splice dst 0 cs) (length cs) (replicate (n - length cs) 0))"
    using assms by (intro strncpy_fill_eq) auto
  moreover have "splice (splice dst 0 cs) (length cs) (replicate (n - length cs) 0)
      = cs @ replicate (n - length cs) 0 @ drop n dst"
    using assms splice_splice [of 0 cs "replicate (n - length cs) 0" dst]
    by (auto simp: splice_def)
  ultimately show ?thesis using c by (simp add: nft32_str_strncpy_def)
qed

lemma strncmp_loop_0:
  "i + k \<le> length p \<Longrightarrow> i + k \<le> length q \<Longrightarrow> (\<forall>j < k. p ! (i + j) \<noteq> 0) \<Longrightarrow>
   strncmp_loop p q k i = Some 0 \<longleftrightarrow> (\<forall>j < k. p ! (i + j) = q ! (i + j))"
proof (induction k arbitrary: i)
  case (Suc k)
  have all: "(\<forall>j < Suc k. P j) \<longleftrightarrow> P 0 \<and> (\<forall>j < k. P (Suc j))" for P
    by (auto simp: less_Suc_eq_0_disj)
  have u: "uint a = uint b \<longleftrightarrow> a = b" for a b :: byte by (simp add: word_uint_eq_iff)
  from Suc show ?case by (auto simp: all u)
qed simp

lemma strncmp_0_iff:
  assumes "n \<le> length p" and "n \<le> length q" and "0 \<notin> set (take n p)"
  shows "nft32_str_strncmp p q n = Some 0 \<longleftrightarrow> take n p = take n q"
proof -
  have "\<forall>j < n. p ! j \<noteq> 0"
    using assms by (auto simp: in_set_conv_nth)
  then have "nft32_str_strncmp p q n = Some 0 \<longleftrightarrow> (\<forall>j < n. p ! j = q ! j)"
    using assms strncmp_loop_0 [of 0 n p q] by (simp add: nft32_str_strncmp_def)
  also have "\<dots> \<longleftrightarrow> take n p = take n q"
    using assms by (auto simp: list_eq_iff_nth_eq)
  finally show ?thesis .
qed

lemma strcpy_loop_eq:
  "i + k \<le> length dst \<Longrightarrow> i + k \<le> length src \<Longrightarrow>
   strcpy_loop src k i dst = Some (i + k, splice dst i (take k (drop i src)))"
proof (induction k arbitrary: i dst)
  case (Suc k)
  have "splice (dst[i := src ! i]) (Suc i) (take k (drop (Suc i) src)) = splice dst i (take (Suc k) (drop i src))"
    using Suc.prems by (subst splice_Cons) (simp_all add: Cons_nth_drop_Suc [symmetric])
  with Suc show ?case by simp
qed simp

lemma strcpy_eq:
  assumes "0 \<notin> set cs" and "cs \<noteq> []" and "length cs < length dst"
  shows "nft32_str_strcpy dst (cs @ 0 # r) = Some (True, cs @ 0 # drop (Suc (length cs)) dst)"
proof -
  have "strcpy_loop (cs @ 0 # r) (length cs) 0 dst = Some (length cs, splice dst 0 cs)"
    using assms strcpy_loop_eq [of 0 "length cs" dst "cs @ 0 # r"] by simp
  moreover have "(splice dst 0 cs)[length cs := 0] = cs @ 0 # drop (Suc (length cs)) dst"
    using assms by (simp add: splice_def list_update_append Cons_nth_drop_Suc [symmetric])
  ultimately show ?thesis
    using assms by (simp add: nft32_str_strcpy_def strlen_eq)
qed

lemma strcpy_empty: "nft32_str_strcpy dst (0 # r) = Some (False, dst)"
  by (simp add: nft32_str_strcpy_def)

end
