(* ===== verification/Disk.thy ===== *)
theory Disk
  imports Mm Strs "HOL-Library.Multiset"
begin

text \<open>
  The disk layer of \<open>src/disk.c\<close> and \<open>include/nft32/disk.h\<close>: sector I/O through two platform
  callbacks, with a table of locked sector areas. The callbacks act on the outside world; a
  read returns its C result, the bytes it stored at the start of the buffer, and the new world.
\<close>

section \<open>State\<close>

type_synonym 'w read_fun = "u32 \<Rightarrow> int \<Rightarrow> int \<Rightarrow> 'w \<Rightarrow> int \<times> byte list \<times> 'w"
type_synonym 'w write_fun = "u32 \<Rightarrow> int \<Rightarrow> byte list \<Rightarrow> int \<Rightarrow> 'w \<Rightarrow> int \<times> 'w"

definition WRITE_LOCK :: int where "WRITE_LOCK = 0"
definition READ_LOCK :: int where "READ_LOCK = 1"
definition IO_THREADS_MAX :: nat where "IO_THREADS_MAX = 25"

record io_area =
  area_start :: u32
  area_count :: int
  area_ro :: int

record 'w disk_io =
  read_sector :: "'w read_fun option"
  write_sector :: "'w write_fun option"
  sector_size :: int

record 'w disk_state = "'w mm_state" +
  disk_io :: "'w disk_io"
  io_areas :: "io_area list"
  io_lock :: lock_t

definition lock_io :: "('w, 'z) disk_state_scheme \<Rightarrow> (int \<times> ('w, 'z) disk_state_scheme) option" where
  "lock_io s = (let (r, l) = THR_require_write (Some (io_lock s)) get_thread_num
     in Some (r, s\<lparr>io_lock := the l\<rparr>))"

definition unlock_io :: "('w, 'z) disk_state_scheme \<Rightarrow> (int \<times> ('w, 'z) disk_state_scheme) option" where
  "unlock_io s = (let (r, l) = THR_release_write (Some (io_lock s)) get_thread_num
     in Some (r, s\<lparr>io_lock := the l\<rparr>))"

section \<open>The area table\<close>

definition area_free :: io_area where
  "area_free = \<lparr>area_start = 0, area_count = -1, area_ro = 0\<rparr>"

definition areas_overlap :: "io_area \<Rightarrow> u32 \<Rightarrow> int \<Rightarrow> bool" where
  "areas_overlap a sa sz = (let
     a_start = area_start a; a_end = a_start + u32_of_int (area_count a);
     b_start = sa; b_end = sa + u32_of_int sz
   in a_start < b_end \<and> b_start < a_end)"

text \<open>The scan returns the first free slot seen and whether a conflict stopped it.\<close>

primrec scan_areas :: "u32 \<Rightarrow> int \<Rightarrow> int \<Rightarrow> io_area list \<Rightarrow> nat \<Rightarrow> nat option \<Rightarrow> nat option \<times> bool" where
  "scan_areas sa sz ro [] i found = (found, False)"
| "scan_areas sa sz ro (a # as) i found =
    (if area_count a = -1 then scan_areas sa sz ro as (Suc i) (if found = None then Some i else found)
     else if areas_overlap a sa sz \<and> (ro = 0 \<or> area_ro a = 0) then (found, True)
     else scan_areas sa sz ro as (Suc i) found)"

definition lock_area :: "u32 \<Rightarrow> int \<Rightarrow> int \<Rightarrow> ('w, 'z) disk_state_scheme \<Rightarrow> (int \<times> ('w, 'z) disk_state_scheme) option" where
  "lock_area sa sz ro s = do {
     (ok, s) \<leftarrow> lock_io s;
     if ok = 0 then Some (0, s)
     else (case scan_areas sa sz ro (io_areas s) 0 None of
       (Some j, False) \<Rightarrow> do {
         (_, s) \<leftarrow> unlock_io (s\<lparr>io_areas := (io_areas s)[j := \<lparr>area_start = sa, area_count = sz, area_ro = ro\<rparr>]\<rparr>);
         Some (1, s) }
     | _ \<Rightarrow> do { (_, s) \<leftarrow> unlock_io s; Some (0, s) }) }"

primrec clear_area :: "u32 \<Rightarrow> int \<Rightarrow> io_area list \<Rightarrow> io_area list" where
  "clear_area sa sz [] = []"
| "clear_area sa sz (a # as) =
    (if area_start a = sa \<and> area_count a = sz then area_free # as else a # clear_area sa sz as)"

definition unlock_area :: "u32 \<Rightarrow> int \<Rightarrow> ('w, 'z) disk_state_scheme \<Rightarrow> (int \<times> ('w, 'z) disk_state_scheme) option" where
  "unlock_area sa sz s = do {
     (ok, s) \<leftarrow> lock_io s;
     if ok \<noteq> 0 then do {
       (_, s) \<leftarrow> unlock_io (s\<lparr>io_areas := clear_area sa sz (io_areas s)\<rparr>);
       Some (1, s) }
     else Some (0, s) }"

section \<open>Sector I/O\<close>

definition DSK_setup :: "'w read_fun option \<Rightarrow> 'w write_fun option \<Rightarrow> int \<Rightarrow>
    ('w, 'z) disk_state_scheme \<Rightarrow> (int \<times> ('w, 'z) disk_state_scheme) option" where
  "DSK_setup rd wr ssize s =
    (if rd = None \<or> wr = None \<or> ssize \<le> 0 then Some (0, s)
     else Some (1, s\<lparr>disk_io := \<lparr>read_sector = rd, write_sector = wr, sector_size = ssize\<rparr>,
       io_areas := replicate IO_THREADS_MAX area_free\<rparr>))"

text \<open>Storing bytes in a buffer at a position, undefined past its end.\<close>

definition poke :: "byte list \<Rightarrow> nat \<Rightarrow> byte list \<Rightarrow> byte list option" where
  "poke buf pos xs = (if pos + length xs \<le> length buf then Some (splice buf pos xs) else None)"

definition call_read :: "u32 \<Rightarrow> int \<Rightarrow> byte list \<Rightarrow> nat \<Rightarrow> int \<Rightarrow>
    ('w, 'z) disk_state_scheme \<Rightarrow> ((int \<times> byte list) \<times> ('w, 'z) disk_state_scheme) option" where
  "call_read sa off buf pos n s = do {
     rd \<leftarrow> read_sector (disk_io s);
     let (r, data, w) = rd sa off n (world s);
     buf \<leftarrow> poke buf pos data;
     Some ((r, buf), s\<lparr>world := w\<rparr>) }"

definition call_write :: "u32 \<Rightarrow> int \<Rightarrow> byte list \<Rightarrow> nat \<Rightarrow> int \<Rightarrow>
    ('w, 'z) disk_state_scheme \<Rightarrow> (int \<times> ('w, 'z) disk_state_scheme) option" where
  "call_write sa off data pos n s = do {
     wr \<leftarrow> write_sector (disk_io s);
     if pos + nat n \<le> length data
     then (let (r, w) = wr sa off (take (nat n) (drop pos data)) n (world s) in Some (r, s\<lparr>world := w\<rparr>))
     else None }"

definition DSK_read_sector :: "u32 \<Rightarrow> byte list \<Rightarrow> int \<Rightarrow>
    ('w, 'z) disk_state_scheme \<Rightarrow> ((int \<times> byte list) \<times> ('w, 'z) disk_state_scheme) option" where
  "DSK_read_sector sa buf n s = do {
     (ok, s) \<leftarrow> lock_area sa 1 READ_LOCK s;
     if ok \<noteq> 0 then do {
       (r, s) \<leftarrow> call_read sa 0 buf 0 n s;
       (_, s) \<leftarrow> unlock_area sa 1 s;
       Some (r, s) }
     else Some ((0, buf), s) }"

text \<open>The loops over the sectors of an area. \<open>k\<close> iterations are left, \<open>n\<close> bytes are wanted,
  \<open>pos\<close> have been moved.\<close>

primrec readoff_loop :: "nat \<Rightarrow> u32 \<Rightarrow> int \<Rightarrow> byte list \<Rightarrow> nat \<Rightarrow> int \<Rightarrow>
    ('w, 'z) disk_state_scheme \<Rightarrow> ((int \<times> byte list) \<times> ('w, 'z) disk_state_scheme) option" where
  "readoff_loop 0 sa off buf pos n s = Some ((1, buf), s)"
| "readoff_loop (Suc k) sa off buf pos n s =
    (if n \<le> 0 then Some ((1, buf), s)
     else if off > sector_size (disk_io s)
     then readoff_loop k (sa + 1) (off - sector_size (disk_io s)) buf pos n s
     else let read_size = (if n > sector_size (disk_io s) - off then sector_size (disk_io s) - off else n) in do {
       ((r, buf), s) \<leftarrow> call_read sa off buf pos read_size s;
       if r = 0 then Some ((0, buf), s)
       else readoff_loop k (sa + 1) 0 buf (pos + nat read_size) (n - read_size) s })"

definition DSK_readoff_sectors :: "u32 \<Rightarrow> int \<Rightarrow> byte list \<Rightarrow> int \<Rightarrow> int \<Rightarrow>
    ('w, 'z) disk_state_scheme \<Rightarrow> ((int \<times> byte list) \<times> ('w, 'z) disk_state_scheme) option" where
  "DSK_readoff_sectors sa off buf n sc s = do {
     (ok, s) \<leftarrow> lock_area sa sc READ_LOCK s;
     if ok \<noteq> 0 then do {
       (r, s) \<leftarrow> readoff_loop (nat sc) sa off buf 0 n s;
       (_, s) \<leftarrow> unlock_area sa sc s;
       Some (r, s) }
     else Some ((0, buf), s) }"

definition DSK_write_sector :: "u32 \<Rightarrow> byte list \<Rightarrow> int \<Rightarrow>
    ('w, 'z) disk_state_scheme \<Rightarrow> (int \<times> ('w, 'z) disk_state_scheme) option" where
  "DSK_write_sector sa data n s = do {
     (ok, s) \<leftarrow> lock_area sa 1 WRITE_LOCK s;
     if ok \<noteq> 0 then do {
       (r, s) \<leftarrow> call_write sa 0 data 0 n s;
       (_, s) \<leftarrow> unlock_area sa 1 s;
       Some (r, s) }
     else Some (0, s) }"

primrec writeoff_loop :: "nat \<Rightarrow> u32 \<Rightarrow> int \<Rightarrow> byte list \<Rightarrow> nat \<Rightarrow> int \<Rightarrow>
    ('w, 'z) disk_state_scheme \<Rightarrow> (int \<times> ('w, 'z) disk_state_scheme) option" where
  "writeoff_loop 0 sa off data pos n s = Some (1, s)"
| "writeoff_loop (Suc k) sa off data pos n s =
    (if n \<le> 0 then Some (1, s)
     else if off > sector_size (disk_io s)
     then writeoff_loop k (sa + 1) (off - sector_size (disk_io s)) data pos n s
     else let write_size = (if n > sector_size (disk_io s) - off then sector_size (disk_io s) - off else n) in do {
       (r, s) \<leftarrow> call_write sa off data pos write_size s;
       if r = 0 then Some (0, s)
       else writeoff_loop k (sa + 1) 0 data (pos + nat write_size) (n - write_size) s })"

definition DSK_writeoff_sectors :: "u32 \<Rightarrow> int \<Rightarrow> byte list \<Rightarrow> int \<Rightarrow> int \<Rightarrow>
    ('w, 'z) disk_state_scheme \<Rightarrow> (int \<times> ('w, 'z) disk_state_scheme) option" where
  "DSK_writeoff_sectors sa off data n sc s = do {
     (ok, s) \<leftarrow> lock_area sa sc WRITE_LOCK s;
     if ok \<noteq> 0 then do {
       (r, s) \<leftarrow> writeoff_loop (nat sc) sa off data 0 n s;
       (_, s) \<leftarrow> unlock_area sa sc s;
       Some (r, s) }
     else Some (0, s) }"

primrec copy_loop :: "nat \<Rightarrow> u32 \<Rightarrow> u32 \<Rightarrow> byte list \<Rightarrow> int \<Rightarrow> int \<Rightarrow>
    ('w, 'z) disk_state_scheme \<Rightarrow> ((int \<times> byte list) \<times> ('w, 'z) disk_state_scheme) option" where
  "copy_loop 0 src dst buf n copied s = Some ((copied, buf), s)"
| "copy_loop (Suc k) src dst buf n copied s = do {
     ((readden, buf), s) \<leftarrow> call_read src 0 buf 0 n s;
     if readden = 0 then Some ((0, buf), s)
     else do {
       (written, s) \<leftarrow> call_write dst 0 buf 0 n s;
       if written = 0 then Some ((0, buf), s)
       else copy_loop k (src + 1) (dst + 1) buf n (copied + (readden + written)) s } }"

definition DSK_copy_sectors :: "u32 \<Rightarrow> u32 \<Rightarrow> int \<Rightarrow> byte list \<Rightarrow> int \<Rightarrow>
    ('w, 'z) disk_state_scheme \<Rightarrow> ((int \<times> byte list) \<times> ('w, 'z) disk_state_scheme) option" where
  "DSK_copy_sectors src dst sc buf n s = do {
     (ok, s) \<leftarrow> lock_area src sc READ_LOCK s;
     if ok = 0 then Some ((0, buf), s)
     else do {
       (ok, s) \<leftarrow> lock_area dst sc WRITE_LOCK s;
       if ok \<noteq> 0 then do {
         (r, s) \<leftarrow> copy_loop (nat sc) src dst buf n 0 s;
         (_, s) \<leftarrow> unlock_area dst sc s;
         (_, s) \<leftarrow> unlock_area src sc s;
         Some (r, s) }
       else do {
         (_, s) \<leftarrow> unlock_area src sc s;
         Some ((0, buf), s) } } }"

definition DSK_get_sector_size :: "('w, 'z) disk_state_scheme \<Rightarrow> int" where
  "DSK_get_sector_size s = sector_size (disk_io s)"

section \<open>Locking\<close>

lemma lock_io_null [wp, simp]:
  "io_lock s = NULL_LOCK \<Longrightarrow> lock_io s = Some (1, s\<lparr>io_lock := HELD\<rparr>)"
  by (simp add: lock_io_def)

lemma unlock_io_held [wp, simp]:
  "io_lock s = HELD \<Longrightarrow> unlock_io s = Some (1, s\<lparr>io_lock := NULL_LOCK\<rparr>)"
  by (simp add: unlock_io_def)

text \<open>The sectors of an area as a set. An area is proper when it has a sector and its end does not wrap;
  two areas conflict when they share a sector and one of them is for writing. The table holds proper
  areas only and never two that conflict.\<close>

definition sectors_of :: "io_area \<Rightarrow> nat set" where
  "sectors_of a = {unat (area_start a) ..< unat (area_start a) + nat (area_count a)}"

definition area_proper :: "io_area \<Rightarrow> bool" where
  "area_proper a = (0 < area_count a \<and> unat (area_start a) + nat (area_count a) < 2 ^ 32)"

definition conflict :: "io_area \<Rightarrow> io_area \<Rightarrow> bool" where
  "conflict a b = (sectors_of a \<inter> sectors_of b \<noteq> {} \<and> (area_ro a = 0 \<or> area_ro b = 0))"

definition areas_ok :: "io_area list \<Rightarrow> bool" where
  "areas_ok as = ((\<forall>a \<in> set as. area_count a = -1 \<or> area_proper a) \<and>
     (\<forall>i < length as. \<forall>j < length as. i \<noteq> j \<longrightarrow>
       area_count (as ! i) \<noteq> -1 \<longrightarrow> area_count (as ! j) \<noteq> -1 \<longrightarrow> \<not> conflict (as ! i) (as ! j)))"

text \<open>The recorded areas; each slot that is not free counts once.\<close>

definition held :: "io_area list \<Rightarrow> io_area multiset" where
  "held as = filter_mset (\<lambda>a. area_count a \<noteq> -1) (mset as)"

lemma area_end: "area_proper a \<Longrightarrow> unat (area_start a + u32_of_int (area_count a)) = unat (area_start a) + nat (area_count a)"
proof -
  assume p: "area_proper a"
  then have "(u32_of_int (area_count a) :: u32) = of_nat (nat (area_count a))" by (simp add: area_proper_def)
  moreover have "unat (of_nat (nat (area_count a)) :: u32) = nat (area_count a)" using p
    by (simp only: unat_of_nat) (simp add: area_proper_def)
  ultimately show ?thesis using p by (simp add: unat_word_ariths area_proper_def)
qed

lemma areas_overlap_sectors:
  assumes "area_proper a" "area_proper b"
  shows "areas_overlap a (area_start b) (area_count b) \<longleftrightarrow> sectors_of a \<inter> sectors_of b \<noteq> {}"
proof -
  have "0 < nat (area_count a)" "0 < nat (area_count b)" using assms by (simp_all add: area_proper_def)
  then have "sectors_of a \<inter> sectors_of b \<noteq> {} \<longleftrightarrow>
      unat (area_start a) < unat (area_start b) + nat (area_count b) \<and> unat (area_start b) < unat (area_start a) + nat (area_count a)"
    by (auto simp: sectors_of_def)
  then show ?thesis using area_end [OF assms(1)] area_end [OF assms(2)]
    by (simp add: areas_overlap_def Let_def word_less_nat_alt)
qed

lemma conflict_sym: "conflict a b = conflict b a"
  by (auto simp: conflict_def)

lemma conflict_scan:
  "area_proper a \<Longrightarrow> area_proper b \<Longrightarrow>
     conflict a b \<longleftrightarrow> areas_overlap a (area_start b) (area_count b) \<and> (area_ro b = 0 \<or> area_ro a = 0)"
  by (auto simp: conflict_def areas_overlap_sectors)

lemma scan_areas_slot:
  "scan_areas sa sz ro as i found = (Some j, False) \<Longrightarrow>
     found = Some j \<or> (i \<le> j \<and> j < i + length as \<and> area_count (as ! (j - i)) = -1)"
proof (induction as arbitrary: i found)
  case (Cons a as)
  show ?case
  proof (cases "area_count a = -1")
    case True
    then have "scan_areas sa sz ro as (Suc i) (if found = None then Some i else found) = (Some j, False)"
      using Cons.prems by simp
    from Cons.IH[OF this] show ?thesis using True
      by (auto simp: nth_Cons' split: if_splits)
  next
    case False
    then show ?thesis using Cons.IH[of "Suc i" found] Cons.prems
      by (auto simp: nth_Cons' split: if_splits)
  qed
qed simp

lemma scan_areas_clear:
  "scan_areas sa sz ro as i found = (r, False) \<Longrightarrow>
     \<forall>a \<in> set as. area_count a \<noteq> -1 \<longrightarrow> \<not> (areas_overlap a sa sz \<and> (ro = 0 \<or> area_ro a = 0))"
  by (induction as arbitrary: i found) (auto split: if_splits)

lemma scan_areas_full:
  "scan_areas sa sz ro as i found = (None, False) \<longleftrightarrow> found = None \<and>
     (\<forall>a \<in> set as. area_count a \<noteq> -1 \<and> \<not> (areas_overlap a sa sz \<and> (ro = 0 \<or> area_ro a = 0)))"
  by (induction as arbitrary: i found) auto

text \<open>On a table that is in order the scan finds a slot exactly when there is a free one and no
  conflict.\<close>

lemma scan_areas_grants:
  assumes "areas_ok as" "area_proper b"
  shows "(\<exists>j. scan_areas (area_start b) (area_count b) (area_ro b) as 0 None = (Some j, False)) \<longleftrightarrow>
    (\<exists>a \<in> set as. area_count a = -1) \<and> (\<forall>a \<in># held as. \<not> conflict a b)"
proof -
  let ?scan = "scan_areas (area_start b) (area_count b) (area_ro b) as 0 None"
  have "(\<forall>a \<in># held as. \<not> conflict a b) \<longleftrightarrow> (\<forall>a \<in> set as. area_count a \<noteq> -1 \<longrightarrow>
      \<not> (areas_overlap a (area_start b) (area_count b) \<and> (area_ro b = 0 \<or> area_ro a = 0)))"
  proof -
    have "conflict a b \<longleftrightarrow> areas_overlap a (area_start b) (area_count b) \<and> (area_ro b = 0 \<or> area_ro a = 0)"
      if "a \<in> set as" "area_count a \<noteq> -1" for a
      using that assms(1) conflict_scan [OF _ assms(2)] by (auto simp: areas_ok_def)
    then show ?thesis by (auto simp: held_def)
  qed
  moreover have "\<not> snd ?scan \<longleftrightarrow> (\<forall>a \<in> set as. area_count a \<noteq> -1 \<longrightarrow>
      \<not> (areas_overlap a (area_start b) (area_count b) \<and> (area_ro b = 0 \<or> area_ro a = 0)))"
  proof (rule iffI)
    assume "\<not> snd ?scan"
    then have "?scan = (fst ?scan, False)" by (simp add: prod_eq_iff)
    then show "\<forall>a \<in> set as. area_count a \<noteq> -1 \<longrightarrow>
        \<not> (areas_overlap a (area_start b) (area_count b) \<and> (area_ro b = 0 \<or> area_ro a = 0))" by (rule scan_areas_clear)
  next
    assume c: "\<forall>a \<in> set as. area_count a \<noteq> -1 \<longrightarrow>
        \<not> (areas_overlap a (area_start b) (area_count b) \<and> (area_ro b = 0 \<or> area_ro a = 0))"
    then have "scan_areas (area_start b) (area_count b) (area_ro b) as i f =
        (fst (scan_areas (area_start b) (area_count b) (area_ro b) as i f), False)" for i f
      by (induction as arbitrary: i f) auto
    then show "\<not> snd ?scan" by (metis snd_conv)
  qed
  moreover have "?scan = (None, False) \<longleftrightarrow> (\<forall>a \<in> set as. area_count a \<noteq> -1 \<and>
      \<not> (areas_overlap a (area_start b) (area_count b) \<and> (area_ro b = 0 \<or> area_ro a = 0)))"
    by (simp add: scan_areas_full)
  ultimately show ?thesis by (cases ?scan; cases "fst ?scan") auto
qed

lemma held_insert:
  "j < length as \<Longrightarrow> area_count (as ! j) = -1 \<Longrightarrow> area_count b \<noteq> -1 \<Longrightarrow> held (as[j := b]) = add_mset b (held as)"
  by (simp add: held_def mset_update)

lemma areas_ok_insert:
  assumes "areas_ok as" "area_proper b" "j < length as" "\<forall>a \<in># held as. \<not> conflict a b"
  shows "areas_ok (as[j := b])"
proof -
  have c: "\<not> conflict (as ! i) b" if "i < length as" "area_count (as ! i) \<noteq> -1" for i
    using assms(4) that by (auto simp: held_def)
  have "\<forall>a \<in> set (as[j := b]). area_count a = -1 \<or> area_proper a"
    using assms(1,2) set_update_subset_insert [of as j b] by (auto simp: areas_ok_def)
  then show ?thesis using assms(1,3) c
    by (auto simp: areas_ok_def nth_list_update conflict_sym[of b])
qed

lemma lock_area_exact:
  assumes "areas_ok (io_areas s)" "io_lock s = NULL_LOCK" "area_proper b"
  shows "\<exists>r s'. lock_area (area_start b) (area_count b) (area_ro b) s = Some (r, s') \<and> areas_ok (io_areas s') \<and>
    io_lock s' = NULL_LOCK \<and> length (io_areas s') = length (io_areas s) \<and>
    (if (\<exists>a \<in> set (io_areas s). area_count a = -1) \<and> (\<forall>a \<in># held (io_areas s). \<not> conflict a b)
     then r = 1 \<and> held (io_areas s') = add_mset b (held (io_areas s)) else r = 0 \<and> io_areas s' = io_areas s)"
proof (cases "(\<exists>a \<in> set (io_areas s). area_count a = -1) \<and> (\<forall>a \<in># held (io_areas s). \<not> conflict a b)")
  case True
  let ?new = "\<lparr>area_start = area_start b, area_count = area_count b, area_ro = area_ro b\<rparr>"
  obtain j where j: "scan_areas (area_start b) (area_count b) (area_ro b) (io_areas s) 0 None = (Some j, False)"
    using scan_areas_grants [OF assms(1,3)] True by blast
  have slot: "j < length (io_areas s)" "area_count (io_areas s ! j) = -1" using scan_areas_slot [OF j] by auto
  have new: "?new = b" "area_count b \<noteq> -1" using assms(3) by (simp_all add: area_proper_def)
  have "lock_area (area_start b) (area_count b) (area_ro b) s = Some (1, s\<lparr>io_areas := (io_areas s)[j := b]\<rparr>)"
    using j assms(2) by (simp add: lock_area_def new(1))
  then show ?thesis using True assms(1,2) areas_ok_insert [OF assms(1,3) slot(1)] held_insert [OF slot new(2)] by simp
next
  case False
  then have "\<not> (\<exists>j. scan_areas (area_start b) (area_count b) (area_ro b) (io_areas s) 0 None = (Some j, False))"
    using scan_areas_grants [OF assms(1,3)] by blast
  then have "lock_area (area_start b) (area_count b) (area_ro b) s = Some (0, s\<lparr>io_lock := NULL_LOCK\<rparr>)"
    using assms(2) by (auto simp: lock_area_def split: prod.splits option.splits bool.splits)
  then show ?thesis using False assms(1) by auto
qed

lemma clear_area_cases:
  "(\<exists>i < length as. area_start (as ! i) = sa \<and> area_count (as ! i) = sz \<and> clear_area sa sz as = as[i := area_free]) \<or>
   (clear_area sa sz as = as \<and> (\<forall>a \<in> set as. \<not> (area_start a = sa \<and> area_count a = sz)))"
proof (induction as)
  case (Cons a as)
  then show ?case by (auto intro: exI[of _ 0] exI[of _ "Suc _"])
qed simp

lemma areas_ok_clear: "i < length as \<Longrightarrow> areas_ok as \<Longrightarrow> areas_ok (as[i := area_free])"
  using set_update_subset_insert [of as i area_free]
  by (auto simp: areas_ok_def nth_list_update area_free_def split: if_splits)

lemma held_clear:
  "i < length as \<Longrightarrow> area_count (as ! i) \<noteq> -1 \<Longrightarrow> held as = add_mset (as ! i) (held (as[i := area_free]))"
  by (simp add: held_def mset_update area_free_def)

lemma unlock_area_exact:
  assumes "areas_ok (io_areas s)" "io_lock s = NULL_LOCK" "0 < sz"
  shows "\<exists>s'. unlock_area sa sz s = Some (1, s') \<and> areas_ok (io_areas s') \<and> io_lock s' = NULL_LOCK \<and>
    length (io_areas s') = length (io_areas s) \<and>
    (if \<exists>a \<in># held (io_areas s). area_start a = sa \<and> area_count a = sz
     then \<exists>a. area_start a = sa \<and> area_count a = sz \<and> held (io_areas s) = add_mset a (held (io_areas s'))
     else io_areas s' = io_areas s)"
proof -
  have run: "unlock_area sa sz s = Some (1, s\<lparr>io_areas := clear_area sa sz (io_areas s)\<rparr>)"
    using assms(2) by (simp add: unlock_area_def)
  from clear_area_cases [of "io_areas s" sa sz] show ?thesis
  proof (elim disjE exE conjE)
    fix i assume i: "i < length (io_areas s)" "area_start (io_areas s ! i) = sa" "area_count (io_areas s ! i) = sz"
      "clear_area sa sz (io_areas s) = (io_areas s)[i := area_free]"
    then have h: "held (io_areas s) = add_mset (io_areas s ! i) (held ((io_areas s)[i := area_free]))"
      using assms(3) held_clear by auto
    then have "\<exists>a \<in># held (io_areas s). area_start a = sa \<and> area_count a = sz" using i(2,3) by simp
    then show ?thesis using run i h assms(2) areas_ok_clear [OF _ assms(1)] by auto
  next
    assume "clear_area sa sz (io_areas s) = io_areas s" "\<forall>a \<in> set (io_areas s). \<not> (area_start a = sa \<and> area_count a = sz)"
    then show ?thesis using run assms(1,2) by (auto simp: held_def)
  qed
qed

text \<open>With no area locked the lock is granted, in the first slot, and the unlock gives it back.\<close>

abbreviation idle_areas :: "io_area list" where
  "idle_areas \<equiv> replicate IO_THREADS_MAX area_free"

lemma scan_idle: "scan_areas sa sz ro (replicate n area_free) i (Some k) = (Some k, False)"
  by (induction n arbitrary: i) (auto simp: area_free_def)

lemma scan_idle_first: "n \<noteq> 0 \<Longrightarrow> scan_areas sa sz ro (replicate n area_free) i None = (Some i, False)"
  by (cases n) (auto simp: area_free_def scan_idle[unfolded area_free_def])

lemma lock_area_idle [wp, simp]:
  assumes "io_lock s = NULL_LOCK" "io_areas s = idle_areas"
  shows "lock_area sa sz ro s = Some (1, s\<lparr>io_areas := idle_areas[0 := \<lparr>area_start = sa, area_count = sz, area_ro = ro\<rparr>]\<rparr>)"
  using assms by (simp add: lock_area_def scan_idle_first IO_THREADS_MAX_def)

lemma clear_first: "clear_area sa sz (idle_areas[0 := \<lparr>area_start = sa, area_count = sz, area_ro = ro\<rparr>]) = idle_areas"
  by (simp add: IO_THREADS_MAX_def eval_nat_numeral)

lemma unlock_area_first [wp, simp]:
  assumes "io_lock s = NULL_LOCK" "io_areas s = idle_areas[0 := \<lparr>area_start = sa, area_count = sz, area_ro = ro\<rparr>]"
  shows "unlock_area sa sz s = Some (1, s\<lparr>io_areas := idle_areas\<rparr>)"
  using assms by (simp add: unlock_area_def clear_first)

section \<open>The contract of a block device\<close>

text \<open>
  What the layer relies on: inside the device and inside a sector a read returns the
  stored bytes and a write replaces exactly them. \<open>secs\<close> views a world as sectors; a read may
  change the world elsewhere, as a call counter does.
\<close>

locale block_device =
  fixes rd :: "'w read_fun" and wr :: "'w write_fun" and wf :: "'w \<Rightarrow> bool"
    and secs :: "'w \<Rightarrow> nat \<Rightarrow> byte list" and nsec :: nat and ssz :: nat
  assumes ssz_pos: "0 < ssz"
    and nsec_fits: "nsec < 2 ^ 32"
    and secs_length: "wf w \<Longrightarrow> i < nsec \<Longrightarrow> length (secs w i) = ssz"
    and rd_ok: "wf w \<Longrightarrow> unat sa < nsec \<Longrightarrow> 0 \<le> off \<Longrightarrow> 0 \<le> n \<Longrightarrow> off + n \<le> int ssz \<Longrightarrow>
      \<exists>w'. rd sa off n w = (1, take (nat n) (drop (nat off) (secs w (unat sa))), w') \<and> wf w' \<and> secs w' = secs w"
    and wr_ok: "wf w \<Longrightarrow> unat sa < nsec \<Longrightarrow> 0 \<le> off \<Longrightarrow> 0 \<le> n \<Longrightarrow> off + n \<le> int ssz \<Longrightarrow> length data = nat n \<Longrightarrow>
      \<exists>w'. wr sa off data n w = (1, w') \<and> wf w' \<and>
        secs w' = (secs w)(unat sa := splice (secs w (unat sa)) (nat off) data)"

text \<open>The bytes of \<open>k\<close> consecutive sectors, and the state of a disk layer set up on a device and
  not in the middle of an operation.\<close>

definition flat :: "(nat \<Rightarrow> byte list) \<Rightarrow> nat \<Rightarrow> nat \<Rightarrow> byte list" where
  "flat sec a k = concat (map sec [a ..< a + k])"

definition dsk_ready :: "'w read_fun \<Rightarrow> 'w write_fun \<Rightarrow> nat \<Rightarrow> ('w, 'z) disk_state_scheme \<Rightarrow> bool" where
  "dsk_ready rd wr ssz s = (disk_io s = \<lparr>read_sector = Some rd, write_sector = Some wr, sector_size = int ssz\<rparr> \<and>
     io_areas s = idle_areas \<and> io_lock s = NULL_LOCK)"

lemma flat_Suc: "flat sec a (Suc k) = sec a @ flat sec (Suc a) k"
  by (simp add: flat_def upt_conv_Cons del: upt_Suc)

lemma flat_0 [simp]: "flat sec a 0 = []"
  by (simp add: flat_def)

lemma dsk_ready_world [simp]: "dsk_ready rd wr ssz (s\<lparr>world := w\<rparr>) = dsk_ready rd wr ssz s"
  by (simp add: dsk_ready_def)

lemma poke_Some: "pos + length xs \<le> length buf \<Longrightarrow> poke buf pos xs = Some (splice buf pos xs)"
  by (simp add: poke_def)

context block_device begin

lemma length_flat: "wf w \<Longrightarrow> a + k \<le> nsec \<Longrightarrow> length (flat (secs w) a k) = k * ssz"
  by (induction k arbitrary: a) (auto simp: flat_Suc secs_length)

lemma next_sector: "unat (sa :: u32) < nsec \<Longrightarrow> unat (sa + 1) = Suc (unat sa)"
  using nsec_fits by (simp add: unat_word_ariths)

lemma readoff_loop_flat:
  assumes "wf (world s)" and "disk_io s = \<lparr>read_sector = Some rd, write_sector = Some wr, sector_size = int ssz\<rparr>"
    and "unat sa + k \<le> nsec" and "0 \<le> off"
    and "pos + min (nat n) (k * ssz - nat off) \<le> length buf"
  shows "\<exists>w'. readoff_loop k sa off buf pos n s =
      Some ((1, splice buf pos (take (nat n) (drop (nat off) (flat (secs (world s)) (unat sa) k)))), s\<lparr>world := w'\<rparr>) \<and>
    wf w' \<and> secs w' = secs (world s)"
  using assms
proof (induction k arbitrary: s sa off buf pos n)
  case 0
  then show ?case by (intro exI[of _ "world s"]) simp
next
  case (Suc k)
  let ?sec = "secs (world s) (unat sa)" let ?rest = "flat (secs (world s)) (Suc (unat sa)) k"
  have len: "length ?sec = ssz" using Suc.prems by (simp add: secs_length)
  have rest: "length ?rest = k * ssz" using Suc.prems by (simp add: length_flat)
  have nxt: "unat (sa + 1) = Suc (unat sa)" using Suc.prems by (simp add: next_sector)
  consider (stop) "n \<le> 0" | (skip) "0 < n" "int ssz < off" | (go) "0 < n" "off \<le> int ssz" by linarith
  then show ?case
  proof cases
    case stop
    then show ?thesis using Suc.prems by (intro exI[of _ "world s"]) simp
  next
    case skip
    then have "\<exists>w'. readoff_loop k (sa + 1) (off - int ssz) buf pos n s =
      Some ((1, splice buf pos (take (nat n) (drop (nat (off - int ssz)) ?rest))), s\<lparr>world := w'\<rparr>) \<and>
        wf w' \<and> secs w' = secs (world s)"
      using Suc.IH[of s "sa + 1" "off - int ssz" pos n buf] Suc.prems nxt
      by (simp add: nat_diff_distrib add.commute)
    then show ?thesis using skip Suc.prems len
      by (simp add: flat_Suc nat_diff_distrib)
  next
    case go
    define m where "m = (if n > int ssz - off then int ssz - off else n)"
    have m: "0 \<le> m" "m \<le> n" "off + m \<le> int ssz" using go by (auto simp: m_def)
    let ?xs = "take (nat m) (drop (nat off) ?sec)"
    have lxs: "length ?xs = nat m" using m len Suc.prems(4) by (simp add: nat_le_iff) 
    obtain w where rd: "rd sa off m (world s) = (1, ?xs, w)" and w: "wf w" "secs w = secs (world s)"
      using rd_ok[of "world s" sa off m] Suc.prems m by auto
    let ?s = "s\<lparr>world := w\<rparr>" let ?buf = "splice buf pos ?xs"
    have fits: "pos + nat m + min (nat (n - m)) (k * ssz) \<le> length buf"
    proof -
      obtain o' n' where o': "off = int o'" "n = int n'"
        using Suc.prems(4) go by (metis nonneg_int_cases order_less_imp_le)
      have "nat m = min n' (ssz - o')" using o' go by (auto simp: m_def min_def)
      moreover have "nat (n - m) = n' - min n' (ssz - o')" using o' go by (auto simp: m_def min_def)
      moreover have "pos + min n' (ssz + k * ssz - o') \<le> length buf" "o' \<le> ssz"
        using Suc.prems(5) o' go by auto
      ultimately show ?thesis by linarith
    qed
    then have "\<exists>w'. readoff_loop k (sa + 1) 0 ?buf (pos + nat m) (n - m) ?s =
      Some ((1, splice ?buf (pos + nat m) (take (nat (n - m)) ?rest)), ?s\<lparr>world := w'\<rparr>) \<and>
        wf w' \<and> secs w' = secs (world s)"
      using Suc.IH[of ?s "sa + 1" 0 "pos + nat m" "n - m" ?buf] Suc.prems nxt w lxs by simp
    moreover have "splice ?buf (pos + nat m) (take (nat (n - m)) ?rest) =
        splice buf pos (?xs @ take (nat (n - m)) ?rest)"
    proof -
      have "pos + length ?xs + length (take (nat (n - m)) ?rest) \<le> length buf"
        using fits by (simp only: lxs length_take rest min.commute)
      from splice_splice[OF this] show ?thesis by (simp only: lxs)
    qed
    moreover have "take (nat n) (drop (nat off) (?sec @ ?rest)) = ?xs @ take (nat (n - m)) ?rest"
      using m len Suc.prems(4) go by (auto simp: m_def nat_diff_distrib)
    moreover have "readoff_loop (Suc k) sa off buf pos n s =
        readoff_loop k (sa + 1) 0 ?buf (pos + nat m) (n - m) ?s"
    proof -
      have "call_read sa off buf pos m s = Some ((1, ?buf), ?s)"
        using fits lxs by (simp add: call_read_def Suc.prems(2) rd poke_Some del: length_take length_drop)
      then show ?thesis using go by (simp only: readoff_loop.simps(2) Suc.prems(2) disk_io.simps m_def[symmetric] Let_def) simp
    qed
    ultimately show ?thesis by (simp add: flat_Suc)
  qed
qed

text \<open>A write replaces bytes of the flat view of the sectors, as far as they reach.\<close>

lemma flat_cong: "(\<And>i. a \<le> i \<Longrightarrow> i < a + k \<Longrightarrow> sec i = sec' i) \<Longrightarrow> flat sec a k = flat sec' a k"
  by (auto simp: flat_def intro!: arg_cong[of _ _ concat] map_cong)

lemma writeoff_loop_flat:
  assumes "wf (world s)" and "disk_io s = \<lparr>read_sector = Some rd, write_sector = Some wr, sector_size = int ssz\<rparr>"
    and "unat sa + k \<le> nsec" and "0 \<le> off"
    and "pos + nat n \<le> length data"
  shows "\<exists>w'. writeoff_loop k sa off data pos n s = Some (1, s\<lparr>world := w'\<rparr>) \<and> wf w' \<and>
    flat (secs w') (unat sa) k = splice (flat (secs (world s)) (unat sa) k) (min (nat off) (k * ssz))
      (take (k * ssz - nat off) (take (nat n) (drop pos data))) \<and>
    (\<forall>i. i < unat sa \<or> unat sa + k \<le> i \<longrightarrow> secs w' i = secs (world s) i)"
  using assms
proof (induction k arbitrary: s sa off pos n)
  case 0
  then show ?case by (intro exI[of _ "world s"]) simp
next
  case (Suc k)
  let ?sec = "secs (world s) (unat sa)" let ?rest = "flat (secs (world s)) (Suc (unat sa)) k"
  have len: "length ?sec = ssz" using Suc.prems by (simp add: secs_length)
  have rest: "length ?rest = k * ssz" using Suc.prems by (simp add: length_flat)
  have nxt: "unat (sa + 1) = Suc (unat sa)" using Suc.prems by (simp add: next_sector)
  consider (stop) "n \<le> 0" | (skip) "0 < n" "int ssz < off" | (go) "0 < n" "off \<le> int ssz" by linarith
  then show ?case
  proof cases
    case stop
    then show ?thesis using Suc.prems by (intro exI[of _ "world s"]) simp
  next
    case skip
    let ?xs = "take (k * ssz - nat (off - int ssz)) (take (nat n) (drop pos data))"
    obtain w' where w': "writeoff_loop k (sa + 1) (off - int ssz) data pos n s = Some (1, s\<lparr>world := w'\<rparr>)"
      "wf w'" "flat (secs w') (Suc (unat sa)) k = splice ?rest (min (nat (off - int ssz)) (k * ssz)) ?xs"
      "\<forall>i. i < Suc (unat sa) \<or> Suc (unat sa) + k \<le> i \<longrightarrow> secs w' i = secs (world s) i"
      using Suc.IH[of s "sa + 1" "off - int ssz" pos n] Suc.prems skip nxt by auto
    have eq: "ssz + k * ssz - nat off = k * ssz - nat (off - int ssz)"
      and mi: "min (nat off) (ssz + k * ssz) = ssz + min (nat (off - int ssz)) (k * ssz)" using skip by auto
    have "splice (?sec @ ?rest) (ssz + q) ys = ?sec @ splice ?rest q ys" for q ys
      using len by (simp add: splice_def)
    then have "flat (secs w') (unat sa) (Suc k) = splice (flat (secs (world s)) (unat sa) (Suc k))
        (min (nat off) (Suc k * ssz)) (take (Suc k * ssz - nat off) (take (nat n) (drop pos data)))"
      using w'(3,4) by (simp add: flat_Suc eq mi)
    then show ?thesis using skip Suc.prems w' by (intro exI[of _ w']) auto
  next
    case go
    define m where "m = (if n > int ssz - off then int ssz - off else n)"
    have m: "0 \<le> m" "m \<le> n" "off + m \<le> int ssz" using go by (auto simp: m_def)
    let ?d = "take (nat m) (drop pos data)"
    have ld: "length ?d = nat m" using m Suc.prems(5) by simp
    obtain w where wrt: "wr sa off ?d m (world s) = (1, w)" and w: "wf w"
      "secs w = (secs (world s))(unat sa := splice ?sec (nat off) ?d)"
      using wr_ok[of "world s" sa off m ?d] Suc.prems m ld by auto
    let ?s = "s\<lparr>world := w\<rparr>"
    have same: "flat (secs w) (Suc (unat sa)) k = ?rest" by (rule flat_cong) (simp add: w)
    have inside: "pos + nat m + nat (n - m) \<le> length data"
      using Suc.prems(5) m by (simp add: nat_diff_distrib)
    let ?xs = "take (k * ssz) (take (nat (n - m)) (drop (pos + nat m) data))"
    obtain w' where w': "writeoff_loop k (sa + 1) 0 data (pos + nat m) (n - m) ?s = Some (1, s\<lparr>world := w'\<rparr>)"
      "wf w'" "flat (secs w') (Suc (unat sa)) k = splice ?rest 0 ?xs"
      "\<forall>i. i < Suc (unat sa) \<or> Suc (unat sa) + k \<le> i \<longrightarrow> secs w' i = secs w i"
      using Suc.IH[of ?s "sa + 1" 0 "pos + nat m" "n - m"] Suc.prems(2,3) inside nxt w(1) same by auto
    obtain o' n' where o': "off = int o'" "n = int n'"
      using Suc.prems(4) go by (metis nonneg_int_cases order_less_imp_le)
    have nm: "nat m = min n' (ssz - o')" using o' go by (auto simp: m_def min_def)
    have nn: "nat (n - m) = n' - min n' (ssz - o')" using o' go by (auto simp: m_def min_def)
    have ole: "o' \<le> ssz" using go o' by simp
    have "splice (?sec @ ?rest) o' (take (ssz + k * ssz - o') (take n' (drop pos data))) =
        splice ?sec o' ?d @ splice ?rest 0 ?xs"
    proof (cases "n' \<le> ssz - o'")
      case True
      then have d: "?d = take n' (drop pos data)" and x: "?xs = []" by (simp_all add: nm nn)
      have ld': "length (take n' (drop pos data)) = n'" using Suc.prems(5) o' by simp
      have t: "take (ssz + k * ssz - o') (take n' (drop pos data)) = take n' (drop pos data)"
        using True by (intro take_all) auto
      show ?thesis unfolding t x d
        using True ole len rest ld' by (simp add: splice_def)
    next
      case False
      then have nm': "nat m = ssz - o'" "nat (n - m) = n' - (ssz - o')" by (simp_all add: nm nn)
      have split: "take (ssz + k * ssz - o') (take n' (drop pos data)) = ?d @ ?xs"
      proof -
        have "min (ssz + k * ssz - o') n' = (ssz - o') + min (k * ssz) (n' - (ssz - o'))"
          using False ole by linarith
        then show ?thesis
          unfolding nm' take_take by (simp add: take_add add.commute)
      qed
      show ?thesis unfolding split using ole len rest ld nm'
        by (simp add: splice_def)
    qed
    then have "flat (secs w') (unat sa) (Suc k) = splice (flat (secs (world s)) (unat sa) (Suc k))
        (min (nat off) (Suc k * ssz)) (take (Suc k * ssz - nat off) (take (nat n) (drop pos data)))"
      using w'(3,4) w(2) o' ole by (simp add: flat_Suc)
    moreover have "\<forall>i. i < unat sa \<or> unat sa + Suc k \<le> i \<longrightarrow> secs w' i = secs (world s) i"
      using w'(4) w(2) by auto
    moreover have "writeoff_loop (Suc k) sa off data pos n s =
        writeoff_loop k (sa + 1) 0 data (pos + nat m) (n - m) ?s"
    proof -
      have "call_write sa off data pos m s = Some (1, ?s)"
        using inside by (simp add: call_write_def Suc.prems(2) wrt)
      then show ?thesis using go by (simp only: writeoff_loop.simps(2) Suc.prems(2) disk_io.simps m_def[symmetric] Let_def) simp
    qed
    ultimately show ?thesis using w' by (intro exI[of _ w']) simp
  qed
qed

end

context block_device begin

text \<open>A write, and a read, of the whole layer: what the locks and the loops come to.\<close>

lemma readoff_ready:
  assumes "dsk_ready rd wr ssz s" and "wf (world s)" and "unat sa + nat sc \<le> nsec" and "0 \<le> off"
    and "min (nat n) (nat sc * ssz - nat off) \<le> length buf"
  shows "\<exists>w'. DSK_readoff_sectors sa off buf n sc s =
      Some ((1, splice buf 0 (take (nat n) (drop (nat off) (flat (secs (world s)) (unat sa) (nat sc))))), s\<lparr>world := w'\<rparr>) \<and>
    wf w' \<and> secs w' = secs (world s)"
proof -
  let ?ar = "idle_areas[0 := \<lparr>area_start = sa, area_count = sc, area_ro = READ_LOCK\<rparr>]"
  let ?t = "s\<lparr>io_areas := ?ar\<rparr>"
  have s: "io_lock s = NULL_LOCK" "io_areas s = idle_areas"
    "disk_io s = \<lparr>read_sector = Some rd, write_sector = Some wr, sector_size = int ssz\<rparr>"
    using assms(1) by (auto simp: dsk_ready_def)
  obtain w' where w': "readoff_loop (nat sc) sa off buf 0 n ?t =
      Some ((1, splice buf 0 (take (nat n) (drop (nat off) (flat (secs (world s)) (unat sa) (nat sc))))), ?t\<lparr>world := w'\<rparr>)"
    "wf w'" "secs w' = secs (world s)"
    using readoff_loop_flat[of ?t sa "nat sc" off 0 n buf] assms s by auto
  have undo: "s\<lparr>io_areas := ?ar, world := w', io_areas := idle_areas\<rparr> = s\<lparr>world := w'\<rparr>"
    using s(2) by simp
  show ?thesis
    using w' s undo by (intro exI[of _ w']) (simp add: DSK_readoff_sectors_def)
qed

lemma writeoff_ready:
  assumes "dsk_ready rd wr ssz s" and "wf (world s)" and "unat sa + nat sc \<le> nsec" and "0 \<le> off"
    and "nat n \<le> length data"
  shows "\<exists>w'. DSK_writeoff_sectors sa off data n sc s = Some (1, s\<lparr>world := w'\<rparr>) \<and> wf w' \<and>
    flat (secs w') (unat sa) (nat sc) = splice (flat (secs (world s)) (unat sa) (nat sc)) (min (nat off) (nat sc * ssz))
      (take (nat sc * ssz - nat off) (take (nat n) data)) \<and>
    (\<forall>i. i < unat sa \<or> unat sa + nat sc \<le> i \<longrightarrow> secs w' i = secs (world s) i)"
proof -
  let ?ar = "idle_areas[0 := \<lparr>area_start = sa, area_count = sc, area_ro = WRITE_LOCK\<rparr>]"
  let ?t = "s\<lparr>io_areas := ?ar\<rparr>"
  have s: "io_lock s = NULL_LOCK" "io_areas s = idle_areas"
    "disk_io s = \<lparr>read_sector = Some rd, write_sector = Some wr, sector_size = int ssz\<rparr>"
    using assms(1) by (auto simp: dsk_ready_def)
  obtain w' where w': "writeoff_loop (nat sc) sa off data 0 n ?t = Some (1, ?t\<lparr>world := w'\<rparr>)" "wf w'"
    "flat (secs w') (unat sa) (nat sc) = splice (flat (secs (world s)) (unat sa) (nat sc)) (min (nat off) (nat sc * ssz))
      (take (nat sc * ssz - nat off) (take (nat n) data))"
    "\<forall>i. i < unat sa \<or> unat sa + nat sc \<le> i \<longrightarrow> secs w' i = secs (world s) i"
    using writeoff_loop_flat[of ?t sa "nat sc" off 0 n data] assms s by auto
  have undo: "s\<lparr>io_areas := ?ar, world := w', io_areas := idle_areas\<rparr> = s\<lparr>world := w'\<rparr>"
    using s(2) by simp
  show ?thesis
    using w' s undo by (intro exI[of _ w']) (simp add: DSK_writeoff_sectors_def)
qed

text \<open>The case the clients use: the bytes lie inside the area.\<close>

lemma writeoff_inside:
  assumes "dsk_ready rd wr ssz s" and "wf (world s)" and "unat sa + nat sc \<le> nsec" and "0 \<le> off" and "0 \<le> n"
    and "length data = nat n" and "nat off + nat n \<le> nat sc * ssz"
  shows "\<exists>w'. DSK_writeoff_sectors sa off data n sc s = Some (1, s\<lparr>world := w'\<rparr>) \<and> wf w' \<and>
    flat (secs w') (unat sa) (nat sc) = splice (flat (secs (world s)) (unat sa) (nat sc)) (nat off) data \<and>
    (\<forall>i. i < unat sa \<or> unat sa + nat sc \<le> i \<longrightarrow> secs w' i = secs (world s) i)"
  using writeoff_ready[OF assms(1-4), of n data] assms(6,7) by simp

lemma write_then_read:
  assumes "dsk_ready rd wr ssz s" and "wf (world s)" and "unat sa + nat sc \<le> nsec" and "0 \<le> off" and "0 \<le> n"
    and "length data = nat n" and "nat off + nat n \<le> nat sc * ssz" and "length buf = nat n"
  shows "\<exists>s'. DSK_writeoff_sectors sa off data n sc s = Some (1, s') \<and>
    (\<exists>s''. DSK_readoff_sectors sa off buf n sc s' = Some ((1, data), s''))"
proof -
  obtain w' where w': "DSK_writeoff_sectors sa off data n sc s = Some (1, s\<lparr>world := w'\<rparr>)" "wf w'"
    "flat (secs w') (unat sa) (nat sc) = splice (flat (secs (world s)) (unat sa) (nat sc)) (nat off) data"
    using writeoff_inside[OF assms(1-7)] by blast
  have len: "length (flat (secs (world s)) (unat sa) (nat sc)) = nat sc * ssz"
    using assms(2,3) by (rule length_flat)
  have "take (nat n) (drop (nat off) (splice (flat (secs (world s)) (unat sa) (nat sc)) (nat off) data)) = data"
    using splice_read[of "nat off" data] len assms(6,7) by simp
  then show ?thesis
    using readoff_ready[of "s\<lparr>world := w'\<rparr>" sa sc off n buf] w' assms
    by (auto simp: splice_def)
qed

end

section \<open>Slots\<close>

text \<open>A record of the disk is addressed by its byte position on the device; it must not cross a
  sector boundary, which is what the record layers above arrange.\<close>

definition slot :: "nat \<Rightarrow> (nat \<Rightarrow> byte list) \<Rightarrow> nat \<Rightarrow> nat \<Rightarrow> byte list" where
  "slot ssz sec b n = take n (drop (b mod ssz) (sec (b div ssz)))"

definition put_slot :: "nat \<Rightarrow> (nat \<Rightarrow> byte list) \<Rightarrow> nat \<Rightarrow> byte list \<Rightarrow> nat \<Rightarrow> byte list" where
  "put_slot ssz sec b data = sec(b div ssz := splice (sec (b div ssz)) (b mod ssz) data)"

lemma slot_put_same:
  "length (sec (b div ssz)) = ssz \<Longrightarrow> b mod ssz + length data \<le> ssz \<Longrightarrow>
     slot ssz (put_slot ssz sec b data) b (length data) = data"
  by (simp add: slot_def put_slot_def)

lemma slot_put_other:
  assumes "length (sec (b div ssz)) = ssz" and "b mod ssz + length data \<le> ssz" and "c mod ssz + n \<le> ssz"
    and "b + length data \<le> c \<or> c + n \<le> b"
  shows "slot ssz (put_slot ssz sec b data) c n = slot ssz sec c n"
proof (cases "c div ssz = b div ssz")
  case True
  have "b mod ssz + length data \<le> c mod ssz \<or> c mod ssz + n \<le> b mod ssz"
    using assms(4) True by (metis add.assoc add_le_cancel_left div_mult_mod_eq)
  then have "take n (drop (c mod ssz) (splice (sec (b div ssz)) (b mod ssz) data)) =
      take n (drop (c mod ssz) (sec (b div ssz)))"
    using assms(1-3)
    by (intro nth_equalityI) (auto simp: nth_splice)
  then show ?thesis using True by (simp add: slot_def put_slot_def)
next
  case False
  then show ?thesis by (simp add: slot_def put_slot_def)
qed

lemma length_put_slot [simp]:
  "b mod ssz + length data \<le> length (sec (b div ssz)) \<Longrightarrow> length (put_slot ssz sec b data i) = length (sec i)"
  by (simp add: put_slot_def)

lemma sint_small: "unat (w :: u32) < 2 ^ 31 \<Longrightarrow> sint w = int (unat w)"
proof -
  assume "unat w < 2 ^ 31"
  then have "uint w < 2 ^ 31" by (metis of_nat_less_iff of_nat_numeral of_nat_power uint_nat)
  then have "signed_take_bit 31 (uint w) = uint w" by (intro signed_take_bit_int_eq_self) (auto intro: order_trans[of _ 0])
  then show ?thesis by (simp add: sint_uint)
qed

lemma flat_1 [simp]: "flat sec a (Suc 0) = sec a"
  by (simp add: flat_def)

context block_device begin

lemma length_slot: "wf w \<Longrightarrow> b div ssz < nsec \<Longrightarrow> b mod ssz + n \<le> ssz \<Longrightarrow> length (slot ssz (secs w) b n) = n"
  by (simp add: slot_def secs_length)

lemma read_slot:
  assumes "dsk_ready rd wr ssz s" and "wf (world s)" and "unat sa = b div ssz" and "b div ssz < nsec"
    and "off = int (b mod ssz)" and "b mod ssz + n \<le> ssz" and "length buf = n"
  shows "\<exists>w'. DSK_readoff_sectors sa off buf (int n) 1 s = Some ((1, slot ssz (secs (world s)) b n), s\<lparr>world := w'\<rparr>) \<and>
    wf w' \<and> secs w' = secs (world s)"
proof -
  have one: "flat (secs (world s)) (unat sa) 1 = secs (world s) (b div ssz)"
    using assms(3) by simp
  have "splice buf 0 (slot ssz (secs (world s)) b n) = slot ssz (secs (world s)) b n"
    using length_slot[OF assms(2,4,6)] assms(7) by (simp add: splice_def)
  then show ?thesis
    using readoff_ready[OF assms(1,2), of sa 1 off "int n" buf] assms(3-7) one
    by (simp add: slot_def)
qed

lemma write_slot:
  assumes "dsk_ready rd wr ssz s" and "wf (world s)" and "unat sa = b div ssz" and "b div ssz < nsec"
    and "off = int (b mod ssz)" and "b mod ssz + length data \<le> ssz" and "n = int (length data)"
  shows "\<exists>w'. DSK_writeoff_sectors sa off data n 1 s = Some (1, s\<lparr>world := w'\<rparr>) \<and>
    wf w' \<and> secs w' = put_slot ssz (secs (world s)) b data"
proof -
  obtain w' where w': "DSK_writeoff_sectors sa off data n 1 s = Some (1, s\<lparr>world := w'\<rparr>)" "wf w'"
    "flat (secs w') (unat sa) 1 = splice (flat (secs (world s)) (unat sa) 1) (nat off) data"
    "\<forall>i. i < unat sa \<or> unat sa + 1 \<le> i \<longrightarrow> secs w' i = secs (world s) i"
  proof -
    have "unat sa + nat 1 \<le> nsec" "0 \<le> off" "0 \<le> n" "length data = nat n" "nat off + nat n \<le> nat 1 * ssz"
      using assms(3-7) by simp_all
    from writeoff_inside[OF assms(1,2) this] that show thesis by auto
  qed
  have "secs w' i = put_slot ssz (secs (world s)) b data i" for i
  proof (cases "i = b div ssz")
    case True
    then show ?thesis using w'(3) assms(3,5) by (simp add: put_slot_def)
  next
    case False
    then have "i < unat sa \<or> unat sa + 1 \<le> i" using assms(3) by linarith
    then show ?thesis using w'(4) False by (auto simp: put_slot_def)
  qed
  then have "secs w' = put_slot ssz (secs (world s)) b data" by (rule ext)
  then show ?thesis using w' by blast
qed

end

section \<open>The device of the unit tests\<close>

text \<open>\<open>_fake_read\<close> and \<open>_fake_write\<close> of \<open>utests/unit_tests.c\<close>: an array of sectors and two
  call counters.\<close>

definition TEST_SECTOR_SIZE :: nat where "TEST_SECTOR_SIZE = 64"
definition TEST_SECTORS :: nat where "TEST_SECTORS = 128"

record fake_world =
  fk_disk :: "byte list list"
  fk_read_calls :: nat
  fk_write_calls :: nat

definition fake_read :: "fake_world read_fun" where
  "fake_read sa off n w =
    (if unat sa \<ge> TEST_SECTORS \<or> off < 0 \<or> off + n > int TEST_SECTOR_SIZE then (0, [], w)
     else (1, take (nat n) (drop (nat off) (fk_disk w ! unat sa)), w\<lparr>fk_read_calls := fk_read_calls w + 1\<rparr>))"

definition fake_write :: "fake_world write_fun" where
  "fake_write sa off data n w =
    (if unat sa \<ge> TEST_SECTORS \<or> off < 0 \<or> off + n > int TEST_SECTOR_SIZE then (0, w)
     else (1, w\<lparr>fk_disk := (fk_disk w)[unat sa := splice (fk_disk w ! unat sa) (nat off) (take (nat n) data)],
       fk_write_calls := fk_write_calls w + 1\<rparr>))"

definition fake_ok :: "fake_world \<Rightarrow> bool" where
  "fake_ok w = (length (fk_disk w) = TEST_SECTORS \<and> (\<forall>s \<in> set (fk_disk w). length s = TEST_SECTOR_SIZE))"

definition fake_secs :: "fake_world \<Rightarrow> nat \<Rightarrow> byte list" where
  "fake_secs w i = (if i < TEST_SECTORS then fk_disk w ! i else [])"

definition reset_disk :: "(fake_world, 'z) disk_state_scheme \<Rightarrow> (int \<times> (fake_world, 'z) disk_state_scheme) option" where
  "reset_disk s = DSK_setup (Some fake_read) (Some fake_write) (int TEST_SECTOR_SIZE)
     (s\<lparr>world := \<lparr>fk_disk = replicate TEST_SECTORS (replicate TEST_SECTOR_SIZE 0), fk_read_calls = 0, fk_write_calls = 0\<rparr>\<rparr>)"

interpretation fake: block_device fake_read fake_write fake_ok fake_secs TEST_SECTORS TEST_SECTOR_SIZE
proof unfold_locales
  show "fake_ok w \<Longrightarrow> i < TEST_SECTORS \<Longrightarrow> length (fake_secs w i) = TEST_SECTOR_SIZE" for w i
    by (auto simp: fake_ok_def fake_secs_def)
  show "\<exists>w'. fake_read sa off n w = (1, take (nat n) (drop (nat off) (fake_secs w (unat sa))), w') \<and>
      fake_ok w' \<and> fake_secs w' = fake_secs w"
    if "fake_ok w" "unat sa < TEST_SECTORS" "0 \<le> off" "0 \<le> n" "off + n \<le> int TEST_SECTOR_SIZE" for w sa off n
    using that by (auto simp: fake_read_def fake_ok_def fake_secs_def fun_eq_iff)
  show "\<exists>w'. fake_write sa off data n w = (1, w') \<and> fake_ok w' \<and>
      fake_secs w' = (fake_secs w)(unat sa := splice (fake_secs w (unat sa)) (nat off) data)"
    if "fake_ok w" "unat sa < TEST_SECTORS" "0 \<le> off" "0 \<le> n" "off + n \<le> int TEST_SECTOR_SIZE" "length data = nat n"
    for w sa off data n
  proof -
    have "length (fk_disk w ! unat sa) = TEST_SECTOR_SIZE" using that by (auto simp: fake_ok_def)
    then show ?thesis using that
      by (auto simp: fake_write_def fake_ok_def fake_secs_def fun_eq_iff nth_list_update
          dest!: set_update_subset_insert[THEN subsetD])
  qed
qed (simp_all add: TEST_SECTORS_def TEST_SECTOR_SIZE_def)

section \<open>Properties\<close>

text \<open>C23 (sector areas in use exclude each other). Take a table of proper areas of which no two share a
  sector with one of them locked for writing, and the lock of the table free. \<open>lock_area\<close> of a proper
  area grants it exactly when a slot is free and no recorded area shares a sector with it where one of the
  two is for writing; then it is recorded beside the others, otherwise the table stays as it was.
  \<open>unlock_area\<close> drops one recorded area of that start and length, when there is one, and nothing else.
  Both release the lock and keep the table free of conflicts.\<close>

theorem sector_areas_exclusive:
  assumes "areas_ok (io_areas s)" "io_lock s = NULL_LOCK" "area_proper b"
  shows "(\<exists>r s'. lock_area (area_start b) (area_count b) (area_ro b) s = Some (r, s') \<and> areas_ok (io_areas s') \<and>
      io_lock s' = NULL_LOCK \<and>
      (if (\<exists>a \<in> set (io_areas s). area_count a = -1) \<and> (\<forall>a \<in># held (io_areas s). \<not> conflict a b)
       then r = 1 \<and> held (io_areas s') = add_mset b (held (io_areas s)) else r = 0 \<and> io_areas s' = io_areas s)) \<and>
    (\<exists>s'. unlock_area (area_start b) (area_count b) s = Some (1, s') \<and> areas_ok (io_areas s') \<and> io_lock s' = NULL_LOCK \<and>
      (if \<exists>a \<in># held (io_areas s). area_start a = area_start b \<and> area_count a = area_count b
       then \<exists>a. area_start a = area_start b \<and> area_count a = area_count b \<and> held (io_areas s) = add_mset a (held (io_areas s'))
       else io_areas s' = io_areas s))"
proof (rule conjI)
  show "\<exists>s'. unlock_area (area_start b) (area_count b) s = Some (1, s') \<and> areas_ok (io_areas s') \<and> io_lock s' = NULL_LOCK \<and>
      (if \<exists>a \<in># held (io_areas s). area_start a = area_start b \<and> area_count a = area_count b
       then \<exists>a. area_start a = area_start b \<and> area_count a = area_count b \<and> held (io_areas s) = add_mset a (held (io_areas s'))
       else io_areas s' = io_areas s)"
    using unlock_area_exact [OF assms(1,2), of "area_count b" "area_start b"] assms(3)
    unfolding area_proper_def by blast
qed (use lock_area_exact [OF assms] in blast)

text \<open>A freshly set up disk layer of the unit tests.\<close>

definition disk0 :: "fake_world disk_state" where
  "disk0 = \<lparr>world = \<lparr>fk_disk = replicate TEST_SECTORS (replicate TEST_SECTOR_SIZE 0), fk_read_calls = 0, fk_write_calls = 0\<rparr>,
     mm_manager = \<lparr>mgr_init = Builtin, mgr_malloc = Builtin, mgr_free = Builtin\<rparr>, mm_heap = (\<lambda>_. None),
     mm_allocated = 0, malloc_lock = NULL_LOCK,
     disk_io = \<lparr>read_sector = Some fake_read, write_sector = Some fake_write, sector_size = int TEST_SECTOR_SIZE\<rparr>,
     io_areas = idle_areas, io_lock = NULL_LOCK\<rparr>"

lemma disk0_ready: "dsk_ready fake_read fake_write TEST_SECTOR_SIZE disk0" "fake_ok (world disk0)"
  by (simp_all add: dsk_ready_def disk0_def fake_ok_def)

lemma idle_areas_ok: "areas_ok idle_areas"
  by (simp add: areas_ok_def area_free_def)

text \<open>Sectors 3 and 4 are held for reading: a write lock of 4 and 5 is refused, one of 5 and 6 is granted.\<close>

definition busy_disk :: "fake_world disk_state" where
  "busy_disk = disk0\<lparr>io_areas := idle_areas[0 := \<lparr>area_start = 3, area_count = 2, area_ro = 1\<rparr>]\<rparr>"

lemma busy_areas: "io_areas busy_disk = \<lparr>area_start = 3, area_count = 2, area_ro = 1\<rparr> # replicate 24 area_free"
  by (simp add: busy_disk_def IO_THREADS_MAX_def eval_nat_numeral)

theorem sector_areas_exclusive_witness:
  "(\<exists>s'. lock_area 4 2 0 busy_disk = Some (0, s') \<and> io_areas s' = io_areas busy_disk) \<and>
   (\<exists>s'. lock_area 5 2 0 busy_disk = Some (1, s') \<and> held (io_areas s') =
      {#\<lparr>area_start = 3, area_count = 2, area_ro = 1\<rparr>, \<lparr>area_start = 5, area_count = 2, area_ro = 0\<rparr>#})"
proof -
  let ?a = "\<lparr>area_start = 3, area_count = 2, area_ro = 1\<rparr>"
  have h: "held (io_areas busy_disk) = {#?a#}" by (simp add: busy_areas held_def area_free_def)
  have p: "area_proper ?a" "area_proper \<lparr>area_start = 4, area_count = 2, area_ro = 0\<rparr>"
    "area_proper \<lparr>area_start = 5, area_count = 2, area_ro = 0\<rparr>" by (simp_all add: area_proper_def)
  have ok: "areas_ok (io_areas busy_disk)"
    using areas_ok_insert [OF idle_areas_ok p(1), of 0]
    by (simp add: busy_disk_def held_def area_free_def IO_THREADS_MAX_def)
  have l: "io_lock busy_disk = NULL_LOCK" by (simp add: busy_disk_def disk0_def)
  have f: "\<exists>a \<in> set (io_areas busy_disk). area_count a = -1" by (simp add: busy_areas area_free_def)
  have c: "conflict ?a \<lparr>area_start = 4, area_count = 2, area_ro = 0\<rparr>" "\<not> conflict ?a \<lparr>area_start = 5, area_count = 2, area_ro = 0\<rparr>"
    by (auto simp: conflict_def sectors_of_def)
  show ?thesis using sector_areas_exclusive [OF ok l p(2)] sector_areas_exclusive [OF ok l p(3)] f c
    by (simp add: h add_mset_commute) blast
qed

text \<open>C19 (a write is read back). On a device that honours the contract of its callbacks, what
  \<open>DSK_writeoff_sectors\<close> writes at a byte offset inside an area of sectors, across sector borders, is
  what \<open>DSK_readoff_sectors\<close> reads there afterwards; every other byte of the area and every other
  sector keep their value, and both calls leave the area table as they found it.\<close>

theorem disk_write_read:
  assumes dev: "block_device rd wr good secs nsec ssz" and ready: "dsk_ready rd wr ssz s" and "good (world s)"
    and inside: "unat sa + nat sc \<le> nsec" "0 \<le> off" "0 \<le> n" "length data = nat n" "nat off + nat n \<le> nat sc * ssz"
    and "length buf = nat n"
  shows "\<exists>s' s''. DSK_writeoff_sectors sa off data n sc s = Some (1, s') \<and>
    DSK_readoff_sectors sa off buf n sc s' = Some ((1, data), s'') \<and>
    flat (secs (world s'')) (unat sa) (nat sc) = splice (flat (secs (world s)) (unat sa) (nat sc)) (nat off) data \<and>
    (\<forall>i. i < unat sa \<or> unat sa + nat sc \<le> i \<longrightarrow> secs (world s'') i = secs (world s) i) \<and>
    io_areas s'' = io_areas s"
proof -
  let ?fl = "\<lambda>w. flat (secs w) (unat sa) (nat sc)"
  obtain w where w: "DSK_writeoff_sectors sa off data n sc s = Some (1, s\<lparr>world := w\<rparr>)" "good w"
    "?fl w = splice (?fl (world s)) (nat off) data"
    "\<forall>i. i < unat sa \<or> unat sa + nat sc \<le> i \<longrightarrow> secs w i = secs (world s) i"
    using block_device.writeoff_inside[OF dev ready assms(3) inside(1-5)] by blast
  have len: "length (?fl (world s)) = nat sc * ssz"
    using block_device.length_flat[OF dev assms(3) inside(1)] .
  have data: "take (nat n) (drop (nat off) (?fl w)) = data"
    using w(3) len inside by (metis splice_read)
  obtain w' where r: "DSK_readoff_sectors sa off buf n sc (s\<lparr>world := w\<rparr>) =
      Some ((1, splice buf 0 (take (nat n) (drop (nat off) (?fl w)))), s\<lparr>world := w'\<rparr>)" "secs w' = secs w"
  proof -
    have "min (nat n) (nat sc * ssz - nat off) \<le> length buf" using assms(9) by (simp only: min.cobounded1)
    from block_device.readoff_ready[OF dev _ _ inside(1,2), of "s\<lparr>world := w\<rparr>", simplified, OF ready w(2) this]
    show thesis using that by blast
  qed
  have "splice buf 0 data = data" using assms(9) inside(4) by (simp add: splice_def)
  then show ?thesis using w r data
    by (intro exI[of _ "s\<lparr>world := w\<rparr>"] exI[of _ "s\<lparr>world := w'\<rparr>"]) simp
qed

theorem disk_write_read_witness:
  "\<exists>s' s''. DSK_writeoff_sectors 3 60 [1, 2, 3, 4, 5, 6] 6 2 disk0 = Some (1, s') \<and>
    DSK_readoff_sectors 3 60 (replicate 6 0) 6 2 s' = Some ((1, [1, 2, 3, 4, 5, 6]), s'')"
  using disk_write_read[OF fake.block_device_axioms disk0_ready, of 3 2 60 6 "[1, 2, 3, 4, 5, 6]" "replicate 6 0"]
  by (auto simp: TEST_SECTORS_def TEST_SECTOR_SIZE_def)

lemma splice_over:
  assumes "length buf = l" "l - i \<le> n" "n \<le> length (data :: 'a list)"
  shows "splice buf (min i l) (take (l - i) (take n data)) = take i buf @ take (l - i) data"
  using assms by (cases "i \<le> l") (simp_all add: splice_def min_absorb1 min_absorb2)

text \<open>Data past the end of the area is dropped without an error: when the data does not fit
  between the offset and the end of the area, \<open>DSK_writeoff_sectors\<close> still returns 1: it stores the
  part that fits, or nothing when the offset is already past the end, and changes no other sector.\<close>

theorem disk_write_truncates:
  assumes dev: "block_device rd wr good secs nsec ssz" and "dsk_ready rd wr ssz s" and "good (world s)"
    and "unat sa + nat sc \<le> nsec" "0 \<le> off" "nat n \<le> length data" and over: "nat sc * ssz < nat off + nat n"
  shows "\<exists>s'. DSK_writeoff_sectors sa off data n sc s = Some (1, s') \<and>
    flat (secs (world s')) (unat sa) (nat sc) =
      take (nat off) (flat (secs (world s)) (unat sa) (nat sc)) @ take (nat sc * ssz - nat off) data \<and>
    (\<forall>i. i < unat sa \<or> unat sa + nat sc \<le> i \<longrightarrow> secs (world s') i = secs (world s) i)"
proof -
  let ?fl = "flat (secs (world s)) (unat sa) (nat sc)"
  obtain w where w: "DSK_writeoff_sectors sa off data n sc s = Some (1, s\<lparr>world := w\<rparr>)"
    "flat (secs w) (unat sa) (nat sc) = splice ?fl (min (nat off) (nat sc * ssz))
       (take (nat sc * ssz - nat off) (take (nat n) data))"
    "\<forall>i. i < unat sa \<or> unat sa + nat sc \<le> i \<longrightarrow> secs w i = secs (world s) i"
    using block_device.writeoff_ready[OF assms(1-6)] by blast
  have len: "length ?fl = nat sc * ssz" using block_device.length_flat[OF dev assms(3,4)] .
  have "nat sc * ssz - nat off \<le> nat n" using over by linarith
  then have "splice ?fl (min (nat off) (nat sc * ssz)) (take (nat sc * ssz - nat off) (take (nat n) data))
      = take (nat off) ?fl @ take (nat sc * ssz - nat off) data"
    using splice_over[OF len _ assms(6)] by blast
  then show ?thesis using w by (intro exI[of _ "s\<lparr>world := w\<rparr>"]) simp
qed

text \<open>Six bytes four bytes before the end of a one-sector area.\<close>

theorem disk_write_truncates_witness:
  "\<exists>s'. DSK_writeoff_sectors 3 60 [1, 2, 3, 4, 5, 6] 6 1 disk0 = Some (1, s') \<and>
    drop 60 (flat (fake_secs (world s')) 3 1) = [1, 2, 3, 4]"
proof -
  have "length (flat (fake_secs (world disk0)) 3 1) = 64"
    using fake.length_flat[OF disk0_ready(2), of 3 1] by (simp add: TEST_SECTORS_def TEST_SECTOR_SIZE_def)
  then show ?thesis
    using disk_write_truncates[OF fake.block_device_axioms disk0_ready, of 3 1 60 6 "[1, 2, 3, 4, 5, 6]"]
    by (auto simp: TEST_SECTORS_def TEST_SECTOR_SIZE_def)
qed

end
