(* ===== verification/Hamming.thy ===== *)
theory Hamming
  imports Prelude
begin

text \<open>
  The error-correcting code of \<open>std/hamming.c\<close> (default build, without
  \<open>NO_HAMMING\<close>): every byte is stored as one 16-bit word that carries a Hamming(15,11)
  codeword. The lemmas show that decoding inverts encoding and that any single flipped bit of a
  stored word, the unused bit 15 included, is corrected.
\<close>

unbundle bit_operations_syntax

section \<open>Bit macros\<close>

definition GET_BIT :: "'a::len word \<Rightarrow> nat \<Rightarrow> 'a word" where
  "GET_BIT b pos = drop_bit pos b AND 1"

definition SET_BIT :: "'a::len word \<Rightarrow> nat \<Rightarrow> 'b::len word \<Rightarrow> 'a word" where
  "SET_BIT b pos v = (if v \<noteq> 0 then b OR push_bit pos 1 else b AND NOT (push_bit pos 1))"

definition TOGGLE_BIT :: "'a::len word \<Rightarrow> nat \<Rightarrow> 'a word" where
  "TOGGLE_BIT b pos = b XOR push_bit pos 1"

section \<open>Encoder and decoder\<close>

definition encode_hamming_15_11 :: "u16 \<Rightarrow> u16" where
  "encode_hamming_15_11 data =
    (let encoded = 0;
         encoded = SET_BIT encoded 2 (GET_BIT data 0);
         encoded = SET_BIT encoded 4 (GET_BIT data 1);
         encoded = SET_BIT encoded 5 (GET_BIT data 2);
         encoded = SET_BIT encoded 6 (GET_BIT data 3);
         encoded = SET_BIT encoded 8 (GET_BIT data 4);
         encoded = SET_BIT encoded 9 (GET_BIT data 5);
         encoded = SET_BIT encoded 10 (GET_BIT data 6);
         encoded = SET_BIT encoded 11 (GET_BIT data 7);
         encoded = SET_BIT encoded 12 (GET_BIT data 8);
         encoded = SET_BIT encoded 13 (GET_BIT data 9);
         encoded = SET_BIT encoded 14 (GET_BIT data 10);
         p1 = (ucast (GET_BIT encoded 2 XOR GET_BIT encoded 4 XOR GET_BIT encoded 6 XOR GET_BIT encoded 8
               XOR GET_BIT encoded 10 XOR GET_BIT encoded 12 XOR GET_BIT encoded 14) :: byte);
         p2 = (ucast (GET_BIT encoded 2 XOR GET_BIT encoded 5 XOR GET_BIT encoded 6 XOR GET_BIT encoded 9
               XOR GET_BIT encoded 10 XOR GET_BIT encoded 13 XOR GET_BIT encoded 14) :: byte);
         p4 = (ucast (GET_BIT encoded 4 XOR GET_BIT encoded 5 XOR GET_BIT encoded 6 XOR GET_BIT encoded 11
               XOR GET_BIT encoded 12 XOR GET_BIT encoded 13 XOR GET_BIT encoded 14) :: byte);
         p8 = (ucast (GET_BIT encoded 8 XOR GET_BIT encoded 9 XOR GET_BIT encoded 10 XOR GET_BIT encoded 11
               XOR GET_BIT encoded 12 XOR GET_BIT encoded 13 XOR GET_BIT encoded 14) :: byte);
         encoded = SET_BIT encoded 0 p1;
         encoded = SET_BIT encoded 1 p2;
         encoded = SET_BIT encoded 3 p4;
         encoded = SET_BIT encoded 7 p8
     in encoded)"

definition error_pos :: "u16 \<Rightarrow> byte" where
  "error_pos encoded =
    (let s1 = (ucast (GET_BIT encoded 0 XOR GET_BIT encoded 2 XOR GET_BIT encoded 4 XOR GET_BIT encoded 6
               XOR GET_BIT encoded 8 XOR GET_BIT encoded 10 XOR GET_BIT encoded 12 XOR GET_BIT encoded 14) :: byte);
         s2 = (ucast (GET_BIT encoded 1 XOR GET_BIT encoded 2 XOR GET_BIT encoded 5 XOR GET_BIT encoded 6
               XOR GET_BIT encoded 9 XOR GET_BIT encoded 10 XOR GET_BIT encoded 13 XOR GET_BIT encoded 14) :: byte);
         s4 = (ucast (GET_BIT encoded 3 XOR GET_BIT encoded 4 XOR GET_BIT encoded 5 XOR GET_BIT encoded 6
               XOR GET_BIT encoded 11 XOR GET_BIT encoded 12 XOR GET_BIT encoded 13 XOR GET_BIT encoded 14) :: byte);
         s8 = (ucast (GET_BIT encoded 7 XOR GET_BIT encoded 8 XOR GET_BIT encoded 9 XOR GET_BIT encoded 10
               XOR GET_BIT encoded 11 XOR GET_BIT encoded 12 XOR GET_BIT encoded 13 XOR GET_BIT encoded 14) :: byte)
     in s1 + push_bit 1 s2 + push_bit 2 s4 + push_bit 3 s8)"

definition data_bits :: "u16 \<Rightarrow> u16" where
  "data_bits encoded =
    (let data = 0;
         data = SET_BIT data 0 (GET_BIT encoded 2);
         data = SET_BIT data 1 (GET_BIT encoded 4);
         data = SET_BIT data 2 (GET_BIT encoded 5);
         data = SET_BIT data 3 (GET_BIT encoded 6);
         data = SET_BIT data 4 (GET_BIT encoded 8);
         data = SET_BIT data 5 (GET_BIT encoded 9);
         data = SET_BIT data 6 (GET_BIT encoded 10);
         data = SET_BIT data 7 (GET_BIT encoded 11);
         data = SET_BIT data 8 (GET_BIT encoded 12);
         data = SET_BIT data 9 (GET_BIT encoded 13);
         data = SET_BIT data 10 (GET_BIT encoded 14)
     in data)"

definition decode_hamming_15_11 :: "u16 \<Rightarrow> u16" where
  "decode_hamming_15_11 encoded =
    (let pos = error_pos encoded;
         encoded = (if pos \<noteq> 0 then TOGGLE_BIT encoded (unat (pos - 1)) else encoded)
     in data_bits encoded)"

definition get_byte :: "u16 list \<Rightarrow> nat \<Rightarrow> byte" where
  "get_byte ptr offset = ucast (decode_hamming_15_11 (ptr ! offset))"

definition enc_byte :: "byte \<Rightarrow> u16" where
  "enc_byte b = encode_hamming_15_11 (ucast b)"

definition set_byte :: "u16 list \<Rightarrow> nat \<Rightarrow> byte \<Rightarrow> u16 list" where
  "set_byte ptr offset b = ptr[offset := enc_byte b]"

text \<open>The two loops fill the first \<open>l\<close> cells of the destination.\<close>

definition nft32_unpack_memory :: "u16 list \<Rightarrow> nat \<Rightarrow> byte list" where
  "nft32_unpack_memory src l = map (get_byte src) [0..<l]"

primrec nft32_pack_memory :: "byte list \<Rightarrow> u16 list \<Rightarrow> nat \<Rightarrow> u16 list" where
  "nft32_pack_memory src dst 0 = dst"
| "nft32_pack_memory src dst (Suc l) = set_byte (nft32_pack_memory src dst l) l (src ! l)"

section \<open>Bits of a codeword\<close>

lemma GET_BIT_eq: "GET_BIT b pos = of_bool (bit b pos)"
  by (rule bit_word_eqI) (auto simp: GET_BIT_def bit_simps)

lemma bit_SET_BIT:
  "bit (SET_BIT (b :: 'a::len word) pos v) n = (if n = pos \<and> n < LENGTH('a) then v \<noteq> 0 else bit b n)"
  by (auto simp: SET_BIT_def bit_simps dest: bit_imp_le_length)

lemma bit_TOGGLE_BIT:
  "bit (TOGGLE_BIT (b :: 'a::len word) pos) n = (bit b n \<noteq> (n = pos \<and> n < LENGTH('a)))"
  by (auto simp: TOGGLE_BIT_def bit_simps dest: bit_imp_le_length)

lemma of_bool_XOR: "(of_bool a XOR of_bool b :: 'a::len word) = of_bool (a \<noteq> b)"
  by (cases a; cases b) simp_all

lemma ucast_of_bool: "(ucast (of_bool a :: u16) :: byte) = of_bool a"
  by (cases a) simp_all

lemma of_bool_neq_0: "((of_bool a :: 'a::len word) \<noteq> 0) = a"
  by simp

lemmas ham_bits = GET_BIT_eq bit_SET_BIT of_bool_XOR ucast_of_bool

text \<open>The parity of the bits at a list of positions; xor of two words xors the parities.\<close>

primrec parity :: "nat list \<Rightarrow> (nat \<Rightarrow> bool) \<Rightarrow> bool" where
  "parity [] f = False"
| "parity (i # is) f = (f i \<noteq> parity is f)"

lemma parity_xor: "parity is (\<lambda>n. f n \<noteq> g n) = (parity is f \<noteq> parity is g)"
  by (induction "is") auto

lemma parity_single: "distinct is \<Longrightarrow> parity is (\<lambda>n. n = k) = (k \<in> set is)"
  by (induction "is") auto

definition pos1 :: "nat list" where
  "pos1 = [0, 2, 4, 6, 8, 10, 12, 14]"

definition pos2 :: "nat list" where
  "pos2 = [1, 2, 5, 6, 9, 10, 13, 14]"

definition pos4 :: "nat list" where
  "pos4 = [3, 4, 5, 6, 11, 12, 13, 14]"

definition pos8 :: "nat list" where
  "pos8 = [7, 8, 9, 10, 11, 12, 13, 14]"


lemmas pos_defs = pos1_def pos2_def pos4_def pos8_def

definition syndrome :: "bool \<Rightarrow> bool \<Rightarrow> bool \<Rightarrow> bool \<Rightarrow> byte" where
  "syndrome a b c d = of_bool a + push_bit 1 (of_bool b) + push_bit 2 (of_bool c) + push_bit 3 (of_bool d)"

lemma error_pos_syndrome:
  "error_pos e = syndrome (parity pos1 (bit e)) (parity pos2 (bit e)) (parity pos4 (bit e)) (parity pos8 (bit e))"
proof -
  have assoc: "((x \<noteq> y) \<noteq> z) = (x \<noteq> (y \<noteq> z))" for x y z :: bool by blast
  show ?thesis
    unfolding error_pos_def Let_def syndrome_def
    by (simp only: ham_bits assoc parity.simps simp_thms pos_defs)
qed

lemma bit_data_bits:
  "bit (data_bits e) n =
    (if n = 0 then bit e 2 else if n = 1 then bit e 4 else if n = 2 then bit e 5 else if n = 3 then bit e 6
     else if n = 4 then bit e 8 else if n = 5 then bit e 9 else if n = 6 then bit e 10 else if n = 7 then bit e 11
     else if n = 8 then bit e 12 else if n = 9 then bit e 13 else n = 10 \<and> bit e 14)"
  unfolding data_bits_def Let_def by (simp add: ham_bits)

lemma bit_encode_data:
  "bit (encode_hamming_15_11 d) 2 = bit d 0" "bit (encode_hamming_15_11 d) 4 = bit d 1"
  "bit (encode_hamming_15_11 d) 5 = bit d 2" "bit (encode_hamming_15_11 d) 6 = bit d 3"
  "bit (encode_hamming_15_11 d) 8 = bit d 4" "bit (encode_hamming_15_11 d) 9 = bit d 5"
  "bit (encode_hamming_15_11 d) 10 = bit d 6" "bit (encode_hamming_15_11 d) 11 = bit d 7"
  "bit (encode_hamming_15_11 d) 12 = bit d 8" "bit (encode_hamming_15_11 d) 13 = bit d 9"
  "bit (encode_hamming_15_11 d) 14 = bit d 10"
  unfolding encode_hamming_15_11_def Let_def by (simp_all add: bit_SET_BIT GET_BIT_eq)

lemma bit_encode_check:
  "bit (encode_hamming_15_11 d) 0 = parity [0, 1, 3, 4, 6, 8, 10] (bit d)"
  "bit (encode_hamming_15_11 d) (Suc 0) = parity [0, 2, 3, 5, 6, 9, 10] (bit d)"
  "bit (encode_hamming_15_11 d) 3 = parity [1, 2, 3, 7, 8, 9, 10] (bit d)"
  "bit (encode_hamming_15_11 d) 7 = parity [4, 5, 6, 7, 8, 9, 10] (bit d)"
proof -
  have assoc: "((x \<noteq> y) \<noteq> z) = (x \<noteq> (y \<noteq> z))" for x y z :: bool by blast
  show "bit (encode_hamming_15_11 d) 0 = parity [0, 1, 3, 4, 6, 8, 10] (bit d)"
    "bit (encode_hamming_15_11 d) (Suc 0) = parity [0, 2, 3, 5, 6, 9, 10] (bit d)"
    "bit (encode_hamming_15_11 d) 3 = parity [1, 2, 3, 7, 8, 9, 10] (bit d)"
    "bit (encode_hamming_15_11 d) 7 = parity [4, 5, 6, 7, 8, 9, 10] (bit d)"
    unfolding encode_hamming_15_11_def Let_def by (simp_all add: ham_bits assoc)
qed

lemma parity_encode:
  "parity pos1 (bit (encode_hamming_15_11 d)) = False"
  "parity pos2 (bit (encode_hamming_15_11 d)) = False"
  "parity pos4 (bit (encode_hamming_15_11 d)) = False"
  "parity pos8 (bit (encode_hamming_15_11 d)) = False"
  by (simp_all add: pos_defs bit_encode_data bit_encode_check)

section \<open>Decoding inverts encoding, and corrects one flipped bit\<close>

lemma data_bits_encode: "data_bits (encode_hamming_15_11 d) = d AND 0x7FF"
proof (rule bit_word_eqI)
  fix n assume "n < LENGTH(16)"
  have m: "bit (0x7FF :: u16) n = (n < 11)"
    using bit_mask_iff [of 11 n, where 'a = "16 word"] by (auto simp: mask_eq_exp_minus_1)
  show "bit (data_bits (encode_hamming_15_11 d)) n = bit (d AND 0x7FF) n"
  proof (cases "n < 11")
    case True
    then have "n \<in> {..<11}" by simp
    with True show ?thesis
      by (auto simp: lessThan_nat_numeral bit_data_bits bit_encode_data bit_and_iff m)
  next
    case False
    then have "\<not> bit (0x7FF :: u16) n" using m by blast
    with False show ?thesis by (auto simp: bit_data_bits bit_and_iff)
  qed
qed

lemma decode_encode: "decode_hamming_15_11 (encode_hamming_15_11 d) = d AND 0x7FF"
  by (simp add: decode_hamming_15_11_def error_pos_syndrome parity_encode syndrome_def
      data_bits_encode)

lemma error_pos_flip:
  assumes "i < 15"
  shows "error_pos (TOGGLE_BIT (encode_hamming_15_11 d) i) = word_of_nat (i + 1)"
proof -
  have b: "bit (TOGGLE_BIT (encode_hamming_15_11 d) i) =
      (\<lambda>n. bit (encode_hamming_15_11 d) n \<noteq> (n = i))"
    using assms by (auto simp: bit_TOGGLE_BIT fun_eq_iff)
  have "error_pos (TOGGLE_BIT (encode_hamming_15_11 d) i) =
      syndrome (i \<in> set pos1) (i \<in> set pos2) (i \<in> set pos4) (i \<in> set pos8)"
    unfolding error_pos_syndrome b parity_xor
    by (simp add: parity_encode parity_single pos_defs [THEN arg_cong [of _ _ distinct]])
  moreover from assms have "i \<in> {..<15}" by simp
  then have "syndrome (i \<in> set pos1) (i \<in> set pos2) (i \<in> set pos4) (i \<in> set pos8) = word_of_nat (i + 1)"
    by (auto simp: lessThan_nat_numeral syndrome_def pos_defs)
  ultimately show ?thesis by simp
qed

lemma TOGGLE_BIT_twice: "TOGGLE_BIT (TOGGLE_BIT w i) i = w"
  by (rule bit_word_eqI) (auto simp: bit_TOGGLE_BIT)

lemma decode_flip:
  assumes "i < 16"
  shows "decode_hamming_15_11 (TOGGLE_BIT (encode_hamming_15_11 d) i) = d AND 0x7FF"
proof (cases "i = 15")
  case True
  have b: "bit (TOGGLE_BIT (encode_hamming_15_11 d) i) n = bit (encode_hamming_15_11 d) n" if "n < 15" for n
    using that True by (simp add: bit_TOGGLE_BIT)
  have "error_pos (TOGGLE_BIT (encode_hamming_15_11 d) i) = error_pos (encode_hamming_15_11 d)"
    by (simp add: error_pos_syndrome pos_defs b)
  moreover have "data_bits (TOGGLE_BIT (encode_hamming_15_11 d) i) = data_bits (encode_hamming_15_11 d)"
    by (rule bit_word_eqI) (auto simp: bit_data_bits b)
  ultimately show ?thesis
    using decode_encode [of d]
    by (simp add: decode_hamming_15_11_def error_pos_syndrome parity_encode syndrome_def)
next
  case False
  with assms have i: "i < 15" by simp
  have "(word_of_nat (i + 1) :: byte) - 1 = word_of_nat i" by simp
  moreover have "unat (word_of_nat i :: byte) = i"
    using i by (simp add: unat_of_nat)
  moreover have "(word_of_nat (i + 1) :: byte) \<noteq> 0"
    using i by (simp add: word_of_nat_eq_0_iff del: of_nat_add of_nat_Suc) (auto dest!: dvd_imp_le)
  ultimately show ?thesis
    by (simp add: decode_hamming_15_11_def error_pos_flip [OF i] TOGGLE_BIT_twice data_bits_encode
        del: of_nat_add of_nat_Suc)
qed

section \<open>Stored bytes\<close>

lemma ucast_and_mask11: "(ucast ((ucast (b :: byte) :: u16) AND 0x7FF) :: byte) = b"
proof (rule bit_word_eqI)
  fix n assume "n < LENGTH(8)"
  then have "n < 11" by simp
  then have "bit (0x7FF :: u16) n"
    using bit_mask_iff [of 11 n, where 'a = "16 word"] by (simp add: mask_eq_exp_minus_1)
  with \<open>n < LENGTH(8)\<close> show "bit (ucast ((ucast b :: u16) AND 0x7FF) :: byte) n = bit b n"
    by (simp add: bit_simps bit_and_iff)
qed

lemma enc_byte_inverse [simp]: "ucast (decode_hamming_15_11 (enc_byte b)) = b"
  by (simp add: enc_byte_def decode_encode ucast_and_mask11)

lemma enc_byte_flip_inverse:
  "i < 16 \<Longrightarrow> ucast (decode_hamming_15_11 (TOGGLE_BIT (enc_byte b) i)) = b"
  by (simp add: enc_byte_def decode_flip ucast_and_mask11)

lemma enc_byte_inject: "enc_byte a = enc_byte b \<longleftrightarrow> a = b"
  by (metis enc_byte_inverse)

lemma length_pack [layout, simp]: "length (nft32_pack_memory src dst l) = length dst"
  by (induction l) (auto simp: set_byte_def)

lemma length_unpack [layout, simp]: "length (nft32_unpack_memory src l) = l"
  by (simp add: nft32_unpack_memory_def)

lemma nth_pack:
  "l \<le> length dst \<Longrightarrow> k < length dst \<Longrightarrow>
   nft32_pack_memory src dst l ! k = (if k < l then enc_byte (src ! k) else dst ! k)"
  by (induction l) (auto simp: set_byte_def nth_list_update less_Suc_eq)

lemma pack_memory_map:
  assumes "l \<le> length src" and "l \<le> length dst"
  shows "nft32_pack_memory src dst l = map enc_byte (take l src) @ drop l dst"
  using assms by (intro nth_equalityI) (auto simp: nth_pack nth_append)

lemma unpack_memory_map:
  assumes "l \<le> length src"
  shows "nft32_unpack_memory src l = map (\<lambda>w. ucast (decode_hamming_15_11 w)) (take l src)"
  using assms by (intro nth_equalityI) (auto simp: nft32_unpack_memory_def get_byte_def)

section \<open>The codec as an interface\<close>

text \<open>What the layers above rely on: a byte survives storage, also when one bit of the stored word
  has flipped. The client lemmas are about whole buffers.\<close>

locale protected_codec =
  fixes enc :: "byte \<Rightarrow> u16" and dec :: "u16 \<Rightarrow> byte" and width :: nat
  assumes dec_enc: "dec (enc b) = b"
    and dec_flip: "i < width \<Longrightarrow> dec (TOGGLE_BIT (enc b) i) = b"
begin

definition intact :: "byte \<Rightarrow> u16 \<Rightarrow> bool" where
  "intact b w \<longleftrightarrow> w = enc b \<or> (\<exists>i < width. w = TOGGLE_BIT (enc b) i)"

lemma dec_intact: "intact b w \<Longrightarrow> dec w = b"
  by (auto simp: intact_def dec_enc dec_flip)

lemma buffer_roundtrip: "map dec (map enc bs) = bs"
  by (induction bs) (auto simp: dec_enc)

lemma buffer_intact: "list_all2 intact bs ws \<Longrightarrow> map dec ws = bs"
  by (induction rule: list_all2_induct) (auto simp: dec_intact)

end

interpretation ham: protected_codec enc_byte "\<lambda>w. ucast (decode_hamming_15_11 w)" 16
  by unfold_locales (auto simp: enc_byte_flip_inverse)

definition flips_at_most_one :: "u16 \<Rightarrow> u16 \<Rightarrow> bool" where
  "flips_at_most_one w v \<longleftrightarrow> v = w \<or> (\<exists>i < 16. v = TOGGLE_BIT w i)"

lemma flips_intact: "flips_at_most_one (enc_byte b) w = ham.intact b w"
  by (simp add: flips_at_most_one_def ham.intact_def)

lemma unpack_pack:
  assumes "l \<le> length src" and "l \<le> length dst"
  shows "nft32_unpack_memory (nft32_pack_memory src dst l) l = take l src"
  using assms ham.buffer_roundtrip [of "take l src"]
  by (simp add: pack_memory_map unpack_memory_map)

lemma unpack_corrupted:
  assumes "length src = length ws" and "\<And>k. k < length src \<Longrightarrow> flips_at_most_one (enc_byte (src ! k)) (ws ! k)"
  shows "nft32_unpack_memory ws (length src) = src"
proof -
  have "list_all2 ham.intact src ws"
    using assms by (auto simp: list_all2_conv_all_nth flips_intact)
  then have "map (\<lambda>w. ucast (decode_hamming_15_11 w)) ws = src" by (rule ham.buffer_intact)
  with assms(1) show ?thesis by (simp add: unpack_memory_map)
qed

lemma unpack_zero: "nft32_unpack_memory (replicate n 0) n = replicate n 0"
proof -
  have "decode_hamming_15_11 0 = 0"
    by (simp add: decode_hamming_15_11_def error_pos_def data_bits_def GET_BIT_def SET_BIT_def)
  then show ?thesis by (simp add: unpack_memory_map)
qed

section \<open>Properties\<close>

text \<open>C20 (storage survives a flip per byte). A buffer packed by \<open>nft32_pack_memory\<close> and unpacked
  by \<open>nft32_unpack_memory\<close> comes back unchanged even when, in between, one bit of any number
  of the stored words has flipped, at most one bit in each word.\<close>

theorem stored_bytes_survive:
  assumes "length src \<le> length dst" and "length ws = length src"
    and "\<And>k. k < length src \<Longrightarrow> flips_at_most_one (nft32_pack_memory src dst (length src) ! k) (ws ! k)"
  shows "nft32_unpack_memory ws (length src) = src"
  using assms by (intro unpack_corrupted) (auto simp: nth_pack)

text \<open>Two stored bytes, the second with its top parity bit flipped.\<close>

theorem stored_bytes_survive_witness:
  "nft32_unpack_memory [enc_byte 0x41, TOGGLE_BIT (enc_byte 0x42) 7] 2 = [0x41, 0x42]"
proof -
  have "flips_at_most_one (nft32_pack_memory [0x41, 0x42] [0, 0] 2 ! k) ([enc_byte 0x41, TOGGLE_BIT (enc_byte 0x42) 7] ! k)"
    if "k < 2" for k
    using that by (auto simp: less_2_cases_iff nth_pack flips_at_most_one_def intro!: exI [of _ 7])
  then have "nft32_unpack_memory [enc_byte 0x41, TOGGLE_BIT (enc_byte 0x42) 7] (length [0x41, 0x42 :: byte]) = [0x41, 0x42]"
    by (intro stored_bytes_survive [of "[0x41, 0x42]" "[0, 0]"]) (simp_all add: numeral_2_eq_2)
  then show ?thesis by (simp add: numeral_2_eq_2)
qed

end
