(* ===== verification/Fatinfo.thy ===== *)
theory Fatinfo
  imports Hamming
begin

text \<open>
  The volume description \<open>fat_data_t\<close> of \<open>include/nft32/fatinfo.h\<close>, the placement macros of
  \<open>include/nft32/addresses.h\<close>, the error codes of \<open>include/std/errcodes.h\<close>, and the byte
  layout of Hamming-protected records. The macros compute in \<open>unsigned int\<close>; a
  remainder by zero, which C leaves undefined, is \<open>None\<close>.
\<close>

section \<open>The volume\<close>

record fat_data =
  bs_count :: byte
  fat_size :: u32
  fat_count :: byte
  first_data_sector :: u32
  total_sectors :: u32
  total_clusters :: u32
  bytes_per_sector :: u32
  cluster_size :: u32
  sectors_per_cluster :: u32
  ext_root_cluster :: u32
  sectors_padd :: u32
  journals_count :: byte
  errors_count :: byte
  entry_offset :: byte

definition fat_data_zero :: fat_data where
  "fat_data_zero = \<lparr>bs_count = 0, fat_size = 0, fat_count = 0, first_data_sector = 0, total_sectors = 0,
     total_clusters = 0, bytes_per_sector = 0, cluster_size = 0, sectors_per_cluster = 0,
     ext_root_cluster = 0, sectors_padd = 0, journals_count = 0, errors_count = 0, entry_offset = 0\<rparr>"

section \<open>Placement\<close>

definition umod :: "u32 \<Rightarrow> u32 \<Rightarrow> u32 option" where
  "umod a m = (if m = 0 then None else Some (a mod m))"

definition JOURNAL_MULTIPLIER :: u32 where "JOURNAL_MULTIPLIER = 12983229"
definition BOOT_MULTIPLIER :: u32 where "BOOT_MULTIPLIER = 2654435761"
definition FAT_MULTIPLIER :: u32 where "FAT_MULTIPLIER = 340573321"
definition ERRORS_MULTIPLIER :: u32 where "ERRORS_MULTIPLIER = 10986542"
definition CLUSTERS_MULTIPLIER :: u32 where "CLUSTERS_MULTIPLIER = 3024953"

definition GET_JOURNALSECTOR :: "u32 \<Rightarrow> u32 \<Rightarrow> u32 option" where
  "GET_JOURNALSECTOR n ts = umod (drop_bit 3 ((n + 35) * JOURNAL_MULTIPLIER)) (ts - 2)"

definition GET_BOOTSECTOR :: "u32 \<Rightarrow> u32 \<Rightarrow> u32 option" where
  "GET_BOOTSECTOR n ts = umod (drop_bit 11 ((n + 1) * BOOT_MULTIPLIER)) (ts - 2)"

definition GET_FATSECTOR :: "u32 \<Rightarrow> u32 \<Rightarrow> u32 option" where
  "GET_FATSECTOR n ts = umod (drop_bit 13 ((n + 7) * FAT_MULTIPLIER)) (ts - 23)"

definition GET_ERRORSSECTOR :: "u32 \<Rightarrow> u32 \<Rightarrow> u32 option" where
  "GET_ERRORSSECTOR n ts = umod (drop_bit 9 ((n + 23) * ERRORS_MULTIPLIER)) (ts - 2)"

definition GET_CLUSTER_OFF :: "u32 \<Rightarrow> u32 \<Rightarrow> u32 option" where
  "GET_CLUSTER_OFF n tc = umod (drop_bit 1 ((n + 11) * CLUSTERS_MULTIPLIER)) tc"

lemma umod_less: "umod a m = Some r \<Longrightarrow> r < m"
  by (auto simp: umod_def word_mod_less_divisor word_neq_0_conv split: if_splits)

lemma umod_defined: "(\<exists>r. umod a m = Some r) \<longleftrightarrow> m \<noteq> 0"
  by (simp add: umod_def)

lemmas placement_less =
  umod_less[of "drop_bit 3 ((n + 35) * JOURNAL_MULTIPLIER)" "ts - 2", folded GET_JOURNALSECTOR_def]
  umod_less[of "drop_bit 11 ((n + 1) * BOOT_MULTIPLIER)" "ts - 2", folded GET_BOOTSECTOR_def]
  umod_less[of "drop_bit 13 ((n + 7) * FAT_MULTIPLIER)" "ts - 23", folded GET_FATSECTOR_def]
  umod_less[of "drop_bit 9 ((n + 23) * ERRORS_MULTIPLIER)" "ts - 2", folded GET_ERRORSSECTOR_def]
  umod_less[of "drop_bit 1 ((n + 11) * CLUSTERS_MULTIPLIER)" tc, folded GET_CLUSTER_OFF_def]
  for n ts tc :: u32

section \<open>Error codes\<close>

datatype error_code =
    NO_ERROR | NO_RESERVE_SECTORS_ERROR | DSK_SETUP_ERROR | MALLOC_ERROR | DSK_READ_SECTOR_ERROR
  | CHECKSUM_CHECK_ERROR | FATCACHE_INIT_ERROR | FATCACHE_HINIT_ERROR | CTABLE_INIT_ERROR
  | JOURNAL_RESTORE_ERROR | ADD_ENTRY_ERROR | SET_CLUSTER_END_ERROR | CTABLE_FULL_ERROR
  | ENTRY_PATH_NFOUND_ERROR | CONTENT_INDEX_ERROR | NO_READ_ACCESS_ERROR | NO_WRITE_ACCESS_ERROR
  | READOFF_CLUSTER_ERROR | WRITEOFF_CLUSTER_ERROR | READ_CLUSTER_ERROR | WRITE_CLUSTER_ERROR
  | WRITE_FAT_ERROR | READ_FAT_ERROR | SECTOR_READ_ERROR | SECTOR_WRITE_ERROR
  | ALLOCATED_CLUSTER_BAD_ERROR | CLUSTER_ALLOCATION_ERROR | ENTRY_EDIT_ERROR | ENTRY_SEARCH_ERROR
  | ENTRY_ADD_ERROR | ENTRY_REMOVE_ERROR | COPY_CLUSTER_ERROR | UNKNOWN_DEEP_TYPE_ERROR
  | REPAIR_CONTENT_ERROR | ERROR_CORRECTION_ERROR | BAD_CLUSTER_IN_CHAIN_ERROR | RECURSIVE_ERASE_ERROR
  | CLUSTER_DEALLOCATION_ERROR | CLUSTER_CHAIN_DELETION_ERROR | CLUSTER_CHAIN_APPEND_ERROR
  | JOURNAL_WRITE_ERROR | JOURNAL_READ_ERROR | READLOCK_SECTOR_ERROR | READLOCK_CLUSTER_ERROR
  | WRITELOCK_SECTOR_ERROR | WRITELOCK_CLUSTER_ERROR | DISK_IO_WRITE_ERROR | DISK_IO_READ_ERROR
  | BAD_CLUSTER_ERROR

text \<open>The values of the enumeration, in order from 0; the ring stores these numbers.\<close>

definition error_codes :: "error_code list" where
  "error_codes =
   [NO_ERROR, NO_RESERVE_SECTORS_ERROR, DSK_SETUP_ERROR, MALLOC_ERROR, DSK_READ_SECTOR_ERROR,
    CHECKSUM_CHECK_ERROR, FATCACHE_INIT_ERROR, FATCACHE_HINIT_ERROR, CTABLE_INIT_ERROR,
    JOURNAL_RESTORE_ERROR, ADD_ENTRY_ERROR, SET_CLUSTER_END_ERROR, CTABLE_FULL_ERROR,
    ENTRY_PATH_NFOUND_ERROR, CONTENT_INDEX_ERROR, NO_READ_ACCESS_ERROR, NO_WRITE_ACCESS_ERROR,
    READOFF_CLUSTER_ERROR, WRITEOFF_CLUSTER_ERROR, READ_CLUSTER_ERROR, WRITE_CLUSTER_ERROR,
    WRITE_FAT_ERROR, READ_FAT_ERROR, SECTOR_READ_ERROR, SECTOR_WRITE_ERROR,
    ALLOCATED_CLUSTER_BAD_ERROR, CLUSTER_ALLOCATION_ERROR, ENTRY_EDIT_ERROR, ENTRY_SEARCH_ERROR,
    ENTRY_ADD_ERROR, ENTRY_REMOVE_ERROR, COPY_CLUSTER_ERROR, UNKNOWN_DEEP_TYPE_ERROR,
    REPAIR_CONTENT_ERROR, ERROR_CORRECTION_ERROR, BAD_CLUSTER_IN_CHAIN_ERROR, RECURSIVE_ERASE_ERROR,
    CLUSTER_DEALLOCATION_ERROR, CLUSTER_CHAIN_DELETION_ERROR, CLUSTER_CHAIN_APPEND_ERROR,
    JOURNAL_WRITE_ERROR, JOURNAL_READ_ERROR, READLOCK_SECTOR_ERROR, READLOCK_CLUSTER_ERROR,
    WRITELOCK_SECTOR_ERROR, WRITELOCK_CLUSTER_ERROR, DISK_IO_WRITE_ERROR, DISK_IO_READ_ERROR,
    BAD_CLUSTER_ERROR]"

definition position :: "error_code \<Rightarrow> nat" where
  "position c = length (takeWhile (\<lambda>d. d \<noteq> c) error_codes)"

definition errcode :: "error_code \<Rightarrow> u32" where
  "errcode c = of_nat (position c)"

lemma error_codes_all: "c \<in> set error_codes"
  by (cases c) (simp_all add: error_codes_def)

lemma position_nth: "error_codes ! position c = c"
  unfolding position_def using error_codes_all[of c]
  by (metis (mono_tags, lifting) nth_length_takeWhile takeWhile_eq_all_conv length_takeWhile_le
      le_neq_implies_less takeWhile_eq_take take_all_iff)

lemma position_inject: "position c = position d \<longleftrightarrow> c = d"
  by (metis position_nth)

instantiation error_code :: linorder
begin

definition less_eq_error_code :: "error_code \<Rightarrow> error_code \<Rightarrow> bool" where
  "c \<le> d \<longleftrightarrow> position c \<le> position d"

definition less_error_code :: "error_code \<Rightarrow> error_code \<Rightarrow> bool" where
  "c < d \<longleftrightarrow> position c < position d"

instance
  by standard (auto simp: less_eq_error_code_def less_error_code_def position_inject)

end

section \<open>Protected records\<close>

text \<open>The code encodes a record of \<open>l\<close> bytes into an array of \<open>l\<close> shorts and writes the
  array's bytes, and reads an array back and decodes it.\<close>

definition pack_bytes :: "byte list \<Rightarrow> byte list" where
  "pack_bytes xs = bytes_of_u16s (nft32_pack_memory xs (replicate (length xs) 0) (length xs))"

definition unpack_bytes :: "byte list \<Rightarrow> byte list" where
  "unpack_bytes bs = nft32_unpack_memory (u16s_of_bytes bs) (length bs div 2)"

lemma length_pack_bytes [layout, simp]: "length (pack_bytes xs) = 2 * length xs"
  by (simp add: pack_bytes_def)

lemma length_unpack_bytes [layout, simp]: "length (unpack_bytes bs) = length bs div 2"
  by (simp add: unpack_bytes_def)

lemma pack_bytes_map: "pack_bytes xs = bytes_of_u16s (map enc_byte xs)"
  by (simp add: pack_bytes_def pack_memory_map)

lemma unpack_bytes_map: "unpack_bytes bs = map (\<lambda>w. ucast (decode_hamming_15_11 w)) (u16s_of_bytes bs)"
  by (simp add: unpack_bytes_def unpack_memory_map)

lemma unpack_pack_bytes [layout, simp]: "unpack_bytes (pack_bytes xs) = xs"
  by (simp add: unpack_bytes_map pack_bytes_map comp_def)

text \<open>A stored record with at most one flipped bit in each of its codewords still decodes.\<close>

definition damaged :: "byte list \<Rightarrow> byte list \<Rightarrow> bool" where
  "damaged xs bs = (length bs = 2 * length xs \<and>
     list_all2 (\<lambda>x w. w = enc_byte x \<or> (\<exists>i < 16. w = TOGGLE_BIT (enc_byte x) i)) xs (u16s_of_bytes bs))"

lemma unpack_damaged: "damaged xs bs \<Longrightarrow> unpack_bytes bs = xs"
  by (auto simp: damaged_def unpack_bytes_map list_all2_conv_all_nth enc_byte_flip_inverse
      intro!: nth_equalityI)

end
