(* ===== verification/Voting.thy ===== *)
theory Voting
  imports Fatinfo
begin

text \<open>
  The vote the replicated structures share: the FAT (\<open>read_fat\<close> in \<open>src/fat.c\<close>), the
  journal (\<open>_read_journal\<close> in \<open>src/journal.c\<close>) and the error ring (\<open>_read_error\<close> in
  \<open>src/errors.c\<close>) scan their copies with the same loop over a candidate, a balance and a count
  of mismatches. A displaced candidate starts with balance 0 and not 1, so this is not the
  textbook algorithm; a strict majority still wins, which the potential \<open>lead\<close> shows.
\<close>

section \<open>The loop body\<close>

type_synonym 'v vote = "'v \<times> int \<times> int"

text \<open>The new candidate, balance and mismatches, and whether the candidate was replaced.\<close>

definition vote_step :: "'v \<Rightarrow> 'v vote \<Rightarrow> 'v vote \<times> bool" where
  "vote_step c v = (let (val, val_freq, wrong) = v;
     (val_freq, wrong) = (if c = val then (val_freq + 1, wrong) else (val_freq - 1, wrong + 1))
   in if val_freq < 0 then ((c, 0, wrong), True) else ((val, val_freq, wrong), False))"

definition vote_start :: "'v \<Rightarrow> 'v vote" where
  "vote_start val = (val, 0, -1)"

text \<open>The loop over a list of copies that are all readable.\<close>

primrec vote_all :: "'v list \<Rightarrow> 'v vote \<Rightarrow> 'v vote" where
  "vote_all [] v = v"
| "vote_all (x # xs) v = vote_all xs (fst (vote_step x v))"

section \<open>A strict majority wins\<close>

definition lead :: "'v \<Rightarrow> 'v vote \<Rightarrow> int" where
  "lead m v = (case v of (val, freq, _) \<Rightarrow> if val = m then 2 * freq + 1 else - (2 * freq + 1))"

definition balanced :: "'v vote \<Rightarrow> bool" where
  "balanced v = (case v of (_, freq, _) \<Rightarrow> 0 \<le> freq)"

lemma balanced_start [simp]: "balanced (vote_start d)"
  by (simp add: balanced_def vote_start_def)

lemma balanced_step: "balanced v \<Longrightarrow> balanced (fst (vote_step x v))"
  by (auto simp: balanced_def vote_step_def Let_def split: prod.splits)

lemma lead_step:
  "balanced v \<Longrightarrow> lead m v + (if x = m then 2 else -2) \<le> lead m (fst (vote_step x v))"
  by (cases v) (auto simp: balanced_def lead_def vote_step_def Let_def)

lemma lead_all:
  "balanced v \<Longrightarrow> lead m v + 2 * int (count_list xs m) - 2 * int (length xs - count_list xs m) \<le> lead m (vote_all xs v)"
proof (induction xs arbitrary: v)
  case (Cons x xs)
  have le: "count_list xs m \<le> length xs" by (rule count_le_length)
  have "lead m (fst (vote_step x v)) + 2 * int (count_list xs m) - 2 * int (length xs - count_list xs m)
      \<le> lead m (vote_all (x # xs) v)"
    using Cons.IH[OF balanced_step[OF Cons.prems]] by simp
  moreover note lead_step[OF Cons.prems, of m x]
  ultimately show ?case using le by (cases "x = m") (auto simp: of_nat_diff Suc_diff_le)
qed simp

lemma lead_pos: "balanced v \<Longrightarrow> 0 < lead m v \<Longrightarrow> fst v = m"
  by (auto simp: lead_def balanced_def split: prod.splits if_splits)

lemma balanced_all: "balanced v \<Longrightarrow> balanced (vote_all xs v)"
  by (induction xs arbitrary: v) (auto simp: balanced_step)

lemma majority_wins:
  assumes "length xs < 2 * count_list xs m"
  shows "fst (vote_all xs (vote_start d)) = m"
proof (rule lead_pos)
  show "balanced (vote_all xs (vote_start d))" by (simp add: balanced_all)
  have "- 1 \<le> lead m (vote_start d)" by (simp add: lead_def vote_start_def)
  moreover note lead_all[OF balanced_start, of m d xs]
  moreover have "count_list xs m \<le> length xs" by (rule count_le_length)
  ultimately show "0 < lead m (vote_all xs (vote_start d))" using assms by linarith
qed

section \<open>When the code repairs\<close>

lemma vote_all_append: "vote_all (xs @ ys) v = vote_all ys (vote_all xs v)"
  by (induction xs arbitrary: v) auto

lemma wrong_mono: "snd (snd v) \<le> snd (snd (vote_all xs v))"
proof (induction xs arbitrary: v)
  case (Cons x xs)
  have "snd (snd v) \<le> snd (snd (fst (vote_step x v)))"
    by (cases v) (auto simp: vote_step_def Let_def)
  then show ?case using Cons.IH[of "fst (vote_step x v)"] by simp
qed simp

lemma vote_all_same: "0 \<le> f \<Longrightarrow> vote_all (replicate n x) (x, f, w) = (x, f + int n, w)"
  by (induction n arbitrary: f) (auto simp: vote_step_def Let_def)

lemma vote_all_first: "x \<noteq> d \<Longrightarrow> vote_all (x # xs) (vote_start d) = vote_all xs (x, 0, 0)"
  by (simp add: vote_start_def vote_step_def Let_def)

text \<open>The copies are rewritten when \<open>wrong > 0\<close>. When the first copy is not the initial candidate
  this is exactly when the copies disagree.\<close>

lemma wrong_iff_disagree:
  assumes "x \<noteq> d"
  shows "0 < snd (snd (vote_all (x # xs) (vote_start d))) \<longleftrightarrow> (\<exists>y \<in> set xs. y \<noteq> x)"
proof (cases "\<exists>y \<in> set xs. y \<noteq> x")
  case True
  then obtain ys y zs where xs: "xs = ys @ y # zs" "y \<noteq> x" "\<forall>z \<in> set ys. z = x"
    using split_list_first_prop[of xs "\<lambda>y. y \<noteq> x"] by auto
  then have "ys = replicate (length ys) x" by (simp add: replicate_length_same)
  then have "vote_all ys (x, 0, 0) = (x, int (length ys), 0)"
    using vote_all_same[of 0 "length ys" x 0] by simp
  then have "vote_all xs (x, 0, 0) = vote_all zs (fst (vote_step y (x, int (length ys), 0)))"
    by (simp add: xs vote_all_append)
  moreover have "snd (snd (fst (vote_step y (x, int (length ys), 0)))) = 1"
    using xs(2) by (simp add: vote_step_def Let_def)
  ultimately have "1 \<le> snd (snd (vote_all xs (x, 0, 0)))"
    using wrong_mono[of "fst (vote_step y (x, int (length ys), 0))" zs] by simp
  then show ?thesis unfolding vote_all_first[OF assms] using True by auto
next
  case False
  then have "xs = replicate (length xs) x" by (intro replicate_eqI) auto
  then have "vote_all xs (x, 0, 0) = (x, int (length xs), 0)"
    using vote_all_same[of 0 "length xs" x 0] by simp
  then show ?thesis unfolding vote_all_first[OF assms] using False by auto
qed

text \<open>Against a strict majority: the copies disagree with each other exactly when one differs from it.\<close>

lemma wrong_iff_not_majority:
  assumes "xs = hd xs # tl xs" "hd xs \<noteq> d" "length xs < 2 * count_list xs m"
  shows "0 < snd (snd (vote_all xs (vote_start d))) \<longleftrightarrow> (\<exists>y \<in> set xs. y \<noteq> m)"
proof -
  have "count_list xs m \<noteq> 0" using assms(3) by linarith
  then have m: "m \<in> set xs" by (simp add: count_list_0_iff)
  have s: "set xs = insert (hd xs) (set (tl xs))" using assms(1) by (metis list.simps(15))
  have "(\<exists>y \<in> set (tl xs). y \<noteq> hd xs) \<longleftrightarrow> (\<exists>y \<in> set xs. y \<noteq> m)"
    using m unfolding s by (cases "hd xs = m") (simp, metis insert_iff)
  then show ?thesis using wrong_iff_disagree [OF assms(2), of "tl xs"] assms(1) by simp
qed

text \<open>When the first copies equal the initial candidate, one dissenting copy goes unrepaired.\<close>

lemma one_dissenter_unseen: "snd (snd (vote_all [d, d, x] (vote_start d))) \<le> 0"
  by (simp add: vote_start_def vote_step_def Let_def)

end
