(* ===== verification/Errors.thy ===== *)
theory Errors
  imports Disk Voting
begin

text \<open>
  The persistent error ring of \<open>src/errors.c\<close> and \<open>include/nft32/errors.h\<close>: four-byte codes,
  Hamming protected, replicated over the error sectors; slot 0 holds the packed ring indices.
\<close>

section \<open>State\<close>

record errors_t =
  first_error :: u16
  err_current :: u16
  last_error :: u16

record 'w errors_state = "'w disk_state" +
  errors_lock :: lock_t
  errors_ring :: errors_t

definition lock_errors :: "('w, 'z) errors_state_scheme \<Rightarrow> (int \<times> ('w, 'z) errors_state_scheme) option" where
  "lock_errors s = (let (r, l) = THR_require_write (Some (errors_lock s)) get_thread_num
     in Some (r, s\<lparr>errors_lock := the l\<rparr>))"

definition unlock_errors :: "('w, 'z) errors_state_scheme \<Rightarrow> (int \<times> ('w, 'z) errors_state_scheme) option" where
  "unlock_errors s = (let (r, l) = THR_release_write (Some (errors_lock s)) get_thread_num
     in Some (r, s\<lparr>errors_lock := the l\<rparr>))"

definition PACK_INFO_ENTRY :: "u16 \<Rightarrow> u16 \<Rightarrow> u32" where
  "PACK_INFO_ENTRY f c = push_bit 16 (ucast f) OR (ucast c AND 0xFFFF)"

definition GET_FIRST_ERROR :: "u32 \<Rightarrow> u16" where
  "GET_FIRST_ERROR e = ucast (drop_bit 16 e)"

definition GET_LAST_ERROR :: "u32 \<Rightarrow> u16" where
  "GET_LAST_ERROR e = ucast (e AND 0xFFFF)"

definition sizeof_error_code :: nat where "sizeof_error_code = 4"

section \<open>One copy\<close>

definition write_error_copy :: "int \<Rightarrow> u32 \<Rightarrow> fat_data \<Rightarrow> int \<Rightarrow>
    ('w, 'z) errors_state_scheme \<Rightarrow> (int \<times> ('w, 'z) errors_state_scheme) option" where
  "write_error_copy index c fi copy_index s = do {
     let entry_buffer = replicate sizeof_error_code 0;
     let entry_offset = u32_of_int (index * int (2 * sizeof_error_code));
     let entry_buffer = nft32_pack_memory (bytes_of_u32 c) entry_buffer sizeof_error_code;
     sa \<leftarrow> GET_ERRORSSECTOR (u32_of_int copy_index) (total_sectors fi);
     (r, s) \<leftarrow> DSK_writeoff_sectors sa (int_of_u32 entry_offset) (bytes_of_u16s entry_buffer)
       (int (2 * sizeof_error_code)) 1 s;
     Some (if r = 0 then 0 else 1, s) }"

definition read_error_copy :: "int \<Rightarrow> fat_data \<Rightarrow> int \<Rightarrow>
    ('w, 'z) errors_state_scheme \<Rightarrow> ((int \<times> u32) \<times> ('w, 'z) errors_state_scheme) option" where
  "read_error_copy index fi copy_index s = do {
     let entry_buffer = replicate (2 * sizeof_error_code) 0;
     let entry_offset = u32_of_int (index * int (2 * sizeof_error_code));
     sa \<leftarrow> GET_ERRORSSECTOR (u32_of_int copy_index) (total_sectors fi);
     ((r, entry_buffer), s) \<leftarrow> DSK_readoff_sectors sa (int_of_u32 entry_offset) entry_buffer
       (int (2 * sizeof_error_code)) 1 s;
     if r = 0 then Some ((0, 0), s)
     else Some ((1, get_u32 (unpack_bytes entry_buffer) 0), s) }"

section \<open>All copies\<close>

primrec write_error_loop :: "nat \<Rightarrow> int \<Rightarrow> int \<Rightarrow> u32 \<Rightarrow> fat_data \<Rightarrow> int \<Rightarrow>
    ('w, 'z) errors_state_scheme \<Rightarrow> (int \<times> ('w, 'z) errors_state_scheme) option" where
  "write_error_loop 0 i index c fi write_status s = Some (write_status, s)"
| "write_error_loop (Suc k) i index c fi write_status s = do {
     (r, s) \<leftarrow> write_error_copy index c fi i s;
     write_error_loop k (i + 1) index c fi (if r \<noteq> 0 \<and> write_status \<noteq> 0 then 1 else 0) s }"

definition write_error :: "int \<Rightarrow> u32 \<Rightarrow> fat_data \<Rightarrow>
    ('w, 'z) errors_state_scheme \<Rightarrow> (int \<times> ('w, 'z) errors_state_scheme) option" where
  "write_error index c fi s = write_error_loop (unat (errors_count fi)) 0 index c fi 1 s"

text \<open>The vote over the readable copies; \<open>copy_pos\<close> is the last copy that became the candidate.\<close>

primrec read_error_loop :: "nat \<Rightarrow> int \<Rightarrow> int \<Rightarrow> fat_data \<Rightarrow> u32 vote \<Rightarrow> int \<Rightarrow>
    ('w, 'z) errors_state_scheme \<Rightarrow> ((u32 vote \<times> int) \<times> ('w, 'z) errors_state_scheme) option" where
  "read_error_loop 0 i index fi v copy_pos s = Some ((v, copy_pos), s)"
| "read_error_loop (Suc k) i index fi v copy_pos s = do {
     ((ok, c), s) \<leftarrow> read_error_copy index fi i s;
     if ok = 0 then read_error_loop k (i + 1) index fi v copy_pos s
     else let (v, replaced) = vote_step c v in
       read_error_loop k (i + 1) index fi v (if replaced then i else copy_pos) s }"

definition read_error :: "int \<Rightarrow> fat_data \<Rightarrow>
    ('w, 'z) errors_state_scheme \<Rightarrow> ((int \<times> u32) \<times> ('w, 'z) errors_state_scheme) option" where
  "read_error index fi s = do {
     (((error_code, val_freq, wrong), copy_pos), s) \<leftarrow>
       read_error_loop (unat (errors_count fi)) 0 index fi (vote_start (-1)) (-1) s;
     if copy_pos < 0 then Some ((0, 0), s)
     else do {
       (_, s) \<leftarrow> (if wrong > 0 then write_error index error_code fi s else Some (0, s));
       Some ((1, error_code), s) } }"

section \<open>The ring\<close>

definition dump_info :: "errors_t \<Rightarrow> fat_data \<Rightarrow>
    ('w, 'z) errors_state_scheme \<Rightarrow> (int \<times> ('w, 'z) errors_state_scheme) option" where
  "dump_info i fi s = do {
     let body = PACK_INFO_ENTRY (first_error i) (last_error i);
     (r, s) \<leftarrow> write_error 0 body fi s;
     Some (if r \<noteq> 0 then 1 else 0, s) }"

definition load_info :: "fat_data \<Rightarrow>
    ('w, 'z) errors_state_scheme \<Rightarrow> (int \<times> ('w, 'z) errors_state_scheme) option" where
  "load_info fi s = do {
     ((r, body), s) \<leftarrow> read_error 0 fi s;
     if r \<noteq> 0 then
       let fe = GET_FIRST_ERROR body; le = GET_LAST_ERROR body;
         fe = (if fe = 0 then 1 else fe); le = (if le = 0 then 1 else le)
       in Some (1, s\<lparr>errors_ring := \<lparr>first_error = fe, err_current = fe, last_error = le\<rparr>\<rparr>)
     else Some (0, s) }"

definition errors_setup :: "fat_data \<Rightarrow>
    ('w, 'z) errors_state_scheme \<Rightarrow> (int \<times> ('w, 'z) errors_state_scheme) option" where
  "errors_setup fi s = do {
     (ok, s) \<leftarrow> lock_errors s;
     if ok = 0 then Some (0, s)
     else do {
       (result, s) \<leftarrow> load_info fi s;
       (_, s) \<leftarrow> unlock_errors s;
       Some (result, s) } }"

definition next_ring_index :: "u32 \<Rightarrow> fat_data \<Rightarrow> u32" where
  "next_ring_index idx fi = (let idx = idx + 1 in
     if unat idx * sizeof_error_code \<ge> unat (cluster_size fi) then 1 else idx)"

definition errors_register_error :: "u32 \<Rightarrow> fat_data \<Rightarrow>
    ('w, 'z) errors_state_scheme \<Rightarrow> (int \<times> ('w, 'z) errors_state_scheme) option" where
  "errors_register_error code fi s = do {
     (ok, s) \<leftarrow> lock_errors s;
     if ok = 0 then Some (0, s)
     else do {
       (r, s) \<leftarrow> write_error (uint (err_current (errors_ring s))) code fi s;
       if r = 0 then do { (_, s) \<leftarrow> unlock_errors s; Some (0, s) }
       else do {
         let e = errors_ring s;
         let nxt = next_ring_index (ucast (err_current e)) fi;
         let e = (if nxt = ucast (first_error e)
           then e\<lparr>first_error := ucast (next_ring_index (ucast (first_error e)) fi)\<rparr> else e);
         let e = e\<lparr>err_current := ucast nxt, last_error := ucast nxt\<rparr>;
         (result, s) \<leftarrow> dump_info e fi (s\<lparr>errors_ring := e\<rparr>);
         (_, s) \<leftarrow> unlock_errors s;
         Some (result, s) } } }"

text \<open>The result \<open>-1\<close> of the enumeration type is the word of all ones.\<close>

definition errors_last_error :: "fat_data \<Rightarrow>
    ('w, 'z) errors_state_scheme \<Rightarrow> (u32 \<times> ('w, 'z) errors_state_scheme) option" where
  "errors_last_error fi s = do {
     (ok, s) \<leftarrow> lock_errors s;
     if ok = 0 then Some (-1, s)
     else if first_error (errors_ring s) = last_error (errors_ring s)
     then do { (_, s) \<leftarrow> unlock_errors s; Some (-1, s) }
     else do {
       ((r, c), s) \<leftarrow> read_error (uint (first_error (errors_ring s))) fi s;
       if r = 0 then do { (_, s) \<leftarrow> unlock_errors s; Some (-1, s) }
       else do {
         let e = (errors_ring s)\<lparr>first_error :=
           ucast (next_ring_index (ucast (first_error (errors_ring s))) fi)\<rparr>;
         (_, s) \<leftarrow> dump_info e fi (s\<lparr>errors_ring := e\<rparr>);
         (_, s) \<leftarrow> unlock_errors s;
         Some (c, s) } } }"

section \<open>The packed indices\<close>

lemma PACK_INFO_fields [simp]:
  "GET_FIRST_ERROR (PACK_INFO_ENTRY f c) = f" "GET_LAST_ERROR (PACK_INFO_ENTRY f c) = c"
proof -
  have m: "(0xFFFF :: u32) = mask 16" by (simp add: mask_eq_exp_minus_1)
  show "GET_FIRST_ERROR (PACK_INFO_ENTRY f c) = f"
    by (rule bit_word_eqI) (auto simp: GET_FIRST_ERROR_def PACK_INFO_ENTRY_def m bit_simps dest: bit_imp_le_length)
  show "GET_LAST_ERROR (PACK_INFO_ENTRY f c) = c"
    by (rule bit_word_eqI) (auto simp: GET_LAST_ERROR_def PACK_INFO_ENTRY_def m bit_simps dest: bit_imp_le_length)
qed

end
