(* ===== verification/Fatmap.thy ===== *)
theory Fatmap
  imports Errors
begin

text \<open>
  The bitmap of occupied clusters, from \<open>src/fatmap.c\<close> and \<open>include/nft32/fatmap.h\<close>. A set bit
  means an occupied cluster; \<open>fatmap_set\<close> marks a cluster free and \<open>fatmap_unset\<close> occupied,
  as the code names them. The bitmap is the array the pointer refers to; its index
  arithmetic is in \<open>unsigned int\<close>.
\<close>

unbundle bit_operations_syntax

section \<open>State\<close>

definition BITS_PER_WORD :: nat where "BITS_PER_WORD = 32"

record 'w fatmap_state = "'w errors_state" +
  bitmap :: "(nat \<times> u32 list) option"
  fatmap_lock :: lock_t

definition lock_fatmap :: "('w, 'z) fatmap_state_scheme \<Rightarrow> (int \<times> ('w, 'z) fatmap_state_scheme) option" where
  "lock_fatmap s = (let (r, l) = THR_require_write (Some (fatmap_lock s)) get_thread_num
     in Some (r, s\<lparr>fatmap_lock := the l\<rparr>))"

definition unlock_fatmap :: "('w, 'z) fatmap_state_scheme \<Rightarrow> (int \<times> ('w, 'z) fatmap_state_scheme) option" where
  "unlock_fatmap s = (let (r, l) = THR_release_write (Some (fatmap_lock s)) get_thread_num
     in Some (r, s\<lparr>fatmap_lock := the l\<rparr>))"

text \<open>Bit \<open>b\<close> of the array, out of bounds undefined.\<close>

definition bm_word :: "u32 list \<Rightarrow> u32 \<Rightarrow> u32 option" where
  "bm_word bm b = (let i = unat b div BITS_PER_WORD in if i < length bm then Some (bm ! i) else None)"

definition bm_mask :: "u32 \<Rightarrow> u32" where
  "bm_mask ca = push_bit (unat ca mod BITS_PER_WORD) 1"

section \<open>Operations\<close>

definition fatmap_init :: "fat_data \<Rightarrow>
    ('w, 'z) fatmap_state_scheme \<Rightarrow> (int \<times> ('w, 'z) fatmap_state_scheme) option" where
  "fatmap_init fi s =
    (if bitmap s \<noteq> None then Some (1, s)
     else do {
       (ok, s) \<leftarrow> lock_fatmap s;
       if ok = 0 then Some (0, s)
       else do {
         let bitmap_size = ((ucast (total_clusters fi) + of_nat BITS_PER_WORD - 1) div of_nat BITS_PER_WORD * 4 :: u64);
         let bitmap_size = (ucast bitmap_size :: u32);
         (p, s) \<leftarrow> nft32_malloc_s (ucast bitmap_size) s;
         (case p of
            None \<Rightarrow> do {
              (_, s) \<leftarrow> unlock_fatmap s;
              (_, s) \<leftarrow> errors_register_error (errcode MALLOC_ERROR) fi s;
              Some (0, s) }
          | Some a \<Rightarrow> do {
              (_, s) \<leftarrow> unlock_fatmap (s\<lparr>bitmap := Some (a, replicate (unat bitmap_size div 4) 0)\<rparr>);
              Some (1, s) }) } })"

definition fatmap_set :: "u32 \<Rightarrow> ('w, 'z) fatmap_state_scheme \<Rightarrow> (int \<times> ('w, 'z) fatmap_state_scheme) option" where
  "fatmap_set ca s = (case bitmap s of None \<Rightarrow> Some (0, s)
     | Some (a, bm) \<Rightarrow> do {
         (ok, s) \<leftarrow> lock_fatmap s;
         if ok = 0 then Some (0, s)
         else do {
           w \<leftarrow> bm_word bm ca;
           (_, s) \<leftarrow> unlock_fatmap (s\<lparr>bitmap := Some (a, bm[unat ca div BITS_PER_WORD := w AND NOT (bm_mask ca)])\<rparr>);
           Some (1, s) } })"

definition fatmap_unset :: "u32 \<Rightarrow> ('w, 'z) fatmap_state_scheme \<Rightarrow> (int \<times> ('w, 'z) fatmap_state_scheme) option" where
  "fatmap_unset ca s = (case bitmap s of None \<Rightarrow> Some (0, s)
     | Some (a, bm) \<Rightarrow> do {
         (ok, s) \<leftarrow> lock_fatmap s;
         if ok = 0 then Some (0, s)
         else do {
           w \<leftarrow> bm_word bm ca;
           (_, s) \<leftarrow> unlock_fatmap (s\<lparr>bitmap := Some (a, bm[unat ca div BITS_PER_WORD := w OR bm_mask ca])\<rparr>);
           Some (1, s) } })"

text \<open>The inner loop: the first occupied bit of the run at \<open>i\<close>, if there is one.\<close>

primrec run_blocked :: "u32 list \<Rightarrow> nat \<Rightarrow> u32 \<Rightarrow> u32 option option" where
  "run_blocked bm 0 b = Some None"
| "run_blocked bm (Suc k) b = do {
     w \<leftarrow> bm_word bm b;
     if drop_bit (unat b mod BITS_PER_WORD) w AND 1 \<noteq> 0 then Some (Some b)
     else run_blocked bm k (b + 1) }"

text \<open>The outer loop, which may in principle wrap round in \<open>unsigned int\<close> and not end.\<close>

partial_function (option) find_free_loop :: "u32 list \<Rightarrow> nat \<Rightarrow> u32 \<Rightarrow> u32 \<Rightarrow> u32 option option" where
  "find_free_loop bm sz limit i =
    (if i \<le> limit then do {
       b \<leftarrow> run_blocked bm sz i;
       (case b of None \<Rightarrow> Some (Some i) | Some j \<Rightarrow> find_free_loop bm sz limit (j + 1)) }
     else Some None)"

definition fatmap_find_free :: "u32 \<Rightarrow> int \<Rightarrow> fat_data \<Rightarrow>
    ('w, 'z) fatmap_state_scheme \<Rightarrow> (u32 \<times> ('w, 'z) fatmap_state_scheme) option" where
  "fatmap_find_free off sz fi s = (case bitmap s of None \<Rightarrow> Some (0, s)
     | Some (a, bm) \<Rightarrow> do {
         (ok, s) \<leftarrow> lock_fatmap s;
         if ok = 0 then Some (0, s)
         else if sz \<le> 0 \<or> off \<ge> total_clusters fi \<or> u32_of_int sz > total_clusters fi - off
         then do { (_, s) \<leftarrow> unlock_fatmap s; Some (0, s) }
         else do {
           let limit = total_clusters fi - u32_of_int sz;
           r \<leftarrow> find_free_loop bm (nat sz) limit off;
           (_, s) \<leftarrow> unlock_fatmap s;
           Some (case r of Some i \<Rightarrow> i | None \<Rightarrow> 0, s) } })"

definition fatmap_unload :: "('w, 'z) fatmap_state_scheme \<Rightarrow> (int \<times> ('w, 'z) fatmap_state_scheme) option" where
  "fatmap_unload s = (case bitmap s of None \<Rightarrow> Some (0, s)
     | Some (a, bm) \<Rightarrow> do {
         (ok, s) \<leftarrow> lock_fatmap s;
         if ok = 0 then Some (0, s)
         else do {
           (_, s) \<leftarrow> nft32_free_s (Some a) s;
           (_, s) \<leftarrow> unlock_fatmap (s\<lparr>bitmap := None\<rparr>);
           Some (1, s) } })"

section \<open>The bitmap as a set\<close>

lemma lock_fatmap_null [wp, simp]:
  "fatmap_lock s = NULL_LOCK \<Longrightarrow> lock_fatmap s = Some (1, s\<lparr>fatmap_lock := HELD\<rparr>)"
  by (simp add: lock_fatmap_def)

lemma unlock_fatmap_held [wp, simp]:
  "fatmap_lock s = HELD \<Longrightarrow> unlock_fatmap s = Some (1, s\<lparr>fatmap_lock := NULL_LOCK\<rparr>)"
  by (simp add: unlock_fatmap_def)

text \<open>The clusters a bitmap marks as occupied.\<close>

definition occupied :: "u32 list \<Rightarrow> nat set" where
  "occupied bm = {c. c div 32 < length bm \<and> bit (bm ! (c div 32)) (c mod 32)}"

definition bm_ok :: "u32 list \<Rightarrow> nat \<Rightarrow> bool" where
  "bm_ok bm n = (n \<le> 32 * length bm)"

lemma bm_ok_index: "bm_ok bm n \<Longrightarrow> c < n \<Longrightarrow> c div 32 < length bm"
  by (simp add: bm_ok_def less_mult_imp_div_less mult.commute)

lemma bm_mask_bit: "bit (bm_mask ca) n \<longleftrightarrow> n = unat ca mod 32"
  by (auto simp: bm_mask_def BITS_PER_WORD_def bit_simps)

lemma same_word: "c div 32 = d div 32 \<Longrightarrow> c mod 32 = d mod (32 :: nat) \<longleftrightarrow> c = d"
  by (metis div_mult_mod_eq)

lemma occupied_set:
  assumes "unat ca div 32 < length bm"
  shows "occupied (bm[unat ca div 32 := bm ! (unat ca div 32) AND NOT (bm_mask ca)]) = occupied bm - {unat ca}"
proof (rule set_eqI)
  fix c
  show "c \<in> occupied (bm[unat ca div 32 := bm ! (unat ca div 32) AND NOT (bm_mask ca)]) \<longleftrightarrow> c \<in> occupied bm - {unat ca}"
  proof (cases "c div 32 = unat ca div 32")
    case True
    then show ?thesis using assms same_word[OF True]
      by (simp add: occupied_def bit_and_iff bit_not_iff bm_mask_bit)
  next
    case False
    then have "c \<noteq> unat ca" by auto
    then show ?thesis using False by (simp add: occupied_def)
  qed
qed

lemma occupied_unset:
  assumes "unat ca div 32 < length bm"
  shows "occupied (bm[unat ca div 32 := bm ! (unat ca div 32) OR bm_mask ca]) = insert (unat ca) (occupied bm)"
proof (rule set_eqI)
  fix c
  show "c \<in> occupied (bm[unat ca div 32 := bm ! (unat ca div 32) OR bm_mask ca]) \<longleftrightarrow> c \<in> insert (unat ca) (occupied bm)"
  proof (cases "c div 32 = unat ca div 32")
    case True
    then show ?thesis using assms same_word[OF True]
      by (auto simp: occupied_def bit_or_iff bm_mask_bit)
  next
    case False
    then have "c \<noteq> unat ca" by auto
    then show ?thesis using False by (simp add: occupied_def)
  qed
qed

section \<open>Searching\<close>

definition free_run :: "u32 list \<Rightarrow> nat \<Rightarrow> nat \<Rightarrow> bool" where
  "free_run bm k i = (\<forall>c. i \<le> c \<and> c < i + k \<longrightarrow> c \<notin> occupied bm)"

lemma bm_word_in: "bm_ok bm n \<Longrightarrow> unat b < n \<Longrightarrow> bm_word bm b = Some (bm ! (unat b div 32))"
  using bm_ok_index[of bm n "unat b"] by (simp add: bm_word_def BITS_PER_WORD_def)

lemma occupied_test:
  "bm_ok bm n \<Longrightarrow> unat b < n \<Longrightarrow>
    drop_bit (unat b mod BITS_PER_WORD) (bm ! (unat b div 32)) AND 1 \<noteq> 0 \<longleftrightarrow> unat b \<in> occupied bm"
  using bm_ok_index[of bm n "unat b"]
  by (simp add: occupied_def BITS_PER_WORD_def bit_iff_and_drop_bit_eq_1 and_one_eq odd_iff_mod_2_eq_one
      flip: take_bit_eq_mask)

lemma run_blocked_spec:
  assumes "bm_ok bm n" and "unat b + k \<le> n" and "n < 2 ^ 32"
  shows "\<exists>r. run_blocked bm k b = Some r \<and>
    (case r of None \<Rightarrow> free_run bm k (unat b)
     | Some j \<Rightarrow> unat b \<le> unat j \<and> unat j < unat b + k \<and> unat j \<in> occupied bm)"
  using assms
proof (induction k arbitrary: b)
  case 0
  then show ?case by (auto simp: free_run_def)
next
  case (Suc k)
  have w: "bm_word bm b = Some (bm ! (unat b div 32))" using Suc.prems by (intro bm_word_in) auto
  have t: "drop_bit (unat b mod BITS_PER_WORD) (bm ! (unat b div 32)) AND 1 \<noteq> 0 \<longleftrightarrow> unat b \<in> occupied bm"
    using Suc.prems by (intro occupied_test) auto
  show ?case
  proof (cases "unat b \<in> occupied bm")
    case True
    then show ?thesis using w t by (intro exI[of _ "Some b"]) simp
  next
    case False
    have s: "unat (b + 1) = Suc (unat b)" using Suc.prems by (simp add: unat_word_ariths)
    obtain r where r: "run_blocked bm k (b + 1) = Some r"
      "case r of None \<Rightarrow> free_run bm k (Suc (unat b))
       | Some j \<Rightarrow> Suc (unat b) \<le> unat j \<and> unat j < Suc (unat b) + k \<and> unat j \<in> occupied bm"
      using Suc.IH[of "b + 1", unfolded s] Suc.prems by auto
    have "free_run bm k (Suc (unat b)) \<Longrightarrow> free_run bm (Suc k) (unat b)"
      using False by (auto simp: free_run_def le_Suc_eq) (metis Suc_leI le_neq_implies_less)
    then show ?thesis using w t False r
      by (intro exI[of _ r]) (auto split: option.splits)
  qed
qed

text \<open>The search finds the least free run at or after the offset, or proves there is none.\<close>

lemma find_free_loop_spec:
  assumes "bm_ok bm n" and "n < 2 ^ 32" and "0 < k" and "unat limit + k = n"
  shows "\<exists>r. find_free_loop bm k limit i = Some r \<and>
    (case r of None \<Rightarrow> \<forall>c. unat i \<le> c \<and> c + k \<le> n \<longrightarrow> \<not> free_run bm k c
     | Some j \<Rightarrow> unat i \<le> unat j \<and> unat j + k \<le> n \<and> free_run bm k (unat j) \<and>
         (\<forall>c. unat i \<le> c \<and> c < unat j \<longrightarrow> \<not> free_run bm k c))"
proof (induction "Suc (unat limit) - unat i" arbitrary: i rule: less_induct)
  case less
  show ?case
  proof (cases "i \<le> limit")
    case False
    then have "unat limit < unat i" by (simp add: word_le_nat_alt)
    then show ?thesis using False assms(4) by (subst find_free_loop.simps) auto
  next
    case True
    then have le: "unat i \<le> unat limit" by (simp add: word_le_nat_alt)
    obtain b where b: "run_blocked bm k i = Some b"
      "case b of None \<Rightarrow> free_run bm k (unat i)
       | Some j \<Rightarrow> unat i \<le> unat j \<and> unat j < unat i + k \<and> unat j \<in> occupied bm"
      using run_blocked_spec[OF assms(1), of i k] le assms by auto
    show ?thesis
    proof (cases b)
      case None
      then show ?thesis using b True le assms(4)
        by (subst find_free_loop.simps) auto
    next
      case (Some j)
      then have j: "unat i \<le> unat j" "unat j < unat i + k" "unat j \<in> occupied bm" using b by auto
      have s: "unat (j + 1) = Suc (unat j)" using j le assms by (simp add: unat_word_ariths)
      have closer: "Suc (unat limit) - unat (j + 1) < Suc (unat limit) - unat i" using s j le by linarith
      have skip: "\<not> free_run bm k c" if "unat i \<le> c" "c \<le> unat j" for c
        using that j by (auto simp: free_run_def)
      obtain r where r: "find_free_loop bm k limit (j + 1) = Some r"
        "case r of None \<Rightarrow> \<forall>c. Suc (unat j) \<le> c \<and> c + k \<le> n \<longrightarrow> \<not> free_run bm k c
         | Some m \<Rightarrow> Suc (unat j) \<le> unat m \<and> unat m + k \<le> n \<and> free_run bm k (unat m) \<and>
             (\<forall>c. Suc (unat j) \<le> c \<and> c < unat m \<longrightarrow> \<not> free_run bm k c)"
        using less[OF closer] unfolding s by blast
      have run: "find_free_loop bm k limit i = Some r"
        using True b(1) Some r(1) by (subst find_free_loop.simps) simp
      have "case r of None \<Rightarrow> \<forall>c. unat i \<le> c \<and> c + k \<le> n \<longrightarrow> \<not> free_run bm k c
         | Some m \<Rightarrow> unat i \<le> unat m \<and> unat m + k \<le> n \<and> free_run bm k (unat m) \<and>
             (\<forall>c. unat i \<le> c \<and> c < unat m \<longrightarrow> \<not> free_run bm k c)"
        using r(2) skip j(1) by (cases r) (force simp: not_less_eq_eq[symmetric])+
      then show ?thesis using run by blast
    qed
  qed
qed

text \<open>The whole operations on a loaded bitmap that covers the clusters of the volume.\<close>

definition fatmap_ready :: "fat_data \<Rightarrow> nat \<times> u32 list \<Rightarrow> ('w, 'z) fatmap_state_scheme \<Rightarrow> bool" where
  "fatmap_ready fi m s = (bitmap s = Some m \<and> fatmap_lock s = NULL_LOCK \<and> bm_ok (snd m) (unat (total_clusters fi)))"

lemma fatmap_set_ready [spec]:
  assumes "fatmap_ready fi (a, bm) s" and "ca < total_clusters fi"
  shows "\<exists>bm'. fatmap_set ca s = Some (1, s\<lparr>bitmap := Some (a, bm')\<rparr>) \<and>
    length bm' = length bm \<and> occupied bm' = occupied bm - {unat ca}"
proof -
  have i: "unat ca div 32 < length bm"
    using assms bm_ok_index[of bm "unat (total_clusters fi)" "unat ca"]
    by (simp add: fatmap_ready_def word_less_nat_alt)
  show ?thesis using assms(1) i
    by (intro exI[of _ "bm[unat ca div 32 := bm ! (unat ca div 32) AND NOT (bm_mask ca)]"])
      (simp add: fatmap_set_def fatmap_ready_def bm_word_def BITS_PER_WORD_def occupied_set[OF i])
qed

lemma fatmap_unset_ready [spec]:
  assumes "fatmap_ready fi (a, bm) s" and "ca < total_clusters fi"
  shows "\<exists>bm'. fatmap_unset ca s = Some (1, s\<lparr>bitmap := Some (a, bm')\<rparr>) \<and>
    length bm' = length bm \<and> occupied bm' = insert (unat ca) (occupied bm)"
proof -
  have i: "unat ca div 32 < length bm"
    using assms bm_ok_index[of bm "unat (total_clusters fi)" "unat ca"]
    by (simp add: fatmap_ready_def word_less_nat_alt)
  show ?thesis using assms(1) i
    by (intro exI[of _ "bm[unat ca div 32 := bm ! (unat ca div 32) OR bm_mask ca]"])
      (simp add: fatmap_unset_def fatmap_ready_def bm_word_def BITS_PER_WORD_def occupied_unset[OF i])
qed

lemma fatmap_find_free_ready [spec]:
  assumes "fatmap_ready fi (a, bm) s" and "0 < sz" and "off < total_clusters fi"
    and "sz \<le> int (unat (total_clusters fi) - unat off)"
  shows "\<exists>r. fatmap_find_free off sz fi s = Some (r, s) \<and>
    (if \<exists>c. unat off \<le> c \<and> c + nat sz \<le> unat (total_clusters fi) \<and> free_run bm (nat sz) c
     then unat off \<le> unat r \<and> unat r + nat sz \<le> unat (total_clusters fi) \<and> free_run bm (nat sz) (unat r) \<and>
       (\<forall>c. unat off \<le> c \<and> c < unat r \<longrightarrow> \<not> free_run bm (nat sz) c)
     else r = 0)"
proof -
  let ?n = "unat (total_clusters fi)"
  obtain k where k: "sz = int k" "0 < k" using assms(2) by (metis zero_less_imp_eq_int)
  have n: "?n < 2 ^ 32" using unsigned_less[of "total_clusters fi", where ?'a = nat] by simp
  have off: "unat off < ?n" using assms(3) by (simp add: word_less_nat_alt)
  have kn: "k \<le> ?n - unat off" using assms(4) k by simp
  have uk: "unat (u32_of_int sz) = k" using kn n k by (simp add: unat_of_nat)
  have d: "unat (total_clusters fi - off) = ?n - unat off" using off by (simp add: unat_sub_if')
  have guard: "\<not> (sz \<le> 0 \<or> off \<ge> total_clusters fi \<or> u32_of_int sz > total_clusters fi - off)"
    using assms(2,3) kn uk d by (auto simp: word_less_nat_alt not_le)
  have lim: "unat (total_clusters fi - u32_of_int sz) + k = ?n"
    using kn uk off by (simp add: unat_sub_if')
  have s: "bitmap s = Some (a, bm)" "fatmap_lock s = NULL_LOCK" "bm_ok bm ?n"
    using assms(1) by (auto simp: fatmap_ready_def)
  obtain r where r: "find_free_loop bm k (total_clusters fi - u32_of_int sz) off = Some r"
    "case r of None \<Rightarrow> \<forall>c. unat off \<le> c \<and> c + k \<le> ?n \<longrightarrow> \<not> free_run bm k c
     | Some j \<Rightarrow> unat off \<le> unat j \<and> unat j + k \<le> ?n \<and> free_run bm k (unat j) \<and>
         (\<forall>c. unat off \<le> c \<and> c < unat j \<longrightarrow> \<not> free_run bm k c)"
    using find_free_loop_spec[OF s(3) n k(2) lim] by blast
  have run: "fatmap_find_free off sz fi s = Some (case r of Some i \<Rightarrow> i | None \<Rightarrow> 0, s)"
    using s r(1) guard k(1) by (simp add: fatmap_find_free_def del: de_Morgan_disj)
  show ?thesis
    using run r(2) k(1) by (cases r) auto
qed

end
