(* ===== verification/Fat.thy ===== *)
theory Fat
  imports Fatmap
begin

text \<open>
  The file allocation table of \<open>src/fat.c\<close> and \<open>include/nft32/fat.h\<close>: Hamming-protected
  entries replicated over \<open>fat_count\<close> copies, an optional cache, and the bitmap of
  \<open>Fatmap\<close>. A read votes over the copies and rewrites them when they disagree.
\<close>

unbundle bit_operations_syntax

section \<open>State\<close>

definition FAT_CLUSTER_FREE :: u32 where "FAT_CLUSTER_FREE = 0x00000000"
definition FAT_CLUSTER_BAD :: u32 where "FAT_CLUSTER_BAD = 0x0FFFFFF7"
definition FAT_CLUSTER_RESERVED :: u32 where "FAT_CLUSTER_RESERVED = 0x0FFFFFF8"
definition FAT_CLUSTER_END :: u32 where "FAT_CLUSTER_END = 0x0FFFFFFF"
definition sizeof_cluster_val :: nat where "sizeof_cluster_val = 4"
definition sizeof_encoded :: nat where "sizeof_encoded = 2"

record 'w fat_state = "'w fatmap_state" +
  fat_cache :: "(nat \<times> u32 list) option"
  fat_lock :: lock_t

definition lock_fat :: "('w, 'z) fat_state_scheme \<Rightarrow> (int \<times> ('w, 'z) fat_state_scheme) option" where
  "lock_fat s = (let (r, l) = THR_require_write (Some (fat_lock s)) get_thread_num
     in Some (r, s\<lparr>fat_lock := the l\<rparr>))"

definition unlock_fat :: "('w, 'z) fat_state_scheme \<Rightarrow> (int \<times> ('w, 'z) fat_state_scheme) option" where
  "unlock_fat s = (let (r, l) = THR_release_write (Some (fat_lock s)) get_thread_num
     in Some (r, s\<lparr>fat_lock := the l\<rparr>))"

definition udiv :: "u32 \<Rightarrow> u32 \<Rightarrow> u32 option" where
  "udiv a m = (if m = 0 then None else Some (a div m))"

text \<open>A store into the cache array, out of bounds undefined.\<close>

definition cache_put :: "u32 \<Rightarrow> u32 \<Rightarrow> ('w, 'z) fat_state_scheme \<Rightarrow> (unit \<times> ('w, 'z) fat_state_scheme) option" where
  "cache_put ca value s = (case fat_cache s of None \<Rightarrow> Some ((), s)
     | Some (a, c) \<Rightarrow> if unat ca < length c then Some ((), s\<lparr>fat_cache := Some (a, c[unat ca := value])\<rparr>) else None)"

definition is_cluster_free :: "u32 \<Rightarrow> bool" where
  "is_cluster_free cluster = (cluster = 0)"

definition is_cluster_end :: "u32 \<Rightarrow> bool" where
  "is_cluster_end cluster = (cluster = FAT_CLUSTER_END)"

definition is_cluster_bad :: "u32 \<Rightarrow> bool" where
  "is_cluster_bad cluster = (cluster = FAT_CLUSTER_BAD)"

definition is_cluster_reserved :: "u32 \<Rightarrow> bool" where
  "is_cluster_reserved cluster = (cluster = FAT_CLUSTER_RESERVED)"

section \<open>One copy\<close>

definition fat_place :: "u32 \<Rightarrow> fat_data \<Rightarrow> int \<Rightarrow> (u32 \<times> u32) option" where
  "fat_place ca fi fat = do {
     let fat_offset = ca * of_nat sizeof_cluster_val * of_nat sizeof_encoded;
     base \<leftarrow> GET_FATSECTOR (u32_of_int fat) (total_sectors fi);
     q \<leftarrow> udiv fat_offset (bytes_per_sector fi);
     r \<leftarrow> umod fat_offset (bytes_per_sector fi);
     Some (sectors_padd fi + base + q, r) }"

definition write_fat_copy :: "u32 \<Rightarrow> u32 \<Rightarrow> fat_data \<Rightarrow> int \<Rightarrow>
    ('w, 'z) fat_state_scheme \<Rightarrow> (int \<times> ('w, 'z) fat_state_scheme) option" where
  "write_fat_copy ca value fi fat s = do {
     (fat_sector, off) \<leftarrow> fat_place ca fi fat;
     let table_buffer = replicate sizeof_cluster_val 0;
     let table_buffer = nft32_pack_memory (bytes_of_u32 value) table_buffer sizeof_cluster_val;
     (r, s) \<leftarrow> DSK_writeoff_sectors fat_sector (int_of_u32 off) (bytes_of_u16s table_buffer)
       (int (2 * sizeof_cluster_val)) 1 s;
     if r = 0 then do {
       (_, s) \<leftarrow> errors_register_error (errcode WRITE_FAT_ERROR) fi s;
       Some (0, s) }
     else Some (1, s) }"

definition read_fat_copy :: "u32 \<Rightarrow> fat_data \<Rightarrow> int \<Rightarrow>
    ('w, 'z) fat_state_scheme \<Rightarrow> (u32 \<times> ('w, 'z) fat_state_scheme) option" where
  "read_fat_copy ca fi fat s = do {
     (fat_sector, off) \<leftarrow> fat_place ca fi fat;
     let table_buffer = replicate (2 * sizeof_cluster_val) 0;
     ((r, table_buffer), s) \<leftarrow> DSK_readoff_sectors fat_sector (int_of_u32 off) table_buffer
       (int (2 * sizeof_cluster_val)) 1 s;
     if r = 0 then do {
       (_, s) \<leftarrow> errors_register_error (errcode READ_FAT_ERROR) fi s;
       Some (FAT_CLUSTER_BAD, s) }
     else Some (get_u32 (unpack_bytes table_buffer) 0 AND 0x0FFFFFFF, s) }"

section \<open>All copies\<close>

primrec write_fat_loop :: "nat \<Rightarrow> int \<Rightarrow> u32 \<Rightarrow> u32 \<Rightarrow> fat_data \<Rightarrow> int \<Rightarrow>
    ('w, 'z) fat_state_scheme \<Rightarrow> (int \<times> ('w, 'z) fat_state_scheme) option" where
  "write_fat_loop 0 i ca value fi result s = Some (result, s)"
| "write_fat_loop (Suc k) i ca value fi result s = do {
     (r, s) \<leftarrow> write_fat_copy ca value fi i s;
     write_fat_loop k (i + 1) ca value fi (if r \<noteq> 0 \<and> result \<noteq> 0 then 1 else 0) s }"

definition mark_cluster :: "u32 \<Rightarrow> u32 \<Rightarrow> ('w, 'z) fat_state_scheme \<Rightarrow> (int \<times> ('w, 'z) fat_state_scheme) option" where
  "mark_cluster ca value s = (if value = FAT_CLUSTER_FREE then fatmap_set ca s else fatmap_unset ca s)"

definition write_fat_locked :: "u32 \<Rightarrow> u32 \<Rightarrow> fat_data \<Rightarrow>
    ('w, 'z) fat_state_scheme \<Rightarrow> (int \<times> ('w, 'z) fat_state_scheme) option" where
  "write_fat_locked ca value fi s = do {
     (_, s) \<leftarrow> cache_put ca value s;
     (_, s) \<leftarrow> mark_cluster ca value s;
     write_fat_loop (unat (fat_count fi)) 0 ca value fi 1 s }"

definition write_fat :: "u32 \<Rightarrow> u32 \<Rightarrow> fat_data \<Rightarrow>
    ('w, 'z) fat_state_scheme \<Rightarrow> (int \<times> ('w, 'z) fat_state_scheme) option" where
  "write_fat ca value fi s =
    (if ca < ext_root_cluster fi \<or> ca \<ge> total_clusters fi
     then do { (_, s) \<leftarrow> errors_register_error (errcode WRITE_FAT_ERROR) fi s; Some (0, s) }
     else do {
       (ok, s) \<leftarrow> lock_fat s;
       if ok = 0 then do { (_, s) \<leftarrow> errors_register_error (errcode WRITE_FAT_ERROR) fi s; Some (0, s) }
       else do {
         (result, s) \<leftarrow> write_fat_locked ca value fi s;
         (_, s) \<leftarrow> unlock_fat s;
         Some (result, s) } })"

primrec read_fat_loop :: "nat \<Rightarrow> int \<Rightarrow> u32 \<Rightarrow> fat_data \<Rightarrow> u32 vote \<Rightarrow>
    ('w, 'z) fat_state_scheme \<Rightarrow> (u32 vote \<times> ('w, 'z) fat_state_scheme) option" where
  "read_fat_loop 0 i ca fi v s = Some (v, s)"
| "read_fat_loop (Suc k) i ca fi v s = do {
     (fat_val, s) \<leftarrow> read_fat_copy ca fi i s;
     read_fat_loop k (i + 1) ca fi (fst (vote_step fat_val v)) s }"

text \<open>The cached value of a cluster: \<open>None\<close> is an access out of bounds.\<close>

definition cache_get :: "u32 \<Rightarrow> ('w, 'z) fat_state_scheme \<Rightarrow> u32 option" where
  "cache_get ca s = (case fat_cache s of None \<Rightarrow> Some FAT_CLUSTER_BAD
     | Some (a, c) \<Rightarrow> if unat ca < length c then Some (c ! unat ca) else None)"

definition read_fat :: "u32 \<Rightarrow> fat_data \<Rightarrow>
    ('w, 'z) fat_state_scheme \<Rightarrow> (u32 \<times> ('w, 'z) fat_state_scheme) option" where
  "read_fat ca fi s =
    (if ca < ext_root_cluster fi \<or> ca \<ge> total_clusters fi
     then do { (_, s) \<leftarrow> errors_register_error (errcode READ_FAT_ERROR) fi s; Some (FAT_CLUSTER_BAD, s) }
     else do {
       (ok, s) \<leftarrow> lock_fat s;
       if ok = 0
       then do { (_, s) \<leftarrow> errors_register_error (errcode READ_FAT_ERROR) fi s; Some (FAT_CLUSTER_BAD, s) }
       else do {
         cached \<leftarrow> cache_get ca s;
         if cached \<noteq> FAT_CLUSTER_BAD
         then do { (_, s) \<leftarrow> unlock_fat s; Some (cached, s) }
         else do {
           ((table_value, val_freq, wrong), s) \<leftarrow>
             read_fat_loop (unat (fat_count fi)) 0 ca fi (vote_start FAT_CLUSTER_BAD) s;
           (_, s) \<leftarrow> cache_put ca table_value s;
           (_, s) \<leftarrow> mark_cluster ca table_value s;
           (_, s) \<leftarrow> (if wrong > 0 then write_fat_locked ca table_value fi s else Some (0, s));
           (_, s) \<leftarrow> unlock_fat s;
           Some (table_value, s) } } })"

definition set_cluster_free :: "u32 \<Rightarrow> fat_data \<Rightarrow>
    ('w, 'z) fat_state_scheme \<Rightarrow> (int \<times> ('w, 'z) fat_state_scheme) option" where
  "set_cluster_free cluster fi s = write_fat cluster 0 fi s"

definition set_cluster_end :: "u32 \<Rightarrow> fat_data \<Rightarrow>
    ('w, 'z) fat_state_scheme \<Rightarrow> (int \<times> ('w, 'z) fat_state_scheme) option" where
  "set_cluster_end cluster fi s = write_fat cluster FAT_CLUSTER_END fi s"

definition set_cluster_bad :: "u32 \<Rightarrow> fat_data \<Rightarrow>
    ('w, 'z) fat_state_scheme \<Rightarrow> (int \<times> ('w, 'z) fat_state_scheme) option" where
  "set_cluster_bad cluster fi s = write_fat cluster FAT_CLUSTER_BAD fi s"

section \<open>The cache\<close>

definition fat_cache_init :: "fat_data \<Rightarrow>
    ('w, 'z) fat_state_scheme \<Rightarrow> (int \<times> ('w, 'z) fat_state_scheme) option" where
  "fat_cache_init fi s =
    (if fat_cache s \<noteq> None then Some (1, s)
     else do {
       (ok, s) \<leftarrow> lock_fat s;
       if ok = 0 then Some (0, s)
       else do {
         (p, s) \<leftarrow> nft32_malloc_s (ucast (total_clusters fi) * of_nat sizeof_cluster_val) s;
         (case p of
            None \<Rightarrow> do {
              (_, s) \<leftarrow> unlock_fat s;
              (_, s) \<leftarrow> errors_register_error (errcode MALLOC_ERROR) fi s;
              Some (0, s) }
          | Some a \<Rightarrow> do {
              (_, s) \<leftarrow> unlock_fat (s\<lparr>fat_cache := Some (a, replicate (unat (total_clusters fi)) FAT_CLUSTER_BAD)\<rparr>);
              Some (1, s) }) } })"

primrec hload_loop :: "nat \<Rightarrow> u32 \<Rightarrow> fat_data \<Rightarrow>
    ('w, 'z) fat_state_scheme \<Rightarrow> (int \<times> ('w, 'z) fat_state_scheme) option" where
  "hload_loop 0 ca fi s = Some (1, s)"
| "hload_loop (Suc k) ca fi s = do {
     (cls, s) \<leftarrow> read_fat ca fi s;
     (_, s) \<leftarrow> (if cls = FAT_CLUSTER_FREE then fatmap_set ca s else fatmap_unset ca s);
     hload_loop k (ca + 1) fi s }"

definition fat_cache_hload :: "fat_data \<Rightarrow>
    ('w, 'z) fat_state_scheme \<Rightarrow> (int \<times> ('w, 'z) fat_state_scheme) option" where
  "fat_cache_hload fi s =
    (if fat_cache s = None then Some (0, s) else hload_loop (unat (total_clusters fi)) 0 fi s)"

definition fat_cache_unload :: "('w, 'z) fat_state_scheme \<Rightarrow> (int \<times> ('w, 'z) fat_state_scheme) option" where
  "fat_cache_unload s = (case fat_cache s of None \<Rightarrow> Some (0, s)
     | Some (a, c) \<Rightarrow> do {
         (ok, s) \<leftarrow> lock_fat s;
         if ok = 0 then Some (0, s)
         else do {
           (_, s) \<leftarrow> nft32_free_s (Some a) s;
           (_, s) \<leftarrow> unlock_fat (s\<lparr>fat_cache := None\<rparr>);
           Some (1, s) } })"

primrec repair_loop :: "nat \<Rightarrow> u32 \<Rightarrow> fat_data \<Rightarrow>
    ('w, 'z) fat_state_scheme \<Rightarrow> (int \<times> ('w, 'z) fat_state_scheme) option" where
  "repair_loop 0 ca fi s = Some (1, s)"
| "repair_loop (Suc k) ca fi s = do {
     (_, s) \<leftarrow> read_fat ca fi s;
     repair_loop k (ca + 1) fi s }"

definition fat_repair :: "fat_data \<Rightarrow>
    ('w, 'z) fat_state_scheme \<Rightarrow> (int \<times> ('w, 'z) fat_state_scheme) option" where
  "fat_repair fi s = repair_loop (unat (total_clusters fi)) 0 fi s"

section \<open>Where the entries are\<close>

definition fat_base :: "fat_data \<Rightarrow> nat \<Rightarrow> nat" where
  "fat_base fi i = unat (sectors_padd fi) + unat (the (GET_FATSECTOR (of_nat i) (total_sectors fi)))"

definition fat_loc :: "fat_data \<Rightarrow> nat \<Rightarrow> nat \<Rightarrow> nat \<Rightarrow> nat" where
  "fat_loc fi ssz i c = fat_base fi i * ssz + c * 8"

text \<open>A volume whose copies lie on the device, aligned in its sectors, and either coincide or do
  not overlap.\<close>

definition fat_geom :: "fat_data \<Rightarrow> nat \<Rightarrow> nat \<Rightarrow> bool" where
  "fat_geom fi nsec ssz = (bytes_per_sector fi = of_nat ssz \<and> 0 < ssz \<and> ssz < 2 ^ 31 \<and> 8 dvd ssz \<and>
     unat (total_clusters fi) * 8 < 2 ^ 32 \<and> total_sectors fi \<noteq> 23 \<and>
     (\<forall>i < unat (fat_count fi). fat_loc fi ssz i (unat (total_clusters fi)) \<le> nsec * ssz) \<and>
     (\<forall>i < unat (fat_count fi). \<forall>j < unat (fat_count fi). fat_base fi i = fat_base fi j \<or>
        fat_loc fi ssz i (unat (total_clusters fi)) \<le> fat_loc fi ssz j 0 \<or>
        fat_loc fi ssz j (unat (total_clusters fi)) \<le> fat_loc fi ssz i 0))"

definition fat_slot :: "fat_data \<Rightarrow> nat \<Rightarrow> (nat \<Rightarrow> byte list) \<Rightarrow> nat \<Rightarrow> nat \<Rightarrow> byte list" where
  "fat_slot fi ssz sec i c = slot ssz sec (fat_loc fi ssz i c) 8"

definition fat_copy_val :: "fat_data \<Rightarrow> nat \<Rightarrow> (nat \<Rightarrow> byte list) \<Rightarrow> nat \<Rightarrow> nat \<Rightarrow> u32" where
  "fat_copy_val fi ssz sec i c = get_u32 (unpack_bytes (fat_slot fi ssz sec i c)) 0 AND 0x0FFFFFFF"

lemma fat_loc_div: "0 < ssz \<Longrightarrow> fat_loc fi ssz i c div ssz = fat_base fi i + c * 8 div ssz"
  by (simp add: fat_loc_def)

lemma fat_loc_mod: "fat_loc fi ssz i c mod ssz = c * 8 mod ssz"
  by (simp add: fat_loc_def)

lemma fat_loc_mono: "c < d \<Longrightarrow> fat_loc fi ssz i c + 8 \<le> fat_loc fi ssz i d"
  by (simp add: fat_loc_def)

lemma mod8_fits: "8 dvd ssz \<Longrightarrow> 0 < ssz \<Longrightarrow> c * 8 mod ssz + 8 \<le> (ssz :: nat)"
proof -
  assume d: "8 dvd ssz" and p: "0 < ssz"
  then obtain q where q: "ssz = 8 * q" by (elim dvdE)
  then have "c * 8 mod ssz = 8 * (c mod q)" by (simp add: mult.commute)
  moreover have "c mod q < q" using p q by simp
  ultimately show ?thesis using q by simp
qed

lemma fat_loc_fits: "fat_geom fi nsec ssz \<Longrightarrow> fat_loc fi ssz i c mod ssz + 8 \<le> ssz"
  by (simp add: fat_loc_mod mod8_fits fat_geom_def)

lemma fat_loc_sector:
  assumes "fat_geom fi nsec ssz" "i < unat (fat_count fi)" "c < unat (total_clusters fi)"
  shows "fat_loc fi ssz i c div ssz < nsec"
proof -
  have "fat_loc fi ssz i c + 8 \<le> nsec * ssz"
    using fat_loc_mono[OF assms(3), of fi ssz i] assms by (auto simp: fat_geom_def intro: order_trans)
  then show ?thesis by (intro less_mult_imp_div_less) simp
qed

lemma fat_loc_disjoint:
  assumes "fat_geom fi nsec ssz" "i < unat (fat_count fi)" "j < unat (fat_count fi)"
    and "c < unat (total_clusters fi)" "d < unat (total_clusters fi)" "c \<noteq> d"
  shows "fat_loc fi ssz i c + 8 \<le> fat_loc fi ssz j d \<or> fat_loc fi ssz j d + 8 \<le> fat_loc fi ssz i c"
proof -
  consider "fat_base fi i = fat_base fi j" | "fat_loc fi ssz i (unat (total_clusters fi)) \<le> fat_loc fi ssz j 0"
    | "fat_loc fi ssz j (unat (total_clusters fi)) \<le> fat_loc fi ssz i 0"
    using assms(1-3) by (auto simp: fat_geom_def)
  then show ?thesis
  proof cases
    case 1
    then show ?thesis using assms(6) by (auto simp: fat_loc_def)
  next
    case 2
    then show ?thesis using assms(4) by (auto simp: fat_loc_def)
  next
    case 3
    then show ?thesis using assms(5) by (auto simp: fat_loc_def)
  qed
qed

lemma fat_loc_same_or_apart:
  assumes "fat_geom fi nsec ssz" "i < unat (fat_count fi)" "j < unat (fat_count fi)"
    and "c < unat (total_clusters fi)"
  shows "fat_loc fi ssz i c = fat_loc fi ssz j c \<or>
    fat_loc fi ssz i c + 8 \<le> fat_loc fi ssz j c \<or> fat_loc fi ssz j c + 8 \<le> fat_loc fi ssz i c"
proof -
  consider "fat_base fi i = fat_base fi j" | "fat_loc fi ssz i (unat (total_clusters fi)) \<le> fat_loc fi ssz j 0"
    | "fat_loc fi ssz j (unat (total_clusters fi)) \<le> fat_loc fi ssz i 0"
    using assms(1-3) by (auto simp: fat_geom_def)
  then show ?thesis
    by cases (use assms(4) in \<open>auto simp: fat_loc_def\<close>)
qed

context block_device begin

lemma fat_place_eq:
  assumes "fat_geom fi nsec ssz" "i < unat (fat_count fi)" "ca < total_clusters fi"
  shows "\<exists>sa off. fat_place ca fi (int i) = Some (sa, off) \<and> unat sa = fat_loc fi ssz i (unat ca) div ssz \<and>
    int_of_u32 off = int (fat_loc fi ssz i (unat ca) mod ssz)"
proof -
  have g: "bytes_per_sector fi = of_nat ssz" "0 < ssz" "ssz < 2 ^ 31" "unat (total_clusters fi) * 8 < 2 ^ 32"
    "total_sectors fi \<noteq> 23" using assms(1) by (auto simp: fat_geom_def)
  have ca: "unat ca < unat (total_clusters fi)" using assms(3) by (simp add: word_less_nat_alt)
  have us: "unat (of_nat ssz :: u32) = ssz" using g(3) by (simp add: unat_of_nat)
  have nz: "(of_nat ssz :: u32) \<noteq> 0" using us g(2) by (metis unat_0 less_irrefl)
  obtain b where b: "GET_FATSECTOR (of_nat i) (total_sectors fi) = Some b"
    using g(5) by (auto simp: GET_FATSECTOR_def umod_def)
  have fo: "unat (ca * of_nat sizeof_cluster_val * of_nat sizeof_encoded) = unat ca * 8"
    using ca g(4) by (simp add: unat_word_ariths sizeof_cluster_val_def sizeof_encoded_def)
  let ?fo = "ca * of_nat sizeof_cluster_val * of_nat sizeof_encoded"
  let ?q = "?fo div of_nat ssz" let ?r = "?fo mod of_nat ssz"
  have q: "unat ?q = unat ca * 8 div ssz" and r: "unat ?r = unat ca * 8 mod ssz"
    by (simp_all only: unat_div unat_mod fo us)
  have base: "fat_base fi i = unat (sectors_padd fi) + unat b" using b by (simp add: fat_base_def)
  have lt: "fat_loc fi ssz i (unat ca) div ssz < nsec" using assms ca by (intro fat_loc_sector)
  then have sum: "unat (sectors_padd fi) + unat b + unat ca * 8 div ssz < 2 ^ 32"
    using nsec_fits base g(2) by (simp add: fat_loc_div)
  have "unat (sectors_padd fi + b + ?q) = unat (sectors_padd fi) + unat b + unat ca * 8 div ssz"
    using sum q by (simp add: unat_word_ariths)
  then have sa: "unat (sectors_padd fi + b + ?q) = fat_loc fi ssz i (unat ca) div ssz"
    using base g(2) by (simp add: fat_loc_div)
  have "unat ?r < 2 ^ 31" using r g(2,3) by (metis mod_less_divisor order_less_trans)
  then have off: "int_of_u32 ?r = int (fat_loc fi ssz i (unat ca) mod ssz)"
    using r by (simp only: sint_small fat_loc_mod)
  have "fat_place ca fi (int i) = Some (sectors_padd fi + b + ?q, ?r)"
    using b nz by (simp add: fat_place_def Let_def g(1) udiv_def umod_def)
  then show ?thesis using sa off by blast
qed

lemma read_fat_copy_val:
  assumes "fat_geom fi nsec ssz" "i < unat (fat_count fi)" "ca < total_clusters fi"
    and "dsk_ready rd wr ssz s" "wf (world s)"
  shows "\<exists>w'. read_fat_copy ca fi (int i) s = Some (fat_copy_val fi ssz (secs (world s)) i (unat ca), s\<lparr>world := w'\<rparr>) \<and>
    wf w' \<and> secs w' = secs (world s)"
proof -
  obtain sa off where p: "fat_place ca fi (int i) = Some (sa, off)"
    "unat sa = fat_loc fi ssz i (unat ca) div ssz" "int_of_u32 off = int (fat_loc fi ssz i (unat ca) mod ssz)"
    using fat_place_eq[OF assms(1-3)] by blast
  have lt: "fat_loc fi ssz i (unat ca) div ssz < nsec"
    using assms(1-3) by (intro fat_loc_sector) (simp_all add: word_less_nat_alt)
  obtain w' where w': "DSK_readoff_sectors sa (int_of_u32 off) (replicate 8 0) (int 8) 1 s =
      Some ((1, fat_slot fi ssz (secs (world s)) i (unat ca)), s\<lparr>world := w'\<rparr>)" "wf w'" "secs w' = secs (world s)"
    using read_slot[OF assms(4,5) p(2) lt p(3) fat_loc_fits[OF assms(1)], of "replicate 8 0"]
    unfolding fat_slot_def by auto
  then show ?thesis using p(1)
    by (intro exI[of _ w']) (simp add: read_fat_copy_def Let_def sizeof_cluster_val_def fat_copy_val_def)
qed

lemma write_fat_copy_slot:
  assumes "fat_geom fi nsec ssz" "i < unat (fat_count fi)" "ca < total_clusters fi"
    and "dsk_ready rd wr ssz s" "wf (world s)"
  shows "\<exists>w'. write_fat_copy ca value fi (int i) s = Some (1, s\<lparr>world := w'\<rparr>) \<and> wf w' \<and>
    secs w' = put_slot ssz (secs (world s)) (fat_loc fi ssz i (unat ca)) (pack_bytes (bytes_of_u32 value))"
proof -
  obtain sa off where p: "fat_place ca fi (int i) = Some (sa, off)"
    "unat sa = fat_loc fi ssz i (unat ca) div ssz" "int_of_u32 off = int (fat_loc fi ssz i (unat ca) mod ssz)"
    using fat_place_eq[OF assms(1-3)] by blast
  have lt: "fat_loc fi ssz i (unat ca) div ssz < nsec"
    using assms(1-3) by (intro fat_loc_sector) (simp_all add: word_less_nat_alt)
  have len: "length (pack_bytes (bytes_of_u32 value)) = 8" by simp
  obtain w' where w': "DSK_writeoff_sectors sa (int_of_u32 off) (pack_bytes (bytes_of_u32 value)) (int 8) 1 s =
      Some (1, s\<lparr>world := w'\<rparr>)" "wf w'"
    "secs w' = put_slot ssz (secs (world s)) (fat_loc fi ssz i (unat ca)) (pack_bytes (bytes_of_u32 value))"
    using write_slot[OF assms(4,5) p(2) lt p(3), of "pack_bytes (bytes_of_u32 value)" 8] fat_loc_fits[OF assms(1), of i "unat ca"]
    by auto
  then show ?thesis using p(1)
    by (intro exI[of _ w'])
      (simp add: write_fat_copy_def Let_def sizeof_cluster_val_def pack_bytes_def)
qed

end

section \<open>Writing and reading all copies\<close>

primrec put_copies :: "fat_data \<Rightarrow> nat \<Rightarrow> nat \<Rightarrow> byte list \<Rightarrow> nat \<Rightarrow> nat \<Rightarrow> (nat \<Rightarrow> byte list) \<Rightarrow> (nat \<Rightarrow> byte list)" where
  "put_copies fi ssz c data i 0 sec = sec"
| "put_copies fi ssz c data i (Suc k) sec =
     put_copies fi ssz c data (Suc i) k (put_slot ssz sec (fat_loc fi ssz i c) data)"

text \<open>The value the vote gives for a cluster: the abstract table.\<close>

definition fat_vote :: "fat_data \<Rightarrow> nat \<Rightarrow> (nat \<Rightarrow> byte list) \<Rightarrow> nat \<Rightarrow> u32 vote" where
  "fat_vote fi ssz sec c =
     vote_all (map (\<lambda>i. fat_copy_val fi ssz sec i c) [0..<unat (fat_count fi)]) (vote_start FAT_CLUSTER_BAD)"

definition fat_view :: "fat_data \<Rightarrow> nat \<Rightarrow> (nat \<Rightarrow> byte list) \<Rightarrow> nat \<Rightarrow> u32" where
  "fat_view fi ssz sec c = fst (fat_vote fi ssz sec c)"

definition sectors_ok :: "nat \<Rightarrow> nat \<Rightarrow> (nat \<Rightarrow> byte list) \<Rightarrow> bool" where
  "sectors_ok nsec ssz sec = (\<forall>i < nsec. length (sec i) = ssz)"

lemma sectors_ok_put:
  "sectors_ok nsec ssz sec \<Longrightarrow> b div ssz < nsec \<Longrightarrow> b mod ssz + length data \<le> ssz \<Longrightarrow>
     sectors_ok nsec ssz (put_slot ssz sec b data)"
  by (simp add: sectors_ok_def put_slot_def)

lemma put_copies_props:
  assumes "fat_geom fi nsec ssz" and "c < unat (total_clusters fi)" and "length data = 8"
    and "i + k \<le> unat (fat_count fi)" and "sectors_ok nsec ssz sec"
  shows "sectors_ok nsec ssz (put_copies fi ssz c data i k sec) \<and>
    (\<forall>j < unat (fat_count fi). \<forall>d < unat (total_clusters fi). d \<noteq> c \<longrightarrow>
       fat_slot fi ssz (put_copies fi ssz c data i k sec) j d = fat_slot fi ssz sec j d) \<and>
    (\<forall>j < unat (fat_count fi). i \<le> j \<and> j < i + k \<or> fat_slot fi ssz sec j c = data \<longrightarrow>
       fat_slot fi ssz (put_copies fi ssz c data i k sec) j c = data)"
  using assms(4,5)
proof (induction k arbitrary: i sec)
  case (Suc k)
  let ?b = "fat_loc fi ssz i c" let ?sec = "put_slot ssz sec ?b data"
  have i: "i < unat (fat_count fi)" using Suc.prems(1) by simp
  have lt: "?b div ssz < nsec" using assms(1) i assms(2) by (rule fat_loc_sector)
  have fits: "fat_loc fi ssz j d mod ssz + 8 \<le> ssz" for j d using assms(1) by (rule fat_loc_fits)
  have len: "length (sec (?b div ssz)) = ssz" using Suc.prems(2) lt by (simp add: sectors_ok_def)
  have ok: "sectors_ok nsec ssz ?sec"
    using Suc.prems(2) lt fits[of i c] assms(3) by (simp add: sectors_ok_put)
  have other: "fat_slot fi ssz ?sec j d = fat_slot fi ssz sec j d"
    if "fat_loc fi ssz i c + 8 \<le> fat_loc fi ssz j d \<or> fat_loc fi ssz j d + 8 \<le> fat_loc fi ssz i c" for j d
    unfolding fat_slot_def using that slot_put_other[of sec ?b ssz data "fat_loc fi ssz j d" 8] len fits assms(3) by auto
  have same: "fat_slot fi ssz ?sec j c = data" if "fat_loc fi ssz i c = fat_loc fi ssz j c" for j
    unfolding fat_slot_def using slot_put_same[of sec ?b ssz data] len fits[of i c] assms(3) that by simp
  have ne: "fat_slot fi ssz ?sec j d = fat_slot fi ssz sec j d"
    if "j < unat (fat_count fi)" "d < unat (total_clusters fi)" "d \<noteq> c" for j d
    using other fat_loc_disjoint[OF assms(1) i that(1) assms(2) that(2)] that(3) by auto
  have eq: "fat_slot fi ssz ?sec j c = data"
    if "j < unat (fat_count fi)" "j = i \<or> fat_slot fi ssz sec j c = data" for j
    using that fat_loc_same_or_apart[OF assms(1) i that(1) assms(2)] other[of j c] same[of j] by auto
  have IH: "sectors_ok nsec ssz (put_copies fi ssz c data (Suc i) k ?sec)"
    "\<And>j d. j < unat (fat_count fi) \<Longrightarrow> d < unat (total_clusters fi) \<Longrightarrow> d \<noteq> c \<Longrightarrow>
       fat_slot fi ssz (put_copies fi ssz c data (Suc i) k ?sec) j d = fat_slot fi ssz ?sec j d"
    "\<And>j. j < unat (fat_count fi) \<Longrightarrow> Suc i \<le> j \<and> j < Suc i + k \<or> fat_slot fi ssz ?sec j c = data \<Longrightarrow>
       fat_slot fi ssz (put_copies fi ssz c data (Suc i) k ?sec) j c = data"
    using Suc.IH[of "Suc i" ?sec] Suc.prems(1) ok by auto
  have split: "i \<le> j \<and> j < i + Suc k \<longleftrightarrow> j = i \<or> Suc i \<le> j \<and> j < Suc i + k" for j by auto
  show ?case unfolding put_copies.simps split using IH ne eq by metis
qed auto

lemma fat_view_put:
  assumes "fat_geom fi nsec ssz" and "c < unat (total_clusters fi)" and "sectors_ok nsec ssz sec"
    and "fat_count fi \<noteq> 0" and "d < unat (total_clusters fi)"
  shows "fat_view fi ssz (put_copies fi ssz c (pack_bytes (bytes_of_u32 v)) 0 (unat (fat_count fi)) sec) d =
    (if d = c then v AND 0x0FFFFFFF else fat_view fi ssz sec d)"
proof -
  let ?n = "unat (fat_count fi)" let ?data = "pack_bytes (bytes_of_u32 v)"
  let ?sec = "put_copies fi ssz c ?data 0 ?n sec"
  note props = put_copies_props[OF assms(1,2), of ?data 0 ?n sec, simplified, OF assms(3)]
  have n: "?n \<noteq> 0" using assms(4) by (simp add: unat_eq_0)
  show ?thesis
  proof (cases "d = c")
    case True
    have val: "fat_copy_val fi ssz ?sec j c = v AND 0x0FFFFFFF" if "j < ?n" for j
      using props that get_u32_bytes[of v "[]"] by (simp add: fat_copy_val_def)
    let ?vals = "map (\<lambda>i. fat_copy_val fi ssz ?sec i c) [0..<?n]"
    have "?vals = replicate ?n (v AND 0x0FFFFFFF)"
      using val by (intro nth_equalityI) auto
    then have "length ?vals < 2 * count_list ?vals (v AND 0x0FFFFFFF)" using n
      by (simp add: count_list_eq_length_filter filter_replicate)
    then show ?thesis using True by (simp add: fat_view_def fat_vote_def majority_wins)
  next
    case False
    then have "fat_copy_val fi ssz ?sec i d = fat_copy_val fi ssz sec i d" if "i < ?n" for i
      using props that assms(5) by (simp add: fat_copy_val_def)
    then have eq: "map (\<lambda>i. fat_copy_val fi ssz ?sec i d) [0..<?n] = map (\<lambda>i. fat_copy_val fi ssz sec i d) [0..<?n]"
      by simp
    show ?thesis using False unfolding fat_view_def fat_vote_def eq by simp
  qed
qed

text \<open>The state between two operations of the table.\<close>

definition fat_open :: "'w read_fun \<Rightarrow> 'w write_fun \<Rightarrow> nat \<Rightarrow> fat_data \<Rightarrow> ('w, 'z) fat_state_scheme \<Rightarrow> bool" where
  "fat_open rd wr ssz fi s = (dsk_ready rd wr ssz s \<and> fatmap_lock s = NULL_LOCK \<and>
     (\<forall>a c. fat_cache s = Some (a, c) \<longrightarrow> length c = unat (total_clusters fi)) \<and>
     (\<forall>a bm. bitmap s = Some (a, bm) \<longrightarrow> bm_ok bm (unat (total_clusters fi))))"

definition fat_ready :: "'w read_fun \<Rightarrow> 'w write_fun \<Rightarrow> nat \<Rightarrow> fat_data \<Rightarrow> ('w, 'z) fat_state_scheme \<Rightarrow> bool" where
  "fat_ready rd wr ssz fi s = (fat_open rd wr ssz fi s \<and> fat_lock s = NULL_LOCK)"

text \<open>The cache and the bitmap after a cluster got a value.\<close>

definition cache_with :: "nat \<Rightarrow> u32 \<Rightarrow> (nat \<times> u32 list) option \<Rightarrow> (nat \<times> u32 list) option" where
  "cache_with c v = map_option (\<lambda>(a, vs). (a, vs[c := v]))"

definition bitmap_with :: "nat \<Rightarrow> u32 \<Rightarrow> (nat \<times> u32 list) option \<Rightarrow> (nat \<times> u32 list) option" where
  "bitmap_with c v = map_option (\<lambda>(a, bm). (a, bm[c div 32 :=
     if v = FAT_CLUSTER_FREE then bm ! (c div 32) AND NOT (push_bit (c mod 32) 1)
     else bm ! (c div 32) OR push_bit (c mod 32) 1]))"

lemma with_idem:
  "bitmap_with c x (bitmap_with c x b) = bitmap_with c x b"
  "cache_with c x (cache_with c x d) = cache_with c x d"
proof -
  have "bm[i := bm[i := bm ! i AND y] ! i AND y] = bm[i := bm ! i AND y]" for bm :: "u32 list" and i y
    by (cases "i < length bm") (simp_all add: and.assoc not_less list_update_beyond)
  moreover have "bm[i := bm[i := bm ! i OR y] ! i OR y] = bm[i := bm ! i OR y]" for bm :: "u32 list" and i y
    by (cases "i < length bm") (simp_all add: or.assoc not_less list_update_beyond)
  ultimately show "bitmap_with c x (bitmap_with c x b) = bitmap_with c x b"
    by (cases b) (auto simp: bitmap_with_def)
  show "cache_with c x (cache_with c x d) = cache_with c x d"
    by (cases d) (auto simp: cache_with_def)
qed

lemma mark_cluster_open:
  assumes "fat_open rd wr ssz fi s" and "ca < total_clusters fi"
  shows "\<exists>r. mark_cluster ca v s = Some (r, s\<lparr>bitmap := bitmap_with (unat ca) v (bitmap s)\<rparr>)"
proof (cases "bitmap s")
  case None
  then show ?thesis by (simp add: mark_cluster_def fatmap_set_def fatmap_unset_def bitmap_with_def)
next
  case (Some m)
  obtain a bm where m: "m = (a, bm)" by (cases m)
  have ok: "bm_ok bm (unat (total_clusters fi))" "fatmap_lock s = NULL_LOCK"
    using assms(1) Some m by (auto simp: fat_open_def)
  then have i: "unat ca div 32 < length bm"
    using assms(2) bm_ok_index[of bm "unat (total_clusters fi)" "unat ca"] by (simp add: word_less_nat_alt)
  show ?thesis using Some m ok i
    by (simp add: mark_cluster_def fatmap_set_def fatmap_unset_def bitmap_with_def bm_word_def BITS_PER_WORD_def bm_mask_def)
qed

lemma cache_put_open:
  "fat_open rd wr ssz fi s \<Longrightarrow> ca < total_clusters fi \<Longrightarrow>
     cache_put ca v s = Some ((), s\<lparr>fat_cache := cache_with (unat ca) v (fat_cache s)\<rparr>)"
  by (auto simp: cache_put_def cache_with_def fat_open_def word_less_nat_alt split: option.splits)

lemma fat_open_update [simp]:
  "fat_open rd wr ssz fi s \<Longrightarrow>
     fat_open rd wr ssz fi (s\<lparr>world := w, bitmap := bitmap_with c v (bitmap s), fat_cache := cache_with c' v' (fat_cache s)\<rparr>)"
  by (auto simp: fat_open_def cache_with_def bitmap_with_def bm_ok_def dsk_ready_def)

lemma fat_open_lock [simp]: "fat_open rd wr ssz fi (s\<lparr>fat_lock := l\<rparr>) = fat_open rd wr ssz fi s"
  by (simp add: fat_open_def dsk_ready_def)

lemma fat_open_world [simp]: "fat_open rd wr ssz fi (s\<lparr>world := w\<rparr>) = fat_open rd wr ssz fi s"
  by (simp add: fat_open_def)

lemma lock_fat_null [wp, simp]:
  "fat_lock s = NULL_LOCK \<Longrightarrow> lock_fat s = Some (1, s\<lparr>fat_lock := HELD\<rparr>)"
  by (simp add: lock_fat_def)

lemma unlock_fat_held [wp, simp]:
  "fat_lock s = HELD \<Longrightarrow> unlock_fat s = Some (1, s\<lparr>fat_lock := NULL_LOCK\<rparr>)"
  by (simp add: unlock_fat_def)

context block_device begin

lemma sectors_ok_wf: "wf w \<Longrightarrow> sectors_ok nsec ssz (secs w)"
  by (simp add: sectors_ok_def secs_length)

lemma write_fat_loop_put:
  assumes "fat_geom fi nsec ssz" "ca < total_clusters fi" "i + k \<le> unat (fat_count fi)"
    and "dsk_ready rd wr ssz s" "wf (world s)"
  shows "\<exists>w'. write_fat_loop k (int i) ca v fi 1 s = Some (1, s\<lparr>world := w'\<rparr>) \<and> wf w' \<and>
    secs w' = put_copies fi ssz (unat ca) (pack_bytes (bytes_of_u32 v)) i k (secs (world s))"
  using assms(3-5)
proof (induction k arbitrary: i s)
  case 0
  then show ?case by (intro exI[of _ "world s"]) simp
next
  case (Suc k)
  obtain w where w: "write_fat_copy ca v fi (int i) s = Some (1, s\<lparr>world := w\<rparr>)" "wf w"
    "secs w = put_slot ssz (secs (world s)) (fat_loc fi ssz i (unat ca)) (pack_bytes (bytes_of_u32 v))"
    using write_fat_copy_slot[OF assms(1) _ assms(2), of i s v] Suc.prems by auto
  obtain w' where "write_fat_loop k (int (Suc i)) ca v fi 1 (s\<lparr>world := w\<rparr>) = Some (1, s\<lparr>world := w'\<rparr>)" "wf w'"
    "secs w' = put_copies fi ssz (unat ca) (pack_bytes (bytes_of_u32 v)) (Suc i) k (secs w)"
    using Suc.IH[of "Suc i" "s\<lparr>world := w\<rparr>"] Suc.prems w(2) by auto
  then show ?case using w by (intro exI[of _ w']) (simp add: add.commute)
qed

lemma read_fat_loop_vote:
  assumes "fat_geom fi nsec ssz" "ca < total_clusters fi" "i + k \<le> unat (fat_count fi)"
    and "dsk_ready rd wr ssz s" "wf (world s)"
  shows "\<exists>w'. read_fat_loop k (int i) ca fi v s =
      Some (vote_all (map (\<lambda>j. fat_copy_val fi ssz (secs (world s)) j (unat ca)) [i..<i + k]) v, s\<lparr>world := w'\<rparr>) \<and>
    wf w' \<and> secs w' = secs (world s)"
  using assms(3-5)
proof (induction k arbitrary: i s v)
  case 0
  then show ?case by (intro exI[of _ "world s"]) simp
next
  case (Suc k)
  let ?x = "fat_copy_val fi ssz (secs (world s)) i (unat ca)"
  obtain w where w: "read_fat_copy ca fi (int i) s = Some (?x, s\<lparr>world := w\<rparr>)" "wf w" "secs w = secs (world s)"
    using read_fat_copy_val[OF assms(1) _ assms(2), of i s] Suc.prems by auto
  obtain w' where "read_fat_loop k (int (Suc i)) ca fi (fst (vote_step ?x v)) (s\<lparr>world := w\<rparr>) =
      Some (vote_all (map (\<lambda>j. fat_copy_val fi ssz (secs (world s)) j (unat ca)) [Suc i..<Suc i + k])
        (fst (vote_step ?x v)), s\<lparr>world := w'\<rparr>)" "wf w'" "secs w' = secs w"
    using Suc.IH[of "Suc i" "s\<lparr>world := w\<rparr>" "fst (vote_step ?x v)"] Suc.prems w(2,3)
    by (auto simp del: upt_Suc)
  then show ?case using w by (intro exI[of _ w']) (simp add: upt_conv_Cons add.commute del: upt_Suc)
qed

lemma fat_open_dsk: "fat_open rd wr ssz fi s \<Longrightarrow> dsk_ready rd wr ssz s"
  by (simp add: fat_open_def)

lemma write_fat_locked_open:
  assumes "fat_geom fi nsec ssz" "ca < total_clusters fi" "fat_open rd wr ssz fi s" "wf (world s)"
  shows "\<exists>w'. write_fat_locked ca v fi s = Some (1, s\<lparr>world := w', bitmap := bitmap_with (unat ca) v (bitmap s),
        fat_cache := cache_with (unat ca) v (fat_cache s)\<rparr>) \<and> wf w' \<and>
    secs w' = put_copies fi ssz (unat ca) (pack_bytes (bytes_of_u32 v)) 0 (unat (fat_count fi)) (secs (world s))"
proof -
  let ?s1 = "s\<lparr>fat_cache := cache_with (unat ca) v (fat_cache s)\<rparr>"
  let ?s2 = "s\<lparr>bitmap := bitmap_with (unat ca) v (bitmap s), fat_cache := cache_with (unat ca) v (fat_cache s)\<rparr>"
  have r1: "fat_open rd wr ssz fi ?s1"
    using assms(3) by (auto simp: fat_open_def cache_with_def dsk_ready_def)
  have "?s1\<lparr>bitmap := bitmap_with (unat ca) v (bitmap ?s1)\<rparr> = ?s2" by simp
  then obtain r where m: "mark_cluster ca v ?s1 = Some (r, ?s2)"
    using mark_cluster_open[OF r1 assms(2), of v] by auto
  have "dsk_ready rd wr ssz ?s2" using assms(3) by (simp add: fat_open_def dsk_ready_def)
  then obtain w' where w': "write_fat_loop (unat (fat_count fi)) (int 0) ca v fi 1 ?s2 = Some (1, ?s2\<lparr>world := w'\<rparr>)" "wf w'"
    "secs w' = put_copies fi ssz (unat ca) (pack_bytes (bytes_of_u32 v)) 0 (unat (fat_count fi)) (secs (world ?s2))"
    using write_fat_loop_put[OF assms(1,2), of 0 "unat (fat_count fi)" ?s2 v] assms(4) by auto
  then show ?thesis
    by (intro exI[of _ w']) (simp add: write_fat_locked_def cache_put_open[OF assms(3,2)] m)
qed

text \<open>A write reaches the abstract table, the cache and the bitmap, and releases the lock.\<close>

lemma write_fat_ready [spec]:
  assumes "fat_geom fi nsec ssz" "\<not> ca < ext_root_cluster fi" "ca < total_clusters fi"
    and "fat_ready rd wr ssz fi s" "wf (world s)"
  shows "\<exists>w'. write_fat ca v fi s = Some (1, s\<lparr>world := w', bitmap := bitmap_with (unat ca) v (bitmap s),
        fat_cache := cache_with (unat ca) v (fat_cache s)\<rparr>) \<and> wf w' \<and>
    secs w' = put_copies fi ssz (unat ca) (pack_bytes (bytes_of_u32 v)) 0 (unat (fat_count fi)) (secs (world s))"
proof -
  let ?h = "s\<lparr>fat_lock := HELD\<rparr>"
  have l: "fat_lock s = NULL_LOCK" and o: "fat_open rd wr ssz fi ?h"
    using assms(4) by (auto simp: fat_ready_def)
  obtain w' where "write_fat_locked ca v fi ?h = Some (1, ?h\<lparr>world := w', bitmap := bitmap_with (unat ca) v (bitmap s),
        fat_cache := cache_with (unat ca) v (fat_cache s)\<rparr>)" "wf w'"
    "secs w' = put_copies fi ssz (unat ca) (pack_bytes (bytes_of_u32 v)) 0 (unat (fat_count fi)) (secs (world s))"
    using write_fat_locked_open[OF assms(1,3) o, of v] assms(5) by auto
  moreover have "\<not> (ca < ext_root_cluster fi \<or> ca \<ge> total_clusters fi)" using assms(2,3) by auto
  ultimately show ?thesis using l
    by (intro exI[of _ w']) (simp add: write_fat_def)
qed

text \<open>A read returns the cached value, or the result of the vote; then it is cached and marked,
  and when the copies disagreed they all get it.\<close>

lemma read_fat_ready [spec]:
  assumes "fat_geom fi nsec ssz" "\<not> ca < ext_root_cluster fi" "ca < total_clusters fi"
    and "fat_ready rd wr ssz fi s" "wf (world s)"
  shows "\<exists>cached w'. cache_get ca s = Some cached \<and> wf w' \<and>
    (if cached \<noteq> FAT_CLUSTER_BAD then read_fat ca fi s = Some (cached, s)
     else let v = fat_vote fi ssz (secs (world s)) (unat ca); r = fst v in
       read_fat ca fi s = Some (r, s\<lparr>world := w', bitmap := bitmap_with (unat ca) r (bitmap s),
          fat_cache := cache_with (unat ca) r (fat_cache s)\<rparr>) \<and>
       secs w' = (if snd (snd v) > 0
         then put_copies fi ssz (unat ca) (pack_bytes (bytes_of_u32 r)) 0 (unat (fat_count fi)) (secs (world s))
         else secs (world s)))"
proof -
  let ?h = "s\<lparr>fat_lock := HELD\<rparr>" let ?v = "fat_vote fi ssz (secs (world s)) (unat ca)" let ?r = "fst ?v"
  have l: "fat_lock s = NULL_LOCK" and o: "fat_open rd wr ssz fi s" "fat_open rd wr ssz fi ?h"
    using assms(4) by (auto simp: fat_ready_def)
  obtain cached where c: "cache_get ca s = Some cached" "cache_get ca ?h = Some cached"
    using o(1) assms(3) by (cases "fat_cache s") (auto simp: cache_get_def fat_open_def word_less_nat_alt)
  have guard: "\<not> (ca < ext_root_cluster fi \<or> ca \<ge> total_clusters fi)" using assms(2,3) by auto
  show ?thesis
  proof (cases "cached \<noteq> FAT_CLUSTER_BAD")
    case True
    then have "read_fat ca fi s = Some (cached, s)"
      using c(2) l guard by (simp add: read_fat_def)
    then show ?thesis using True c(1) assms(5) by auto
  next
    case False
    obtain w1 where w1: "read_fat_loop (unat (fat_count fi)) (int 0) ca fi (vote_start FAT_CLUSTER_BAD) ?h =
        Some (?v, ?h\<lparr>world := w1\<rparr>)" "wf w1" "secs w1 = secs (world s)"
      using read_fat_loop_vote[OF assms(1,3), of 0 "unat (fat_count fi)" ?h "vote_start FAT_CLUSTER_BAD"] o assms(5)
      by (auto simp: fat_vote_def fat_open_def)
    let ?s2 = "?h\<lparr>world := w1, fat_cache := cache_with (unat ca) ?r (fat_cache s)\<rparr>"
    let ?s3 = "?h\<lparr>world := w1, bitmap := bitmap_with (unat ca) ?r (bitmap s), fat_cache := cache_with (unat ca) ?r (fat_cache s)\<rparr>"
    have put: "cache_put ca ?r (?h\<lparr>world := w1\<rparr>) = Some ((), ?s2)"
      using cache_put_open[of rd wr ssz fi "?h\<lparr>world := w1\<rparr>" ca ?r] o assms(3) by simp
    have o2: "fat_open rd wr ssz fi ?s2" using o(2) by (auto simp: fat_open_def cache_with_def dsk_ready_def)
    obtain q where mark: "mark_cluster ca ?r ?s2 = Some (q, ?s3)"
      using mark_cluster_open[OF o2 assms(3), of ?r] by auto
    have o3: "fat_open rd wr ssz fi ?s3"
      using o(2) by (auto simp: fat_open_def cache_with_def bitmap_with_def dsk_ready_def bm_ok_def)
    obtain w2 where w2: "write_fat_locked ca ?r fi ?s3 = Some (1, ?h\<lparr>world := w2,
        bitmap := bitmap_with (unat ca) ?r (bitmap s), fat_cache := cache_with (unat ca) ?r (fat_cache s)\<rparr>)" "wf w2"
      "secs w2 = put_copies fi ssz (unat ca) (pack_bytes (bytes_of_u32 ?r)) 0 (unat (fat_count fi)) (secs (world s))"
      using write_fat_locked_open[OF assms(1,3) o3, of ?r] w1 by (auto simp: with_idem)
    obtain val freq wrong where v: "?v = (val, freq, wrong)" by (cases ?v)
    have "read_fat ca fi s = Some (?r, s\<lparr>world := (if wrong > 0 then w2 else w1),
        bitmap := bitmap_with (unat ca) ?r (bitmap s), fat_cache := cache_with (unat ca) ?r (fat_cache s)\<rparr>)"
      using False c(2) l guard w1(1) put mark w2(1) v by (simp add: read_fat_def)
    then show ?thesis using False c(1) w1 w2 v
      by (intro exI[of _ cached] exI[of _ "if wrong > 0 then w2 else w1"]) (simp add: Let_def)
  qed
qed

end

end
