(* ===== verification/Table.thy ===== *)
theory Table
  imports Fat
begin

text \<open>
  The table as the rest of the code sees it: a map from clusters to values. The map is what
  \<open>read_fat\<close> returns for each cluster of a mounted volume, from the cache when it holds the
  cluster and otherwise from the vote over the copies; reading leaves it as it is and writing
  changes one point. The locale \<open>fat_table\<close> states this contract, the interpretation shows that
  \<open>read_fat\<close> and \<open>write_fat\<close> meet it, and the chain operations of \<open>Cluster\<close> rest on it.
\<close>

unbundle bit_operations_syntax

section \<open>The contract\<close>

locale fat_table =
  fixes rdf :: "u32 \<Rightarrow> 's \<Rightarrow> (u32 \<times> 's) option" and wrf :: "u32 \<Rightarrow> u32 \<Rightarrow> 's \<Rightarrow> (int \<times> 's) option"
    and table :: "'s \<Rightarrow> nat \<Rightarrow> u32" and ok :: "'s \<Rightarrow> bool" and frame :: "'s \<Rightarrow> 's \<Rightarrow> bool"
    and lo :: u32 and hi :: u32
  assumes read_ok: "ok s \<Longrightarrow> lo \<le> c \<Longrightarrow> c < hi \<Longrightarrow>
      \<exists>s'. rdf c s = Some (table s (unat c), s') \<and> ok s' \<and> (\<forall>d < unat hi. table s' d = table s d) \<and> frame s s'"
    and write_ok: "ok s \<Longrightarrow> lo \<le> c \<Longrightarrow> c < hi \<Longrightarrow> unat v < 2 ^ 28 \<Longrightarrow>
      \<exists>s'. wrf c v s = Some (1, s') \<and> ok s' \<and> (\<forall>d < unat hi. table s' d = ((table s)(unat c := v)) d) \<and> frame s s'"
    and frame_refl: "frame s s"
    and frame_trans: "frame s s' \<Longrightarrow> frame s' s'' \<Longrightarrow> frame s s''"
begin

text \<open>Two tables that agree on the clusters of the volume.\<close>

definition same :: "(nat \<Rightarrow> u32) \<Rightarrow> (nat \<Rightarrow> u32) \<Rightarrow> bool" where
  "same t u = (\<forall>d < unat hi. t d = u d)"

lemma same_refl [simp]: "same t t"
  by (simp add: same_def)

lemma same_trans: "same t u \<Longrightarrow> same u v \<Longrightarrow> same t v"
  by (simp add: same_def)

lemma same_upd: "same t u \<Longrightarrow> same (t(c := v)) (u(c := v))"
  by (simp add: same_def)

lemma same_at: "same t u \<Longrightarrow> c < hi \<Longrightarrow> t (unat c) = u (unat c)"
  by (simp add: same_def word_less_nat_alt)

lemma readE:
  assumes "ok s" "lo \<le> c" "c < hi"
  obtains s' where "rdf c s = Some (table s (unat c), s')" "ok s'" "same (table s') (table s)" "frame s s'"
  using read_ok[OF assms] by (auto simp: same_def)

lemma writeE:
  assumes "ok s" "lo \<le> c" "c < hi" "unat v < 2 ^ 28"
  obtains s' where "wrf c v s = Some (1, s')" "ok s'" "same (table s') ((table s)(unat c := v))" "frame s s'"
  using write_ok[OF assms] by (auto simp: same_def)

end

section \<open>The volume\<close>

text \<open>A mounted volume between two operations on its table. The copies sit on a device that honours
  its contract, aligned and without partial overlap (\<open>fat_geom\<close>).\<close>

definition vol_ok :: "'w read_fun \<Rightarrow> 'w write_fun \<Rightarrow> ('w \<Rightarrow> bool) \<Rightarrow> ('w \<Rightarrow> nat \<Rightarrow> byte list) \<Rightarrow> nat \<Rightarrow> nat \<Rightarrow>
    fat_data \<Rightarrow> ('w, 'z) fat_state_scheme \<Rightarrow> bool" where
  "vol_ok rd wr good secs nsec ssz fi s = (block_device rd wr good secs nsec ssz \<and> fat_geom fi nsec ssz \<and>
     fat_count fi \<noteq> 0 \<and> fat_ready rd wr ssz fi s \<and> good (world s))"

definition fat_of :: "('w \<Rightarrow> nat \<Rightarrow> byte list) \<Rightarrow> nat \<Rightarrow> fat_data \<Rightarrow> ('w, 'z) fat_state_scheme \<Rightarrow> nat \<Rightarrow> u32" where
  "fat_of secs ssz fi s c = (case fat_cache s of
     Some (a, vs) \<Rightarrow> if vs ! c \<noteq> FAT_CLUSTER_BAD then vs ! c else fat_view fi ssz (secs (world s)) c
   | None \<Rightarrow> fat_view fi ssz (secs (world s)) c)"

lemma cache_get_fat_of:
  assumes "fat_ready rd wr ssz fi s" "ca < total_clusters fi" "cache_get ca s = Some cached"
  shows "fat_of secs ssz fi s (unat ca) =
    (if cached \<noteq> FAT_CLUSTER_BAD then cached else fat_view fi ssz (secs (world s)) (unat ca))"
  using assms by (auto simp: fat_of_def cache_get_def split: option.splits prod.splits if_splits)

section \<open>The table meets the contract\<close>

text \<open>The sectors a write to the table can change.\<close>

definition fat_sectors :: "fat_data \<Rightarrow> nat \<Rightarrow> nat set" where
  "fat_sectors fi ssz = (\<Union>i < unat (fat_count fi). (\<lambda>c. fat_loc fi ssz i c div ssz) ` {..< unat (total_clusters fi)})"

lemma put_copies_outside:
  "c < unat (total_clusters fi) \<Longrightarrow> i + k \<le> unat (fat_count fi) \<Longrightarrow> x \<notin> fat_sectors fi ssz \<Longrightarrow>
     put_copies fi ssz c data i k sec x = sec x"
proof (induction k arbitrary: i sec)
  case (Suc k)
  then have "x \<noteq> fat_loc fi ssz i c div ssz" by (auto simp: fat_sectors_def)
  then show ?case using Suc by (simp add: put_slot_def)
qed simp

lemma mask28: "unat (v :: u32) < 2 ^ 28 \<Longrightarrow> v AND 0x0FFFFFFF = v"
proof -
  assume "unat v < 2 ^ 28"
  then have "unat (take_bit 28 v) = unat v" by (simp add: unsigned_take_bit_eq take_bit_nat_eq_self)
  then have "take_bit 28 v = v" by (simp only: word_unat_eq_iff)
  moreover have "(0x0FFFFFFF :: u32) = mask 28" by (simp add: mask_eq_exp_minus_1)
  ultimately show ?thesis by (simp add: take_bit_eq_mask)
qed

lemma with_other: "c \<noteq> d \<Longrightarrow> fat_of secs ssz fi (s\<lparr>fat_cache := cache_with c v (fat_cache s)\<rparr>) d = fat_of secs ssz fi s d"
  by (auto simp: fat_of_def cache_with_def split: option.splits)

lemma with_same:
  assumes "\<forall>a vs. fat_cache s = Some (a, vs) \<longrightarrow> c < length vs"
  shows "fat_of secs ssz fi (s\<lparr>fat_cache := cache_with c v (fat_cache s)\<rparr>) c =
    (if fat_cache s \<noteq> None \<and> v \<noteq> FAT_CLUSTER_BAD then v else fat_view fi ssz (secs (world s)) c)"
  using assms by (auto simp: fat_of_def cache_with_def split: option.splits)

text \<open>What a read leaves behind: the same table, the same state but for device, bitmap and cache,
  and no change outside the table's sectors.\<close>

definition fat_step :: "('w \<Rightarrow> nat \<Rightarrow> byte list) \<Rightarrow> nat \<Rightarrow> fat_data \<Rightarrow>
    ('w, 'z) fat_state_scheme \<Rightarrow> ('w, 'z) fat_state_scheme \<Rightarrow> bool" where
  "fat_step secs ssz fi s s' = (\<exists>w b c. s' = s\<lparr>world := w, bitmap := b, fat_cache := c\<rparr> \<and>
     (\<forall>x. x \<notin> fat_sectors fi ssz \<longrightarrow> secs w x = secs (world s) x))"

lemma fat_stepI:
  "(\<And>x. x \<notin> fat_sectors fi ssz \<Longrightarrow> secs w x = secs (world s) x) \<Longrightarrow>
     fat_step secs ssz fi s (s\<lparr>world := w, bitmap := b, fat_cache := c\<rparr>)"
  unfolding fat_step_def by blast

lemma fat_step_refl: "fat_step secs ssz fi s s"
  unfolding fat_step_def
  by (rule exI [of _ "world s"], rule exI [of _ "bitmap s"], rule exI [of _ "fat_cache s"]) simp

lemma fat_step_trans:
  assumes "fat_step secs ssz fi s s'" and "fat_step secs ssz fi s' s''"
  shows "fat_step secs ssz fi s s''"
proof -
  obtain w b c w' b' c' where
    "s' = s\<lparr>world := w, bitmap := b, fat_cache := c\<rparr>" "s'' = s'\<lparr>world := w', bitmap := b', fat_cache := c'\<rparr>"
    "\<forall>x. x \<notin> fat_sectors fi ssz \<longrightarrow> secs w x = secs (world s) x" "\<forall>x. x \<notin> fat_sectors fi ssz \<longrightarrow> secs w' x = secs w x"
    using assms by (auto simp: fat_step_def)
  then show ?thesis
    unfolding fat_step_def by (intro exI [of _ w'] exI [of _ b'] exI [of _ c']) simp
qed

lemma vote_all_among: "fst (vote_all xs v) \<in> insert (fst v) (set xs)"
proof (induction xs arbitrary: v)
  case (Cons x xs)
  have "fst (fst (vote_step x v)) \<in> {fst v, x}"
    by (cases v) (auto simp: vote_step_def Let_def)
  then show ?case using Cons [of "fst (vote_step x v)"] by auto
qed simp

lemma fat_vote_masked: "fst (fat_vote fi ssz sec c) AND 0x0FFFFFFF = fst (fat_vote fi ssz sec c)"
proof -
  have "fst (fat_vote fi ssz sec c) \<in> insert FAT_CLUSTER_BAD
      (set (map (\<lambda>i. fat_copy_val fi ssz sec i c) [0..<unat (fat_count fi)]))"
    using vote_all_among unfolding fat_vote_def vote_start_def by (metis fst_conv)
  then show ?thesis by (auto simp: fat_copy_val_def FAT_CLUSTER_BAD_def ac_simps)
qed

lemma fat_ready_update:
  "fat_ready rd wr ssz fi s \<Longrightarrow>
     fat_ready rd wr ssz fi (s\<lparr>world := w, bitmap := bitmap_with c v (bitmap s), fat_cache := cache_with c' v' (fat_cache s)\<rparr>)"
  by (simp add: fat_ready_def)

lemma cache_lengths: "fat_ready rd wr ssz fi s \<Longrightarrow> ca < total_clusters fi \<Longrightarrow>
    \<forall>a vs. fat_cache s = Some (a, vs) \<longrightarrow> unat ca < length vs"
  by (simp add: fat_ready_def fat_open_def word_less_nat_alt)

lemma read_fat_vol [spec]:
  assumes vol: "vol_ok rd wr good secs nsec ssz fi s" and lo: "ext_root_cluster fi \<le> ca" and hi: "ca < total_clusters fi"
  shows "\<exists>s'. read_fat ca fi s = Some (fat_of secs ssz fi s (unat ca), s') \<and> vol_ok rd wr good secs nsec ssz fi s' \<and>
    (\<forall>d < unat (total_clusters fi). fat_of secs ssz fi s' d = fat_of secs ssz fi s d) \<and> fat_step secs ssz fi s s'"
proof -
  have dev: "block_device rd wr good secs nsec ssz" and geom: "fat_geom fi nsec ssz" and n: "fat_count fi \<noteq> 0"
    and ready: "fat_ready rd wr ssz fi s" and w: "good (world s)"
    using vol by (simp_all add: vol_ok_def)
  have nlo: "\<not> ca < ext_root_cluster fi" using lo by simp
  have ca: "unat ca < unat (total_clusters fi)" using hi by (simp add: word_less_nat_alt)
  let ?v = "fat_vote fi ssz (secs (world s)) (unat ca)" and ?n = "unat (fat_count fi)"
  obtain cached w' where c: "cache_get ca s = Some cached" and w': "good w'"
    and r: "if cached \<noteq> FAT_CLUSTER_BAD then read_fat ca fi s = Some (cached, s)
     else let v = ?v; r = fst v in
       read_fat ca fi s = Some (r, s\<lparr>world := w', bitmap := bitmap_with (unat ca) r (bitmap s),
          fat_cache := cache_with (unat ca) r (fat_cache s)\<rparr>) \<and>
       secs w' = (if snd (snd v) > 0
         then put_copies fi ssz (unat ca) (pack_bytes (bytes_of_u32 r)) 0 ?n (secs (world s)) else secs (world s))"
    using block_device.read_fat_ready[OF dev geom nlo hi ready w] by blast
  note fo = cache_get_fat_of[OF ready hi c, of secs]
  show ?thesis
  proof (cases "cached = FAT_CLUSTER_BAD")
    case False
    then show ?thesis using r vol fo by (intro exI[of _ s]) (simp add: fat_step_refl)
  next
    case True
    let ?r = "fst ?v"
    let ?s' = "s\<lparr>world := w', bitmap := bitmap_with (unat ca) ?r (bitmap s), fat_cache := cache_with (unat ca) ?r (fat_cache s)\<rparr>"
    have rd': "read_fat ca fi s = Some (?r, ?s')"
      and sw: "secs w' = (if snd (snd ?v) > 0
         then put_copies fi ssz (unat ca) (pack_bytes (bytes_of_u32 ?r)) 0 ?n (secs (world s)) else secs (world s))"
      using r True by (simp_all add: Let_def)
    have sok: "sectors_ok nsec ssz (secs (world s))" using block_device.sectors_ok_wf[OF dev w] .
    have small: "?r AND 0x0FFFFFFF = ?r" by (rule fat_vote_masked)
    have view: "fat_view fi ssz (secs w') d = fat_view fi ssz (secs (world s)) d" if "d < unat (total_clusters fi)" for d
      using fat_view_put[OF geom ca sok n that, of ?r] sw small by (simp add: fat_view_def)
    have table: "fat_of secs ssz fi ?s' d = fat_of secs ssz fi s d" if "d < unat (total_clusters fi)" for d
    proof (cases "d = unat ca")
      case True
      have "fat_of secs ssz fi ?s' d = (if fat_cache s \<noteq> None \<and> ?r \<noteq> FAT_CLUSTER_BAD then ?r else fat_view fi ssz (secs w') d)"
        using with_same[of "?s'\<lparr>fat_cache := fat_cache s\<rparr>" d secs ssz fi ?r] cache_lengths[OF ready hi] True by simp
      also have "\<dots> = fat_of secs ssz fi s d"
        using fo \<open>cached = FAT_CLUSTER_BAD\<close> True view[OF that] by (simp add: fat_view_def)
      finally show ?thesis .
    next
      case False
      have "fat_of secs ssz fi ?s' d = fat_of secs ssz fi (s\<lparr>world := w'\<rparr>) d"
        using False by (auto simp: fat_of_def cache_with_def split: option.splits)
      also have "\<dots> = fat_of secs ssz fi s d" using view[OF that] by (auto simp: fat_of_def split: option.splits)
      finally show ?thesis .
    qed
    have "fat_step secs ssz fi s ?s'"
      using sw put_copies_outside[OF ca, of 0 ?n] by (intro fat_stepI) auto
    moreover have "vol_ok rd wr good secs nsec ssz fi ?s'"
      using dev geom n w' fat_ready_update[OF ready] by (simp add: vol_ok_def)
    ultimately show ?thesis using rd' table fo True by (intro exI[of _ ?s']) (simp add: fat_view_def)
  qed
qed

lemma write_fat_vol [spec]:
  assumes vol: "vol_ok rd wr good secs nsec ssz fi s" and lo: "ext_root_cluster fi \<le> ca" and hi: "ca < total_clusters fi"
    and small: "unat v < 2 ^ 28"
  shows "\<exists>s'. write_fat ca v fi s = Some (1, s') \<and> vol_ok rd wr good secs nsec ssz fi s' \<and>
    (\<forall>d < unat (total_clusters fi). fat_of secs ssz fi s' d = ((fat_of secs ssz fi s)(unat ca := v)) d) \<and>
    fat_step secs ssz fi s s'"
proof -
  have dev: "block_device rd wr good secs nsec ssz" and geom: "fat_geom fi nsec ssz" and n: "fat_count fi \<noteq> 0"
    and ready: "fat_ready rd wr ssz fi s" and w: "good (world s)"
    using vol by (simp_all add: vol_ok_def)
  have nlo: "\<not> ca < ext_root_cluster fi" using lo by simp
  have ca: "unat ca < unat (total_clusters fi)" using hi by (simp add: word_less_nat_alt)
  let ?n = "unat (fat_count fi)"
  obtain w' where wr': "write_fat ca v fi s = Some (1, s\<lparr>world := w', bitmap := bitmap_with (unat ca) v (bitmap s),
        fat_cache := cache_with (unat ca) v (fat_cache s)\<rparr>)" and w': "good w'"
    and sw: "secs w' = put_copies fi ssz (unat ca) (pack_bytes (bytes_of_u32 v)) 0 ?n (secs (world s))"
    using block_device.write_fat_ready[OF dev geom nlo hi ready w] by blast
  let ?s' = "s\<lparr>world := w', bitmap := bitmap_with (unat ca) v (bitmap s), fat_cache := cache_with (unat ca) v (fat_cache s)\<rparr>"
  have sok: "sectors_ok nsec ssz (secs (world s))" using block_device.sectors_ok_wf[OF dev w] .
  have mask: "v AND 0x0FFFFFFF = v" using small by (rule mask28)
  have view: "fat_view fi ssz (secs w') d = (if d = unat ca then v else fat_view fi ssz (secs (world s)) d)"
    if "d < unat (total_clusters fi)" for d
    using fat_view_put[OF geom ca sok n that, of v] sw mask by simp
  have table: "fat_of secs ssz fi ?s' d = ((fat_of secs ssz fi s)(unat ca := v)) d" if "d < unat (total_clusters fi)" for d
  proof (cases "d = unat ca")
    case True
    then show ?thesis
      using with_same[of "?s'\<lparr>fat_cache := fat_cache s\<rparr>" d secs ssz fi v] cache_lengths[OF ready hi] view[OF that] by simp
  next
    case False
    have "fat_of secs ssz fi ?s' d = fat_of secs ssz fi (s\<lparr>world := w'\<rparr>) d"
      using False by (auto simp: fat_of_def cache_with_def split: option.splits)
    also have "\<dots> = fat_of secs ssz fi s d" using view[OF that] False by (auto simp: fat_of_def split: option.splits)
    finally show ?thesis using False by simp
  qed
  have "fat_step secs ssz fi s ?s'"
    using sw put_copies_outside[OF ca, of 0 ?n] by (intro fat_stepI) auto
  moreover have "vol_ok rd wr good secs nsec ssz fi ?s'"
    using dev geom n w' fat_ready_update[OF ready] by (simp add: vol_ok_def)
  ultimately show ?thesis using wr' table by (intro exI[of _ ?s']) simp
qed

text \<open>The locale's contract, for any device and volume.\<close>

interpretation ft: fat_table "\<lambda>c. read_fat c fi" "\<lambda>c v. write_fat c v fi" "fat_of secs ssz fi"
    "vol_ok rd wr good secs nsec ssz fi" "fat_step secs ssz fi" "ext_root_cluster fi" "total_clusters fi"
  for rd wr good secs nsec ssz fi
proof unfold_locales
  show "\<exists>s'. read_fat c fi s = Some (fat_of secs ssz fi s (unat c), s') \<and> vol_ok rd wr good secs nsec ssz fi s' \<and>
      (\<forall>d < unat (total_clusters fi). fat_of secs ssz fi s' d = fat_of secs ssz fi s d) \<and> fat_step secs ssz fi s s'"
    if "vol_ok rd wr good secs nsec ssz fi s" "ext_root_cluster fi \<le> c" "c < total_clusters fi" for s c
    using read_fat_vol[OF that] by blast
  show "\<exists>s'. write_fat c v fi s = Some (1, s') \<and> vol_ok rd wr good secs nsec ssz fi s' \<and>
      (\<forall>d < unat (total_clusters fi). fat_of secs ssz fi s' d = ((fat_of secs ssz fi s)(unat c := v)) d) \<and>
      fat_step secs ssz fi s s'"
    if "vol_ok rd wr good secs nsec ssz fi s" "ext_root_cluster fi \<le> c" "c < total_clusters fi" "unat v < 2 ^ 28" for s c v
    using write_fat_vol[OF that] by blast
  show "fat_step secs ssz fi s s'' " if "fat_step secs ssz fi s s'" "fat_step secs ssz fi s' s''" for s s' s''
    using fat_step_trans[OF that] .
qed (rule fat_step_refl)

section \<open>A test volume\<close>

text \<open>The volume of the repository's unit test for entries, with three copies of the table instead of
  one, on the unit tests' device; no cache and no bitmap.\<close>

definition test_vol :: fat_data where
  "test_vol = fat_data_zero\<lparr>fat_size := 2, fat_count := 3, first_data_sector := 20, total_sectors := 128,
     total_clusters := 16, bytes_per_sector := 64, cluster_size := 128, sectors_per_cluster := 2,
     ext_root_cluster := 2, sectors_padd := 1\<rparr>"

definition fat_start :: "'z \<Rightarrow> (fake_world, 'z) fat_state_scheme" where
  "fat_start z = \<lparr>world = world disk0, mm_manager = mm_manager disk0, mm_heap = mm_heap disk0, mm_allocated = 0,
     malloc_lock = NULL_LOCK, disk_io = disk_io disk0, io_areas = idle_areas, io_lock = NULL_LOCK,
     errors_lock = NULL_LOCK, errors_ring = \<lparr>first_error = 1, err_current = 1, last_error = 1\<rparr>,
     bitmap = None, fatmap_lock = NULL_LOCK, fat_cache = None, fat_lock = NULL_LOCK, \<dots> = z\<rparr>"

definition fat0 :: "fake_world fat_state" where
  "fat0 = fat_start ()"

lemma test_vol_simps [simp]:
  "fat_count test_vol = 3" "total_sectors test_vol = 128" "total_clusters test_vol = 16" "bytes_per_sector test_vol = 64"
  "cluster_size test_vol = 128" "sectors_per_cluster test_vol = 2" "ext_root_cluster test_vol = 2"
  "sectors_padd test_vol = 1" "first_data_sector test_vol = 20" "journals_count test_vol = 0" "errors_count test_vol = 0"
  "entry_offset test_vol = 0"
  by (simp_all add: test_vol_def fat_data_zero_def)

lemma test_vol_bases: "fat_base test_vol 0 = 63" "fat_base test_vol 1 = 57" "fat_base test_vol 2 = 51"
  by (simp_all add: fat_base_def GET_FATSECTOR_def FAT_MULTIPLIER_def umod_def)

lemma test_vol_base_cases: "i < 3 \<Longrightarrow> fat_base test_vol i = 63 - 6 * i"
  using test_vol_bases by (auto simp: numeral_eq_Suc less_Suc_eq)

lemma less_3_cases: "(i :: nat) < 3 \<longleftrightarrow> i = 0 \<or> i = 1 \<or> i = 2"
  by auto

lemma test_vol_loc: "i < 3 \<Longrightarrow> fat_loc test_vol 64 i c = (63 - 6 * i) * 64 + c * 8"
  by (simp add: fat_loc_def test_vol_base_cases)

lemma test_vol_geom: "fat_geom test_vol TEST_SECTORS TEST_SECTOR_SIZE"
proof -
  have "\<forall>i < 3. fat_loc test_vol 64 i 16 \<le> 128 * 64" by (auto simp: test_vol_loc intro: order_trans[OF diff_le_self])
  moreover have "\<forall>i < 3. \<forall>j < 3. fat_base test_vol i = fat_base test_vol j \<or>
      fat_loc test_vol 64 i 16 \<le> fat_loc test_vol 64 j 0 \<or> fat_loc test_vol 64 j 16 \<le> fat_loc test_vol 64 i 0"
    unfolding less_3_cases by (intro allI impI; elim disjE; simp add: test_vol_loc)
  ultimately show ?thesis by (simp add: fat_geom_def TEST_SECTORS_def TEST_SECTOR_SIZE_def)
qed

lemma fat_start_ok: "vol_ok fake_read fake_write fake_ok fake_secs TEST_SECTORS TEST_SECTOR_SIZE test_vol (fat_start z)"
  using disk0_ready fake.block_device_axioms test_vol_geom
  by (simp add: vol_ok_def fat_ready_def fat_open_def fat_start_def disk0_def dsk_ready_def)

lemmas fat0_ok = fat_start_ok [of "()", folded fat0_def]

section \<open>Properties\<close>

text \<open>C1 (the table is a map). On a mounted volume \<open>read_fat\<close> and \<open>write_fat\<close> behave as lookup and
  update of one map from clusters to values, whatever the number of copies and whether or not the
  cache and the bitmap are in use: a read returns the entry and changes no entry, a write of a 28-bit
  value returns 1 and changes exactly that entry, and neither touches a sector outside the copies.\<close>

theorem fat_is_a_map:
  assumes "vol_ok rd wr good secs nsec ssz fi s" and "ext_root_cluster fi \<le> ca" "ca < total_clusters fi"
    and "unat v < 2 ^ 28"
  shows "\<exists>s' s''. read_fat ca fi s = Some (fat_of secs ssz fi s (unat ca), s') \<and>
    (\<forall>d < unat (total_clusters fi). fat_of secs ssz fi s' d = fat_of secs ssz fi s d) \<and>
    write_fat ca v fi s = Some (1, s'') \<and>
    (\<forall>d < unat (total_clusters fi). fat_of secs ssz fi s'' d = (if d = unat ca then v else fat_of secs ssz fi s d)) \<and>
    (\<forall>x. x \<notin> fat_sectors fi ssz \<longrightarrow> secs (world s') x = secs (world s) x \<and> secs (world s'') x = secs (world s) x)"
  using read_fat_vol[OF assms(1-3)] write_fat_vol[OF assms] by (fastforce simp: fat_step_def)

theorem fat_is_a_map_witness:
  "\<exists>s. write_fat 5 6 test_vol fat0 = Some (1, s) \<and> fat_of fake_secs TEST_SECTOR_SIZE test_vol s 5 = 6"
  using fat_is_a_map[OF fat0_ok, of 5 6] by auto

text \<open>A write is read back: a value written to an entry of a mounted volume is the value the next
  read of that entry returns, and a read of any other entry returns what it would have returned
  before.\<close>

theorem fat_write_read:
  assumes vol: "vol_ok rd wr good secs nsec ssz fi s" and ca: "ext_root_cluster fi \<le> ca" "ca < total_clusters fi"
    and cb: "ext_root_cluster fi \<le> cb" "cb < total_clusters fi" and "unat v < 2 ^ 28"
  shows "\<exists>s1 s2 s3. write_fat ca v fi s = Some (1, s1) \<and>
    read_fat cb fi s1 = Some (if cb = ca then v else fat_of secs ssz fi s (unat cb), s2) \<and>
    read_fat cb fi s = Some (fat_of secs ssz fi s (unat cb), s3)"
proof -
  obtain s1 where s1: "write_fat ca v fi s = Some (1, s1)" "vol_ok rd wr good secs nsec ssz fi s1"
    "\<forall>d < unat (total_clusters fi). fat_of secs ssz fi s1 d = ((fat_of secs ssz fi s)(unat ca := v)) d"
    using write_fat_vol[OF vol ca assms(6)] by blast
  obtain s2 s3 where "read_fat cb fi s1 = Some (fat_of secs ssz fi s1 (unat cb), s2)"
    "read_fat cb fi s = Some (fat_of secs ssz fi s (unat cb), s3)"
    using read_fat_vol[OF s1(2) cb] read_fat_vol[OF vol cb] by blast
  moreover have "fat_of secs ssz fi s1 (unat cb) = (if cb = ca then v else fat_of secs ssz fi s (unat cb))"
    using s1(3) cb(2) by (simp add: word_less_nat_alt word_unat_eq_iff)
  ultimately show ?thesis using s1(1) by simp
qed

theorem fat_write_read_witness:
  "\<exists>s1 s2 s3. write_fat 5 6 test_vol fat0 = Some (1, s1) \<and> read_fat 5 test_vol s1 = Some (6, s2) \<and>
     read_fat 5 test_vol fat0 = Some (s3)"
  using fat_write_read[OF fat0_ok, of 5 5 6] by auto

text \<open>C2 (a read repairs the table). When more than half of the copies of an entry decode to the same
  value, an uncached read returns that value. When moreover the first copy is not marked bad, every copy
  decodes to that value afterwards, and no sector changes when all copies agreed before; a first copy
  that is marked bad may leave a differing copy unrepaired.\<close>

theorem fat_read_heals:
  assumes vol: "vol_ok rd wr good secs nsec ssz fi s" and ca: "ext_root_cluster fi \<le> ca" "ca < total_clusters fi"
    and uncached: "cache_get ca s = Some FAT_CLUSTER_BAD"
    and vals: "vals = map (\<lambda>i. fat_copy_val fi ssz (secs (world s)) i (unat ca)) [0..<unat (fat_count fi)]"
    and maj: "length vals < 2 * count_list vals m"
  shows "\<exists>s'. read_fat ca fi s = Some (m, s') \<and>
    (hd vals \<noteq> FAT_CLUSTER_BAD \<longrightarrow>
      (\<forall>i < unat (fat_count fi). fat_copy_val fi ssz (secs (world s')) i (unat ca) = m) \<and>
      ((\<forall>x \<in> set vals. x = m) \<longrightarrow> secs (world s') = secs (world s)))"
proof -
  have dev: "block_device rd wr good secs nsec ssz" and geom: "fat_geom fi nsec ssz" and n: "fat_count fi \<noteq> 0"
    and ready: "fat_ready rd wr ssz fi s" and w: "good (world s)"
    using vol by (simp_all add: vol_ok_def)
  have nlo: "\<not> ca < ext_root_cluster fi" using ca by simp
  have cn: "unat ca < unat (total_clusters fi)" using ca by (simp add: word_less_nat_alt)
  let ?n = "unat (fat_count fi)" and ?data = "pack_bytes (bytes_of_u32 m)"
  let ?v = "fat_vote fi ssz (secs (world s)) (unat ca)"
  have "?n \<noteq> 0" using n by (simp add: unat_eq_0)
  then have hdtl: "vals = hd vals # tl vals" using vals by (cases vals) auto
  have vote: "?v = vote_all vals (vote_start FAT_CLUSTER_BAD)" by (simp add: fat_vote_def vals)
  have m: "fst ?v = m" unfolding vote using maj by (rule majority_wins)
  obtain s' where s': "read_fat ca fi s = Some (m, s')"
    "secs (world s') = (if 0 < snd (snd ?v) then put_copies fi ssz (unat ca) ?data 0 ?n (secs (world s)) else secs (world s))"
    using block_device.read_fat_ready[OF dev geom nlo ca(2) ready w] uncached m by (auto simp: Let_def)
  have small: "m AND 0x0FFFFFFF = m" using fat_vote_masked[of fi ssz "secs (world s)" "unat ca"] m by simp
  have wrong: "0 < snd (snd ?v) \<longleftrightarrow> (\<exists>x \<in> set vals. x \<noteq> m)" if "hd vals \<noteq> FAT_CLUSTER_BAD"
    unfolding vote by (rule wrong_iff_not_majority [OF hdtl that maj])
  have "fat_slot fi ssz (secs (world s')) i (unat ca) = ?data" if "i < ?n" "0 < snd (snd ?v)" for i
    using put_copies_props[OF geom cn, of ?data 0 ?n "secs (world s)"] that s'(2)
      block_device.sectors_ok_wf[OF dev w] by simp
  then have written: "fat_copy_val fi ssz (secs (world s')) i (unat ca) = m" if "i < ?n" "0 < snd (snd ?v)" for i
    using that get_u32_bytes[of m "[]"] small by (simp add: fat_copy_val_def)
  have kept: "fat_copy_val fi ssz (secs (world s')) i (unat ca) = m" if "i < ?n" "\<forall>x \<in> set vals. x = m" "\<not> 0 < snd (snd ?v)" for i
    using that by (simp add: s'(2) vals)
  show ?thesis using s' wrong written kept by (metis (no_types, lifting))
qed

text \<open>The first copy of entry 5 holds 9, the two others say free.\<close>

definition fat_hurt :: "fake_world fat_state" where
  "fat_hurt = fat0\<lparr>world := (world disk0)\<lparr>fk_disk := (fk_disk (world disk0))[63 :=
     splice (replicate 64 0) 40 (pack_bytes (bytes_of_u32 9))]\<rparr>\<rparr>"

lemma fat_hurt_ok: "vol_ok fake_read fake_write fake_ok fake_secs TEST_SECTORS TEST_SECTOR_SIZE test_vol fat_hurt"
proof -
  have "fake_ok (world fat_hurt)"
    by (auto simp: fat_hurt_def fake_ok_def disk0_def TEST_SECTORS_def TEST_SECTOR_SIZE_def
        dest!: set_update_subset_insert [THEN subsetD])
  then show ?thesis using fat0_ok by (simp add: vol_ok_def fat_ready_def fat_open_def dsk_ready_def fat_hurt_def)
qed

lemma fat_hurt_vals: "map (\<lambda>i. fat_copy_val test_vol TEST_SECTOR_SIZE (fake_secs (world fat_hurt)) i 5) [0..<3] = [9, 0, 0]"
proof -
  have "u16s_of_bytes (replicate 8 0) = replicate 4 0" by (simp add: numeral_eq_Suc u16_of_bytes_def)
  then have z: "unpack_bytes (replicate 8 0) = replicate 4 0"
    using unpack_zero [of 4] by (simp add: unpack_bytes_def)
  have s: "fat_slot test_vol TEST_SECTOR_SIZE (fake_secs (world fat_hurt)) 0 5 = pack_bytes (bytes_of_u32 9)"
    "fat_slot test_vol TEST_SECTOR_SIZE (fake_secs (world fat_hurt)) 1 5 = replicate 8 0"
    "fat_slot test_vol TEST_SECTOR_SIZE (fake_secs (world fat_hurt)) 2 5 = replicate 8 0"
    by (simp_all add: fat_slot_def slot_def fat_loc_def test_vol_bases test_vol_base_cases TEST_SECTOR_SIZE_def TEST_SECTORS_def
        fake_secs_def fat_hurt_def disk0_def splice_def)
  have v: "fat_copy_val test_vol TEST_SECTOR_SIZE (fake_secs (world fat_hurt)) 0 5 = 9"
    using get_u32_bytes [of 9 "[]"] by (simp add: fat_copy_val_def s)
  have "get_u32 (replicate 4 0) 0 = 0" by (simp add: get_u32_def u32_of_bytes_def eval_nat_numeral)
  then have "fat_copy_val test_vol TEST_SECTOR_SIZE (fake_secs (world fat_hurt)) 1 5 = 0"
    "fat_copy_val test_vol TEST_SECTOR_SIZE (fake_secs (world fat_hurt)) 2 5 = 0"
    using s (2, 3) z by (simp_all only: fat_copy_val_def) simp_all
  with v show ?thesis by (simp add: upt_rec numeral_eq_Suc)
qed

theorem fat_read_heals_witness:
  "\<exists>s. read_fat 5 test_vol fat_hurt = Some (0, s) \<and>
     (\<forall>i < 3. fat_copy_val test_vol TEST_SECTOR_SIZE (fake_secs (world s)) i 5 = 0)"
proof -
  have "cache_get 5 fat_hurt = Some FAT_CLUSTER_BAD" by (simp add: cache_get_def fat_hurt_def fat0_def fat_start_def)
  then show ?thesis
    using fat_read_heals[OF fat_hurt_ok, of 5 "[9, 0, 0]" 0] fat_hurt_vals
    by (simp add: FAT_CLUSTER_BAD_def)
qed

end
