(* ===== verification/Cluster.thy ===== *)
theory Cluster
  imports Table
begin

text \<open>
  Clusters, from \<open>src/cluster.c\<close> and \<open>include/nft32/cluster.h\<close>: allocation through the bitmap
  and the table, deallocation of single clusters and chains, and cluster I/O.
\<close>

unbundle bit_operations_syntax

section \<open>State\<close>

definition CLUSTER_OFFSET :: u32 where "CLUSTER_OFFSET = 128"
definition NO_CLUSTER_OFFSET :: u32 where "NO_CLUSTER_OFFSET = 0xDEADBEEF"

record 'w cluster_state = "'w fat_state" +
  allocater_lock :: lock_t
  last_allocated_cluster :: u32

definition lock_alloc :: "('w, 'z) cluster_state_scheme \<Rightarrow> (int \<times> ('w, 'z) cluster_state_scheme) option" where
  "lock_alloc s = (let (r, l) = THR_require_write (Some (allocater_lock s)) get_thread_num
     in Some (r, s\<lparr>allocater_lock := the l\<rparr>))"

definition unlock_alloc :: "('w, 'z) cluster_state_scheme \<Rightarrow> (int \<times> ('w, 'z) cluster_state_scheme) option" where
  "unlock_alloc s = (let (r, l) = THR_release_write (Some (allocater_lock s)) get_thread_num
     in Some (r, s\<lparr>allocater_lock := the l\<rparr>))"

section \<open>Allocation\<close>

definition get_cluster_count :: "u32 \<Rightarrow> fat_data \<Rightarrow> u32 option" where
  "get_cluster_count sz fi = udiv sz (sectors_per_cluster fi * bytes_per_sector fi)"

text \<open>\<open>entry_offset\<close> is a \<open>char\<close>, signed on the supported targets.\<close>

definition get_cluster_offset :: "fat_data \<Rightarrow>
    ('w, 'z) cluster_state_scheme \<Rightarrow> (u32 \<times> ('w, 'z) cluster_state_scheme) option" where
  "get_cluster_offset fi s =
    (if sint (entry_offset fi) = -1 then Some (NO_CLUSTER_OFFSET, s)
     else do {
       let n = last_allocated_cluster s + scast (entry_offset fi);
       off \<leftarrow> GET_CLUSTER_OFF n (total_clusters fi - ext_root_cluster fi);
       Some (off, s\<lparr>last_allocated_cluster := n\<rparr>) })"

text \<open>\<open>curr_offt\<close> points at the global counter or at the parameter; a store through it only
  outlives the call in the first case.\<close>

definition store_offset :: "u32 \<Rightarrow> u32 \<Rightarrow> ('w, 'z) cluster_state_scheme \<Rightarrow> ('w, 'z) cluster_state_scheme" where
  "store_offset offt v s = (if offt \<noteq> NO_CLUSTER_OFFSET then s else s\<lparr>last_allocated_cluster := v\<rparr>)"

definition take_cluster :: "fat_data \<Rightarrow> u32 \<Rightarrow> u32 \<Rightarrow>
    ('w, 'z) cluster_state_scheme \<Rightarrow> (u32 \<times> ('w, 'z) cluster_state_scheme) option" where
  "take_cluster fi offt cluster s = do {
     (r, s) \<leftarrow> write_fat cluster FAT_CLUSTER_RESERVED fi s;
     if r = 0 then do { (_, s) \<leftarrow> unlock_alloc s; Some (FAT_CLUSTER_BAD, s) }
     else do { (_, s) \<leftarrow> unlock_alloc (store_offset offt (cluster + 1) s); Some (cluster, s) } }"

text \<open>The scan over the table. \<open>step\<close> is \<open>nfree_skip_step\<close>; the cluster number is an
  \<open>unsigned int\<close> and could wrap, so termination is a property, not a matter of course.\<close>

partial_function (option) alloc_scan :: "fat_data \<Rightarrow> u32 \<Rightarrow> u32 \<Rightarrow> u32 \<Rightarrow>
    ('w, 'z) cluster_state_scheme \<Rightarrow> (u32 \<times> ('w, 'z) cluster_state_scheme) option" where
  "alloc_scan fi offt cluster step s =
    (if cluster < total_clusters fi then do {
       (cluster_status, s) \<leftarrow> read_fat cluster fi s;
       if is_cluster_free cluster_status then take_cluster fi offt cluster s
       else if is_cluster_bad cluster_status \<or> is_cluster_reserved cluster_status
       then alloc_scan fi offt (cluster + step + 1) (step + 1) s
       else alloc_scan fi offt (cluster + 1) step s }
     else do {
       (_, s) \<leftarrow> unlock_alloc (store_offset offt (ext_root_cluster fi) s);
       Some (FAT_CLUSTER_BAD, s) })"

definition alloc_cluster :: "fat_data \<Rightarrow> u32 \<Rightarrow>
    ('w, 'z) cluster_state_scheme \<Rightarrow> (u32 \<times> ('w, 'z) cluster_state_scheme) option" where
  "alloc_cluster fi offt s = do {
     (ok, s) \<leftarrow> lock_alloc s;
     if ok = 0 then do {
       (_, s) \<leftarrow> errors_register_error (errcode WRITELOCK_CLUSTER_ERROR) fi s;
       Some (FAT_CLUSTER_BAD, s) }
     else do {
       let cur_offt = (if offt \<noteq> NO_CLUSTER_OFFSET then offt else last_allocated_cluster s);
       (cluster, s) \<leftarrow> fatmap_find_free cur_offt 1 fi s;
       if cluster = 0 then alloc_scan fi offt cur_offt 0 s
       else do {
         (cluster_status, s) \<leftarrow> read_fat cluster fi s;
         if is_cluster_free cluster_status then take_cluster fi offt cluster s
         else alloc_scan fi offt cur_offt 0 s } } }"

section \<open>Deallocation\<close>

definition dealloc_cluster :: "u32 \<Rightarrow> fat_data \<Rightarrow>
    ('w, 'z) cluster_state_scheme \<Rightarrow> (int \<times> ('w, 'z) cluster_state_scheme) option" where
  "dealloc_cluster ca fi s = do {
     (cluster_status, s) \<leftarrow> read_fat ca fi s;
     if is_cluster_free cluster_status then Some (1, s)
     else do {
       (r, s) \<leftarrow> set_cluster_free ca fi s;
       if r \<noteq> 0 then Some (1, s)
       else do {
         (_, s) \<leftarrow> errors_register_error (errcode WRITE_FAT_ERROR) fi s;
         Some (0, s) } } }"

partial_function (option) dealloc_chain :: "u32 \<Rightarrow> fat_data \<Rightarrow>
    ('w, 'z) cluster_state_scheme \<Rightarrow> (int \<times> ('w, 'z) cluster_state_scheme) option" where
  "dealloc_chain ca fi s = do {
     (next_cluster, s) \<leftarrow> read_fat ca fi s;
     (r, s) \<leftarrow> dealloc_cluster ca fi s;
     if r = 0 then do {
       (_, s) \<leftarrow> errors_register_error (errcode CLUSTER_DEALLOCATION_ERROR) fi s;
       Some (0, s) }
     else if \<not> is_cluster_end next_cluster \<and> \<not> is_cluster_bad next_cluster \<and> \<not> is_cluster_free next_cluster
     then dealloc_chain next_cluster fi s
     else Some (1, s) }"

section \<open>Cluster I/O\<close>

definition cluster_sector :: "u32 \<Rightarrow> fat_data \<Rightarrow> u32" where
  "cluster_sector ca fi = (ca - ext_root_cluster fi) * ucast (ucast (sectors_per_cluster fi) :: u16) + first_data_sector fi"

definition readoff_cluster :: "u32 \<Rightarrow> u32 \<Rightarrow> byte list \<Rightarrow> int \<Rightarrow> fat_data \<Rightarrow>
    ('w, 'z) cluster_state_scheme \<Rightarrow> ((int \<times> byte list) \<times> ('w, 'z) cluster_state_scheme) option" where
  "readoff_cluster ca offset buffer buff_size fi s =
     DSK_readoff_sectors (cluster_sector ca fi) (int_of_u32 offset) buffer buff_size (int_of_u32 (sectors_per_cluster fi)) s"

definition read_cluster :: "u32 \<Rightarrow> byte list \<Rightarrow> int \<Rightarrow> fat_data \<Rightarrow>
    ('w, 'z) cluster_state_scheme \<Rightarrow> ((int \<times> byte list) \<times> ('w, 'z) cluster_state_scheme) option" where
  "read_cluster ca buffer buff_size fi s = readoff_cluster ca 0 buffer buff_size fi s"

definition writeoff_cluster :: "u32 \<Rightarrow> u32 \<Rightarrow> byte list \<Rightarrow> int \<Rightarrow> fat_data \<Rightarrow>
    ('w, 'z) cluster_state_scheme \<Rightarrow> (int \<times> ('w, 'z) cluster_state_scheme) option" where
  "writeoff_cluster ca offset data data_size fi s =
     DSK_writeoff_sectors (cluster_sector ca fi) (int_of_u32 offset) data data_size (int_of_u32 (sectors_per_cluster fi)) s"

definition write_cluster :: "u32 \<Rightarrow> byte list \<Rightarrow> int \<Rightarrow> fat_data \<Rightarrow>
    ('w, 'z) cluster_state_scheme \<Rightarrow> (int \<times> ('w, 'z) cluster_state_scheme) option" where
  "write_cluster ca data data_size fi s = writeoff_cluster ca 0 data data_size fi s"

definition copy_cluster :: "u32 \<Rightarrow> u32 \<Rightarrow> byte list \<Rightarrow> int \<Rightarrow> fat_data \<Rightarrow>
    ('w, 'z) cluster_state_scheme \<Rightarrow> ((int \<times> byte list) \<times> ('w, 'z) cluster_state_scheme) option" where
  "copy_cluster src dst buffer buff_size fi s =
     DSK_copy_sectors (cluster_sector src fi) (cluster_sector dst fi) (int_of_u32 (sectors_per_cluster fi)) buffer buff_size s"

end
