(* ===== verification/Checksum.thy ===== *)
theory Checksum
  imports Prelude
begin

text \<open>
  The checksum of \<open>std/checksum.c\<close>, MurmurHash3 (x86, 32 bit), used to validate
  directory entries and boot sectors and to hash entry names. The lemmas show that every mixing
  step is injective, so that two keys that differ only inside one aligned group of four bytes
  never collide.
\<close>

unbundle bit_operations_syntax

section \<open>The hash function\<close>

definition rotl32 :: "u32 \<Rightarrow> nat \<Rightarrow> u32" where
  "rotl32 x r = push_bit r x OR drop_bit (32 - r) x"

definition fmix32 :: "u32 \<Rightarrow> u32" where
  "fmix32 h =
    (let h = h XOR drop_bit 16 h;
         h = h * 0x85ebca6b;
         h = h XOR drop_bit 13 h;
         h = h * 0xc2b2ae35;
         h = h XOR drop_bit 16 h
     in h)"

definition mur_c1 :: u32 where "mur_c1 = 0xcc9e2d51"

definition mur_c2 :: u32 where "mur_c2 = 0x1b873593"

definition mur_k1 :: "u32 \<Rightarrow> u32" where
  "mur_k1 k1 =
    (let k1 = k1 * mur_c1;
         k1 = rotl32 k1 15;
         k1 = k1 * mur_c2
     in k1)"

definition mur_block :: "byte list \<Rightarrow> nat \<Rightarrow> u32 \<Rightarrow> u32" where
  "mur_block key i h1 =
    (let k1 = get_u32 key (4 * i);
         h1 = h1 XOR mur_k1 k1;
         h1 = rotl32 h1 13;
         h1 = h1 * 5 + 0xe6546b64
     in h1)"

text \<open>The \<open>switch\<close> on the remaining bytes falls through from case 3 to case 1.\<close>

definition mur_tail :: "byte list \<Rightarrow> u32 \<Rightarrow> u32 \<Rightarrow> u32" where
  "mur_tail tail rem h1 =
    (let k1 = 0;
         k1 = (if rem = 3 then k1 XOR push_bit 16 (ucast (tail ! 2)) else k1);
         k1 = (if rem = 3 \<or> rem = 2 then k1 XOR push_bit 8 (ucast (tail ! 1)) else k1)
     in if rem = 3 \<or> rem = 2 \<or> rem = 1 then
          (let k1 = k1 XOR ucast (tail ! 0) in h1 XOR mur_k1 k1)
        else h1)"

definition nft32_murmur3_x86_32 :: "byte list \<Rightarrow> u32 \<Rightarrow> u32 \<Rightarrow> u32" where
  "nft32_murmur3_x86_32 key len seed =
    (let nblocks = unat (len div 4);
         h1 = fold (mur_block key) [0..<nblocks] seed;
         h1 = mur_tail (drop (nblocks * 4) key) (len AND 3) h1;
         h1 = h1 XOR len
     in fmix32 h1)"

section \<open>Every step is injective\<close>

lemma bit_rotl32:
  assumes "0 < r" and "r < 32" and "n < 32"
  shows "bit (rotl32 x r) n = bit x (if n < r then 32 + n - r else n - r)"
proof (cases "n < r")
  case True
  with assms show ?thesis by (simp add: rotl32_def bit_simps add.commute)
next
  case False
  then have "\<not> bit x (32 + n - r)" using bit_imp_le_length [of x "32 + n - r"] by auto
  with False assms show ?thesis by (simp add: rotl32_def bit_simps add.commute)
qed

lemma rotl32_inject:
  assumes "0 < r" and "r < 32"
  shows "rotl32 x r = rotl32 y r \<longleftrightarrow> x = y"
proof
  assume eq: "rotl32 x r = rotl32 y r"
  show "x = y"
  proof (rule bit_word_eqI)
    fix m assume m: "m < LENGTH(32)"
    define n where "n = (if m + r < 32 then m + r else m + r - 32)"
    have n: "n < 32" and mn: "m = (if n < r then 32 + n - r else n - r)"
      using m assms by (auto simp: n_def)
    from eq have "bit (rotl32 x r) n = bit (rotl32 y r) n" by simp
    then show "bit x m = bit y m"
      using assms n mn by (simp add: bit_rotl32 split: if_splits)
  qed
qed simp

lemma mult_unit_inject:
  fixes c d x y :: u32
  assumes "c * d = 1"
  shows "x * c = y * c \<longleftrightarrow> x = y"
proof
  assume "x * c = y * c"
  then have "x * (c * d) = y * (c * d)" by (simp add: mult.assoc [symmetric])
  then show "x = y" using assms by simp
qed simp

lemma xor_cancel: "(a :: u32) XOR c = b XOR c \<longleftrightarrow> a = b"
  by (metis xor.assoc xor.right_neutral xor_self_eq)

lemma xorshift16_inject: "(x :: u32) XOR drop_bit 16 x = y XOR drop_bit 16 y \<longleftrightarrow> x = y"
proof
  have inv: "(z XOR drop_bit 16 z) XOR drop_bit 16 (z XOR drop_bit 16 z) = z" for z :: u32
    by (rule bit_word_eqI) (auto simp: bit_simps dest: bit_imp_le_length)
  assume "x XOR drop_bit 16 x = y XOR drop_bit 16 y"
  then show "x = y" using inv [of x] inv [of y] by simp
qed simp

lemma xorshift13_inject: "(x :: u32) XOR drop_bit 13 x = y XOR drop_bit 13 y \<longleftrightarrow> x = y"
proof
  have inv: "(z XOR drop_bit 13 z) XOR drop_bit 13 (z XOR drop_bit 13 z)
      XOR drop_bit 26 (z XOR drop_bit 13 z) = z" for z :: u32
    by (rule bit_word_eqI) (auto simp: bit_simps dest: bit_imp_le_length)
  assume "x XOR drop_bit 13 x = y XOR drop_bit 13 y"
  then show "x = y" using inv [of x] inv [of y] by simp
qed simp

lemma fmix32_inject: "fmix32 x = fmix32 y \<longleftrightarrow> x = y"
  by (simp add: fmix32_def Let_def xorshift16_inject xorshift13_inject
      mult_unit_inject [where d = "0xa5cb9243"] mult_unit_inject [where d = "0x7ed1b41d"])

lemma mur_k1_inject: "mur_k1 x = mur_k1 y \<longleftrightarrow> x = y"
  by (simp add: mur_k1_def mur_c1_def mur_c2_def Let_def rotl32_inject
      mult_unit_inject [where d = "0xdee13bb1"] mult_unit_inject [where d = "0x56ed309b"])

lemma mur_block_inject: "mur_block key i x = mur_block key i y \<longleftrightarrow> x = y"
  by (simp add: mur_block_def Let_def rotl32_inject xor_cancel mult_unit_inject [where d = "0xcccccccd"])

lemma mur_block_key_inject:
  "mur_block key i h = mur_block key' i h \<longleftrightarrow> get_u32 key (4 * i) = get_u32 key' (4 * i)"
  by (simp add: mur_block_def Let_def rotl32_inject xor_cancel mur_k1_inject
      mult_unit_inject [where d = "0xcccccccd"] xor.commute [of h])

lemma fold_mur_block_inject:
  "fold (mur_block key) is x = fold (mur_block key) is y \<longleftrightarrow> x = y"
  by (induction "is" arbitrary: x y) (auto simp: mur_block_inject)

lemma fold_mur_block_cong:
  "(\<And>i. i \<in> set is \<Longrightarrow> get_u32 key (4 * i) = get_u32 key' (4 * i)) \<Longrightarrow>
   fold (mur_block key) is x = fold (mur_block key') is x"
proof (induction "is" arbitrary: x)
  case (Cons i "is")
  then have "mur_block key i x = mur_block key' i x" by (simp add: mur_block_key_inject)
  with Cons show ?case by simp
qed simp

lemma u32_tail:
  "push_bit 16 (ucast (c :: byte)) XOR push_bit 8 (ucast (b :: byte)) XOR ucast (a :: byte) = u32_of_bytes a b c 0"
  "push_bit 8 (ucast b) XOR ucast a = u32_of_bytes a b 0 0"
  "ucast a = u32_of_bytes a 0 0 0"
proof -
  have out: "\<not> bit (x :: byte) m" if "8 \<le> m" for x m
    using that bit_imp_le_length [of x m] by auto
  have bits: "bit (push_bit 16 (ucast c) XOR push_bit 8 (ucast b) XOR ucast a :: u32) n
      = bit (u32_of_bytes a b c 0) n" if "n < 32" for n
    using that by (cases "n < 8"; cases "n < 16"; cases "n < 24") (auto simp: bit_simps bit_u32_of_bytes out)
  then show c3: "push_bit 16 (ucast c) XOR push_bit 8 (ucast b) XOR ucast a = u32_of_bytes a b c 0"
    by (intro bit_word_eqI) simp
  show "push_bit 8 (ucast b) XOR ucast a = u32_of_bytes a b 0 0"
    by (rule bit_word_eqI, rename_tac n, case_tac "n < 8"; case_tac "n < 16")
      (auto simp: bit_simps bit_u32_of_bytes out)
  show "ucast a = u32_of_bytes a 0 0 0"
    by (rule bit_word_eqI) (auto simp: bit_simps bit_u32_of_bytes out)
qed

lemma u32_tail_inject:
  "(push_bit 16 (ucast (c :: byte) :: u32) XOR push_bit 8 (ucast (b :: byte))) XOR ucast (a :: byte)
     = (push_bit 16 (ucast (c' :: byte)) XOR push_bit 8 (ucast (b' :: byte))) XOR ucast (a' :: byte)
   \<longleftrightarrow> a = a' \<and> b = b' \<and> c = c'"
  "push_bit 8 (ucast b :: u32) XOR ucast a = push_bit 8 (ucast b') XOR ucast a' \<longleftrightarrow> a = a' \<and> b = b'"
  "(ucast a :: u32) = ucast a' \<longleftrightarrow> a = a'"
    apply (simp only: xor.assoc u32_tail(1) u32_of_bytes_inject simp_thms)
   apply (simp only: u32_tail(2) u32_of_bytes_inject simp_thms)
  apply (simp only: u32_tail(3) u32_of_bytes_inject simp_thms)
  done

lemma mur_tail_inject: "mur_tail t r x = mur_tail t r y \<longleftrightarrow> x = y"
  by (simp add: mur_tail_def Let_def xor_cancel)

lemma len_and_3: "unat (len AND 3 :: u32) = unat len mod 4"
proof -
  have "len AND 3 = take_bit 2 len" by (simp add: take_bit_eq_mask mask_eq_exp_minus_1)
  then show ?thesis by (simp only: unsigned_take_bit_eq) (simp add: take_bit_eq_mod)
qed

lemma mur_tail_differs:
  assumes r: "unat rem < 4" and k: "k < unat rem" and ne: "t ! k \<noteq> t' ! k"
  shows "mur_tail t rem h \<noteq> mur_tail t' rem h"
proof -
  have xc: "h XOR a = h XOR b \<longleftrightarrow> a = b" for a b :: u32
    by (metis xor_cancel xor.commute)
  from r k consider "rem = 1" "k = 0" | "rem = 2" "k = 0 \<or> k = 1" | "rem = 3" "k = 0 \<or> k = 1 \<or> k = 2"
  proof -
    have "unat rem = 1 \<or> unat rem = 2 \<or> unat rem = 3" using r k by linarith
    then have "rem = 1 \<or> rem = 2 \<or> rem = 3"
      by (simp add: word_unat_eq_iff)
    with k that show ?thesis by fastforce
  qed
  then show ?thesis
    using ne by cases (auto simp: mur_tail_def Let_def xc mur_k1_inject u32_tail_inject)
qed

section \<open>No collision inside one aligned group\<close>

lemma murmur_detects_group:
  assumes len: "length key = unat len" "length key' = unat len"
    and same: "\<And>k. k < unat len \<Longrightarrow> k div 4 \<noteq> j \<Longrightarrow> key ! k = key' ! k"
    and ne: "key \<noteq> key'"
  shows "nft32_murmur3_x86_32 key len seed \<noteq> nft32_murmur3_x86_32 key' len seed"
proof -
  define nb where "nb = unat (len div 4)"
  have nb: "nb = unat len div 4" by (simp add: nb_def unat_div)
  obtain k where k: "k < unat len" "key ! k \<noteq> key' ! k"
    using ne len by (metis nth_equalityI)
  then have kj: "k div 4 = j" using same by blast
  have block_eq: "get_u32 key (4 * i) = get_u32 key' (4 * i)" if "i < nb" "i \<noteq> j" for i
    using that by (simp add: get_u32_def nb same)
  have "mur_tail (drop (nb * 4) key) (len AND 3) (fold (mur_block key) [0..<nb] seed)
      \<noteq> mur_tail (drop (nb * 4) key') (len AND 3) (fold (mur_block key') [0..<nb] seed)"
  proof (cases "j < nb")
    case True
    have tl: "drop (nb * 4) key = drop (nb * 4) key'"
      using len True by (intro nth_equalityI) (auto simp: same nb)
    have sp: "[0..<nb] = [0..<j] @ j # [Suc j..<nb]"
      using True by (metis le0 less_imp_le_nat upt_add_eq_append upt_conv_Cons le_add_diff_inverse add_0)
    have "key ! (4 * j) \<noteq> key' ! (4 * j) \<or> key ! (4 * j + 1) \<noteq> key' ! (4 * j + 1) \<or>
        key ! (4 * j + 2) \<noteq> key' ! (4 * j + 2) \<or> key ! (4 * j + 3) \<noteq> key' ! (4 * j + 3)"
    proof -
      have "k = 4 * j + k mod 4" using kj by auto
      moreover have "k mod 4 = 0 \<or> k mod 4 = 1 \<or> k mod 4 = 2 \<or> k mod 4 = 3" by linarith
      ultimately show ?thesis using k(2) by (metis add_0_right)
    qed
    then have "get_u32 key (4 * j) \<noteq> get_u32 key' (4 * j)" by (auto simp: get_u32_def)
    moreover have "fold (mur_block key) [0..<j] x = fold (mur_block key') [0..<j] x" for x
      using True by (intro fold_mur_block_cong) (auto intro: block_eq)
    then have "fold (mur_block key) [0..<nb] seed =
        fold (mur_block key) [Suc j..<nb] (mur_block key j (fold (mur_block key') [0..<j] seed))"
      by (subst sp) simp
    moreover have "fold (mur_block key) [Suc j..<nb] x = fold (mur_block key') [Suc j..<nb] x" for x
      by (intro fold_mur_block_cong) (auto intro: block_eq)
    moreover have "fold (mur_block key') [0..<nb] seed =
        fold (mur_block key') [Suc j..<nb] (mur_block key' j (fold (mur_block key') [0..<j] seed))"
      by (subst sp) simp
    ultimately show ?thesis
      by (simp only: tl mur_tail_inject fold_mur_block_inject mur_block_key_inject) simp
  next
    case False
    then have kt: "4 * nb \<le> k" "k - 4 * nb < unat (len AND 3)"
    proof -
      have "4 * (L div 4) \<le> k' \<and> k' - 4 * (L div 4) < L mod 4" if "k' < L" "\<not> k' div 4 < L div 4" for k' L :: nat
        using that div_mult_mod_eq [of L 4] div_mult_mod_eq [of k' 4] by linarith
      from this [of k "unat len"] show "4 * nb \<le> k" "k - 4 * nb < unat (len AND 3)"
        using kj k(1) False by (simp_all add: len_and_3 nb)
    qed
    have "fold (mur_block key) [0..<nb] seed = fold (mur_block key') [0..<nb] seed"
      using False by (intro fold_mur_block_cong) (auto intro: block_eq)
    moreover have "mur_tail (drop (nb * 4) key) (len AND 3) x \<noteq> mur_tail (drop (nb * 4) key') (len AND 3) x" for x
      using kt k len by (intro mur_tail_differs [where k = "k - 4 * nb"]) (auto simp: len_and_3 mult.commute)
    ultimately show ?thesis by simp
  qed
  then show ?thesis
    unfolding nb_def by (simp only: nft32_murmur3_x86_32_def Let_def fmix32_inject xor_cancel) simp
qed

text \<open>The values the repository's own unit test expects.\<close>

lemma murmur_vectors:
  "nft32_murmur3_x86_32 [] 0 0 = 0"
  "nft32_murmur3_x86_32 [104, 101, 108, 108, 111] 5 0 = 0x248BFA47"
  "nft32_murmur3_x86_32 [78, 73, 70, 65, 84, 51, 50] 7 123 = 0xE5D8AC74"
  by code_simp+

section \<open>Properties\<close>

text \<open>C25 (the checksum sees every corruption of one aligned group). Two buffers of the same length
  that agree outside one aligned group of four bytes and differ inside it have different checksums:
  no corruption confined to one such group of an entry, a journal record or a boot sector is missed.\<close>

theorem checksum_detects_group:
  assumes "length key = unat len" "length key' = unat len"
    and "\<And>k. k < unat len \<Longrightarrow> k div 4 \<noteq> j \<Longrightarrow> key ! k = key' ! k" and "key \<noteq> key'"
  shows "nft32_murmur3_x86_32 key len seed \<noteq> nft32_murmur3_x86_32 key' len seed"
  using assms by (rule murmur_detects_group)

text \<open>All four bytes of the second group changed.\<close>

theorem checksum_detects_group_witness:
  "nft32_murmur3_x86_32 [1, 2, 3, 4, 5, 6, 7, 8, 9] 9 0 \<noteq> nft32_murmur3_x86_32 [1, 2, 3, 4, 0, 0, 0, 0, 9] 9 0"
proof -
  have eq: "[1, 2, 3, 4, 5, 6, 7, 8, 9 :: byte] ! k = [1, 2, 3, 4, 0, 0, 0, 0, 9] ! k" if "k < 9" "k div 4 \<noteq> 1" for k
  proof -
    have "k = 0 \<or> k = 1 \<or> k = 2 \<or> k = 3 \<or> k = 8" using that by presburger
    then show ?thesis by (elim disjE) simp_all
  qed
  show ?thesis
  proof (rule checksum_detects_group [where j = 1])
    show "[1, 2, 3, 4, 5, 6, 7, 8, 9 :: byte] ! k = [1, 2, 3, 4, 0, 0, 0, 0, 9] ! k"
      if "k < unat (9 :: u32)" "k div 4 \<noteq> 1" for k
      using that by (intro eq) simp_all
  qed simp_all
qed

end
