(* ===== verification/Journal.thy ===== *)
theory Journal
  imports Cluster Checksum
begin

text \<open>
  The journal of directory changes, from \<open>src/journal.c\<close> and \<open>include/nft32/journal.h\<close>. The
  packed C structs are records with their byte layout written out; the fields the code leaves
  uninitialised are parameters.
\<close>

unbundle bit_operations_syntax

section \<open>Records\<close>

record unsqueezed_entry =
  ue_file_name :: "byte list"
  ue_name_hash :: u32
  ue_attributes :: byte
  ue_rca :: u32
  ue_dca :: u32
  ue_file_size :: u32
  ue_checksum :: u32

record squeezed_entry =
  sq_file_name :: "byte list"
  sq_attributes :: byte
  sq_rca :: u32
  sq_dca :: u32
  sq_file_size :: u32

record journal_entry =
  je_op :: byte
  je_ca :: u32
  je_offset :: byte
  je_entry :: squeezed_entry
  je_checksum :: u32

definition NO_OP :: byte where "NO_OP = 0x00"
definition ADD_OP :: byte where "ADD_OP = 0x01"
definition EDIT_OP :: byte where "EDIT_OP = 0x02"
definition DEL_OP :: byte where "DEL_OP = 0x03"

definition sizeof_entry :: nat where "sizeof_entry = 32"
definition sizeof_journal_entry :: nat where "sizeof_journal_entry = 34"

definition bytes_of_ue :: "unsqueezed_entry \<Rightarrow> byte list" where
  "bytes_of_ue e = ue_file_name e @ bytes_of_u32 (ue_name_hash e) @ [ue_attributes e] @ bytes_of_u32 (ue_rca e)
     @ bytes_of_u32 (ue_dca e) @ bytes_of_u32 (ue_file_size e) @ bytes_of_u32 (ue_checksum e)"

definition ue_of_bytes :: "byte list \<Rightarrow> unsqueezed_entry" where
  "ue_of_bytes bs = \<lparr>ue_file_name = take 11 bs, ue_name_hash = get_u32 bs 11, ue_attributes = bs ! 15,
     ue_rca = get_u32 bs 16, ue_dca = get_u32 bs 20, ue_file_size = get_u32 bs 24, ue_checksum = get_u32 bs 28\<rparr>"

definition bytes_of_sq :: "squeezed_entry \<Rightarrow> byte list" where
  "bytes_of_sq e = sq_file_name e @ [sq_attributes e] @ bytes_of_u32 (sq_rca e) @ bytes_of_u32 (sq_dca e)
     @ bytes_of_u32 (sq_file_size e)"

definition sq_of_bytes :: "byte list \<Rightarrow> squeezed_entry" where
  "sq_of_bytes bs = \<lparr>sq_file_name = take 11 bs, sq_attributes = bs ! 11, sq_rca = get_u32 bs 12,
     sq_dca = get_u32 bs 16, sq_file_size = get_u32 bs 20\<rparr>"

definition bytes_of_je :: "journal_entry \<Rightarrow> byte list" where
  "bytes_of_je e = [je_op e] @ bytes_of_u32 (je_ca e) @ [je_offset e] @ bytes_of_sq (je_entry e) @ bytes_of_u32 (je_checksum e)"

definition je_of_bytes :: "byte list \<Rightarrow> journal_entry" where
  "je_of_bytes bs = \<lparr>je_op = bs ! 0, je_ca = get_u32 bs 1, je_offset = bs ! 5,
     je_entry = sq_of_bytes (take 24 (drop 6 bs)), je_checksum = get_u32 bs 30\<rparr>"

definition journal_zero :: journal_entry where
  "journal_zero = je_of_bytes (replicate sizeof_journal_entry 0)"

section \<open>State\<close>

text \<open>\<open>stack_journal\<close> and \<open>stack_word\<close> are what uninitialised locals of the code hold. Nothing
  changes them, and no property assumes anything of them.\<close>

record 'w journal_state = "'w cluster_state" +
  journal_index :: byte
  journal_lock :: lock_t
  stack_journal :: journal_entry
  stack_word :: u32

definition lock_journal :: "('w, 'z) journal_state_scheme \<Rightarrow> (int \<times> ('w, 'z) journal_state_scheme) option" where
  "lock_journal s = (let (r, l) = THR_require_write (Some (journal_lock s)) get_thread_num
     in Some (r, s\<lparr>journal_lock := the l\<rparr>))"

definition unlock_journal :: "('w, 'z) journal_state_scheme \<Rightarrow> (int \<times> ('w, 'z) journal_state_scheme) option" where
  "unlock_journal s = (let (r, l) = THR_release_write (Some (journal_lock s)) get_thread_num
     in Some (r, s\<lparr>journal_lock := the l\<rparr>))"

section \<open>One copy\<close>

definition write_journal_copy :: "int \<Rightarrow> journal_entry \<Rightarrow> fat_data \<Rightarrow> int \<Rightarrow>
    ('w, 'z) journal_state_scheme \<Rightarrow> (int \<times> ('w, 'z) journal_state_scheme) option" where
  "write_journal_copy index e fi journal s = do {
     let entry_buffer = replicate sizeof_journal_entry 0;
     let off = u32_of_int (index * int (2 * sizeof_journal_entry));
     let entry_buffer = nft32_pack_memory (bytes_of_je e) entry_buffer sizeof_journal_entry;
     sa \<leftarrow> GET_JOURNALSECTOR (u32_of_int journal) (total_sectors fi);
     (r, s) \<leftarrow> DSK_writeoff_sectors sa (int_of_u32 off) (bytes_of_u16s entry_buffer)
       (int (2 * sizeof_journal_entry)) 1 s;
     if r = 0 then do {
       (_, s) \<leftarrow> errors_register_error (errcode JOURNAL_WRITE_ERROR) fi s;
       Some (0, s) }
     else Some (1, s) }"

text \<open>On failure the caller's entry is left as it was.\<close>

definition read_journal_copy :: "int \<Rightarrow> journal_entry \<Rightarrow> fat_data \<Rightarrow> int \<Rightarrow>
    ('w, 'z) journal_state_scheme \<Rightarrow> ((int \<times> journal_entry) \<times> ('w, 'z) journal_state_scheme) option" where
  "read_journal_copy index e fi journal s = do {
     let entry_buffer = replicate (2 * sizeof_journal_entry) 0;
     let off = u32_of_int (index * int (2 * sizeof_journal_entry));
     sa \<leftarrow> GET_JOURNALSECTOR (u32_of_int journal) (total_sectors fi);
     ((r, entry_buffer), s) \<leftarrow> DSK_readoff_sectors sa (int_of_u32 off) entry_buffer
       (int (2 * sizeof_journal_entry)) 1 s;
     if r = 0 then do {
       (_, s) \<leftarrow> errors_register_error (errcode JOURNAL_READ_ERROR) fi s;
       Some ((0, e), s) }
     else Some ((1, je_of_bytes (unpack_bytes entry_buffer)), s) }"

section \<open>All copies\<close>

primrec write_journal_loop :: "nat \<Rightarrow> int \<Rightarrow> int \<Rightarrow> journal_entry \<Rightarrow> fat_data \<Rightarrow>
    ('w, 'z) journal_state_scheme \<Rightarrow> (int \<times> ('w, 'z) journal_state_scheme) option" where
  "write_journal_loop 0 i index e fi s = Some (1, s)"
| "write_journal_loop (Suc k) i index e fi s = do {
     (_, s) \<leftarrow> write_journal_copy index e fi i s;
     write_journal_loop k (i + 1) index e fi s }"

definition write_journal :: "int \<Rightarrow> journal_entry \<Rightarrow> fat_data \<Rightarrow>
    ('w, 'z) journal_state_scheme \<Rightarrow> (int \<times> ('w, 'z) journal_state_scheme) option" where
  "write_journal index e fi s = write_journal_loop (unat (journals_count fi)) 0 index e fi s"

primrec read_journal_loop :: "nat \<Rightarrow> int \<Rightarrow> int \<Rightarrow> fat_data \<Rightarrow> u32 vote \<Rightarrow> int \<Rightarrow>
    ('w, 'z) journal_state_scheme \<Rightarrow> ((u32 vote \<times> int) \<times> ('w, 'z) journal_state_scheme) option" where
  "read_journal_loop 0 i index fi v copy_pos s = Some ((v, copy_pos), s)"
| "read_journal_loop (Suc k) i index fi v copy_pos s = do {
     ((_, c), s) \<leftarrow> read_journal_copy index journal_zero fi i s;
     let (v, replaced) = vote_step (je_checksum c) v;
     read_journal_loop k (i + 1) index fi v (if replaced then i else copy_pos) s }"

definition read_journal :: "int \<Rightarrow> journal_entry \<Rightarrow> fat_data \<Rightarrow>
    ('w, 'z) journal_state_scheme \<Rightarrow> ((int \<times> journal_entry) \<times> ('w, 'z) journal_state_scheme) option" where
  "read_journal index e fi s = do {
     (((_, _, wrong), copy_pos), s) \<leftarrow>
       read_journal_loop (unat (journals_count fi)) 0 index fi (vote_start (-1)) (-1) s;
     if copy_pos < 0 then Some ((0, e), s)
     else do {
       ((_, e), s) \<leftarrow> read_journal_copy index e fi copy_pos s;
       (_, s) \<leftarrow> (if wrong > 0 then write_journal index e fi s else Some (0, s));
       Some ((1, e), s) } }"

section \<open>Squeezing\<close>

definition squeeze_entry :: "unsqueezed_entry \<Rightarrow> squeezed_entry" where
  "squeeze_entry src = \<lparr>sq_file_name = ue_file_name src, sq_attributes = ue_attributes src,
     sq_rca = ue_rca src, sq_dca = ue_dca src, sq_file_size = ue_file_size src\<rparr>"

text \<open>The checksum is computed over the whole destination, whose checksum field (\<open>junk\<close>) is
  whatever the destination held.\<close>

definition unsqueeze_entry :: "squeezed_entry \<Rightarrow> u32 \<Rightarrow> unsqueezed_entry" where
  "unsqueeze_entry src junk = (let
     dst = \<lparr>ue_file_name = sq_file_name src, ue_name_hash = 0, ue_attributes = sq_attributes src,
       ue_rca = sq_rca src, ue_dca = sq_dca src, ue_file_size = sq_file_size src, ue_checksum = junk\<rparr>;
     dst = dst\<lparr>ue_name_hash := nft32_murmur3_x86_32 (ue_file_name dst) 11 0\<rparr>
   in dst\<lparr>ue_checksum := nft32_murmur3_x86_32 (bytes_of_ue dst) (of_nat sizeof_entry) 0\<rparr>)"

section \<open>Operations\<close>

text \<open>How many entries the code believes fit, \<open>cluster_size / 68\<close>.\<close>

definition journal_capacity :: "fat_data \<Rightarrow> nat" where
  "journal_capacity fi = unat (cluster_size fi) div (sizeof_journal_entry * sizeof_encoded)"

definition replay_entry :: "journal_entry \<Rightarrow> unsqueezed_entry \<Rightarrow> fat_data \<Rightarrow>
    ('w, 'z) journal_state_scheme \<Rightarrow> (int \<times> ('w, 'z) journal_state_scheme) option" where
  "replay_entry e restored fi s = do {
     let off = ucast (je_offset e) * of_nat (2 * sizeof_entry);
     if je_op e = DEL_OP
     then writeoff_cluster (je_ca e) off (replicate (2 * sizeof_entry) 0) (int (2 * sizeof_entry)) fi s
     else if je_op e = ADD_OP \<or> je_op e = EDIT_OP
     then writeoff_cluster (je_ca e) off
       (bytes_of_u16s (nft32_pack_memory (bytes_of_ue restored) (replicate sizeof_entry 0) sizeof_entry))
       (int (2 * sizeof_entry)) fi s
     else Some (0, s) }"

text \<open>The replay loop counts in an \<open>unsigned char\<close>, so it may not end.\<close>

partial_function (option) restore_loop :: "fat_data \<Rightarrow>
    ('w, 'z) journal_state_scheme \<Rightarrow> (int \<times> ('w, 'z) journal_state_scheme) option" where
  "restore_loop fi s =
    (if unat (journal_index s) < journal_capacity fi then do {
       ((_, e), s) \<leftarrow> read_journal (uint (journal_index s)) (stack_journal s) fi s;
       if je_op e = NO_OP then restore_loop fi (s\<lparr>journal_index := journal_index s + 1\<rparr>)
       else do {
         let restored = unsqueeze_entry (je_entry e) (stack_word s);
         (_, s) \<leftarrow> replay_entry e restored fi s;
         (_, s) \<leftarrow> write_journal (uint (journal_index s)) (e\<lparr>je_op := NO_OP\<rparr>) fi s;
         restore_loop fi (s\<lparr>journal_index := journal_index s + 1\<rparr>) } }
     else Some (1, s))"

definition restore_from_journal :: "fat_data \<Rightarrow>
    ('w, 'z) journal_state_scheme \<Rightarrow> (int \<times> ('w, 'z) journal_state_scheme) option" where
  "restore_from_journal fi s =
    (if journals_count fi = 0 then Some (0, s)
     else do {
       (ok, s) \<leftarrow> lock_journal s;
       if ok = 0 then Some (0, s)
       else do {
         (_, s) \<leftarrow> restore_loop fi (s\<lparr>journal_index := 0\<rparr>);
         (_, s) \<leftarrow> unlock_journal (s\<lparr>journal_index := 0\<rparr>);
         Some (1, s) } })"

primrec add_operation_loop :: "nat \<Rightarrow> journal_entry \<Rightarrow> fat_data \<Rightarrow>
    ('w, 'z) journal_state_scheme \<Rightarrow> (int \<times> ('w, 'z) journal_state_scheme) option" where
  "add_operation_loop 0 j_entry fi s = Some (-1, s)"
| "add_operation_loop (Suc delay) j_entry fi s =
    (if journal_capacity fi = 0 then None
     else let entry_index = int (unat (journal_index s) mod journal_capacity fi) in do {
       ((_, c), s) \<leftarrow> read_journal entry_index (stack_journal s) fi (s\<lparr>journal_index := journal_index s + 1\<rparr>);
       if je_op c = NO_OP then do {
         (_, s) \<leftarrow> write_journal entry_index j_entry fi s;
         Some (entry_index, s) }
       else add_operation_loop delay j_entry fi s })"

text \<open>The designated initialiser zeroes the checksum, and nothing sets it afterwards.\<close>

definition journal_add_operation :: "byte \<Rightarrow> u32 \<Rightarrow> int \<Rightarrow> unsqueezed_entry \<Rightarrow> fat_data \<Rightarrow>
    ('w, 'z) journal_state_scheme \<Rightarrow> (int \<times> ('w, 'z) journal_state_scheme) option" where
  "journal_add_operation op ca offset e fi s =
    (if journals_count fi = 0 then Some (0, s)
     else do {
       let j_entry = \<lparr>je_op = op, je_ca = ca, je_offset = word_of_int offset,
         je_entry = squeeze_entry e, je_checksum = 0\<rparr>;
       (ok, s) \<leftarrow> lock_journal s;
       if ok = 0 then Some (-1, s)
       else do {
         (r, s) \<leftarrow> add_operation_loop 100 j_entry fi s;
         (_, s) \<leftarrow> unlock_journal s;
         Some (r, s) } })"

definition journal_solve_operation :: "int \<Rightarrow> fat_data \<Rightarrow>
    ('w, 'z) journal_state_scheme \<Rightarrow> (int \<times> ('w, 'z) journal_state_scheme) option" where
  "journal_solve_operation index fi s =
    (if journals_count fi = 0 \<or> index < 0 then Some (0, s)
     else do {
       (ok, s) \<leftarrow> lock_journal s;
       if ok = 0 then Some (0, s)
       else do {
         (result, s) \<leftarrow> write_journal index journal_zero fi s;
         (_, s) \<leftarrow> unlock_journal s;
         Some (result, s) } })"

end
