(* ===== verification/Ecache.thy ===== *)
theory Ecache
  imports Journal
begin

text \<open>
  The directory index of \<open>src/ecache.c\<close> and \<open>include/nft32/ecache.h\<close>: a red-black tree of
  nodes with parent pointers, keyed by the hash of a name. Nodes live in a heap from addresses
  to records; a \<open>NULL\<close> pointer is \<open>None\<close> and following it, or a freed node, is
  undefined. The bit-field \<open>flags\<close> has three bits; a fresh node has arbitrary ones.
\<close>

unbundle bit_operations_syntax

section \<open>Nodes\<close>

record ecache_t =
  ec_p :: "nat option"
  ec_l :: "nat option"
  ec_r :: "nat option"
  ec_flags :: "3 word"
  ec_hash :: u32
  ec_ca :: u32

type_synonym eheap = "nat \<Rightarrow> ecache_t option"

definition ECACHE_BLACK :: "3 word" where "ECACHE_BLACK = 1"
definition ECACHE_FILE :: "3 word" where "ECACHE_FILE = 2"
definition ECACHE_DIR :: "3 word" where "ECACHE_DIR = 4"
definition sizeof_ecache :: nat where "sizeof_ecache = 33"

definition IS_ECACHE_RED :: "ecache_t \<Rightarrow> bool" where
  "IS_ECACHE_RED n = (ec_flags n AND ECACHE_BLACK = 0)"
definition IS_ECACHE_BLACK :: "ecache_t \<Rightarrow> bool" where
  "IS_ECACHE_BLACK n = (ec_flags n AND ECACHE_BLACK \<noteq> 0)"
definition SET_ECACHE_RED :: "ecache_t \<Rightarrow> ecache_t" where
  "SET_ECACHE_RED n = n\<lparr>ec_flags := ec_flags n AND NOT ECACHE_BLACK\<rparr>"
definition SET_ECACHE_BLACK :: "ecache_t \<Rightarrow> ecache_t" where
  "SET_ECACHE_BLACK n = n\<lparr>ec_flags := ec_flags n OR ECACHE_BLACK\<rparr>"
definition IS_ECACHE_FILE :: "ecache_t \<Rightarrow> bool" where
  "IS_ECACHE_FILE n = (ec_flags n AND ECACHE_FILE \<noteq> 0)"
definition IS_ECACHE_DIR :: "ecache_t \<Rightarrow> bool" where
  "IS_ECACHE_DIR n = (ec_flags n AND ECACHE_DIR \<noteq> 0)"
definition SET_ECACHE_FILE :: "ecache_t \<Rightarrow> ecache_t" where
  "SET_ECACHE_FILE n = n\<lparr>ec_flags := ec_flags n OR ECACHE_FILE\<rparr>"
definition SET_ECACHE_DIR :: "ecache_t \<Rightarrow> ecache_t" where
  "SET_ECACHE_DIR n = n\<lparr>ec_flags := ec_flags n OR ECACHE_DIR\<rparr>"

text \<open>The state of an operation is the heap and the caller's root pointer.\<close>

type_synonym etree = "eheap \<times> nat option"

definition set_node :: "nat \<Rightarrow> (ecache_t \<Rightarrow> ecache_t) \<Rightarrow> eheap \<Rightarrow> eheap option" where
  "set_node a f h = (case h a of None \<Rightarrow> None | Some n \<Rightarrow> Some (h(a \<mapsto> f n)))"

definition set_opt :: "nat option \<Rightarrow> (ecache_t \<Rightarrow> ecache_t) \<Rightarrow> eheap \<Rightarrow> eheap option" where
  "set_opt a f h = (case a of None \<Rightarrow> Some h | Some b \<Rightarrow> set_node b f h)"

text \<open>The node a pointer leads to; following \<open>NULL\<close> is undefined.\<close>

definition deref :: "eheap \<Rightarrow> nat option \<Rightarrow> (nat \<times> ecache_t) option" where
  "deref h p = (case p of None \<Rightarrow> None | Some a \<Rightarrow> (case h a of None \<Rightarrow> None | Some n \<Rightarrow> Some (a, n)))"

text \<open>\<open>!n || IS_ECACHE_BLACK(n)\<close>, and \<open>n && IS_ECACHE_RED(n)\<close>.\<close>

definition nil_or_black :: "eheap \<Rightarrow> nat option \<Rightarrow> bool option" where
  "nil_or_black h p = (case p of None \<Rightarrow> Some True | Some a \<Rightarrow> map_option IS_ECACHE_BLACK (h a))"

definition node_red :: "eheap \<Rightarrow> nat option \<Rightarrow> bool option" where
  "node_red h p = (case p of None \<Rightarrow> Some False | Some a \<Rightarrow> map_option IS_ECACHE_RED (h a))"

section \<open>Rotations\<close>

definition replace_child :: "nat \<Rightarrow> nat option \<Rightarrow> nat option \<Rightarrow> etree \<Rightarrow> etree option" where
  "replace_child x p y t = (case t of (h, root) \<Rightarrow> (case p of
     None \<Rightarrow> Some (h, y)
   | Some q \<Rightarrow> do {
       qn \<leftarrow> h q;
       h \<leftarrow> (if ec_l qn = Some x then set_node q (ec_l_update (\<lambda>_. y)) h else set_node q (ec_r_update (\<lambda>_. y)) h);
       Some (h, root) }))"

definition rotate_left :: "nat \<Rightarrow> etree \<Rightarrow> etree option" where
  "rotate_left x t = do {
     let (h, root) = t;
     xn \<leftarrow> h x;
     (y, yn) \<leftarrow> deref h (ec_r xn);
     h \<leftarrow> set_node x (ec_r_update (\<lambda>_. ec_l yn)) h;
     h \<leftarrow> set_opt (ec_l yn) (ec_p_update (\<lambda>_. Some x)) h;
     h \<leftarrow> set_node y (ec_p_update (\<lambda>_. ec_p xn)) h;
     (h, root) \<leftarrow> replace_child x (ec_p xn) (Some y) (h, root);
     h \<leftarrow> set_node y (ec_l_update (\<lambda>_. Some x)) h;
     h \<leftarrow> set_node x (ec_p_update (\<lambda>_. Some y)) h;
     Some (h, root) }"

text \<open>The mirror image tests the right child of the parent first.\<close>

definition replace_child_right :: "nat \<Rightarrow> nat option \<Rightarrow> nat option \<Rightarrow> etree \<Rightarrow> etree option" where
  "replace_child_right x p y t = (case t of (h, root) \<Rightarrow> (case p of
     None \<Rightarrow> Some (h, y)
   | Some q \<Rightarrow> do {
       qn \<leftarrow> h q;
       h \<leftarrow> (if ec_r qn = Some x then set_node q (ec_r_update (\<lambda>_. y)) h else set_node q (ec_l_update (\<lambda>_. y)) h);
       Some (h, root) }))"

definition rotate_right :: "nat \<Rightarrow> etree \<Rightarrow> etree option" where
  "rotate_right x t = do {
     let (h, root) = t;
     xn \<leftarrow> h x;
     (y, yn) \<leftarrow> deref h (ec_l xn);
     h \<leftarrow> set_node x (ec_l_update (\<lambda>_. ec_r yn)) h;
     h \<leftarrow> set_opt (ec_r yn) (ec_p_update (\<lambda>_. Some x)) h;
     h \<leftarrow> set_node y (ec_p_update (\<lambda>_. ec_p xn)) h;
     (h, root) \<leftarrow> replace_child_right x (ec_p xn) (Some y) (h, root);
     h \<leftarrow> set_node y (ec_r_update (\<lambda>_. Some x)) h;
     h \<leftarrow> set_node x (ec_p_update (\<lambda>_. Some y)) h;
     Some (h, root) }"

section \<open>Insertion\<close>

text \<open>The uncle is red: recolour. Otherwise rotate, \<open>inner\<close> being the side of \<open>z\<close> that needs the
  first rotation. Both branches of the loop body return the next \<open>z\<close>.\<close>

definition recolour_up :: "nat \<Rightarrow> nat \<Rightarrow> nat \<Rightarrow> eheap \<Rightarrow> eheap option" where
  "recolour_up p y gp h = do {
     h \<leftarrow> set_node p SET_ECACHE_BLACK h;
     h \<leftarrow> set_node y SET_ECACHE_BLACK h;
     set_node gp SET_ECACHE_RED h }"

partial_function (option) fix_insert_loop :: "nat \<Rightarrow> etree \<Rightarrow> etree option" where
  "fix_insert_loop z t = (case t of (h, root) \<Rightarrow> do {
     zn \<leftarrow> h z;
     red \<leftarrow> node_red h (ec_p zn);
     if \<not> red then Some (h, root)
     else do {
       (p, pn) \<leftarrow> deref h (ec_p zn);
       (gp, gn) \<leftarrow> deref h (ec_p pn);
       if ec_l gn = Some p then do {
         yred \<leftarrow> node_red h (ec_r gn);
         if yred then do {
           h \<leftarrow> recolour_up p (the (ec_r gn)) gp h;
           fix_insert_loop gp (h, root) }
         else do {
           (z, h, root) \<leftarrow> (if ec_r pn = Some z then do { (h, root) \<leftarrow> rotate_left p (h, root); Some (p, h, root) }
             else Some (z, h, root));
           zn \<leftarrow> h z;
           (q, _) \<leftarrow> deref h (ec_p zn);
           h \<leftarrow> set_node q SET_ECACHE_BLACK h;
           h \<leftarrow> set_node gp SET_ECACHE_RED h;
           (h, root) \<leftarrow> rotate_right gp (h, root);
           fix_insert_loop z (h, root) } }
       else do {
         yred \<leftarrow> node_red h (ec_l gn);
         if yred then do {
           h \<leftarrow> recolour_up p (the (ec_l gn)) gp h;
           fix_insert_loop gp (h, root) }
         else do {
           (z, h, root) \<leftarrow> (if ec_l pn = Some z then do { (h, root) \<leftarrow> rotate_right p (h, root); Some (p, h, root) }
             else Some (z, h, root));
           zn \<leftarrow> h z;
           (q, _) \<leftarrow> deref h (ec_p zn);
           h \<leftarrow> set_node q SET_ECACHE_BLACK h;
           h \<leftarrow> set_node gp SET_ECACHE_RED h;
           (h, root) \<leftarrow> rotate_left gp (h, root);
           fix_insert_loop z (h, root) } } } })"

definition fix_insert :: "nat \<Rightarrow> etree \<Rightarrow> etree option" where
  "fix_insert z t = do {
     (h, root) \<leftarrow> fix_insert_loop z t;
     (r, _) \<leftarrow> deref h root;
     h \<leftarrow> set_node r SET_ECACHE_BLACK h;
     Some (h, root) }"

text \<open>The descent: \<open>Inl y\<close> the node below which the new one goes, \<open>Inr a\<close> a node with the
  same hash.\<close>

partial_function (option) insert_walk :: "eheap \<Rightarrow> u32 \<Rightarrow> nat option \<Rightarrow> nat option \<Rightarrow> (nat option + nat) option" where
  "insert_walk h hash y x = (case x of
     None \<Rightarrow> Some (Inl y)
   | Some a \<Rightarrow> do {
       n \<leftarrow> h a;
       if hash < ec_hash n then insert_walk h hash x (ec_l n)
       else if hash > ec_hash n then insert_walk h hash x (ec_r n)
       else Some (Inr a) })"

record 'w ecache_state = "'w journal_state" +
  ec_heap :: eheap
  stack_flags :: "3 word"

definition new_node :: "3 word \<Rightarrow> u32 \<Rightarrow> byte \<Rightarrow> u32 \<Rightarrow> ecache_t" where
  "new_node junk hash is_dir ca = (let
     z = SET_ECACHE_RED \<lparr>ec_p = None, ec_l = None, ec_r = None, ec_flags = junk, ec_hash = hash, ec_ca = ca\<rparr>
   in if is_dir \<noteq> 0 then SET_ECACHE_DIR z else SET_ECACHE_FILE z)"

definition link_node :: "nat \<Rightarrow> u32 \<Rightarrow> nat option \<Rightarrow> etree \<Rightarrow> etree option" where
  "link_node z hash y t = do {
     let (h, root) = t;
     h \<leftarrow> set_node z (ec_p_update (\<lambda>_. y)) h;
     (case y of
        None \<Rightarrow> Some (h, Some z)
      | Some b \<Rightarrow> do {
          yn \<leftarrow> h b;
          h \<leftarrow> (if hash < ec_hash yn then set_node b (ec_l_update (\<lambda>_. Some z)) h
            else set_node b (ec_r_update (\<lambda>_. Some z)) h);
          Some (h, root) }) }"

definition ecache_insert :: "nat option \<Rightarrow> u32 \<Rightarrow> byte \<Rightarrow> u32 \<Rightarrow>
    ('w, 'z) ecache_state_scheme \<Rightarrow> (nat option \<times> ('w, 'z) ecache_state_scheme) option" where
  "ecache_insert root hash is_dir ca s = do {
     (p, s) \<leftarrow> nft32_malloc_s (of_nat sizeof_ecache) s;
     (case p of
        None \<Rightarrow> Some (root, s)
      | Some z \<Rightarrow> do {
          let h = (ec_heap s)(z \<mapsto> new_node (stack_flags s) hash is_dir ca);
          w \<leftarrow> insert_walk h hash None root;
          (case w of
             Inr _ \<Rightarrow> do {
               (_, s) \<leftarrow> nft32_free_s (Some z) (s\<lparr>ec_heap := h(z := None)\<rparr>);
               Some (root, s) }
           | Inl y \<Rightarrow> do {
               (h, root) \<leftarrow> link_node z hash y (h, root);
               (h, root) \<leftarrow> fix_insert z (h, root);
               Some (root, s\<lparr>ec_heap := h\<rparr>) }) }) }"

section \<open>Search\<close>

partial_function (option) find_walk :: "eheap \<Rightarrow> nat option \<Rightarrow> u32 \<Rightarrow> nat option option" where
  "find_walk h root hash = (case root of
     None \<Rightarrow> Some None
   | Some a \<Rightarrow> do {
       n \<leftarrow> h a;
       if hash < ec_hash n then find_walk h (ec_l n) hash
       else if hash > ec_hash n then find_walk h (ec_r n) hash
       else Some root })"

definition ecache_find :: "nat option \<Rightarrow> u32 \<Rightarrow>
    ('w, 'z) ecache_state_scheme \<Rightarrow> (nat option \<times> ('w, 'z) ecache_state_scheme) option" where
  "ecache_find root hash s = map_option (\<lambda>r. (r, s)) (find_walk (ec_heap s) root hash)"

section \<open>Deletion\<close>

partial_function (option) minimum :: "eheap \<Rightarrow> nat \<Rightarrow> nat option" where
  "minimum h node = do {
     n \<leftarrow> h node;
     (case ec_l n of None \<Rightarrow> Some node | Some l \<Rightarrow> minimum h l) }"

definition transplant :: "nat \<Rightarrow> nat option \<Rightarrow> etree \<Rightarrow> etree option" where
  "transplant u v t = do {
     let (h, root) = t;
     un \<leftarrow> h u;
     (h, root) \<leftarrow> replace_child u (ec_p un) v (h, root);
     un \<leftarrow> h u;
     h \<leftarrow> set_opt v (ec_p_update (\<lambda>_. ec_p un)) h;
     Some (h, root) }"

text \<open>The colour of \<open>x_parent\<close> copied to \<open>w\<close>, when \<open>w\<close> is not \<open>NULL\<close>.\<close>

definition copy_parent_colour :: "nat option \<Rightarrow> nat \<Rightarrow> eheap \<Rightarrow> eheap option" where
  "copy_parent_colour w xp h = (case w of None \<Rightarrow> Some h
     | Some a \<Rightarrow> do {
         pn \<leftarrow> h xp;
         if IS_ECACHE_RED pn then set_node a SET_ECACHE_RED h else set_node a SET_ECACHE_BLACK h })"

text \<open>One iteration, for \<open>x\<close> the left and the right child of its parent: the final \<open>x\<close> with the
  tree, or the next \<open>x\<close> and \<open>x_parent\<close>.\<close>

definition fix_delete_left :: "nat \<Rightarrow> ecache_t \<Rightarrow> etree \<Rightarrow> (nat option \<times> etree + nat option \<times> nat option \<times> etree) option" where
  "fix_delete_left xp pn t = do {
     let (h, root) = t;
     (w, wn) \<leftarrow> deref h (ec_r pn);
     (wp, h, root) \<leftarrow> (if IS_ECACHE_RED wn then do {
         h \<leftarrow> set_node w SET_ECACHE_BLACK h;
         h \<leftarrow> set_node xp SET_ECACHE_RED h;
         (h, root) \<leftarrow> rotate_left xp (h, root);
         pn \<leftarrow> h xp;
         Some (ec_r pn, h, root) }
       else Some (Some w, h, root));
     (w, wn) \<leftarrow> deref h wp;
     bl \<leftarrow> nil_or_black h (ec_l wn);
     br \<leftarrow> nil_or_black h (ec_r wn);
     if bl \<and> br then do {
       h \<leftarrow> set_node w SET_ECACHE_RED h;
       pn \<leftarrow> h xp;
       Some (Inr (Some xp, ec_p pn, h, root)) }
     else do {
       (wp, h, root) \<leftarrow> (if br then do {
           h \<leftarrow> set_opt (ec_l wn) SET_ECACHE_BLACK h;
           h \<leftarrow> set_node w SET_ECACHE_RED h;
           (h, root) \<leftarrow> rotate_right w (h, root);
           pn \<leftarrow> h xp;
           Some (ec_r pn, h, root) }
         else Some (Some w, h, root));
       h \<leftarrow> copy_parent_colour wp xp h;
       h \<leftarrow> set_node xp SET_ECACHE_BLACK h;
       h \<leftarrow> (case wp of None \<Rightarrow> Some h | Some a \<Rightarrow> do { n \<leftarrow> h a; set_opt (ec_r n) SET_ECACHE_BLACK h });
       (h, root) \<leftarrow> rotate_left xp (h, root);
       Some (Inl (root, h, root)) } }"

definition fix_delete_right :: "nat \<Rightarrow> ecache_t \<Rightarrow> etree \<Rightarrow> (nat option \<times> etree + nat option \<times> nat option \<times> etree) option" where
  "fix_delete_right xp pn t = do {
     let (h, root) = t;
     (w, wn) \<leftarrow> deref h (ec_l pn);
     (wp, h, root) \<leftarrow> (if IS_ECACHE_RED wn then do {
         h \<leftarrow> set_node w SET_ECACHE_BLACK h;
         h \<leftarrow> set_node xp SET_ECACHE_RED h;
         (h, root) \<leftarrow> rotate_right xp (h, root);
         pn \<leftarrow> h xp;
         Some (ec_l pn, h, root) }
       else Some (Some w, h, root));
     (w, wn) \<leftarrow> deref h wp;
     br \<leftarrow> nil_or_black h (ec_r wn);
     bl \<leftarrow> nil_or_black h (ec_l wn);
     if br \<and> bl then do {
       h \<leftarrow> set_node w SET_ECACHE_RED h;
       pn \<leftarrow> h xp;
       Some (Inr (Some xp, ec_p pn, h, root)) }
     else do {
       (wp, h, root) \<leftarrow> (if bl then do {
           h \<leftarrow> set_opt (ec_r wn) SET_ECACHE_BLACK h;
           h \<leftarrow> set_node w SET_ECACHE_RED h;
           (h, root) \<leftarrow> rotate_left w (h, root);
           pn \<leftarrow> h xp;
           Some (ec_l pn, h, root) }
         else Some (Some w, h, root));
       h \<leftarrow> copy_parent_colour wp xp h;
       h \<leftarrow> set_node xp SET_ECACHE_BLACK h;
       h \<leftarrow> (case wp of None \<Rightarrow> Some h | Some a \<Rightarrow> do { n \<leftarrow> h a; set_opt (ec_l n) SET_ECACHE_BLACK h });
       (h, root) \<leftarrow> rotate_right xp (h, root);
       Some (Inl (root, h, root)) } }"

text \<open>\<open>x_parent\<close> is \<open>NULL\<close> when the root is deleted.\<close>

partial_function (option) fix_delete_loop :: "nat option \<Rightarrow> nat option \<Rightarrow> etree \<Rightarrow> (nat option \<times> etree) option" where
  "fix_delete_loop x x_parent t = do {
     black \<leftarrow> (if x \<noteq> snd t then nil_or_black (fst t) x else Some False);
     if \<not> black then Some (x, t)
     else do {
       (xp, pn) \<leftarrow> deref (fst t) x_parent;
       nxt \<leftarrow> (if x = ec_l pn then fix_delete_left xp pn t else fix_delete_right xp pn t);
       (case nxt of
          Inl r \<Rightarrow> Some r
        | Inr (x, x_parent, t) \<Rightarrow> fix_delete_loop x x_parent t) } }"

definition fix_delete :: "nat option \<Rightarrow> nat option \<Rightarrow> etree \<Rightarrow> etree option" where
  "fix_delete x x_parent t = do {
     (x, h, root) \<leftarrow> fix_delete_loop x x_parent t;
     h \<leftarrow> set_opt x SET_ECACHE_BLACK h;
     Some (h, root) }"

text \<open>Unlinking: the node that takes part in the fix-up (\<open>y\<close>), the child that moved up and its
  parent.\<close>

definition unlink_node :: "nat \<Rightarrow> etree \<Rightarrow> (nat \<times> nat option \<times> nat option \<times> etree) option" where
  "unlink_node z t = do {
     let (h, root) = t;
     zn \<leftarrow> h z;
     (case ec_l zn of
        None \<Rightarrow> do {
          (h, root) \<leftarrow> transplant z (ec_r zn) (h, root);
          Some (z, ec_r zn, ec_p zn, h, root) }
      | Some zl \<Rightarrow> (case ec_r zn of
          None \<Rightarrow> do {
            (h, root) \<leftarrow> transplant z (ec_l zn) (h, root);
            Some (z, ec_l zn, ec_p zn, h, root) }
        | Some zr \<Rightarrow> do {
            y \<leftarrow> minimum h zr;
            yn \<leftarrow> h y;
            let x = ec_r yn;
            (x_parent, h, root) \<leftarrow> (if ec_p yn = Some z then do {
                h \<leftarrow> set_opt x (ec_p_update (\<lambda>_. Some y)) h;
                Some (Some y, h, root) }
              else do {
                (h, root) \<leftarrow> transplant y (ec_r yn) (h, root);
                zn \<leftarrow> h z;
                h \<leftarrow> set_node y (ec_r_update (\<lambda>_. ec_r zn)) h;
                h \<leftarrow> set_opt (ec_r zn) (ec_p_update (\<lambda>_. Some y)) h;
                yn \<leftarrow> h y;
                Some (ec_p yn, h, root) });
            (h, root) \<leftarrow> transplant z (Some y) (h, root);
            zn \<leftarrow> h z;
            h \<leftarrow> set_node y (ec_l_update (\<lambda>_. ec_l zn)) h;
            h \<leftarrow> set_opt (ec_l zn) (ec_p_update (\<lambda>_. Some y)) h;
            zn \<leftarrow> h z;
            h \<leftarrow> set_node y (if ec_flags zn AND ECACHE_BLACK AND ECACHE_BLACK \<noteq> 0
              then SET_ECACHE_BLACK else SET_ECACHE_RED) h;
            Some (y, x, x_parent, h, root) })) }"

text \<open>The colour that decides whether to rebalance is read from \<open>y\<close> after \<open>z\<close> was freed and
  after \<open>y\<close> took the colour of \<open>z\<close>. When \<open>y\<close> is \<open>z\<close> the code reads a freed node. \<open>_free_s\<close> only
  marks the header of a block of its static buffer, and a manager without a function does nothing, so the
  node still has its bytes then; with a function of the user the read is undefined.\<close>

definition freed_readable :: "('w, 'z) mm_state_scheme \<Rightarrow> bool" where
  "freed_readable s = (case mgr_free (mm_manager s) of User _ \<Rightarrow> False | _ \<Rightarrow> True)"

definition ecache_delete :: "nat option \<Rightarrow> u32 \<Rightarrow>
    ('w, 'z) ecache_state_scheme \<Rightarrow> (nat option \<times> ('w, 'z) ecache_state_scheme) option" where
  "ecache_delete root hash s = do {
     z \<leftarrow> find_walk (ec_heap s) root hash;
     (case z of
        None \<Rightarrow> Some (root, s)
      | Some z \<Rightarrow> do {
          (y, x, x_parent, h, root) \<leftarrow> unlink_node z (ec_heap s, root);
          yn \<leftarrow> (if y = z \<and> \<not> freed_readable s then None else h y);
          (_, s) \<leftarrow> nft32_free_s (Some z) (s\<lparr>ec_heap := h(z := None)\<rparr>);
          (if IS_ECACHE_BLACK yn then do {
             (h, root) \<leftarrow> fix_delete x x_parent (ec_heap s, root);
             Some (root, s\<lparr>ec_heap := h\<rparr>) }
           else Some (root, s)) }) }"

partial_function (option) ecache_free :: "nat option \<Rightarrow>
    ('w, 'z) ecache_state_scheme \<Rightarrow> (int \<times> ('w, 'z) ecache_state_scheme) option" where
  "ecache_free root s = (case root of
     None \<Rightarrow> Some (0, s)
   | Some a \<Rightarrow> do {
       n \<leftarrow> ec_heap s a;
       (_, s) \<leftarrow> ecache_free (ec_l n) s;
       n \<leftarrow> ec_heap s a;
       (_, s) \<leftarrow> ecache_free (ec_r n) s;
       (_, s) \<leftarrow> nft32_free_s root (s\<lparr>ec_heap := (ec_heap s)(a := None)\<rparr>);
       Some (1, s) })"

end
