(* ===== verification/Fatname.thy ===== *)
theory Fatname
  imports Strs
begin

text \<open>
  Conversion between ordinary names and the 8.3 form, from \<open>std/fatname.c\<close>. Buffers are
  byte lists and the destination is passed in, as in C: the conversion writes into it and calls
  \<open>nft32_str_uppercase\<close> on it before it writes the terminator.
\<close>

abbreviation ch_dot :: byte where "ch_dot \<equiv> 46"
abbreviation ch_space :: byte where "ch_space \<equiv> 32"

definition PATH_SPLITTER :: byte where "PATH_SPLITTER = 47"

section \<open>From 8.3 to a name\<close>

primrec f2n_copy :: "byte list \<Rightarrow> nat \<Rightarrow> nat \<Rightarrow> nat \<Rightarrow> byte list \<Rightarrow> (nat \<times> byte list) option" where
  "f2n_copy fatname 0 i j name = Some (j, name)"
| "f2n_copy fatname (Suc k) i j name = do {
     c \<leftarrow> bget fatname i;
     if c \<noteq> ch_space then do { name \<leftarrow> bput name j c; f2n_copy fatname k (Suc i) (Suc j) name }
     else Some (j, name) }"

primrec f2n_has_ext :: "byte list \<Rightarrow> nat \<Rightarrow> nat \<Rightarrow> bool option" where
  "f2n_has_ext fatname 0 k = Some False"
| "f2n_has_ext fatname (Suc n) k = do {
     c \<leftarrow> bget fatname k;
     if c \<noteq> ch_space then Some True else f2n_has_ext fatname n (Suc k) }"

definition nft32_fatname_to_name :: "byte list \<Rightarrow> byte list \<Rightarrow> byte list option" where
  "nft32_fatname_to_name fatname name = do {
     c0 \<leftarrow> bget fatname 0;
     if c0 = ch_dot then do {
       c1 \<leftarrow> bget fatname 1;
       if c1 = ch_dot then nft32_str_strncpy name [ch_dot, ch_dot, 0] 3
       else nft32_str_strncpy name [ch_dot, 0] 2 }
     else do {
       (j, name) \<leftarrow> f2n_copy fatname 8 0 0 name;
       has_ext \<leftarrow> f2n_has_ext fatname 3 8;
       (j, name) \<leftarrow> (if has_ext then do { name \<leftarrow> bput name j ch_dot; Some (j + 1, name) } else Some (j, name));
       (j, name) \<leftarrow> f2n_copy fatname 3 8 j name;
       bput name j 0 } }"

section \<open>From a name to 8.3\<close>

primrec n2f_base :: "byte list \<Rightarrow> nat \<Rightarrow> nat \<Rightarrow> nat \<Rightarrow> byte list \<Rightarrow> (nat \<times> nat \<times> byte list) option" where
  "n2f_base name 0 i j fatname = do { c \<leftarrow> bget name i; Some (i, j, fatname) }"
| "n2f_base name (Suc k) i j fatname = do {
     c \<leftarrow> bget name i;
     if c \<noteq> 0 \<and> c \<noteq> ch_dot
     then do { fatname \<leftarrow> bput fatname j c; n2f_base name k (Suc i) (Suc j) fatname }
     else Some (i, j, fatname) }"

primrec n2f_pad :: "nat \<Rightarrow> nat \<Rightarrow> byte list \<Rightarrow> byte list option" where
  "n2f_pad 0 j fatname = Some fatname"
| "n2f_pad (Suc k) j fatname = do { fatname \<leftarrow> bput fatname j ch_space; n2f_pad k (Suc j) fatname }"

primrec n2f_ext :: "byte list \<Rightarrow> nat \<Rightarrow> nat \<Rightarrow> nat \<Rightarrow> byte list \<Rightarrow> (nat \<times> nat \<times> byte list) option" where
  "n2f_ext name 0 i j fatname = do { c \<leftarrow> bget name i; Some (i, j, fatname) }"
| "n2f_ext name (Suc k) i j fatname = do {
     c \<leftarrow> bget name i;
     if c \<noteq> 0 then do { fatname \<leftarrow> bput fatname j c; n2f_ext name k (Suc i) (Suc j) fatname }
     else Some (i, j, fatname) }"

definition nft32_name_to_fatname :: "byte list \<Rightarrow> byte list \<Rightarrow> byte list option" where
  "nft32_name_to_fatname name fatname = do {
     c0 \<leftarrow> bget name 0;
     (j, fatname) \<leftarrow>
       (if c0 = ch_dot then do {
          c1 \<leftarrow> bget name 1;
          if c1 = ch_dot then do { f \<leftarrow> nft32_str_strncpy fatname [ch_dot, ch_dot, 0] 3; Some (2, f) }
          else do { f \<leftarrow> nft32_str_strncpy fatname [ch_dot, 0] 2; Some (1, f) } }
        else do {
          (i, j, fatname) \<leftarrow> n2f_base name 8 0 0 fatname;
          fatname \<leftarrow> n2f_pad (8 - j) j fatname;
          c \<leftarrow> bget name i;
          let i = (if c = ch_dot then i + 1 else i);
          (i, j, fatname) \<leftarrow> n2f_ext name 3 i 8 fatname;
          Some (j, fatname) });
     fatname \<leftarrow> n2f_pad (11 - j) j fatname;
     fatname \<leftarrow> uppercase_loop fatname;
     bput fatname (max 11 j) 0 }"

section \<open>Paths\<close>

text \<open>The backward scan for the last separator: the index where it stops.\<close>

primrec last_splitter :: "byte list \<Rightarrow> nat \<Rightarrow> nat option" where
  "last_splitter path 0 = do { c \<leftarrow> bget path 0; Some 0 }"
| "last_splitter path (Suc i) = do {
     c \<leftarrow> bget path (Suc i);
     if c \<noteq> PATH_SPLITTER then last_splitter path i else Some (Suc i) }"

definition nft32_path_to_fatnames :: "byte list \<Rightarrow> byte list \<Rightarrow> byte list option" where
  "nft32_path_to_fatnames path fatnames = do {
     (ok, fatnames) \<leftarrow> nft32_str_strcpy fatnames path;
     len \<leftarrow> nft32_str_strlen path;
     i \<leftarrow> last_splitter path len;
     let i = i + 1;
     if i \<le> length path \<and> i \<le> length fatnames then do {
       suffix \<leftarrow> nft32_name_to_fatname (drop i path) (drop i fatnames);
       uppercase_loop (take i fatnames @ suffix) }
     else None }"

definition nft32_extract_name :: "byte list \<Rightarrow> byte list \<Rightarrow> byte list option" where
  "nft32_extract_name path name = do {
     len \<leftarrow> nft32_str_strlen path;
     i \<leftarrow> last_splitter path len;
     c \<leftarrow> bget path i;
     let i = (if c = PATH_SPLITTER then i + 1 else i);
     (ok, name) \<leftarrow> nft32_str_strcpy name (drop i path);
     Some name }"

definition nft32_unpack_83_name :: "byte list \<Rightarrow> byte list \<Rightarrow> byte list \<Rightarrow> (byte list \<times> byte list) option" where
  "nft32_unpack_83_name name83 name ext = do {
     name \<leftarrow> memcpy_bytes name name83 0 8;
     ext \<leftarrow> memcpy_bytes ext (drop 8 name83) 0 3;
     name \<leftarrow> bput name 8 0;
     ext \<leftarrow> bput ext 3 0;
     Some (name, ext) }"

section \<open>What the conversions compute\<close>

lemma n2f_pad_eq:
  "j + k \<le> length f \<Longrightarrow> n2f_pad k j f = Some (splice f j (replicate k ch_space))"
  by (induction k arbitrary: j f) (auto simp: splice_Cons)

lemma n2f_base_eq:
  "length base \<le> k \<Longrightarrow> j + k \<le> length f \<Longrightarrow> 0 \<notin> set base \<Longrightarrow> ch_dot \<notin> set base \<Longrightarrow>
   length base = k \<or> c = 0 \<or> c = ch_dot \<Longrightarrow>
   n2f_base (pre @ base @ c # r) k (length pre) j f =
     Some (length pre + length base, j + length base, splice f j base)"
proof (induction k arbitrary: base pre j f)
  case (Suc k)
  show ?case
  proof (cases base)
    case Nil
    with Suc.prems show ?thesis by auto
  next
    case (Cons b bs)
    with Suc.prems Suc.IH [of bs "Suc j" "f[j := b]" "pre @ [b]"] show ?thesis
      by (auto simp: splice_Cons nth_append)
  qed
qed (simp add: nth_append)

lemma n2f_ext_eq:
  "length ext \<le> k \<Longrightarrow> j + k \<le> length f \<Longrightarrow> 0 \<notin> set ext \<Longrightarrow> length ext = k \<or> c = 0 \<Longrightarrow>
   n2f_ext (pre @ ext @ c # r) k (length pre) j f =
     Some (length pre + length ext, j + length ext, splice f j ext)"
proof (induction k arbitrary: ext pre j f)
  case (Suc k)
  show ?case
  proof (cases ext)
    case Nil
    with Suc.prems show ?thesis by auto
  next
    case (Cons b bs)
    with Suc.prems Suc.IH [of bs "Suc j" "f[j := b]" "pre @ [b]"] show ?thesis
      by (auto simp: splice_Cons nth_append)
  qed
qed (simp add: nth_append)

text \<open>The 8.3 form of a base name and an extension.\<close>

definition fat83 :: "byte list \<Rightarrow> byte list \<Rightarrow> byte list" where
  "fat83 base ext = map toupper_c
     (base @ replicate (8 - length base) ch_space @ ext @ replicate (3 - length ext) ch_space)"

lemma length_fat83 [simp]: "length base \<le> 8 \<Longrightarrow> length ext \<le> 3 \<Longrightarrow> length (fat83 base ext) = 11"
  by (simp add: fat83_def)

lemma toupper_c_eq_0 [simp]: "toupper_c c = 0 \<longleftrightarrow> c = 0"
  using toupper_c_nonzero [of c] by (auto simp: toupper_c_def islower_c_def)

lemma toupper_c_space [simp]: "toupper_c ch_space = ch_space"
  by (simp add: toupper_c_def islower_c_def)

lemma toupper_c_dot [simp]: "toupper_c ch_dot = ch_dot"
  by (simp add: toupper_c_def islower_c_def)

lemma toupper_c_range:
  assumes "islower_c c"
  shows "65 \<le> unat (toupper_c c)"
proof -
  have c: "97 \<le> unat c" "unat c \<le> 122" using assms by (simp_all add: islower_c_def word_le_nat_alt)
  then have "unat (c - 97 + 65) = unat c - 97 + 65"
    by (simp add: unat_word_ariths unat_sub word_le_nat_alt)
  with assms show ?thesis by (simp add: toupper_c_def)
qed

lemma toupper_c_eq_low: "unat v < 65 \<Longrightarrow> toupper_c c = v \<longleftrightarrow> c = v"
  using toupper_c_range [of c] by (auto simp: toupper_c_def islower_c_def word_le_nat_alt)

lemma fatname_finish:
  assumes "length fields = 11" and "0 \<notin> set fields" and "0 \<in> set t"
  shows "\<exists>r. (case uppercase_loop (fields @ t) of None \<Rightarrow> None | Some f \<Rightarrow> bput f 11 0)
      = Some (map toupper_c fields @ 0 # r)"
proof -
  from \<open>0 \<in> set t\<close> obtain cs r where t: "t = cs @ 0 # r" and cs: "0 \<notin> set cs"
    by (meson split_list_first)
  have up: "uppercase_loop (fields @ t) = Some (map toupper_c (fields @ cs) @ 0 # r)"
    using uppercase_eq [of "fields @ cs" r] assms cs by (simp add: t)
  obtain x xs where tl: "map toupper_c cs @ 0 # r = x # xs" by (cases cs) auto
  have "bput (map toupper_c (fields @ cs) @ 0 # r) 11 0 = Some (map toupper_c fields @ 0 # xs)"
    using assms tl by (simp add: bput_def list_update_append)
  with up show ?thesis by auto
qed

lemma fields_splice:
  assumes "length base \<le> 8" and "length ext \<le> 3" and "12 \<le> length f"
  shows "splice (splice (splice (splice f 0 base) (length base) (replicate (8 - length base) ch_space)) 8 ext)
      (8 + length ext) (replicate (3 - length ext) ch_space)
    = (base @ replicate (8 - length base) ch_space @ ext @ replicate (3 - length ext) ch_space) @ drop 11 f"
proof -
  have 1: "splice (splice f 0 base) (length base) (replicate (8 - length base) ch_space)
      = splice f 0 (base @ replicate (8 - length base) ch_space)"
    using assms splice_splice [of 0 base "replicate (8 - length base) ch_space" f] by simp
  have 2: "splice (splice f 0 (base @ replicate (8 - length base) ch_space)) 8 ext
      = splice f 0 ((base @ replicate (8 - length base) ch_space) @ ext)"
    using assms splice_splice [of 0 "base @ replicate (8 - length base) ch_space" ext f] by simp
  have 3: "splice (splice f 0 ((base @ replicate (8 - length base) ch_space) @ ext)) (8 + length ext)
      (replicate (3 - length ext) ch_space)
      = splice f 0 (((base @ replicate (8 - length base) ch_space) @ ext) @ replicate (3 - length ext) ch_space)"
    using assms splice_splice [of 0 "(base @ replicate (8 - length base) ch_space) @ ext"
        "replicate (3 - length ext) ch_space" f] by simp
  show ?thesis
    using assms by (simp only: 1 2 3) (simp add: splice_def)
qed

lemma name_to_fatname_dot_ext:
  assumes base: "base \<noteq> []" "length base \<le> 8" "0 \<notin> set base" "ch_dot \<notin> set base"
    and ext: "length ext \<le> 3" "0 \<notin> set ext"
    and buf: "12 \<le> length f" "0 \<in> set (drop 11 f)"
  shows "\<exists>r. nft32_name_to_fatname (base @ ch_dot # ext @ 0 # rest) f = Some (fat83 base ext @ 0 # r)"
proof -
  let ?name = "base @ ch_dot # ext @ 0 # rest"
  let ?f2 = "splice (splice f 0 base) (length base) (replicate (8 - length base) ch_space)"
  let ?f3 = "splice ?f2 8 ext"
  let ?fields = "base @ replicate (8 - length base) ch_space @ ext @ replicate (3 - length ext) ch_space"
  have c0: "bget ?name 0 = Some (hd base)" "hd base \<noteq> ch_dot"
    using base by (cases base; simp)+
  have b: "n2f_base ?name 8 0 0 f = Some (length base, length base, splice f 0 base)"
    using n2f_base_eq [of base 8 0 f ch_dot "[]" "ext @ 0 # rest"] base buf by simp
  have p: "n2f_pad (8 - length base) (length base) (splice f 0 base) = Some ?f2"
    using base buf by (intro n2f_pad_eq) auto
  have e: "n2f_ext ?name 3 (length base + 1) 8 ?f2 = Some (length base + 1 + length ext, 8 + length ext, ?f3)"
    using n2f_ext_eq [of ext 3 8 ?f2 0 "base @ [ch_dot]" rest] ext base buf by simp
  have q: "n2f_pad (11 - (8 + length ext)) (8 + length ext) ?f3 = Some (?fields @ drop 11 f)"
    using ext base buf fields_splice [of base ext f] by (subst n2f_pad_eq) (auto simp: le_diff_conv2)
  obtain r where "(case uppercase_loop (?fields @ drop 11 f) of None \<Rightarrow> None | Some f \<Rightarrow> bput f 11 0)
      = Some (map toupper_c ?fields @ 0 # r)"
    using fatname_finish [of ?fields "drop 11 f"] base ext buf by auto
  then show ?thesis
    using c0 b p e q ext
    by (auto simp: nft32_name_to_fatname_def fat83_def nth_append max_def split: option.splits)
qed

lemma name_to_fatname_plain:
  assumes base: "base \<noteq> []" "length base \<le> 8" "0 \<notin> set base" "ch_dot \<notin> set base"
    and buf: "12 \<le> length f" "0 \<in> set (drop 11 f)"
  shows "\<exists>r. nft32_name_to_fatname (base @ 0 # rest) f = Some (fat83 base [] @ 0 # r)"
proof -
  let ?name = "base @ 0 # rest"
  let ?f2 = "splice (splice f 0 base) (length base) (replicate (8 - length base) ch_space)"
  let ?fields = "base @ replicate (8 - length base) ch_space @ replicate 3 ch_space"
  have c0: "bget ?name 0 = Some (hd base)" "hd base \<noteq> ch_dot"
    using base by (cases base; simp)+
  have b: "n2f_base ?name 8 0 0 f = Some (length base, length base, splice f 0 base)"
    using n2f_base_eq [of base 8 0 f 0 "[]" rest] base buf by simp
  have p: "n2f_pad (8 - length base) (length base) (splice f 0 base) = Some ?f2"
    using base buf by (intro n2f_pad_eq) auto
  have e: "n2f_ext ?name 3 (length base) 8 ?f2 = Some (length base, 8, ?f2)"
    by (simp add: numeral_eq_Suc)
  have q: "n2f_pad 3 8 ?f2 = Some (?fields @ drop 11 f)"
    using base buf fields_splice [of base "[]" f] by (subst n2f_pad_eq) auto
  obtain r where "(case uppercase_loop (?fields @ drop 11 f) of None \<Rightarrow> None | Some f \<Rightarrow> bput f 11 0)
      = Some (map toupper_c ?fields @ 0 # r)"
    using fatname_finish [of ?fields "drop 11 f"] base buf by auto
  then show ?thesis
    using c0 b p e q
    by (auto simp: nft32_name_to_fatname_def fat83_def nth_append split: option.splits)
qed

lemma f2n_copy_eq:
  "length xs \<le> k \<Longrightarrow> j + k \<le> length name \<Longrightarrow> ch_space \<notin> set xs \<Longrightarrow> length xs = k \<or> c = ch_space \<Longrightarrow>
   f2n_copy (pre @ xs @ c # r) k (length pre) j name = Some (j + length xs, splice name j xs)"
proof (induction k arbitrary: xs pre j name)
  case (Suc k)
  show ?case
  proof (cases xs)
    case Nil
    with Suc.prems show ?thesis by auto
  next
    case (Cons b bs)
    with Suc.prems Suc.IH [of bs "Suc j" "name[j := b]" "pre @ [b]"] show ?thesis
      by (auto simp: splice_Cons nth_append)
  qed
qed simp

text \<open>The other direction on the fields \<open>B\<close> and \<open>E\<close> of an 8.3 name.\<close>

lemma f2n_copy_start:
  assumes "length xs \<le> k" and "j + k \<le> length name" and "ch_space \<notin> set xs" and "rest \<noteq> []"
    and "length xs = k \<or> hd rest = ch_space"
  shows "f2n_copy (pre @ xs @ rest) k (length pre) j name = Some (j + length xs, splice name j xs)"
  using assms f2n_copy_eq[of xs k j name "hd rest" pre "tl rest"] by simp

lemma f2n_has_ext_eq:
  assumes "length pre = 8" and "length E \<le> 3" and "ch_space \<notin> set E"
  shows "f2n_has_ext (pre @ E @ replicate (3 - length E) ch_space @ r) 3 8 = Some (E \<noteq> [])"
proof (cases E)
  case Nil
  then show ?thesis using assms(1) by (simp add: eval_nat_numeral nth_append)
next
  case (Cons b bs)
  then show ?thesis using assms by (simp add: eval_nat_numeral nth_append)
qed

lemma splice_join:
  "j = off + length xs \<Longrightarrow> off + length xs + length ys \<le> length buf \<Longrightarrow>
     splice (splice buf off xs) j ys = splice buf off (xs @ ys)"
  by (simp add: splice_def add.assoc add.commute add.left_commute)

lemma splice_update:
  "j = off + length xs \<Longrightarrow> j < length buf \<Longrightarrow> (splice buf off xs)[j := c] = splice buf off (xs @ [c])"
proof -
  assume j: "j = off + length xs" "j < length buf"
  then have "drop j buf = buf ! j # drop (Suc j) buf" by (simp add: Cons_nth_drop_Suc)
  then show ?thesis using j by (simp add: splice_def list_update_append)
qed

lemma fatname_to_name_fields:
  assumes "B \<noteq> []" "length B \<le> 8" "ch_space \<notin> set B" "B ! 0 \<noteq> ch_dot"
    and "length E \<le> 3" "ch_space \<notin> set E" and "13 \<le> length name"
  shows "nft32_fatname_to_name (B @ replicate (8 - length B) ch_space @ E @ replicate (3 - length E) ch_space @ 0 # r) name
    = Some (splice name 0 (B @ (if E = [] then [] else ch_dot # E) @ [0]))"
proof -
  let ?pad = "replicate (8 - length B) ch_space" and ?pad' = "replicate (3 - length E) ch_space"
  let ?f = "B @ ?pad @ E @ ?pad' @ 0 # r"
  have c0: "bget ?f 0 = Some (B ! 0)" using assms(1) by (simp add: bget_def nth_append)
  have 1: "f2n_copy ?f 8 0 0 name = Some (length B, splice name 0 B)"
    using f2n_copy_start[of B 8 0 name "?pad @ E @ ?pad' @ 0 # r" "[]"] assms(2,3,7) by (cases "length B = 8") auto
  have 2: "f2n_has_ext ?f 3 8 = Some (E \<noteq> [])"
    using f2n_has_ext_eq[of "B @ ?pad" E "0 # r"] assms(2,5,6) by simp
  have 3: "f2n_copy ?f 3 8 j n = Some (j + length E, splice n j E)" if "j + 3 \<le> length n" for j n
    using f2n_copy_start[of E 3 j n "?pad' @ 0 # r" "B @ ?pad"] assms(2,5,6) that by (cases "length E = 3") auto
  show ?thesis
    using c0 1 2 3 assms
    by (auto simp: nft32_fatname_to_name_def splice_update splice_join)
qed

section \<open>Properties\<close>

text \<open>C24 (a name becomes its 8.3 form and comes back in upper case). Take a name of one to eight
  characters without a dot, followed by nothing, by a dot, or by a dot and an extension of up to three
  characters, with no spaces. \<open>nft32_name_to_fatname\<close> turns it into its space-padded upper-case 8.3
  form, and \<open>nft32_fatname_to_name\<close> turns that form into the name in upper case, without a dot at its
  end; neither writes outside its buffer.\<close>

theorem name83_roundtrip:
  assumes base: "base \<noteq> []" "length base \<le> 8" "0 \<notin> set base" "ch_dot \<notin> set base" "ch_space \<notin> set base"
    and ext: "length ext \<le> 3" "0 \<notin> set ext" "ch_space \<notin> set ext"
    and end_part: "end_part = ch_dot # ext \<or> end_part = [] \<and> ext = []"
    and bufs: "12 \<le> length f" "0 \<in> set (drop 11 f)" "13 \<le> length name"
  shows "\<exists>g. nft32_name_to_fatname (base @ end_part @ 0 # rest) f = Some g \<and>
    take 11 g = map toupper_c (base @ replicate (8 - length base) ch_space @ ext @ replicate (3 - length ext) ch_space) \<and>
    nft32_fatname_to_name g name =
      Some (splice name 0 (map toupper_c (base @ (if ext = [] then [] else ch_dot # ext)) @ [0]))"
proof -
  obtain r where g: "nft32_name_to_fatname (base @ end_part @ 0 # rest) f = Some (fat83 base ext @ 0 # r)"
    using name_to_fatname_dot_ext[OF base(1-4) ext(1,2) bufs(1,2), of rest]
      name_to_fatname_plain[OF base(1-4) bufs(1,2), of rest] end_part by auto
  let ?B = "map toupper_c base" and ?E = "map toupper_c ext"
  have low: "toupper_c c = ch_space \<longleftrightarrow> c = ch_space" "toupper_c c = ch_dot \<longleftrightarrow> c = ch_dot" for c
    by (simp_all add: toupper_c_eq_low)
  have "?B ! 0 = toupper_c (base ! 0)" using base(1) by simp
  moreover have "base ! 0 \<in> set base" using base(1) by simp
  ultimately have hd: "?B ! 0 \<noteq> ch_dot" using base(4) low(2) by (metis)
  have "nft32_fatname_to_name (?B @ replicate (8 - length ?B) ch_space @ ?E @ replicate (3 - length ?E) ch_space @ 0 # r) name
      = Some (splice name 0 (?B @ (if ?E = [] then [] else ch_dot # ?E) @ [0]))"
    using base ext bufs hd by (intro fatname_to_name_fields) (auto simp: low)
  then show ?thesis using g base(2) ext(1) by (simp add: fat83_def low)
qed

text \<open>\<open>ab.c\<close> comes back as \<open>AB.C\<close>, and \<open>ab\<close> as \<open>AB\<close>.\<close>

theorem name83_roundtrip_witness:
  "(\<exists>g. nft32_name_to_fatname [0x61, 0x62, ch_dot, 0x63, 0] (replicate 32 0) = Some g \<and>
    take 11 g = [0x41, 0x42, 0x20, 0x20, 0x20, 0x20, 0x20, 0x20, 0x43, 0x20, 0x20] \<and>
    nft32_fatname_to_name g (replicate 13 0) = Some ([0x41, 0x42, ch_dot, 0x43] @ replicate 9 0)) \<and>
   (\<exists>g. nft32_name_to_fatname [0x61, 0x62, 0] (replicate 32 0) = Some g \<and>
    nft32_fatname_to_name g (replicate 13 0) = Some ([0x41, 0x42] @ replicate 11 0))"
proof -
  have c: "map toupper_c ([0x61, 0x62] @ replicate (8 - length [0x61, 0x62 :: byte]) ch_space @ [0x63]
      @ replicate (3 - length [0x63 :: byte]) ch_space) = [0x41, 0x42, 0x20, 0x20, 0x20, 0x20, 0x20, 0x20, 0x43, 0x20, 0x20]"
    "splice (replicate 13 0) 0 (map toupper_c ([0x61, 0x62] @ (if [0x63] = ([] :: byte list) then [] else ch_dot # [0x63])) @ [0]) =
      [0x41, 0x42, ch_dot, 0x43] @ replicate 9 0"
    "splice (replicate 13 0) 0 (map toupper_c ([0x61, 0x62] @ (if [] = ([] :: byte list) then [] else ch_dot # [])) @ [0]) =
      [0x41, 0x42] @ replicate 11 0" by code_simp+
  have l: "[0x61, 0x62] \<noteq> ([] :: byte list)" "length [0x61, 0x62 :: byte] \<le> 8" "0 \<notin> set [0x61, 0x62 :: byte]"
    "ch_dot \<notin> set [0x61, 0x62]" "ch_space \<notin> set [0x61, 0x62]" by code_simp+
  have e: "length [0x63 :: byte] \<le> 3" "0 \<notin> set [0x63 :: byte]" "ch_space \<notin> set [0x63]"
    "length ([] :: byte list) \<le> 3" "0 \<notin> set ([] :: byte list)" "ch_space \<notin> set []" by code_simp+
  have b: "12 \<le> length (replicate 32 (0 :: byte))" "0 \<in> set (drop 11 (replicate 32 (0 :: byte)))" "13 \<le> length (replicate 13 (0 :: byte))"
    by simp_all
  from name83_roundtrip [OF l e(1-3) disjI1 [OF refl] b, of "[]"] name83_roundtrip [OF l e(4-6) disjI2 [OF conjI [OF refl refl]] b, of "[]"]
  show ?thesis unfolding c by (auto simp del: replicate.simps)
qed

end
