(* ===== verification/Entry.thy ===== *)
theory Entry
  imports Ecache Fatname
begin

text \<open>
  Directory entries, from \<open>src/entry.c\<close> and \<open>include/nft32/entry.h\<close> (built without
  \<open>ENTRY_WITH_TIME\<close>). A directory cluster is read, decoded to an array of 32-byte entries,
  walked by a handler that may change an entry in place, encoded and written back.
\<close>

unbundle bit_operations_syntax

section \<open>Entries\<close>

definition ENTRY_FREE :: byte where "ENTRY_FREE = 0xE5"
definition ENTRY_END :: byte where "ENTRY_END = 0x00"
definition FILE_DIRECTORY :: byte where "FILE_DIRECTORY = 0x10"
definition FILE_ARCHIVE :: byte where "FILE_ARCHIVE = 0x20"

record directory_entry =
  de_file_name :: "byte list"
  de_name_hash :: u32
  de_attributes :: byte
  de_rca :: u32
  de_dca :: u32
  de_file_size :: u32
  de_checksum :: u32

definition bytes_of_de :: "directory_entry \<Rightarrow> byte list" where
  "bytes_of_de e = de_file_name e @ bytes_of_u32 (de_name_hash e) @ [de_attributes e] @ bytes_of_u32 (de_rca e)
     @ bytes_of_u32 (de_dca e) @ bytes_of_u32 (de_file_size e) @ bytes_of_u32 (de_checksum e)"

definition de_of_bytes :: "byte list \<Rightarrow> directory_entry" where
  "de_of_bytes bs = \<lparr>de_file_name = take 11 bs, de_name_hash = get_u32 bs 11, de_attributes = bs ! 15,
     de_rca = get_u32 bs 16, de_dca = get_u32 bs 20, de_file_size = get_u32 bs 24, de_checksum = get_u32 bs 28\<rparr>"

text \<open>The journal casts a \<open>directory_entry_t\<close> pointer to its own struct of the same layout.\<close>

definition as_unsqueezed :: "directory_entry \<Rightarrow> unsqueezed_entry" where
  "as_unsqueezed e = ue_of_bytes (bytes_of_de e)"

record entry_info =
  ei_ca :: u32
  ei_offset :: int

definition is_dir_entry :: "directory_entry \<Rightarrow> bool" where
  "is_dir_entry e = (de_attributes e AND FILE_DIRECTORY = FILE_DIRECTORY)"

definition entry_sum :: "directory_entry \<Rightarrow> u32" where
  "entry_sum e = nft32_murmur3_x86_32 (bytes_of_de e) (of_nat sizeof_entry) 0"

text \<open>The hash of an 11-byte name; a shorter buffer is read out of bounds.\<close>

definition hash11 :: "byte list \<Rightarrow> u32 option" where
  "hash11 name = (if length name < 11 then None else Some (nft32_murmur3_x86_32 name 11 0))"

text \<open>Validation clears the checksum field, and restores it only when the entry is valid.\<close>

definition validate_entry :: "directory_entry \<Rightarrow> bool \<times> directory_entry" where
  "validate_entry e = (let entry_checksum = de_checksum e; e0 = e\<lparr>de_checksum := 0\<rparr>
     in if entry_sum e0 = entry_checksum then (True, e0\<lparr>de_checksum := entry_checksum\<rparr>) else (False, e0))"

definition create_entry :: "byte list \<Rightarrow> bool \<Rightarrow> u32 \<Rightarrow> u32 \<Rightarrow> directory_entry option" where
  "create_entry fullname is_dir first_cluster file_size =
    (if length fullname < 11 then None
     else let name = take 11 fullname in
       Some \<lparr>de_file_name = name, de_name_hash = nft32_murmur3_x86_32 name 11 0,
         de_attributes = (if is_dir then FILE_DIRECTORY else FILE_ARCHIVE),
         de_rca = FAT_CLUSTER_BAD, de_dca = first_cluster,
         de_file_size = (if is_dir then 1 else file_size), de_checksum = 0\<rparr>)"

section \<open>Directory clusters\<close>

definition entry_at :: "byte list \<Rightarrow> nat \<Rightarrow> directory_entry" where
  "entry_at dec i = de_of_bytes (take sizeof_entry (drop (i * sizeof_entry) dec))"

definition put_entry :: "byte list \<Rightarrow> nat \<Rightarrow> directory_entry \<Rightarrow> byte list" where
  "put_entry dec i e = splice dec (i * sizeof_entry) (bytes_of_de e)"

definition decoded_len :: "fat_data \<Rightarrow> nat" where
  "decoded_len fi = unat (cluster_size fi) div sizeof_encoded"

definition entries_per_cluster :: "fat_data \<Rightarrow> nat" where
  "entries_per_cluster fi = unat (cluster_size fi) div sizeof_encoded div sizeof_entry"

text \<open>Reading and decoding a cluster into the two buffers of the caller.\<close>

definition read_encoded_cluster :: "u32 \<Rightarrow> byte list \<Rightarrow> fat_data \<Rightarrow>
    ('w, 'z) ecache_state_scheme \<Rightarrow> ((int \<times> byte list \<times> byte list) \<times> ('w, 'z) ecache_state_scheme) option" where
  "read_encoded_cluster ca enc fi s =
    (if is_cluster_bad ca
     then do { (_, s) \<leftarrow> errors_register_error (errcode BAD_CLUSTER_ERROR) fi s; Some ((0, enc, []), s) }
     else do {
       ((r, enc), s) \<leftarrow> read_cluster ca enc (int_of_u32 (cluster_size fi)) fi s;
       if r = 0
       then do { (_, s) \<leftarrow> errors_register_error (errcode READ_CLUSTER_ERROR) fi s; Some ((0, enc, []), s) }
       else Some ((1, enc, nft32_unpack_memory (u16s_of_bytes enc) (decoded_len fi)), s) })"

definition encode_cluster :: "byte list \<Rightarrow> byte list \<Rightarrow> fat_data \<Rightarrow> byte list" where
  "encode_cluster dec enc fi = splice enc 0
     (bytes_of_u16s (nft32_pack_memory dec (u16s_of_bytes enc) (decoded_len fi)))"

text \<open>A handler gets the place, the entry and its context; it returns its result, the entry and
  the context as it leaves them. A \<open>NULL\<close> handler is undefined when it is called.\<close>

type_synonym ('c, 's) handler =
  "entry_info \<Rightarrow> directory_entry \<Rightarrow> 'c \<Rightarrow> 's \<Rightarrow> ((int \<times> directory_entry \<times> 'c) \<times> 's) option"

primrec iterate_slots :: "nat \<Rightarrow> ('c, 's) handler option \<Rightarrow> nat \<Rightarrow> u32 \<Rightarrow> byte list \<Rightarrow> 'c \<Rightarrow> 's \<Rightarrow>
    ((int \<times> byte list \<times> 'c) \<times> 's) option" where
  "iterate_slots 0 handler i ca dec ctx s = Some ((0, dec, ctx), s)"
| "iterate_slots (Suc k) handler i ca dec ctx s =
    (if de_file_name (entry_at dec i) ! 0 = ENTRY_END then Some ((0, dec, ctx), s)
     else do {
       h \<leftarrow> handler;
       ((r, e, ctx), s) \<leftarrow> h \<lparr>ei_ca = ca, ei_offset = int i\<rparr> (entry_at dec i) ctx s;
       let dec = put_entry dec i e;
       if r \<noteq> 0 then Some ((r, dec, ctx), s)
       else iterate_slots k handler (Suc i) ca dec ctx s })"

partial_function (option) entry_iterate ::
    "u32 \<Rightarrow> ('c, ('w, 'z) ecache_state_scheme) handler option \<Rightarrow> 'c \<Rightarrow> fat_data \<Rightarrow>
     ('w, 'z) ecache_state_scheme \<Rightarrow> ((int \<times> 'c) \<times> ('w, 'z) ecache_state_scheme) option" where
  "entry_iterate ca handler ctx fi s = do {
     ((ok, enc, dec), s) \<leftarrow> read_encoded_cluster ca (replicate (unat (cluster_size fi)) 0) fi s;
     if ok = 0 then Some ((0, ctx), s)
     else do {
       ((exit, dec, ctx), s) \<leftarrow> iterate_slots (entries_per_cluster fi) handler 0 ca dec ctx s;
       let enc = encode_cluster dec enc fi;
       (r, s) \<leftarrow> write_cluster ca enc (int_of_u32 (cluster_size fi)) fi s;
       if r = 0 then do {
         (_, s) \<leftarrow> errors_register_error (errcode ERROR_CORRECTION_ERROR) fi s;
         Some ((exit, ctx), s) }
       else do {
         (nca, s) \<leftarrow> read_fat ca fi s;
         if \<not> is_cluster_end nca \<and> exit = 0 then entry_iterate nca handler ctx fi s
         else Some ((exit, ctx), s) } } }"

section \<open>Index\<close>

text \<open>The third argument of \<open>ecache_insert\<close> is the code's expression: it is 1 for a file.\<close>

definition index_flag :: "directory_entry \<Rightarrow> byte" where
  "index_flag e = (if \<not> is_dir_entry e then 1 else 0)"

definition index_handler :: "(nat option, ('w, 'z) ecache_state_scheme) handler" where
  "index_handler info e ctx s = (let (valid, e) = validate_entry e in
     if \<not> valid \<or> de_file_name e ! 0 = ENTRY_FREE then Some ((0, e, ctx), s)
     else do {
       entry_hash \<leftarrow> hash11 (de_file_name e);
       (ctx, s) \<leftarrow> ecache_insert ctx entry_hash (index_flag e) (de_dca e) s;
       Some ((0, e, ctx), s) })"

definition entry_index :: "u32 \<Rightarrow> nat option \<Rightarrow> fat_data \<Rightarrow>
    ('w, 'z) ecache_state_scheme \<Rightarrow> ((int \<times> nat option) \<times> ('w, 'z) ecache_state_scheme) option" where
  "entry_index ca cache fi s = entry_iterate ca (Some index_handler) cache fi s"

section \<open>Search\<close>

record entry_ctx =
  ctx_name :: "byte list"
  ctx_name_hash :: u32
  ctx_meta :: "directory_entry option"
  ctx_index :: "nat option"
  ctx_ji :: int

definition search_handler :: "(entry_ctx, ('w, 'z) ecache_state_scheme) handler" where
  "search_handler info e ctx s = (let (valid, e) = validate_entry e in
     if \<not> valid \<or> de_file_name e ! 0 = ENTRY_FREE then Some ((0, e, ctx), s)
     else if ctx_name_hash ctx \<noteq> de_name_hash e then Some ((0, e, ctx), s)
     else do {
       d \<leftarrow> nft32_str_strncmp (ctx_name ctx) (de_file_name e) 11;
       if d \<noteq> 0 then Some ((0, e, ctx), s)
       else Some ((1, e, ctx\<lparr>ctx_meta := map_option (\<lambda>_. e\<lparr>de_rca := ei_ca info\<rparr>) (ctx_meta ctx)\<rparr>), s) })"

text \<open>\<open>meta\<close> is the caller's buffer (\<open>None\<close> for \<open>NULL\<close>), returned as the call leaves it.\<close>

definition entry_search :: "byte list option \<Rightarrow> u32 \<Rightarrow> nat option \<Rightarrow> directory_entry option \<Rightarrow> fat_data \<Rightarrow>
    ('w, 'z) ecache_state_scheme \<Rightarrow> ((int \<times> directory_entry option) \<times> ('w, 'z) ecache_state_scheme) option" where
  "entry_search name ca cache meta fi s = (case name of None \<Rightarrow> Some ((0, meta), s)
     | Some name \<Rightarrow> do {
         h \<leftarrow> hash11 name;
         (hit, s) \<leftarrow> (if cache \<noteq> None then ecache_find cache h s else Some (None, s));
         (case hit of
            Some a \<Rightarrow> do {
              n \<leftarrow> ec_heap s a;
              if meta = None then Some ((1, meta), s)
              else do {
                e \<leftarrow> create_entry name (IS_ECACHE_DIR n) (ec_ca n) 0;
                Some ((1, Some e), s) } }
          | None \<Rightarrow> do {
              let ctx = \<lparr>ctx_name = name, ctx_name_hash = h, ctx_meta = meta, ctx_index = None, ctx_ji = 0\<rparr>;
              ((r, ctx), s) \<leftarrow> entry_iterate ca (Some search_handler) ctx fi s;
              Some ((if r \<noteq> 0 then 1 else 0, ctx_meta ctx), s) }) })"

section \<open>Edit\<close>

text \<open>The new roots that \<open>ecache_delete\<close> and \<open>ecache_insert\<close> return are dropped.\<close>

definition edit_handler :: "fat_data \<Rightarrow> (entry_ctx, ('w, 'z) ecache_state_scheme) handler" where
  "edit_handler fi info e ctx s = (let (valid, e) = validate_entry e in
     if \<not> valid \<or> de_file_name e ! 0 = ENTRY_FREE then Some ((0, e, ctx), s)
     else if ctx_name_hash ctx \<noteq> de_name_hash e then Some ((0, e, ctx), s)
     else do {
       d \<leftarrow> nft32_str_strncmp (de_file_name e) (ctx_name ctx) 11;
       if d \<noteq> 0 then Some ((0, e, ctx), s)
       else do {
         m \<leftarrow> ctx_meta ctx;
         (ji, s) \<leftarrow> journal_add_operation EDIT_OP (ei_ca info) (ei_offset info) (as_unsqueezed m) fi s;
         (_, s) \<leftarrow> (if ctx_index ctx \<noteq> None then do {
             src \<leftarrow> hash11 (ctx_name ctx);
             (_, s) \<leftarrow> ecache_delete (ctx_index ctx) src s;
             dst \<leftarrow> hash11 (de_file_name e);
             ecache_insert (ctx_index ctx) dst (index_flag e) (de_dca e) s }
           else Some (None, s));
         Some ((1, m, ctx\<lparr>ctx_ji := ji\<rparr>), s) } })"

definition entry_edit :: "u32 \<Rightarrow> nat option \<Rightarrow> byte list \<Rightarrow> directory_entry \<Rightarrow> fat_data \<Rightarrow>
    ('w, 'z) ecache_state_scheme \<Rightarrow> (int \<times> ('w, 'z) ecache_state_scheme) option" where
  "entry_edit ca cache name meta fi s = do {
     h \<leftarrow> hash11 name;
     let ctx = \<lparr>ctx_name = name, ctx_name_hash = h, ctx_meta = Some meta, ctx_index = cache, ctx_ji = -1\<rparr>;
     ((result, ctx), s) \<leftarrow> entry_iterate ca (Some (edit_handler fi)) ctx fi s;
     (_, s) \<leftarrow> (if ctx_ji ctx \<ge> 0 then journal_solve_operation (ctx_ji ctx) fi s else Some (0, s));
     Some (result, s) }"

section \<open>Add\<close>

text \<open>The first slot of a cluster the code takes for a new entry: an invalid, a free or the end
  entry. Validation leaves its mark on the entries it passes.\<close>

primrec find_slot :: "nat \<Rightarrow> nat \<Rightarrow> byte list \<Rightarrow> nat option \<times> byte list" where
  "find_slot 0 i dec = (None, dec)"
| "find_slot (Suc k) i dec = (let (valid, e) = validate_entry (entry_at dec i); dec = put_entry dec i e in
     if \<not> valid \<or> de_file_name e ! 0 = ENTRY_FREE \<or> de_file_name e ! 0 = ENTRY_END then (Some i, dec)
     else find_slot k (Suc i) dec)"

definition end_next :: "byte list \<Rightarrow> nat \<Rightarrow> fat_data \<Rightarrow> byte list" where
  "end_next dec i fi = (if i + 1 < entries_per_cluster fi then dec[(i + 1) * sizeof_entry := ENTRY_END] else dec)"

text \<open>Placing the entry at slot \<open>i\<close>; the result is that of the whole call.\<close>

definition place_entry :: "u32 \<Rightarrow> nat option \<Rightarrow> directory_entry \<Rightarrow> nat \<Rightarrow> byte list \<Rightarrow> byte list \<Rightarrow> fat_data \<Rightarrow>
    ('w, 'z) ecache_state_scheme \<Rightarrow> ((int \<times> directory_entry) \<times> ('w, 'z) ecache_state_scheme) option" where
  "place_entry ca cache meta i enc dec fi s = do {
     (ji, s) \<leftarrow> journal_add_operation ADD_OP ca (int i) (as_unsqueezed meta) fi s;
     let meta = meta\<lparr>de_rca := ca\<rparr>;
     let meta = meta\<lparr>de_checksum := entry_sum meta\<rparr>;
     let dec = end_next (put_entry dec i meta) i fi;
     (_, s) \<leftarrow> (if cache \<noteq> None then do {
         entry_hash \<leftarrow> hash11 (de_file_name meta);
         ecache_insert cache entry_hash (index_flag meta) (de_dca meta) s }
       else Some (None, s));
     (r, s) \<leftarrow> write_cluster ca (encode_cluster dec enc fi) (int_of_u32 (cluster_size fi)) fi s;
     if r = 0 then do {
       (_, s) \<leftarrow> errors_register_error (errcode ENTRY_ADD_ERROR) fi s;
       Some ((-6, meta), s) }
     else do {
       (_, s) \<leftarrow> journal_solve_operation ji fi s;
       Some ((1, meta), s) } }"

text \<open>The next cluster of the directory, extended by one when \<open>ca\<close> is its last; \<open>None\<close> as the
  inner result stands for the \<open>break\<close>.\<close>

definition next_or_extend :: "u32 \<Rightarrow> fat_data \<Rightarrow>
    ('w, 'z) ecache_state_scheme \<Rightarrow> (u32 option \<times> ('w, 'z) ecache_state_scheme) option" where
  "next_or_extend ca fi s = do {
     (nca, s) \<leftarrow> read_fat ca fi s;
     if is_cluster_bad nca then do {
       (_, s) \<leftarrow> errors_register_error (errcode BAD_CLUSTER_IN_CHAIN_ERROR) fi s;
       Some (None, s) }
     else if is_cluster_end nca then do {
       (off, s) \<leftarrow> get_cluster_offset fi s;
       (nca, s) \<leftarrow> alloc_cluster fi off s;
       if is_cluster_bad nca then do {
         (_, s) \<leftarrow> errors_register_error (errcode CLUSTER_ALLOCATION_ERROR) fi s;
         Some (None, s) }
       else do {
         (r, s) \<leftarrow> set_cluster_end nca fi s;
         if r = 0 then do {
           (_, s) \<leftarrow> errors_register_error (errcode ALLOCATED_CLUSTER_BAD_ERROR) fi s;
           Some (None, s) }
         else do {
           (r, s) \<leftarrow> write_fat ca nca fi s;
           if r = 0 then do {
             (_, s) \<leftarrow> errors_register_error (errcode CLUSTER_CHAIN_APPEND_ERROR) fi s;
             Some (None, s) }
           else Some (Some nca, s) } } }
     else Some (Some nca, s) }"

partial_function (option) entry_add :: "u32 \<Rightarrow> nat option \<Rightarrow> directory_entry \<Rightarrow> fat_data \<Rightarrow>
    ('w, 'z) ecache_state_scheme \<Rightarrow> ((int \<times> directory_entry) \<times> ('w, 'z) ecache_state_scheme) option" where
  "entry_add ca cache meta fi s = do {
     ((ok, enc, dec), s) \<leftarrow> read_encoded_cluster ca (replicate (unat (cluster_size fi)) 0) fi s;
     if ok = 0 then Some ((-1, meta), s)
     else (case find_slot (entries_per_cluster fi) 0 dec of
       (Some i, dec) \<Rightarrow> place_entry ca cache meta i enc dec fi s
     | (None, dec) \<Rightarrow> do {
         (nxt, s) \<leftarrow> next_or_extend ca fi s;
         (case nxt of
            None \<Rightarrow> Some ((-1, meta), s)
          | Some nca \<Rightarrow> if is_cluster_end nca then Some ((-1, meta), s) else entry_add nca cache meta fi s) }) }"

section \<open>Erase and remove\<close>

text \<open>Erasing a directory recurses over its entries; \<open>rec\<close> is the recursive call.\<close>

primrec erase_slots :: "(u32 \<Rightarrow> bool \<Rightarrow> ('w, 'z) ecache_state_scheme \<Rightarrow> (int \<times> ('w, 'z) ecache_state_scheme) option) \<Rightarrow>
    nat \<Rightarrow> nat \<Rightarrow> byte list \<Rightarrow> fat_data \<Rightarrow>
    ('w, 'z) ecache_state_scheme \<Rightarrow> (int \<times> ('w, 'z) ecache_state_scheme) option" where
  "erase_slots rec 0 i dec fi s = Some (0, s)"
| "erase_slots rec (Suc k) i dec fi s = (let e = entry_at dec i in
     if de_file_name e ! 0 = ENTRY_END then Some (0, s)
     else let (valid, e) = validate_entry e in
       if valid \<and> de_file_name e ! 0 \<noteq> ENTRY_FREE then do {
         (r, s) \<leftarrow> rec (de_dca e) (\<not> is_dir_entry e) s;
         (_, s) \<leftarrow> (if r < 0 then errors_register_error (errcode RECURSIVE_ERASE_ERROR) fi s else Some (0, s));
         erase_slots rec k (Suc i) dec fi s }
       else erase_slots rec k (Suc i) dec fi s)"

partial_function (option) erase_dir ::
    "(u32 \<Rightarrow> bool \<Rightarrow> ('w, 'z) ecache_state_scheme \<Rightarrow> (int \<times> ('w, 'z) ecache_state_scheme) option) \<Rightarrow>
     u32 \<Rightarrow> fat_data \<Rightarrow> ('w, 'z) ecache_state_scheme \<Rightarrow> (int \<times> ('w, 'z) ecache_state_scheme) option" where
  "erase_dir rec ca fi s = do {
     ((ok, enc, dec), s) \<leftarrow> read_encoded_cluster ca (replicate (unat (cluster_size fi)) 0) fi s;
     if ok = 0 then Some (1, s)
     else do {
       (nca, s) \<leftarrow> read_fat ca fi s;
       (_, s) \<leftarrow> erase_slots rec (entries_per_cluster fi) 0 dec fi s;
       (r, s) \<leftarrow> dealloc_cluster ca fi s;
       (_, s) \<leftarrow> (if r = 0 then errors_register_error (errcode CLUSTER_DEALLOCATION_ERROR) fi s else Some (0, s));
       if \<not> is_cluster_end nca then erase_dir rec nca fi s else Some (1, s) } }"

text \<open>The depth of the recursion: directories nested deeper than there are clusters contain one
  of their ancestors, and then the C code runs out of stack.\<close>

primrec entry_erase_rec :: "nat \<Rightarrow> fat_data \<Rightarrow> u32 \<Rightarrow> bool \<Rightarrow>
    ('w, 'z) ecache_state_scheme \<Rightarrow> (int \<times> ('w, 'z) ecache_state_scheme) option" where
  "entry_erase_rec 0 fi ca file s = None"
| "entry_erase_rec (Suc depth) fi ca file s =
    (if file then dealloc_chain ca fi s else erase_dir (entry_erase_rec depth fi) ca fi s)"

definition erase_depth :: "fat_data \<Rightarrow> nat" where
  "erase_depth fi = unat (total_clusters fi) + 2"

definition remove_handler :: "fat_data \<Rightarrow> (entry_ctx, ('w, 'z) ecache_state_scheme) handler" where
  "remove_handler fi info e ctx s = (let (valid, e) = validate_entry e in
     if \<not> valid \<or> de_file_name e ! 0 = ENTRY_FREE then Some ((0, e, ctx), s)
     else do {
       d \<leftarrow> nft32_str_strncmp (de_file_name e) (ctx_name ctx) 11;
       if d \<noteq> 0 then Some ((0, e, ctx), s)
       else do {
         (_, s) \<leftarrow> (if ctx_index ctx \<noteq> None then do {
             src \<leftarrow> hash11 (ctx_name ctx);
             ecache_delete (ctx_index ctx) src s }
           else Some (None, s));
         (ji, s) \<leftarrow> journal_add_operation DEL_OP (ei_ca info) (ei_offset info) (as_unsqueezed e) fi s;
         let ctx = ctx\<lparr>ctx_ji := ji\<rparr>;
         (r, s) \<leftarrow> entry_erase_rec (erase_depth fi) fi (de_dca e) (\<not> is_dir_entry e) s;
         if r < 0 then do {
           (_, s) \<leftarrow> errors_register_error (errcode CLUSTER_CHAIN_DELETION_ERROR) fi s;
           Some ((1, e, ctx), s) }
         else Some ((1, e\<lparr>de_file_name := (de_file_name e)[0 := ENTRY_FREE]\<rparr>, ctx), s) } })"

definition entry_remove :: "u32 \<Rightarrow> byte list \<Rightarrow> nat option \<Rightarrow> fat_data \<Rightarrow>
    ('w, 'z) ecache_state_scheme \<Rightarrow> (int \<times> ('w, 'z) ecache_state_scheme) option" where
  "entry_remove ca name cache fi s = do {
     let ctx = \<lparr>ctx_name = name, ctx_name_hash = 0, ctx_meta = None, ctx_index = cache, ctx_ji = -1\<rparr>;
     ((result, ctx), s) \<leftarrow> entry_iterate ca (Some (remove_handler fi)) ctx fi s;
     (_, s) \<leftarrow> (if ctx_ji ctx \<ge> 0 then journal_solve_operation (ctx_ji ctx) fi s else Some (0, s));
     Some (result, s) }"

end
