(* ===== verification/Ctable.thy ===== *)
theory Ctable
  imports Entry
begin

text \<open>
  The content table of \<open>src/ctable.c\<close> and \<open>include/nft32/ctable.h\<close>: the fifty descriptors
  that \<open>open\<close> hands out, their allocation under the table lock, their accessors, and the
  directory index a descriptor owns. The name union of a descriptor is the byte array both of
  its members share.
\<close>

unbundle bit_operations_syntax

section \<open>Descriptors\<close>

type_synonym ci_t = int

definition CONTENT_TABLE_SIZE :: nat where "CONTENT_TABLE_SIZE = 50"

datatype content_type_t = CONTENT_TYPE_UNKNOWN | CONTENT_TYPE_FILE | CONTENT_TYPE_DIRECTORY | CONTENT_TYPE_EMPTY

record content_t =
  ct_names :: "byte list"
  ct_index :: "nat option"
  ct_parent_cluster :: u32
  ct_data_cluster :: u32
  ct_meta :: directory_entry
  ct_type :: content_type_t
  ct_mode :: byte

text \<open>The members of the union: \<open>directory.name[12]\<close>, and \<open>file.name[9]\<close> followed by
  \<open>file.extension[4]\<close>.\<close>

definition file_name_at :: nat where "file_name_at = 0"
definition file_extension_at :: nat where "file_extension_at = 9"

record cinfo_t =
  ci_full_name :: "byte list"
  ci_name :: "byte list"
  ci_extention :: "byte list"
  ci_size :: u32
  ci_type :: int

definition STAT_FILE :: int where "STAT_FILE = 1"
definition STAT_DIR :: int where "STAT_DIR = 2"

record 'w ctable_state = "'w ecache_state" +
  content_table :: "content_t list"
  content_lock :: lock_t

definition lock_content :: "('w, 'z) ctable_state_scheme \<Rightarrow> (int \<times> ('w, 'z) ctable_state_scheme) option" where
  "lock_content s = (let (r, l) = THR_require_write (Some (content_lock s)) get_thread_num
     in Some (r, s\<lparr>content_lock := the l\<rparr>))"

definition unlock_content :: "('w, 'z) ctable_state_scheme \<Rightarrow> (int \<times> ('w, 'z) ctable_state_scheme) option" where
  "unlock_content s = (let (r, l) = THR_release_write (Some (content_lock s)) get_thread_num
     in Some (r, s\<lparr>content_lock := the l\<rparr>))"

text \<open>The guard most functions start with.\<close>

definition ci_bad :: "ci_t \<Rightarrow> bool" where
  "ci_bad ci = (ci \<ge> int CONTENT_TABLE_SIZE \<or> ci < 0)"

definition content_at :: "ci_t \<Rightarrow> ('w, 'z) ctable_state_scheme \<Rightarrow> content_t" where
  "content_at ci s = content_table s ! nat ci"

definition put_content_at :: "ci_t \<Rightarrow> (content_t \<Rightarrow> content_t) \<Rightarrow>
    ('w, 'z) ctable_state_scheme \<Rightarrow> ('w, 'z) ctable_state_scheme" where
  "put_content_at ci f s = s\<lparr>content_table := (content_table s)[nat ci := f (content_at ci s)]\<rparr>"

section \<open>Allocation\<close>

definition NO_ECACHE :: "nat option" where "NO_ECACHE = None"

definition ctable_init :: "('w, 'z) ctable_state_scheme \<Rightarrow> (unit \<times> ('w, 'z) ctable_state_scheme) option" where
  "ctable_init s = Some ((), s\<lparr>content_table :=
     map (\<lambda>c. c\<lparr>ct_type := CONTENT_TYPE_EMPTY, ct_index := NO_ECACHE\<rparr>) (content_table s)\<rparr>)"

definition init_content :: "content_t \<Rightarrow> content_t" where
  "init_content c = c\<lparr>ct_type := CONTENT_TYPE_UNKNOWN, ct_parent_cluster := FAT_CLUSTER_BAD, ct_index := NO_ECACHE\<rparr>"

primrec first_empty :: "content_t list \<Rightarrow> int \<Rightarrow> int" where
  "first_empty [] i = -1"
| "first_empty (c # cs) i = (if ct_type c = CONTENT_TYPE_EMPTY then i else first_empty cs (i + 1))"

definition alloc_ci :: "('w, 'z) ctable_state_scheme \<Rightarrow> (ci_t \<times> ('w, 'z) ctable_state_scheme) option" where
  "alloc_ci s = do {
     (ok, s) \<leftarrow> lock_content s;
     if ok \<noteq> 0 then do {
       let empty = first_empty (content_table s) 0;
       let s = (if empty \<ge> 0 then put_content_at empty init_content s else s);
       (_, s) \<leftarrow> unlock_content s;
       Some (empty, s) }
     else Some (-1, s) }"

text \<open>The names are stored with \<open>strncpy\<close>; \<open>name83\<close> and \<open>meta\<close> are the caller's
  buffers.\<close>

definition setup_names :: "bool \<Rightarrow> byte list \<Rightarrow> byte list \<Rightarrow> byte list option" where
  "setup_names is_dir name83 names =
    (if is_dir then nft32_str_strncpy names name83 11
     else do {
       (name, ext) \<leftarrow> nft32_unpack_83_name name83 (replicate 12 0) (replicate 6 0);
       names \<leftarrow> nft32_str_strncpy names name 8;
       tl \<leftarrow> nft32_str_strncpy (drop file_extension_at names) ext 3;
       Some (take file_extension_at names @ tl) })"

definition setup_content :: "ci_t \<Rightarrow> bool \<Rightarrow> byte list \<Rightarrow> directory_entry option \<Rightarrow> byte \<Rightarrow>
    ('w, 'z) ctable_state_scheme \<Rightarrow> (int \<times> ('w, 'z) ctable_state_scheme) option" where
  "setup_content ci is_dir name83 meta mode s =
    (if ci_bad ci then Some (0, s)
     else do {
       names \<leftarrow> setup_names is_dir name83 (ct_names (content_at ci s));
       let s = put_content_at ci (\<lambda>c. c\<lparr>ct_type := if is_dir then CONTENT_TYPE_DIRECTORY else CONTENT_TYPE_FILE,
           ct_names := names\<rparr>) s;
       let s = (case meta of None \<Rightarrow> s
         | Some m \<Rightarrow> put_content_at ci (\<lambda>c. c\<lparr>ct_meta := m, ct_parent_cluster := de_rca m, ct_data_cluster := de_dca m\<rparr>) s);
       Some (1, put_content_at ci (\<lambda>c. c\<lparr>ct_mode := mode\<rparr>) s) })"

section \<open>Accessors\<close>

definition get_content_data_ca :: "ci_t \<Rightarrow> ('w, 'z) ctable_state_scheme \<Rightarrow> u32" where
  "get_content_data_ca ci s = (if ci_bad ci then FAT_CLUSTER_BAD else ct_data_cluster (content_at ci s))"

text \<open>On a bad index the result is \<open>FAT_CLUSTER_BAD\<close> as an \<open>int\<close>.\<close>

definition set_content_data_ca :: "ci_t \<Rightarrow> u32 \<Rightarrow>
    ('w, 'z) ctable_state_scheme \<Rightarrow> (int \<times> ('w, 'z) ctable_state_scheme) option" where
  "set_content_data_ca ci ca s = (if ci_bad ci then Some (int_of_u32 FAT_CLUSTER_BAD, s)
     else Some (1, put_content_at ci (\<lambda>c. c\<lparr>ct_data_cluster := ca\<rparr>) s))"

definition get_content_size :: "ci_t \<Rightarrow> ('w, 'z) ctable_state_scheme \<Rightarrow> u32" where
  "get_content_size ci s = (if ci_bad ci then 0 else de_file_size (ct_meta (content_at ci s)))"

text \<open>The pointer to the eleven name bytes, \<open>None\<close> for \<open>NULL\<close>.\<close>

definition get_content_name :: "ci_t \<Rightarrow> ('w, 'z) ctable_state_scheme \<Rightarrow> byte list option" where
  "get_content_name ci s = (if ci_bad ci then None else Some (de_file_name (ct_meta (content_at ci s))))"

definition get_content_root_ca :: "ci_t \<Rightarrow> ('w, 'z) ctable_state_scheme \<Rightarrow> u32" where
  "get_content_root_ca ci s = (if ci_bad ci then FAT_CLUSTER_BAD else ct_parent_cluster (content_at ci s))"

definition get_content_mode :: "ci_t \<Rightarrow> ('w, 'z) ctable_state_scheme \<Rightarrow> byte" where
  "get_content_mode ci s = (if ci_bad ci then 0 else ct_mode (content_at ci s))"

definition get_content_type :: "ci_t \<Rightarrow> ('w, 'z) ctable_state_scheme \<Rightarrow> content_type_t" where
  "get_content_type ci s = (if ci_bad ci then CONTENT_TYPE_UNKNOWN else ct_type (content_at ci s))"

definition get_content_ecache :: "ci_t \<Rightarrow> ('w, 'z) ctable_state_scheme \<Rightarrow> nat option" where
  "get_content_ecache ci s = (if ci_bad ci then NO_ECACHE else ct_index (content_at ci s))"

text \<open>\<open>stat_content\<close> does not check the index; outside the table it is undefined. It returns
  the caller's structure as it leaves it.\<close>

definition stat_content :: "ci_t \<Rightarrow> cinfo_t \<Rightarrow> ('w, 'z) ctable_state_scheme \<Rightarrow> (int \<times> cinfo_t) option" where
  "stat_content ci info s =
    (if ci_bad ci then None
     else let c = content_at ci s in (case ct_type c of
       CONTENT_TYPE_DIRECTORY \<Rightarrow> do {
         full \<leftarrow> nft32_str_memcpy (ci_full_name info) (ct_names c) 11;
         Some (1, info\<lparr>ci_size := 0, ci_full_name := full, ci_type := STAT_DIR\<rparr>) }
     | CONTENT_TYPE_FILE \<Rightarrow> do {
         full \<leftarrow> nft32_str_memcpy (ci_full_name info) (de_file_name (ct_meta c)) 11;
         name \<leftarrow> nft32_str_strncpy (ci_name info) (drop file_name_at (ct_names c)) 8;
         ext \<leftarrow> nft32_str_strncpy (ci_extention info) (drop file_extension_at (ct_names c)) 3;
         Some (1, info\<lparr>ci_full_name := full, ci_name := name, ci_extention := ext, ci_type := STAT_FILE\<rparr>) }
     | _ \<Rightarrow> Some (0, info)))"

section \<open>Index and destruction\<close>

text \<open>The old index is freed and the traversal inserts below the old root, which the descriptor
  still points to.\<close>

definition index_content :: "ci_t \<Rightarrow> fat_data \<Rightarrow>
    ('w, 'z) ctable_state_scheme \<Rightarrow> (int \<times> ('w, 'z) ctable_state_scheme) option" where
  "index_content ci fi s =
    (if ci_bad ci then Some (0, s)
     else do {
       let root = ct_index (content_at ci s);
       (_, s) \<leftarrow> (if root \<noteq> None then ecache_free root s else Some (0, s));
       ((_, root), s) \<leftarrow> entry_index (ct_data_cluster (content_at ci s)) root fi s;
       Some (1, put_content_at ci (\<lambda>c. c\<lparr>ct_index := root\<rparr>) s) })"

definition destroy_content :: "ci_t \<Rightarrow> ('w, 'z) ctable_state_scheme \<Rightarrow> (int \<times> ('w, 'z) ctable_state_scheme) option" where
  "destroy_content ci s =
    (if ci_bad ci \<or> ct_type (content_at ci s) = CONTENT_TYPE_EMPTY then Some (0, s)
     else do {
       (ok, s) \<leftarrow> lock_content s;
       if ok \<noteq> 0 then do {
         let root = ct_index (content_at ci s);
         (_, s) \<leftarrow> (if root \<noteq> None then ecache_free root s else Some (0, s));
         (_, s) \<leftarrow> unlock_content (put_content_at ci (\<lambda>c. c\<lparr>ct_type := CONTENT_TYPE_EMPTY, ct_index := NO_ECACHE\<rparr>) s);
         Some (1, s) }
       else Some (0, s) })"

primrec destroy_all :: "nat \<Rightarrow> ci_t \<Rightarrow> ('w, 'z) ctable_state_scheme \<Rightarrow> (unit \<times> ('w, 'z) ctable_state_scheme) option" where
  "destroy_all 0 i s = Some ((), s)"
| "destroy_all (Suc k) i s = do { (_, s) \<leftarrow> destroy_content i s; destroy_all k (i + 1) s }"

definition ctable_destroy :: "('w, 'z) ctable_state_scheme \<Rightarrow> (int \<times> ('w, 'z) ctable_state_scheme) option" where
  "ctable_destroy s = do { (_, s) \<leftarrow> destroy_all CONTENT_TABLE_SIZE 0 s; Some (1, s) }"

end
