(* ===== verification/Mount.thy ===== *)
theory Mount
  imports Ctable "HOL-Library.Signed_Division"
begin

text \<open>
  Mounting, from \<open>nifat32.c\<close> and \<open>nifat32.h\<close>: the boot sector and its byte layout, the API
  lock, \<open>NIFAT32_init\<close> with its fallback over the copies of the boot sector, and the repair of
  boot sectors and table.
\<close>

unbundle bit_operations_syntax

section \<open>Boot sector\<close>

record nifat32_ext32_bootsector_t =
  table_size_32 :: u32
  extended_flags :: u16
  fat_version :: u16
  root_cluster :: u32
  drive_number :: byte
  boot_signature :: byte
  volume_id :: u32
  volume_label :: "byte list"
  fat_type_label :: "byte list"
  ext_checksum :: u32

record nifat32_bootsector_t =
  bootjmp :: "byte list"
  oem_name :: "byte list"
  bs_bytes_per_sector :: u16
  bs_sectors_per_cluster :: byte
  reserved_sector_count :: u16
  table_count :: byte
  root_entry_count :: u16
  total_sectors_16 :: u16
  media_type :: byte
  table_size_16 :: u16
  sectors_per_track :: u16
  head_side_count :: u16
  hidden_sector_count :: u32
  total_sectors_32 :: u32
  extended_section :: nifat32_ext32_bootsector_t
  bs_checksum :: u32

definition sizeof_ext :: nat where "sizeof_ext = 41"
definition sizeof_bs :: nat where "sizeof_bs = 81"

definition bytes_of_ext :: "nifat32_ext32_bootsector_t \<Rightarrow> byte list" where
  "bytes_of_ext e = bytes_of_u32 (table_size_32 e) @ bytes_of_u16 (extended_flags e) @ bytes_of_u16 (fat_version e)
     @ bytes_of_u32 (root_cluster e) @ [drive_number e, boot_signature e] @ bytes_of_u32 (volume_id e)
     @ volume_label e @ fat_type_label e @ bytes_of_u32 (ext_checksum e)"

definition ext_of_bytes :: "byte list \<Rightarrow> nifat32_ext32_bootsector_t" where
  "ext_of_bytes bs = \<lparr>table_size_32 = get_u32 bs 0, extended_flags = get_u16 bs 4, fat_version = get_u16 bs 6,
     root_cluster = get_u32 bs 8, drive_number = bs ! 12, boot_signature = bs ! 13, volume_id = get_u32 bs 14,
     volume_label = take 11 (drop 18 bs), fat_type_label = take 8 (drop 29 bs), ext_checksum = get_u32 bs 37\<rparr>"

definition bytes_of_bs :: "nifat32_bootsector_t \<Rightarrow> byte list" where
  "bytes_of_bs b = bootjmp b @ oem_name b @ bytes_of_u16 (bs_bytes_per_sector b) @ [bs_sectors_per_cluster b]
     @ bytes_of_u16 (reserved_sector_count b) @ [table_count b] @ bytes_of_u16 (root_entry_count b)
     @ bytes_of_u16 (total_sectors_16 b) @ [media_type b] @ bytes_of_u16 (table_size_16 b)
     @ bytes_of_u16 (sectors_per_track b) @ bytes_of_u16 (head_side_count b) @ bytes_of_u32 (hidden_sector_count b)
     @ bytes_of_u32 (total_sectors_32 b) @ bytes_of_ext (extended_section b) @ bytes_of_u32 (bs_checksum b)"

definition bs_of_bytes :: "byte list \<Rightarrow> nifat32_bootsector_t" where
  "bs_of_bytes bs = \<lparr>bootjmp = take 3 bs, oem_name = take 8 (drop 3 bs), bs_bytes_per_sector = get_u16 bs 11,
     bs_sectors_per_cluster = bs ! 13, reserved_sector_count = get_u16 bs 14, table_count = bs ! 16,
     root_entry_count = get_u16 bs 17, total_sectors_16 = get_u16 bs 19, media_type = bs ! 21,
     table_size_16 = get_u16 bs 22, sectors_per_track = get_u16 bs 24, head_side_count = get_u16 bs 26,
     hidden_sector_count = get_u32 bs 28, total_sectors_32 = get_u32 bs 32,
     extended_section = ext_of_bytes (take sizeof_ext (drop 36 bs)), bs_checksum = get_u32 bs 77\<rparr>"

definition ext_sum :: "nifat32_ext32_bootsector_t \<Rightarrow> u32" where
  "ext_sum e = nft32_murmur3_x86_32 (bytes_of_ext e) (of_nat sizeof_ext) 0"

definition bs_sum :: "nifat32_bootsector_t \<Rightarrow> u32" where
  "bs_sum b = nft32_murmur3_x86_32 (bytes_of_bs b) (of_nat sizeof_bs) 0"

text \<open>Both checksums are recomputed with the fields cleared; the inner one is in place when the
  outer one is computed.\<close>

definition with_checksums :: "nifat32_bootsector_t \<Rightarrow> nifat32_bootsector_t" where
  "with_checksums b = (let
     ext = (extended_section b)\<lparr>ext_checksum := 0\<rparr>;
     b = b\<lparr>bs_checksum := 0, extended_section := ext\<lparr>ext_checksum := ext_sum ext\<rparr>\<rparr>
   in b\<lparr>bs_checksum := bs_sum b\<rparr>)"

definition bs_valid :: "nifat32_bootsector_t \<Rightarrow> bool" where
  "bs_valid b = (let c = with_checksums b
     in bs_checksum c = bs_checksum b \<and> ext_checksum (extended_section c) = ext_checksum (extended_section b))"

section \<open>The instance\<close>

record 'w nifat_state = "'w ctable_state" +
  fs_data :: fat_data
  fs_api_lock :: lock_t
  stack_bs :: "byte list"

definition lock_api :: "('w, 'z) nifat_state_scheme \<Rightarrow> (int \<times> ('w, 'z) nifat_state_scheme) option" where
  "lock_api s = (let (r, l) = THR_require_write (Some (fs_api_lock s)) get_thread_num
     in Some (r, s\<lparr>fs_api_lock := the l\<rparr>))"

definition unlock_api :: "('w, 'z) nifat_state_scheme \<Rightarrow> (int \<times> ('w, 'z) nifat_state_scheme) option" where
  "unlock_api s = (let (r, l) = THR_release_write (Some (fs_api_lock s)) get_thread_num
     in Some (r, s\<lparr>fs_api_lock := the l\<rparr>))"

text \<open>\<open>FS_API_LOCK_OR_RETURN(ret)\<close> around a body whose every exit is \<open>FS_API_RETURN\<close> of a
  value computed before the lock is released.\<close>

definition fs_api :: "'a \<Rightarrow> (('w, 'z) nifat_state_scheme \<Rightarrow> ('a \<times> ('w, 'z) nifat_state_scheme) option) \<Rightarrow>
    ('w, 'z) nifat_state_scheme \<Rightarrow> ('a \<times> ('w, 'z) nifat_state_scheme) option" where
  "fs_api ret body s = do {
     (ok, s) \<leftarrow> lock_api s;
     if ok = 0 then Some (ret, s)
     else do {
       (r, s) \<leftarrow> body s;
       (_, s) \<leftarrow> unlock_api s;
       Some (r, s) } }"

text \<open>The macro evaluates its argument after the release, which matters when that is a call.\<close>

definition fs_api_late :: "'a \<Rightarrow> (('w, 'z) nifat_state_scheme \<Rightarrow> ('a \<times> ('w, 'z) nifat_state_scheme) option) \<Rightarrow>
    ('w, 'z) nifat_state_scheme \<Rightarrow> ('a \<times> ('w, 'z) nifat_state_scheme) option" where
  "fs_api_late ret body s = do {
     (ok, s) \<leftarrow> lock_api s;
     if ok = 0 then Some (ret, s)
     else do { (_, s) \<leftarrow> unlock_api s; body s } }"

text \<open>Registering an error of the instance.\<close>

definition api_error :: "error_code \<Rightarrow> ('w, 'z) nifat_state_scheme \<Rightarrow> (int \<times> ('w, 'z) nifat_state_scheme) option" where
  "api_error e s = errors_register_error (errcode e) (fs_data s) s"

definition NIFAT32_get_fs_data :: "('w, 'z) nifat_state_scheme \<Rightarrow> (fat_data \<times> ('w, 'z) nifat_state_scheme) option" where
  "NIFAT32_get_fs_data s = do {
     (ok, s) \<leftarrow> lock_api s;
     if ok = 0 then Some (fat_data_zero, s)
     else do { (_, s) \<leftarrow> unlock_api s; Some (fs_data s, s) } }"

section \<open>Mounting\<close>

definition CACHE :: "3 word" where "CACHE = 1"
definition HARD_CACHE :: "3 word" where "HARD_CACHE = 2"
definition MAP_CACHE :: "3 word" where "MAP_CACHE = 4"

record 'w nifat32_params_t =
  p_fat_cache :: "3 word"
  p_bs_num :: byte
  p_bs_count :: byte
  p_ts :: u32
  p_jc :: byte
  p_ec :: byte
  p_ef :: byte
  p_disk_io :: "'w disk_io"
  p_mm_init :: "('w \<Rightarrow> int \<times> 'w) option"
  p_mm_malloc :: "(u64 \<Rightarrow> 'w \<Rightarrow> nat option \<times> 'w) option"
  p_mm_free :: "(nat option \<Rightarrow> 'w \<Rightarrow> 'w) option"

text \<open>The encoded sector is unpacked to the structure; a sector too small for it is read out of
  bounds.\<close>

definition unpack_bs :: "byte list \<Rightarrow> nifat32_bootsector_t option" where
  "unpack_bs encoded_bs = (if length encoded_bs < 2 * sizeof_bs then None
     else Some (bs_of_bytes (nft32_unpack_memory (u16s_of_bytes encoded_bs) sizeof_bs)))"

text \<open>\<open>root_dir_sectors\<close>, \<open>data_sectors\<close> and the number of clusters. The first is computed
  in \<open>int\<close>, the second in \<open>unsigned int\<close> and converted.\<close>

definition root_dir_sectors :: "nifat32_bootsector_t \<Rightarrow> int option" where
  "root_dir_sectors b = (if bs_bytes_per_sector b = 0 then None
     else Some ((uint (root_entry_count b) * 32 + (uint (bs_bytes_per_sector b) - 1)) sdiv uint (bs_bytes_per_sector b)))"

definition data_sectors :: "nifat32_bootsector_t \<Rightarrow> fat_data \<Rightarrow> int \<Rightarrow> int" where
  "data_sectors b fi rds = int_of_u32 (total_sectors fi
     - (ucast (reserved_sector_count b) + ucast (table_count b) * fat_size fi + u32_of_int rds))"

definition spc_or_1 :: "nifat32_bootsector_t \<Rightarrow> int" where
  "spc_or_1 b = (if bs_sectors_per_cluster b = 0 then 1 else uint (bs_sectors_per_cluster b))"

definition cluster_total :: "nifat32_bootsector_t \<Rightarrow> int \<Rightarrow> u32" where
  "cluster_total b ds = (if ds = 0 then total_sectors_32 b div u32_of_int (spc_or_1 b)
     else u32_of_int (ds sdiv spc_or_1 b))"

text \<open>The instance data taken from a valid boot sector.\<close>

definition load_geometry :: "byte \<Rightarrow> nifat32_bootsector_t \<Rightarrow> fat_data \<Rightarrow> fat_data option" where
  "load_geometry jc b fi = do {
     let fi = fi\<lparr>journals_count := jc, fat_count := table_count b, total_sectors := total_sectors_32 b,
       fat_size := table_size_32 (extended_section b)\<rparr>;
     rds \<leftarrow> root_dir_sectors b;
     let fi = fi\<lparr>total_clusters := cluster_total b (data_sectors b fi rds)\<rparr>;
     let fi = fi\<lparr>first_data_sector := ucast (reserved_sector_count b)
         + ucast (table_count b) * table_size_32 (extended_section b),
       sectors_per_cluster := ucast (bs_sectors_per_cluster b), bytes_per_sector := ucast (bs_bytes_per_sector b),
       sectors_padd := ucast (reserved_sector_count b), ext_root_cluster := root_cluster (extended_section b)\<rparr>;
     Some (fi\<lparr>cluster_size := bytes_per_sector fi * sectors_per_cluster fi\<rparr>) }"

text \<open>Rewriting the other copies of the boot sector.\<close>

primrec restore_boot_loop :: "nat \<Rightarrow> byte \<Rightarrow> byte list \<Rightarrow> 'w nifat32_params_t \<Rightarrow>
    ('w, 'z) nifat_state_scheme \<Rightarrow> (unit \<times> ('w, 'z) nifat_state_scheme) option" where
  "restore_boot_loop 0 i encoded_bs params s = Some ((), s)"
| "restore_boot_loop (Suc k) i encoded_bs params s = do {
     (_, s) \<leftarrow> (if i = p_bs_num params then Some (0, s)
       else do {
         sa \<leftarrow> GET_BOOTSECTOR (ucast i) (p_ts params);
         DSK_write_sector sa encoded_bs (sector_size (p_disk_io params)) s });
     restore_boot_loop k (i + 1) encoded_bs params s }"

text \<open>The caches the parameters ask for; their failures are only logged.\<close>

definition init_caches :: "'w nifat32_params_t \<Rightarrow>
    ('w, 'z) nifat_state_scheme \<Rightarrow> (unit \<times> ('w, 'z) nifat_state_scheme) option" where
  "init_caches params s =
    (if p_fat_cache params AND CACHE = 0 then Some ((), s)
     else do {
       (_, s) \<leftarrow> fat_cache_init (fs_data s) s;
       (_, s) \<leftarrow> (if p_fat_cache params AND MAP_CACHE \<noteq> 0 then fatmap_init (fs_data s) s else Some (0, s));
       (_, s) \<leftarrow> (if p_fat_cache params AND HARD_CACHE \<noteq> 0 then fat_cache_hload (fs_data s) s else Some (0, s));
       Some ((), s) })"

text \<open>The part of \<open>NIFAT32_init\<close> before the boot sector is read: \<open>0\<close> is the early return.\<close>

definition init_io :: "'w nifat32_params_t \<Rightarrow>
    ('w, 'z) nifat_state_scheme \<Rightarrow> (int \<times> ('w, 'z) nifat_state_scheme) option" where
  "init_io params s =
    (if p_bs_num params \<ge> p_bs_count params then Some (0, s)
     else do {
       (_, s) \<leftarrow> nft32_setup_mm_manager (p_mm_init params) (p_mm_malloc params) (p_mm_free params) s;
       (_, s) \<leftarrow> nft32_mm_init s;
       (r, s) \<leftarrow> DSK_setup (read_sector (p_disk_io params)) (write_sector (p_disk_io params))
         (sector_size (p_disk_io params)) s;
       if r = 0 then Some (0, s)
       else do {
         let s = s\<lparr>fs_data := (fs_data s)\<lparr>errors_count := p_ec params\<rparr>\<rparr>;
         if errors_count (fs_data s) = 0 then Some (1, s)
         else do {
           (r, s) \<leftarrow> errors_setup (fs_data s) s;
           Some (if r = 0 then 0 else 1, s) } } })"

text \<open>Reading the boot sector: \<open>None\<close> for the early return, otherwise the sector.\<close>

definition init_read :: "'w nifat32_params_t \<Rightarrow>
    ('w, 'z) nifat_state_scheme \<Rightarrow> (byte list option \<times> ('w, 'z) nifat_state_scheme) option" where
  "init_read params s = do {
     let encoded_bs = replicate (nat (sector_size (p_disk_io params))) 0;
     let s = s\<lparr>fs_data := (fs_data s)\<lparr>bs_count := p_bs_count params\<rparr>\<rparr>;
     sa \<leftarrow> GET_BOOTSECTOR (ucast (p_bs_num params)) (p_ts params);
     ((r, encoded_bs), s) \<leftarrow> DSK_read_sector sa encoded_bs (sector_size (p_disk_io params)) s;
     if r = 0 then do { (_, s) \<leftarrow> api_error SECTOR_READ_ERROR s; Some (None, s) }
     else Some (Some encoded_bs, s) }"

text \<open>The rest of the call, for a boot sector that passed its checksums.\<close>

definition init_finish :: "'w nifat32_params_t \<Rightarrow> byte list \<Rightarrow> nifat32_bootsector_t \<Rightarrow>
    ('w, 'z) nifat_state_scheme \<Rightarrow> (int \<times> ('w, 'z) nifat_state_scheme) option" where
  "init_finish params encoded_bs b s = do {
     fi \<leftarrow> load_geometry (p_jc params) b (fs_data s);
     let s = s\<lparr>fs_data := fi\<rparr>;
     (_, s) \<leftarrow> (if p_bs_num params > 0
       then restore_boot_loop (unat (p_bs_count params)) 0 encoded_bs params s else Some ((), s));
     (_, s) \<leftarrow> init_caches params s;
     (_, s) \<leftarrow> ctable_init s;
     (_, s) \<leftarrow> (if p_jc params \<noteq> 0 then restore_from_journal (fs_data s) s else Some (0, s));
     (_, s) \<leftarrow> unlock_api s;
     Some (1, s) }"

text \<open>A boot sector that fails its checksums makes the call start over with the next copy; the
  parameters are the caller's structure, which keeps the new \<open>bs_num\<close>.\<close>

partial_function (option) NIFAT32_init :: "'w nifat32_params_t \<Rightarrow>
    ('w, 'z) nifat_state_scheme \<Rightarrow> ((int \<times> 'w nifat32_params_t) \<times> ('w, 'z) nifat_state_scheme) option" where
  "NIFAT32_init params s = do {
     (ok, s) \<leftarrow> lock_api s;
     if ok = 0 then Some ((0, params), s)
     else do {
       (ok, s) \<leftarrow> init_io params s;
       if ok = 0 then do { (_, s) \<leftarrow> unlock_api s; Some ((0, params), s) }
       else do {
         (r, s) \<leftarrow> init_read params s;
         (case r of
            None \<Rightarrow> do { (_, s) \<leftarrow> unlock_api s; Some ((0, params), s) }
          | Some encoded_bs \<Rightarrow> do {
              b \<leftarrow> unpack_bs encoded_bs;
              if \<not> bs_valid b then do {
                (_, s) \<leftarrow> api_error CHECKSUM_CHECK_ERROR s;
                (_, s) \<leftarrow> unlock_api s;
                NIFAT32_init (params\<lparr>p_bs_num := p_bs_num params + 1\<rparr>) s }
              else do {
                (r, s) \<leftarrow> init_finish params encoded_bs b s;
                Some ((r, params), s) } }) } } }"

section \<open>Repair\<close>

text \<open>The ASCII bytes of the labels the repair writes.\<close>

definition label_recover :: "byte list" where
  "label_recover = [0x72, 0x65, 0x63, 0x6F, 0x76, 0x65, 0x72, 0x20]"
definition label_root :: "byte list" where
  "label_root = [0x52, 0x4F, 0x4F, 0x54, 0x5F, 0x4C, 0x41, 0x42, 0x45, 0x4C, 0x20]"
definition label_nifat32 :: "byte list" where
  "label_nifat32 = [0x4E, 0x49, 0x46, 0x41, 0x54, 0x33, 0x32, 0x20]"

definition recovered_bs :: "fat_data \<Rightarrow> nifat32_bootsector_t" where
  "recovered_bs fi = (let
     ext = \<lparr>table_size_32 = fat_size fi, extended_flags = 0, fat_version = 0, root_cluster = ext_root_cluster fi,
       drive_number = 0x8, boot_signature = 0x5A, volume_id = 0x1234, volume_label = label_root,
       fat_type_label = label_nifat32, ext_checksum = 0\<rparr>;
     ext = ext\<lparr>ext_checksum := ext_sum ext\<rparr>;
     b = \<lparr>bootjmp = [0xEB, 0x5B, 0x9], oem_name = label_recover, bs_bytes_per_sector = ucast (bytes_per_sector fi),
       bs_sectors_per_cluster = ucast (sectors_per_cluster fi), reserved_sector_count = ucast (sectors_padd fi),
       table_count = fat_count fi, root_entry_count = 0, total_sectors_16 = 0, media_type = 0xF8,
       table_size_16 = 0, sectors_per_track = 63, head_side_count = 255, hidden_sector_count = 0,
       total_sectors_32 = total_sectors fi, extended_section = ext, bs_checksum = 0\<rparr>
   in b\<lparr>bs_checksum := bs_sum b\<rparr>)"

text \<open>The buffer is an array of \<open>sizeof_bs\<close> pointers; only its first bytes are written, the
  rest is what the stack holds.\<close>

definition sizeof_pointer :: nat where "sizeof_pointer = 8"

definition recovered_buffer :: "('w, 'z) nifat_state_scheme \<Rightarrow> byte list" where
  "recovered_buffer s = (let buf = take (sizeof_bs * sizeof_pointer)
       (stack_bs s @ replicate (sizeof_bs * sizeof_pointer) 0)
     in splice buf 0 (bytes_of_u16s (nft32_pack_memory (bytes_of_bs (recovered_bs (fs_data s))) (u16s_of_bytes buf) sizeof_bs)))"

primrec repair_boot_loop :: "nat \<Rightarrow> int \<Rightarrow> byte list \<Rightarrow>
    ('w, 'z) nifat_state_scheme \<Rightarrow> (unit \<times> ('w, 'z) nifat_state_scheme) option" where
  "repair_boot_loop 0 i encoded_bs s = Some ((), s)"
| "repair_boot_loop (Suc k) i encoded_bs s = do {
     sa \<leftarrow> GET_BOOTSECTOR (u32_of_int i) (total_sectors (fs_data s));
     (_, s) \<leftarrow> DSK_write_sector sa encoded_bs (int (length encoded_bs)) s;
     repair_boot_loop k (i + 1) encoded_bs s }"

definition NIFAT32_repair_bootsectors :: "('w, 'z) nifat_state_scheme \<Rightarrow> (int \<times> ('w, 'z) nifat_state_scheme) option" where
  "NIFAT32_repair_bootsectors = fs_api 0 (\<lambda>s. do {
     (_, s) \<leftarrow> repair_boot_loop (unat (bs_count (fs_data s))) 0 (recovered_buffer s) s;
     Some (1, s) })"

definition NIFAT32_repair_fat :: "('w, 'z) nifat_state_scheme \<Rightarrow> (int \<times> ('w, 'z) nifat_state_scheme) option" where
  "NIFAT32_repair_fat = fs_api_late 0 (\<lambda>s. fat_repair (fs_data s) s)"

section \<open>The layout of the boot sector\<close>

text \<open>The arrays of the structure have their lengths.\<close>

definition bs_fits :: "nifat32_bootsector_t \<Rightarrow> bool" where
  "bs_fits b = (length (bootjmp b) = 3 \<and> length (oem_name b) = 8 \<and> length (volume_label (extended_section b)) = 11 \<and>
     length (fat_type_label (extended_section b)) = 8)"

lemma length_bytes_of_ext [layout, simp]:
  "length (volume_label e) = 11 \<Longrightarrow> length (fat_type_label e) = 8 \<Longrightarrow> length (bytes_of_ext e) = sizeof_ext"
  by (simp add: bytes_of_ext_def sizeof_ext_def)

lemma length_bytes_of_bs [layout, simp]: "bs_fits b \<Longrightarrow> length (bytes_of_bs b) = sizeof_bs"
  by (simp add: bs_fits_def bytes_of_bs_def sizeof_bs_def sizeof_ext_def)

lemma get_u16_bytes [layout, simp]: "get_u16 (bytes_of_u16 w @ xs) 0 = w"
  by (simp add: get_u16_def bytes_of_u16_def)

lemma get_u32_skip:
  "length xs \<le> n \<Longrightarrow> get_u32 (xs @ ys) n = get_u32 ys (n - length xs)"
  "length xs \<le> n \<Longrightarrow> get_u16 (xs @ ys) n = get_u16 ys (n - length xs)"
  by (auto simp: get_u32_def get_u16_def nth_append Suc_diff_le)

lemma get_skip1:
  "0 < n \<Longrightarrow> get_u32 (x # ys) n = get_u32 ys (n - 1)" "0 < n \<Longrightarrow> get_u16 (x # ys) n = get_u16 ys (n - 1)"
  using get_u32_skip [of "[x]" n ys] by simp_all

lemma get_u32_only [simp]: "get_u32 (bytes_of_u32 w) 0 = w"
  using get_u32_bytes [of w "[]"] by simp

lemma ext_of_bytes_of_ext:
  assumes "length (volume_label e) = 11" "length (fat_type_label e) = 8"
  shows "ext_of_bytes (bytes_of_ext e) = e"
  using assms
  by (cases e) (simp add: ext_of_bytes_def bytes_of_ext_def get_u32_skip get_skip1 nth_append)

lemma bs_of_bytes_of_bs:
  assumes "bs_fits b"
  shows "bs_of_bytes (bytes_of_bs b) = b"
proof -
  have l: "length (bytes_of_ext (extended_section b)) = 41" "length (bootjmp b) = 3" "length (oem_name b) = 8"
    and e: "ext_of_bytes (bytes_of_ext (extended_section b)) = extended_section b"
    using assms ext_of_bytes_of_ext by (simp_all add: bs_fits_def sizeof_ext_def)
  then show ?thesis
    by (cases b) (simp add: bs_of_bytes_def bytes_of_bs_def get_u32_skip get_skip1 nth_append sizeof_ext_def)
qed

lemma unpack_bs_pack:
  assumes "bs_fits b"
  shows "unpack_bs (bytes_of_u16s (map enc_byte (bytes_of_bs b)) @ rest) = Some b"
proof -
  let ?ws = "map enc_byte (bytes_of_bs b)"
  have app: "u16s_of_bytes (bytes_of_u16s ws @ rest) = ws @ u16s_of_bytes rest" for ws
    by (induction ws) (simp_all add: bytes_of_u16s_def bytes_of_u16_def)
  have "nft32_unpack_memory (u16s_of_bytes (bytes_of_u16s ?ws @ rest)) sizeof_bs =
      map (\<lambda>w. ucast (decode_hamming_15_11 w)) (take sizeof_bs (?ws @ u16s_of_bytes rest))"
    using assms by (subst app) (simp add: unpack_memory_map)
  also have "\<dots> = bytes_of_bs b" using assms by (simp add: comp_def)
  finally show ?thesis using assms by (simp add: unpack_bs_def bs_of_bytes_of_bs)
qed

end
