(* ===== verification/Content.thy ===== *)
theory Content
  imports Mount
begin

text \<open>
  The content operations of \<open>nifat32.c\<close>: path lookup with creation, open, index, close, read,
  write, change of metadata, truncation, put, copy, delete, stat and recursive repair, each under
  the API lock, and the unload sequence.
\<close>

unbundle bit_operations_syntax

section \<open>Modes\<close>

definition R_MODE :: byte where "R_MODE = 1"
definition W_MODE :: byte where "W_MODE = 2"
definition CR_MODE :: byte where "CR_MODE = 4"
definition NO_TARGET :: byte where "NO_TARGET = 0"
definition FILE_TARGET :: byte where "FILE_TARGET = 1"
definition DIR_TARGET :: byte where "DIR_TARGET = 2"

definition MODE :: "byte \<Rightarrow> byte \<Rightarrow> byte" where
  "MODE mode target = push_bit 4 (target AND 0xF) OR (mode AND 0xF)"

definition DF_MODE :: byte where "DF_MODE = MODE (R_MODE OR W_MODE) NO_TARGET"

definition GET_MODE :: "byte \<Rightarrow> byte" where "GET_MODE b = b AND 0xF"
definition GET_MODE_TARGET :: "byte \<Rightarrow> byte" where "GET_MODE_TARGET b = drop_bit 4 b AND 0xF"
definition IS_READ_MODE :: "byte \<Rightarrow> bool" where "IS_READ_MODE b = (GET_MODE b AND R_MODE \<noteq> 0)"
definition IS_WRITE_MODE :: "byte \<Rightarrow> bool" where "IS_WRITE_MODE b = (GET_MODE b AND W_MODE \<noteq> 0)"
definition IS_CREATE_MODE :: "byte \<Rightarrow> bool" where "IS_CREATE_MODE b = (GET_MODE b AND CR_MODE \<noteq> 0)"

definition NO_RCI :: ci_t where "NO_RCI = -1"
definition NO_RESERVE :: int where "NO_RESERVE = 1"
definition DEEP_COPY :: byte where "DEEP_COPY = 1"
definition SHALLOW_COPY :: byte where "SHALLOW_COPY = 2"

definition zero_entry :: directory_entry where
  "zero_entry = \<lparr>de_file_name = replicate 11 0, de_name_hash = 0, de_attributes = 0, de_rca = 0, de_dca = 0,
     de_file_size = 0, de_checksum = 0\<rparr>"

section \<open>Path lookup\<close>

text \<open>A component that is missing is created when the mode asks for it: \<open>None\<close> is the early
  return of \<open>FAT_CLUSTER_BAD\<close>.\<close>

definition create_component :: "byte list \<Rightarrow> bool \<Rightarrow> u32 \<Rightarrow> nat option \<Rightarrow>
    ('w, 'z) nifat_state_scheme \<Rightarrow> (directory_entry option \<times> ('w, 'z) nifat_state_scheme) option" where
  "create_component fatname is_dir active_cluster cache s = do {
     let fi = fs_data s;
     (off, s) \<leftarrow> get_cluster_offset fi s;
     (nca, s) \<leftarrow> alloc_cluster fi off s;
     (r, s) \<leftarrow> set_cluster_end nca fi s;
     if r \<noteq> 0 then do {
       e \<leftarrow> create_entry fatname is_dir nca (cluster_size fi);
       ((r, e), s) \<leftarrow> entry_add active_cluster cache e fi s;
       (_, s) \<leftarrow> (if r < 0 then do {
           (_, s) \<leftarrow> dealloc_cluster (de_dca e) fi s;
           api_error ADD_ENTRY_ERROR s }
         else Some (0, s));
       Some (Some e, s) }
     else do {
       (_, s) \<leftarrow> api_error SET_CLUSTER_END_ERROR s;
       Some (None, s) } }"

text \<open>One component of the path: its name runs from \<open>start\<close> to \<open>iterator\<close>.\<close>

definition path_component :: "byte list \<Rightarrow> nat \<Rightarrow> nat \<Rightarrow> byte \<Rightarrow> ci_t \<Rightarrow> u32 \<Rightarrow> directory_entry \<Rightarrow>
    ('w, 'z) nifat_state_scheme \<Rightarrow> (directory_entry option \<times> ('w, 'z) nifat_state_scheme) option" where
  "path_component path start iterator mode curr_ci active_cluster current_entry s =
    (if iterator - start \<ge> 32 then Some (None, s)
     else do {
       name_buffer \<leftarrow> nft32_str_memcpy (replicate 32 0) (drop start path) (iterator - start);
       fatname_buffer \<leftarrow> nft32_name_to_fatname name_buffer (replicate 32 0);
       let cache = get_content_ecache curr_ci s;
       ((r, e), s) \<leftarrow> entry_search (Some fatname_buffer) active_cluster cache (Some current_entry) (fs_data s) s;
       if r \<noteq> 0 then Some (e, s)
       else if IS_CREATE_MODE mode
       then create_component fatname_buffer (path ! iterator \<noteq> 0 \<or> GET_MODE_TARGET mode \<noteq> FILE_TARGET)
         active_cluster cache s
       else Some (None, s) })"

text \<open>\<open>k\<close> characters are left, the terminator included. The result is the cluster and the entry
  of the last component; \<open>current_entry\<close> is filled before it is read.\<close>

primrec path_loop :: "nat \<Rightarrow> byte list \<Rightarrow> nat \<Rightarrow> nat \<Rightarrow> byte \<Rightarrow> ci_t \<Rightarrow> u32 \<Rightarrow> directory_entry \<Rightarrow>
    ('w, 'z) nifat_state_scheme \<Rightarrow> ((u32 \<times> directory_entry option) \<times> ('w, 'z) nifat_state_scheme) option" where
  "path_loop 0 path start iterator mode curr_ci active_cluster current_entry s =
     Some ((active_cluster, Some current_entry), s)"
| "path_loop (Suc k) path start iterator mode curr_ci active_cluster current_entry s =
    (if path ! iterator = PATH_SPLITTER \<or> path ! iterator = 0
     then do {
       (r, s) \<leftarrow> path_component path start iterator mode curr_ci active_cluster current_entry s;
       (case r of
          None \<Rightarrow> Some ((FAT_CLUSTER_BAD, None), s)
        | Some e \<Rightarrow> path_loop k path (iterator + 1) (iterator + 1) mode NO_RCI (de_dca e) e s) }
     else path_loop k path start (iterator + 1) mode curr_ci active_cluster current_entry s)"

definition get_cluster_by_path :: "byte list \<Rightarrow> byte \<Rightarrow> ci_t \<Rightarrow>
    ('w, 'z) nifat_state_scheme \<Rightarrow> ((u32 \<times> directory_entry option) \<times> ('w, 'z) nifat_state_scheme) option" where
  "get_cluster_by_path path mode rci s = do {
     len \<leftarrow> nft32_str_strlen path;
     let active_cluster = (if rci \<noteq> NO_RCI then get_content_data_ca rci s else ext_root_cluster (fs_data s));
     path_loop (len + 1) path 0 0 mode rci active_cluster zero_entry s }"

section \<open>Open, index, close\<close>

definition NIFAT32_content_exists :: "byte list \<Rightarrow> ('w, 'z) nifat_state_scheme \<Rightarrow> (int \<times> ('w, 'z) nifat_state_scheme) option" where
  "NIFAT32_content_exists path = fs_api 0 (\<lambda>s. do {
     ((ca, _), s) \<leftarrow> get_cluster_by_path path DF_MODE NO_RCI s;
     Some (if ca \<noteq> FAT_CLUSTER_BAD then 1 else 0, s) })"

text \<open>\<open>NIFAT32_DIR\<close>, the name of the root.\<close>

definition root_name :: "byte list" where
  "root_name = [0x4E, 0x49, 0x46, 0x41, 0x54, 0x33, 0x32, 0x5F, 0x44, 0x49, 0x52, 0]"

definition NIFAT32_open_content :: "ci_t \<Rightarrow> byte list option \<Rightarrow> byte \<Rightarrow>
    ('w, 'z) nifat_state_scheme \<Rightarrow> (ci_t \<times> ('w, 'z) nifat_state_scheme) option" where
  "NIFAT32_open_content rci path mode = fs_api (-1) (\<lambda>s. do {
     (ci, s) \<leftarrow> alloc_ci s;
     if ci < 0 then do { (_, s) \<leftarrow> api_error CTABLE_FULL_ERROR s; Some (-1, s) }
     else let meta = zero_entry\<lparr>de_dca := ext_root_cluster (fs_data s), de_rca := FAT_CLUSTER_BAD\<rparr> in
       (case path of
          None \<Rightarrow> do { (_, s) \<leftarrow> setup_content ci True root_name (Some meta) mode s; Some (ci, s) }
        | Some p \<Rightarrow> do {
            ((ca, e), s) \<leftarrow> get_cluster_by_path p mode rci s;
            if is_cluster_bad ca then do {
              (_, s) \<leftarrow> api_error ENTRY_PATH_NFOUND_ERROR s;
              (_, s) \<leftarrow> destroy_content ci s;
              Some (-2, s) }
            else do {
              let meta = (case e of None \<Rightarrow> meta | Some e \<Rightarrow> e);
              (_, s) \<leftarrow> setup_content ci (is_dir_entry meta) (de_file_name meta) (Some meta) mode s;
              Some (ci, s) } }) })"

definition NIFAT32_index_content :: "ci_t \<Rightarrow> ('w, 'z) nifat_state_scheme \<Rightarrow> (int \<times> ('w, 'z) nifat_state_scheme) option" where
  "NIFAT32_index_content ci = fs_api 0 (\<lambda>s.
     if get_content_type ci s \<noteq> CONTENT_TYPE_DIRECTORY
     then do { (_, s) \<leftarrow> api_error CONTENT_INDEX_ERROR s; Some (0, s) }
     else index_content ci (fs_data s) s)"

definition NIFAT32_close_content :: "ci_t \<Rightarrow> ('w, 'z) nifat_state_scheme \<Rightarrow> (int \<times> ('w, 'z) nifat_state_scheme) option" where
  "NIFAT32_close_content ci = fs_api 0 (destroy_content ci)"

section \<open>Read and write\<close>

text \<open>How many bytes of \<open>n\<close> go to the cluster from \<open>offset\<close> on.\<close>

definition portion :: "fat_data \<Rightarrow> u32 \<Rightarrow> int \<Rightarrow> int" where
  "portion fi offset n = (if n > int_of_u32 (cluster_size fi - offset) then int_of_u32 (cluster_size fi - offset) else n)"

text \<open>The body of the read loop; \<open>None\<close> as the inner result is the abort.\<close>

definition read_step :: "u32 \<Rightarrow> u32 \<Rightarrow> byte list \<Rightarrow> int \<Rightarrow> int \<Rightarrow>
    ('w, 'z) nifat_state_scheme \<Rightarrow> (((u32 \<times> int \<times> int) option \<times> byte list) \<times> ('w, 'z) nifat_state_scheme) option" where
  "read_step ca offset buffer buff_size total_readden s = (let fi = fs_data s in
     if offset > cluster_size fi then Some ((Some (offset - cluster_size fi, buff_size, total_readden), buffer), s)
     else do {
       let readeble = portion fi offset buff_size;
       ((r, part), s) \<leftarrow> readoff_cluster ca offset (drop (nat total_readden) buffer) readeble fi s;
       let buffer = take (nat total_readden) buffer @ part;
       if r = 0 then do { (_, s) \<leftarrow> api_error READOFF_CLUSTER_ERROR s; Some ((None, buffer), s) }
       else Some ((Some (0, buff_size - readeble, total_readden + readeble), buffer), s) })"

partial_function (option) read_loop :: "u32 \<Rightarrow> u32 \<Rightarrow> byte list \<Rightarrow> int \<Rightarrow> int \<Rightarrow>
    ('w, 'z) nifat_state_scheme \<Rightarrow> ((int \<times> byte list) \<times> ('w, 'z) nifat_state_scheme) option" where
  "read_loop ca offset buffer buff_size total_readden s = do {
     ((r, buffer), s) \<leftarrow> read_step ca offset buffer buff_size total_readden s;
     (case r of
        None \<Rightarrow> Some ((0, buffer), s)
      | Some (offset, buff_size, total_readden) \<Rightarrow> do {
          (ca, s) \<leftarrow> read_fat ca (fs_data s) s;
          if \<not> is_cluster_end ca \<and> \<not> is_cluster_bad ca \<and> buff_size > 0
          then read_loop ca offset buffer buff_size total_readden s
          else Some ((total_readden, buffer), s) }) }"

definition NIFAT32_read_content2buffer :: "ci_t \<Rightarrow> u32 \<Rightarrow> byte list \<Rightarrow> int \<Rightarrow>
    ('w, 'z) nifat_state_scheme \<Rightarrow> ((int \<times> byte list) \<times> ('w, 'z) nifat_state_scheme) option" where
  "NIFAT32_read_content2buffer ci offset buffer buff_size = fs_api (0, buffer) (\<lambda>s.
     if \<not> IS_READ_MODE (get_content_mode ci s)
     then do { (_, s) \<leftarrow> api_error NO_READ_ACCESS_ERROR s; Some ((0, buffer), s) }
     else read_loop (get_content_data_ca ci s) offset buffer buff_size 0 s)"

definition add_cluster_to_chain :: "u32 \<Rightarrow> ('w, 'z) nifat_state_scheme \<Rightarrow> (u32 \<times> ('w, 'z) nifat_state_scheme) option" where
  "add_cluster_to_chain hca s = do {
     let fi = fs_data s;
     (off, s) \<leftarrow> get_cluster_offset fi s;
     (allocated_cluster, s) \<leftarrow> alloc_cluster fi off s;
     if is_cluster_bad allocated_cluster
     then do { (_, s) \<leftarrow> api_error ALLOCATED_CLUSTER_BAD_ERROR s; Some (FAT_CLUSTER_BAD, s) }
     else do {
       (r, s) \<leftarrow> set_cluster_end allocated_cluster fi s;
       if r = 0 then do {
         (_, s) \<leftarrow> api_error SET_CLUSTER_END_ERROR s;
         (_, s) \<leftarrow> dealloc_cluster allocated_cluster fi s;
         Some (FAT_CLUSTER_BAD, s) }
       else do {
         (r, s) \<leftarrow> write_fat hca allocated_cluster fi s;
         if r = 0 then do {
           (_, s) \<leftarrow> api_error WRITE_FAT_ERROR s;
           (_, s) \<leftarrow> dealloc_cluster allocated_cluster fi s;
           Some (FAT_CLUSTER_BAD, s) }
         else Some (allocated_cluster, s) } } }"

text \<open>The walk to the last cluster; \<open>k\<close> is \<open>max_iterations\<close> and \<open>False\<close> means it ran out.\<close>

primrec last_cluster_walk :: "nat \<Rightarrow> u32 \<Rightarrow> u32 \<Rightarrow>
    ('w, 'z) nifat_state_scheme \<Rightarrow> ((u32 \<times> bool) \<times> ('w, 'z) nifat_state_scheme) option" where
  "last_cluster_walk 0 cluster lca s = Some ((lca, False), s)"
| "last_cluster_walk (Suc k) cluster lca s =
    (if \<not> is_cluster_end cluster \<and> \<not> is_cluster_bad cluster
     then do {
       (nxt, s) \<leftarrow> read_fat cluster (fs_data s) s;
       last_cluster_walk k nxt cluster s }
     else Some ((lca, True), s))"

definition add_cluster_to_content :: "ci_t \<Rightarrow> u32 \<Rightarrow>
    ('w, 'z) nifat_state_scheme \<Rightarrow> (u32 \<times> ('w, 'z) nifat_state_scheme) option" where
  "add_cluster_to_content ci lca s =
    (if lca = FAT_CLUSTER_BAD then do {
       ((lca, ok), s) \<leftarrow> last_cluster_walk (nat (int_of_u32 (total_clusters (fs_data s))))
         (get_content_data_ca ci s) lca s;
       if \<not> ok then do { (_, s) \<leftarrow> api_error CLUSTER_ALLOCATION_ERROR s; Some (FAT_CLUSTER_BAD, s) }
       else add_cluster_to_chain lca s }
     else add_cluster_to_chain lca s)"

text \<open>The write into existing clusters: \<open>None\<close> as the inner result is the abort; otherwise the
  offset and sizes left with the last cluster written.\<close>

definition write_step :: "u32 \<Rightarrow> u32 \<Rightarrow> byte list \<Rightarrow> int \<Rightarrow> int \<Rightarrow>
    ('w, 'z) nifat_state_scheme \<Rightarrow> ((u32 \<times> int \<times> int) option \<times> ('w, 'z) nifat_state_scheme) option" where
  "write_step ca offset data data_size total_written s = (let fi = fs_data s in
     if offset > cluster_size fi then Some (Some (offset - cluster_size fi, data_size, total_written), s)
     else do {
       let writable = portion fi offset data_size;
       (r, s) \<leftarrow> writeoff_cluster ca offset (drop (nat total_written) data) writable fi s;
       if r = 0 then do { (_, s) \<leftarrow> api_error READOFF_CLUSTER_ERROR s; Some (None, s) }
       else Some (Some (0, data_size - writable, total_written + writable), s) })"

partial_function (option) write_loop :: "u32 \<Rightarrow> u32 \<Rightarrow> byte list \<Rightarrow> int \<Rightarrow> int \<Rightarrow>
    ('w, 'z) nifat_state_scheme \<Rightarrow> ((u32 \<times> u32 \<times> int \<times> int) option \<times> ('w, 'z) nifat_state_scheme) option" where
  "write_loop ca offset data data_size total_written s = do {
     (r, s) \<leftarrow> write_step ca offset data data_size total_written s;
     (case r of
        None \<Rightarrow> Some (None, s)
      | Some (offset, data_size, total_written) \<Rightarrow> do {
          (nca, s) \<leftarrow> read_fat ca (fs_data s) s;
          if \<not> is_cluster_end nca \<and> \<not> is_cluster_bad nca \<and> data_size > 0
          then write_loop nca offset data data_size total_written s
          else Some (Some (ca, offset, data_size, total_written), s) }) }"

text \<open>The extension of the chain. A failed write is not noticed here.\<close>

partial_function (option) extend_loop :: "ci_t \<Rightarrow> u32 \<Rightarrow> u32 \<Rightarrow> byte list \<Rightarrow> int \<Rightarrow> int \<Rightarrow>
    ('w, 'z) nifat_state_scheme \<Rightarrow> (int \<times> ('w, 'z) nifat_state_scheme) option" where
  "extend_loop ci ca offset data data_size total_written s =
    (if data_size \<le> 0 then Some (total_written, s)
     else do {
       (ca, s) \<leftarrow> add_cluster_to_content ci ca s;
       let fi = fs_data s;
       if is_cluster_bad ca then Some (total_written, s)
       else if offset > cluster_size fi
       then extend_loop ci ca (offset - cluster_size fi) data data_size total_written s
       else do {
         let writable = portion fi offset data_size;
         (_, s) \<leftarrow> writeoff_cluster ca offset (drop (nat total_written) data) writable fi s;
         extend_loop ci ca 0 data (data_size - writable) (total_written + writable) s } })"

definition NIFAT32_write_buffer2content :: "ci_t \<Rightarrow> u32 \<Rightarrow> byte list \<Rightarrow> int \<Rightarrow>
    ('w, 'z) nifat_state_scheme \<Rightarrow> (int \<times> ('w, 'z) nifat_state_scheme) option" where
  "NIFAT32_write_buffer2content ci offset data data_size = fs_api 0 (\<lambda>s.
     if \<not> IS_WRITE_MODE (get_content_mode ci s)
     then do { (_, s) \<leftarrow> api_error NO_WRITE_ACCESS_ERROR s; Some (0, s) }
     else do {
       (r, s) \<leftarrow> write_loop (get_content_data_ca ci s) offset data data_size 0 s;
       (case r of
          None \<Rightarrow> Some (0, s)
        | Some (lca, offset, data_size, total_written) \<Rightarrow>
            extend_loop ci lca offset data data_size total_written s) })"

section \<open>Metadata and truncation\<close>

text \<open>A \<open>NULL\<close> name is dereferenced by \<open>entry_edit\<close>.\<close>

definition NIFAT32_change_meta :: "ci_t \<Rightarrow> cinfo_t \<Rightarrow>
    ('w, 'z) nifat_state_scheme \<Rightarrow> (int \<times> ('w, 'z) nifat_state_scheme) option" where
  "NIFAT32_change_meta ci info = fs_api 0 (\<lambda>s. do {
     meta \<leftarrow> create_entry (ci_full_name info) (ci_type info = STAT_DIR) (get_content_data_ca ci s) (ci_size info);
     name \<leftarrow> get_content_name ci s;
     (r, s) \<leftarrow> entry_edit (get_content_root_ca ci s) (get_content_ecache ci s) name meta (fs_data s) s;
     if r = 0 then do { (_, s) \<leftarrow> api_error ENTRY_EDIT_ERROR s; Some (0, s) }
     else Some (1, s) })"

text \<open>The body of the truncation loop on \<open>offset\<close>, \<open>size\<close> (\<open>sz\<close>), \<open>start_ca\<close> and \<open>end_ca\<close>.\<close>

definition truncate_step :: "u32 \<Rightarrow> u32 \<times> int \<times> u32 \<times> u32 \<Rightarrow>
    ('w, 'z) nifat_state_scheme \<Rightarrow> ((u32 \<times> int \<times> u32 \<times> u32) \<times> ('w, 'z) nifat_state_scheme) option" where
  "truncate_step ca t s = (case t of (offset, sz, start_ca, end_ca) \<Rightarrow> let fi = fs_data s in
     if end_ca \<noteq> FAT_CLUSTER_BAD
     then do { (_, s) \<leftarrow> dealloc_cluster ca fi s; Some (t, s) }
     else if offset > cluster_size fi
     then do { (_, s) \<leftarrow> dealloc_cluster ca fi s; Some ((offset - cluster_size fi, sz, start_ca, end_ca), s) }
     else do {
       let start_ca = (if start_ca = FAT_CLUSTER_BAD then ca else start_ca);
       let sz = int_of_u32 (u32_of_int sz - cluster_size fi);
       if sz < 0 then do {
         (r, s) \<leftarrow> set_cluster_end ca fi s;
         Some ((offset, sz, start_ca, if r \<noteq> 0 then ca else end_ca), s) }
       else Some ((offset, sz, start_ca, end_ca), s) })"

partial_function (option) truncate_loop :: "u32 \<Rightarrow> u32 \<times> int \<times> u32 \<times> u32 \<Rightarrow>
    ('w, 'z) nifat_state_scheme \<Rightarrow> ((u32 \<times> int \<times> u32 \<times> u32) \<times> ('w, 'z) nifat_state_scheme) option" where
  "truncate_loop ca t s = do {
     (t, s) \<leftarrow> truncate_step ca t s;
     (ca, s) \<leftarrow> read_fat ca (fs_data s) s;
     if \<not> is_cluster_end ca \<and> \<not> is_cluster_bad ca then truncate_loop ca t s else Some (t, s) }"

definition NIFAT32_truncate_content :: "ci_t \<Rightarrow> u32 \<Rightarrow> int \<Rightarrow>
    ('w, 'z) nifat_state_scheme \<Rightarrow> (int \<times> ('w, 'z) nifat_state_scheme) option" where
  "NIFAT32_truncate_content ci offset sz = fs_api 0 (\<lambda>s.
     if \<not> IS_WRITE_MODE (get_content_mode ci s)
     then do { (_, s) \<leftarrow> api_error NO_WRITE_ACCESS_ERROR s; Some (0, s) }
     else do {
       let end_size = u32_of_int sz;
       ((_, _, start_ca, _), s) \<leftarrow> truncate_loop (get_content_data_ca ci s)
         (offset, sz, FAT_CLUSTER_BAD, FAT_CLUSTER_BAD) s;
       name \<leftarrow> get_content_name ci s;
       e \<leftarrow> create_entry name False start_ca end_size;
       (_, s) \<leftarrow> entry_edit (get_content_root_ca ci s) NO_ECACHE name e (fs_data s) s;
       Some (1, s) })"

section \<open>Put\<close>

primrec reserve_loop :: "nat \<Rightarrow> u32 \<Rightarrow> ('w, 'z) nifat_state_scheme \<Rightarrow> (unit \<times> ('w, 'z) nifat_state_scheme) option" where
  "reserve_loop 0 lca s = Some ((), s)"
| "reserve_loop (Suc k) lca s = do { (lca, s) \<leftarrow> add_cluster_to_chain lca s; reserve_loop k lca s }"

definition NIFAT32_put_content :: "ci_t \<Rightarrow> cinfo_t \<Rightarrow> int \<Rightarrow>
    ('w, 'z) nifat_state_scheme \<Rightarrow> (int \<times> ('w, 'z) nifat_state_scheme) option" where
  "NIFAT32_put_content ci info reserve = fs_api 0 (\<lambda>s. do {
     let fi = fs_data s;
     let target = get_content_data_ca ci s;
     let entry_cache = get_content_ecache ci s;
     ((r, _), s) \<leftarrow> entry_search (Some (ci_full_name info)) target entry_cache None fi s;
     if r \<noteq> 0 then do { (_, s) \<leftarrow> api_error ENTRY_SEARCH_ERROR s; Some (0, s) }
     else do {
       (off, s) \<leftarrow> get_cluster_offset fi s;
       (entry_ca, s) \<leftarrow> alloc_cluster fi off s;
       (r, s) \<leftarrow> set_cluster_end entry_ca fi s;
       if r = 0 then do { (_, s) \<leftarrow> api_error SET_CLUSTER_END_ERROR s; Some (0, s) }
       else do {
         e \<leftarrow> create_entry (ci_full_name info) (ci_type info = STAT_DIR) entry_ca (u32_of_int reserve * cluster_size fi);
         ((is_add, e), s) \<leftarrow> entry_add target entry_cache e fi s;
         if is_add < 0 then do {
           (_, s) \<leftarrow> api_error ENTRY_ADD_ERROR s;
           (_, s) \<leftarrow> dealloc_cluster (de_dca e) fi s;
           Some (0, s) }
         else do {
           (_, s) \<leftarrow> reserve_loop (nat (reserve - NO_RESERVE)) (de_dca e) s;
           Some (1, s) } } } })"

section \<open>Copy\<close>

text \<open>The loop that copies a chain cluster by cluster, which the handler of the deep copy and
  \<open>NIFAT32_copy_content\<close> share word for word; 0 is the abort, after the destination was freed.
  The buffer is written before it is read.\<close>

partial_function (option) copy_chain_loop :: "u32 \<Rightarrow> u32 \<Rightarrow> u32 \<Rightarrow> byte list \<Rightarrow>
    ('w, 'z) nifat_state_scheme \<Rightarrow> ((int \<times> byte list) \<times> ('w, 'z) nifat_state_scheme) option" where
  "copy_chain_loop hca src dst buffer s = do {
     ((r, buffer), s) \<leftarrow> copy_cluster src dst buffer (int_of_u32 (bytes_per_sector (fs_data s))) (fs_data s) s;
     if r = 0 then do {
       (_, s) \<leftarrow> api_error COPY_CLUSTER_ERROR s;
       (r, s) \<leftarrow> dealloc_chain hca (fs_data s) s;
       (_, s) \<leftarrow> (if r = 0 then api_error CLUSTER_CHAIN_DELETION_ERROR s else Some (0, s));
       Some ((0, buffer), s) }
     else do {
       (src, s) \<leftarrow> read_fat src (fs_data s) s;
       (dst, s) \<leftarrow> (if \<not> is_cluster_end src then add_cluster_to_chain dst s else Some (dst, s));
       if \<not> is_cluster_end src \<and> \<not> is_cluster_bad src \<and> \<not> is_cluster_bad dst
       then copy_chain_loop hca src dst buffer s
       else Some ((1, buffer), s) } }"

text \<open>The depth of the recursion is bounded as for \<open>entry_erase_rec\<close>.\<close>

primrec deepcopy_handler :: "nat \<Rightarrow> (byte list, ('w, 'z) nifat_state_scheme) handler" where
  "deepcopy_handler 0 info entry ctx s = None"
| "deepcopy_handler (Suc depth) info entry ctx s = do {
     let fi = fs_data s;
     (off, s) \<leftarrow> get_cluster_offset fi s;
     (hca, s) \<leftarrow> alloc_cluster fi off s;
     (r, s) \<leftarrow> set_cluster_end hca fi s;
     ((ok, ctx), s) \<leftarrow> (if r \<noteq> 0 then copy_chain_loop hca (de_dca entry) hca ctx s else Some ((1, ctx), s));
     if ok = 0 then Some ((0, entry, ctx), s)
     else do {
       let entry = entry\<lparr>de_dca := hca, de_checksum := 0\<rparr>;
       let entry = entry\<lparr>de_checksum := entry_sum entry\<rparr>;
       ((_, ctx), s) \<leftarrow> (if is_dir_entry entry then entry_iterate hca (Some (deepcopy_handler depth)) ctx fi s
         else Some ((0, ctx), s));
       Some ((0, entry, ctx), s) } }"

definition copy_deep :: "ci_t \<Rightarrow> ci_t \<Rightarrow> ('w, 'z) nifat_state_scheme \<Rightarrow> (int \<times> ('w, 'z) nifat_state_scheme) option" where
  "copy_deep src dst s = do {
     let fi = fs_data s;
     let hca_dst = get_content_data_ca dst s;
     let is_dir = (get_content_type src s = CONTENT_TYPE_DIRECTORY);
     ((r, buffer), s) \<leftarrow> copy_chain_loop hca_dst (get_content_data_ca src s) hca_dst
       (replicate (unat (bytes_per_sector fi)) 0) s;
     if r = 0 then Some (0, s)
     else do {
       (_, s) \<leftarrow> (if is_dir then entry_iterate hca_dst (Some (deepcopy_handler (erase_depth fi))) buffer fi s
         else Some ((0, buffer), s));
       Some (1, s) } }"

definition copy_shallow :: "ci_t \<Rightarrow> ci_t \<Rightarrow> ('w, 'z) nifat_state_scheme \<Rightarrow> (int \<times> ('w, 'z) nifat_state_scheme) option" where
  "copy_shallow src dst s = do {
     let fi = fs_data s;
     ((r, source), s) \<leftarrow> entry_search (get_content_name src s) (get_content_root_ca src s) NO_ECACHE (Some zero_entry) fi s;
     if r = 0 then do { (_, s) \<leftarrow> api_error ENTRY_SEARCH_ERROR s; Some (0, s) }
     else do {
       ((r, destination), s) \<leftarrow> entry_search (get_content_name dst s) (get_content_root_ca dst s) NO_ECACHE
         (Some zero_entry) fi s;
       if r = 0 then do { (_, s) \<leftarrow> api_error ENTRY_SEARCH_ERROR s; Some (0, s) }
       else do {
         d \<leftarrow> destination;
         (r, s) \<leftarrow> dealloc_chain (de_dca d) fi s;
         if r = 0 then do { (_, s) \<leftarrow> api_error CLUSTER_CHAIN_DELETION_ERROR s; Some (0, s) }
         else do {
           e \<leftarrow> source;
           let e = e\<lparr>de_rca := get_content_root_ca dst s, de_checksum := 0\<rparr>;
           let e = e\<lparr>de_checksum := entry_sum e\<rparr>;
           name \<leftarrow> get_content_name dst s;
           (r, s) \<leftarrow> entry_edit (de_rca e) NO_ECACHE name e fi s;
           if r = 0 then do { (_, s) \<leftarrow> api_error ENTRY_EDIT_ERROR s; Some (0, s) }
           else do {
             (_, s) \<leftarrow> set_content_data_ca dst (get_content_data_ca src s) s;
             Some (1, s) } } } } }"

definition NIFAT32_copy_content :: "ci_t \<Rightarrow> ci_t \<Rightarrow> byte \<Rightarrow>
    ('w, 'z) nifat_state_scheme \<Rightarrow> (int \<times> ('w, 'z) nifat_state_scheme) option" where
  "NIFAT32_copy_content src dst deep = fs_api 0 (\<lambda>s.
     if deep = DEEP_COPY then copy_deep src dst s
     else if deep = SHALLOW_COPY then copy_shallow src dst s
     else do { (_, s) \<leftarrow> api_error UNKNOWN_DEEP_TYPE_ERROR s; Some (0, s) })"

section \<open>Delete, stat, repair, unload\<close>

text \<open>A \<open>NULL\<close> name has no byte to compare.\<close>

definition NIFAT32_delete_content :: "ci_t \<Rightarrow> ('w, 'z) nifat_state_scheme \<Rightarrow> (int \<times> ('w, 'z) nifat_state_scheme) option" where
  "NIFAT32_delete_content ci = fs_api 0 (\<lambda>s. do {
     let name = (case get_content_name ci s of None \<Rightarrow> [] | Some n \<Rightarrow> n);
     (r, s) \<leftarrow> entry_remove (get_content_root_ca ci s) name (get_content_ecache ci s) (fs_data s) s;
     if r = 0 then do { (_, s) \<leftarrow> api_error ENTRY_REMOVE_ERROR s; Some (0, s) }
     else do { (_, s) \<leftarrow> destroy_content ci s; Some (1, s) } })"

definition NIFAT32_stat_content :: "ci_t \<Rightarrow> cinfo_t \<Rightarrow>
    ('w, 'z) nifat_state_scheme \<Rightarrow> ((int \<times> cinfo_t) \<times> ('w, 'z) nifat_state_scheme) option" where
  "NIFAT32_stat_content ci info = fs_api (0, info) (\<lambda>s. do { r \<leftarrow> stat_content ci info s; Some (r, s) })"

primrec repair_handler :: "nat \<Rightarrow> fat_data \<Rightarrow> (unit, ('w, 'z) nifat_state_scheme) handler" where
  "repair_handler 0 fi info entry ctx s = None"
| "repair_handler (Suc depth) fi info entry ctx s = do {
     (_, s) \<leftarrow> (if is_dir_entry entry then entry_iterate (de_dca entry) (Some (repair_handler depth fi)) ctx fi s
       else Some ((0, ctx), s));
     Some ((0, entry, ctx), s) }"

definition NIFAT32_repair_content :: "ci_t \<Rightarrow> int \<Rightarrow>
    ('w, 'z) nifat_state_scheme \<Rightarrow> (int \<times> ('w, 'z) nifat_state_scheme) option" where
  "NIFAT32_repair_content ci rec = fs_api 0 (\<lambda>s.
     if get_content_type ci s \<noteq> CONTENT_TYPE_DIRECTORY
     then do { (_, s) \<leftarrow> api_error REPAIR_CONTENT_ERROR s; Some (0, s) }
     else do {
       let fi = fs_data s;
       (_, s) \<leftarrow> entry_iterate (get_content_data_ca ci s)
         (if rec \<noteq> 0 then Some (repair_handler (erase_depth fi) fi) else None) () fi s;
       Some (1, s) })"

definition NIFAT32_get_last_error :: "('w, 'z) nifat_state_scheme \<Rightarrow> (u32 \<times> ('w, 'z) nifat_state_scheme) option" where
  "NIFAT32_get_last_error = fs_api_late (-1) (\<lambda>s. errors_last_error (fs_data s) s)"

definition NIFAT32_unload :: "('w, 'z) nifat_state_scheme \<Rightarrow> (int \<times> ('w, 'z) nifat_state_scheme) option" where
  "NIFAT32_unload = fs_api 0 (\<lambda>s. do {
     (_, s) \<leftarrow> fat_cache_unload s;
     (_, s) \<leftarrow> ctable_destroy s;
     Some (1, s) })"

end
