(* ===== verification/Chain.thy ===== *)
theory Chain
  imports Cluster
begin

text \<open>
  What the operations of \<open>Cluster\<close> do to the table and to the data area: allocation, chains and
  their deallocation, and the areas of sectors of the clusters. The proofs use the table only
  through the contract of \<open>Table\<close>.
\<close>

unbundle bit_operations_syntax

section \<open>The state between two cluster operations\<close>

lemma vol_ok_cluster [simp]:
  "vol_ok rd wr good secs nsec ssz fi (s\<lparr>allocater_lock := l\<rparr>) = vol_ok rd wr good secs nsec ssz fi s"
  "vol_ok rd wr good secs nsec ssz fi (s\<lparr>last_allocated_cluster := n\<rparr>) = vol_ok rd wr good secs nsec ssz fi s"
  by (simp_all add: vol_ok_def fat_ready_def fat_open_def dsk_ready_def)

lemma fat_of_cong: "world s = world t \<Longrightarrow> fat_cache s = fat_cache t \<Longrightarrow> fat_of secs ssz fi s = fat_of secs ssz fi t"
  by (auto simp: fat_of_def fun_eq_iff split: option.splits)

lemma fat_of_cluster [simp]:
  "fat_of secs ssz fi (s\<lparr>allocater_lock := l\<rparr>) = fat_of secs ssz fi s"
  "fat_of secs ssz fi (s\<lparr>last_allocated_cluster := n\<rparr>) = fat_of secs ssz fi s"
  by (rule fat_of_cong; simp)+

lemma lock_alloc_null [wp, simp]:
  "allocater_lock s = NULL_LOCK \<Longrightarrow> lock_alloc s = Some (1, s\<lparr>allocater_lock := HELD\<rparr>)"
  by (simp add: lock_alloc_def)

lemma unlock_alloc_held [wp, simp]:
  "allocater_lock s = HELD \<Longrightarrow> unlock_alloc s = Some (1, s\<lparr>allocater_lock := NULL_LOCK\<rparr>)"
  by (simp add: unlock_alloc_def)

lemma store_offset_simps [simp]:
  "allocater_lock (store_offset offt v s) = allocater_lock s"
  "vol_ok rd wr good secs nsec ssz fi (store_offset offt v s) = vol_ok rd wr good secs nsec ssz fi s"
  "fat_of secs ssz fi (store_offset offt v s) = fat_of secs ssz fi s"
  by (simp_all add: store_offset_def)

text \<open>What the operations leave alone: every field but the device, the bitmap, the cache and the
  allocation counter, and every sector outside the copies of the table.\<close>

definition cl_step :: "('w \<Rightarrow> nat \<Rightarrow> byte list) \<Rightarrow> nat \<Rightarrow> fat_data \<Rightarrow>
    ('w, 'z) cluster_state_scheme \<Rightarrow> ('w, 'z) cluster_state_scheme \<Rightarrow> bool" where
  "cl_step secs ssz fi s s' = (\<exists>w b c n. s' = s\<lparr>world := w, bitmap := b, fat_cache := c, last_allocated_cluster := n\<rparr> \<and>
     (\<forall>x. x \<notin> fat_sectors fi ssz \<longrightarrow> secs w x = secs (world s) x))"

lemma cl_step_fat: "fat_step secs ssz fi s s' \<Longrightarrow> cl_step secs ssz fi s s'"
  unfolding fat_step_def cl_step_def
  by (elim exE conjE, rule_tac x = w in exI, rule_tac x = b in exI, rule_tac x = c in exI,
      rule_tac x = "last_allocated_cluster s" in exI) simp

lemma cl_step_count: "cl_step secs ssz fi s (s\<lparr>last_allocated_cluster := n\<rparr>)"
  unfolding cl_step_def
  by (rule exI [of _ "world s"], rule exI [of _ "bitmap s"], rule exI [of _ "fat_cache s"], rule exI [of _ n]) simp

lemma cl_step_store: "cl_step secs ssz fi s (store_offset offt v s)"
  using cl_step_count [of secs ssz fi s "last_allocated_cluster s"]
  by (simp add: store_offset_def cl_step_count)

lemma cl_step_refl: "cl_step secs ssz fi s s"
  using cl_step_count [of secs ssz fi s "last_allocated_cluster s"] by simp

lemma cl_step_trans:
  assumes "cl_step secs ssz fi s s'" and "cl_step secs ssz fi s' s''"
  shows "cl_step secs ssz fi s s''"
proof -
  obtain w b c n w' b' c' n' where
    "s' = s\<lparr>world := w, bitmap := b, fat_cache := c, last_allocated_cluster := n\<rparr>"
    "s'' = s'\<lparr>world := w', bitmap := b', fat_cache := c', last_allocated_cluster := n'\<rparr>"
    "\<forall>x. x \<notin> fat_sectors fi ssz \<longrightarrow> secs w x = secs (world s) x" "\<forall>x. x \<notin> fat_sectors fi ssz \<longrightarrow> secs w' x = secs w x"
    using assms by (auto simp: cl_step_def)
  then show ?thesis
    unfolding cl_step_def by (intro exI [of _ w'] exI [of _ b'] exI [of _ c'] exI [of _ n']) simp
qed

lemma cl_step_lock: "cl_step secs ssz fi s s' \<Longrightarrow> allocater_lock s' = allocater_lock s"
  by (auto simp: cl_step_def)

lemma cl_step_outside: "cl_step secs ssz fi s s' \<Longrightarrow> x \<notin> fat_sectors fi ssz \<Longrightarrow> secs (world s') x = secs (world s) x"
  by (auto simp: cl_step_def)

lemma cl_step_relock:
  assumes "cl_step secs ssz fi s s'"
  shows "cl_step secs ssz fi (s\<lparr>allocater_lock := k\<rparr>) (s'\<lparr>allocater_lock := k\<rparr>)"
proof -
  obtain w b c n where "s' = s\<lparr>world := w, bitmap := b, fat_cache := c, last_allocated_cluster := n\<rparr>"
    "\<forall>x. x \<notin> fat_sectors fi ssz \<longrightarrow> secs w x = secs (world s) x"
    using assms by (auto simp: cl_step_def)
  then show ?thesis
    unfolding cl_step_def by (intro exI [of _ w] exI [of _ b] exI [of _ c] exI [of _ n]) simp
qed

lemma allocater_lock_id: "allocater_lock s = k \<Longrightarrow> s\<lparr>allocater_lock := k\<rparr> = s"
  by (cases s) simp

text \<open>The cluster numbers of a volume are no markers.\<close>

definition links_ok :: "fat_data \<Rightarrow> bool" where
  "links_ok fi = (0 < ext_root_cluster fi \<and> total_clusters fi \<le> FAT_CLUSTER_BAD)"

definition in_vol :: "fat_data \<Rightarrow> u32 \<Rightarrow> bool" where
  "in_vol fi c = (ext_root_cluster fi \<le> c \<and> c < total_clusters fi)"

lemma in_vol_marks:
  assumes "links_ok fi" "in_vol fi c"
  shows "c \<noteq> FAT_CLUSTER_FREE" "c \<noteq> FAT_CLUSTER_BAD" "c \<noteq> FAT_CLUSTER_RESERVED" "c \<noteq> FAT_CLUSTER_END"
proof -
  have "0 < unat c" "unat c < unat FAT_CLUSTER_BAD"
    using assms by (auto simp: links_ok_def in_vol_def word_less_nat_alt word_le_nat_alt)
  then show "c \<noteq> FAT_CLUSTER_FREE" "c \<noteq> FAT_CLUSTER_BAD" "c \<noteq> FAT_CLUSTER_RESERVED" "c \<noteq> FAT_CLUSTER_END"
    by (auto simp: FAT_CLUSTER_FREE_def FAT_CLUSTER_BAD_def FAT_CLUSTER_RESERVED_def FAT_CLUSTER_END_def)
qed

lemma fat_marks_distinct [simp]:
  "FAT_CLUSTER_FREE \<noteq> FAT_CLUSTER_BAD" "FAT_CLUSTER_FREE \<noteq> FAT_CLUSTER_RESERVED" "FAT_CLUSTER_FREE \<noteq> FAT_CLUSTER_END"
  "FAT_CLUSTER_BAD \<noteq> FAT_CLUSTER_RESERVED" "FAT_CLUSTER_BAD \<noteq> FAT_CLUSTER_END" "FAT_CLUSTER_RESERVED \<noteq> FAT_CLUSTER_END"
  by (simp_all add: FAT_CLUSTER_FREE_def FAT_CLUSTER_BAD_def FAT_CLUSTER_RESERVED_def FAT_CLUSTER_END_def)

lemmas cluster_tests = is_cluster_free_def is_cluster_end_def is_cluster_bad_def is_cluster_reserved_def

lemma free_is_zero: "FAT_CLUSTER_FREE = 0"
  by (simp add: FAT_CLUSTER_FREE_def)

lemma marks_28: "unat FAT_CLUSTER_FREE < 2 ^ 28" "unat FAT_CLUSTER_BAD < 2 ^ 28" "unat FAT_CLUSTER_RESERVED < 2 ^ 28"
  "unat FAT_CLUSTER_END < 2 ^ 28"
  by (simp_all add: FAT_CLUSTER_FREE_def FAT_CLUSTER_BAD_def FAT_CLUSTER_RESERVED_def FAT_CLUSTER_END_def)

lemma in_vol_28: "links_ok fi \<Longrightarrow> in_vol fi c \<Longrightarrow> unat c < 2 ^ 28"
proof -
  assume "links_ok fi" "in_vol fi c"
  then have "unat c < unat FAT_CLUSTER_BAD"
    by (auto simp: links_ok_def in_vol_def word_less_nat_alt word_le_nat_alt)
  then show ?thesis by (simp add: FAT_CLUSTER_BAD_def)
qed

section \<open>Allocation\<close>

lemma take_cluster_ok:
  assumes "vol_ok rd wr good secs nsec ssz fi s" "in_vol fi c" "allocater_lock s = HELD"
  shows "\<exists>s'. take_cluster fi offt c s = Some (c, s') \<and> vol_ok rd wr good secs nsec ssz fi s' \<and>
    allocater_lock s' = NULL_LOCK \<and> cl_step secs ssz fi (s\<lparr>allocater_lock := NULL_LOCK\<rparr>) s' \<and>
    ft.same fi (fat_of secs ssz fi s') ((fat_of secs ssz fi s)(unat c := FAT_CLUSTER_RESERVED))"
proof -
  obtain s1 where s1: "write_fat c FAT_CLUSTER_RESERVED fi s = Some (1, s1)" "vol_ok rd wr good secs nsec ssz fi s1"
    "ft.same fi (fat_of secs ssz fi s1) ((fat_of secs ssz fi s)(unat c := FAT_CLUSTER_RESERVED))" "fat_step secs ssz fi s s1"
    using ft.writeE [OF assms(1), of c FAT_CLUSTER_RESERVED] assms(2) marks_28 by (auto simp: in_vol_def)
  let ?s2 = "store_offset offt (c + 1) s1"
  have st: "cl_step secs ssz fi s ?s2" using cl_step_fat [OF s1(4)] cl_step_store cl_step_trans by blast
  then have "allocater_lock ?s2 = HELD" using cl_step_lock assms(3) by metis
  moreover have "cl_step secs ssz fi (s\<lparr>allocater_lock := NULL_LOCK\<rparr>) (?s2\<lparr>allocater_lock := NULL_LOCK\<rparr>)"
    using st by (rule cl_step_relock)
  ultimately show ?thesis using s1 by (auto simp: take_cluster_def)
qed

text \<open>The end of a scan, or the cluster it found.\<close>

definition alloc_post :: "('w \<Rightarrow> nat \<Rightarrow> byte list) \<Rightarrow> nat \<Rightarrow> fat_data \<Rightarrow> (nat \<Rightarrow> u32) \<Rightarrow> nat \<Rightarrow> u32 \<Rightarrow>
    ('w, 'z) cluster_state_scheme \<Rightarrow> bool" where
  "alloc_post secs ssz fi t from c s' = (
     if c = FAT_CLUSTER_BAD then ft.same fi (fat_of secs ssz fi s') t
     else in_vol fi c \<and> from \<le> unat c \<and> t (unat c) = FAT_CLUSTER_FREE \<and>
       ft.same fi (fat_of secs ssz fi s') (t(unat c := FAT_CLUSTER_RESERVED)))"

text \<open>The numbers of the next step of the scan do not wrap.\<close>

lemma scan_next:
  fixes c step :: u32
  assumes "links_ok fi" "in_vol fi c" "unat step \<le> unat c"
  shows "unat (c + step + 1) = unat c + unat step + 1" "unat (c + 1) = unat c + 1" "unat (step + 1) = unat step + 1"
  using in_vol_28 [OF assms(1,2)] assms(3) by (simp_all add: unat_word_ariths)

lemma alloc_scan_ok:
  assumes "vol_ok rd wr good secs nsec ssz fi s" "links_ok fi" "allocater_lock s = HELD"
    and "ext_root_cluster fi \<le> c" "unat step \<le> unat c"
  shows "\<exists>r s'. alloc_scan fi offt c step s = Some (r, s') \<and> vol_ok rd wr good secs nsec ssz fi s' \<and>
    allocater_lock s' = NULL_LOCK \<and> cl_step secs ssz fi (s\<lparr>allocater_lock := NULL_LOCK\<rparr>) s' \<and>
    alloc_post secs ssz fi (fat_of secs ssz fi s) (unat c) r s'"
  using assms
proof (induction "unat (total_clusters fi) - unat c" arbitrary: c step s rule: less_induct)
  case less
  show ?case
  proof (cases "c < total_clusters fi")
    case False
    let ?s = "store_offset offt (ext_root_cluster fi) s"
    have "cl_step secs ssz fi (s\<lparr>allocater_lock := NULL_LOCK\<rparr>) (?s\<lparr>allocater_lock := NULL_LOCK\<rparr>)"
      using cl_step_relock [OF cl_step_store] .
    then show ?thesis using False less.prems
      by (subst alloc_scan.simps) (auto simp: alloc_post_def)
  next
    case True
    then have iv: "in_vol fi c" using less.prems(4) by (simp add: in_vol_def)
    obtain s1 where s1: "read_fat c fi s = Some (fat_of secs ssz fi s (unat c), s1)"
      "vol_ok rd wr good secs nsec ssz fi s1" "ft.same fi (fat_of secs ssz fi s1) (fat_of secs ssz fi s)"
      "fat_step secs ssz fi s s1"
      using ft.readE [OF less.prems(1,4) True] by auto
    have l1: "allocater_lock s1 = HELD" using cl_step_lock [OF cl_step_fat [OF s1(4)]] less.prems(3) by simp
    have step1: "cl_step secs ssz fi (s\<lparr>allocater_lock := NULL_LOCK\<rparr>) (s1\<lparr>allocater_lock := NULL_LOCK\<rparr>)"
      using cl_step_relock [OF cl_step_fat [OF s1(4)]] .
    let ?t = "fat_of secs ssz fi s" let ?v = "?t (unat c)"
    show ?thesis
    proof (cases "is_cluster_free ?v")
      case free: True
      obtain s2 where s2: "take_cluster fi offt c s1 = Some (c, s2)" "vol_ok rd wr good secs nsec ssz fi s2"
        "allocater_lock s2 = NULL_LOCK" "cl_step secs ssz fi (s1\<lparr>allocater_lock := NULL_LOCK\<rparr>) s2"
        "ft.same fi (fat_of secs ssz fi s2) ((fat_of secs ssz fi s1)(unat c := FAT_CLUSTER_RESERVED))"
        using take_cluster_ok [OF s1(2) iv l1] by blast
      have "ft.same fi (fat_of secs ssz fi s2) (?t(unat c := FAT_CLUSTER_RESERVED))"
        using s2(5) ft.same_upd [OF s1(3)] ft.same_trans by blast
      then have "alloc_post secs ssz fi ?t (unat c) c s2"
        using in_vol_marks [OF less.prems(2) iv] iv free by (simp add: alloc_post_def is_cluster_free_def free_is_zero)
      moreover have "alloc_scan fi offt c step s = Some (c, s2)"
        using True s1(1) free s2(1) by (subst alloc_scan.simps) simp
      ultimately show ?thesis using s2 cl_step_trans [OF step1 s2(4)] by blast
    next
      case used: False
      define c' where "c' = (if is_cluster_bad ?v \<or> is_cluster_reserved ?v then c + step + 1 else c + 1)"
      define step' where "step' = (if is_cluster_bad ?v \<or> is_cluster_reserved ?v then step + 1 else step)"
      have run: "alloc_scan fi offt c step s = alloc_scan fi offt c' step' s1"
        using True s1(1) used by (subst alloc_scan.simps) (simp add: c'_def step'_def)
      note nums = scan_next [OF less.prems(2) iv less.prems(5)]
      have far: "unat c < unat c'" "unat step' \<le> unat c'"
        using nums less.prems(5) by (auto simp: c'_def step'_def)
      have "unat (total_clusters fi) - unat c' < unat (total_clusters fi) - unat c"
        using far(1) True by (simp add: word_less_nat_alt)
      moreover have "ext_root_cluster fi \<le> c'" using far(1) less.prems(4) by (simp add: word_le_nat_alt)
      ultimately obtain r s' where r: "alloc_scan fi offt c' step' s1 = Some (r, s')"
        "vol_ok rd wr good secs nsec ssz fi s'" "allocater_lock s' = NULL_LOCK"
        "cl_step secs ssz fi (s1\<lparr>allocater_lock := NULL_LOCK\<rparr>) s'"
        "alloc_post secs ssz fi (fat_of secs ssz fi s1) (unat c') r s'"
        using less.hyps [OF _ s1(2) less.prems(2) l1 _ far(2)] by blast
      have "alloc_post secs ssz fi ?t (unat c) r s'"
      proof (cases "r = FAT_CLUSTER_BAD")
        case True
        then show ?thesis using r(5) s1(3) ft.same_trans by (auto simp: alloc_post_def)
      next
        case False
        then have r': "in_vol fi r" "unat c' \<le> unat r" "fat_of secs ssz fi s1 (unat r) = FAT_CLUSTER_FREE"
          "ft.same fi (fat_of secs ssz fi s') ((fat_of secs ssz fi s1)(unat r := FAT_CLUSTER_RESERVED))"
          using r(5) by (auto simp: alloc_post_def)
        have "?t (unat r) = FAT_CLUSTER_FREE" using ft.same_at [OF s1(3)] r'(1,3) by (simp add: in_vol_def)
        moreover have "ft.same fi (fat_of secs ssz fi s') (?t(unat r := FAT_CLUSTER_RESERVED))"
          using r'(4) ft.same_upd [OF s1(3)] ft.same_trans by blast
        ultimately show ?thesis using r'(1,2) far(1) False by (simp add: alloc_post_def)
      qed
      then show ?thesis using r run cl_step_trans [OF step1 r(4)] by metis
    qed
  qed
qed

lemma fatmap_lock_id: "fatmap_lock s = k \<Longrightarrow> s\<lparr>fatmap_lock := k\<rparr> = s"
  by (cases s) simp

lemma find_free_one:
  assumes "vol_ok rd wr good secs nsec ssz fi s"
  shows "\<exists>r. fatmap_find_free off 1 fi s = Some (r, s) \<and> (r = 0 \<or> off \<le> r \<and> r < total_clusters fi)"
proof -
  have l: "fatmap_lock s = NULL_LOCK" and bm: "\<And>a bm. bitmap s = Some (a, bm) \<Longrightarrow> bm_ok bm (unat (total_clusters fi))"
    using assms by (auto simp: vol_ok_def fat_ready_def fat_open_def)
  show ?thesis
  proof (cases "bitmap s")
    case None
    then show ?thesis by (simp add: fatmap_find_free_def)
  next
    case (Some m)
    then obtain a b where m: "bitmap s = Some (a, b)" by (cases m) auto
    show ?thesis
    proof (cases "off < total_clusters fi")
      case False
      then have "total_clusters fi \<le> off" by simp
      then show ?thesis using m l fatmap_lock_id [OF l] by (simp add: fatmap_find_free_def)
    next
      case True
      have fr: "fatmap_ready fi (a, b) s" using m l bm by (simp add: fatmap_ready_def)
      have le: "(1 :: int) \<le> int (unat (total_clusters fi) - unat off)"
        using True unfolding word_less_nat_alt by linarith
      from fatmap_find_free_ready [OF fr zero_less_one True le] obtain r where r: "fatmap_find_free off 1 fi s = Some (r, s)"
        "if \<exists>c. unat off \<le> c \<and> c + nat 1 \<le> unat (total_clusters fi) \<and> free_run b (nat 1) c
         then unat off \<le> unat r \<and> unat r + nat 1 \<le> unat (total_clusters fi) \<and> free_run b (nat 1) (unat r) \<and>
           (\<forall>c. unat off \<le> c \<and> c < unat r \<longrightarrow> \<not> free_run b (nat 1) c)
         else r = 0"
        by blast
      then have "r = 0 \<or> unat off \<le> unat r \<and> unat r + nat 1 \<le> unat (total_clusters fi)"
        by (simp only: split: if_splits) blast+
      then show ?thesis using r(1) by (auto simp: word_le_nat_alt word_less_nat_alt)
    qed
  qed
qed

lemma alloc_cluster_ok:
  assumes vol: "vol_ok rd wr good secs nsec ssz fi s" and links: "links_ok fi" and l: "allocater_lock s = NULL_LOCK"
    and start: "start = (if offt \<noteq> NO_CLUSTER_OFFSET then offt else last_allocated_cluster s)" "ext_root_cluster fi \<le> start"
  shows "\<exists>c s'. alloc_cluster fi offt s = Some (c, s') \<and> vol_ok rd wr good secs nsec ssz fi s' \<and>
    allocater_lock s' = NULL_LOCK \<and> cl_step secs ssz fi s s' \<and> alloc_post secs ssz fi (fat_of secs ssz fi s) (unat start) c s'"
proof -
  let ?h = "s\<lparr>allocater_lock := HELD\<rparr>"
  have relock: "?h\<lparr>allocater_lock := NULL_LOCK\<rparr> = s" using allocater_lock_id [OF l] by simp
  have hv: "vol_ok rd wr good secs nsec ssz fi ?h" using vol by simp
  have scan: "\<exists>r s'. alloc_scan fi offt start 0 t = Some (r, s') \<and> vol_ok rd wr good secs nsec ssz fi s' \<and>
      allocater_lock s' = NULL_LOCK \<and> cl_step secs ssz fi s s' \<and> alloc_post secs ssz fi (fat_of secs ssz fi s) (unat start) r s'"
    if t: "vol_ok rd wr good secs nsec ssz fi t" "allocater_lock t = HELD" "cl_step secs ssz fi ?h t"
      "ft.same fi (fat_of secs ssz fi t) (fat_of secs ssz fi s)" for t
  proof -
    obtain r s' where r: "alloc_scan fi offt start 0 t = Some (r, s')" "vol_ok rd wr good secs nsec ssz fi s'"
      "allocater_lock s' = NULL_LOCK" "cl_step secs ssz fi (t\<lparr>allocater_lock := NULL_LOCK\<rparr>) s'"
      "alloc_post secs ssz fi (fat_of secs ssz fi t) (unat start) r s'"
      using alloc_scan_ok [OF t(1) links t(2) start(2), of 0 offt] by auto
    have "cl_step secs ssz fi s (t\<lparr>allocater_lock := NULL_LOCK\<rparr>)"
      using cl_step_relock [OF t(3), of NULL_LOCK] relock by simp
    moreover have "alloc_post secs ssz fi (fat_of secs ssz fi s) (unat start) r s'"
    proof (cases "r = FAT_CLUSTER_BAD")
      case True
      then show ?thesis using r(5) t(4) ft.same_trans by (auto simp: alloc_post_def)
    next
      case False
      then show ?thesis
        using r(5) ft.same_at [OF t(4), of r] ft.same_upd [OF t(4)] ft.same_trans by (auto simp: alloc_post_def in_vol_def)
    qed
    ultimately show ?thesis using r cl_step_trans by blast
  qed
  obtain f where f: "fatmap_find_free start 1 fi ?h = Some (f, ?h)" "f = 0 \<or> start \<le> f \<and> f < total_clusters fi"
    using find_free_one [OF hv] by blast
  have cur: "(if offt \<noteq> NO_CLUSTER_OFFSET then offt else last_allocated_cluster ?h) = start" using start(1) by simp
  show ?thesis
  proof (cases "f = 0")
    case True
    then have "alloc_cluster fi offt s = alloc_scan fi offt start 0 ?h"
      using l f(1) cur by (simp add: alloc_cluster_def Let_def del: if_split)
    then show ?thesis using scan [OF hv _ cl_step_refl] by simp
  next
    case False
    then have iv: "in_vol fi f" and le: "start \<le> f" using f(2) start(2) by (auto simp: in_vol_def)
    obtain s1 where s1: "read_fat f fi ?h = Some (fat_of secs ssz fi s (unat f), s1)" "vol_ok rd wr good secs nsec ssz fi s1"
      "ft.same fi (fat_of secs ssz fi s1) (fat_of secs ssz fi s)" "fat_step secs ssz fi ?h s1"
      using ft.readE [OF hv, of f] iv by (auto simp: in_vol_def)
    have l1: "allocater_lock s1 = HELD" using cl_step_lock [OF cl_step_fat [OF s1(4)]] by simp
    have st1: "cl_step secs ssz fi s (s1\<lparr>allocater_lock := NULL_LOCK\<rparr>)"
      using cl_step_relock [OF cl_step_fat [OF s1(4)], of NULL_LOCK] relock by simp
    show ?thesis
    proof (cases "is_cluster_free (fat_of secs ssz fi s (unat f))")
      case True
      obtain s2 where s2: "take_cluster fi offt f s1 = Some (f, s2)" "vol_ok rd wr good secs nsec ssz fi s2"
        "allocater_lock s2 = NULL_LOCK" "cl_step secs ssz fi (s1\<lparr>allocater_lock := NULL_LOCK\<rparr>) s2"
        "ft.same fi (fat_of secs ssz fi s2) ((fat_of secs ssz fi s1)(unat f := FAT_CLUSTER_RESERVED))"
        using take_cluster_ok [OF s1(2) iv l1] by blast
      have "alloc_cluster fi offt s = Some (f, s2)"
        using l f(1) cur False s1(1) True s2(1) by (simp add: alloc_cluster_def Let_def del: if_split)
      moreover have "alloc_post secs ssz fi (fat_of secs ssz fi s) (unat start) f s2"
        using in_vol_marks [OF links iv] iv True le s2(5) ft.same_upd [OF s1(3)] ft.same_trans
        by (fastforce simp: alloc_post_def is_cluster_free_def free_is_zero word_le_nat_alt)
      ultimately show ?thesis using s2 cl_step_trans [OF st1 s2(4)] by blast
    next
      case used: False
      have "alloc_cluster fi offt s = alloc_scan fi offt start 0 s1"
        using l f(1) cur False s1(1) used by (simp add: alloc_cluster_def Let_def del: if_split)
      then show ?thesis using scan [OF s1(2) l1 cl_step_fat [OF s1(4)] s1(3)] by simp
    qed
  qed
qed

section \<open>Chains\<close>

fun fat_chain :: "fat_data \<Rightarrow> (nat \<Rightarrow> u32) \<Rightarrow> u32 list \<Rightarrow> bool" where
  "fat_chain fi t [] = False"
| "fat_chain fi t [c] = (in_vol fi c \<and> t (unat c) = FAT_CLUSTER_END)"
| "fat_chain fi t (c # d # cs) = (in_vol fi c \<and> t (unat c) = d \<and> fat_chain fi t (d # cs))"

definition freed :: "(nat \<Rightarrow> u32) \<Rightarrow> u32 list \<Rightarrow> nat \<Rightarrow> u32" where
  "freed t cs d = (if d \<in> unat ` set cs then FAT_CLUSTER_FREE else t d)"

lemma fat_chain_in_vol: "fat_chain fi t cs \<Longrightarrow> c \<in> set cs \<Longrightarrow> in_vol fi c"
  by (induction fi t cs rule: fat_chain.induct) auto

lemma fat_chain_same: "ft.same fi t u \<Longrightarrow> fat_chain fi t cs = fat_chain fi u cs"
  by (induction fi t cs rule: fat_chain.induct) (auto simp: in_vol_def ft.same_at)

lemma fat_chain_upd: "c \<notin> set cs \<Longrightarrow> fat_chain fi (t(unat c := v)) cs = fat_chain fi t cs"
  by (induction fi t cs rule: fat_chain.induct) (auto dest: word_unat_eq_iff [THEN iffD2])

lemma fat_chain_det:
  "links_ok fi \<Longrightarrow> fat_chain fi t (c # cs) \<Longrightarrow> fat_chain fi t (c # ds) \<Longrightarrow> cs = ds"
proof (induction cs arbitrary: c ds)
  case Nil
  show ?case
  proof (cases ds)
    case (Cons d ds')
    then have "in_vol fi FAT_CLUSTER_END" using Nil fat_chain_in_vol [of fi t ds d] by auto
    then show ?thesis using in_vol_marks(4) [OF Nil(1)] by blast
  qed simp
next
  case (Cons d cs)
  show ?case
  proof (cases ds)
    case Nil
    then have "in_vol fi FAT_CLUSTER_END" using Cons.prems fat_chain_in_vol [of fi t "d # cs" d] by auto
    then show ?thesis using in_vol_marks(4) [OF Cons.prems(1)] by blast
  next
    case (Cons e es)
    then show ?thesis using Cons.prems Cons.IH [of d es] by auto
  qed
qed

lemma fat_chain_suffix: "fat_chain fi t (xs @ c # cs) \<Longrightarrow> fat_chain fi t (c # cs)"
proof (induction xs)
  case (Cons x xs)
  then show ?case by (cases "xs @ c # cs") auto
qed simp

lemma fat_chain_distinct:
  assumes "links_ok fi" shows "fat_chain fi t cs \<Longrightarrow> distinct cs"
proof (induction cs)
  case (Cons c cs)
  have "c \<notin> set cs"
  proof
    assume "c \<in> set cs"
    then obtain xs ys where cs: "cs = xs @ c # ys" by (metis split_list)
    then have "fat_chain fi t (c # ys)" using fat_chain_suffix [of fi t "c # xs" c ys] Cons.prems by simp
    then have "ys = cs" using fat_chain_det [OF assms] Cons.prems by blast
    then show False using cs by (metis append_Cons append_self_conv2 length_append length_Cons less_add_Suc2 less_irrefl)
  qed
  moreover have "distinct cs"
    using Cons by (cases cs) auto
  ultimately show ?case by simp
qed simp

section \<open>Deallocation\<close>

lemma dealloc_cluster_ok:
  assumes "vol_ok rd wr good secs nsec ssz fi s" "in_vol fi c"
  shows "\<exists>s'. dealloc_cluster c fi s = Some (1, s') \<and> vol_ok rd wr good secs nsec ssz fi s' \<and>
    ft.same fi (fat_of secs ssz fi s') ((fat_of secs ssz fi s)(unat c := FAT_CLUSTER_FREE)) \<and> fat_step secs ssz fi s s'"
proof -
  have c: "ext_root_cluster fi \<le> c" "c < total_clusters fi" using assms(2) by (auto simp: in_vol_def)
  obtain s1 where s1: "read_fat c fi s = Some (fat_of secs ssz fi s (unat c), s1)" "vol_ok rd wr good secs nsec ssz fi s1"
    "ft.same fi (fat_of secs ssz fi s1) (fat_of secs ssz fi s)" "fat_step secs ssz fi s s1"
    using ft.readE [OF assms(1) c] by auto
  show ?thesis
  proof (cases "fat_of secs ssz fi s (unat c) = 0")
    case True
    then have "dealloc_cluster c fi s = Some (1, s1)" using s1(1) by (simp add: dealloc_cluster_def is_cluster_free_def)
    then show ?thesis using s1 True by (auto simp: free_is_zero fun_upd_idem)
  next
    case False
    obtain s2 where s2: "write_fat c 0 fi s1 = Some (1, s2)" "vol_ok rd wr good secs nsec ssz fi s2"
      "ft.same fi (fat_of secs ssz fi s2) ((fat_of secs ssz fi s1)(unat c := 0))" "fat_step secs ssz fi s1 s2"
      using ft.writeE [OF s1(2) c, of 0] by auto
    then have "dealloc_cluster c fi s = Some (1, s2)"
      using s1(1) False by (simp add: dealloc_cluster_def is_cluster_free_def set_cluster_free_def)
    moreover have "ft.same fi (fat_of secs ssz fi s2) ((fat_of secs ssz fi s)(unat c := FAT_CLUSTER_FREE))"
      using s2(3) ft.same_upd [OF s1(3)] ft.same_trans by (metis free_is_zero)
    ultimately show ?thesis using s2 fat_step_trans [OF s1(4) s2(4)] by blast
  qed
qed

lemma dealloc_chain_ok:
  assumes "links_ok fi"
  shows "vol_ok rd wr good secs nsec ssz fi s \<Longrightarrow> fat_chain fi (fat_of secs ssz fi s) (c # cs) \<Longrightarrow>
    \<exists>s'. dealloc_chain c fi s = Some (1, s') \<and> vol_ok rd wr good secs nsec ssz fi s' \<and>
      ft.same fi (fat_of secs ssz fi s') (freed (fat_of secs ssz fi s) (c # cs)) \<and> fat_step secs ssz fi s s'"
proof (induction cs arbitrary: c s)
  case (Nil c s)
  then have c: "in_vol fi c" "fat_of secs ssz fi s (unat c) = FAT_CLUSTER_END" by auto
  obtain s1 where s1: "read_fat c fi s = Some (fat_of secs ssz fi s (unat c), s1)" "vol_ok rd wr good secs nsec ssz fi s1"
    "ft.same fi (fat_of secs ssz fi s1) (fat_of secs ssz fi s)" "fat_step secs ssz fi s s1"
    using ft.readE [OF Nil(1), of c] c(1) by (auto simp: in_vol_def)
  obtain s2 where s2: "dealloc_cluster c fi s1 = Some (1, s2)" "vol_ok rd wr good secs nsec ssz fi s2"
    "ft.same fi (fat_of secs ssz fi s2) ((fat_of secs ssz fi s1)(unat c := FAT_CLUSTER_FREE))" "fat_step secs ssz fi s1 s2"
    using dealloc_cluster_ok [OF s1(2) c(1)] by blast
  have "freed (fat_of secs ssz fi s) [c] = (fat_of secs ssz fi s)(unat c := FAT_CLUSTER_FREE)"
    by (auto simp: freed_def)
  then have "ft.same fi (fat_of secs ssz fi s2) (freed (fat_of secs ssz fi s) [c])"
    using s2(3) ft.same_upd [OF s1(3)] ft.same_trans by metis
  moreover have "dealloc_chain c fi s = Some (1, s2)"
    using s1(1) s2(1) c(2) by (subst dealloc_chain.simps) (simp add: cluster_tests)
  ultimately show ?case using s2 fat_step_trans [OF s1(4) s2(4)] by blast
next
  case (Cons d cs c s)
  let ?t = "fat_of secs ssz fi s"
  have c: "in_vol fi c" "?t (unat c) = d" "in_vol fi d" and rest: "fat_chain fi ?t (d # cs)"
    using Cons.prems(2) fat_chain_in_vol [of fi ?t "d # cs" d] by auto
  have nc: "c \<notin> set (d # cs)" using fat_chain_distinct [OF assms Cons.prems(2)] by simp
  obtain s1 where s1: "read_fat c fi s = Some (?t (unat c), s1)" "vol_ok rd wr good secs nsec ssz fi s1"
    "ft.same fi (fat_of secs ssz fi s1) ?t" "fat_step secs ssz fi s s1"
    using ft.readE [OF Cons.prems(1), of c] c(1) by (auto simp: in_vol_def)
  obtain s2 where s2: "dealloc_cluster c fi s1 = Some (1, s2)" "vol_ok rd wr good secs nsec ssz fi s2"
    "ft.same fi (fat_of secs ssz fi s2) ((fat_of secs ssz fi s1)(unat c := FAT_CLUSTER_FREE))" "fat_step secs ssz fi s1 s2"
    using dealloc_cluster_ok [OF s1(2) c(1)] by blast
  have t2: "ft.same fi (fat_of secs ssz fi s2) (?t(unat c := FAT_CLUSTER_FREE))"
    using s2(3) ft.same_upd [OF s1(3)] ft.same_trans by blast
  have "fat_chain fi (fat_of secs ssz fi s2) (d # cs)"
    using fat_chain_same [OF t2] fat_chain_upd [OF nc] rest by simp
  then obtain s3 where s3: "dealloc_chain d fi s2 = Some (1, s3)" "vol_ok rd wr good secs nsec ssz fi s3"
    "ft.same fi (fat_of secs ssz fi s3) (freed (fat_of secs ssz fi s2) (d # cs))" "fat_step secs ssz fi s2 s3"
    using Cons.IH [OF s2(2)] by blast
  have "ft.same fi (freed (fat_of secs ssz fi s2) (d # cs)) (freed ?t (c # d # cs))"
    using t2 by (auto simp: ft.same_def freed_def)
  then have "ft.same fi (fat_of secs ssz fi s3) (freed ?t (c # d # cs))" using s3(3) ft.same_trans by blast
  moreover have "dealloc_chain c fi s = Some (1, s3)"
    using s1(1) s2(1) s3(1) c(2) in_vol_marks [OF assms c(3)]
    by (subst dealloc_chain.simps) (simp add: cluster_tests free_is_zero)
  moreover have "fat_step secs ssz fi s s3" using s1(4) s2(4) s3(4) fat_step_trans by blast
  ultimately show ?case using s3(2) by blast
qed

section \<open>The data area\<close>

definition data_geom :: "fat_data \<Rightarrow> nat \<Rightarrow> nat \<Rightarrow> bool" where
  "data_geom fi nsec ssz = (0 < unat (sectors_per_cluster fi) \<and> unat (sectors_per_cluster fi) < 2 ^ 16 \<and>
     unat (cluster_size fi) = unat (sectors_per_cluster fi) * ssz \<and> unat (cluster_size fi) < 2 ^ 31 \<and>
     unat (first_data_sector fi) +
       (unat (total_clusters fi) - unat (ext_root_cluster fi)) * unat (sectors_per_cluster fi) \<le> nsec)"

definition cluster_at :: "fat_data \<Rightarrow> u32 \<Rightarrow> nat" where
  "cluster_at fi c = (unat c - unat (ext_root_cluster fi)) * unat (sectors_per_cluster fi) + unat (first_data_sector fi)"

definition cluster_area :: "fat_data \<Rightarrow> u32 \<Rightarrow> nat set" where
  "cluster_area fi c = {cluster_at fi c ..< cluster_at fi c + unat (sectors_per_cluster fi)}"

definition cluster_bytes :: "('w \<Rightarrow> nat \<Rightarrow> byte list) \<Rightarrow> fat_data \<Rightarrow> 'w \<Rightarrow> u32 \<Rightarrow> byte list" where
  "cluster_bytes secs fi w c = flat (secs w) (cluster_at fi c) (unat (sectors_per_cluster fi))"

lemma cluster_at_fits:
  assumes "data_geom fi nsec ssz" "in_vol fi c"
  shows "cluster_at fi c + unat (sectors_per_cluster fi) \<le> nsec"
proof -
  have "unat c - unat (ext_root_cluster fi) + 1 \<le> unat (total_clusters fi) - unat (ext_root_cluster fi)"
    using assms(2) by (auto simp: in_vol_def word_less_nat_alt word_le_nat_alt)
  then have "(unat c - unat (ext_root_cluster fi) + 1) * unat (sectors_per_cluster fi) \<le>
      (unat (total_clusters fi) - unat (ext_root_cluster fi)) * unat (sectors_per_cluster fi)"
    by (rule mult_le_mono1)
  then show ?thesis using assms(1) by (simp add: data_geom_def cluster_at_def)
qed

lemma cluster_sector_at:
  assumes "data_geom fi nsec ssz" "in_vol fi c" "nsec < 2 ^ 32"
  shows "unat (cluster_sector c fi) = cluster_at fi c"
proof -
  have le: "unat (ext_root_cluster fi) \<le> unat c" using assms(2) by (simp add: in_vol_def word_le_nat_alt)
  have spc: "unat (sectors_per_cluster fi) < 2 ^ 16" using assms(1) by (simp add: data_geom_def)
  then have u: "unat (ucast (ucast (sectors_per_cluster fi) :: u16) :: u32) = unat (sectors_per_cluster fi)"
    by (simp add: unsigned_ucast_eq unsigned_take_bit_eq take_bit_nat_eq_self)
  have d: "unat (c - ext_root_cluster fi) = unat c - unat (ext_root_cluster fi)"
    using le by (simp add: unat_sub word_le_nat_alt)
  have "cluster_at fi c < 2 ^ 32" using cluster_at_fits [OF assms(1,2)] assms(1,3) by (auto simp: data_geom_def)
  then show ?thesis
    by (simp add: cluster_sector_def unat_word_ariths u d cluster_at_def mod_simps)
qed

lemma cluster_areas_disjoint:
  assumes "data_geom fi nsec ssz" "in_vol fi c" "in_vol fi d" "c \<noteq> d"
  shows "cluster_area fi c \<inter> cluster_area fi d = {}"
proof -
  have "unat c \<noteq> unat d" using assms(4) by (simp add: word_unat_eq_iff)
  moreover have "cluster_at fi x + unat (sectors_per_cluster fi) \<le> cluster_at fi y"
    if "unat x < unat y" "in_vol fi x" for x y
  proof -
    have "unat x - unat (ext_root_cluster fi) + 1 \<le> unat y - unat (ext_root_cluster fi)"
      using that by (auto simp: in_vol_def word_le_nat_alt)
    then have "(unat x - unat (ext_root_cluster fi) + 1) * unat (sectors_per_cluster fi) \<le>
        (unat y - unat (ext_root_cluster fi)) * unat (sectors_per_cluster fi)" by (rule mult_le_mono1)
    then show ?thesis by (simp add: cluster_at_def)
  qed
  ultimately show ?thesis using assms(2,3)
    by (auto simp: cluster_area_def dest!: nat_neq_iff [THEN iffD1]) (meson leD le_trans less_le_trans)+
qed

lemma flat_eq: "(\<And>i. a \<le> i \<Longrightarrow> i < a + k \<Longrightarrow> sec i = sec' i) \<Longrightarrow> flat sec a k = flat sec' a k"
  by (auto simp: flat_def intro!: arg_cong [of _ _ concat])

lemma cluster_bytes_cong:
  "(\<And>i. i \<in> cluster_area fi c \<Longrightarrow> secs w i = secs w' i) \<Longrightarrow> cluster_bytes secs fi w c = cluster_bytes secs fi w' c"
  unfolding cluster_bytes_def cluster_area_def by (rule flat_eq) auto

lemma length_cluster_bytes:
  assumes "vol_ok rd wr good secs nsec ssz fi s" "data_geom fi nsec ssz" "in_vol fi c"
  shows "length (cluster_bytes secs fi (world s) c) = unat (cluster_size fi)"
proof -
  have "block_device rd wr good secs nsec ssz" "good (world s)" using assms(1) by (auto simp: vol_ok_def)
  then show ?thesis
    using block_device.length_flat cluster_at_fits [OF assms(2,3)] assms(2)
    by (fastforce simp: cluster_bytes_def data_geom_def)
qed

text \<open>The table only looks at its own sectors.\<close>

lemma fat_view_cong:
  assumes "fat_geom fi nsec ssz" "d < unat (total_clusters fi)" "\<And>x. x \<in> fat_sectors fi ssz \<Longrightarrow> sec x = sec' x"
  shows "fat_view fi ssz sec d = fat_view fi ssz sec' d"
proof -
  have "fat_copy_val fi ssz sec i d = fat_copy_val fi ssz sec' i d" if "i < unat (fat_count fi)" for i
  proof -
    have "fat_loc fi ssz i d div ssz \<in> fat_sectors fi ssz" using that assms(2) by (auto simp: fat_sectors_def)
    then show ?thesis using assms(3) by (simp add: fat_copy_val_def fat_slot_def slot_def)
  qed
  then have "map (\<lambda>i. fat_copy_val fi ssz sec i d) [0..<unat (fat_count fi)] =
      map (\<lambda>i. fat_copy_val fi ssz sec' i d) [0..<unat (fat_count fi)]" by simp
  then show ?thesis unfolding fat_view_def fat_vote_def by (rule arg_cong)
qed

lemma fat_of_world:
  assumes "fat_geom fi nsec ssz" "\<And>x. x \<in> fat_sectors fi ssz \<Longrightarrow> secs w x = secs (world s) x"
  shows "ft.same fi (fat_of secs ssz fi (s\<lparr>world := w\<rparr>)) (fat_of secs ssz fi s)"
  using fat_view_cong [OF assms(1), of _ "secs w" "secs (world s)"] assms(2)
  by (auto simp: ft.same_def fat_of_def split: option.splits)

lemma vol_ok_world: "vol_ok rd wr good secs nsec ssz fi s \<Longrightarrow> good w \<Longrightarrow> vol_ok rd wr good secs nsec ssz fi (s\<lparr>world := w\<rparr>)"
  by (simp add: vol_ok_def fat_ready_def fat_open_def)

lemma sint_less: "unat (w :: u32) < 2 ^ 31 \<Longrightarrow> nat (sint w) = unat w"
  by (simp add: sint_small)

lemma writeoff_cluster_part:
  assumes vol: "vol_ok rd wr good secs nsec ssz fi s" and geom: "data_geom fi nsec ssz" and c: "in_vol fi c"
    and fits: "unat off + nat n \<le> unat (cluster_size fi)" "nat n \<le> length data"
  shows "\<exists>w. writeoff_cluster c off data n fi s = Some (1, s\<lparr>world := w\<rparr>) \<and> good w \<and>
    cluster_bytes secs fi w c = splice (cluster_bytes secs fi (world s) c) (unat off) (take (nat n) data) \<and>
    (\<forall>i. i \<notin> cluster_area fi c \<longrightarrow> secs w i = secs (world s) i)"
proof -
  have dev: "block_device rd wr good secs nsec ssz" and w: "good (world s)" and ready: "dsk_ready rd wr ssz s"
    using vol by (auto simp: vol_ok_def fat_ready_def fat_open_def)
  have at: "unat (cluster_sector c fi) = cluster_at fi c"
    using cluster_sector_at [OF geom c] block_device.nsec_fits [OF dev] by simp
  have small: "unat off < 2 ^ 31" "unat (sectors_per_cluster fi) < 2 ^ 31"
    using fits(1) geom by (auto simp: data_geom_def)
  have spc: "nat (sint (sectors_per_cluster fi)) = unat (sectors_per_cluster fi)" "nat (sint off) = unat off" "0 \<le> sint off"
    using sint_less [OF small(2)] sint_less [OF small(1)] sint_small [OF small(1)] by simp_all
  have len: "unat off + nat n \<le> unat (sectors_per_cluster fi) * ssz"
    using fits geom by (simp add: data_geom_def)
  obtain w where w: "writeoff_cluster c off data n fi s = Some (1, s\<lparr>world := w\<rparr>)" "good w"
    "flat (secs w) (cluster_at fi c) (unat (sectors_per_cluster fi)) =
      splice (flat (secs (world s)) (cluster_at fi c) (unat (sectors_per_cluster fi))) (min (unat off) (unat (sectors_per_cluster fi) * ssz))
        (take (unat (sectors_per_cluster fi) * ssz - unat off) (take (nat n) data))"
    "\<forall>i. i < cluster_at fi c \<or> cluster_at fi c + unat (sectors_per_cluster fi) \<le> i \<longrightarrow> secs w i = secs (world s) i"
    using block_device.writeoff_ready [OF dev ready w, of "cluster_sector c fi" "sint (sectors_per_cluster fi)" "sint off" n data,
        unfolded at spc, OF cluster_at_fits [OF geom c] spc(3) fits(2)] unfolding writeoff_cluster_def spc by blast
  moreover have "min (unat off) (unat (sectors_per_cluster fi) * ssz) = unat off"
    "take (unat (sectors_per_cluster fi) * ssz - unat off) (take (nat n) data) = take (nat n) data"
    using len by (simp_all add: min_absorb1 min_absorb2)
  ultimately show ?thesis
    by (intro exI [of _ w]) (auto simp: cluster_bytes_def cluster_area_def not_le)
qed

lemma writeoff_cluster_ok:
  assumes "vol_ok rd wr good secs nsec ssz fi s" and "data_geom fi nsec ssz" and "in_vol fi c"
    and "unat off + length data \<le> unat (cluster_size fi)" "n = int (length data)"
  shows "\<exists>w. writeoff_cluster c off data n fi s = Some (1, s\<lparr>world := w\<rparr>) \<and> good w \<and>
    cluster_bytes secs fi w c = splice (cluster_bytes secs fi (world s) c) (unat off) data \<and>
    (\<forall>i. i \<notin> cluster_area fi c \<longrightarrow> secs w i = secs (world s) i)"
  using writeoff_cluster_part [OF assms(1-3), of off n data] assms(4,5) by simp

lemma readoff_cluster_ok:
  assumes vol: "vol_ok rd wr good secs nsec ssz fi s" and geom: "data_geom fi nsec ssz" and c: "in_vol fi c"
    and fits: "0 \<le> n" "unat off + nat n \<le> unat (cluster_size fi)" "nat n \<le> length buf"
  shows "\<exists>w. readoff_cluster c off buf n fi s =
      Some ((1, splice buf 0 (take (nat n) (drop (unat off) (cluster_bytes secs fi (world s) c)))), s\<lparr>world := w\<rparr>) \<and>
    good w \<and> secs w = secs (world s)"
proof -
  have dev: "block_device rd wr good secs nsec ssz" and w: "good (world s)" and ready: "dsk_ready rd wr ssz s"
    using vol by (auto simp: vol_ok_def fat_ready_def fat_open_def)
  have at: "unat (cluster_sector c fi) = cluster_at fi c"
    using cluster_sector_at [OF geom c] block_device.nsec_fits [OF dev] by simp
  have small: "unat off < 2 ^ 31" "unat (sectors_per_cluster fi) < 2 ^ 31"
    using fits(2) geom by (auto simp: data_geom_def)
  have spc: "nat (sint (sectors_per_cluster fi)) = unat (sectors_per_cluster fi)" "nat (sint off) = unat off" "0 \<le> sint off"
    using sint_less [OF small(2)] sint_less [OF small(1)] sint_small [OF small(1)] by simp_all
  have "min (nat n) (nat (sint (sectors_per_cluster fi)) * ssz - nat (sint off)) \<le> length buf"
    using fits(3) by (rule min.coboundedI1)
  from block_device.readoff_ready [OF dev ready w _ spc(3) this, of "cluster_sector c fi", unfolded at spc,
      OF cluster_at_fits [OF geom c]]
  show ?thesis unfolding readoff_cluster_def cluster_bytes_def .
qed

section \<open>Which cluster is found\<close>

lemma unat_next: "c < (n :: u32) \<Longrightarrow> unat (c + 1) = unat c + 1"
  using unsigned_less [of n, where ?'a = nat] by (simp add: word_less_nat_alt unat_word_ariths)

text \<open>The scan passes over clusters that are in a chain one by one, and takes the first free one.\<close>

lemma alloc_scan_first:
  assumes "vol_ok rd wr good secs nsec ssz fi s" "links_ok fi" "allocater_lock s = HELD" "ext_root_cluster fi \<le> c"
    and "unat c + k < unat (total_clusters fi)" "fat_of secs ssz fi s (unat c + k) = FAT_CLUSTER_FREE"
    and "\<And>d. unat c \<le> d \<Longrightarrow> d < unat c + k \<Longrightarrow>
      fat_of secs ssz fi s d \<notin> {FAT_CLUSTER_FREE, FAT_CLUSTER_BAD, FAT_CLUSTER_RESERVED}"
  shows "\<exists>s'. alloc_scan fi offt c step s = Some (c + of_nat k, s')"
  using assms
proof (induction k arbitrary: c s)
  case 0
  then have iv: "in_vol fi c" "c < total_clusters fi" by (simp_all add: in_vol_def word_less_nat_alt)
  obtain s1 where s1: "read_fat c fi s = Some (fat_of secs ssz fi s (unat c), s1)" "vol_ok rd wr good secs nsec ssz fi s1"
    "fat_step secs ssz fi s s1"
    using ft.readE [OF 0(1,4) iv(2)] by auto
  have "allocater_lock s1 = HELD" using cl_step_lock [OF cl_step_fat [OF s1(3)]] 0(3) by simp
  then obtain s2 where "take_cluster fi offt c s1 = Some (c, s2)" using take_cluster_ok [OF s1(2) iv(1)] by blast
  then show ?case using s1(1) 0(6) iv(2) by (subst alloc_scan.simps) (simp add: is_cluster_free_def free_is_zero)
next
  case (Suc k)
  then have lt: "c < total_clusters fi" by (simp add: word_less_nat_alt)
  obtain s1 where s1: "read_fat c fi s = Some (fat_of secs ssz fi s (unat c), s1)" "vol_ok rd wr good secs nsec ssz fi s1"
    "ft.same fi (fat_of secs ssz fi s1) (fat_of secs ssz fi s)" "fat_step secs ssz fi s s1"
    using ft.readE [OF Suc.prems(1,4) lt] by auto
  have l1: "allocater_lock s1 = HELD" using cl_step_lock [OF cl_step_fat [OF s1(4)]] Suc.prems(3) by simp
  have n: "unat (c + 1) = unat c + 1" using lt by (rule unat_next)
  have agree: "fat_of secs ssz fi s1 d = fat_of secs ssz fi s d" if "d < unat (total_clusters fi)" for d
    using s1(3) that by (simp add: ft.same_def)
  have "alloc_scan fi offt c step s = alloc_scan fi offt (c + 1) step s1"
    using s1(1) lt Suc.prems(7) [of "unat c"] by (subst alloc_scan.simps) (simp add: cluster_tests free_is_zero)
  moreover have "\<exists>s'. alloc_scan fi offt (c + 1) step s1 = Some (c + 1 + of_nat k, s')"
    using Suc.prems n agree
    by (intro Suc.IH [OF s1(2) Suc.prems(2) l1]) (auto simp: word_le_nat_alt)
  ultimately show ?case by (simp add: add.assoc)
qed

lemma find_free_least:
  assumes "vol_ok rd wr good secs nsec ssz fi s" "bitmap s = Some (a, bm)" "c \<le> d" "d < total_clusters fi"
    and "unat d \<notin> occupied bm" "\<And>e. unat c \<le> e \<Longrightarrow> e < unat d \<Longrightarrow> e \<in> occupied bm"
  shows "fatmap_find_free c 1 fi s = Some (d, s)"
proof -
  have fr: "fatmap_ready fi (a, bm) s" using assms(1,2) by (auto simp: vol_ok_def fat_ready_def fat_open_def fatmap_ready_def)
  have lt: "c < total_clusters fi" using assms(3,4) by simp
  have le: "(1 :: int) \<le> int (unat (total_clusters fi) - unat c)" using lt unfolding word_less_nat_alt by linarith
  have run: "free_run bm (nat 1) i = (i \<notin> occupied bm)" for i using le_antisym by (force simp: free_run_def less_Suc_eq_le)
  obtain r where r: "fatmap_find_free c 1 fi s = Some (r, s)" "unat c \<le> unat r" "unat r \<notin> occupied bm"
    "\<forall>e. unat c \<le> e \<and> e < unat r \<longrightarrow> e \<in> occupied bm"
  proof -
    have "\<exists>e. unat c \<le> e \<and> e + nat 1 \<le> unat (total_clusters fi) \<and> e \<notin> occupied bm"
      using assms(3-5) by (intro exI [of _ "unat d"]) (simp add: word_le_nat_alt word_less_nat_alt)
    then show thesis
      using that fatmap_find_free_ready [OF fr zero_less_one lt le] unfolding run by auto
  qed
  have "unat r = unat d"
    using r(2-4) assms(3,5,6) by (metis nat_neq_iff word_le_nat_alt)
  then show ?thesis using r(1) by (simp add: word_unat_eq_iff)
qed

text \<open>How the caller's offset, or the counter, starts the search.\<close>

definition alloc_start :: "u32 \<Rightarrow> ('w, 'z) cluster_state_scheme \<Rightarrow> u32" where
  "alloc_start offt s = (if offt \<noteq> NO_CLUSTER_OFFSET then offt else last_allocated_cluster s)"

lemma alloc_first:
  assumes "vol_ok rd wr good secs nsec ssz fi s" "links_ok fi" "allocater_lock s = NULL_LOCK"
    and start: "ext_root_cluster fi \<le> alloc_start offt s" "alloc_start offt s \<le> c" "c < total_clusters fi"
    and free: "fat_of secs ssz fi s (unat c) = FAT_CLUSTER_FREE"
    and before: "\<And>d. unat (alloc_start offt s) \<le> d \<Longrightarrow> d < unat c \<Longrightarrow> fat_of secs ssz fi s d \<noteq> FAT_CLUSTER_FREE"
    and way: "bitmap s = None \<and> (\<forall>d. unat (alloc_start offt s) \<le> d \<and> d < unat c \<longrightarrow>
        fat_of secs ssz fi s d \<notin> {FAT_CLUSTER_BAD, FAT_CLUSTER_RESERVED}) \<or>
      (\<exists>a bm. bitmap s = Some (a, bm) \<and> (\<forall>d < unat (total_clusters fi). d \<in> occupied bm \<longleftrightarrow> fat_of secs ssz fi s d \<noteq> FAT_CLUSTER_FREE))"
  shows "\<exists>s'. alloc_cluster fi offt s = Some (c, s')"
proof -
  let ?h = "s\<lparr>allocater_lock := HELD\<rparr>" and ?st = "alloc_start offt s"
  have hv: "vol_ok rd wr good secs nsec ssz fi ?h" using assms(1) by simp
  have cur: "(if offt \<noteq> NO_CLUSTER_OFFSET then offt else last_allocated_cluster ?h) = ?st" by (simp add: alloc_start_def)
  have iv: "in_vol fi c" using start by (auto simp: in_vol_def)
  from way show ?thesis
  proof (elim disjE exE conjE)
    assume none: "bitmap s = None" and clean: "\<forall>d. unat ?st \<le> d \<and> d < unat c \<longrightarrow>
        fat_of secs ssz fi s d \<notin> {FAT_CLUSTER_BAD, FAT_CLUSTER_RESERVED}"
    have "unat ?st + (unat c - unat ?st) = unat c" using start(2) by (simp add: word_le_nat_alt)
    then have "\<exists>s'. alloc_scan fi offt ?st 0 ?h = Some (?st + of_nat (unat c - unat ?st), s')"
      using start free before clean
      by (intro alloc_scan_first [OF hv assms(2)]) (auto simp: word_less_nat_alt)
    moreover have "?st + of_nat (unat c - unat ?st) = c"
      using \<open>unat ?st + (unat c - unat ?st) = unat c\<close> unsigned_less [of c, where ?'a = nat] by (simp add: word_unat_eq_iff unat_word_ariths unat_of_nat mod_simps)
    ultimately show ?thesis
      using assms(3) none cur by (simp add: alloc_cluster_def fatmap_find_free_def Let_def del: if_split)
  next
    fix a bm assume bm: "bitmap s = Some (a, bm)"
      and exact: "\<forall>d < unat (total_clusters fi). d \<in> occupied bm \<longleftrightarrow> fat_of secs ssz fi s d \<noteq> FAT_CLUSTER_FREE"
    have "fatmap_find_free ?st 1 fi ?h = Some (c, ?h)"
      using bm start free before exact
      by (intro find_free_least [OF hv, of a bm]) (auto simp: word_less_nat_alt)
    moreover obtain s1 where s1: "read_fat c fi ?h = Some (fat_of secs ssz fi s (unat c), s1)"
      "vol_ok rd wr good secs nsec ssz fi s1" "fat_step secs ssz fi ?h s1"
      using ft.readE [OF hv, of c] iv by (auto simp: in_vol_def)
    moreover have "allocater_lock s1 = HELD" using cl_step_lock [OF cl_step_fat [OF s1(3)]] by simp
    moreover from this obtain s2 where "take_cluster fi offt c s1 = Some (c, s2)" using take_cluster_ok [OF s1(2) iv] by blast
    moreover have "c \<noteq> 0" using in_vol_marks [OF assms(2) iv] by (simp add: free_is_zero)
    ultimately show ?thesis
      using assms(3) cur free by (simp add: alloc_cluster_def Let_def is_cluster_free_def free_is_zero del: if_split)
  qed
qed

section \<open>A small volume\<close>

lemma marks_nonzero: "FAT_CLUSTER_BAD \<noteq> 0" "FAT_CLUSTER_RESERVED \<noteq> 0" "FAT_CLUSTER_END \<noteq> 0"
  using fat_marks_distinct by (simp_all add: free_is_zero)

text \<open>The test volume of \<open>Table\<close>: its clusters are 2 to 15, all free, in sectors 20 to 47.\<close>

definition cluster_start :: "'z \<Rightarrow> (fake_world, 'z) cluster_state_scheme" where
  "cluster_start z = fat_start \<lparr>allocater_lock = NULL_LOCK, last_allocated_cluster = 5, \<dots> = z\<rparr>"

abbreviation "test_ok \<equiv> vol_ok fake_read fake_write fake_ok fake_secs TEST_SECTORS TEST_SECTOR_SIZE test_vol"
abbreviation "test_fat \<equiv> fat_of fake_secs TEST_SECTOR_SIZE test_vol"

lemma test_links: "links_ok test_vol"
  by (simp add: links_ok_def FAT_CLUSTER_BAD_def)

lemma test_data_geom: "data_geom test_vol TEST_SECTORS TEST_SECTOR_SIZE"
  by (simp add: data_geom_def TEST_SECTORS_def TEST_SECTOR_SIZE_def)

lemma cluster_start_simps [simp]:
  "allocater_lock (cluster_start z) = NULL_LOCK" "last_allocated_cluster (cluster_start z) = 5"
  "bitmap (cluster_start z) = None" "fat_cache (cluster_start z) = None" "world (cluster_start z) = world disk0"
  by (simp_all add: cluster_start_def fat_start_def)

lemma cluster_start_ok: "test_ok (cluster_start z)"
  by (simp add: cluster_start_def fat_start_ok)

lemma fat_start_free:
  assumes "c < 16" shows "test_fat (cluster_start z) c = FAT_CLUSTER_FREE"
proof -
  have "u16s_of_bytes (replicate 8 0) = replicate 4 0" by (simp add: numeral_eq_Suc u16_of_bytes_def)
  then have z: "unpack_bytes (replicate 8 0) = replicate 4 0"
    using unpack_zero [of 4] by (simp add: unpack_bytes_def)
  have slot: "fat_slot test_vol TEST_SECTOR_SIZE (fake_secs (world disk0)) i c = replicate 8 0" if "i < 3" for i
  proof -
    have "(63 - 6 * i) * 64 + c * 8 < 128 * 64" using assms by (auto intro: le_less_trans [OF add_mono [OF mult_le_mono1 [OF diff_le_self]]])
    then have "fat_loc test_vol TEST_SECTOR_SIZE i c div TEST_SECTOR_SIZE < 128"
      using test_vol_loc [OF that] by (simp add: TEST_SECTOR_SIZE_def less_mult_imp_div_less)
    moreover have "fat_loc test_vol TEST_SECTOR_SIZE i c mod TEST_SECTOR_SIZE + 8 \<le> 64"
      using fat_loc_fits [OF test_vol_geom] by (simp add: TEST_SECTOR_SIZE_def)
    ultimately show ?thesis
      by (simp add: fat_slot_def slot_def fake_secs_def disk0_def TEST_SECTORS_def TEST_SECTOR_SIZE_def)
  qed
  have "get_u32 (replicate 4 0) 0 = 0" by (simp add: get_u32_def u32_of_bytes_def eval_nat_numeral)
  then have "fat_copy_val test_vol TEST_SECTOR_SIZE (fake_secs (world disk0)) i c = 0" if "i < 3" for i
    using slot [OF that] z by (simp only: fat_copy_val_def) simp
  then have "map (\<lambda>i. fat_copy_val test_vol TEST_SECTOR_SIZE (fake_secs (world disk0)) i c) [0..<3] = [0, 0, 0]"
    by (simp add: upt_rec numeral_eq_Suc)
  then have "fat_view test_vol TEST_SECTOR_SIZE (fake_secs (world disk0)) c = 0"
    by (simp add: fat_view_def fat_vote_def vote_start_def vote_step_def FAT_CLUSTER_BAD_def Let_def)
  then show ?thesis by (simp add: fat_of_def FAT_CLUSTER_FREE_def)
qed

lemma test_writeE:
  assumes "test_ok s" "2 \<le> c" "c < 16" "unat v < 2 ^ 28"
  obtains s' where "test_ok s'" "\<forall>d < 16. test_fat s' d = (if d = unat c then v else test_fat s d)"
    "fat_step fake_secs TEST_SECTOR_SIZE test_vol s s'" "write_fat c v test_vol s = Some (1, s')"
proof -
  have "\<exists>s'. write_fat c v test_vol s = Some (1, s') \<and> test_ok s' \<and>
    (\<forall>d < unat (total_clusters test_vol). test_fat s' d = ((test_fat s)(unat c := v)) d) \<and>
    fat_step fake_secs TEST_SECTOR_SIZE test_vol s s'"
    by (rule ft.write_ok) (use assms in simp_all)
  then show thesis using that by auto
qed

lemma alloc_no_bitmap: "allocater_lock s = NULL_LOCK \<Longrightarrow> bitmap s = None \<Longrightarrow>
    alloc_cluster fi offt s = alloc_scan fi offt (alloc_start offt s) 0 (s\<lparr>allocater_lock := HELD\<rparr>)"
  by (simp add: alloc_cluster_def fatmap_find_free_def alloc_start_def Let_def)

section \<open>Properties\<close>

text \<open>C3 (allocation takes a free cluster). On a mounted volume \<open>alloc_cluster\<close> returns for every table
  and bitmap: either the bad marker, and the table is unchanged, or a cluster of the volume at or above
  the start of the search that was free and is now reserved, and no other entry changes. It releases
  the allocator lock and changes no sector outside the copies of the table.\<close>

theorem alloc_takes_free:
  assumes "vol_ok rd wr good secs nsec ssz fi s" and "links_ok fi" and "allocater_lock s = NULL_LOCK"
    and "ext_root_cluster fi \<le> alloc_start offt s"
  shows "\<exists>c s'. alloc_cluster fi offt s = Some (c, s') \<and> vol_ok rd wr good secs nsec ssz fi s' \<and>
    allocater_lock s' = NULL_LOCK \<and>
    (if c = FAT_CLUSTER_BAD
     then \<forall>d < unat (total_clusters fi). fat_of secs ssz fi s' d = fat_of secs ssz fi s d
     else alloc_start offt s \<le> c \<and> c < total_clusters fi \<and> fat_of secs ssz fi s (unat c) = FAT_CLUSTER_FREE \<and>
       (\<forall>d < unat (total_clusters fi). fat_of secs ssz fi s' d =
          (if d = unat c then FAT_CLUSTER_RESERVED else fat_of secs ssz fi s d))) \<and>
    (\<forall>x. x \<notin> fat_sectors fi ssz \<longrightarrow> secs (world s') x = secs (world s) x)"
  using alloc_cluster_ok [OF assms(1-3), of "alloc_start offt s" offt] assms(4) cl_step_outside
  by (fastforce simp: alloc_start_def alloc_post_def ft.same_def in_vol_def word_le_nat_alt word_less_nat_alt)

theorem alloc_takes_free_witness:
  "\<exists>c s'. alloc_cluster test_vol 7 (cluster_start ()) = Some (c, s') \<and> allocater_lock s' = NULL_LOCK"
  using alloc_takes_free [OF cluster_start_ok test_links, of "()" 7] by (auto simp: alloc_start_def NO_CLUSTER_OFFSET_def)

text \<open>C26 (allocation finds the first free cluster). The cluster \<open>alloc_cluster\<close> returns is the least free
  one from the start of the search on, when the bitmap mirrors the table, and without a bitmap when
  no bad or reserved cluster lies on the way.\<close>

theorem alloc_least_free:
  assumes "vol_ok rd wr good secs nsec ssz fi s" and "links_ok fi" and "allocater_lock s = NULL_LOCK"
    and "ext_root_cluster fi \<le> alloc_start offt s" and "alloc_start offt s \<le> c" and "c < total_clusters fi"
    and "fat_of secs ssz fi s (unat c) = FAT_CLUSTER_FREE"
    and "\<And>d. unat (alloc_start offt s) \<le> d \<Longrightarrow> d < unat c \<Longrightarrow> fat_of secs ssz fi s d \<noteq> FAT_CLUSTER_FREE"
    and "bitmap s = None \<and> (\<forall>d. unat (alloc_start offt s) \<le> d \<and> d < unat c \<longrightarrow>
        fat_of secs ssz fi s d \<notin> {FAT_CLUSTER_BAD, FAT_CLUSTER_RESERVED}) \<or>
      (\<exists>a bm. bitmap s = Some (a, bm) \<and> (\<forall>d < unat (total_clusters fi).
         d \<in> occupied bm \<longleftrightarrow> fat_of secs ssz fi s d \<noteq> FAT_CLUSTER_FREE))"
  shows "\<exists>s'. alloc_cluster fi offt s = Some (c, s')"
  using assms by (rule alloc_first)

theorem alloc_least_free_witness: "\<exists>s'. alloc_cluster test_vol 7 (cluster_start ()) = Some (7, s')"
  by (rule alloc_least_free [OF cluster_start_ok test_links])
    (auto simp: alloc_start_def NO_CLUSTER_OFFSET_def fat_start_free)

text \<open>C27 (allocation can miss a free cluster). Without a bitmap, two bad or reserved clusters in a row
  make the scan skip the cluster behind them: when that is the only free one from the start of the
  search on, \<open>alloc_cluster\<close> gives up. It also never looks below the start of the search.\<close>

theorem alloc_misses_free:
  assumes vol: "vol_ok rd wr good secs nsec ssz fi s" and links: "links_ok fi" and l: "allocater_lock s = NULL_LOCK"
    and c: "ext_root_cluster fi \<le> c" "c = alloc_start offt s" "bitmap s = None" and room: "unat c + 3 \<le> unat (total_clusters fi)"
    and bad: "fat_of secs ssz fi s (unat c) \<in> {FAT_CLUSTER_BAD, FAT_CLUSTER_RESERVED}"
      "fat_of secs ssz fi s (unat c + 1) \<in> {FAT_CLUSTER_BAD, FAT_CLUSTER_RESERVED}"
    and used: "\<And>d. unat c + 3 \<le> d \<Longrightarrow> d < unat (total_clusters fi) \<Longrightarrow> fat_of secs ssz fi s d \<noteq> FAT_CLUSTER_FREE"
  shows "\<exists>s'. alloc_cluster fi offt s = Some (FAT_CLUSTER_BAD, s')"
proof -
  let ?h = "s\<lparr>allocater_lock := HELD\<rparr>" and ?t = "fat_of secs ssz fi s"
  have lt: "c < total_clusters fi" "c + 1 < total_clusters fi" and n1: "unat (c + 1) = unat c + 1"
    and n3: "unat (c + 3) = unat c + 3"
    using room unsigned_less [of "total_clusters fi", where ?'a = nat] by (simp_all add: word_less_nat_alt unat_word_ariths)
  have lo: "ext_root_cluster fi \<le> c + 1" "ext_root_cluster fi \<le> c + 3" using c(1) n1 n3 by (simp_all add: word_le_nat_alt)
  have hv: "vol_ok rd wr good secs nsec ssz fi ?h" using vol by simp
  obtain s1 where s1: "read_fat c fi ?h = Some (?t (unat c), s1)" "vol_ok rd wr good secs nsec ssz fi s1"
    "ft.same fi (fat_of secs ssz fi s1) ?t" "fat_step secs ssz fi ?h s1"
    using ft.readE [OF hv c(1) lt(1)] by auto
  obtain s2 where s2: "read_fat (c + 1) fi s1 = Some (fat_of secs ssz fi s1 (unat (c + 1)), s2)"
    "vol_ok rd wr good secs nsec ssz fi s2" "ft.same fi (fat_of secs ssz fi s2) (fat_of secs ssz fi s1)" "fat_step secs ssz fi s1 s2"
    using ft.readE [OF s1(2) lo(1) lt(2)] by auto
  have v2: "fat_of secs ssz fi s1 (unat (c + 1)) = ?t (unat c + 1)" using ft.same_at [OF s1(3) lt(2)] n1 by simp
  have same2: "ft.same fi (fat_of secs ssz fi s2) ?t" using s2(3) s1(3) ft.same_trans by blast
  have l2: "allocater_lock s2 = HELD"
    using cl_step_lock [OF cl_step_fat [OF s2(4)]] cl_step_lock [OF cl_step_fat [OF s1(4)]] by simp
  have "alloc_scan fi offt c 0 ?h = alloc_scan fi offt (c + 1) 1 s1"
    using lt(1) s1(1) bad(1) by (subst alloc_scan.simps) (auto simp: cluster_tests marks_nonzero)
  also have "\<dots> = alloc_scan fi offt (c + 3) 2 s2"
    using lt(2) s2(1) bad(2) by (subst alloc_scan.simps) (auto simp: v2 cluster_tests marks_nonzero add.assoc)
  finally have two: "alloc_scan fi offt c 0 ?h = alloc_scan fi offt (c + 3) 2 s2" .
  obtain r s' where run: "alloc_scan fi offt (c + 3) 2 s2 = Some (r, s')" and post: "alloc_post secs ssz fi (fat_of secs ssz fi s2) (unat (c + 3)) r s'"
    using alloc_scan_ok [OF s2(2) links l2 lo(2), of 2 offt] n3 by auto
  have "r = FAT_CLUSTER_BAD"
  proof (rule ccontr)
    assume "r \<noteq> FAT_CLUSTER_BAD"
    then have r: "r < total_clusters fi" "unat c + 3 \<le> unat r" "fat_of secs ssz fi s2 (unat r) = FAT_CLUSTER_FREE"
      using post n3 by (auto simp: alloc_post_def in_vol_def)
    then show False using used [OF r(2)] ft.same_at [OF same2 r(1)] by (simp add: word_less_nat_alt)
  qed
  then show ?thesis
    using two run alloc_no_bitmap [OF l c(3), of fi offt] c(2) by simp
qed

text \<open>Two reserved clusters and a free one at the end of the volume.\<close>

theorem alloc_misses_free_witness:
  "\<exists>s s'. test_fat s 15 = FAT_CLUSTER_FREE \<and> alloc_cluster test_vol 13 (s :: fake_world cluster_state) = Some (FAT_CLUSTER_BAD, s')"
proof -
  let ?z = "cluster_start () :: fake_world cluster_state"
  obtain s1 where s1: "test_ok s1" "\<forall>d < 16. test_fat s1 d = (if d = unat (13 :: u32) then FAT_CLUSTER_RESERVED else test_fat ?z d)"
    "fat_step fake_secs TEST_SECTOR_SIZE test_vol ?z s1"
    by (rule test_writeE [OF cluster_start_ok, of 13 FAT_CLUSTER_RESERVED "()"]) (use marks_28 in simp_all)
  obtain s2 where s2: "test_ok s2" "\<forall>d < 16. test_fat s2 d = (if d = unat (14 :: u32) then FAT_CLUSTER_RESERVED else test_fat s1 d)"
    "fat_step fake_secs TEST_SECTOR_SIZE test_vol s1 s2"
    by (rule test_writeE [OF s1(1), of 14 FAT_CLUSTER_RESERVED]) (use marks_28 in simp_all)
  let ?s = "s2\<lparr>bitmap := None\<rparr>"
  have "test_fat ?s = test_fat s2" by (rule fat_of_cong) simp_all
  then have t: "test_fat ?s 13 = FAT_CLUSTER_RESERVED" "test_fat ?s 14 = FAT_CLUSTER_RESERVED" "test_fat ?s 15 = FAT_CLUSTER_FREE"
    using s1(2) s2(2) fat_start_free [of 15 "()"] by simp_all
  have "cl_step fake_secs TEST_SECTOR_SIZE test_vol ?z s2"
    using s1(3) s2(3) cl_step_fat cl_step_trans by blast
  then have "allocater_lock ?s = NULL_LOCK" using cl_step_lock by fastforce
  moreover have "test_ok ?s" using s2(1) by (simp add: vol_ok_def fat_ready_def fat_open_def dsk_ready_def)
  ultimately have "\<exists>s'. alloc_cluster test_vol 13 ?s = Some (FAT_CLUSTER_BAD, s')"
    using t by (intro alloc_misses_free [OF _ test_links]) (auto simp: alloc_start_def NO_CLUSTER_OFFSET_def)
  then show ?thesis using t(3) by blast
qed

text \<open>C4 (freeing a chain). On a mounted volume \<open>dealloc_chain\<close> returns 1 for a chain that ends with the
  end marker; afterwards exactly the clusters of the chain have become free, every other entry of the
  table and every sector outside its copies is as before.\<close>

theorem dealloc_chain_exact:
  assumes "vol_ok rd wr good secs nsec ssz fi s" and "links_ok fi" and "fat_chain fi (fat_of secs ssz fi s) (c # cs)"
  shows "\<exists>s'. dealloc_chain c fi s = Some (1, s') \<and> vol_ok rd wr good secs nsec ssz fi s' \<and>
    (\<forall>d < unat (total_clusters fi). fat_of secs ssz fi s' d =
       (if d \<in> unat ` set (c # cs) then FAT_CLUSTER_FREE else fat_of secs ssz fi s d)) \<and>
    (\<forall>x. x \<notin> fat_sectors fi ssz \<longrightarrow> secs (world s') x = secs (world s) x)"
proof -
  obtain s' where "dealloc_chain c fi s = Some (1, s')" "vol_ok rd wr good secs nsec ssz fi s'"
    "ft.same fi (fat_of secs ssz fi s') (freed (fat_of secs ssz fi s) (c # cs))" "fat_step secs ssz fi s s'"
    using dealloc_chain_ok [OF assms(2,1,3)] by blast
  then show ?thesis
    by (intro exI [of _ s']) (simp add: ft.same_def freed_def fat_step_def, fastforce)
qed

theorem dealloc_chain_exact_witness:
  "\<exists>s s'. fat_chain test_vol (test_fat s) [5, 6] \<and> dealloc_chain 5 test_vol (s :: fake_world cluster_state) = Some (1, s') \<and>
     test_fat s' 5 = FAT_CLUSTER_FREE \<and> test_fat s' 6 = FAT_CLUSTER_FREE"
proof -
  obtain s1 :: "fake_world cluster_state" where s1: "test_ok s1" "\<forall>d < 16. test_fat s1 d = (if d = unat (5 :: u32) then 6 else test_fat (cluster_start ()) d)"
    by (rule test_writeE [OF cluster_start_ok, of 5 6 "()"]) simp_all
  obtain s2 :: "fake_world cluster_state" where s2: "test_ok s2" "\<forall>d < 16. test_fat s2 d = (if d = unat (6 :: u32) then FAT_CLUSTER_END else test_fat s1 d)"
    by (rule test_writeE [OF s1(1), of 6 FAT_CLUSTER_END]) (use marks_28 in simp_all)
  have "test_fat s2 5 = 6" "test_fat s2 6 = FAT_CLUSTER_END" using s1(2) s2(2) by simp_all
  then have chain: "fat_chain test_vol (test_fat s2) [5, 6]" by (simp add: in_vol_def)
  obtain s3 where "dealloc_chain 5 test_vol s2 = Some (1, s3)" "\<forall>d < 16. test_fat s3 d =
      (if d \<in> unat ` set [5, 6 :: u32] then FAT_CLUSTER_FREE else test_fat s2 d)"
    using dealloc_chain_exact [OF s2(1) test_links chain] by auto
  then show ?thesis using chain by (intro exI [of _ s2] exI [of _ s3]) simp
qed

text \<open>Clusters are separate stores. What \<open>write_cluster\<close> puts into a cluster of a mounted volume is
  what \<open>read_cluster\<close> returns for it; the data of every other cluster is as before, and so is the table
  when the cluster does not overlap one of its copies.\<close>

theorem cluster_write_read:
  assumes vol: "vol_ok rd wr good secs nsec ssz fi s" and geom: "data_geom fi nsec ssz" and c: "in_vol fi c"
    and len: "length data = unat (cluster_size fi)" "length buf = unat (cluster_size fi)"
  shows "\<exists>s' s''. write_cluster c data (int (length data)) fi s = Some (1, s') \<and> vol_ok rd wr good secs nsec ssz fi s' \<and>
    read_cluster c buf (int (length buf)) fi s' = Some ((1, data), s'') \<and>
    (\<forall>d. in_vol fi d \<and> d \<noteq> c \<longrightarrow> cluster_bytes secs fi (world s') d = cluster_bytes secs fi (world s) d) \<and>
    (cluster_area fi c \<inter> fat_sectors fi ssz = {} \<longrightarrow>
       (\<forall>d < unat (total_clusters fi). fat_of secs ssz fi s' d = fat_of secs ssz fi s d))"
proof -
  have fat: "fat_geom fi nsec ssz" using vol by (simp add: vol_ok_def)
  have fits: "unat (0 :: u32) + length data \<le> unat (cluster_size fi)" using len by simp
  obtain w where w: "writeoff_cluster c 0 data (int (length data)) fi s = Some (1, s\<lparr>world := w\<rparr>)" "good w"
    "cluster_bytes secs fi w c = splice (cluster_bytes secs fi (world s) c) 0 data"
    "\<forall>i. i \<notin> cluster_area fi c \<longrightarrow> secs w i = secs (world s) i"
    using writeoff_cluster_ok [OF vol geom c fits refl] by auto
  have all: "cluster_bytes secs fi w c = data"
    using w(3) len(1) length_cluster_bytes [OF vol geom c] by (simp add: splice_def)
  let ?s = "s\<lparr>world := w\<rparr>"
  have vol': "vol_ok rd wr good secs nsec ssz fi ?s" using vol_ok_world [OF vol w(2)] .
  obtain w' where r: "readoff_cluster c 0 buf (int (length buf)) fi ?s =
      Some ((1, splice buf 0 (take (length buf) data)), ?s\<lparr>world := w'\<rparr>)"
    using readoff_cluster_ok [OF vol' geom c, of "int (length buf)" 0 buf] len all by auto
  have "splice buf 0 (take (length buf) data) = data" using len by (simp add: splice_def)
  moreover have "cluster_bytes secs fi w d = cluster_bytes secs fi (world s) d" if "in_vol fi d" "d \<noteq> c" for d
    using w(4) cluster_areas_disjoint [OF geom that(1) c that(2)] by (intro cluster_bytes_cong) auto
  moreover have "\<forall>d < unat (total_clusters fi). fat_of secs ssz fi ?s d = fat_of secs ssz fi s d"
    if "cluster_area fi c \<inter> fat_sectors fi ssz = {}"
    using fat_of_world [OF fat, of secs w s] w(4) that by (auto simp: ft.same_def)
  ultimately show ?thesis using w(1) r vol'
    by (intro exI [of _ ?s] exI [of _ "?s\<lparr>world := w'\<rparr>"]) (simp add: write_cluster_def read_cluster_def)
qed

theorem cluster_write_read_witness:
  "\<exists>s' s''. write_cluster 4 (replicate 128 7) 128 test_vol (cluster_start ()) = Some (1, s') \<and>
     read_cluster 4 (replicate 128 0) 128 test_vol s' = Some ((1, replicate 128 7), s'')"
  using cluster_write_read [OF cluster_start_ok test_data_geom, of 4 "replicate 128 7" "replicate 128 0" "()"]
  by (auto simp: in_vol_def)

end
