(* ===== verification/Replica.thy ===== *)
theory Replica
  imports Disk
begin

text \<open>
  What the journal and the error ring share: records of \<open>w\<close> bytes at fixed slots of one sector per
  copy. The lemmas say what writing a slot of all copies leaves, and what happens to slots that do
  not lie in the sector.
\<close>

unbundle bit_operations_syntax

section \<open>Slots\<close>

text \<open>\<open>at i\<close> is the sector of copy \<open>i\<close>.\<close>

definition rep_loc :: "(nat \<Rightarrow> nat) \<Rightarrow> nat \<Rightarrow> nat \<Rightarrow> nat \<Rightarrow> nat \<Rightarrow> nat" where
  "rep_loc at ssz w k i = at i * ssz + k * w"

definition rep_fits :: "nat \<Rightarrow> nat \<Rightarrow> nat \<Rightarrow> bool" where
  "rep_fits ssz w k = (0 < w \<and> k * w + w \<le> ssz)"

definition rep_slot :: "(nat \<Rightarrow> nat) \<Rightarrow> nat \<Rightarrow> nat \<Rightarrow> (nat \<Rightarrow> byte list) \<Rightarrow> nat \<Rightarrow> nat \<Rightarrow> byte list" where
  "rep_slot at ssz w sec k i = slot ssz sec (rep_loc at ssz w k i) w"

primrec put_rep :: "(nat \<Rightarrow> nat) \<Rightarrow> nat \<Rightarrow> nat \<Rightarrow> nat \<Rightarrow> byte list \<Rightarrow> nat \<Rightarrow> nat \<Rightarrow> (nat \<Rightarrow> byte list) \<Rightarrow> (nat \<Rightarrow> byte list)" where
  "put_rep at ssz w k data i 0 sec = sec"
| "put_rep at ssz w k data i (Suc n) sec = put_rep at ssz w k data (Suc i) n (put_slot ssz sec (rep_loc at ssz w k i) data)"

lemma rep_loc_place:
  assumes "rep_fits ssz w k"
  shows "rep_loc at ssz w k i div ssz = at i" "rep_loc at ssz w k i mod ssz = k * w" "rep_loc at ssz w k i mod ssz + w \<le> ssz"
  using assms by (auto simp: rep_loc_def rep_fits_def)

lemma rep_slot_put_same:
  assumes "rep_fits ssz w k" "length (sec (at i)) = ssz" "length data = w" "at j = at i"
  shows "rep_slot at ssz w (put_slot ssz sec (rep_loc at ssz w k i) data) k j = data"
proof -
  have "rep_loc at ssz w k j = rep_loc at ssz w k i" using assms(4) by (simp add: rep_loc_def)
  then show ?thesis
    using slot_put_same [of sec "rep_loc at ssz w k i" ssz data] assms rep_loc_place [OF assms(1), of at i] by (simp add: rep_slot_def)
qed

lemma rep_slot_put_other:
  assumes "rep_fits ssz w k" "rep_fits ssz w l" "length (sec (at i)) = ssz" "length data = w" "l \<noteq> k \<or> at j \<noteq> at i"
  shows "rep_slot at ssz w (put_slot ssz sec (rep_loc at ssz w k i) data) l j = rep_slot at ssz w sec l j"
proof (cases "at j = at i")
  case True
  then have "l < k \<or> k < l" using assms(5) by auto
  then have "rep_loc at ssz w k i + w \<le> rep_loc at ssz w l j \<or> rep_loc at ssz w l j + w \<le> rep_loc at ssz w k i"
    using True by (auto simp: rep_loc_def dest!: less_imp_Suc_add)
  then show ?thesis
    using assms rep_loc_place [OF assms(1), of at i] rep_loc_place [OF assms(2), of at j]
    unfolding rep_slot_def by (intro slot_put_other) auto
next
  case False
  then show ?thesis
    using rep_loc_place [OF assms(1), of at i] rep_loc_place [OF assms(2), of at j] by (simp add: rep_slot_def slot_def put_slot_def)
qed

lemma put_rep_keep:
  assumes at: "\<And>i. i < m \<Longrightarrow> at i < nsec" and k: "rep_fits ssz w k" and l: "rep_fits ssz w l" and d: "length data = w"
  shows "i + n \<le> m \<Longrightarrow> (\<forall>x < nsec. length (sec x) = ssz) \<Longrightarrow>
    (\<forall>x < nsec. length (put_rep at ssz w k data i n sec x) = ssz) \<and>
    (k \<noteq> l \<longrightarrow> (\<forall>j < m. rep_slot at ssz w (put_rep at ssz w k data i n sec) l j = rep_slot at ssz w sec l j)) \<and>
    (\<forall>j < m. i \<le> j \<and> j < i + n \<or> rep_slot at ssz w sec k j = data \<longrightarrow>
       rep_slot at ssz w (put_rep at ssz w k data i n sec) k j = data)"
proof (induction n arbitrary: i sec)
  case (Suc n)
  let ?sec = "put_slot ssz sec (rep_loc at ssz w k i) data"
  have i: "i < m" "at i < nsec" "length (sec (at i)) = ssz" using Suc.prems at by auto
  have len: "\<forall>x < nsec. length (?sec x) = ssz"
    using Suc.prems(2) i rep_loc_place [OF k, of at i] d by (auto simp: put_slot_def)
  have keep: "rep_slot at ssz w ?sec k j = data" if "j = i \<or> rep_slot at ssz w sec k j = data" for j
    using rep_slot_put_same [where sec = sec and i = i and at = at and j = j, OF k i(3) d] rep_slot_put_other [where sec = sec and i = i and at = at and j = j, OF k k i(3) d] that by metis
  have IH: "(\<forall>x < nsec. length (put_rep at ssz w k data (Suc i) n ?sec x) = ssz) \<and>
    (k \<noteq> l \<longrightarrow> (\<forall>j < m. rep_slot at ssz w (put_rep at ssz w k data (Suc i) n ?sec) l j = rep_slot at ssz w ?sec l j)) \<and>
    (\<forall>j < m. Suc i \<le> j \<and> j < Suc i + n \<or> rep_slot at ssz w ?sec k j = data \<longrightarrow>
       rep_slot at ssz w (put_rep at ssz w k data (Suc i) n ?sec) k j = data)"
    using Suc.IH [OF _ len, of "Suc i"] Suc.prems(1) by simp
  have "rep_slot at ssz w ?sec l j = rep_slot at ssz w sec l j" if "k \<noteq> l" for j
    using rep_slot_put_other [where sec = sec and i = i and at = at and j = j, OF k l i(3) d] that by simp
  moreover have "Suc i \<le> j \<and> j < Suc i + n \<or> rep_slot at ssz w ?sec k j = data"
    if "i \<le> j \<and> j < i + Suc n \<or> rep_slot at ssz w sec k j = data" for j
    using keep [of j] that by (cases "j = i") auto
  ultimately show ?case using IH unfolding put_rep.simps by metis
qed auto

lemma put_rep_outside:
  assumes "rep_fits ssz w k" "\<And>j. i \<le> j \<Longrightarrow> j < i + n \<Longrightarrow> at j \<noteq> x"
  shows "put_rep at ssz w k data i n sec x = sec x"
  using assms(2)
proof (induction n arbitrary: i sec)
  case (Suc n)
  have "put_slot ssz sec (rep_loc at ssz w k i) data x = sec x"
    using rep_loc_place [OF assms(1), of at i] Suc.prems [of i] by (simp add: put_slot_def)
  then show ?case using Suc.IH [of "Suc i"] Suc.prems by simp
qed simp

lemma rep_offset:
  assumes "k * w < 2 ^ 31"
  shows "int_of_u32 (u32_of_int (int k * int w)) = int (k * w)"
proof -
  have "u32_of_int (int k * int w) = of_nat (k * w)" by simp
  moreover have "unat (of_nat (k * w) :: u32) = k * w" using assms by (simp only: unat_of_nat) simp
  ultimately show ?thesis using assms sint_small [of "of_nat (k * w)"] by metis
qed

section \<open>Access to a slot of a copy\<close>

context block_device begin

lemma rep_write:
  assumes "rep_fits ssz n k" "unat sa = at i" "unat sa < nsec" "dsk_ready rd wr ssz s" "wf (world s)" "length data = n"
  shows "\<exists>v. DSK_writeoff_sectors sa (int (k * n)) data (int n) 1 s = Some (1, s\<lparr>world := v\<rparr>) \<and> wf v \<and>
    secs v = put_slot ssz (secs (world s)) (rep_loc at ssz n k i) data"
proof -
  have "unat sa = rep_loc at ssz n k i div ssz" "rep_loc at ssz n k i div ssz < nsec"
    "int (k * n) = int (rep_loc at ssz n k i mod ssz)" "rep_loc at ssz n k i mod ssz + length data \<le> ssz" "int n = int (length data)"
    using assms rep_loc_place [OF assms(1), of at i] by simp_all
  from write_slot [OF assms(4,5) this] show ?thesis by blast
qed

lemma rep_read:
  assumes "rep_fits ssz n k" "unat sa = at i" "unat sa < nsec" "dsk_ready rd wr ssz s" "wf (world s)" "length buf = n"
  shows "\<exists>v. DSK_readoff_sectors sa (int (k * n)) buf (int n) 1 s =
      Some ((1, rep_slot at ssz n (secs (world s)) k i), s\<lparr>world := v\<rparr>) \<and> wf v \<and> secs v = secs (world s)"
proof -
  have "unat sa = rep_loc at ssz n k i div ssz" "rep_loc at ssz n k i div ssz < nsec"
    "int (k * n) = int (rep_loc at ssz n k i mod ssz)" "rep_loc at ssz n k i mod ssz + n \<le> ssz"
    using assms rep_loc_place [OF assms(1), of at i] by simp_all
  from read_slot [OF assms(4,5) this(1,2,3,4) assms(6)] show ?thesis by (simp add: rep_slot_def)
qed

text \<open>A slot behind the sector is neither written nor read, and both calls return 1.\<close>

lemma far_write:
  assumes "ssz \<le> off" "unat sa < nsec" "dsk_ready rd wr ssz s" "wf (world s)" "length data = n"
  shows "\<exists>v. DSK_writeoff_sectors sa (int off) data (int n) 1 s = Some (1, s\<lparr>world := v\<rparr>) \<and> wf v \<and> secs v = secs (world s)"
proof -
  have l: "unat sa + nat 1 \<le> nsec" "0 \<le> int off" "nat (int n) \<le> length data" using assms by simp_all
  obtain v where v: "DSK_writeoff_sectors sa (int off) data (int n) 1 s = Some (1, s\<lparr>world := v\<rparr>)" "wf v"
    "flat (secs v) (unat sa) (nat 1) = splice (flat (secs (world s)) (unat sa) (nat 1)) (min (nat (int off)) (nat 1 * ssz))
      (take (nat 1 * ssz - nat (int off)) (take (nat (int n)) data))"
    "\<forall>x. x < unat sa \<or> unat sa + nat 1 \<le> x \<longrightarrow> secs v x = secs (world s) x"
    using writeoff_ready [OF assms(3,4) l] by blast
  have "nat 1 * ssz - nat (int off) = 0" using assms(1) by simp
  then have same: "secs v (unat sa) = secs (world s) (unat sa)" using v(3) secs_length [OF assms(4,2)] assms(1)
    by (simp add: splice_def min_absorb2)
  have "secs v x = secs (world s) x" for x
  proof (cases "x = unat sa")
    case False
    then have "x < unat sa \<or> unat sa + nat 1 \<le> x" by auto
    then show ?thesis using v(4) by blast
  qed (simp add: same)
  then have "secs v = secs (world s)" by (rule ext)
  then show ?thesis using v(1,2) by blast
qed

text \<open>Reading into a buffer of zeros, where the sector is zero or the offset behind it.\<close>

lemma zero_read:
  assumes "drop off (secs (world s) (unat sa)) = replicate (ssz - off) 0" "unat sa < nsec" "dsk_ready rd wr ssz s" "wf (world s)"
  shows "\<exists>v. DSK_readoff_sectors sa (int off) (replicate n 0) (int n) 1 s = Some ((1, replicate n 0), s\<lparr>world := v\<rparr>) \<and>
    wf v \<and> secs v = secs (world s)"
proof -
  have "unat sa + nat 1 \<le> nsec" "0 \<le> int off" "min (nat (int n)) (nat 1 * ssz - nat (int off)) \<le> length (replicate n (0 :: byte))"
    using assms(2) by simp_all
  from readoff_ready [OF assms(3,4) this] obtain v where
    v: "DSK_readoff_sectors sa (int off) (replicate n 0) (int n) 1 s = Some ((1, splice (replicate n 0) 0
       (take (nat (int n)) (drop (nat (int off)) (flat (secs (world s)) (unat sa) (nat 1))))), s\<lparr>world := v\<rparr>)"
    "wf v" "secs v = secs (world s)" by blast
  have "take n (replicate (ssz - off) 0) @ replicate (n - min n (ssz - off)) 0 = replicate n (0 :: byte)"
    by (simp add: replicate_add [symmetric])
  then have "splice (replicate n 0) 0 (take (nat (int n)) (drop (nat (int off)) (flat (secs (world s)) (unat sa) (nat 1)))) = replicate n 0"
    using assms(1) by (simp add: splice_def)
  then show ?thesis using v by auto
qed

lemma far_read:
  assumes "ssz \<le> off" "unat sa < nsec" "dsk_ready rd wr ssz s" "wf (world s)"
  shows "\<exists>v. DSK_readoff_sectors sa (int off) (replicate n 0) (int n) 1 s = Some ((1, replicate n 0), s\<lparr>world := v\<rparr>) \<and>
    wf v \<and> secs v = secs (world s)"
  using zero_read [of off s sa n] assms secs_length [OF assms(4,2)] by simp

end

section \<open>A device of 512-byte sectors\<close>

text \<open>An instance for the witnesses: a map from sectors to their bytes, all zero at first.\<close>

definition mem_read :: "(nat \<Rightarrow> byte list) read_fun" where
  "mem_read sa off n w = (1, take (nat n) (drop (nat off) (w (unat sa))), w)"

definition mem_write :: "(nat \<Rightarrow> byte list) write_fun" where
  "mem_write sa off data n w = (1, w(unat sa := splice (w (unat sa)) (nat off) (take (nat n) data)))"

definition mem_ok :: "(nat \<Rightarrow> byte list) \<Rightarrow> bool" where
  "mem_ok w = (\<forall>i. length (w i) = 512)"

interpretation mem: block_device mem_read mem_write mem_ok "\<lambda>w. w" 4096 512
  by unfold_locales (auto simp: mem_ok_def mem_read_def mem_write_def)

definition mem_start :: "'z \<Rightarrow> (nat \<Rightarrow> byte list, 'z) disk_state_scheme" where
  "mem_start z = \<lparr>world = (\<lambda>_. replicate 512 0),
     mm_manager = \<lparr>mgr_init = Builtin, mgr_malloc = Builtin, mgr_free = Builtin\<rparr>, mm_heap = (\<lambda>_. None),
     mm_allocated = 0, malloc_lock = NULL_LOCK,
     disk_io = \<lparr>read_sector = Some mem_read, write_sector = Some mem_write, sector_size = 512\<rparr>,
     io_areas = idle_areas, io_lock = NULL_LOCK, \<dots> = z\<rparr>"

lemma mem_start_ready [simp]: "dsk_ready mem_read mem_write 512 (mem_start z)" "world (mem_start z) = (\<lambda>_. replicate 512 0)"
  by (simp_all add: dsk_ready_def mem_start_def)

lemma mem_ok_zero [simp]: "mem_ok (\<lambda>_. replicate 512 0)"
  by (simp add: mem_ok_def)

end
