(* ===== verification/Errlog.thy ===== *)
theory Errlog
  imports Errors Replica
begin

text \<open>
  What the ring of \<open>Errors\<close> promises: on a device that honours its contract it refines a bounded
  queue of codes, in which a code whose slot is past the one sector of a copy counts as 0. The queue
  is stated as the locale \<open>bounded_queue\<close> and the ring's operations are an instance of it.
\<close>

unbundle bit_operations_syntax

section \<open>Slots of the copies\<close>

definition err_at :: "fat_data \<Rightarrow> nat \<Rightarrow> nat" where
  "err_at fi i = unat (the (GET_ERRORSSECTOR (of_nat i) (total_sectors fi)))"

text \<open>Every copy has its sector on the device.\<close>

definition err_geom :: "fat_data \<Rightarrow> nat \<Rightarrow> nat \<Rightarrow> bool" where
  "err_geom fi nsec ssz = (total_sectors fi \<noteq> 2 \<and> errors_count fi \<noteq> 0 \<and> ssz < 2 ^ 31 \<and>
     (\<forall>i < unat (errors_count fi). err_at fi i < nsec))"

text \<open>Slot \<open>k\<close> lies in the sector.\<close>

definition err_fits :: "nat \<Rightarrow> nat \<Rightarrow> bool" where
  "err_fits ssz k = rep_fits ssz 8 k"

definition err_val :: "fat_data \<Rightarrow> nat \<Rightarrow> (nat \<Rightarrow> byte list) \<Rightarrow> nat \<Rightarrow> nat \<Rightarrow> u32" where
  "err_val fi ssz sec k i = get_u32 (unpack_bytes (rep_slot (err_at fi) ssz 8 sec k i)) 0"

lemma err_geom_at: "err_geom fi nsec ssz \<Longrightarrow> i < unat (errors_count fi) \<Longrightarrow> err_at fi i < nsec"
  by (simp add: err_geom_def)

section \<open>The operations on a copy and on all copies\<close>

text \<open>The loops over the copies, when each step keeps an invariant \<open>P\<close> and every copy reads as \<open>c\<close>.\<close>

lemma read_error_loop_same:
  assumes step: "\<And>i s. i < m \<Longrightarrow> P s \<Longrightarrow> \<exists>w. read_error_copy k fi (int i) s = Some ((1, c), s\<lparr>world := w\<rparr>) \<and> P (s\<lparr>world := w\<rparr>)"
  shows "i + n \<le> m \<Longrightarrow> P s \<Longrightarrow> 0 \<le> f \<Longrightarrow>
    \<exists>w. read_error_loop n (int i) k fi (c, f, 0) 0 s = Some (((c, f + int n, 0), 0), s\<lparr>world := w\<rparr>) \<and> P (s\<lparr>world := w\<rparr>)"
proof (induction n arbitrary: i s f)
  case 0
  then show ?case by (intro exI [of _ "world s"]) simp
next
  case (Suc n)
  obtain w where w: "read_error_copy k fi (int i) s = Some ((1, c), s\<lparr>world := w\<rparr>)" "P (s\<lparr>world := w\<rparr>)"
    using step [of i s] Suc.prems by auto
  have "\<exists>w'. read_error_loop n (int (Suc i)) k fi (c, f + 1, 0) 0 (s\<lparr>world := w\<rparr>) =
      Some (((c, f + 1 + int n, 0), 0), s\<lparr>world := w\<rparr>\<lparr>world := w'\<rparr>) \<and> P (s\<lparr>world := w\<rparr>\<lparr>world := w'\<rparr>)"
    using Suc.prems w(2) by (intro Suc.IH) auto
  then show ?case using w Suc.prems(3) by (auto simp: vote_step_def Let_def add.commute add.left_commute)
qed

lemma read_error_same:
  assumes step: "\<And>i s. i < unat (errors_count fi) \<Longrightarrow> P s \<Longrightarrow>
      \<exists>w. read_error_copy k fi (int i) s = Some ((1, c), s\<lparr>world := w\<rparr>) \<and> P (s\<lparr>world := w\<rparr>)"
    and "errors_count fi \<noteq> 0" "P s" "c \<noteq> -1"
  shows "\<exists>w. read_error k fi s = Some ((1, c), s\<lparr>world := w\<rparr>) \<and> P (s\<lparr>world := w\<rparr>)"
proof -
  obtain n where n: "unat (errors_count fi) = Suc n" using assms(2) by (metis not0_implies_Suc unat_eq_0)
  obtain w where w: "read_error_copy k fi (int 0) s = Some ((1, c), s\<lparr>world := w\<rparr>)" "P (s\<lparr>world := w\<rparr>)"
    using step [of 0 s] assms(3) n by auto
  obtain w' where w': "read_error_loop n (int 1) k fi (c, 0, 0) 0 (s\<lparr>world := w\<rparr>) = Some (((c, 0 + int n, 0), 0), s\<lparr>world := w\<rparr>\<lparr>world := w'\<rparr>)"
    "P (s\<lparr>world := w\<rparr>\<lparr>world := w'\<rparr>)"
    using read_error_loop_same [of "unat (errors_count fi)" P k fi c 1 n "s\<lparr>world := w\<rparr>" 0] step w(2) n by auto
  have "read_error_loop (unat (errors_count fi)) 0 k fi (vote_start (-1)) (-1) s =
      Some (((c, int n, 0), 0), s\<lparr>world := w'\<rparr>)"
    using w(1) w'(1) assms(4) by (simp add: n vote_start_def vote_step_def Let_def)
  then show ?thesis using w'(2) by (intro exI [of _ w']) (simp add: read_error_def)
qed

context block_device begin

lemma err_sector:
  assumes "err_geom fi nsec ssz" "i < unat (errors_count fi)"
  shows "\<exists>sa. GET_ERRORSSECTOR (u32_of_int (int i)) (total_sectors fi) = Some sa \<and> unat sa = err_at fi i \<and> unat sa < nsec"
  using assms by (auto simp: err_geom_def err_at_def GET_ERRORSSECTOR_def umod_def)

lemma err_offset:
  assumes "err_geom fi nsec ssz" "err_fits ssz k"
  shows "int_of_u32 (of_nat k * 8) = int k * 8"
  using rep_offset [of k 8] assms by (simp add: err_geom_def err_fits_def rep_fits_def)

lemma write_error_copy_ok:
  assumes "err_geom fi nsec ssz" "err_fits ssz k" "i < unat (errors_count fi)" "dsk_ready rd wr ssz s" "wf (world s)"
  shows "\<exists>w. write_error_copy (int k) c fi (int i) s = Some (1, s\<lparr>world := w\<rparr>) \<and> wf w \<and>
    secs w = put_slot ssz (secs (world s)) (rep_loc (err_at fi) ssz 8 k i) (pack_bytes (bytes_of_u32 c))"
proof -
  obtain sa where sa: "GET_ERRORSSECTOR (u32_of_int (int i)) (total_sectors fi) = Some sa" "unat sa = err_at fi i" "unat sa < nsec"
    using err_sector [OF assms(1,3)] by blast
  have "length (pack_bytes (bytes_of_u32 c)) = 8" by simp
  from rep_write [where at = "err_at fi" and i = i, OF assms(2) [unfolded err_fits_def] sa(2,3) assms(4,5) this] show ?thesis
    using sa(1) by (auto simp: write_error_copy_def Let_def err_offset [OF assms(1,2)] pack_bytes_def sizeof_error_code_def)
qed

lemma read_error_copy_ok:
  assumes "err_geom fi nsec ssz" "err_fits ssz k" "i < unat (errors_count fi)" "dsk_ready rd wr ssz s" "wf (world s)"
  shows "\<exists>w. read_error_copy (int k) fi (int i) s = Some ((1, err_val fi ssz (secs (world s)) k i), s\<lparr>world := w\<rparr>) \<and>
    wf w \<and> secs w = secs (world s)"
proof -
  obtain sa where sa: "GET_ERRORSSECTOR (u32_of_int (int i)) (total_sectors fi) = Some sa" "unat sa = err_at fi i" "unat sa < nsec"
    using err_sector [OF assms(1,3)] by blast
  have "length (replicate 8 (0 :: byte)) = 8" by simp
  from rep_read [where at = "err_at fi" and i = i, OF assms(2) [unfolded err_fits_def] sa(2,3) assms(4,5) this]
  obtain w where w: "DSK_readoff_sectors sa (int (k * 8)) (replicate 8 0) (int 8) 1 s =
      Some ((1, rep_slot (err_at fi) ssz 8 (secs (world s)) k i), s\<lparr>world := w\<rparr>)" "wf w" "secs w = secs (world s)" by blast
  have "read_error_copy (int k) fi (int i) s = Some ((1, err_val fi ssz (secs (world s)) k i), s\<lparr>world := w\<rparr>)"
    using sa(1) w(1)
    by (simp add: read_error_copy_def Let_def err_offset [OF assms(1,2)] err_val_def sizeof_error_code_def del: replicate.simps)
  then show ?thesis using w(2,3) by blast
qed

lemma write_error_loop_ok:
  assumes "err_geom fi nsec ssz" "err_fits ssz k" "i + n \<le> unat (errors_count fi)" "dsk_ready rd wr ssz s" "wf (world s)"
  shows "\<exists>w. write_error_loop n (int i) (int k) c fi 1 s = Some (1, s\<lparr>world := w\<rparr>) \<and> wf w \<and>
    secs w = put_rep (err_at fi) ssz 8 k (pack_bytes (bytes_of_u32 c)) i n (secs (world s))"
  using assms(3-5)
proof (induction n arbitrary: i s)
  case 0
  then show ?case by (intro exI [of _ "world s"]) simp
next
  case (Suc n)
  obtain w where w: "write_error_copy (int k) c fi (int i) s = Some (1, s\<lparr>world := w\<rparr>)" "wf w"
    "secs w = put_slot ssz (secs (world s)) (rep_loc (err_at fi) ssz 8 k i) (pack_bytes (bytes_of_u32 c))"
    using write_error_copy_ok [OF assms(1,2), of i s c] Suc.prems by auto
  obtain w' where "write_error_loop n (int (Suc i)) (int k) c fi 1 (s\<lparr>world := w\<rparr>) = Some (1, s\<lparr>world := w'\<rparr>)" "wf w'"
    "secs w' = put_rep (err_at fi) ssz 8 k (pack_bytes (bytes_of_u32 c)) (Suc i) n (secs w)"
    using Suc.IH [of "Suc i" "s\<lparr>world := w\<rparr>"] Suc.prems w(2) by auto
  then show ?case using w by (intro exI [of _ w']) (simp add: add.commute)
qed

lemma write_error_ok:
  assumes "err_geom fi nsec ssz" "err_fits ssz k" "dsk_ready rd wr ssz s" "wf (world s)"
  shows "\<exists>w. write_error (int k) c fi s = Some (1, s\<lparr>world := w\<rparr>) \<and> wf w \<and>
    (\<forall>j < unat (errors_count fi). err_val fi ssz (secs w) k j = c) \<and>
    (\<forall>l. err_fits ssz l \<and> l \<noteq> k \<longrightarrow> (\<forall>j < unat (errors_count fi). err_val fi ssz (secs w) l j = err_val fi ssz (secs (world s)) l j))"
proof -
  let ?n = "unat (errors_count fi)" and ?d = "pack_bytes (bytes_of_u32 c)"
  obtain w where w: "write_error_loop ?n (int 0) (int k) c fi 1 s = Some (1, s\<lparr>world := w\<rparr>)" "wf w"
    "secs w = put_rep (err_at fi) ssz 8 k ?d 0 ?n (secs (world s))"
    using write_error_loop_ok [OF assms(1,2) _ assms(3,4), of 0 ?n c] by auto
  have len: "\<forall>x < nsec. length (secs (world s) x) = ssz" using secs_length [OF assms(4)] by simp
  have d: "length ?d = 8" "get_u32 (unpack_bytes ?d) 0 = c" using get_u32_bytes [of c "[]"] by simp_all
  note keep = put_rep_keep [where m = ?n and sec = "secs (world s)" and n = ?n and i = 0, OF err_geom_at [OF assms(1)] assms(2) [unfolded err_fits_def] _ d(1) _ len]
  have "err_val fi ssz (secs w) k j = c" if "j < ?n" for j
    using keep [OF _ assms(2) [unfolded err_fits_def]] that d(2) by (simp add: w(3) err_val_def)
  moreover have "err_val fi ssz (secs w) l j = err_val fi ssz (secs (world s)) l j" if "err_fits ssz l" "l \<noteq> k" "j < ?n" for l j
    using keep [OF _ that(1) [unfolded err_fits_def]] that by (simp add: w(3) err_val_def)
  ultimately show ?thesis using w(1,2) by (intro exI [of _ w]) (simp add: write_error_def)
qed

lemma read_error_ok:
  assumes "err_geom fi nsec ssz" "err_fits ssz k" "dsk_ready rd wr ssz s" "wf (world s)"
    and "\<And>j. j < unat (errors_count fi) \<Longrightarrow> err_val fi ssz (secs (world s)) k j = c" "c \<noteq> -1"
  shows "\<exists>w. read_error (int k) fi s = Some ((1, c), s\<lparr>world := w\<rparr>) \<and> wf w \<and> secs w = secs (world s)"
proof -
  let ?P = "\<lambda>t. dsk_ready rd wr ssz t \<and> wf (world t) \<and> secs (world t) = secs (world s)"
  have "\<exists>w. read_error_copy (int k) fi (int i) t = Some ((1, c), t\<lparr>world := w\<rparr>) \<and> ?P (t\<lparr>world := w\<rparr>)"
    if "i < unat (errors_count fi)" "?P t" for i and t :: "('w, 'z) errors_state_scheme"
    using read_error_copy_ok [OF assms(1,2) that(1), of t] that assms(5) by auto
  from read_error_same [of fi ?P "int k" c s, OF this] show ?thesis using assms by (auto simp: err_geom_def)
qed

end

section \<open>Slots past the first sector\<close>

lemma unpack_zeros: "get_u32 (unpack_bytes (replicate 8 0)) 0 = 0"
proof -
  have "u16s_of_bytes (replicate 8 0) = replicate 4 0" by (simp add: numeral_eq_Suc u16_of_bytes_def)
  then have "unpack_bytes (replicate 8 0) = replicate 4 0" using unpack_zero [of 4] by (simp add: unpack_bytes_def)
  then show ?thesis by (simp add: get_u32_def u32_of_bytes_def eval_nat_numeral)
qed

context block_device begin

lemma err_offset_far: "k * 8 < 2 ^ 31 \<Longrightarrow> int_of_u32 (of_nat k * 8) = int k * 8"
  using rep_offset [of k 8] by simp

lemma write_far_copy:
  assumes "err_geom fi nsec ssz" "ssz \<le> k * 8" "k * 8 < 2 ^ 31" "i < unat (errors_count fi)" "dsk_ready rd wr ssz s" "wf (world s)"
  shows "\<exists>w. write_error_copy (int k) c fi (int i) s = Some (1, s\<lparr>world := w\<rparr>) \<and> wf w \<and> secs w = secs (world s)"
proof -
  obtain sa where sa: "GET_ERRORSSECTOR (u32_of_int (int i)) (total_sectors fi) = Some sa" "unat sa < nsec"
    using err_sector [OF assms(1,4)] by blast
  have "length (pack_bytes (bytes_of_u32 c)) = 8" by simp
  from far_write [OF assms(2) sa(2) assms(5,6) this] show ?thesis
    using sa(1) by (auto simp: write_error_copy_def Let_def err_offset_far [OF assms(3)] pack_bytes_def sizeof_error_code_def)
qed

lemma read_far_copy:
  assumes "err_geom fi nsec ssz" "ssz \<le> k * 8" "k * 8 < 2 ^ 31" "i < unat (errors_count fi)" "dsk_ready rd wr ssz s" "wf (world s)"
  shows "\<exists>w. read_error_copy (int k) fi (int i) s = Some ((1, 0), s\<lparr>world := w\<rparr>) \<and> wf w \<and> secs w = secs (world s)"
proof -
  obtain sa where sa: "GET_ERRORSSECTOR (u32_of_int (int i)) (total_sectors fi) = Some sa" "unat sa < nsec"
    using err_sector [OF assms(1,4)] by blast
  from far_read [OF assms(2) sa(2) assms(5,6), of 8] show ?thesis
    using sa(1) by (auto simp: read_error_copy_def Let_def err_offset_far [OF assms(3)] sizeof_error_code_def unpack_zeros simp del: replicate.simps)
qed

lemma write_far_loop:
  assumes "err_geom fi nsec ssz" "ssz \<le> k * 8" "k * 8 < 2 ^ 31" "i + n \<le> unat (errors_count fi)" "dsk_ready rd wr ssz s" "wf (world s)"
  shows "\<exists>w. write_error_loop n (int i) (int k) c fi 1 s = Some (1, s\<lparr>world := w\<rparr>) \<and> wf w \<and> secs w = secs (world s)"
  using assms(4-6)
proof (induction n arbitrary: i s)
  case 0
  then show ?case by (intro exI [of _ "world s"]) simp
next
  case (Suc n)
  obtain w where w: "write_error_copy (int k) c fi (int i) s = Some (1, s\<lparr>world := w\<rparr>)" "wf w" "secs w = secs (world s)"
    using write_far_copy [OF assms(1-3), of i s c] Suc.prems by auto
  obtain w' where "write_error_loop n (int (Suc i)) (int k) c fi 1 (s\<lparr>world := w\<rparr>) = Some (1, s\<lparr>world := w'\<rparr>)" "wf w'" "secs w' = secs w"
    using Suc.IH [of "Suc i" "s\<lparr>world := w\<rparr>"] Suc.prems w(2) by auto
  then show ?case using w by (intro exI [of _ w']) (simp add: add.commute)
qed

lemma read_far:
  assumes "err_geom fi nsec ssz" "ssz \<le> k * 8" "k * 8 < 2 ^ 31" "dsk_ready rd wr ssz s" "wf (world s)"
  shows "\<exists>w. read_error (int k) fi s = Some ((1, 0), s\<lparr>world := w\<rparr>) \<and> wf w \<and> secs w = secs (world s)"
proof -
  let ?P = "\<lambda>t. dsk_ready rd wr ssz t \<and> wf (world t) \<and> secs (world t) = secs (world s)"
  have "\<exists>w. read_error_copy (int k) fi (int i) t = Some ((1, 0), t\<lparr>world := w\<rparr>) \<and> ?P (t\<lparr>world := w\<rparr>)"
    if "i < unat (errors_count fi)" "?P t" for i and t :: "('w, 'z) errors_state_scheme"
    using read_far_copy [OF assms(1-3) that(1), of t] that(2) by auto
  from read_error_same [of fi ?P "int k" 0 s, OF this] show ?thesis using assms by (auto simp: err_geom_def)
qed

end

section \<open>Any slot\<close>

text \<open>What a slot yields: in the sector the code all copies hold, past it always 0.\<close>

definition err_near :: "nat \<Rightarrow> nat" where
  "err_near ssz = ssz div 8"

definition slot_holds :: "fat_data \<Rightarrow> nat \<Rightarrow> (nat \<Rightarrow> byte list) \<Rightarrow> nat \<Rightarrow> u32 \<Rightarrow> bool" where
  "slot_holds fi ssz sec p v =
     (if p < err_near ssz then \<forall>j < unat (errors_count fi). err_val fi ssz sec p j = v else v = 0)"

lemma near_fits: "p < err_near ssz \<longleftrightarrow> err_fits ssz p"
  by (auto simp: err_near_def err_fits_def rep_fits_def less_eq_div_iff_mult_less_eq Suc_le_eq [symmetric])

lemma far_slot: "8 dvd ssz \<Longrightarrow> \<not> p < err_near ssz \<Longrightarrow> ssz \<le> p * 8"
  by (auto simp: err_near_def elim!: dvdE)

context block_device begin

lemma write_slot_ok:
  assumes "err_geom fi nsec ssz" "8 dvd ssz" "p < 2 ^ 16" "dsk_ready rd wr ssz s" "wf (world s)"
  shows "\<exists>w. write_error (int p) c fi s = Some (1, s\<lparr>world := w\<rparr>) \<and> wf w \<and>
    slot_holds fi ssz (secs w) p (if p < err_near ssz then c else 0) \<and>
    (\<forall>l v. l \<noteq> p \<and> slot_holds fi ssz (secs (world s)) l v \<longrightarrow> slot_holds fi ssz (secs w) l v)"
proof (cases "p < err_near ssz")
  case True
  then have "err_fits ssz p" by (simp add: near_fits)
  from write_error_ok [OF assms(1) this assms(4,5), of c] obtain w where
    w: "write_error (int p) c fi s = Some (1, s\<lparr>world := w\<rparr>)" "wf w" "\<forall>j < unat (errors_count fi). err_val fi ssz (secs w) p j = c"
    "\<forall>l. err_fits ssz l \<and> l \<noteq> p \<longrightarrow>
      (\<forall>j < unat (errors_count fi). err_val fi ssz (secs w) l j = err_val fi ssz (secs (world s)) l j)" by blast
  then show ?thesis using True by (intro exI [of _ w]) (simp add: slot_holds_def near_fits)
next
  case False
  then have "ssz \<le> p * 8" "p * 8 < 2 ^ 31" using far_slot [OF assms(2)] assms(3) by simp_all
  from write_far_loop [OF assms(1) this _ assms(4,5), of 0 "unat (errors_count fi)" c] show ?thesis using False
    by (auto simp: write_error_def slot_holds_def)
qed

lemma read_slot_ok:
  assumes "err_geom fi nsec ssz" "8 dvd ssz" "p < 2 ^ 16" "dsk_ready rd wr ssz s" "wf (world s)"
    and "slot_holds fi ssz (secs (world s)) p c" "c \<noteq> -1"
  shows "\<exists>w. read_error (int p) fi s = Some ((1, c), s\<lparr>world := w\<rparr>) \<and> wf w \<and> secs w = secs (world s)"
proof (cases "p < err_near ssz")
  case True
  then have "err_fits ssz p" "\<And>j. j < unat (errors_count fi) \<Longrightarrow> err_val fi ssz (secs (world s)) p j = c"
    using assms(6) by (simp_all add: near_fits slot_holds_def)
  then show ?thesis using read_error_ok [OF assms(1) _ assms(4,5) _ assms(7)] by blast
next
  case False
  then have "ssz \<le> p * 8" "p * 8 < 2 ^ 31" using far_slot [OF assms(2)] assms(3) by simp_all
  then show ?thesis using read_far [OF assms(1) _ _ assms(4,5)] False assms(6) by (auto simp: slot_holds_def)
qed

end

section \<open>The bounded queue\<close>

text \<open>The contract: a queue of fewer than \<open>m\<close> codes with the number \<open>p\<close>, from 1 to \<open>m\<close>, of the slot that is
  written next. A code put into a queue without room displaces the oldest one; a code whose slot is
  not below \<open>near\<close> is stored as 0. Taking from an empty queue gives \<open>-1\<close>.\<close>

definition ring_push :: "nat \<Rightarrow> nat \<Rightarrow> u32 \<Rightarrow> nat \<times> u32 list \<Rightarrow> nat \<times> u32 list" where
  "ring_push m near c a = (case a of (p, q) \<Rightarrow>
     (p mod m + 1, let q' = q @ [if p < near then c else 0] in if length q' < m then q' else tl q'))"

definition ring_pop :: "nat \<times> u32 list \<Rightarrow> u32 \<times> nat \<times> u32 list" where
  "ring_pop a = (case a of (p, []) \<Rightarrow> (-1, p, []) | (p, c # q) \<Rightarrow> (c, p, q))"

datatype ring_op = Register u32 | Take

text \<open>The answers to a sequence of operations: the status of each registration and each code taken.\<close>

primrec run_ops :: "(u32 \<Rightarrow> 's \<Rightarrow> (int \<times> 's) option) \<Rightarrow> ('s \<Rightarrow> (u32 \<times> 's) option) \<Rightarrow> ring_op list \<Rightarrow> 's \<Rightarrow>
    ((int + u32) list \<times> 's) option" where
  "run_ops enq deq [] s = Some ([], s)"
| "run_ops enq deq (x # xs) s = (case x of
     Register c \<Rightarrow> do { (r, s) \<leftarrow> enq c s; (rs, s) \<leftarrow> run_ops enq deq xs s; Some (Inl r # rs, s) }
   | Take \<Rightarrow> do { (c, s) \<leftarrow> deq s; (rs, s) \<leftarrow> run_ops enq deq xs s; Some (Inr c # rs, s) })"

abbreviation queue_ops :: "nat \<Rightarrow> nat \<Rightarrow> ring_op list \<Rightarrow> nat \<times> u32 list \<Rightarrow> ((int + u32) list \<times> nat \<times> u32 list) option" where
  "queue_ops m near \<equiv> run_ops (\<lambda>c a. Some (1, ring_push m near c a)) (\<lambda>a. Some (ring_pop a))"

locale bounded_queue =
  fixes enq :: "u32 \<Rightarrow> 's \<Rightarrow> (int \<times> 's) option" and deq :: "'s \<Rightarrow> (u32 \<times> 's) option"
    and m near :: nat and holds :: "'s \<Rightarrow> nat \<times> u32 list \<Rightarrow> bool"
  assumes enq_ok: "holds s a \<Longrightarrow> c \<noteq> -1 \<Longrightarrow> \<exists>s'. enq c s = Some (1, s') \<and> holds s' (ring_push m near c a)"
    and deq_ok: "holds s a \<Longrightarrow> \<exists>s'. deq s = Some (fst (ring_pop a), s') \<and> holds s' (snd (ring_pop a))"

context bounded_queue begin

lemma refines:
  "holds s a \<Longrightarrow> Register (-1) \<notin> set xs \<Longrightarrow>
    \<exists>rs s' a'. run_ops enq deq xs s = Some (rs, s') \<and> queue_ops m near xs a = Some (rs, a') \<and> holds s' a'"
proof (induction xs arbitrary: s a)
  case (Cons x xs)
  show ?case
  proof (cases x)
    case (Register c)
    then have "c \<noteq> -1" using Cons.prems(2) by auto
    then obtain s1 where s1: "enq c s = Some (1, s1)" "holds s1 (ring_push m near c a)" using enq_ok Cons.prems(1) by blast
    then show ?thesis using Cons.IH [OF s1(2)] Cons.prems(2) Register by auto
  next
    case Take
    obtain s1 where s1: "deq s = Some (fst (ring_pop a), s1)" "holds s1 (snd (ring_pop a))" using deq_ok Cons.prems by blast
    then show ?thesis using Cons.IH [OF s1(2)] Cons.prems(2) Take by (auto simp: split_beta)
  qed
qed simp

end

section \<open>Slots of the ring\<close>

text \<open>The ring has the slots from 1 to \<open>ring_size\<close>; slot number \<open>k\<close> behind \<open>f\<close>.\<close>

definition ring_size :: "fat_data \<Rightarrow> nat" where
  "ring_size fi = (unat (cluster_size fi) - 1) div sizeof_error_code"

definition ring_slot :: "nat \<Rightarrow> nat \<Rightarrow> nat \<Rightarrow> nat" where
  "ring_slot m f k = (f - 1 + k) mod m + 1"

lemma ring_slot_0 [simp]: "0 < f \<Longrightarrow> f \<le> m \<Longrightarrow> ring_slot m f 0 = f"
  by (simp add: ring_slot_def)

lemma ring_slot_full: "0 < f \<Longrightarrow> f \<le> m \<Longrightarrow> (f - 1 + m) mod m + 1 = (f :: nat)"
  by (cases f) simp_all

lemma ring_slot_range [simp]: "0 < m \<Longrightarrow> 0 < ring_slot m f k \<and> ring_slot m f k \<le> m"
  by (simp add: ring_slot_def Suc_le_eq)

lemma ring_slot_Suc: "Suc (ring_slot m f k mod m) = ring_slot m f (Suc k)"
  by (simp add: ring_slot_def mod_Suc_eq)

lemma ring_slot_next: "0 < f \<Longrightarrow> ring_slot m (Suc (f mod m)) k = ring_slot m f (Suc k)"
  by (simp add: ring_slot_def mod_add_left_eq)

lemma ring_slot_inj:
  assumes "ring_slot m f j = ring_slot m f k" "j < m" "k < m"
  shows "j = k"
proof -
  have *: "b = 0" if "(a + b) mod m = a mod m" "b < m" for a b :: nat
    using that mod_eq_dvd_iff_nat [of a "a + b" m] by (auto dest: nat_dvd_not_less)
  have "j \<le> k \<Longrightarrow> k - j = 0" using * [of "f - 1 + j" "k - j"] assms by (simp add: ring_slot_def)
  moreover have "k \<le> j \<Longrightarrow> j - k = 0" using * [of "f - 1 + k" "j - k"] assms by (simp add: ring_slot_def)
  ultimately show ?thesis by linarith
qed

lemma unat_ucast_u16: "unat (ucast (i :: u16) :: u32) = unat i"
  using unsigned_less [of i, where ?'a = nat] by (simp add: unsigned_ucast_eq take_bit_nat_eq_self)

lemma unat_ucast16: "unat (w :: u32) < 2 ^ 16 \<Longrightarrow> unat (ucast w :: u16) = unat w"
  by (simp add: unsigned_ucast_eq take_bit_nat_eq_self)

lemma unat_next_ring_index:
  assumes "0 < unat (i :: u16)" "unat i \<le> ring_size fi"
  shows "unat (next_ring_index (ucast i) fi) = unat i mod ring_size fi + 1"
proof -
  have "unat i < 2 ^ 16" using unsigned_less [of i, where ?'a = nat] by simp
  then have n: "unat (ucast i + 1 :: u32) = unat i + 1" by (simp add: unat_word_ariths unat_ucast_u16)
  have "(unat i + 1) * sizeof_error_code \<ge> unat (cluster_size fi) \<longleftrightarrow> unat i = ring_size fi"
    using assms by (auto simp: ring_size_def sizeof_error_code_def)
  then show ?thesis using assms n by (auto simp: next_ring_index_def Let_def)
qed

section \<open>The ring is a bounded queue\<close>

definition err_ready :: "'w read_fun \<Rightarrow> 'w write_fun \<Rightarrow> ('w \<Rightarrow> bool) \<Rightarrow> ('w \<Rightarrow> nat \<Rightarrow> byte list) \<Rightarrow> nat \<Rightarrow> nat \<Rightarrow>
    fat_data \<Rightarrow> ('w, 'z) errors_state_scheme \<Rightarrow> bool" where
  "err_ready rd wr good secs nsec ssz fi s = (block_device rd wr good secs nsec ssz \<and> err_geom fi nsec ssz \<and> 8 dvd ssz \<and>
     0 < ring_size fi \<and> ring_size fi < 2 ^ 16 \<and> dsk_ready rd wr ssz s \<and> good (world s) \<and> errors_lock s = NULL_LOCK)"

text \<open>The codes from the slot \<open>first_error\<close> on up to \<open>err_current\<close>, the slot written next;
  \<open>last_error\<close> is where a reader stops.\<close>

definition err_items :: "'w read_fun \<Rightarrow> 'w write_fun \<Rightarrow> ('w \<Rightarrow> bool) \<Rightarrow> ('w \<Rightarrow> nat \<Rightarrow> byte list) \<Rightarrow> nat \<Rightarrow> nat \<Rightarrow>
    fat_data \<Rightarrow> ('w, 'z) errors_state_scheme \<Rightarrow> nat \<times> u32 list \<Rightarrow> bool" where
  "err_items rd wr good secs nsec ssz fi s a = (err_ready rd wr good secs nsec ssz fi s \<and>
     (let e = errors_ring s; f = unat (first_error e); m = ring_size fi; q = snd a in
        0 < f \<and> f \<le> m \<and> length q < m \<and> unat (err_current e) = fst a \<and> fst a = ring_slot m f (length q) \<and> -1 \<notin> set q \<and>
        (\<forall>k < length q. slot_holds fi ssz (secs (world s)) (ring_slot m f k) (q ! k))))"

definition err_queue :: "'w read_fun \<Rightarrow> 'w write_fun \<Rightarrow> ('w \<Rightarrow> bool) \<Rightarrow> ('w \<Rightarrow> nat \<Rightarrow> byte list) \<Rightarrow> nat \<Rightarrow> nat \<Rightarrow>
    fat_data \<Rightarrow> ('w, 'z) errors_state_scheme \<Rightarrow> nat \<times> u32 list \<Rightarrow> bool" where
  "err_queue rd wr good secs nsec ssz fi s a =
     (err_items rd wr good secs nsec ssz fi s a \<and> last_error (errors_ring s) = err_current (errors_ring s))"

lemma lock_errors_null [wp, simp]:
  "errors_lock s = NULL_LOCK \<Longrightarrow> lock_errors s = Some (1, s\<lparr>errors_lock := HELD\<rparr>)"
  by (simp add: lock_errors_def)

lemma unlock_errors_held [wp, simp]:
  "errors_lock s = HELD \<Longrightarrow> unlock_errors s = Some (1, s\<lparr>errors_lock := NULL_LOCK\<rparr>)"
  by (simp add: unlock_errors_def)

lemma dsk_ready_errors [simp]:
  "dsk_ready rd wr ssz (s\<lparr>errors_lock := l\<rparr>) = dsk_ready rd wr ssz s"
  "dsk_ready rd wr ssz (s\<lparr>errors_ring := e\<rparr>) = dsk_ready rd wr ssz s"
  by (simp_all add: dsk_ready_def)

text \<open>The indices go to slot 0 and no other slot changes.\<close>

lemma dump_info_ok:
  assumes "block_device rd wr good secs nsec ssz" "err_geom fi nsec ssz" "8 dvd ssz" "dsk_ready rd wr ssz s" "good (world s)"
  shows "\<exists>w. dump_info e fi s = Some (1, s\<lparr>world := w\<rparr>) \<and> good w \<and>
    slot_holds fi ssz (secs w) 0 (if 0 < err_near ssz then PACK_INFO_ENTRY (first_error e) (last_error e) else 0) \<and>
    (\<forall>l v. l \<noteq> 0 \<and> slot_holds fi ssz (secs (world s)) l v \<longrightarrow> slot_holds fi ssz (secs w) l v)"
  using block_device.write_slot_ok [OF assms(1-3) _ assms(4,5), of 0 "PACK_INFO_ENTRY (first_error e) (last_error e)"]
  by (auto simp: dump_info_def Let_def)

lemma items_first:
  assumes "err_items rd wr good secs nsec ssz fi s (p, q)"
  shows "0 < p" "p \<le> ring_size fi"
  using assms ring_slot_range [of "ring_size fi"] by (auto simp: err_items_def err_ready_def Let_def)

lemma register_error_dumped:
  fixes s :: "('w, 'z) errors_state_scheme"
  assumes q: "err_items rd wr good secs nsec ssz fi s (p, q)" and c: "c \<noteq> -1"
  obtains s' :: "('w, 'z) errors_state_scheme" where "errors_register_error c fi s = Some (1, s')"
    "err_queue rd wr good secs nsec ssz fi s' (ring_push (ring_size fi) (err_near ssz) c (p, q))"
    "slot_holds fi ssz (secs (world s')) 0
      (if 0 < err_near ssz then PACK_INFO_ENTRY (first_error (errors_ring s')) (last_error (errors_ring s')) else 0)"
proof -
  let ?e = "errors_ring s" and ?m = "ring_size fi" let ?f = "unat (first_error ?e)"
  have ready: "block_device rd wr good secs nsec ssz" "err_geom fi nsec ssz" "8 dvd ssz" "dsk_ready rd wr ssz s"
      "good (world s)" "errors_lock s = NULL_LOCK" and m: "0 < ?m" "?m < 2 ^ 16"
    and ring: "0 < ?f" "?f \<le> ?m" "length q < ?m" "unat (err_current ?e) = p" "p = ring_slot ?m ?f (length q)" "-1 \<notin> set q"
    and vals: "\<And>k. k < length q \<Longrightarrow> slot_holds fi ssz (secs (world s)) (ring_slot ?m ?f k) (q ! k)"
    using q by (auto simp: err_items_def err_ready_def Let_def)
  note p = items_first [OF q]
  let ?h = "s\<lparr>errors_lock := HELD\<rparr>" and ?c = "if p < err_near ssz then c else 0"
  have hr: "dsk_ready rd wr ssz ?h" "good (world ?h)" and p16: "p < 2 ^ 16" using ready p m by simp_all
  obtain w where w: "write_error (int p) c fi ?h = Some (1, ?h\<lparr>world := w\<rparr>)" "good w" "slot_holds fi ssz (secs w) p ?c"
    "\<And>l v. l \<noteq> p \<Longrightarrow> slot_holds fi ssz (secs (world s)) l v \<Longrightarrow> slot_holds fi ssz (secs w) l v"
    using block_device.write_slot_ok [OF ready(1-3) p16 hr, of c] by auto
  let ?n = "next_ring_index (ucast (err_current ?e)) fi" and ?g = "next_ring_index (ucast (first_error ?e)) fi"
  have nxt: "unat ?n = p mod ?m + 1" "unat ?g = ?f mod ?m + 1"
    using unat_next_ring_index [of "err_current ?e" fi] unat_next_ring_index [of "first_error ?e" fi] p ring by simp_all
  moreover have "p mod ?m + 1 \<le> ?m" "?f mod ?m + 1 \<le> ?m" using m(1) by (simp_all add: Suc_le_eq)
  ultimately have cur: "unat (ucast ?n :: u16) = p mod ?m + 1" "unat (ucast ?g :: u16) = ?f mod ?m + 1"
    using m(2) by (simp_all add: unat_ucast16)
  have full: "?n = ucast (first_error ?e) \<longleftrightarrow> Suc (length q) = ?m"
  proof -
    have "?n = ucast (first_error ?e) \<longleftrightarrow> ring_slot ?m ?f (Suc (length q)) = ?f"
      using nxt(1) ring(5) by (simp add: word_unat_eq_iff unat_ucast_u16 ring_slot_Suc [symmetric])
    also have "\<dots> \<longleftrightarrow> Suc (length q) = ?m"
    proof
      assume "Suc (length q) = ?m"
      then have "ring_slot ?m ?f (Suc (length q)) = (?f - 1 + ?m) mod ?m + 1" by (simp only: ring_slot_def)
      also have "\<dots> = ?f" using ring(1,2) by (rule ring_slot_full)
      finally show "ring_slot ?m ?f (Suc (length q)) = ?f" .
    next
      assume a: "ring_slot ?m ?f (Suc (length q)) = ?f"
      show "Suc (length q) = ?m"
      proof (rule ccontr)
        assume "Suc (length q) \<noteq> ?m"
        then have "Suc (length q) < ?m" using ring(3) by simp
        then show False using ring_slot_inj [of ?m ?f "Suc (length q)" 0] a ring(1,2) m(1) by simp
      qed
    qed
    finally show ?thesis .
  qed
  define e' where "e' = (if Suc (length q) = ?m then ?e\<lparr>first_error := ucast ?g\<rparr> else ?e)\<lparr>err_current := ucast ?n, last_error := ucast ?n\<rparr>"
  let ?s1 = "?h\<lparr>world := w\<rparr>\<lparr>errors_ring := e'\<rparr>"
  obtain w' where w': "dump_info e' fi ?s1 = Some (1, ?s1\<lparr>world := w'\<rparr>)" "good w'"
    "slot_holds fi ssz (secs w') 0 (if 0 < err_near ssz then PACK_INFO_ENTRY (first_error e') (last_error e') else 0)"
    "\<And>l v. l \<noteq> 0 \<Longrightarrow> slot_holds fi ssz (secs w) l v \<Longrightarrow> slot_holds fi ssz (secs w') l v"
    using dump_info_ok [OF ready(1-3), of ?s1 e'] hr w(2) by auto
  let ?s' = "?s1\<lparr>world := w', errors_lock := NULL_LOCK\<rparr>"
  have cp: "uint (err_current ?e) = int p" by (simp flip: ring(4))
  have run: "errors_register_error c fi s = Some (1, ?s')"
    using ready(6) w(1) w'(1) 
    by (cases "Suc (length q) = ?m") (simp_all add: errors_register_error_def Let_def full e'_def cp)
  have held: "slot_holds fi ssz (secs w') (ring_slot ?m ?f k) ((q @ [?c]) ! k)" if "k < Suc (length q)" for k
  proof -
    have "ring_slot ?m ?f k \<noteq> 0" using ring_slot_range [OF m(1)] by (metis less_not_refl)
    moreover have "slot_holds fi ssz (secs w) (ring_slot ?m ?f k) ((q @ [?c]) ! k)"
    proof (cases "k = length q")
      case False
      then have k: "k < length q" using that by simp
      then have "ring_slot ?m ?f k \<noteq> p" using ring_slot_inj [of ?m ?f k "length q"] ring(3,5) by fastforce
      then show ?thesis using w(4) vals [OF k] k by (simp add: nth_append)
    qed (use w(3) ring(5) in simp)
    ultimately show ?thesis using w'(4) by blast
  qed
  have c': "?c \<noteq> -1" using c by simp
  have "err_queue rd wr good secs nsec ssz fi ?s' (ring_push ?m (err_near ssz) c (p, q))"
  proof (cases "Suc (length q) = ?m")
    case False
    then show ?thesis using e'_def ready m ring cur(1) w'(2) c' held
      by (simp add: err_queue_def err_items_def err_ready_def Let_def ring_push_def ring_slot_Suc)
  next
    case True
    have f: "0 < ?f mod ?m + 1" "?f mod ?m + 1 \<le> ?m" using m(1) by (simp_all add: Suc_le_eq)
    have t: "length (tl (q @ [?c])) = length q" "-1 \<notin> set (tl (q @ [?c]))" using ring(6) c' by (cases q; simp)+
    have "slot_holds fi ssz (secs w') (ring_slot ?m (?f mod ?m + 1) k) (tl (q @ [?c]) ! k)" if "k < length q" for k
      using held [of "Suc k"] that by (simp add: ring_slot_next [OF ring(1)] nth_tl)
    moreover have "p mod ?m + 1 = ring_slot ?m (?f mod ?m + 1) (length q)"
      using ring(5) by (simp add: ring_slot_next [OF ring(1)] ring_slot_Suc [symmetric])
    ultimately show ?thesis using True e'_def ready m ring(3) cur w'(2) f t
      by (simp add: err_queue_def err_items_def err_ready_def Let_def ring_push_def)
  qed
  with run show ?thesis by (rule that) (use w'(3) in \<open>simp split: if_splits\<close>)
qed

lemma last_error_ok:
  fixes s :: "('w, 'z) errors_state_scheme"
  assumes q: "err_queue rd wr good secs nsec ssz fi s a"
  shows "\<exists>s'. errors_last_error fi s = Some (fst (ring_pop a), s') \<and> err_queue rd wr good secs nsec ssz fi s' (snd (ring_pop a))"
proof -
  obtain p q where a: "a = (p, q)" by force
  let ?e = "errors_ring s" and ?m = "ring_size fi" let ?f = "unat (first_error ?e)"
  have ready: "block_device rd wr good secs nsec ssz" "err_geom fi nsec ssz" "8 dvd ssz" "dsk_ready rd wr ssz s"
      "good (world s)" "errors_lock s = NULL_LOCK" and m: "0 < ?m" "?m < 2 ^ 16"
    and ring: "0 < ?f" "?f \<le> ?m" "length q < ?m" "unat (err_current ?e) = p" "p = ring_slot ?m ?f (length q)" "-1 \<notin> set q"
      "last_error ?e = err_current ?e"
    and vals: "\<And>k. k < length q \<Longrightarrow> slot_holds fi ssz (secs (world s)) (ring_slot ?m ?f k) (q ! k)"
    using q a by (auto simp: err_queue_def err_items_def err_ready_def Let_def)
  have empty: "first_error ?e = last_error ?e \<longleftrightarrow> q = []"
  proof -
    have "first_error ?e = last_error ?e \<longleftrightarrow> ring_slot ?m ?f 0 = ring_slot ?m ?f (length q)"
      using ring by (simp add: word_unat_eq_iff)
    also have "\<dots> \<longleftrightarrow> q = []" using ring_slot_inj [of ?m ?f 0 "length q"] ring(3) m(1) by auto
    finally show ?thesis .
  qed
  show ?thesis
  proof (cases q)
    case Nil
    let ?s' = "s\<lparr>errors_lock := NULL_LOCK\<rparr>"
    have "errors_last_error fi s = Some (-1, ?s')" using empty Nil ready(6) by (simp add: errors_last_error_def)
    moreover have "err_queue rd wr good secs nsec ssz fi ?s' a" using q by (simp add: err_queue_def err_items_def err_ready_def)
    ultimately show ?thesis using a Nil by (simp add: ring_pop_def)
  next
    case (Cons c q')
    let ?h = "s\<lparr>errors_lock := HELD\<rparr>"
    have hr: "dsk_ready rd wr ssz ?h" "good (world ?h)" and f16: "?f < 2 ^ 16" using ready ring(2) m by simp_all
    have c: "slot_holds fi ssz (secs (world ?h)) ?f c" "c \<noteq> -1" using vals [of 0] ring(1,2,6) Cons by auto
    obtain w where w: "read_error (int ?f) fi ?h = Some ((1, c), ?h\<lparr>world := w\<rparr>)" "good w" "secs w = secs (world s)"
      using block_device.read_slot_ok [OF ready(1-3) f16 hr c] by auto
    let ?g = "next_ring_index (ucast (first_error ?e)) fi"
    have "unat ?g = ?f mod ?m + 1" using unat_next_ring_index [of "first_error ?e" fi] ring by simp
    moreover have f: "0 < ?f mod ?m + 1" "?f mod ?m + 1 \<le> ?m" using m(1) by (simp_all add: Suc_le_eq)
    ultimately have cur: "unat (ucast ?g :: u16) = ?f mod ?m + 1" using m(2) by (simp add: unat_ucast16)
    let ?e' = "?e\<lparr>first_error := ucast ?g\<rparr>" let ?s1 = "?h\<lparr>world := w\<rparr>\<lparr>errors_ring := ?e'\<rparr>"
    obtain w' where w': "dump_info ?e' fi ?s1 = Some (1, ?s1\<lparr>world := w'\<rparr>)" "good w'"
      "\<And>l v. l \<noteq> 0 \<Longrightarrow> slot_holds fi ssz (secs w) l v \<Longrightarrow> slot_holds fi ssz (secs w') l v"
      using dump_info_ok [OF ready(1-3), of ?s1 ?e'] hr w(2) by auto
    let ?s' = "?s1\<lparr>world := w', errors_lock := NULL_LOCK\<rparr>"
    have run: "errors_last_error fi s = Some (c, ?s')"
      using ready(6) w(1) w'(1) empty Cons by (simp add: errors_last_error_def Let_def)
    have "slot_holds fi ssz (secs w') (ring_slot ?m (?f mod ?m + 1) k) (q' ! k)" if "k < length q'" for k
    proof -
      have "ring_slot ?m ?f (Suc k) \<noteq> 0" using ring_slot_range [OF m(1)] by (metis less_not_refl)
      then show ?thesis using vals [of "Suc k"] that w(3) w'(3) Cons by (simp add: ring_slot_next [OF ring(1)])
    qed
    moreover have "p = ring_slot ?m (?f mod ?m + 1) (length q')" using ring(5) Cons by (simp add: ring_slot_next [OF ring(1)])
    ultimately have "err_queue rd wr good secs nsec ssz fi ?s' (p, q')"
      using ready m ring Cons cur w'(2) f by (simp add: err_queue_def err_items_def err_ready_def Let_def)
    then show ?thesis using run a Cons by (auto simp: ring_pop_def)
  qed
qed

interpretation ring: bounded_queue "\<lambda>c. errors_register_error c fi" "errors_last_error fi" "ring_size fi" "err_near ssz"
    "err_queue rd wr good secs nsec ssz fi"
  for rd wr good secs nsec ssz fi
proof unfold_locales
  show "\<exists>s'. errors_register_error c fi s = Some (1, s') \<and>
      err_queue rd wr good secs nsec ssz fi s' (ring_push (ring_size fi) (err_near ssz) c a)"
    if "err_queue rd wr good secs nsec ssz fi s a" "c \<noteq> -1" for s a c
    using that by (cases a) (metis err_queue_def register_error_dumped)
qed (rule last_error_ok; assumption)

section \<open>A small volume\<close>

definition err_vol :: fat_data where
  "err_vol = fat_data_zero\<lparr>total_sectors := 128, errors_count := 2, cluster_size := 128, bytes_per_sector := 64\<rparr>"

definition err_start :: "u16 \<Rightarrow> fake_world errors_state" where
  "err_start k = disk_state.extend disk0 \<lparr>errors_lock = NULL_LOCK, errors_ring = \<lparr>first_error = k, err_current = k, last_error = k\<rparr>\<rparr>"

lemma err_vol_simps [simp]: "errors_count err_vol = 2" "total_sectors err_vol = 128" "cluster_size err_vol = 128"
  by (simp_all add: err_vol_def fat_data_zero_def)

lemma err_start_simps [simp]:
  "errors_lock (err_start k) = NULL_LOCK" "errors_ring (err_start k) = \<lparr>first_error = k, err_current = k, last_error = k\<rparr>"
  "world (err_start k) = world disk0" "dsk_ready rd wr ssz (err_start k) = dsk_ready rd wr ssz disk0"
  by (simp_all add: err_start_def disk_state.extend_def dsk_ready_def)

lemma err_vol_geom: "err_geom err_vol TEST_SECTORS TEST_SECTOR_SIZE"
proof -
  have "err_at err_vol 0 < 128" "err_at err_vol 1 < 128"
    by (simp_all add: err_at_def GET_ERRORSSECTOR_def ERRORS_MULTIPLIER_def umod_def)
  then show ?thesis by (simp add: err_geom_def TEST_SECTORS_def TEST_SECTOR_SIZE_def less_2_cases_iff)
qed

lemma err_vol_ring [simp]: "ring_size err_vol = 31" "err_near TEST_SECTOR_SIZE = 8"
  by (simp_all add: ring_size_def err_near_def sizeof_error_code_def TEST_SECTOR_SIZE_def)

lemma err_start_ready:
  "err_ready fake_read fake_write fake_ok fake_secs TEST_SECTORS TEST_SECTOR_SIZE err_vol (err_start k)"
  using disk0_ready fake.block_device_axioms err_vol_geom by (simp add: err_ready_def TEST_SECTOR_SIZE_def)

lemma err_start_queue:
  "err_queue fake_read fake_write fake_ok fake_secs TEST_SECTORS TEST_SECTOR_SIZE err_vol (err_start 1) (1, [])"
  using err_start_ready [of 1] by (simp add: err_queue_def err_items_def)

section \<open>Properties\<close>

text \<open>C15 (the ring is a bounded queue). On a ready ring, whatever the order in which
  \<open>errors_register_error\<close> and \<open>errors_last_error\<close> are called, the answers are those of a queue with one
  code less room than the ring has slots: every registration returns 1 and puts the code behind the
  others, displacing the oldest when the queue is full; a code whose slot is past the one sector of a
  copy counts as 0; a reading takes the oldest code, or returns \<open>-1\<close> when there is none. The code
  \<open>-1\<close> itself is never registered.\<close>

theorem error_ring_fifo:
  assumes "err_queue rd wr good secs nsec ssz fi s (p, q)" "Register (-1) \<notin> set xs"
  shows "\<exists>answers s' a. run_ops (\<lambda>c. errors_register_error c fi) (errors_last_error fi) xs s = Some (answers, s') \<and>
    queue_ops (ring_size fi) (err_near ssz) xs (p, q) = Some (answers, a) \<and>
    err_queue rd wr good secs nsec ssz fi s' a"
  by (rule ring.refines [OF assms])

text \<open>Thirty-two codes go into a ring of 31 slots of which seven lie in the sector: the first two are
  displaced, those of the slots from 8 on are lost, and the last one is in slot 1 again.\<close>

definition full_ring :: "ring_op list" where
  "full_ring = map (\<lambda>i. Register (of_nat i)) [1..<33] @ replicate 31 Take"

theorem error_ring_fifo_witness:
  "\<exists>s'. run_ops (\<lambda>c. errors_register_error c err_vol) (errors_last_error err_vol) full_ring (err_start 1) =
     Some (replicate 32 (Inl 1) @ map Inr [3, 4, 5, 6, 7] @ replicate 24 (Inr 0) @ [Inr 32, Inr (-1)], s')"
proof -
  have "map_option fst (queue_ops 31 8 full_ring (1, [])) =
      Some (replicate 32 (Inl 1) @ map Inr [3, 4, 5, 6, 7] @ replicate 24 (Inr 0) @ [Inr 32, Inr (-1)])" by code_simp
  moreover have "Register (-1) \<notin> set full_ring" by code_simp
  ultimately show ?thesis using error_ring_fifo [OF err_start_queue, of full_ring] by auto
qed

text \<open>Codes past the first sector are lost. When the current slot starts at or past the end of
  the one sector a copy has, \<open>errors_register_error\<close> reports success, yet the code is not stored:
  the next \<open>errors_last_error\<close> returns 0, which is \<open>NO_ERROR\<close>.\<close>

theorem error_past_sector_lost:
  assumes q: "err_queue rd wr good secs nsec ssz fi s (p, [])" and "ssz \<le> p * 8" "1 < ring_size fi" "c \<noteq> -1"
  shows "\<exists>s1 s2. errors_register_error c fi s = Some (1, s1) \<and> errors_last_error fi s1 = Some (0, s2)"
proof -
  have "\<not> p < err_near ssz" using assms(2) by (auto simp: err_near_def)
  then have "ring_pop (ring_push (ring_size fi) (err_near ssz) c (p, [])) = (0, p mod ring_size fi + 1, [])"
    using assms(3) by (simp add: ring_push_def ring_pop_def)
  then show ?thesis using ring.enq_ok [OF q assms(4)] ring.deq_ok by (metis fst_conv)
qed

text \<open>Slot 8 of copies of 64 bytes.\<close>

theorem error_past_sector_lost_witness:
  "\<exists>s1 s2. errors_register_error 21 err_vol (err_start 8) = Some (1, s1) \<and> errors_last_error err_vol s1 = Some (0, s2)"
proof -
  have "err_queue fake_read fake_write fake_ok fake_secs TEST_SECTORS TEST_SECTOR_SIZE err_vol (err_start 8) (8, [])"
    using err_start_ready [of 8] by (simp add: err_queue_def err_items_def)
  then show ?thesis using error_past_sector_lost [of _ _ _ _ _ _ err_vol "err_start 8" 8 21] by (simp add: TEST_SECTOR_SIZE_def)
qed

text \<open>Mounting forgets unread codes: \<open>errors_setup\<close> places the writer at the oldest unread
  code: when a ring that holds unread codes is set up again, the next code registered replaces all of
  them, and it is the only one that can still be read.\<close>

theorem errors_setup_forgets:
  assumes q: "err_queue rd wr good secs nsec ssz fi s (p, q)" and ring: "1 < ring_size fi" "0 < err_near ssz" and c: "c \<noteq> -1" "d \<noteq> -1"
  shows "\<exists>s1 s2 s3 s4 s5. errors_register_error d fi s = Some (1, s1) \<and>
    err_queue rd wr good secs nsec ssz fi s1 (ring_push (ring_size fi) (err_near ssz) d (p, q)) \<and>
    errors_setup fi s1 = Some (1, s2) \<and> errors_register_error c fi s2 = Some (1, s3) \<and>
    errors_last_error fi s3 = Some (if unat (first_error (errors_ring s1)) < err_near ssz then c else 0, s4) \<and>
    errors_last_error fi s4 = Some (-1, s5)"
proof -
  have it0: "err_items rd wr good secs nsec ssz fi s (p, q)" using q by (simp add: err_queue_def)
  let ?a = "ring_push (ring_size fi) (err_near ssz) d (p, q)"
  obtain t where t: "errors_register_error d fi s = Some (1, t)" "err_queue rd wr good secs nsec ssz fi t ?a"
    "slot_holds fi ssz (secs (world t)) 0
      (if 0 < err_near ssz then PACK_INFO_ENTRY (first_error (errors_ring t)) (last_error (errors_ring t)) else 0)"
    using register_error_dumped [OF it0 c(2)] .
  let ?e = "errors_ring t" let ?b = "PACK_INFO_ENTRY (first_error ?e) (last_error ?e)" let ?f = "unat (first_error ?e)"
  have dev: "block_device rd wr good secs nsec ssz" and g: "err_geom fi nsec ssz" "8 dvd ssz" "ring_size fi < 2 ^ 16"
    and h: "dsk_ready rd wr ssz t" "good (world t)" "errors_lock t = NULL_LOCK"
    and f: "0 < ?f" "?f \<le> ring_size fi" "unat (err_current ?e) = ring_slot (ring_size fi) ?f (length (snd ?a))"
      "last_error ?e = err_current ?e" "length (snd ?a) < ring_size fi"
    using t(2) by (auto simp: err_queue_def err_items_def err_ready_def Let_def)
  have "snd ?a \<noteq> []" using ring(1) by (auto simp: ring_push_def Let_def tl_Nil split: if_splits)
  then have "ring_slot (ring_size fi) ?f 0 \<noteq> ring_slot (ring_size fi) ?f (length (snd ?a))"
    using ring_slot_inj [of "ring_size fi" ?f 0 "length (snd ?a)"] f(5) ring(1) by auto
  then have "?f \<noteq> unat (err_current ?e)" using f(3) ring_slot_0 [OF f(1,2)] by metis
  then have fl: "first_error ?e \<noteq> last_error ?e" using f(4) by metis
  have "0 < unat (err_current ?e)" using f(3) ring_slot_range [of "ring_size fi"] ring(1) by simp
  then have nz: "first_error ?e \<noteq> 0" "last_error ?e \<noteq> 0" using f(1,4) by (auto simp: word_unat_eq_iff)
  have "GET_FIRST_ERROR (-1) = GET_LAST_ERROR (-1)" by code_simp
  then have b: "?b \<noteq> -1" using fl by (metis PACK_INFO_fields)
  let ?h = "t\<lparr>errors_lock := HELD\<rparr>"
  have hr: "dsk_ready rd wr ssz ?h" "good (world ?h)" using h by simp_all
  obtain w where w: "read_error 0 fi ?h = Some ((1, ?b), ?h\<lparr>world := w\<rparr>)" "good w"
    using block_device.read_slot_ok [OF dev g(1,2) _ hr, of 0 ?b] t(3) b ring(2) by auto
  let ?r = "\<lparr>first_error = first_error ?e, err_current = first_error ?e, last_error = last_error ?e\<rparr>"
  let ?s1 = "t\<lparr>errors_lock := NULL_LOCK, world := w, errors_ring := ?r\<rparr>"
  have su: "errors_setup fi t = Some (1, ?s1)"
    using h(3) w(1) nz by (simp add: errors_setup_def load_info_def Let_def)
  have it: "err_items rd wr good secs nsec ssz fi ?s1 (?f, [])"
    using dev g h f(1,2) w(2) ring(1) by (simp add: err_items_def err_ready_def Let_def)
  obtain s2 where s2: "errors_register_error c fi ?s1 = Some (1, s2)"
    "err_queue rd wr good secs nsec ssz fi s2 (ring_push (ring_size fi) (err_near ssz) c (?f, []))"
    using register_error_dumped [OF it c(1)] by blast
  have "ring_push (ring_size fi) (err_near ssz) c (?f, []) = (?f mod ring_size fi + 1, [if ?f < err_near ssz then c else 0])"
    using ring(1) by (simp add: ring_push_def)
  then obtain s3 where s3: "errors_last_error fi s2 = Some (if ?f < err_near ssz then c else 0, s3)"
      "err_queue rd wr good secs nsec ssz fi s3 (?f mod ring_size fi + 1, [])"
    using last_error_ok [OF s2(2)] by (auto simp: ring_pop_def)
  have "\<exists>s4. errors_last_error fi s3 = Some (-1, s4)" using last_error_ok [OF s3(2)] by (auto simp: ring_pop_def)
  then show ?thesis using t(1,2) su s2(1) s3(1) by blast
qed

theorem errors_setup_forgets_witness:
  "\<exists>s1 s2 s3 s4 s5. errors_register_error 3 err_vol (err_start 1) = Some (1, s1) \<and> errors_setup err_vol s1 = Some (1, s2) \<and>
    errors_register_error 7 err_vol s2 = Some (1, s3) \<and>
    errors_last_error err_vol s3 = Some (if unat (first_error (errors_ring s1)) < 8 then 7 else 0, s4) \<and>
    errors_last_error err_vol s4 = Some (-1, s5)"
proof -
  have "1 < ring_size err_vol" "0 < err_near TEST_SECTOR_SIZE" "(7 :: u32) \<noteq> -1" "(3 :: u32) \<noteq> -1" by simp_all
  from errors_setup_forgets [OF err_start_queue this, unfolded err_vol_ring] show ?thesis by blast
qed

end
