(* ===== verification/Jlog.thy ===== *)
theory Jlog
  imports Journal Replica
begin

text \<open>
  What the journal keeps: entries are stored and read back slot by slot, but the vote between the
  copies never decides anything, because the checksum it compares is always zero; and mounting does
  not return when the journal has more than 255 slots.
\<close>

unbundle bit_operations_syntax

section \<open>Layout of an entry\<close>

definition je_fits :: "journal_entry \<Rightarrow> bool" where
  "je_fits e = (length (sq_file_name (je_entry e)) = 11)"

lemma length_bytes_of_sq [layout, simp]: "length (sq_file_name e) = 11 \<Longrightarrow> length (bytes_of_sq e) = 24"
  by (simp add: bytes_of_sq_def)

lemma length_bytes_of_je [layout, simp]: "je_fits e \<Longrightarrow> length (bytes_of_je e) = sizeof_journal_entry"
  by (simp add: je_fits_def bytes_of_je_def sizeof_journal_entry_def)

lemma get_u32_drop: "length xs \<le> n \<Longrightarrow> get_u32 (xs @ ys) n = get_u32 ys (n - length xs)"
  by (auto simp: get_u32_def nth_append Suc_diff_le)

lemma get_u32_cons: "0 < n \<Longrightarrow> get_u32 (x # ys) n = get_u32 ys (n - 1)"
  using get_u32_drop [of "[x]" n ys] by simp

lemma get_u32_all [simp]: "get_u32 (bytes_of_u32 w) 0 = w"
  using get_u32_bytes [of w "[]"] by simp

lemma sq_of_bytes_of_sq: "length (sq_file_name e) = 11 \<Longrightarrow> sq_of_bytes (bytes_of_sq e) = e"
  by (cases e) (simp add: sq_of_bytes_def bytes_of_sq_def get_u32_drop get_u32_cons nth_append)

lemma je_of_bytes_of_je:
  assumes "je_fits e"
  shows "je_of_bytes (bytes_of_je e) = e"
proof -
  have "length (bytes_of_sq (je_entry e)) = 24" "sq_of_bytes (bytes_of_sq (je_entry e)) = je_entry e"
    using assms sq_of_bytes_of_sq by (simp_all add: je_fits_def)
  then show ?thesis
    by (cases e) (simp add: je_of_bytes_def bytes_of_je_def get_u32_drop get_u32_cons nth_append)
qed

lemma journal_zero_simps [simp]: "je_op journal_zero = NO_OP" "je_checksum journal_zero = 0"
  by (simp_all add: journal_zero_def je_of_bytes_def NO_OP_def sizeof_journal_entry_def get_u32_def u32_of_bytes_def)

lemma je_fits_zero: "je_fits journal_zero"
  by (simp add: je_fits_def journal_zero_def je_of_bytes_def sq_of_bytes_def sizeof_journal_entry_def)

lemma unpack_bytes_zeros: "unpack_bytes (replicate (2 * n) 0) = replicate n 0"
proof -
  have "u16s_of_bytes (replicate (2 * n) 0) = replicate n 0" by (induction n) (simp_all add: u16_of_bytes_def)
  then show ?thesis using unpack_zero [of n] by (simp add: unpack_bytes_def)
qed

section \<open>Slots\<close>

definition jr_at :: "fat_data \<Rightarrow> nat \<Rightarrow> nat" where
  "jr_at fi i = unat (the (GET_JOURNALSECTOR (of_nat i) (total_sectors fi)))"

definition jr_geom :: "fat_data \<Rightarrow> nat \<Rightarrow> nat \<Rightarrow> bool" where
  "jr_geom fi nsec ssz = (total_sectors fi \<noteq> 2 \<and> journals_count fi \<noteq> 0 \<and> ssz < 2 ^ 31 \<and>
     (\<forall>i < unat (journals_count fi). jr_at fi i < nsec))"

definition jr_entry :: "fat_data \<Rightarrow> nat \<Rightarrow> (nat \<Rightarrow> byte list) \<Rightarrow> nat \<Rightarrow> nat \<Rightarrow> journal_entry" where
  "jr_entry fi ssz sec k i = je_of_bytes (unpack_bytes (rep_slot (jr_at fi) ssz 68 sec k i))"

lemma jr_geom_at: "jr_geom fi nsec ssz \<Longrightarrow> i < unat (journals_count fi) \<Longrightarrow> jr_at fi i < nsec"
  by (simp add: jr_geom_def)

lemma jr_offset: "k * 68 < 2 ^ 31 \<Longrightarrow> int_of_u32 (of_nat k * 68) = int k * 68"
  using rep_offset [of k 68] by simp

lemma jr_offset_fits: "jr_geom fi nsec ssz \<Longrightarrow> rep_fits ssz 68 k \<Longrightarrow> k * 68 < 2 ^ 31"
  by (simp add: jr_geom_def rep_fits_def)

text \<open>The vote when all copies have the same checksum: the first copy is the candidate.\<close>

lemma read_journal_loop_same:
  assumes step: "\<And>i s. i < m \<Longrightarrow> P s \<Longrightarrow>
      \<exists>w e. read_journal_copy k journal_zero fi (int i) s = Some ((1, e), s\<lparr>world := w\<rparr>) \<and> je_checksum e = x \<and> P (s\<lparr>world := w\<rparr>)"
  shows "i + n \<le> m \<Longrightarrow> P s \<Longrightarrow> 0 \<le> f \<Longrightarrow>
    \<exists>w. read_journal_loop n (int i) k fi (x, f, 0) 0 s = Some (((x, f + int n, 0), 0), s\<lparr>world := w\<rparr>) \<and> P (s\<lparr>world := w\<rparr>)"
proof (induction n arbitrary: i s f)
  case 0
  then show ?case by (intro exI [of _ "world s"]) simp
next
  case (Suc n)
  obtain w e where w: "read_journal_copy k journal_zero fi (int i) s = Some ((1, e), s\<lparr>world := w\<rparr>)" "je_checksum e = x" "P (s\<lparr>world := w\<rparr>)"
    using step [of i s] Suc.prems by auto
  have "\<exists>w'. read_journal_loop n (int (Suc i)) k fi (x, f + 1, 0) 0 (s\<lparr>world := w\<rparr>) =
      Some (((x, f + 1 + int n, 0), 0), s\<lparr>world := w\<rparr>\<lparr>world := w'\<rparr>) \<and> P (s\<lparr>world := w\<rparr>\<lparr>world := w'\<rparr>)"
    using Suc.prems w(3) by (intro Suc.IH) auto
  then show ?case using w Suc.prems(3) by (auto simp: vote_step_def Let_def add.commute add.left_commute)
qed

lemma read_journal_same:
  assumes step: "\<And>i s e0. i < unat (journals_count fi) \<Longrightarrow> P s \<Longrightarrow>
      \<exists>w e. read_journal_copy k e0 fi (int i) s = Some ((1, e), s\<lparr>world := w\<rparr>) \<and> je_checksum e = x \<and> (i = 0 \<longrightarrow> e = first) \<and> P (s\<lparr>world := w\<rparr>)"
    and n: "journals_count fi \<noteq> 0" and P: "P s" and x: "x \<noteq> -1"
  shows "\<exists>w. read_journal k e0 fi s = Some ((1, first), s\<lparr>world := w\<rparr>) \<and> P (s\<lparr>world := w\<rparr>)"
proof -
  obtain m where m: "unat (journals_count fi) = Suc m" using n by (metis not0_implies_Suc unat_eq_0)
  obtain w e where w: "read_journal_copy k journal_zero fi (int 0) s = Some ((1, e), s\<lparr>world := w\<rparr>)" "je_checksum e = x" "P (s\<lparr>world := w\<rparr>)"
    using step [of 0 s journal_zero] P m by auto
  have step': "\<exists>w e. read_journal_copy k journal_zero fi (int i) s = Some ((1, e), s\<lparr>world := w\<rparr>) \<and> je_checksum e = x \<and> P (s\<lparr>world := w\<rparr>)"
    if "i < unat (journals_count fi)" "P s" for i s
    using step [OF that, of journal_zero] by blast
  obtain w' where w': "read_journal_loop m (int 1) k fi (x, 0, 0) 0 (s\<lparr>world := w\<rparr>) = Some (((x, 0 + int m, 0), 0), s\<lparr>world := w\<rparr>\<lparr>world := w'\<rparr>)"
    "P (s\<lparr>world := w\<rparr>\<lparr>world := w'\<rparr>)"
    using read_journal_loop_same [of "unat (journals_count fi)" P k fi x 1 m "s\<lparr>world := w\<rparr>" 0, OF step'] w(3) m by auto
  have loop: "read_journal_loop (unat (journals_count fi)) 0 k fi (vote_start (-1)) (-1) s = Some (((x, int m, 0), 0), s\<lparr>world := w'\<rparr>)"
    using w(1,2) w'(1) x by (simp add: m vote_start_def vote_step_def Let_def)
  obtain v where v: "read_journal_copy k e0 fi 0 (s\<lparr>world := w'\<rparr>) = Some ((1, first), s\<lparr>world := w'\<rparr>\<lparr>world := v\<rparr>)" "P (s\<lparr>world := w'\<rparr>\<lparr>world := v\<rparr>)"
    using step [of 0 "s\<lparr>world := w'\<rparr>" e0] w'(2) m by auto
  show ?thesis using loop v by (intro exI [of _ v]) (simp add: read_journal_def)
qed

text \<open>When every copy carries the initial candidate \<open>-1\<close>, none becomes a candidate and the read fails.\<close>

lemma read_journal_loop_none:
  assumes step: "\<And>i s. i < m \<Longrightarrow> P s \<Longrightarrow>
      \<exists>w e. read_journal_copy k journal_zero fi (int i) s = Some ((1, e), s\<lparr>world := w\<rparr>) \<and> je_checksum e = -1 \<and> P (s\<lparr>world := w\<rparr>)"
  shows "i + n \<le> m \<Longrightarrow> P s \<Longrightarrow> 0 \<le> f \<Longrightarrow>
    \<exists>w. read_journal_loop n (int i) k fi (-1, f, -1) (-1) s = Some (((-1, f + int n, -1), -1), s\<lparr>world := w\<rparr>) \<and> P (s\<lparr>world := w\<rparr>)"
proof (induction n arbitrary: i s f)
  case 0
  then show ?case by (intro exI [of _ "world s"]) simp
next
  case (Suc n)
  obtain w e where w: "read_journal_copy k journal_zero fi (int i) s = Some ((1, e), s\<lparr>world := w\<rparr>)" "je_checksum e = -1" "P (s\<lparr>world := w\<rparr>)"
    using step [of i s] Suc.prems by auto
  have "\<exists>w'. read_journal_loop n (int (Suc i)) k fi (-1, f + 1, -1) (-1) (s\<lparr>world := w\<rparr>) =
      Some (((-1, f + 1 + int n, -1), -1), s\<lparr>world := w\<rparr>\<lparr>world := w'\<rparr>) \<and> P (s\<lparr>world := w\<rparr>\<lparr>world := w'\<rparr>)"
    using Suc.prems w(3) by (intro Suc.IH) auto
  then show ?case using w Suc.prems(3) by (auto simp: vote_step_def Let_def add.commute add.left_commute)
qed

context block_device begin

lemma jr_sector:
  assumes "jr_geom fi nsec ssz" "i < unat (journals_count fi)"
  shows "\<exists>sa. GET_JOURNALSECTOR (u32_of_int (int i)) (total_sectors fi) = Some sa \<and> unat sa = jr_at fi i \<and> unat sa < nsec"
  using assms by (auto simp: jr_geom_def jr_at_def GET_JOURNALSECTOR_def umod_def)

lemma write_journal_copy_ok:
  assumes "jr_geom fi nsec ssz" "rep_fits ssz 68 k" "i < unat (journals_count fi)" "dsk_ready rd wr ssz s" "wf (world s)" "je_fits e"
  shows "\<exists>w. write_journal_copy (int k) e fi (int i) s = Some (1, s\<lparr>world := w\<rparr>) \<and> wf w \<and>
    secs w = put_slot ssz (secs (world s)) (rep_loc (jr_at fi) ssz 68 k i) (pack_bytes (bytes_of_je e))"
proof -
  obtain sa where sa: "GET_JOURNALSECTOR (u32_of_int (int i)) (total_sectors fi) = Some sa" "unat sa = jr_at fi i" "unat sa < nsec"
    using jr_sector [OF assms(1,3)] by blast
  have l: "length (pack_bytes (bytes_of_je e)) = 68" using assms(6) by (simp add: sizeof_journal_entry_def)
  have p: "pack_bytes (bytes_of_je e) = bytes_of_u16s (nft32_pack_memory (bytes_of_je e) (replicate sizeof_journal_entry 0) sizeof_journal_entry)"
    using assms(6) by (simp add: pack_bytes_def)
  from rep_write [where at = "jr_at fi" and i = i, OF assms(2) sa(2,3) assms(4,5) l]
  obtain w where w: "DSK_writeoff_sectors sa (int (k * 68)) (pack_bytes (bytes_of_je e)) (int 68) 1 s = Some (1, s\<lparr>world := w\<rparr>)" "wf w"
    "secs w = put_slot ssz (secs (world s)) (rep_loc (jr_at fi) ssz 68 k i) (pack_bytes (bytes_of_je e))" by blast
  have "write_journal_copy (int k) e fi (int i) s = Some (1, s\<lparr>world := w\<rparr>)"
    using sa(1) w(1) by (simp add: write_journal_copy_def Let_def p jr_offset [OF jr_offset_fits [OF assms(1,2)]] sizeof_journal_entry_def
        del: replicate.simps)
  then show ?thesis using w(2,3) by blast
qed

lemma read_journal_copy_ok:
  assumes "jr_geom fi nsec ssz" "rep_fits ssz 68 k" "i < unat (journals_count fi)" "dsk_ready rd wr ssz s" "wf (world s)"
  shows "\<exists>w. read_journal_copy (int k) e0 fi (int i) s = Some ((1, jr_entry fi ssz (secs (world s)) k i), s\<lparr>world := w\<rparr>) \<and> wf w \<and>
    secs w = secs (world s)"
proof -
  obtain sa where sa: "GET_JOURNALSECTOR (u32_of_int (int i)) (total_sectors fi) = Some sa" "unat sa = jr_at fi i" "unat sa < nsec"
    using jr_sector [OF assms(1,3)] by blast
  have l: "length (replicate 68 (0 :: byte)) = 68" by simp
  from rep_read [where at = "jr_at fi" and i = i, OF assms(2) sa(2,3) assms(4,5) l]
  obtain w where w: "DSK_readoff_sectors sa (int (k * 68)) (replicate 68 0) (int 68) 1 s =
      Some ((1, rep_slot (jr_at fi) ssz 68 (secs (world s)) k i), s\<lparr>world := w\<rparr>)" "wf w" "secs w = secs (world s)" by blast
  have "read_journal_copy (int k) e0 fi (int i) s = Some ((1, jr_entry fi ssz (secs (world s)) k i), s\<lparr>world := w\<rparr>)"
    using sa(1) w(1) by (simp add: read_journal_copy_def Let_def jr_offset [OF jr_offset_fits [OF assms(1,2)]] sizeof_journal_entry_def jr_entry_def
        del: replicate.simps)
  then show ?thesis using w(2,3) by blast
qed

lemma write_journal_loop_ok:
  assumes "jr_geom fi nsec ssz" "rep_fits ssz 68 k" "je_fits e" "i + n \<le> unat (journals_count fi)" "dsk_ready rd wr ssz s" "wf (world s)"
  shows "\<exists>w. write_journal_loop n (int i) (int k) e fi s = Some (1, s\<lparr>world := w\<rparr>) \<and> wf w \<and>
    secs w = put_rep (jr_at fi) ssz 68 k (pack_bytes (bytes_of_je e)) i n (secs (world s))"
  using assms(4-6)
proof (induction n arbitrary: i s)
  case 0
  then show ?case by (intro exI [of _ "world s"]) simp
next
  case (Suc n)
  obtain w where w: "write_journal_copy (int k) e fi (int i) s = Some (1, s\<lparr>world := w\<rparr>)" "wf w"
    "secs w = put_slot ssz (secs (world s)) (rep_loc (jr_at fi) ssz 68 k i) (pack_bytes (bytes_of_je e))"
    using write_journal_copy_ok [OF assms(1,2), of i s e] Suc.prems assms(3) by auto
  obtain w' where "write_journal_loop n (int (Suc i)) (int k) e fi (s\<lparr>world := w\<rparr>) = Some (1, s\<lparr>world := w'\<rparr>)" "wf w'"
    "secs w' = put_rep (jr_at fi) ssz 68 k (pack_bytes (bytes_of_je e)) (Suc i) n (secs w)"
    using Suc.IH [of "Suc i" "s\<lparr>world := w\<rparr>"] Suc.prems w(2) by auto
  then show ?case using w by (intro exI [of _ w']) (simp add: add.commute)
qed

lemma write_journal_ok:
  assumes "jr_geom fi nsec ssz" "rep_fits ssz 68 k" "je_fits e" "dsk_ready rd wr ssz s" "wf (world s)"
  shows "\<exists>w. write_journal (int k) e fi s = Some (1, s\<lparr>world := w\<rparr>) \<and> wf w \<and>
    (\<forall>j < unat (journals_count fi). jr_entry fi ssz (secs w) k j = e) \<and>
    (\<forall>l. rep_fits ssz 68 l \<and> l \<noteq> k \<longrightarrow> (\<forall>j < unat (journals_count fi). jr_entry fi ssz (secs w) l j = jr_entry fi ssz (secs (world s)) l j)) \<and>
    (\<forall>x. (\<forall>j < unat (journals_count fi). jr_at fi j \<noteq> x) \<longrightarrow> secs w x = secs (world s) x)"
proof -
  let ?n = "unat (journals_count fi)" and ?d = "pack_bytes (bytes_of_je e)"
  obtain w where w: "write_journal_loop ?n (int 0) (int k) e fi s = Some (1, s\<lparr>world := w\<rparr>)" "wf w"
    "secs w = put_rep (jr_at fi) ssz 68 k ?d 0 ?n (secs (world s))"
    using write_journal_loop_ok [OF assms(1-3) _ assms(4,5), of 0 ?n] by auto
  have len: "\<forall>x < nsec. length (secs (world s) x) = ssz" using secs_length [OF assms(5)] by simp
  have d: "length ?d = 68" "je_of_bytes (unpack_bytes ?d) = e"
    using assms(3) by (simp_all add: sizeof_journal_entry_def je_of_bytes_of_je)
  note keep = put_rep_keep [where m = ?n and sec = "secs (world s)" and n = ?n and i = 0, OF jr_geom_at [OF assms(1)] assms(2) _ d(1) _ len]
  have "jr_entry fi ssz (secs w) k j = e" if "j < ?n" for j
    using keep [OF _ assms(2)] that d(2) by (simp add: w(3) jr_entry_def)
  moreover have "jr_entry fi ssz (secs w) l j = jr_entry fi ssz (secs (world s)) l j" if "rep_fits ssz 68 l" "l \<noteq> k" "j < ?n" for l j
    using keep [OF _ that(1)] that by (simp add: w(3) jr_entry_def)
  moreover have "secs w x = secs (world s) x" if "\<forall>j < ?n. jr_at fi j \<noteq> x" for x
    unfolding w(3) using that by (intro put_rep_outside [OF assms(2)]) simp
  ultimately show ?thesis using w(1,2) by (intro exI [of _ w]) (simp add: write_journal_def)
qed

lemma read_journal_ok:
  assumes "jr_geom fi nsec ssz" "rep_fits ssz 68 k" "dsk_ready rd wr ssz s" "wf (world s)"
    and "\<And>j. j < unat (journals_count fi) \<Longrightarrow> je_checksum (jr_entry fi ssz (secs (world s)) k j) = x" "x \<noteq> -1"
  shows "\<exists>w. read_journal (int k) e0 fi s = Some ((1, jr_entry fi ssz (secs (world s)) k 0), s\<lparr>world := w\<rparr>) \<and> wf w \<and> secs w = secs (world s)"
proof -
  let ?P = "\<lambda>t. dsk_ready rd wr ssz t \<and> wf (world t) \<and> secs (world t) = secs (world s)"
  have "\<exists>w e. read_journal_copy (int k) e0 fi (int i) t = Some ((1, e), t\<lparr>world := w\<rparr>) \<and> je_checksum e = x \<and>
      (i = 0 \<longrightarrow> e = jr_entry fi ssz (secs (world s)) k 0) \<and> ?P (t\<lparr>world := w\<rparr>)"
    if "i < unat (journals_count fi)" "?P t" for i e0 and t :: "('w, 'z) journal_state_scheme"
    using read_journal_copy_ok [OF assms(1,2) that(1), of t e0] that assms(5) by auto
  from read_journal_same [of fi ?P "int k" x "jr_entry fi ssz (secs (world s)) k 0" s e0, OF this] show ?thesis
    using assms by (auto simp: jr_geom_def)
qed

lemma read_journal_none:
  assumes "jr_geom fi nsec ssz" "rep_fits ssz 68 k" "dsk_ready rd wr ssz s" "wf (world s)"
    and "\<And>j. j < unat (journals_count fi) \<Longrightarrow> je_checksum (jr_entry fi ssz (secs (world s)) k j) = -1"
  shows "\<exists>w. read_journal (int k) e0 fi s = Some ((0, e0), s\<lparr>world := w\<rparr>) \<and> secs w = secs (world s)"
proof -
  let ?P = "\<lambda>t. dsk_ready rd wr ssz t \<and> wf (world t) \<and> secs (world t) = secs (world s)"
  have step: "\<exists>w e. read_journal_copy (int k) journal_zero fi (int i) t = Some ((1, e), t\<lparr>world := w\<rparr>) \<and> je_checksum e = -1 \<and> ?P (t\<lparr>world := w\<rparr>)"
    if "i < unat (journals_count fi)" "?P t" for i and t :: "('w, 'z) journal_state_scheme"
    using read_journal_copy_ok [OF assms(1,2) that(1), of t journal_zero] that assms(5) by auto
  from read_journal_loop_none [of "unat (journals_count fi)" ?P "int k" fi 0 "unat (journals_count fi)" s 0, OF step]
  show ?thesis using assms by (auto simp: read_journal_def vote_start_def)
qed

text \<open>A journal whose sectors are all zero.\<close>

lemma read_journal_blank:
  assumes "jr_geom fi nsec ssz" "k * 68 < 2 ^ 31" "dsk_ready rd wr ssz s" "wf (world s)"
    and "\<And>j. j < unat (journals_count fi) \<Longrightarrow> secs (world s) (jr_at fi j) = replicate ssz 0"
  shows "\<exists>w. read_journal (int k) e0 fi s = Some ((1, journal_zero), s\<lparr>world := w\<rparr>) \<and> wf w \<and> secs w = secs (world s)"
proof -
  let ?P = "\<lambda>t. dsk_ready rd wr ssz t \<and> wf (world t) \<and> secs (world t) = secs (world s)"
  have "\<exists>w e. read_journal_copy (int k) e0 fi (int i) t = Some ((1, e), t\<lparr>world := w\<rparr>) \<and> je_checksum e = 0 \<and>
      (i = 0 \<longrightarrow> e = journal_zero) \<and> ?P (t\<lparr>world := w\<rparr>)"
    if i: "i < unat (journals_count fi)" and t: "?P t" for i e0 and t :: "('w, 'z) journal_state_scheme"
  proof -
    obtain sa where sa: "GET_JOURNALSECTOR (u32_of_int (int i)) (total_sectors fi) = Some sa" "unat sa = jr_at fi i" "unat sa < nsec"
      using jr_sector [OF assms(1) i] by blast
    have z: "drop (k * 68) (secs (world t) (unat sa)) = replicate (ssz - k * 68) 0" using assms(5) [OF i] sa(2) t by simp
    obtain w where w: "DSK_readoff_sectors sa (int (k * 68)) (replicate 68 0) (int 68) 1 t = Some ((1, replicate 68 0), t\<lparr>world := w\<rparr>)"
      "wf w" "secs w = secs (world t)"
      using zero_read [OF z sa(3), of 68] t by blast
    have "je_of_bytes (unpack_bytes (replicate 68 0)) = journal_zero"
      using unpack_bytes_zeros [of 34] by (simp add: journal_zero_def sizeof_journal_entry_def del: replicate.simps)
    then have "read_journal_copy (int k) e0 fi (int i) t = Some ((1, journal_zero), t\<lparr>world := w\<rparr>)"
      using sa(1) w(1) by (simp add: read_journal_copy_def Let_def jr_offset [OF assms(2)] sizeof_journal_entry_def del: replicate.simps)
    then show ?thesis using w t by auto
  qed
  from read_journal_same [of fi ?P "int k" 0 journal_zero s e0, OF this] show ?thesis using assms by (auto simp: jr_geom_def)
qed

end

section \<open>Adding and solving\<close>

definition jr_ready :: "'w read_fun \<Rightarrow> 'w write_fun \<Rightarrow> ('w \<Rightarrow> bool) \<Rightarrow> ('w \<Rightarrow> nat \<Rightarrow> byte list) \<Rightarrow> nat \<Rightarrow> nat \<Rightarrow>
    fat_data \<Rightarrow> ('w, 'z) journal_state_scheme \<Rightarrow> bool" where
  "jr_ready rd wr good secs nsec ssz fi s = (block_device rd wr good secs nsec ssz \<and> jr_geom fi nsec ssz \<and>
     dsk_ready rd wr ssz s \<and> good (world s) \<and> journal_lock s = NULL_LOCK)"

text \<open>The slot of the \<open>t\<close>-th probe: the counter is one byte wide and wraps.\<close>

definition jr_probe :: "fat_data \<Rightarrow> ('w, 'z) journal_state_scheme \<Rightarrow> nat \<Rightarrow> nat" where
  "jr_probe fi s t = unat (journal_index s + of_nat t) mod journal_capacity fi"

lemma lock_journal_null [wp, simp]:
  "journal_lock s = NULL_LOCK \<Longrightarrow> lock_journal s = Some (1, s\<lparr>journal_lock := HELD\<rparr>)"
  by (simp add: lock_journal_def)

lemma unlock_journal_held [wp, simp]:
  "journal_lock s = HELD \<Longrightarrow> unlock_journal s = Some (1, s\<lparr>journal_lock := NULL_LOCK\<rparr>)"
  by (simp add: unlock_journal_def)

lemma dsk_ready_journal [simp]:
  "dsk_ready rd wr ssz (s\<lparr>journal_lock := l\<rparr>) = dsk_ready rd wr ssz s"
  "dsk_ready rd wr ssz (s\<lparr>journal_index := i\<rparr>) = dsk_ready rd wr ssz s"
  by (simp_all add: dsk_ready_def)

lemma add_operation_loop_ok:
  assumes dev: "block_device rd wr good secs nsec ssz" and g: "jr_geom fi nsec ssz" and e: "je_fits e" and cap: "journal_capacity fi \<noteq> 0"
  shows "d < n \<Longrightarrow> dsk_ready rd wr ssz s \<Longrightarrow> good (world s) \<Longrightarrow>
    (\<forall>t \<le> d. rep_fits ssz 68 (jr_probe fi s t) \<and>
      (\<forall>j < unat (journals_count fi). je_checksum (jr_entry fi ssz (secs (world s)) (jr_probe fi s t) j) = 0)) \<Longrightarrow>
    (\<forall>t < d. je_op (jr_entry fi ssz (secs (world s)) (jr_probe fi s t) 0) \<noteq> NO_OP) \<Longrightarrow>
    je_op (jr_entry fi ssz (secs (world s)) (jr_probe fi s d) 0) = NO_OP \<Longrightarrow>
    \<exists>w. add_operation_loop n e fi s = Some (int (jr_probe fi s d), s\<lparr>journal_index := journal_index s + of_nat (Suc d), world := w\<rparr>) \<and> good w \<and>
      (\<forall>j < unat (journals_count fi). jr_entry fi ssz (secs w) (jr_probe fi s d) j = e) \<and>
      (\<forall>l. rep_fits ssz 68 l \<and> l \<noteq> jr_probe fi s d \<longrightarrow>
        (\<forall>j < unat (journals_count fi). jr_entry fi ssz (secs w) l j = jr_entry fi ssz (secs (world s)) l j))"
proof (induction n arbitrary: s d)
  case (Suc n)
  let ?s1 = "s\<lparr>journal_index := journal_index s + 1\<rparr>" and ?k = "jr_probe fi s 0"
  have k0: "unat (journal_index s) mod journal_capacity fi = ?k" by (simp add: jr_probe_def)
  have fit: "rep_fits ssz 68 ?k" and sums: "\<And>j. j < unat (journals_count fi) \<Longrightarrow> je_checksum (jr_entry fi ssz (secs (world ?s1)) ?k j) = 0"
    using Suc.prems(4) by auto
  have r1: "dsk_ready rd wr ssz ?s1" "good (world ?s1)" using Suc.prems by simp_all
  obtain w where w: "read_journal (int ?k) (stack_journal s) fi ?s1 = Some ((1, jr_entry fi ssz (secs (world s)) ?k 0), ?s1\<lparr>world := w\<rparr>)"
    "good w" "secs w = secs (world s)"
    using block_device.read_journal_ok [OF dev g fit r1 sums, of "stack_journal s"] by auto
  let ?s2 = "?s1\<lparr>world := w\<rparr>"
  have r2: "dsk_ready rd wr ssz ?s2" "good (world ?s2)" using r1 w(2) by simp_all
  show ?case
  proof (cases d)
    case 0
    obtain v where v: "write_journal (int ?k) e fi ?s2 = Some (1, ?s2\<lparr>world := v\<rparr>)" "good v"
      "\<forall>j < unat (journals_count fi). jr_entry fi ssz (secs v) ?k j = e"
      "\<forall>l. rep_fits ssz 68 l \<and> l \<noteq> ?k \<longrightarrow> (\<forall>j < unat (journals_count fi). jr_entry fi ssz (secs v) l j = jr_entry fi ssz (secs w) l j)"
      using block_device.write_journal_ok [OF dev g fit e r2] by auto
    have "add_operation_loop (Suc n) e fi s = Some (int ?k, ?s2\<lparr>world := v\<rparr>)"
      using w(1) v(1) Suc.prems(6) cap 0 by (simp add: Let_def k0)
    then show ?thesis using v(2-4) w(3) 0 by (intro exI [of _ v]) simp
  next
    case (Suc d')
    have shift: "jr_probe fi ?s2 t = jr_probe fi s (Suc t)" for t by (simp add: jr_probe_def add.assoc)
    have busy: "je_op (jr_entry fi ssz (secs (world s)) ?k 0) \<noteq> NO_OP" using Suc.prems(5) Suc by simp
    have "\<exists>v. add_operation_loop n e fi ?s2 = Some (int (jr_probe fi ?s2 d'), ?s2\<lparr>journal_index := journal_index ?s2 + of_nat (Suc d'), world := v\<rparr>) \<and> good v \<and>
      (\<forall>j < unat (journals_count fi). jr_entry fi ssz (secs v) (jr_probe fi ?s2 d') j = e) \<and>
      (\<forall>l. rep_fits ssz 68 l \<and> l \<noteq> jr_probe fi ?s2 d' \<longrightarrow>
        (\<forall>j < unat (journals_count fi). jr_entry fi ssz (secs v) l j = jr_entry fi ssz (secs (world ?s2)) l j))"
      using Suc.prems Suc r2 w(3) by (intro Suc.IH) (simp_all add: shift)
    then obtain v where v: "add_operation_loop n e fi ?s2 = Some (int (jr_probe fi ?s2 d'), ?s2\<lparr>journal_index := journal_index ?s2 + of_nat (Suc d'), world := v\<rparr>)" "good v"
      "\<forall>j < unat (journals_count fi). jr_entry fi ssz (secs v) (jr_probe fi ?s2 d') j = e"
      "\<forall>l. rep_fits ssz 68 l \<and> l \<noteq> jr_probe fi ?s2 d' \<longrightarrow>
        (\<forall>j < unat (journals_count fi). jr_entry fi ssz (secs v) l j = jr_entry fi ssz (secs (world ?s2)) l j)" by blast
    have "add_operation_loop (Suc n) e fi s = Some (int (jr_probe fi s d), s\<lparr>journal_index := journal_index s + of_nat (Suc d), world := v\<rparr>)"
      using w(1) v(1) busy cap Suc by (simp add: Let_def k0 shift add.assoc)
    then show ?thesis using v(2-4) w(3) Suc by (intro exI [of _ v]) (simp add: shift)
  qed
qed simp

section \<open>Replay\<close>

definition jr_blank :: "('w \<Rightarrow> nat \<Rightarrow> byte list) \<Rightarrow> nat \<Rightarrow> fat_data \<Rightarrow> 'w \<Rightarrow> bool" where
  "jr_blank secs ssz fi w = (\<forall>j < unat (journals_count fi). secs w (jr_at fi j) = replicate ssz 0)"

lemma restore_step_blank:
  assumes "block_device rd wr good secs nsec ssz" "jr_geom fi nsec ssz" "dsk_ready rd wr ssz s" "good (world s)" "jr_blank secs ssz fi (world s)"
  shows "\<exists>w. read_journal (uint (journal_index s)) (stack_journal s) fi s = Some ((1, journal_zero), s\<lparr>world := w\<rparr>) \<and> good w \<and> secs w = secs (world s)"
proof -
  have "unat (journal_index s) * 68 < 2 ^ 31" using unsigned_less [of "journal_index s", where ?'a = nat] by simp
  from block_device.read_journal_blank [OF assms(1,2) this assms(3,4), of "stack_journal s"] show ?thesis
    using assms(5) by (simp add: jr_blank_def)
qed

lemma restore_loop_blank:
  assumes dev: "block_device rd wr good secs nsec ssz" and g: "jr_geom fi nsec ssz" and cap: "journal_capacity fi \<le> 255"
  shows "n = journal_capacity fi - unat (journal_index s) \<Longrightarrow> unat (journal_index s) \<le> journal_capacity fi \<Longrightarrow> dsk_ready rd wr ssz s \<Longrightarrow>
    good (world s) \<Longrightarrow> jr_blank secs ssz fi (world s) \<Longrightarrow>
    \<exists>w. restore_loop fi s = Some (1, s\<lparr>journal_index := of_nat (journal_capacity fi), world := w\<rparr>) \<and> good w \<and> secs w = secs (world s)"
proof (induction n arbitrary: s)
  case 0
  then have "unat (journal_index s) = journal_capacity fi" by simp
  then have "of_nat (journal_capacity fi) = journal_index s" by (metis of_nat_unat ucast_id)
  then show ?case using 0 by (intro exI [of _ "world s"]) (simp add: restore_loop.simps)
next
  case (Suc n)
  have lt: "unat (journal_index s) < journal_capacity fi" using Suc.prems(1) by simp
  obtain w where w: "read_journal (uint (journal_index s)) (stack_journal s) fi s = Some ((1, journal_zero), s\<lparr>world := w\<rparr>)" "good w" "secs w = secs (world s)"
    using restore_step_blank [OF dev g Suc.prems(3-5)] by blast
  let ?s = "s\<lparr>world := w, journal_index := journal_index s + 1\<rparr>"
  have next_index: "unat (journal_index s + 1) = unat (journal_index s) + 1" using lt cap by (simp add: unat_word_ariths)
  have "restore_loop fi s = restore_loop fi ?s" using lt w(1) by (subst restore_loop.simps) simp
  moreover have "n = journal_capacity fi - unat (journal_index ?s)" "unat (journal_index ?s) \<le> journal_capacity fi" "dsk_ready rd wr ssz ?s"
      "good (world ?s)" "jr_blank secs ssz fi (world ?s)"
    using Suc.prems w(2,3) next_index lt by (simp_all add: jr_blank_def)
  from Suc.IH [OF this] obtain v where "restore_loop fi ?s = Some (1, ?s\<lparr>journal_index := of_nat (journal_capacity fi), world := v\<rparr>)" "good v" "secs v = secs (world ?s)"
    by blast
  ultimately show ?case using w(3) by (intro exI [of _ v]) simp
qed

lemma restore_loop_trapped:
  assumes dev: "block_device rd wr good secs nsec ssz" and g: "jr_geom fi nsec ssz" and cap: "255 < journal_capacity fi"
    and s: "dsk_ready rd wr ssz s" "good (world s)" "jr_blank secs ssz fi (world s)"
  shows "restore_loop fi s = None"
proof (rule ccontr)
  assume "restore_loop fi s \<noteq> None"
  then obtain r where r: "restore_loop fi s = Some r" by blast
  let ?P = "\<lambda>fi' t (r :: int \<times> ('a, 'b) journal_state_scheme). fi' = fi \<longrightarrow> \<not> (dsk_ready rd wr ssz t \<and> good (world t) \<and> jr_blank secs ssz fi (world t))"
  have "?P fi s r"
  proof (rule restore_loop.raw_induct [where P = ?P, OF _ r])
    fix f fi' and t :: "('a, 'b) journal_state_scheme" and r'
    assume IH: "\<And>fi' t r. f fi' t = Some r \<Longrightarrow> ?P fi' t r"
      and run: "(if unat (journal_index t) < journal_capacity fi' then do {
       ((_, e), s) \<leftarrow> read_journal (uint (journal_index t)) (stack_journal t) fi' t;
       if je_op e = NO_OP then f fi' (s\<lparr>journal_index := journal_index s + 1\<rparr>)
       else do {
         let restored = unsqueeze_entry (je_entry e) (stack_word s);
         (_, s) \<leftarrow> replay_entry e restored fi' s;
         (_, s) \<leftarrow> write_journal (uint (journal_index s)) (e\<lparr>je_op := NO_OP\<rparr>) fi' s;
         f fi' (s\<lparr>journal_index := journal_index s + 1\<rparr>) } }
     else Some (1, t)) = Some r'"
    show "?P fi' t r'"
    proof (intro impI notI)
      assume fi: "fi' = fi" and t: "dsk_ready rd wr ssz t \<and> good (world t) \<and> jr_blank secs ssz fi (world t)"
      have lt: "unat (journal_index t) < journal_capacity fi" using cap unsigned_less [of "journal_index t", where ?'a = nat] by simp
      obtain w where w: "read_journal (uint (journal_index t)) (stack_journal t) fi t = Some ((1, journal_zero), t\<lparr>world := w\<rparr>)" "good w" "secs w = secs (world t)"
        using restore_step_blank [OF dev g] t by blast
      have "f fi (t\<lparr>world := w, journal_index := journal_index t + 1\<rparr>) = Some r'" using run fi lt w(1) by simp
      from IH [OF this] show False using t w(2,3) by (auto simp: jr_blank_def)
    qed
  qed
  then show False using s by simp
qed

section \<open>A small volume\<close>

definition jr_vol :: "u32 \<Rightarrow> fat_data" where
  "jr_vol csize = fat_data_zero\<lparr>total_sectors := 4096, journals_count := 2, cluster_size := csize, bytes_per_sector := 512\<rparr>"

definition jr_start :: "byte \<Rightarrow> (nat \<Rightarrow> byte list) journal_state" where
  "jr_start i = mem_start \<lparr>errors_lock = NULL_LOCK, errors_ring = \<lparr>first_error = 1, err_current = 1, last_error = 1\<rparr>,
     bitmap = None, fatmap_lock = NULL_LOCK, fat_cache = None, fat_lock = NULL_LOCK, allocater_lock = NULL_LOCK,
     last_allocated_cluster = 2, journal_index = i, journal_lock = NULL_LOCK, stack_journal = journal_zero, stack_word = 0\<rparr>"

lemma jr_vol_simps [simp]: "journals_count (jr_vol c) = 2" "total_sectors (jr_vol c) = 4096" "cluster_size (jr_vol c) = c"
  by (simp_all add: jr_vol_def fat_data_zero_def)

lemma jr_start_simps [simp]: "journal_lock (jr_start i) = NULL_LOCK" "journal_index (jr_start i) = i" "world (jr_start i) = (\<lambda>_. replicate 512 0)"
  by (simp_all add: jr_start_def mem_start_def)

lemma jr_start_ready: "jr_ready mem_read mem_write mem_ok (\<lambda>w. w) 4096 512 (jr_vol c) (jr_start i)"
proof -
  have "jr_at (jr_vol c) 0 < 4096" "jr_at (jr_vol c) 1 < 4096"
    by (simp_all add: jr_at_def GET_JOURNALSECTOR_def JOURNAL_MULTIPLIER_def umod_def)
  then have "jr_geom (jr_vol c) 4096 512" by (simp add: jr_geom_def less_2_cases_iff)
  moreover have "dsk_ready mem_read mem_write 512 (jr_start i)" by (simp add: jr_start_def)
  ultimately show ?thesis using mem.block_device_axioms by (simp add: jr_ready_def)
qed

lemma jr_start_blank: "jr_blank (\<lambda>w. w) 512 (jr_vol c) (world (jr_start i))"
  by (simp add: jr_blank_def)

lemma jr_start_entry: "rep_fits 512 68 k \<Longrightarrow> jr_entry (jr_vol c) 512 (\<lambda>_. replicate 512 0) k j = journal_zero"
proof -
  assume k: "rep_fits 512 68 k"
  then have "rep_slot (jr_at (jr_vol c)) 512 68 (\<lambda>_. replicate 512 0) k j = replicate 68 0"
    by (simp add: rep_slot_def slot_def rep_loc_place(2) rep_fits_def min_def)
  then show ?thesis using unpack_bytes_zeros [of 34]
    by (simp add: jr_entry_def journal_zero_def sizeof_journal_entry_def del: replicate.simps)
qed

section \<open>Properties\<close>



text \<open>C31 (the first copy always wins). When the checksum fields of all copies of a slot agree, as they do
  for every entry the driver writes (it never fills the field in and stores 0), \<open>read_journal\<close> returns the entry of
  the first copy, whatever the other copies hold: the vote cannot outvote a damaged first copy. When the
  field they agree on has all bits set, no copy becomes the candidate and the read fails. Either way no
  sector changes.\<close>

theorem journal_first_copy_wins:
  assumes "jr_ready rd wr good secs nsec ssz fi s" and "rep_fits ssz 68 k"
    and "\<And>j. j < unat (journals_count fi) \<Longrightarrow> je_checksum (jr_entry fi ssz (secs (world s)) k j) = x"
  shows "\<exists>w. read_journal (int k) e0 fi s =
      Some (if x = -1 then (0, e0) else (1, jr_entry fi ssz (secs (world s)) k 0), s\<lparr>world := w\<rparr>) \<and>
    secs w = secs (world s)"
proof (cases "x = -1")
  case True
  then show ?thesis using block_device.read_journal_none [of rd wr good secs nsec ssz fi k s e0] assms by (auto simp: jr_ready_def)
next
  case False
  then show ?thesis using block_device.read_journal_ok [of rd wr good secs nsec ssz fi k s x e0] assms by (auto simp: jr_ready_def)
qed

text \<open>Slot 2 with an operation in the first of two copies and nothing in the second, as after a write
  that was cut off.\<close>

definition cut_off :: journal_entry where
  "cut_off = journal_zero\<lparr>je_op := ADD_OP\<rparr>"

definition jr_torn :: "byte \<Rightarrow> (nat \<Rightarrow> byte list) journal_state" where
  "jr_torn i = (jr_start i)\<lparr>world := put_slot 512 (\<lambda>_. replicate 512 0) (rep_loc (jr_at (jr_vol 544)) 512 68 2 0)
     (pack_bytes (bytes_of_je cut_off))\<rparr>"

lemma jr_torn_ready: "jr_ready mem_read mem_write mem_ok (\<lambda>w. w) 4096 512 (jr_vol 544) (jr_torn i)"
proof -
  have f: "rep_fits 512 68 2" "je_fits cut_off" using je_fits_zero by (simp_all add: rep_fits_def cut_off_def je_fits_def)
  have "mem_ok (world (jr_torn i))"
    using rep_loc_place [OF f(1), of "jr_at (jr_vol 544)" 0] f(2)
    by (auto simp: jr_torn_def mem_ok_def put_slot_def sizeof_journal_entry_def)
  then show ?thesis using jr_start_ready [of 544 i] by (simp add: jr_ready_def jr_torn_def)
qed

lemma jr_torn_entries:
  "jr_entry (jr_vol 544) 512 (world (jr_torn i)) 2 0 = cut_off" "jr_entry (jr_vol 544) 512 (world (jr_torn i)) 2 1 = journal_zero"
proof -
  let ?at = "jr_at (jr_vol 544)" and ?d = "pack_bytes (bytes_of_je cut_off)"
  have f: "rep_fits 512 68 2" "je_fits cut_off" using je_fits_zero by (simp_all add: rep_fits_def cut_off_def je_fits_def)
  have d: "length ?d = 68" using f(2) by (simp add: sizeof_journal_entry_def)
  have ne: "?at 1 \<noteq> ?at 0" by (simp add: jr_at_def GET_JOURNALSECTOR_def JOURNAL_MULTIPLIER_def umod_def)
  have l: "length (replicate 512 (0 :: byte)) = 512" by simp
  show "jr_entry (jr_vol 544) 512 (world (jr_torn i)) 2 0 = cut_off"
    using rep_slot_put_same [where at = ?at and i = 0 and j = 0, OF f(1) l d refl] je_of_bytes_of_je [OF f(2)]
    by (simp add: jr_torn_def jr_entry_def)
  show "jr_entry (jr_vol 544) 512 (world (jr_torn i)) 2 1 = journal_zero"
    using rep_slot_put_other [where at = ?at and i = 0 and j = 1, OF f(1) f(1) l d] ne jr_start_entry [OF f(1), of 544 1]
    by (simp add: jr_torn_def jr_entry_def)
qed

theorem journal_first_copy_wins_witness:
  "read_journal 2 journal_zero (jr_vol 544) (jr_torn 9) = Some ((1, cut_off), jr_torn 9) \<and>
   jr_entry (jr_vol 544) 512 (world (jr_torn 9)) 2 1 = journal_zero \<and> cut_off \<noteq> journal_zero"
proof -
  have f: "rep_fits 512 68 2" and ne: "je_op cut_off \<noteq> je_op journal_zero"
    by (simp_all add: rep_fits_def cut_off_def ADD_OP_def NO_OP_def)
  have "je_checksum (jr_entry (jr_vol 544) 512 (world (jr_torn 9)) 2 j) = 0" if "j < unat (journals_count (jr_vol 544))" for j
    using that jr_torn_entries [of 9] by (auto simp: less_2_cases_iff cut_off_def)
  from journal_first_copy_wins [OF jr_torn_ready [of 9] f, of 0 journal_zero, OF this] show ?thesis
    using ne jr_torn_entries [of 9] by auto
qed

text \<open>C32 (replay of an empty journal). With at most 255 slots \<open>restore_from_journal\<close> of an empty journal
  scans it, returns 1 and changes no sector; with more slots, that is from a cluster size of 17408 bytes on, the
  one-byte counter of the scan never reaches the end and mounting does not return.\<close>

theorem restore_blank_or_diverges:
  assumes "jr_ready rd wr good secs nsec ssz fi s" and "jr_blank secs ssz fi (world s)"
  shows "if journal_capacity fi \<le> 255
    then \<exists>s'. restore_from_journal fi s = Some (1, s') \<and> jr_ready rd wr good secs nsec ssz fi s' \<and>
      journal_index s' = 0 \<and> secs (world s') = secs (world s)
    else restore_from_journal fi s = None"
proof -
  let ?s = "s\<lparr>journal_lock := HELD, journal_index := 0\<rparr>"
  have dev: "block_device rd wr good secs nsec ssz" and g: "jr_geom fi nsec ssz" and l: "journal_lock s = NULL_LOCK"
    and r: "dsk_ready rd wr ssz ?s" "good (world ?s)" "jr_blank secs ssz fi (world ?s)"
    using assms by (simp_all add: jr_ready_def)
  have n: "journals_count fi \<noteq> 0" using g by (simp add: jr_geom_def)
  show ?thesis
  proof (cases "journal_capacity fi \<le> 255")
    case True
    obtain w where w: "restore_loop fi ?s = Some (1, ?s\<lparr>journal_index := of_nat (journal_capacity fi), world := w\<rparr>)" "good w" "secs w = secs (world s)"
      using restore_loop_blank [OF dev g True refl _ r] by auto
    then have "restore_from_journal fi s = Some (1, s\<lparr>journal_lock := NULL_LOCK, journal_index := 0, world := w\<rparr>)"
      using n l by (simp add: restore_from_journal_def)
    then show ?thesis using True w(2,3) dev g r(1) by (simp add: jr_ready_def)
  next
    case False
    then have "restore_loop fi ?s = None" using restore_loop_trapped [OF dev g _ r] by simp
    then show ?thesis using False n l by (simp add: restore_from_journal_def)
  qed
qed

theorem restore_blank_or_diverges_witness:
  "(\<exists>s'. restore_from_journal (jr_vol 512) (jr_start 5) = Some (1, s') \<and> jr_ready mem_read mem_write mem_ok (\<lambda>w. w) 4096 512 (jr_vol 512) s' \<and>
      journal_index s' = 0 \<and> world s' = (\<lambda>_. replicate 512 0)) \<and>
   restore_from_journal (jr_vol 32768) (jr_start 5) = None"
proof -
  have "journal_capacity (jr_vol 512) = 7" "journal_capacity (jr_vol 32768) = 481"
    by (simp_all add: journal_capacity_def sizeof_journal_entry_def sizeof_encoded_def)
  then show ?thesis
    using restore_blank_or_diverges [OF jr_start_ready [of 512 5] jr_start_blank] restore_blank_or_diverges [OF jr_start_ready [of 32768 5] jr_start_blank]
    by simp
qed

end
