(* ===== verification/Etree.thy ===== *)
theory Etree
  imports Ecache Jlog "HOL-Library.Tree"
begin

text \<open>
  What the directory index is: the nodes reachable from a root represent a binary tree, with the
  parent pointers its tree structure determines. A place in the tree is a subtree and the path above
  it, so that rotations, recolouring and linking are rewritings of a subtree in its context. Insertion
  keeps the red-black tree and adds one key; search is lookup; freeing releases every node.
\<close>

unbundle bit_operations_syntax

section \<open>Trees in the heap\<close>

record cell =
  ad :: nat
  fl :: "3 word"
  ky :: u32
  tgt :: u32

definition mk :: "cell \<Rightarrow> nat option \<Rightarrow> nat option \<Rightarrow> nat option \<Rightarrow> ecache_t" where
  "mk v q l r = \<lparr>ec_p = q, ec_l = l, ec_r = r, ec_flags = fl v, ec_hash = ky v, ec_ca = tgt v\<rparr>"

definition blk :: "cell \<Rightarrow> bool" where "blk v = (fl v AND ECACHE_BLACK \<noteq> 0)"

definition strip :: "cell \<Rightarrow> cell" where "strip v = v\<lparr>fl := fl v AND NOT ECACHE_BLACK\<rparr>"

definition paint :: "bool \<Rightarrow> cell \<Rightarrow> cell" where
  "paint b v = v\<lparr>fl := if b then fl v OR ECACHE_BLACK else fl v AND NOT ECACHE_BLACK\<rparr>"

fun rp :: "cell tree \<Rightarrow> nat option" where
  "rp Leaf = None"
| "rp (Node l v r) = Some (ad v)"

abbreviation addrs :: "cell tree \<Rightarrow> nat set" where "addrs t \<equiv> ad ` set_tree t"

fun tr_at :: "eheap \<Rightarrow> nat option \<Rightarrow> cell tree \<Rightarrow> bool" where
  "tr_at h q Leaf = True"
| "tr_at h q (Node l v r) = (h (ad v) = Some (mk v q (rp l) (rp r)) \<and> tr_at h (Some (ad v)) l \<and> tr_at h (Some (ad v)) r)"

text \<open>A path from a place up to the root: at each node whether the place is below its left child, the
  node and its other subtree.\<close>

type_synonym path = "(bool \<times> cell \<times> cell tree) list"

fun plug :: "cell tree \<Rightarrow> path \<Rightarrow> cell tree" where
  "plug t [] = t"
| "plug t ((d, v, s) # c) = plug (if d then Node t v s else Node s v t) c"

fun cp :: "path \<Rightarrow> nat option" where
  "cp [] = None"
| "cp ((d, v, s) # c) = Some (ad v)"

fun croot :: "nat option \<Rightarrow> path \<Rightarrow> nat option" where
  "croot p [] = p"
| "croot p ((d, v, s) # c) = croot (Some (ad v)) c"

fun caddrs :: "path \<Rightarrow> nat set" where
  "caddrs [] = {}"
| "caddrs ((d, v, s) # c) = insert (ad v) (addrs s \<union> caddrs c)"

fun ctx_at :: "eheap \<Rightarrow> nat option \<Rightarrow> path \<Rightarrow> bool" where
  "ctx_at h p [] = True"
| "ctx_at h p ((d, v, s) # c) = (h (ad v) = Some (mk v (cp c) (if d then p else rp s) (if d then rp s else p)) \<and>
     tr_at h (Some (ad v)) s \<and> ctx_at h (Some (ad v)) c)"

fun adist :: "cell tree \<Rightarrow> bool" where
  "adist Leaf = True"
| "adist (Node l v r) = (ad v \<notin> addrs l \<and> ad v \<notin> addrs r \<and> addrs l \<inter> addrs r = {} \<and> adist l \<and> adist r)"

fun cdist :: "path \<Rightarrow> bool" where
  "cdist [] = True"
| "cdist ((d, v, s) # c) = (ad v \<notin> addrs s \<and> ad v \<notin> caddrs c \<and> addrs s \<inter> caddrs c = {} \<and> adist s \<and> cdist c)"

definition rtree :: "eheap \<Rightarrow> cell tree \<Rightarrow> bool" where
  "rtree h t = (tr_at h None t \<and> adist t)"

lemma rp_plug [simp]: "rp (plug t c) = croot (rp t) c"
  by (induction t c rule: plug.induct) auto

lemma addrs_plug [simp]: "addrs (plug t c) = addrs t \<union> caddrs c"
  by (induction t c rule: plug.induct) auto

lemma adist_plug: "adist (plug t c) = (adist t \<and> cdist c \<and> addrs t \<inter> caddrs c = {})"
  by (induction t c rule: plug.induct) auto

lemma tr_at_plug: "tr_at h None (plug t c) = (tr_at h (cp c) t \<and> ctx_at h (rp t) c)"
  by (induction t c rule: plug.induct) auto

lemma rtree_plug: "rtree h (plug t c) = (tr_at h (cp c) t \<and> ctx_at h (rp t) c \<and> adist t \<and> cdist c \<and> addrs t \<inter> caddrs c = {})"
  by (auto simp: rtree_def adist_plug tr_at_plug)

lemma tr_at_upd [simp]: "a \<notin> addrs t \<Longrightarrow> tr_at (h(a := n)) q t = tr_at h q t"
  by (induction t arbitrary: q) auto

lemma ctx_at_upd [simp]: "a \<notin> caddrs c \<Longrightarrow> ctx_at (h(a := n)) p c = ctx_at h p c"
  by (induction h p c rule: ctx_at.induct) auto

lemma rp_not [simp]: "a \<notin> addrs t \<Longrightarrow> rp t \<noteq> Some a"
  by (cases t) auto

lemma mk_simps [simp]:
  "ec_p (mk v q l r) = q" "ec_l (mk v q l r) = l" "ec_r (mk v q l r) = r" "ec_hash (mk v q l r) = ky v" "ec_ca (mk v q l r) = tgt v"
  "ec_flags (mk v q l r) = fl v"
  "(mk v q l r)\<lparr>ec_p := q'\<rparr> = mk v q' l r" "(mk v q l r)\<lparr>ec_l := l'\<rparr> = mk v q l' r" "(mk v q l r)\<lparr>ec_r := r'\<rparr> = mk v q l r'"
  "IS_ECACHE_RED (mk v q l r) = (\<not> blk v)" "IS_ECACHE_BLACK (mk v q l r) = blk v"
  "SET_ECACHE_BLACK (mk v q l r) = mk (paint True v) q l r" "SET_ECACHE_RED (mk v q l r) = mk (paint False v) q l r"
  by (simp_all add: mk_def IS_ECACHE_RED_def IS_ECACHE_BLACK_def blk_def paint_def SET_ECACHE_BLACK_def SET_ECACHE_RED_def)

lemma black_bit: "ECACHE_BLACK = (1 :: 3 word)" by (simp add: ECACHE_BLACK_def)

lemma paint_simps [simp]: "ad (paint b v) = ad v" "ky (paint b v) = ky v" "tgt (paint b v) = tgt v" "blk (paint b v) = b" "strip (paint b v) = strip v"
proof -
  have "(w OR 1) AND - 2 = w AND - (2 :: 3 word)" "(w OR 1) AND 1 = (1 :: 3 word)" "(w AND - 2) AND 1 = (0 :: 3 word)" for w
    unfolding bit_eq_iff by (auto simp: bit_simps bit_minus_2_iff)
  then show "blk (paint b v) = b" "strip (paint b v) = strip v" by (simp_all add: blk_def paint_def strip_def black_bit)
qed (simp_all add: paint_def)

lemma strip_simps [simp]: "ad (strip v) = ad v" "ky (strip v) = ky v" "tgt (strip v) = tgt v"
  by (simp_all add: strip_def)

section \<open>Rewriting a place\<close>

text \<open>The heap changes inside a tree: the cells stay the same up to colour, in the same order, and nothing
  outside of the tree is touched.\<close>

definition same_cells :: "cell tree \<Rightarrow> cell tree \<Rightarrow> bool" where
  "same_cells t u = (map strip (inorder t) = map strip (inorder u))"

definition steps_to :: "eheap \<Rightarrow> cell tree \<Rightarrow> eheap \<Rightarrow> cell tree \<Rightarrow> bool" where
  "steps_to h t h' u = (rtree h' u \<and> same_cells t u \<and> (\<forall>a. a \<notin> addrs t \<longrightarrow> h' a = h a))"

lemma same_cells_addrs: "same_cells t u \<Longrightarrow> addrs u = addrs t"
proof -
  assume "same_cells t u"
  then have "map ad (map strip (inorder t)) = map ad (map strip (inorder u))" by (simp add: same_cells_def)
  then have "map ad (inorder t) = map ad (inorder u)" by (simp add: comp_def)
  then have "set (map ad (inorder t)) = set (map ad (inorder u))" by simp
  then show ?thesis by simp
qed

lemma same_cells_refl [simp]: "same_cells t t"
  by (simp add: same_cells_def)

lemma steps_to_refl: "rtree h t \<Longrightarrow> steps_to h t h t"
  by (simp add: steps_to_def)

lemma steps_to_trans [trans]: "steps_to h t h' u \<Longrightarrow> steps_to h' u h'' v \<Longrightarrow> steps_to h t h'' v"
  using same_cells_addrs [of t u] by (simp add: steps_to_def) (simp add: same_cells_def)

fun cbefore :: "path \<Rightarrow> cell list" where
  "cbefore [] = []"
| "cbefore ((d, v, s) # c) = cbefore c @ (if d then [] else inorder s @ [v])"

fun cafter :: "path \<Rightarrow> cell list" where
  "cafter [] = []"
| "cafter ((d, v, s) # c) = (if d then v # inorder s else []) @ cafter c"

lemma inorder_plug: "inorder (plug t c) = cbefore c @ inorder t @ cafter c"
  by (induction t c rule: plug.induct) auto

lemmas place_simps = rotate_left_def rotate_right_def deref_def set_node_def set_opt_def replace_child_def replace_child_right_def
  image_Un Int_Un_distrib Int_Un_distrib2 Int_commute

lemma rotate_left_ok:
  assumes "rtree h (plug (Node A x (Node B y C)) c)"
  shows "\<exists>h'. rotate_left (ad x) (h, croot (Some (ad x)) c) = Some (h', croot (Some (ad y)) c) \<and>
    steps_to h (plug (Node A x (Node B y C)) c) h' (plug (Node (Node A x B) y C) c)"
proof -
  note place = assms [unfolded rtree_plug]
  have same: "same_cells (plug (Node A x (Node B y C)) c) (plug (Node (Node A x B) y C) c)"
    by (simp add: same_cells_def inorder_plug)
  show ?thesis
  proof (cases c)
    case Nil
    show ?thesis using place same unfolding rtree_plug steps_to_def
      by (cases B) (simp_all add: Nil place_simps)
  next
    case (Cons f c')
    then obtain d v s where f: "f = (d, v, s)" by (cases f) auto
    show ?thesis using place same unfolding rtree_plug steps_to_def
      by (cases B; cases d) (simp_all add: Cons f place_simps)
  qed
qed

lemma rotate_right_ok:
  assumes "rtree h (plug (Node (Node A x B) y C) c)"
  shows "\<exists>h'. rotate_right (ad y) (h, croot (Some (ad y)) c) = Some (h', croot (Some (ad x)) c) \<and>
    steps_to h (plug (Node (Node A x B) y C) c) h' (plug (Node A x (Node B y C)) c)"
proof -
  note place = assms [unfolded rtree_plug]
  have same: "same_cells (plug (Node (Node A x B) y C) c) (plug (Node A x (Node B y C)) c)"
    by (simp add: same_cells_def inorder_plug)
  show ?thesis
  proof (cases c)
    case Nil
    show ?thesis using place same unfolding rtree_plug steps_to_def
      by (cases B) (simp_all add: Nil place_simps)
  next
    case (Cons f c')
    then obtain d v s where f: "f = (d, v, s)" by (cases f) auto
    show ?thesis using place same unfolding rtree_plug steps_to_def
      by (cases B; cases d) (simp_all add: Cons f place_simps)
  qed
qed

lemma paint_ok:
  assumes "rtree h (plug (Node l v r) c)"
  shows "set_node (ad v) SET_ECACHE_BLACK h = Some (h(ad v \<mapsto> mk (paint True v) (cp c) (rp l) (rp r)))"
    and "set_node (ad v) SET_ECACHE_RED h = Some (h(ad v \<mapsto> mk (paint False v) (cp c) (rp l) (rp r)))"
    and "steps_to h (plug (Node l v r) c) (h(ad v \<mapsto> mk (paint b v) (cp c) (rp l) (rp r))) (plug (Node l (paint b v) r) c)"
  using assms unfolding steps_to_def rtree_plug by (simp_all add: place_simps same_cells_def inorder_plug)

lemma recolour_ok:
  assumes "rtree h (plug t ((d1, p, s1) # (d2, g, Node sl y sr) # c))"
  shows "\<exists>h'. recolour_up (ad p) (ad y) (ad g) h = Some h' \<and>
    steps_to h (plug t ((d1, p, s1) # (d2, g, Node sl y sr) # c)) h'
      (plug t ((d1, paint True p, s1) # (d2, paint False g, Node sl (paint True y) sr) # c))"
proof -
  have same: "same_cells (plug t ((d1, p, s1) # (d2, g, Node sl y sr) # c))
      (plug t ((d1, paint True p, s1) # (d2, paint False g, Node sl (paint True y) sr) # c))"
    by (simp add: same_cells_def inorder_plug)
  note place = assms [unfolded rtree_plug]
  have d: "addrs (plug t ((d1, p, s1) # (d2, g, Node sl y sr) # c)) = addrs t \<union> caddrs ((d1, p, s1) # (d2, g, Node sl y sr) # c)"
    by (rule addrs_plug)
  show ?thesis using place same unfolding steps_to_def rtree_plug d
    by (simp add: place_simps recolour_up_def)
qed

section \<open>Red-black trees\<close>

fun col :: "cell tree \<Rightarrow> bool" where
  "col Leaf = True"
| "col (Node l v r) = blk v"

fun bh :: "cell tree \<Rightarrow> nat" where
  "bh Leaf = 0"
| "bh (Node l v r) = bh l + (if blk v then 1 else 0)"

fun rb :: "cell tree \<Rightarrow> bool" where
  "rb Leaf = True"
| "rb (Node l v r) = (rb l \<and> rb r \<and> bh l = bh r \<and> (\<not> blk v \<longrightarrow> col l \<and> col r))"

text \<open>A path accepts a subtree with a root of colour \<open>b\<close> and black height \<open>n\<close>; its topmost node, the root, is black.\<close>

fun fits :: "bool \<Rightarrow> nat \<Rightarrow> path \<Rightarrow> bool" where
  "fits b n [] = True"
| "fits b n ((d, v, s) # c) = (rb s \<and> bh s = n \<and> (\<not> blk v \<longrightarrow> b \<and> col s \<and> c \<noteq> []) \<and>
     fits (blk v) (if blk v then Suc n else n) c)"

lemma rb_plug: "fits (col t) (bh t) c \<Longrightarrow> rb t \<Longrightarrow> rb (plug t c)"
  by (induction t c rule: plug.induct) (auto split: if_splits)

lemma fits_black: "fits b n c \<Longrightarrow> fits True n c"
  by (cases "(b, n, c)" rule: fits.cases) auto

lemma fix_insert_done:
  assumes "rtree h (plug (Node l v r) c)" and "case c of [] \<Rightarrow> True | (d, p, s) # c' \<Rightarrow> blk p"
  shows "fix_insert_loop (ad v) (h, croot (Some (ad v)) c) = Some (h, croot (Some (ad v)) c)"
  using assms(1) [unfolded rtree_plug] assms(2)
  by (subst fix_insert_loop.simps) (simp add: node_red_def split: list.splits prod.splits)

text \<open>The last rotation: the grandparent moves below its black-painted child.\<close>

lemma outer_right_ok:
  assumes "rtree h (plug (Node (Node t p s) g u) c)"
  shows "\<exists>h1 h2 h'. set_node (ad p) SET_ECACHE_BLACK h = Some h1 \<and> set_node (ad g) SET_ECACHE_RED h1 = Some h2 \<and>
    rotate_right (ad g) (h2, croot (Some (ad g)) c) = Some (h', croot (Some (ad p)) c) \<and>
    steps_to h (plug (Node (Node t p s) g u) c) h' (plug (Node t (paint True p) (Node s (paint False g) u)) c)"
proof -
  have "rtree h (plug (Node t p s) ((True, g, u) # c))" using assms by simp
  from paint_ok(1,3) [OF this] obtain h1 where 1: "set_node (ad p) SET_ECACHE_BLACK h = Some h1"
    "steps_to h (plug (Node (Node t p s) g u) c) h1 (plug (Node (Node t (paint True p) s) g u) c)" by simp
  then have "rtree h1 (plug (Node (Node t (paint True p) s) g u) c)" by (simp add: steps_to_def)
  from paint_ok(2,3) [OF this] obtain h2 where 2: "set_node (ad g) SET_ECACHE_RED h1 = Some h2"
    "steps_to h1 (plug (Node (Node t (paint True p) s) g u) c) h2 (plug (Node (Node t (paint True p) s) (paint False g) u) c)" by blast
  then have "rtree h2 (plug (Node (Node t (paint True p) s) (paint False g) u) c)" by (simp add: steps_to_def)
  from rotate_right_ok [OF this] obtain h' where "rotate_right (ad g) (h2, croot (Some (ad g)) c) = Some (h', croot (Some (ad p)) c)"
    "steps_to h2 (plug (Node (Node t (paint True p) s) (paint False g) u) c) h' (plug (Node t (paint True p) (Node s (paint False g) u)) c)" by auto
  with 1 2 steps_to_trans show ?thesis by blast
qed

lemma outer_left_ok:
  assumes "rtree h (plug (Node u g (Node s p t)) c)"
  shows "\<exists>h1 h2 h'. set_node (ad p) SET_ECACHE_BLACK h = Some h1 \<and> set_node (ad g) SET_ECACHE_RED h1 = Some h2 \<and>
    rotate_left (ad g) (h2, croot (Some (ad g)) c) = Some (h', croot (Some (ad p)) c) \<and>
    steps_to h (plug (Node u g (Node s p t)) c) h' (plug (Node (Node u (paint False g) s) (paint True p) t) c)"
proof -
  have "rtree h (plug (Node s p t) ((False, g, u) # c))" using assms by simp
  from paint_ok(1,3) [OF this] obtain h1 where 1: "set_node (ad p) SET_ECACHE_BLACK h = Some h1"
    "steps_to h (plug (Node u g (Node s p t)) c) h1 (plug (Node u g (Node s (paint True p) t)) c)" by simp
  then have "rtree h1 (plug (Node u g (Node s (paint True p) t)) c)" by (simp add: steps_to_def)
  from paint_ok(2,3) [OF this] obtain h2 where 2: "set_node (ad g) SET_ECACHE_RED h1 = Some h2"
    "steps_to h1 (plug (Node u g (Node s (paint True p) t)) c) h2 (plug (Node u (paint False g) (Node s (paint True p) t)) c)" by blast
  then have "rtree h2 (plug (Node u (paint False g) (Node s (paint True p) t)) c)" by (simp add: steps_to_def)
  from rotate_left_ok [OF this] obtain h' where "rotate_left (ad g) (h2, croot (Some (ad g)) c) = Some (h', croot (Some (ad p)) c)"
    "steps_to h2 (plug (Node u (paint False g) (Node s (paint True p) t)) c) h' (plug (Node (Node u (paint False g) s) (paint True p) t) c)" by auto
  with 1 2 steps_to_trans show ?thesis by blast
qed

lemma place_node:
  "rtree h (plug (Node l v r) c) \<Longrightarrow> h (ad v) = Some (mk v (cp c) (rp l) (rp r))"
  by (simp add: rtree_plug)

text \<open>Both rotations of one side, from the node the loop looks at.\<close>

lemma fix_rotate_right:
  assumes t: "rtree h (plug (Node l v r) ((d, p, s) # (True, g, u) # c))" and red: "\<not> blk p" and u: "col u"
  shows "\<exists>h' t'. fix_insert_loop (ad v) (h, croot (Some (ad v)) ((d, p, s) # (True, g, u) # c)) = Some (h', rp t') \<and>
    steps_to h (plug (Node l v r) ((d, p, s) # (True, g, u) # c)) h' t' \<and>
    t' = plug (if d then Node (Node l v r) (paint True p) (Node s (paint False g) u)
      else Node (Node s p l) (paint True v) (Node r (paint False g) u)) c"
proof -
  let ?root = "croot (Some (ad g)) c"
  have v: "h (ad v) = Some (mk v (Some (ad p)) (rp l) (rp r))" using place_node [OF t] by simp
  have p: "h (ad p) = Some (mk p (Some (ad g)) (if d then Some (ad v) else rp s) (if d then rp s else Some (ad v)))"
    and g: "h (ad g) = Some (mk g (cp c) (Some (ad p)) (rp u))" using t by (cases d; simp add: rtree_plug)+
  have uncle: "node_red h (rp u) = Some False"
    using t u by (cases u) (simp_all add: rtree_plug node_red_def)
  show ?thesis
  proof (cases d)
    case True
    have "rtree h (plug (Node (Node (Node l v r) p s) g u) c)" using t True by simp
    from outer_right_ok [OF this] obtain h1 h2 h' where o: "set_node (ad p) SET_ECACHE_BLACK h = Some h1" "set_node (ad g) SET_ECACHE_RED h1 = Some h2"
      "rotate_right (ad g) (h2, ?root) = Some (h', croot (Some (ad p)) c)"
      "steps_to h (plug (Node (Node (Node l v r) p s) g u) c) h' (plug (Node (Node l v r) (paint True p) (Node s (paint False g) u)) c)" by blast
    have "rtree h' (plug (Node l v r) ((True, paint True p, Node s (paint False g) u) # c))" using o(4) by (simp add: steps_to_def)
    from fix_insert_done [OF this] have fin: "fix_insert_loop (ad v) (h', croot (Some (ad p)) c) = Some (h', croot (Some (ad p)) c)" by simp
    have "ad v \<notin> addrs s" using t True by (auto simp: rtree_plug)
    then have "fix_insert_loop (ad v) (h, ?root) = Some (h', croot (Some (ad p)) c)"
      using v p g uncle o(1-3) red True fin
      by (subst fix_insert_loop.simps) (simp add: node_red_def [of h "Some (ad p)"] deref_def)
    then show ?thesis using o(4) True by simp
  next
    case False
    have "rtree h (plug (Node s p (Node l v r)) ((True, g, u) # c))" using t False by simp
    from rotate_left_ok [OF this] obtain h0 where o0: "rotate_left (ad p) (h, ?root) = Some (h0, ?root)"
      "steps_to h (plug (Node (Node s p (Node l v r)) g u) c) h0 (plug (Node (Node (Node s p l) v r) g u) c)" by auto
    then have t0: "rtree h0 (plug (Node (Node (Node s p l) v r) g u) c)" by (simp add: steps_to_def)
    from outer_right_ok [OF this] obtain h1 h2 h' where o: "set_node (ad v) SET_ECACHE_BLACK h0 = Some h1" "set_node (ad g) SET_ECACHE_RED h1 = Some h2"
      "rotate_right (ad g) (h2, ?root) = Some (h', croot (Some (ad v)) c)"
      "steps_to h0 (plug (Node (Node (Node s p l) v r) g u) c) h' (plug (Node (Node s p l) (paint True v) (Node r (paint False g) u)) c)" by blast
    have "rtree h' (plug (Node s p l) ((True, paint True v, Node r (paint False g) u) # c))" using o(4) by (simp add: steps_to_def)
    from fix_insert_done [OF this] have fin: "fix_insert_loop (ad p) (h', croot (Some (ad v)) c) = Some (h', croot (Some (ad v)) c)" by simp
    have p0: "h0 (ad p) = Some (mk p (Some (ad v)) (rp s) (rp l))" "h0 (ad v) = Some (mk v (Some (ad g)) (Some (ad p)) (rp r))"
      using t0 by (simp_all add: rtree_plug)
    have "fix_insert_loop (ad v) (h, ?root) = Some (h', croot (Some (ad v)) c)"
      using v p g uncle o0(1) o(1-3) p0 red False fin
      by (subst fix_insert_loop.simps) (simp add: node_red_def [of h "Some (ad p)"] deref_def)
    then show ?thesis using steps_to_trans [OF o0(2) o(4)] False by simp
  qed
qed

lemma fix_rotate_left:
  assumes t: "rtree h (plug (Node l v r) ((d, p, s) # (False, g, u) # c))" and red: "\<not> blk p" and u: "col u"
  shows "\<exists>h' t'. fix_insert_loop (ad v) (h, croot (Some (ad v)) ((d, p, s) # (False, g, u) # c)) = Some (h', rp t') \<and>
    steps_to h (plug (Node l v r) ((d, p, s) # (False, g, u) # c)) h' t' \<and>
    t' = plug (if d then Node (Node u (paint False g) l) (paint True v) (Node r p s)
      else Node (Node u (paint False g) s) (paint True p) (Node l v r)) c"
proof -
  let ?root = "croot (Some (ad g)) c"
  have v: "h (ad v) = Some (mk v (Some (ad p)) (rp l) (rp r))" using place_node [OF t] by simp
  have p: "h (ad p) = Some (mk p (Some (ad g)) (if d then Some (ad v) else rp s) (if d then rp s else Some (ad v)))"
    and g: "h (ad g) = Some (mk g (cp c) (rp u) (Some (ad p)))" using t by (cases d; simp add: rtree_plug)+
  have uncle: "node_red h (rp u) = Some False"
    using t u by (cases u) (simp_all add: rtree_plug node_red_def)
  have "ad p \<notin> addrs u" using t by (cases d; auto simp: rtree_plug)
  then have pu: "rp u \<noteq> Some (ad p)" by simp
  show ?thesis
  proof (cases d)
    case False
    have "rtree h (plug (Node u g (Node s p (Node l v r))) c)" using t False by simp
    from outer_left_ok [OF this] obtain h1 h2 h' where o: "set_node (ad p) SET_ECACHE_BLACK h = Some h1" "set_node (ad g) SET_ECACHE_RED h1 = Some h2"
      "rotate_left (ad g) (h2, ?root) = Some (h', croot (Some (ad p)) c)"
      "steps_to h (plug (Node u g (Node s p (Node l v r))) c) h' (plug (Node (Node u (paint False g) s) (paint True p) (Node l v r)) c)" by blast
    have "rtree h' (plug (Node l v r) ((False, paint True p, Node u (paint False g) s) # c))" using o(4) by (simp add: steps_to_def)
    from fix_insert_done [OF this] have fin: "fix_insert_loop (ad v) (h', croot (Some (ad p)) c) = Some (h', croot (Some (ad p)) c)" by simp
    have "ad v \<notin> addrs s" using t False by (auto simp: rtree_plug)
    then have "fix_insert_loop (ad v) (h, ?root) = Some (h', croot (Some (ad p)) c)"
      using v p g uncle pu o(1-3) red False fin
      by (subst fix_insert_loop.simps) (simp add: node_red_def [of h "Some (ad p)"] deref_def)
    then show ?thesis using o(4) False by simp
  next
    case True
    have "rtree h (plug (Node (Node l v r) p s) ((False, g, u) # c))" using t True by simp
    from rotate_right_ok [OF this] obtain h0 where o0: "rotate_right (ad p) (h, ?root) = Some (h0, ?root)"
      "steps_to h (plug (Node u g (Node (Node l v r) p s)) c) h0 (plug (Node u g (Node l v (Node r p s))) c)" by auto
    then have t0: "rtree h0 (plug (Node u g (Node l v (Node r p s))) c)" by (simp add: steps_to_def)
    from outer_left_ok [OF this] obtain h1 h2 h' where o: "set_node (ad v) SET_ECACHE_BLACK h0 = Some h1" "set_node (ad g) SET_ECACHE_RED h1 = Some h2"
      "rotate_left (ad g) (h2, ?root) = Some (h', croot (Some (ad v)) c)"
      "steps_to h0 (plug (Node u g (Node l v (Node r p s))) c) h' (plug (Node (Node u (paint False g) l) (paint True v) (Node r p s)) c)" by blast
    have "rtree h' (plug (Node r p s) ((False, paint True v, Node u (paint False g) l) # c))" using o(4) by (simp add: steps_to_def)
    from fix_insert_done [OF this] have fin: "fix_insert_loop (ad p) (h', croot (Some (ad v)) c) = Some (h', croot (Some (ad v)) c)" by simp
    have p0: "h0 (ad p) = Some (mk p (Some (ad v)) (rp r) (rp s))" "h0 (ad v) = Some (mk v (Some (ad g)) (rp l) (Some (ad p)))"
      using t0 by (simp_all add: rtree_plug)
    have "fix_insert_loop (ad v) (h, ?root) = Some (h', croot (Some (ad v)) c)"
      using v p g uncle pu o0(1) o(1-3) p0 red True fin
      by (subst fix_insert_loop.simps) (simp add: node_red_def [of h "Some (ad p)"] deref_def)
    then show ?thesis using steps_to_trans [OF o0(2) o(4)] True by simp
  qed
qed

lemma fix_insert_recolours:
  assumes t: "rtree h (plug (Node l v r) ((d, p, s) # (e, g, Node sl y sr) # c))" and red: "\<not> blk p" "\<not> blk y"
    and h: "recolour_up (ad p) (ad y) (ad g) h = Some h'"
  shows "fix_insert_loop (ad v) (h, croot (Some (ad g)) c) = fix_insert_loop (ad g) (h', croot (Some (ad g)) c)"
proof -
  have "h (ad v) = Some (mk v (Some (ad p)) (rp l) (rp r))" using place_node [OF t] by simp
  moreover have "h (ad p) = Some (mk p (Some (ad g)) (if d then Some (ad v) else rp s) (if d then rp s else Some (ad v)))" using t by (cases d; cases e; simp add: rtree_plug)
  moreover have "h (ad g) = Some (mk g (cp c) (Some (if e then ad p else ad y)) (Some (if e then ad y else ad p)))"
    using t by (cases d; cases e; simp add: rtree_plug)
  moreover have "h (ad y) = Some (mk y (Some (ad g)) (rp sl) (rp sr))" using t by (cases d; cases e; simp add: rtree_plug)
  moreover have "ad p \<noteq> ad y" using t by (cases d; cases e; simp add: rtree_plug)
  ultimately show ?thesis using red h
    by (subst fix_insert_loop.simps) (auto simp: node_red_def deref_def)
qed

text \<open>The loop from a red node whose parent may be red too.\<close>

lemma fix_insert_loop_ok:
  assumes "rtree h (plug (Node l v r) c)" and "\<not> blk v" and "rb (Node l v r)" and "fits True (bh l) c"
  shows "\<exists>h' t'. fix_insert_loop (ad v) (h, croot (Some (ad v)) c) = Some (h', rp t') \<and>
    steps_to h (plug (Node l v r) c) h' t' \<and> rb t'"
  using assms
proof (induction c arbitrary: h l v r rule: length_induct)
  case (1 c)
  note t = 1(2) and inv = 1(3-5)
  show ?case
  proof (cases "case c of [] \<Rightarrow> True | (d, p, s) # c' \<Rightarrow> blk p")
    case True
    have "fits (col (Node l v r)) (bh (Node l v r)) c"
      using inv True by (cases c) (auto split: prod.splits)
    then have "rb (plug (Node l v r) c)" using inv(2) by (rule rb_plug)
    with fix_insert_done [OF t True] show ?thesis
      using steps_to_refl [OF t] by (intro exI [of _ h] exI [of _ "plug (Node l v r) c"]) simp
  next
    case False
    then obtain d p s c' where c: "c = (d, p, s) # c'" and red: "\<not> blk p" by (auto split: list.splits)
    then obtain e g u c2 where c': "c' = (e, g, u) # c2" using inv(3) by (cases c') auto
    have g: "blk g" "col s" "rb s" "bh s = bh l" "rb u" "bh u = bh l" "fits True (Suc (bh l)) c2"
      using inv(3) red by (auto simp: c c' split: if_splits)
    have place: "rtree h (plug (Node l v r) ((d, p, s) # (e, g, u) # c2))" using t by (simp only: c c')
    show ?thesis
    proof (cases "col u")
      case True
      show ?thesis
      proof (cases e)
        case e: True
        let ?Y = "if d then Node (Node l v r) (paint True p) (Node s (paint False g) u)
          else Node (Node s p l) (paint True v) (Node r (paint False g) u)"
        have "rb ?Y" "fits (col ?Y) (bh ?Y) c2" using inv g red True by auto
        then have "rb (plug ?Y c2)" by (metis rb_plug)
        moreover have "rtree h (plug (Node l v r) ((d, p, s) # (True, g, u) # c2))" using place e by (simp only:)
        from fix_rotate_right [OF this red True] have "\<exists>h' t'. fix_insert_loop (ad v) (h, croot (Some (ad v)) c) = Some (h', rp t') \<and>
            steps_to h (plug (Node l v r) c) h' t' \<and> t' = plug ?Y c2"
          unfolding c c' using e by (simp only:)
        ultimately show ?thesis by blast
      next
        case e: False
        let ?Y = "if d then Node (Node u (paint False g) l) (paint True v) (Node r p s)
          else Node (Node u (paint False g) s) (paint True p) (Node l v r)"
        have "rb ?Y" "fits (col ?Y) (bh ?Y) c2" using inv g red True by auto
        then have "rb (plug ?Y c2)" by (metis rb_plug)
        moreover have "rtree h (plug (Node l v r) ((d, p, s) # (False, g, u) # c2))" using place e by (simp only:)
        from fix_rotate_left [OF this red True] have "\<exists>h' t'. fix_insert_loop (ad v) (h, croot (Some (ad v)) c) = Some (h', rp t') \<and>
            steps_to h (plug (Node l v r) c) h' t' \<and> t' = plug ?Y c2"
          unfolding c c' using e by (simp only:)
        ultimately show ?thesis by blast
      qed
    next
      case False
      then obtain sl y sr where u: "u = Node sl y sr" "\<not> blk y" by (cases u) auto
      let ?X = "if d then Node (Node l v r) (paint True p) s else Node s (paint True p) (Node l v r)" and ?U = "Node sl (paint True y) sr"
      let ?l = "if e then ?X else ?U" and ?r = "if e then ?U else ?X"
      obtain h1 where h1: "recolour_up (ad p) (ad y) (ad g) h = Some h1"
        "steps_to h (plug (Node l v r) c) h1 (plug (Node ?l (paint False g) ?r) c2)"
        using recolour_ok [OF place [unfolded u(1)]] by (cases d; cases e) (auto simp: c c' u(1))
      then have "rtree h1 (plug (Node ?l (paint False g) ?r) c2)" by (simp only: steps_to_def)
      moreover have "rb (Node ?l (paint False g) ?r)" "bh ?l = Suc (bh l)" using inv g u red by auto
      ultimately obtain h' t' where IH: "fix_insert_loop (ad g) (h1, croot (Some (ad g)) c2) = Some (h', rp t')"
        "steps_to h1 (plug (Node ?l (paint False g) ?r) c2) h' t'" "rb t'"
        using 1(1) [rule_format, of c2 h1 ?l "paint False g" ?r] g(7) by (auto simp: c c')
      have "fix_insert_loop (ad v) (h, croot (Some (ad v)) c) = fix_insert_loop (ad g) (h1, croot (Some (ad g)) c2)"
        using fix_insert_recolours [OF place [unfolded u] red u(2)] h1(1) by (simp add: c c' u)
      then show ?thesis using IH steps_to_trans [OF h1(2) IH(2)] by (intro exI [of _ h'] exI [of _ t']) simp
    qed
  qed
qed

lemma fix_insert_ok:
  assumes "rtree h (plug (Node l v r) c)" and "\<not> blk v" and "rb (Node l v r)" and "fits True (bh l) c"
  shows "\<exists>h' t'. fix_insert (ad v) (h, croot (Some (ad v)) c) = Some (h', rp t') \<and>
    steps_to h (plug (Node l v r) c) h' t' \<and> rb t' \<and> col t'"
proof -
  obtain h1 t1 where 1: "fix_insert_loop (ad v) (h, croot (Some (ad v)) c) = Some (h1, rp t1)"
    "steps_to h (plug (Node l v r) c) h1 t1" "rb t1"
    using fix_insert_loop_ok [OF assms] by blast
  have "addrs t1 = addrs (plug (Node l v r) c)" using 1(2) same_cells_addrs unfolding steps_to_def by blast
  then have "t1 \<noteq> Leaf" by auto
  then obtain a w b where t1: "t1 = Node a w b" by (cases t1) auto
  then have "rtree h1 (plug (Node a w b) [])" using 1(2) by (simp add: steps_to_def)
  from paint_ok(1,3) [OF this] obtain h' where h': "set_node (ad w) SET_ECACHE_BLACK h1 = Some h'" "steps_to h1 t1 h' (Node a (paint True w) b)"
    by (simp add: t1)
  have "h1 (ad w) = Some (mk w None (rp a) (rp b))" using 1(2) by (simp add: t1 steps_to_def rtree_def)
  then have "fix_insert (ad v) (h, croot (Some (ad v)) c) = Some (h', rp (Node a (paint True w) b))"
    using 1(1) h'(1) by (simp add: fix_insert_def deref_def t1)
  then show ?thesis using steps_to_trans [OF 1(2) h'(2)] 1(3) unfolding t1
    by (intro exI [of _ h'] exI [of _ "Node a (paint True w) b"]) simp
qed

section \<open>Search trees\<close>

text \<open>Keys strictly increase from left to right, so a tree is a finite map from hashes to what the index
  stores: the address of the directory entry and the flags without the colour.\<close>

definition keys :: "cell tree \<Rightarrow> u32 list" where "keys t = map ky (inorder t)"

definition cval :: "cell \<Rightarrow> u32 \<times> 3 word" where "cval v = (tgt v, fl v AND NOT ECACHE_BLACK)"

definition ec_map :: "cell tree \<Rightarrow> u32 \<Rightarrow> (u32 \<times> 3 word) option" where
  "ec_map t = map_of (map (\<lambda>v. (ky v, cval v)) (inorder t))"

fun go :: "u32 \<Rightarrow> cell tree \<Rightarrow> path \<Rightarrow> path + cell" where
  "go k Leaf c = Inl c"
| "go k (Node l v r) c = (if k < ky v then go k l ((True, v, r) # c) else if k > ky v then go k r ((False, v, l) # c) else Inr v)"

lemma insert_walk_go:
  "tr_at h (cp c) t \<Longrightarrow> insert_walk h k (cp c) (rp t) = Some (case go k t c of Inl c' \<Rightarrow> Inl (cp c') | Inr v \<Rightarrow> Inr (ad v))"
proof (induction k t c rule: go.induct)
  case (1 k c)
  then show ?case by (subst insert_walk.simps) simp
next
  case (2 k l v r c)
  then show ?case by (subst insert_walk.simps) simp
qed

lemma find_walk_go:
  "tr_at h (cp c) t \<Longrightarrow> find_walk h (rp t) k = Some (case go k t c of Inl c' \<Rightarrow> None | Inr v \<Rightarrow> Some (ad v))"
proof (induction k t c rule: go.induct)
  case (1 k c)
  then show ?case by (subst find_walk.simps) simp
next
  case (2 k l v r c)
  then show ?case by (subst find_walk.simps) simp
qed

lemma go_plug: "go k t c = Inl c' \<Longrightarrow> plug Leaf c' = plug t c"
  by (induction k t c rule: go.induct) (auto split: if_splits)

lemma go_found: "go k t c = Inr v \<Longrightarrow> v \<in> set_tree t \<and> ky v = k"
  by (induction k t c rule: go.induct) (auto split: if_splits)

lemma go_between:
  "go k t c = Inl c' \<Longrightarrow> sorted_wrt (<) (map ky (inorder t)) \<Longrightarrow>
   \<forall>v \<in> set (cbefore c). ky v < k \<Longrightarrow> \<forall>v \<in> set (cafter c). k < ky v \<Longrightarrow>
   (\<forall>v \<in> set (cbefore c'). ky v < k) \<and> (\<forall>v \<in> set (cafter c'). k < ky v)"
proof (induction k t c rule: go.induct)
  case (2 k l v r c)
  have s: "sorted_wrt (<) (map ky (inorder l))" "sorted_wrt (<) (map ky (inorder r))"
    "\<forall>x \<in> set (inorder l). ky x < ky v" "\<forall>x \<in> set (inorder r). ky v < ky x"
    using 2(4) by (simp_all add: sorted_wrt_append)
  show ?case
  proof (cases "k < ky v")
    case True
    then have "\<forall>x \<in> set (cafter ((True, v, r) # c)). k < ky x" using 2(6) s(4) by (simp add: ball_Un) (meson less_trans)
    then show ?thesis using 2(1) [OF True _ s(1)] 2(3,5) True by simp
  next
    case False
    then have gt: "ky v < k" using 2(3) by (auto split: if_splits)
    then have "\<forall>x \<in> set (cbefore ((False, v, l) # c)). ky x < k" using 2(5) s(3) by (simp add: ball_Un) (meson less_trans)
    then show ?thesis using 2(2) [OF False gt _ s(2)] 2(3,6) False gt by simp
  qed
qed simp

lemma go_fits: "go k t c = Inl c' \<Longrightarrow> rb t \<Longrightarrow> fits (col t) (bh t) c \<Longrightarrow> (c = [] \<longrightarrow> col t) \<Longrightarrow> fits True 0 c'"
  by (induction k t c rule: go.induct) (auto split: if_splits dest: fits_black)

section \<open>Insertion\<close>

lemma mk_new: "new_node junk k is_dir ca = mk (cell.make z ((junk AND NOT ECACHE_BLACK) OR (if is_dir \<noteq> 0 then ECACHE_DIR else ECACHE_FILE)) k ca) None None None"
  by (simp add: new_node_def mk_def cell.make_def SET_ECACHE_RED_def SET_ECACHE_DIR_def SET_ECACHE_FILE_def)

lemma kind_bits: "((w AND - 2) OR 4) AND 1 = (0 :: 3 word)" "((w AND - 2) OR 2) AND 1 = (0 :: 3 word)"
    "((w AND - 2) OR 4) AND - 2 = (w AND - 2) OR (4 :: 3 word)" "((w AND - 2) OR 2) AND - 2 = (w AND - 2) OR (2 :: 3 word)"
  unfolding bit_eq_iff by (auto simp: bit_simps bit_minus_2_iff bit_0 intro!: gr0I)

lemma link_ok:
  assumes t: "rtree h (plug Leaf c)" and w: "ad w \<notin> caddrs c" "h (ad w) = Some (mk w None None None)"
    and side: "case c of [] \<Rightarrow> True | (d, p, s) # c' \<Rightarrow> (if d then ky w < ky p else ky p < ky w)"
  shows "\<exists>h'. link_node (ad w) (ky w) (cp c) (h, rp (plug Leaf c)) = Some (h', croot (Some (ad w)) c) \<and>
    rtree h' (plug (Node Leaf w Leaf) c) \<and> (\<forall>a. a \<noteq> ad w \<and> a \<notin> caddrs c \<longrightarrow> h' a = h a)"
proof (cases c)
  case Nil
  then show ?thesis using w by (simp add: link_node_def set_node_def rtree_def)
next
  case (Cons f c')
  then obtain d p s where f: "f = (d, p, s)" by (cases f) auto
  note place = t [unfolded rtree_plug]
  show ?thesis using place w side unfolding rtree_plug
    by (cases d) (auto simp: Cons f link_node_def set_node_def)
qed

lemma live_apart: "(p, n) \<in> live bs \<Longrightarrow> (q, m) \<in> live bs \<Longrightarrow> (p, n) \<noteq> (q, m) \<Longrightarrow> p \<noteq> q"
  using regions_disjoint [of p n False mm_head bs q m False] sizeof_pos by (auto simp: live_def)

text \<open>How many more nodes the free blocks can take: a node occupies 40 bytes and a header.\<close>

fun node_room :: "blocks \<Rightarrow> nat" where
  "node_room [] = 0"
| "node_room ((n, free) # bs) = (if free then (n + sizeof_mm_block) div (round8 sizeof_ecache + sizeof_mm_block) else 0) + node_room bs"

lemma node_block_size [simp]: "round8 sizeof_ecache = 40" "sizeof_mm_block = 24"
  by (simp_all add: round8_def sizeof_ecache_def sizeof_mm_block_def)

lemma room_fit:
  "sz = round8 sizeof_ecache \<Longrightarrow>
     node_room bs = (if fst (fit sz a bs) = None then 0 else Suc (node_room (snd (fit sz a bs))))"
proof (induction sz a bs rule: fit.induct)
  case (2 sz a n f bs)
  show ?case
  proof (cases "f \<and> 40 \<le> n")
    case True
    show ?thesis
    proof (cases "64 \<le> n")
      case split: True
      then have "n + 24 = 64 + (n - 64 + 24)" by simp
      then have "(n + 24) div 64 = Suc ((n - 64 + 24) div 64)" by simp
      then show ?thesis using True split 2(2) by simp
    next
      case False
      then have "(n + 24) div 64 = 1" using True by (intro div_nat_eqI) simp_all
      then show ?thesis using False True 2(2) by simp
    qed
  next
    case False
    then have "f \<Longrightarrow> (n + 24) div 64 = 0" by simp
    then show ?thesis using False 2 by (auto split: prod.splits)
  qed
qed simp

lemma room_merge: "node_room bs \<le> node_room (merge_free bs)"
proof (induction bs rule: merge_free.induct)
  case (1 m n bs)
  have "(m + 24) div 64 + (n + 24) div 64 \<le> (m + 24 + n + 24) div 64"
    using div_add1_eq [of "m + 24" "n + 24" 64] by (simp add: add.assoc)
  then show ?case using 1 by (simp add: add.assoc)
qed auto

lemma room_release:
  "(p, n, False) \<in> set (regions a bs) \<Longrightarrow> node_room (release_at p a bs) = node_room bs + (n + 24) div 64"
proof (induction a bs rule: regions.induct)
  case (2 a k f bs)
  show ?case
  proof (cases "p = a + sizeof_mm_block")
    case True
    then have "(p, n, False) \<notin> set (regions (a + sizeof_mm_block + k) bs)"
      using regions_bounds [of p n False "a + sizeof_mm_block + k" bs] sizeof_pos by auto
    then show ?thesis using 2 True by auto
  qed (use 2 in auto)
qed simp

lemma room_malloc:
  assumes "malloc_list (round8 sizeof_ecache) bs = (p, bs')"
  shows "if p = None then node_room bs = 0 else node_room bs \<le> Suc (node_room bs')"
proof -
  let ?fit = "\<lambda>bs. fit (round8 sizeof_ecache) mm_head bs"
  show ?thesis
  proof (cases "fst (?fit bs)")
    case (Some a)
    then show ?thesis using assms room_fit [OF refl, of bs mm_head] by (auto simp: malloc_list_def split: prod.splits option.splits)
  next
    case None
    then have "?fit (merge_free bs) = (p, bs')" using assms by (auto simp: malloc_list_def split: prod.splits)
    then show ?thesis using room_merge [of bs] room_fit [OF refl, of "merge_free bs" mm_head] by auto
  qed
qed

lemma malloc_node:
  assumes "mm_ok bs s" and "mgr_malloc (mm_manager s) = Builtin"
  shows "\<exists>p h al bs'. nft32_malloc_s (of_nat sizeof_ecache) s = Some (p, s\<lparr>mm_heap := h, mm_allocated := al\<rparr>) \<and>
    mm_ok bs' (s\<lparr>mm_heap := h, mm_allocated := al\<rparr>) \<and>
    (case p of
       Some a \<Rightarrow> (\<exists>n \<ge> round8 sizeof_ecache. live bs' = insert (a, n) (live bs)) \<and> (\<forall>(q, m) \<in> live bs. q \<noteq> a)
     | None \<Rightarrow> live bs' = live bs \<and> (\<forall>(n, free) \<in> set (merge_free bs). free \<longrightarrow> n < round8 sizeof_ecache)) \<and>
    (if p = None then node_room bs = 0 else node_room bs \<le> Suc (node_room bs'))"
proof -
  have "unat (of_nat sizeof_ecache :: u64) = sizeof_ecache" "(of_nat sizeof_ecache :: u64) \<noteq> 0"
    by (simp_all add: sizeof_ecache_def)
  then obtain h al where m: "malloc_s (of_nat sizeof_ecache) s = Some (fst (malloc_list (round8 sizeof_ecache) bs), s\<lparr>mm_heap := h, mm_allocated := al\<rparr>)"
    "mm_ok (snd (malloc_list (round8 sizeof_ecache) bs)) (s\<lparr>mm_heap := h, mm_allocated := al\<rparr>)"
    using malloc_s_refines [OF assms(1), of "of_nat sizeof_ecache"] by (auto simp: sizeof_ecache_def)
  obtain p bs' where r: "malloc_list (round8 sizeof_ecache) bs = (p, bs')" by (cases "malloc_list (round8 sizeof_ecache) bs")
  have "case p of
       Some a \<Rightarrow> (\<exists>n \<ge> round8 sizeof_ecache. live bs' = insert (a, n) (live bs)) \<and> (\<forall>(q, m) \<in> live bs. q \<noteq> a)
     | None \<Rightarrow> live bs' = live bs \<and> (\<forall>(n, free) \<in> set (merge_free bs). free \<longrightarrow> n < round8 sizeof_ecache)"
  proof (cases p)
    case None
    then show ?thesis using malloc_list_none [of "round8 sizeof_ecache" bs] r
      fit_none_iff [of "round8 sizeof_ecache" mm_head "merge_free bs"]
      by (auto simp: malloc_list_def split: prod.splits option.splits)
  next
    case (Some a)
    then obtain n where n: "round8 sizeof_ecache \<le> n" "(a, n) \<notin> live bs" "live bs' = insert (a, n) (live bs)"
      using malloc_list_live r by blast
    then have "\<forall>(q, m) \<in> live bs. q \<noteq> a" using live_apart [of a n bs'] by fastforce
    then show ?thesis using n Some by (auto intro!: exI [of _ n])
  qed
  then show ?thesis using m r assms(2) room_malloc [OF r] by (intro exI [of _ p] exI [of _ h] exI [of _ al] exI [of _ bs']) (simp add: nft32_malloc_s_def)
qed

lemma free_node:
  assumes "mm_ok bs s" and "mgr_free (mm_manager s) = Builtin" and "(p, n) \<in> live bs" and "0 < n"
  shows "\<exists>h al bs'. nft32_free_s (Some p) s = Some ((), s\<lparr>mm_heap := h, mm_allocated := al\<rparr>) \<and>
    mm_ok bs' (s\<lparr>mm_heap := h, mm_allocated := al\<rparr>) \<and> live bs' = live bs - {(p, n)} \<and>
    node_room bs' = node_room bs + (n + 24) div 64"
  using free_s_refines [OF assms(1,3,4)] live_release_at [OF assms(3)] room_release [of p n mm_head bs] assms(2,3)
  by (auto simp: nft32_free_s_def live_def)

text \<open>The index of a content: a red-black search tree whose nodes are live regions of the allocator.\<close>

definition nodes_live :: "blocks \<Rightarrow> cell tree \<Rightarrow> bool" where
  "nodes_live bs t = (\<forall>a \<in> addrs t. \<exists>n \<ge> sizeof_ecache. (a, n) \<in> live bs)"

definition search_tree :: "cell tree \<Rightarrow> bool" where
  "search_tree t = (sorted_wrt (<) (keys t) \<and> rb t \<and> col t)"

definition cache_ok :: "blocks \<Rightarrow> ('w, 'z) ecache_state_scheme \<Rightarrow> nat option \<Rightarrow> cell tree \<Rightarrow> bool" where
  "cache_ok bs s root t = (mm_ok bs s \<and> mgr_malloc (mm_manager s) = Builtin \<and> mgr_free (mm_manager s) = Builtin \<and>
     root = rp t \<and> rtree (ec_heap s) t \<and> nodes_live bs t \<and> search_tree t)"

definition kind_flag :: "byte \<Rightarrow> 3 word" where
  "kind_flag is_dir = (if is_dir \<noteq> 0 then ECACHE_DIR else ECACHE_FILE)"

lemma cval_strip: "cval v = (tgt (strip v), fl (strip v))"
  by (simp add: cval_def strip_def)

lemma same_cells_keys: "same_cells t u \<Longrightarrow> keys u = keys t"
proof -
  assume "same_cells t u"
  then have "map ky (map strip (inorder t)) = map ky (map strip (inorder u))" by (simp add: same_cells_def)
  then show ?thesis by (simp add: keys_def comp_def)
qed

lemma same_cells_map: "same_cells t u \<Longrightarrow> ec_map u = ec_map t"
proof -
  assume "same_cells t u"
  then have "map (\<lambda>v. (ky v, (tgt v, fl v))) (map strip (inorder t)) = map (\<lambda>v. (ky v, (tgt v, fl v))) (map strip (inorder u))"
    by (simp add: same_cells_def)
  then show ?thesis by (simp add: ec_map_def cval_strip comp_def)
qed

lemma map_of_mid: "k \<notin> fst ` set xs \<Longrightarrow> map_of (xs @ (k, v) # ys) = (map_of (xs @ ys))(k \<mapsto> v)"
  by (induction xs) auto

lemma dom_ec_map: "dom (ec_map t) = set (keys t)"
  by (simp add: ec_map_def keys_def dom_map_of_conv_image_fst image_image)

lemma ec_map_plug:
  assumes "\<forall>v \<in> set (cbefore c). ky v < ky w"
  shows "ec_map (plug (Node Leaf w Leaf) c) = (ec_map (plug Leaf c))(ky w \<mapsto> cval w)"
proof -
  have "ky w \<notin> fst ` set (map (\<lambda>v. (ky v, cval v)) (cbefore c))" using assms by force
  from map_of_mid [OF this, of "cval w"] show ?thesis by (simp add: ec_map_def inorder_plug)
qed

lemma ec_map_cell:
  assumes "sorted_wrt (<) (keys t)" and "v \<in> set_tree t"
  shows "ec_map t (ky v) = Some (cval v)"
proof -
  have "distinct (keys t)" using assms(1) by (simp add: strict_sorted_iff)
  then have "distinct (map fst (map (\<lambda>v. (ky v, cval v)) (inorder t)))" by (simp add: keys_def comp_def)
  moreover have "(ky v, cval v) \<in> set (map (\<lambda>v. (ky v, cval v)) (inorder t))" using assms(2) by simp
  ultimately show ?thesis unfolding ec_map_def by (rule map_of_is_SomeI)
qed

lemma go_absent:
  "go k t c = Inl c' \<Longrightarrow> sorted_wrt (<) (map ky (inorder t)) \<Longrightarrow> k \<notin> set (map ky (inorder t))"
proof (induction k t c rule: go.induct)
  case (2 k l v r c)
  have s: "sorted_wrt (<) (map ky (inorder l))" "sorted_wrt (<) (map ky (inorder r))"
    "\<forall>x \<in> set (inorder l). ky x < ky v" "\<forall>x \<in> set (inorder r). ky v < ky x"
    using 2(4) by (simp_all add: sorted_wrt_append)
  show ?case
  proof (cases "k < ky v")
    case True
    then have "k \<notin> ky ` set (inorder r)" using s(4) by force
    then show ?thesis using 2(1) [OF True _ s(1)] 2(3) True by auto
  next
    case False
    then have gt: "ky v < k" using 2(3) by (auto split: if_splits)
    then have "k \<notin> ky ` set (inorder l)" using s(3) by force
    then show ?thesis using 2(2) [OF False gt _ s(2)] 2(3) False gt by auto
  qed
qed simp

text \<open>Linking and rebalancing on the heap.\<close>

lemma insert_tree_ok:
  assumes t: "rtree h t" "search_tree t" and g: "go (ky w) t [] = Inl c" and w: "ad w \<notin> addrs t" "\<not> blk w" "h (ad w) = Some (mk w None None None)"
  shows "\<exists>h1 h2 t'. link_node (ad w) (ky w) (cp c) (h, rp t) = Some (h1, croot (Some (ad w)) c) \<and>
    fix_insert (ad w) (h1, croot (Some (ad w)) c) = Some (h2, rp t') \<and> rtree h2 t' \<and> search_tree t' \<and>
    ky w \<notin> dom (ec_map t) \<and> ec_map t' = (ec_map t)(ky w \<mapsto> cval w) \<and> addrs t' = insert (ad w) (addrs t) \<and>
    (\<forall>a. a \<notin> insert (ad w) (addrs t) \<longrightarrow> h2 a = h a)"
proof -
  have p: "plug Leaf c = t" using go_plug [OF g] by simp
  have s: "sorted_wrt (<) (map ky (inorder t))" "rb t" "col t" using t(2) by (simp_all add: search_tree_def keys_def)
  have b: "\<forall>v \<in> set (cbefore c). ky v < ky w" "\<forall>v \<in> set (cafter c). ky w < ky v" using go_between [OF g s(1)] by simp_all
  have ad: "addrs t = caddrs c" using addrs_plug [of Leaf c] by (simp add: p)
  have "case c of [] \<Rightarrow> True | (d, p, s) # c' \<Rightarrow> (if d then ky w < ky p else ky p < ky w)" using b by (auto split: list.splits)
  with link_ok [of h c w] obtain h1 where h1: "link_node (ad w) (ky w) (cp c) (h, rp t) = Some (h1, croot (Some (ad w)) c)"
    "rtree h1 (plug (Node Leaf w Leaf) c)" "\<forall>a. a \<noteq> ad w \<and> a \<notin> caddrs c \<longrightarrow> h1 a = h a"
    using t w ad p by auto
  have "fits True (bh Leaf) c" using go_fits [OF g s(2)] s(3) by simp
  from fix_insert_ok [OF h1(2) w(2) _ this] obtain h2 t' where h2: "fix_insert (ad w) (h1, croot (Some (ad w)) c) = Some (h2, rp t')"
    "steps_to h1 (plug (Node Leaf w Leaf) c) h2 t'" "rb t'" "col t'" by auto
  have same: "same_cells (plug (Node Leaf w Leaf) c) t'" and r2: "rtree h2 t'"
    and fr: "\<forall>a. a \<notin> insert (ad w) (caddrs c) \<longrightarrow> h2 a = h1 a" using h2(2) by (simp_all add: steps_to_def)
  have "sorted_wrt (<) (map ky (cbefore c @ cafter c))" using s(1) inorder_plug [of Leaf c] by (simp add: p)
  then have "sorted_wrt (<) (keys (plug (Node Leaf w Leaf) c))"
    using b by (simp add: keys_def inorder_plug sorted_wrt_append) 
  then have "search_tree t'" using h2(3,4) same_cells_keys [OF same] by (simp add: search_tree_def)
  moreover have "ec_map t' = (ec_map t)(ky w \<mapsto> cval w)" using same_cells_map [OF same] ec_map_plug [OF b(1)] by (simp add: p)
  moreover have "addrs t' = insert (ad w) (addrs t)" using same_cells_addrs [OF same] by (simp add: ad)
  moreover have "ky w \<notin> dom (ec_map t)" using go_absent [OF g s(1)] by (simp add: dom_ec_map keys_def)
  ultimately show ?thesis using h1 h2(1) r2 fr ad by (intro exI [of _ h1] exI [of _ h2] exI [of _ t']) simp
qed

lemma ecache_insert_ok:
  assumes c: "cache_ok bs s root t"
  shows "\<exists>root' s' t' bs'. ecache_insert root k is_dir ca s = Some (root', s') \<and> cache_ok bs' s' root' t' \<and> stack_flags s' = stack_flags s \<and>
    (\<forall>(a, n) \<in> live bs. a \<notin> addrs t \<longrightarrow> (a, n) \<in> live bs' \<and> a \<notin> addrs t' \<and> ec_heap s' a = ec_heap s a) \<and>
    (if k \<in> dom (ec_map t) then ec_map t' = ec_map t
     else ec_map t' = (ec_map t)(k \<mapsto> (ca, (stack_flags s AND NOT ECACHE_BLACK) OR kind_flag is_dir)) \<or>
       ec_map t' = ec_map t \<and> (\<forall>(n, free) \<in> set (merge_free bs). free \<longrightarrow> n < round8 sizeof_ecache)) \<and>
    node_room bs \<le> node_room bs' + (if k \<in> dom (ec_map t) then 0 else 1) \<and>
    (k \<notin> dom (ec_map t) \<and> node_room bs \<noteq> 0 \<longrightarrow> ec_map t' = (ec_map t)(k \<mapsto> (ca, (stack_flags s AND NOT ECACHE_BLACK) OR kind_flag is_dir)))"
proof -
  have m: "mm_ok bs s" "mgr_malloc (mm_manager s) = Builtin" "mgr_free (mm_manager s) = Builtin"
    and t: "root = rp t" "rtree (ec_heap s) t" "nodes_live bs t" "search_tree t"
    using c by (simp_all add: cache_ok_def)
  obtain p h al bs1 where p: "nft32_malloc_s (of_nat sizeof_ecache) s = Some (p, s\<lparr>mm_heap := h, mm_allocated := al\<rparr>)"
    "mm_ok bs1 (s\<lparr>mm_heap := h, mm_allocated := al\<rparr>)"
    "case p of
       Some a \<Rightarrow> (\<exists>n \<ge> round8 sizeof_ecache. live bs1 = insert (a, n) (live bs)) \<and> (\<forall>(q, m) \<in> live bs. q \<noteq> a)
     | None \<Rightarrow> live bs1 = live bs \<and> (\<forall>(n, free) \<in> set (merge_free bs). free \<longrightarrow> n < round8 sizeof_ecache)"
    "if p = None then node_room bs = 0 else node_room bs \<le> Suc (node_room bs1)"
    using malloc_node [OF m(1,2)] by blast
  let ?s1 = "s\<lparr>mm_heap := h, mm_allocated := al\<rparr>"
  show ?thesis
  proof (cases p)
    case None
    have "cache_ok bs1 ?s1 root t" using p m t None by (simp add: cache_ok_def nodes_live_def)
    moreover have "ecache_insert root k is_dir ca s = Some (root, ?s1)" using p(1) None by (simp add: ecache_insert_def)
    ultimately show ?thesis using p(3,4) None by (intro exI [of _ root] exI [of _ ?s1] exI [of _ t] exI [of _ bs1]) auto
  next
    case (Some z)
    then obtain n where n40: "40 \<le> n" and n': "live bs1 = insert (z, n) (live bs)" "\<forall>(q, m) \<in> live bs. q \<noteq> z"
      using p(3) by auto
    have n: "sizeof_ecache \<le> n" "live bs1 = insert (z, n) (live bs)" "\<forall>(q, m) \<in> live bs. q \<noteq> z"
      using n40 n' by (simp_all add: sizeof_ecache_def)
    let ?w = "cell.make z ((stack_flags s AND NOT ECACHE_BLACK) OR kind_flag is_dir) k ca"
    let ?h = "(ec_heap s)(z \<mapsto> new_node (stack_flags s) k is_dir ca)"
    have w: "ad ?w = z" "ky ?w = k" "\<not> blk ?w" "new_node (stack_flags s) k is_dir ca = mk ?w None None None"
        "cval ?w = (ca, (stack_flags s AND NOT ECACHE_BLACK) OR kind_flag is_dir)"
      using mk_new [of "stack_flags s" k is_dir ca z]
      by (simp_all add: cell.make_def kind_flag_def blk_def cval_def ECACHE_DIR_def ECACHE_FILE_def black_bit kind_bits)
    have z: "z \<notin> addrs t" using n(3) t(3) by (auto simp: nodes_live_def)
    then have rt: "rtree ?h t" using t(2) by (simp add: rtree_def)
    have walk: "insert_walk ?h k None root = Some (case go k t [] of Inl c' \<Rightarrow> Inl (cp c') | Inr v \<Rightarrow> Inr (ad v))"
      using insert_walk_go [of ?h "[]" t k] rt t(1) by (simp add: rtree_def)
    show ?thesis
    proof (cases "go k t []")
      case (Inr v)
      let ?s2 = "?s1\<lparr>ec_heap := ?h(z := None)\<rparr>"
      have "mm_ok bs1 ?s2" "mgr_free (mm_manager ?s2) = Builtin" using p(2) m by (simp_all add: mm_ok_def)
      moreover have "(z, n) \<in> live bs1" "0 < n" using n by (simp_all add: sizeof_ecache_def)
      ultimately obtain h' al' bs' where f: "nft32_free_s (Some z) ?s2 = Some ((), ?s2\<lparr>mm_heap := h', mm_allocated := al'\<rparr>)"
        "mm_ok bs' (?s2\<lparr>mm_heap := h', mm_allocated := al'\<rparr>)" "live bs' = live bs1 - {(z, n)}"
          "node_room bs' = node_room bs1 + (n + 24) div 64"
        using free_node by blast
      have "0 < (n + 24) div 64" using n40 by (simp add: div_greater_zero_iff)
      then have room: "node_room bs \<le> node_room bs'" using f(4) p(4) Some by simp
      let ?s3 = "?s2\<lparr>mm_heap := h', mm_allocated := al'\<rparr>"
      have l: "live bs' = live bs" using f(3) n by auto
      have "ecache_insert root k is_dir ca s = Some (root, ?s3)"
        using p(1) Some walk Inr f(1) by (simp add: ecache_insert_def Let_def)
      moreover have "cache_ok bs' ?s3 root t"
        using f(2) m t z l by (simp add: cache_ok_def nodes_live_def rtree_def)
      moreover have "k \<in> dom (ec_map t)"
        using go_found [OF Inr] by (auto simp: dom_ec_map keys_def)
      ultimately show ?thesis using l n(3) room by (intro exI [of _ root] exI [of _ ?s3] exI [of _ t] exI [of _ bs']) auto
    next
      case (Inl c')
      have "go (ky ?w) t [] = Inl c'" using Inl w by simp
      from insert_tree_ok [OF rt t(4) this] w z obtain h1 h2 t' where
        u: "link_node z k (cp c') (?h, rp t) = Some (h1, croot (Some z) c')" "fix_insert z (h1, croot (Some z) c') = Some (h2, rp t')"
        "rtree h2 t'" "search_tree t'" "k \<notin> dom (ec_map t)" "ec_map t' = (ec_map t)(k \<mapsto> cval ?w)" "addrs t' = insert z (addrs t)"
        "\<forall>a. a \<notin> insert z (addrs t) \<longrightarrow> h2 a = ?h a"
        by auto
      let ?s2 = "?s1\<lparr>ec_heap := h2\<rparr>"
      have "ecache_insert root k is_dir ca s = Some (rp t', ?s2)"
        using p(1) Some walk Inl u(1,2) t(1) by (simp add: ecache_insert_def Let_def)
      moreover have "nodes_live bs1 t'" using t(3) n u(7) by (auto simp: nodes_live_def)
      then have "cache_ok bs1 ?s2 (rp t') t'"
        using p(2) m u by (simp add: cache_ok_def mm_ok_def)
      ultimately show ?thesis using u(5-8) n w(5) p(4) Some
        by (intro exI [of _ "rp t'"] exI [of _ ?s2] exI [of _ t'] exI [of _ bs1]) auto
    qed
  qed
qed

lemma ecache_find_ok:
  assumes "cache_ok bs s root t"
  shows "\<exists>p. ecache_find root k s = Some (p, s) \<and> (case ec_map t k of
      None \<Rightarrow> p = None
    | Some v \<Rightarrow> \<exists>a n. p = Some a \<and> ec_heap s a = Some n \<and> ec_hash n = k \<and> (ec_ca n, ec_flags n AND NOT ECACHE_BLACK) = v)"
proof -
  have t: "rtree (ec_heap s) t" "sorted_wrt (<) (keys t)" "root = rp t" using assms by (simp_all add: cache_ok_def search_tree_def)
  have f: "find_walk (ec_heap s) root k = Some (case go k t [] of Inl c' \<Rightarrow> None | Inr v \<Rightarrow> Some (ad v))"
    using find_walk_go [of "ec_heap s" "[]" t k] t by (simp add: rtree_def)
  show ?thesis
  proof (cases "go k t []")
    case (Inl c)
    then have "ec_map t k = None" using go_absent [OF Inl] t(2) dom_ec_map [of t] by (auto simp: keys_def)
    then show ?thesis using f Inl by (simp add: ecache_find_def)
  next
    case (Inr v)
    then have v: "v \<in> set_tree t" "ky v = k" using go_found by blast+
    have cell: "tr_at h q u \<Longrightarrow> v \<in> set_tree u \<Longrightarrow> \<exists>p l r. h (ad v) = Some (mk v p l r)" for h q u
      by (induction u arbitrary: q) auto
    from cell [of "ec_heap s" None t] t(1) v(1) obtain q l r where "ec_heap s (ad v) = Some (mk v q l r)" by (auto simp: rtree_def)
    then show ?thesis using f Inr v ec_map_cell [OF t(2) v(1)] by (simp add: ecache_find_def cval_def)
  qed
qed

section \<open>Freeing\<close>

lemma ecache_free_ok:
  "tr_at (ec_heap s) q t \<Longrightarrow> adist t \<Longrightarrow> mm_ok bs s \<Longrightarrow> mgr_free (mm_manager s) = Builtin \<Longrightarrow> nodes_live bs t \<Longrightarrow>
   \<exists>h al bs' r. ecache_free (rp t) s = Some (r, s\<lparr>mm_heap := h, mm_allocated := al, ec_heap := (\<lambda>a. if a \<in> addrs t then None else ec_heap s a)\<rparr>) \<and>
     mm_ok bs' (s\<lparr>mm_heap := h, mm_allocated := al, ec_heap := (\<lambda>a. if a \<in> addrs t then None else ec_heap s a)\<rparr>) \<and>
     live bs' = {(a, n) \<in> live bs. a \<notin> addrs t}"
proof (induction t arbitrary: q s bs)
  case Leaf
  have "s\<lparr>mm_heap := mm_heap s, mm_allocated := mm_allocated s, ec_heap := ec_heap s\<rparr> = s" by simp
  then show ?case using Leaf by (subst ecache_free.simps) (auto intro!: exI [of _ "mm_heap s"] exI [of _ "mm_allocated s"] exI [of _ bs])
next
  case (Node l v r)
  let ?s = "\<lambda>h al t s. s\<lparr>mm_heap := h, mm_allocated := al, ec_heap := (\<lambda>a. if a \<in> addrs t then None else ec_heap s a)\<rparr>"
  have tl: "tr_at (ec_heap s) (Some (ad v)) l" "adist l" "nodes_live bs l" using Node.prems by (simp_all add: nodes_live_def)
  obtain h1 al1 bs1 r1 where 1: "ecache_free (rp l) s = Some (r1, ?s h1 al1 l s)" "mm_ok bs1 (?s h1 al1 l s)" "live bs1 = {(a, n) \<in> live bs. a \<notin> addrs l}"
    using Node.IH(1) [OF tl(1,2) Node.prems(3,4) tl(3)] by blast
  let ?s1 = "?s h1 al1 l s"
  have same: "tr_at g q u = tr_at h q u" if "\<forall>a \<in> addrs u. g a = h a" for g h q u
    using that by (induction u arbitrary: q) auto
  have dis: "addrs l \<inter> addrs r = {}" "ad v \<notin> addrs l" "ad v \<notin> addrs r" using Node.prems(2) by simp_all
  have "tr_at (ec_heap ?s1) (Some (ad v)) r = tr_at (ec_heap s) (Some (ad v)) r" using dis by (intro same) auto
  then have tr: "tr_at (ec_heap ?s1) (Some (ad v)) r" "adist r" using Node.prems by simp_all
  moreover have "nodes_live bs1 r" unfolding nodes_live_def
  proof
    fix a assume a: "a \<in> addrs r"
    then obtain n where "sizeof_ecache \<le> n" "(a, n) \<in> live bs" using Node.prems(5) unfolding nodes_live_def by auto
    moreover have "a \<notin> addrs l" using a dis(1) by blast
    ultimately show "\<exists>n \<ge> sizeof_ecache. (a, n) \<in> live bs1" unfolding 1(3) by blast
  qed
  moreover have "mgr_free (mm_manager ?s1) = Builtin" using Node.prems(4) by simp
  ultimately obtain h2 al2 bs2 r2 where 2: "ecache_free (rp r) ?s1 = Some (r2, ?s h2 al2 r ?s1)" "mm_ok bs2 (?s h2 al2 r ?s1)" "live bs2 = {(a, n) \<in> live bs1. a \<notin> addrs r}"
    using Node.IH(2) 1(2) by blast
  let ?s2 = "?s h2 al2 r ?s1"
  let ?s3 = "?s2\<lparr>ec_heap := (ec_heap ?s2)(ad v := None)\<rparr>"
  obtain n where n: "(ad v, n) \<in> live bs" "sizeof_ecache \<le> n" using Node.prems(5) by (auto simp: nodes_live_def)
  then have n2: "(ad v, n) \<in> live bs2" "0 < n" using 1(3) 2(3) dis by (auto simp: sizeof_ecache_def)
  have "mm_ok bs2 ?s3" "mgr_free (mm_manager ?s3) = Builtin" using 2(2) Node.prems(4) by (simp_all add: mm_ok_def)
  from free_node [OF this n2] obtain h3 al3 bs3 where 3: "nft32_free_s (Some (ad v)) ?s3 = Some ((), ?s3\<lparr>mm_heap := h3, mm_allocated := al3\<rparr>)"
    "mm_ok bs3 (?s3\<lparr>mm_heap := h3, mm_allocated := al3\<rparr>)" "live bs3 = live bs2 - {(ad v, n)}" by blast
  have fin: "?s3\<lparr>mm_heap := h3, mm_allocated := al3\<rparr> = ?s h3 al3 (Node l v r) s"
    by (intro ecache_state.equality) (auto intro!: ext)
  have node: "ec_heap s (ad v) = Some (mk v q (rp l) (rp r))" using Node.prems(1) by simp
  have "ecache_free (rp (Node l v r)) s = Some (1, ?s h3 al3 (Node l v r) s)"
    using node 1(1) 2(1) 3(1) dis unfolding fin by (subst ecache_free.simps) simp
  moreover have "live bs3 = {(a, m) \<in> live bs. a \<notin> addrs (Node l v r)}"
  proof -
    have "m = n" if "(ad v, m) \<in> live bs" for m using live_apart [OF that n(1)] by auto
    then show ?thesis using 1(3) 2(3) 3(3) by auto
  qed
  ultimately show ?case using 3(2) unfolding fin by blast
qed

section \<open>Depth\<close>

lemma rb_height: "rb t \<Longrightarrow> height t \<le> 2 * bh t + (if col t then 0 else 1)"
  by (induction t) (auto simp: max_def split: if_splits)

lemma rb_size: "rb t \<Longrightarrow> 2 ^ bh t \<le> size t + 1"
  by (induction t) auto

lemma search_tree_depth:
  assumes "search_tree t"
  shows "2 ^ height t \<le> (size t + 1)\<^sup>2"
proof -
  have t: "rb t" "col t" using assms by (simp_all add: search_tree_def)
  have "(2 :: nat) ^ height t \<le> 2 ^ (2 * bh t)" using rb_height [OF t(1)] t(2) by (intro power_increasing) auto
  also have "\<dots> = (2 ^ bh t)\<^sup>2" by (simp add: power_mult power_commutes mult.commute flip: power_mult)
  also have "\<dots> \<le> (size t + 1)\<^sup>2" using rb_size [OF t(1)] by (intro power_mono) auto
  finally show ?thesis .
qed

section \<open>Deletion\<close>

lemma rb_unplug: "rb (plug t c) \<Longrightarrow> col (plug t c) \<Longrightarrow> rb t \<and> fits (col t) (bh t) c \<and> (c = [] \<longrightarrow> col t)"
proof (induction t c rule: plug.induct)
  case (2 t d v s c)
  have "rb (if d then Node t v s else Node s v t) \<and> fits (col (if d then Node t v s else Node s v t)) (bh (if d then Node t v s else Node s v t)) c \<and>
      (c = [] \<longrightarrow> col (if d then Node t v s else Node s v t))"
    using 2 by simp
  then show ?case by (cases d) auto
qed simp

lemma place_of: "v \<in> set_tree t \<Longrightarrow> \<exists>l r c'. plug t c = plug (Node l v r) c'"
proof (induction t arbitrary: c)
  case (Node l w r)
  then consider "v = w" | "v \<in> set_tree l" | "v \<in> set_tree r" by auto
  then show ?case
  proof cases
    case 1 then show ?thesis by blast
  next
    case 2
    from Node.IH(1) [OF this, of "(True, w, r) # c"] show ?thesis by simp
  next
    case 3
    from Node.IH(2) [OF this, of "(False, w, l) # c"] show ?thesis by simp
  qed
qed simp

lemma go_present:
  assumes "sorted_wrt (<) (keys t)" and "v \<in> set_tree t"
  shows "go (ky v) t [] = Inr v"
proof (cases "go (ky v) t []")
  case (Inl c)
  then show ?thesis using go_absent [OF Inl] assms by (simp add: keys_def)
next
  case (Inr w)
  then have w: "w \<in> set_tree t" "ky w = ky v" using go_found by blast+
  have "distinct (map ky (inorder t))" using assms(1) by (simp add: strict_sorted_iff keys_def)
  then have "w = v" using w assms(2) by (auto simp: distinct_map inj_on_def)
  then show ?thesis using Inr by simp
qed

lemma unlink_leaf:
  assumes t: "rtree h (plug (Node Leaf v Leaf) c)"
  shows "\<exists>h'. unlink_node (ad v) (h, croot (Some (ad v)) c) = Some (ad v, None, cp c, h', rp (plug Leaf c)) \<and>
    rtree (h'(ad v := None)) (plug Leaf c) \<and> h' (ad v) = h (ad v) \<and> (\<forall>a. a \<notin> insert (ad v) (caddrs c) \<longrightarrow> h' a = h a)"
proof (cases c)
  case Nil
  show ?thesis using t [unfolded rtree_plug] unfolding rtree_plug Nil
    by (simp add: unlink_node_def transplant_def place_simps)
next
  case (Cons f c')
  then obtain d p s where f: "f = (d, p, s)" by (cases f) auto
  show ?thesis using t [unfolded rtree_plug] unfolding rtree_plug
    by (cases d) (simp_all add: Cons f unlink_node_def transplant_def place_simps)
qed

lemma col_plug: "c \<noteq> [] \<Longrightarrow> col (plug t c) = col (plug u c)"
proof (induction c arbitrary: t u)
  case (Cons f c)
  then show ?case by (cases f; cases c) auto
qed simp

text \<open>A red leaf is unlinked and released, nothing else changes.\<close>

lemma ecache_delete_leaf:
  assumes c: "cache_ok bs s root t" and t: "t = plug (Node Leaf v Leaf) c" and red: "\<not> blk v"
  shows "\<exists>s' bs'. ecache_delete root (ky v) s = Some (rp (plug Leaf c), s') \<and> cache_ok bs' s' (rp (plug Leaf c)) (plug Leaf c) \<and>
    ec_map (plug Leaf c) = (ec_map t)(ky v := None)"
proof -
  have m: "mm_ok bs s" "mgr_malloc (mm_manager s) = Builtin" "mgr_free (mm_manager s) = Builtin"
    and r: "root = rp t" "rtree (ec_heap s) t" "nodes_live bs t" "search_tree t"
    using c by (simp_all add: cache_ok_def)
  have s: "sorted_wrt (<) (keys t)" "rb t" "col t" using r(4) by (simp_all add: search_tree_def)
  have v: "v \<in> set_tree t" using inorder_plug [of "Node Leaf v Leaf" c] by (simp add: t flip: set_inorder)
  have f: "find_walk (ec_heap s) root (ky v) = Some (Some (ad v))"
    using find_walk_go [of "ec_heap s" "[]" t "ky v"] r go_present [OF s(1) v] by (simp add: rtree_def)
  obtain h' where u: "unlink_node (ad v) (ec_heap s, root) = Some (ad v, None, cp c, h', rp (plug Leaf c))"
    "rtree (h'(ad v := None)) (plug Leaf c)" "h' (ad v) = ec_heap s (ad v)"
    using unlink_leaf [of "ec_heap s" v c] r(1,2) t by auto
  have vc: "ad v \<notin> caddrs c" using r(2) by (auto simp: t rtree_plug)
  obtain n where n: "(ad v, n) \<in> live bs" "sizeof_ecache \<le> n" using r(3) v by (auto simp: nodes_live_def)
  let ?s = "s\<lparr>ec_heap := h'(ad v := None)\<rparr>"
  have "mm_ok bs ?s" "mgr_free (mm_manager ?s) = Builtin" "0 < n" using m n by (simp_all add: mm_ok_def sizeof_ecache_def)
  then obtain h al bs' where fr: "nft32_free_s (Some (ad v)) ?s = Some ((), ?s\<lparr>mm_heap := h, mm_allocated := al\<rparr>)"
    "mm_ok bs' (?s\<lparr>mm_heap := h, mm_allocated := al\<rparr>)" "live bs' = live bs - {(ad v, n)}"
    using free_node n(1) by blast
  have "ec_heap s (ad v) = Some (mk v (cp c) None None)" using place_node [of "ec_heap s" Leaf v Leaf c] r(2) t by simp
  then have "ecache_delete root (ky v) s = Some (rp (plug Leaf c), ?s\<lparr>mm_heap := h, mm_allocated := al\<rparr>)"
    using f u(1,3) fr(1) red m(3) by (simp add: ecache_delete_def freed_readable_def)
  moreover have "nodes_live bs' (plug Leaf c)" unfolding nodes_live_def
  proof
    fix a assume a: "a \<in> addrs (plug Leaf c)"
    then have "a \<noteq> ad v" using vc by auto
    moreover obtain k where "sizeof_ecache \<le> k" "(a, k) \<in> live bs" using r(3) a by (auto simp: nodes_live_def t)
    ultimately show "\<exists>n \<ge> sizeof_ecache. (a, n) \<in> live bs'" unfolding fr(3) by blast
  qed
  moreover have k: "sorted_wrt (<) (map ky (cbefore c @ v # cafter c))" using s(1) by (simp add: keys_def t inorder_plug)
  have "search_tree (plug Leaf c)"
  proof -
    have "fits False 0 c" and ne: "c \<noteq> []" using rb_unplug [of "Node Leaf v Leaf" c] s(2,3) red by (auto simp: t)
    then have "rb (plug Leaf c)" using fits_black by (intro rb_plug) auto
    moreover have "col (plug Leaf c)" using col_plug [OF ne, of Leaf "Node Leaf v Leaf"] s(3) by (simp add: t)
    moreover have "sorted_wrt (<) (keys (plug Leaf c))" using k by (simp add: keys_def inorder_plug sorted_wrt_append)
    ultimately show ?thesis by (simp add: search_tree_def)
  qed
  moreover have "ec_map (plug Leaf c) = (ec_map t)(ky v := None)"
  proof -
    have "\<forall>w \<in> set (cbefore c). ky w < ky v" "\<forall>w \<in> set (cafter c). ky v < ky w"
      using k by (auto simp: sorted_wrt_append)
    moreover from this have "ky v \<notin> dom (ec_map (plug Leaf c))" by (auto simp: dom_ec_map keys_def inorder_plug)
    ultimately show ?thesis using ec_map_plug [of c v] by (auto simp: t)
  qed
  ultimately show ?thesis using u(2) fr(2) m
    by (intro exI [of _ "?s\<lparr>mm_heap := h, mm_allocated := al\<rparr>"] exI [of _ bs']) (simp add: cache_ok_def)
qed

text \<open>The root of three nodes: the code reads the colour of the successor after the successor took the
  colour of the root, rebalances a tree that lost no black node and follows \<open>NULL\<close>.\<close>

lemma ecache_delete_root:
  assumes c: "cache_ok bs s root (Node (Node Leaf a Leaf) z (Node Leaf b Leaf))" and red: "\<not> blk a" "\<not> blk b"
  shows "ecache_delete root (ky z) s = None"
proof -
  let ?t = "Node (Node Leaf a Leaf) z (Node Leaf b Leaf)"
  have m: "mm_ok bs s" "mgr_free (mm_manager s) = Builtin"
    and r: "root = Some (ad z)" "rtree (ec_heap s) ?t" "nodes_live bs ?t" "search_tree ?t"
    using c by (simp_all add: cache_ok_def)
  have h: "ec_heap s (ad z) = Some (mk z None (Some (ad a)) (Some (ad b)))" "ec_heap s (ad a) = Some (mk a (Some (ad z)) None None)"
    "ec_heap s (ad b) = Some (mk b (Some (ad z)) None None)" "ad a \<noteq> ad z" "ad b \<noteq> ad z" "ad a \<noteq> ad b" "blk z"
    using r by (auto simp: rtree_def search_tree_def)
  have f: "find_walk (ec_heap s) root (ky z) = Some (Some (ad z))"
    using h r(1) by (subst find_walk.simps) simp
  have mn: "minimum (ec_heap s) (ad b) = Some (ad b)" using h by (subst minimum.simps) simp
  let ?h = "(ec_heap s)(ad a \<mapsto> mk a (Some (ad b)) None None, ad b \<mapsto> mk (paint True b) None (Some (ad a)) None)"
  have u: "unlink_node (ad z) (ec_heap s, root) = Some (ad b, None, Some (ad b), ?h, Some (ad b))"
    using h r(1) mn blk_def [of z] by (simp add: unlink_node_def transplant_def place_simps fun_upd_twist)
  obtain n where n: "(ad z, n) \<in> live bs" "sizeof_ecache \<le> n" using r(3) by (auto simp: nodes_live_def)
  let ?g = "?h(ad z := None)"
  let ?s = "s\<lparr>ec_heap := ?g\<rparr>"
  have "mm_ok bs ?s" "mgr_free (mm_manager ?s) = Builtin" "0 < n" using m n by (simp_all add: mm_ok_def sizeof_ecache_def)
  then obtain k al where fr: "nft32_free_s (Some (ad z)) ?s = Some ((), ?s\<lparr>mm_heap := k, mm_allocated := al\<rparr>)"
    using free_node n(1) by blast
  have "fix_delete_right (ad b) (mk (paint True b) None (Some (ad a)) None) (?g, Some (ad b)) = None"
    using h red by (simp add: fix_delete_right_def place_simps nil_or_black_def)
  then have "fix_delete None (Some (ad b)) (?g, Some (ad b)) = None"
    using h by (simp add: fix_delete_def fix_delete_loop.simps [of None] nil_or_black_def deref_def)
  then show ?thesis using f u fr h(5) by (simp add: ecache_delete_def)
qed

section \<open>The index as a dictionary\<close>

text \<open>What the users of the index rely on: a search gives the binding of the key; an insertion never
  changes an existing binding, and adds one for a new key as long as there is room, of which it takes
  one unit.\<close>

fun run_all :: "('k \<Rightarrow> 'i \<Rightarrow> 's \<Rightarrow> 's option) \<Rightarrow> ('k \<times> 'i) list \<Rightarrow> 's \<Rightarrow> 's option" where
  "run_all ins [] s = Some s"
| "run_all ins ((k, i) # kis) s = do { s \<leftarrow> ins k i s; run_all ins kis s }"

locale dictionary =
  fixes good :: "'s \<Rightarrow> ('k \<Rightarrow> 'v option) \<Rightarrow> nat \<Rightarrow> bool"
    and look :: "'k \<Rightarrow> 's \<Rightarrow> 'v option option"
    and ins :: "'k \<Rightarrow> 'i \<Rightarrow> 's \<Rightarrow> 's option"
    and enc :: "'i \<Rightarrow> 'v"
  assumes look_law: "good s m n \<Longrightarrow> look k s = Some (m k)"
    and ins_old: "good s m n \<Longrightarrow> k \<in> dom m \<Longrightarrow> \<exists>s'. ins k i s = Some s' \<and> good s' m n"
    and ins_new: "good s m (Suc n) \<Longrightarrow> k \<notin> dom m \<Longrightarrow> \<exists>s'. ins k i s = Some s' \<and> good s' (m(k \<mapsto> enc i)) n"
begin

lemma run_all_exact:
  assumes "good s m n" "card (fst ` set kis - dom m) \<le> n"
  shows "\<exists>s' n'. run_all ins kis s = Some s' \<and> good s' ((\<lambda>k. map_option enc (map_of kis k)) ++ m) n'"
  using assms
proof (induction kis arbitrary: s m n)
  case Nil
  then show ?case by (auto simp: map_add_def)
next
  case (Cons ki kis)
  obtain k i where ki: "ki = (k, i)" by (cases ki)
  show ?case
  proof (cases "k \<in> dom m")
    case True
    then obtain s1 where s1: "ins k i s = Some s1" "good s1 m n" using ins_old Cons.prems(1) by blast
    have "fst ` set (ki # kis) - dom m = fst ` set kis - dom m" using True ki by auto
    then obtain s' n' where "run_all ins kis s1 = Some s'" "good s' ((\<lambda>k. map_option enc (map_of kis k)) ++ m) n'"
      using Cons.IH [OF s1(2)] Cons.prems(2) by auto
    moreover have "(\<lambda>k. map_option enc (map_of (ki # kis) k)) ++ m = (\<lambda>k. map_option enc (map_of kis k)) ++ m"
      using True by (auto simp: map_add_def ki fun_eq_iff split: option.splits)
    ultimately show ?thesis using s1(1) by (intro exI [of _ s'] exI [of _ n']) (simp add: ki)
  next
    case False
    have c: "fst ` set (ki # kis) - dom m = insert k (fst ` set kis - dom (m(k \<mapsto> enc i)))" using False ki by auto
    have "card (fst ` set (ki # kis) - dom m) = Suc (card (fst ` set kis - dom (m(k \<mapsto> enc i))))"
      unfolding c by (rule card_insert_disjoint) auto
    then obtain n0 where n0: "n = Suc n0" "card (fst ` set kis - dom (m(k \<mapsto> enc i))) \<le> n0"
      using Cons.prems(2) by (cases n) auto
    obtain s1 where s1: "ins k i s = Some s1" "good s1 (m(k \<mapsto> enc i)) n0" using ins_new Cons.prems(1) n0(1) False by blast
    obtain s' n' where s': "run_all ins kis s1 = Some s'" "good s' ((\<lambda>k. map_option enc (map_of kis k)) ++ m(k \<mapsto> enc i)) n'"
      using Cons.IH [OF s1(2) n0(2)] by blast
    have "(\<lambda>k. map_option enc (map_of (ki # kis) k)) ++ m = (\<lambda>k. map_option enc (map_of kis k)) ++ m(k \<mapsto> enc i)"
      using False by (auto simp: map_add_def ki fun_eq_iff domIff split: option.splits)
    moreover have "run_all ins (ki # kis) s = Some s'" using s1(1) s'(1) by (simp add: ki)
    ultimately show ?thesis using s'(2) by metis
  qed
qed

lemma look_after_inserts:
  assumes "good s Map.empty n" "card (fst ` set kis) \<le> n"
  shows "\<exists>s'. run_all ins kis s = Some s' \<and> (\<forall>k. look k s' = Some (map_option enc (map_of kis k)))"
proof -
  obtain s' n' where "run_all ins kis s = Some s'" "good s' ((\<lambda>k. map_option enc (map_of kis k)) ++ Map.empty) n'"
    using run_all_exact [OF assms(1), of kis] assms(2) by auto
  then show ?thesis using look_law by (auto simp: map_add_def)
qed

end

text \<open>The root pointer with the state; the flags of a node keep what its memory held before.\<close>

definition ec_lookup :: "u32 \<Rightarrow> nat option \<times> ('w, 'z) ecache_state_scheme \<Rightarrow> (u32 \<times> 3 word) option option" where
  "ec_lookup k rs = do {
     (p, s) \<leftarrow> ecache_find (fst rs) k (snd rs);
     (case p of
        None \<Rightarrow> Some None
      | Some a \<Rightarrow> do { n \<leftarrow> ec_heap s a; Some (Some (ec_ca n, ec_flags n AND NOT ECACHE_BLACK)) }) }"

definition ec_put :: "u32 \<Rightarrow> byte \<times> u32 \<Rightarrow> nat option \<times> ('w, 'z) ecache_state_scheme \<Rightarrow> (nat option \<times> ('w, 'z) ecache_state_scheme) option" where
  "ec_put k i rs = ecache_insert (fst rs) k (fst i) (snd i) (snd rs)"

definition ec_value :: "3 word \<Rightarrow> byte \<times> u32 \<Rightarrow> u32 \<times> 3 word" where
  "ec_value junk i = (snd i, (junk AND NOT ECACHE_BLACK) OR kind_flag (fst i))"

definition ec_good :: "3 word \<Rightarrow> nat option \<times> ('w, 'z) ecache_state_scheme \<Rightarrow> (u32 \<Rightarrow> (u32 \<times> 3 word) option) \<Rightarrow> nat \<Rightarrow> bool" where
  "ec_good junk rs m n = (\<exists>bs t. cache_ok bs (snd rs) (fst rs) t \<and> ec_map t = m \<and> stack_flags (snd rs) = junk \<and> n \<le> node_room bs)"

lemma ec_lookup_ok: "cache_ok bs s root t \<Longrightarrow> ec_lookup k (root, s) = Some (ec_map t k)"
  using ecache_find_ok [of bs s root t k] by (cases "ec_map t k") (auto simp: ec_lookup_def)

lemma ec_put_ok:
  assumes g: "ec_good junk rs m n"
  shows "\<exists>rs'. ec_put k i rs = Some rs' \<and> (k \<in> dom m \<longrightarrow> ec_good junk rs' m n) \<and>
    (k \<notin> dom m \<and> n \<noteq> 0 \<longrightarrow> ec_good junk rs' (m(k \<mapsto> ec_value junk i)) (n - 1))"
proof -
  obtain bs t where c: "cache_ok bs (snd rs) (fst rs) t" "ec_map t = m" "stack_flags (snd rs) = junk" "n \<le> node_room bs"
    using g by (auto simp: ec_good_def)
  obtain root' s' t' bs' where 1: "ecache_insert (fst rs) k (fst i) (snd i) (snd rs) = Some (root', s')" "cache_ok bs' s' root' t'"
    "stack_flags s' = junk" "if k \<in> dom m then ec_map t' = m else ec_map t' = m(k \<mapsto> ec_value junk i) \<or>
       ec_map t' = m \<and> (\<forall>(n, free) \<in> set (merge_free bs). free \<longrightarrow> n < round8 sizeof_ecache)"
    "node_room bs \<le> node_room bs' + (if k \<in> dom m then 0 else 1)"
    "k \<notin> dom m \<and> node_room bs \<noteq> 0 \<longrightarrow> ec_map t' = m(k \<mapsto> ec_value junk i)"
    using ecache_insert_ok [OF c(1), of k "fst i" "snd i"] unfolding c(2,3) ec_value_def [symmetric]
    by (elim exE conjE) (rule that)
  have "ec_put k i rs = Some (root', s')" using 1(1) by (simp add: ec_put_def)
  moreover have "ec_good junk (root', s') m n" if "k \<in> dom m"
  proof -
    have "ec_map t' = m" "n \<le> node_room bs'" using 1(4,5) c(4) that by simp_all
    then show ?thesis using 1(2,3) unfolding ec_good_def by auto
  qed
  moreover have "ec_good junk (root', s') (m(k \<mapsto> ec_value junk i)) (n - 1)" if "k \<notin> dom m \<and> n \<noteq> 0"
  proof -
    have "node_room bs \<noteq> 0" "n - 1 \<le> node_room bs'" using that c(4) 1(5) by auto
    then show ?thesis using 1(2,3,6) c(3) that unfolding ec_good_def by auto
  qed
  ultimately show ?thesis by blast
qed

interpretation ec: dictionary "ec_good junk" ec_lookup ec_put "ec_value junk" for junk
proof unfold_locales
  fix rs :: "nat option \<times> ('a, 'b) ecache_state_scheme" and m n k i
  show "ec_lookup k rs = Some (m k)" if "ec_good junk rs m n"
    using that ec_lookup_ok by (cases rs) (auto simp: ec_good_def)
  show "\<exists>rs'. ec_put k i rs = Some rs' \<and> ec_good junk rs' m n" if "ec_good junk rs m n" "k \<in> dom m"
    using ec_put_ok [OF that(1)] that(2) by blast
  show "\<exists>rs'. ec_put k i rs = Some rs' \<and> ec_good junk rs' (m(k \<mapsto> ec_value junk i)) n" if "ec_good junk rs m (Suc n)" "k \<notin> dom m"
    using ec_put_ok [OF that(1), of k i] that(2) by auto
qed

section \<open>Concrete indexes\<close>

definition ec_state :: "mm_block list \<Rightarrow> u32 \<Rightarrow> (nat \<Rightarrow> ecache_t option) \<Rightarrow> (nat \<Rightarrow> byte list) ecache_state" where
  "ec_state hs al h = (mem_start \<lparr>errors_lock = NULL_LOCK, errors_ring = \<lparr>first_error = 1, err_current = 1, last_error = 1\<rparr>,
     bitmap = None, fatmap_lock = NULL_LOCK, fat_cache = None, fat_lock = NULL_LOCK, allocater_lock = NULL_LOCK,
     last_allocated_cluster = 2, journal_index = 0, journal_lock = NULL_LOCK, stack_journal = journal_zero, stack_word = 0,
     ec_heap = h, stack_flags = 3\<rparr>)
     \<lparr>mm_heap := (\<lambda>a. if a mod 64 = 0 \<and> a div 64 < length hs then Some (hs ! (a div 64)) else None), mm_allocated := al\<rparr>"

definition ec_empty :: "(nat \<Rightarrow> byte list) ecache_state" where
  "ec_empty = ec_state [\<lparr>blk_magic = MM_BLOCK_MAGIC, blk_size = 511976, blk_free = 1, blk_next = None\<rparr>] 0 (\<lambda>_. None)"

lemma ec_empty_ok: "cache_ok one_block ec_empty None Leaf"
  by (simp add: cache_ok_def ec_empty_def ec_state_def mem_start_def mm_ok_def one_block_def mm_head_def rtree_def nodes_live_def
      search_tree_def keys_def extent_def used_def ALLOC_BUFFER_SIZE_def sizeof_mm_block_def)

text \<open>Three entries: a black root and two red children.\<close>

definition node_block :: "nat option \<Rightarrow> mm_block" where
  "node_block nxt = \<lparr>blk_magic = MM_BLOCK_MAGIC, blk_size = 40, blk_free = 0, blk_next = nxt\<rparr>"

definition cell_a :: cell where "cell_a = \<lparr>ad = 88, fl = 2, ky = 1, tgt = 7\<rparr>"
definition cell_z :: cell where "cell_z = \<lparr>ad = 24, fl = 3, ky = 2, tgt = 8\<rparr>"
definition cell_b :: cell where "cell_b = \<lparr>ad = 152, fl = 2, ky = 3, tgt = 9\<rparr>"

definition ec_three :: "(nat \<Rightarrow> byte list) ecache_state" where
  "ec_three = ec_state [node_block (Some 64), node_block (Some 128), node_block (Some 192),
      \<lparr>blk_magic = MM_BLOCK_MAGIC, blk_size = 511784, blk_free = 1, blk_next = None\<rparr>] 192
    ((\<lambda>_. None)(24 \<mapsto> mk cell_z None (Some 88) (Some 152), 88 \<mapsto> mk cell_a (Some 24) None None, 152 \<mapsto> mk cell_b (Some 24) None None))"

abbreviation tree_three :: "cell tree" where "tree_three \<equiv> Node (Node Leaf cell_a Leaf) cell_z (Node Leaf cell_b Leaf)"

abbreviation blocks_three :: blocks where "blocks_three \<equiv> [(40, False), (40, False), (40, False), (511784, True)]"

lemma live_three: "live blocks_three = {(24, 40), (88, 40), (152, 40)}"
  by (auto simp: live_def mm_head_def sizeof_mm_block_def)

lemma ec_three_ok: "cache_ok blocks_three ec_three (Some 24) tree_three"
proof -
  have "mm_ok blocks_three ec_three"
    by (simp add: mm_ok_def ec_three_def ec_state_def mem_start_def node_block_def mm_head_def extent_def used_def ALLOC_BUFFER_SIZE_def sizeof_mm_block_def)
  moreover have "rtree (ec_heap ec_three) tree_three"
    by (simp add: rtree_def ec_three_def ec_state_def mem_start_def cell_a_def cell_b_def cell_z_def)
  moreover have "search_tree tree_three"
    by (simp add: search_tree_def keys_def blk_def ECACHE_BLACK_def cell_a_def cell_b_def cell_z_def)
  moreover have "nodes_live blocks_three tree_three"
    unfolding nodes_live_def live_three by (auto simp: cell_a_def cell_b_def cell_z_def sizeof_ecache_def)
  ultimately show ?thesis
    by (simp add: cache_ok_def cell_z_def) (simp add: ec_three_def ec_state_def mem_start_def)
qed

section \<open>Properties\<close>

text \<open>C14 (insertion refines map update). On an index that represents the red-black search tree \<open>t\<close>,
  \<open>ecache_insert\<close> returns, the new root represents a red-black search tree with live nodes of logarithmic depth, every
  search in it gives the binding of the map of \<open>t\<close>, extended by the new entry when its hash is new and
  memory was found, and no node of another index is touched.\<close>

theorem index_insert:
  assumes "cache_ok bs s root t"
  shows "\<exists>root' s' t' bs'. ecache_insert root k is_dir ca s = Some (root', s') \<and> cache_ok bs' s' root' t' \<and>
    2 ^ height t' \<le> (size t' + 1)\<^sup>2 \<and> (\<forall>j. ec_lookup j (root', s') = Some (ec_map t' j)) \<and>
    (\<forall>(a, n) \<in> live bs. a \<notin> addrs t \<longrightarrow> (a, n) \<in> live bs' \<and> a \<notin> addrs t' \<and> ec_heap s' a = ec_heap s a) \<and>
    (if k \<in> dom (ec_map t) then ec_map t' = ec_map t
     else ec_map t' = (ec_map t)(k \<mapsto> (ca, (stack_flags s AND NOT ECACHE_BLACK) OR kind_flag is_dir)) \<or>
       ec_map t' = ec_map t \<and> (\<forall>(n, free) \<in> set (merge_free bs). free \<longrightarrow> n < round8 sizeof_ecache))"
proof -
  obtain root' s' t' bs' where 1: "ecache_insert root k is_dir ca s = Some (root', s')" "cache_ok bs' s' root' t'"
    "\<forall>(a, n) \<in> live bs. a \<notin> addrs t \<longrightarrow> (a, n) \<in> live bs' \<and> a \<notin> addrs t' \<and> ec_heap s' a = ec_heap s a"
    "if k \<in> dom (ec_map t) then ec_map t' = ec_map t
     else ec_map t' = (ec_map t)(k \<mapsto> (ca, (stack_flags s AND NOT ECACHE_BLACK) OR kind_flag is_dir)) \<or>
       ec_map t' = ec_map t \<and> (\<forall>(n, free) \<in> set (merge_free bs). free \<longrightarrow> n < round8 sizeof_ecache)"
    using ecache_insert_ok [OF assms] by blast
  moreover have "2 ^ height t' \<le> (size t' + 1)\<^sup>2" using 1(2) search_tree_depth by (simp add: cache_ok_def)
  ultimately show ?thesis using ec_lookup_ok [OF 1(2)] by blast
qed

theorem index_insert_witness:
  "\<exists>root s. ecache_insert None 77 1 5 ec_empty = Some (root, s) \<and> ec_lookup 77 (root, s) = Some (Some (5, 6))"
proof -
  have room: "\<not> (\<forall>(n, free) \<in> set (merge_free one_block). free \<longrightarrow> n < round8 sizeof_ecache)"
    by (simp add: one_block_def round8_def sizeof_ecache_def ALLOC_BUFFER_SIZE_def sizeof_mm_block_def)
  have "stack_flags ec_empty = 3" by (simp add: ec_empty_def ec_state_def mem_start_def)
  then have v: "(stack_flags ec_empty AND NOT ECACHE_BLACK) OR kind_flag 1 = 6"
    by (simp add: ECACHE_BLACK_def kind_flag_def ECACHE_DIR_def)
  have "ec_map Leaf = Map.empty" by (simp add: ec_map_def)
  then show ?thesis using index_insert [OF ec_empty_ok, of 77 1 5] room unfolding v by fastforce
qed

text \<open>C33 (the index holds what was indexed). Start with an empty index and room in memory for as many
  nodes as a list of insertions has different hashes. All insertions return, and afterwards a search finds
  exactly the hashes of the list, each with the address and kind of its first insertion.\<close>

theorem index_holds:
  assumes "mm_ok bs s" and "mgr_malloc (mm_manager s) = Builtin" and "mgr_free (mm_manager s) = Builtin"
    and "card (fst ` set kis) \<le> node_room bs"
  shows "\<exists>rs. run_all ec_put kis (None, s) = Some rs \<and>
    (\<forall>k. ec_lookup k rs = Some (map_option (ec_value (stack_flags s)) (map_of kis k)))"
proof -
  have "cache_ok bs s None Leaf"
    using assms(1-3) by (simp add: cache_ok_def rtree_def nodes_live_def search_tree_def keys_def)
  then have "ec_good (stack_flags s) (None, s) Map.empty (node_room bs)"
    by (auto simp: ec_good_def ec_map_def intro!: exI [of _ Leaf])
  then show ?thesis using assms(4) by (rule ec.look_after_inserts)
qed

text \<open>Five insertions under four hashes; the second one under hash 9 changes nothing.\<close>

theorem index_holds_witness:
  "\<exists>rs. run_all ec_put [(5, (1, 2)), (9, (0, 3)), (7, (1, 4)), (9, (1, 8)), (1, (0, 6))] (None, ec_empty) = Some rs \<and>
     ec_lookup 9 rs = Some (Some (ec_value (stack_flags ec_empty) (0, 3))) \<and> ec_lookup 6 rs = Some None"
proof -
  have "mm_ok one_block ec_empty" "mgr_malloc (mm_manager ec_empty) = Builtin" "mgr_free (mm_manager ec_empty) = Builtin"
    using ec_empty_ok by (simp_all add: cache_ok_def)
  moreover have "node_room one_block = 8000" by (simp add: one_block_def ALLOC_BUFFER_SIZE_def)
  moreover have "card (fst ` set kis) \<le> length kis" for kis :: "(u32 \<times> byte \<times> u32) list"
    using card_length [of "map fst kis"] by simp
  from this [of "[(5, (1, 2)), (9, (0, 3)), (7, (1, 4)), (9, (1, 8)), (1, (0, 6))]"]
  have "card (fst ` set [(5, (1, 2)), (9, (0, 3)), (7, (1, 4)), (9, (1, 8)), (1 :: u32, (0 :: byte, 6 :: u32))]) \<le> 8000" by simp
  ultimately show ?thesis
    using index_holds [of one_block ec_empty "[(5, (1, 2)), (9, (0, 3)), (7, (1, 4)), (9, (1, 8)), (1, (0, 6))]"]
    by auto
qed

text \<open>C34 (freeing an index). \<open>ecache_free\<close> returns, removes every node of the tree, gives back exactly
  their regions and leaves the other nodes as they were.\<close>

theorem index_free:
  assumes "cache_ok bs s root t"
  shows "\<exists>r s' bs'. ecache_free root s = Some (r, s') \<and> mm_ok bs' s' \<and> live bs' = {(a, n) \<in> live bs. a \<notin> addrs t} \<and>
    ec_heap s' = (\<lambda>a. if a \<in> addrs t then None else ec_heap s a)"
  using ecache_free_ok [of s None t bs] assms by (fastforce simp: cache_ok_def rtree_def)

theorem index_free_witness:
  "\<exists>r s bs. ecache_free (Some 24) ec_three = Some (r, s) \<and> mm_ok bs s \<and> live bs = {}"
  using index_free [OF ec_three_ok] by (auto simp: live_three cell_a_def cell_b_def cell_z_def)

text \<open>Deleting a red leaf. When the node of the hash is red and has no children, \<open>ecache_delete\<close>
  removes exactly this entry and the tree stays a red-black search tree.\<close>

theorem index_delete_leaf:
  assumes "cache_ok bs s root (plug (Node Leaf v Leaf) c)" and "\<not> blk v"
  shows "\<exists>root' s' bs' t'. ecache_delete root (ky v) s = Some (root', s') \<and> cache_ok bs' s' root' t' \<and>
    ec_map t' = (ec_map (plug (Node Leaf v Leaf) c))(ky v := None)"
  using ecache_delete_leaf [OF assms(1) refl assms(2)] by blast

theorem index_delete_leaf_witness:
  "\<exists>root s bs t. ecache_delete (Some 24) 3 ec_three = Some (root, s) \<and> cache_ok bs s root t \<and> ec_map t 3 = None \<and> ec_map t 1 = Some (7, 2)"
proof -
  have "\<not> blk cell_b" "cache_ok blocks_three ec_three (Some 24) (plug (Node Leaf cell_b Leaf) [(False, cell_z, Node Leaf cell_a Leaf)])"
    using ec_three_ok by (simp_all add: blk_def cell_b_def ECACHE_BLACK_def)
  from index_delete_leaf [OF this(2,1)] obtain root s bs t where d: "ecache_delete (Some 24) (ky cell_b) ec_three = Some (root, s)"
    "cache_ok bs s root t" "ec_map t = (ec_map (plug (Node Leaf cell_b Leaf) [(False, cell_z, Node Leaf cell_a Leaf)]))(ky cell_b := None)"
    by blast
  then have "ec_map t 3 = None" "ec_map t 1 = Some (7, 2)"
    by (simp_all add: ec_map_def cval_def ECACHE_BLACK_def cell_a_def cell_b_def cell_z_def)
  then show ?thesis using d(1,2) by (auto simp: cell_b_def)
qed

text \<open>C35 (deleting the root of three entries). With a black root and two red children, deletion of the
  root's hash follows a \<open>NULL\<close> pointer: the colour of the successor is read after the successor took
  the colour of the root, so a tree that lost no black node is rebalanced.\<close>

theorem index_delete_root:
  assumes "cache_ok bs s root (Node (Node Leaf a Leaf) z (Node Leaf b Leaf))" and "\<not> blk a" and "\<not> blk b"
  shows "ecache_delete root (ky z) s = None"
  using ecache_delete_root [OF assms] .

theorem index_delete_root_witness:
  "ecache_delete (Some 24) 2 ec_three = None"
  using index_delete_root [OF ec_three_ok] by (simp add: blk_def cell_a_def cell_b_def cell_z_def ECACHE_BLACK_def)

declare node_block_size [simp del]

end
