(* ===== verification/Filedata.thy ===== *)
theory Filedata
  imports Content Chain
begin

text \<open>
  The data of an open content: the clusters of its chain, one after the other. Reading returns a part
  of it, writing inside of the chain replaces one, and neither changes the table or another content.
\<close>

unbundle bit_operations_syntax

section \<open>A file as bytes\<close>

definition file_bytes :: "('w \<Rightarrow> nat \<Rightarrow> byte list) \<Rightarrow> fat_data \<Rightarrow> 'w \<Rightarrow> u32 list \<Rightarrow> byte list" where
  "file_bytes secs fi w cs = concat (map (cluster_bytes secs fi w) cs)"

text \<open>No cluster of the file lies over a copy of the table.\<close>

definition apart :: "fat_data \<Rightarrow> nat \<Rightarrow> u32 list \<Rightarrow> bool" where
  "apart fi ssz cs = (\<forall>c \<in> set cs. cluster_area fi c \<inter> fat_sectors fi ssz = {})"

lemma file_bytes_simps [simp]:
  "file_bytes secs fi w [] = []" "file_bytes secs fi w (c # cs) = cluster_bytes secs fi w c @ file_bytes secs fi w cs"
  by (simp_all add: file_bytes_def)

lemma apart_simps [simp]: "apart fi ssz []"
  "apart fi ssz (c # cs) = (cluster_area fi c \<inter> fat_sectors fi ssz = {} \<and> apart fi ssz cs)"
  by (auto simp: apart_def)

lemma file_bytes_eq:
  "(\<And>c i. c \<in> set cs \<Longrightarrow> i \<in> cluster_area fi c \<Longrightarrow> secs w i = secs w' i) \<Longrightarrow> file_bytes secs fi w cs = file_bytes secs fi w' cs"
  unfolding file_bytes_def by (intro arg_cong [of _ _ concat] map_cong refl cluster_bytes_cong)

lemma fat_step_outside: "fat_step secs ssz fi s s' \<Longrightarrow> x \<notin> fat_sectors fi ssz \<Longrightarrow> secs (world s') x = secs (world s) x"
  by (auto simp: fat_step_def)

lemma file_bytes_step:
  assumes "fat_step secs ssz fi s s'" "apart fi ssz cs"
  shows "file_bytes secs fi (world s') cs = file_bytes secs fi (world s) cs"
  using fat_step_outside [OF assms(1)] assms(2) by (intro file_bytes_eq) (auto simp: apart_def)

lemma fat_step_world: "secs w = secs (world s) \<Longrightarrow> fat_step secs ssz fi s (s\<lparr>world := w\<rparr>)"
  using fat_stepI [where w = w and b = "bitmap s" and c = "fat_cache s" and s = s] by fastforce

lemma splice_append_left: "off + length xs \<le> length a \<Longrightarrow> splice (a @ b) off xs = splice a off xs @ b"
  by (simp add: splice_def)

lemma splice_append_right: "length a \<le> off \<Longrightarrow> splice (a @ b) off xs = a @ splice b (off - length a) xs"
  by (simp add: splice_def Suc_diff_le)

lemma splice_tail: "n + length p \<le> length buf \<Longrightarrow> take n buf @ splice (drop n buf) 0 p = splice buf n p"
  by (simp add: splice_def add.commute)

text \<open>The link of the last cluster of a part of the chain.\<close>

lemma chain_link:
  assumes "links_ok fi" "fat_chain fi t (c # cs)"
  shows "in_vol fi c" "cs = [] \<Longrightarrow> is_cluster_end (t (unat c))"
    "cs = d # ds \<Longrightarrow> t (unat c) = d \<and> \<not> is_cluster_end d \<and> \<not> is_cluster_bad d \<and> fat_chain fi t cs"
  using assms in_vol_marks [OF assms(1), of d] fat_chain_in_vol [OF assms(2), of d]
  by (cases cs; auto simp: cluster_tests)+

lemma portion_eq:
  assumes "unat off \<le> unat (cluster_size fi)" "unat (cluster_size fi) < 2 ^ 31"
  shows "portion fi off n = min n (int (unat (cluster_size fi) - unat off))"
proof -
  have u: "unat (cluster_size fi - off) = unat (cluster_size fi) - unat off"
    using assms(1) by (simp add: unat_sub word_le_nat_alt)
  then have "sint (cluster_size fi - off) = int (unat (cluster_size fi) - unat off)"
    using sint_small [of "cluster_size fi - off"] assms(2) by simp
  then show ?thesis by (simp add: portion_def)
qed

lemma min_nat: "0 \<le> n \<Longrightarrow> min n (int k) = int (min k (nat n))"
  by (auto simp: min_def)

section \<open>Reading\<close>

text \<open>Reading the link of a cluster.\<close>

lemma read_linkE:
  assumes "vol_ok rd wr good secs nsec ssz fi s" "in_vol fi c"
  obtains s' where "read_fat c fi s = Some (fat_of secs ssz fi s (unat c), s')" "vol_ok rd wr good secs nsec ssz fi s'"
    "ft.same fi (fat_of secs ssz fi s') (fat_of secs ssz fi s)" "fat_step secs ssz fi s s'"
  using ft.readE [OF assms(1)] assms(2) unfolding in_vol_def by blast

lemma fs_data_step: "fat_step secs ssz fi s s' \<Longrightarrow> fs_data s' = fs_data s"
  by (auto simp: fat_step_def)

lemma read_step_ok:
  assumes vol: "vol_ok rd wr good secs nsec ssz fi s" and geom: "data_geom fi nsec ssz" and fi: "fs_data s = fi"
    and c: "in_vol fi c" and area: "cluster_area fi c \<inter> fat_sectors fi ssz = {}"
    and n: "0 \<le> n" "0 \<le> tot" "nat tot + nat n \<le> length buf"
  shows "\<exists>s' xs. let csz = unat (cluster_size fi) in
    xs = take (nat n) (drop (unat off) (cluster_bytes secs fi (world s) c)) \<and>
    read_step c off buf n tot s = Some ((Some (if unat off > csz then off - cluster_size fi else 0, n - int (length xs), tot + int (length xs)), splice buf (nat tot) xs), s') \<and>
    vol_ok rd wr good secs nsec ssz fi s' \<and> ft.same fi (fat_of secs ssz fi s') (fat_of secs ssz fi s) \<and> fat_step secs ssz fi s s'"
proof (cases "unat off > unat (cluster_size fi)")
  case True
  then show ?thesis using vol fi length_cluster_bytes [OF vol geom c] fat_step_refl
    by (intro exI [of _ s] exI [of _ "[]"]) (simp add: read_step_def Let_def word_less_nat_alt)
next
  case False
  let ?B = "cluster_bytes secs fi (world s) c"
  let ?xs = "take (nat n) (drop (unat off) ?B)"
  have B: "length ?B = unat (cluster_size fi)" using length_cluster_bytes [OF vol geom c] .
  have small: "unat (cluster_size fi) < 2 ^ 31" using geom by (simp add: data_geom_def)
  have p: "portion fi off n = int (length ?xs)" using portion_eq [OF leI [OF False] small, of n] min_nat [OF n(1)] by (simp only: length_take length_drop B)
  have le: "length ?xs \<le> nat n" "length ?xs \<le> unat (cluster_size fi) - unat off" using B by simp_all
  then have room: "unat off + nat (int (length ?xs)) \<le> unat (cluster_size fi)" "nat (int (length ?xs)) \<le> length (drop (nat tot) buf)"
    using False n(3) by (simp_all del: length_take)
  obtain w where w: "readoff_cluster c off (drop (nat tot) buf) (int (length ?xs)) fi s =
      Some ((1, splice (drop (nat tot) buf) 0 (take (length ?xs) (drop (unat off) ?B))), s\<lparr>world := w\<rparr>)" "good w" "secs w = secs (world s)"
    using readoff_cluster_ok [OF vol geom c, of "int (length ?xs)" off "drop (nat tot) buf"] room by (auto simp del: length_take)
  have "take (length ?xs) (drop (unat off) ?B) = ?xs" by (simp add: min_def)
  moreover have "take (nat tot) buf @ splice (drop (nat tot) buf) 0 ?xs = splice buf (nat tot) ?xs"
    using n(3) le by (intro splice_tail) linarith
  ultimately have "read_step c off buf n tot s = Some ((Some (0, n - int (length ?xs), tot + int (length ?xs)), splice buf (nat tot) ?xs), s\<lparr>world := w\<rparr>)"
    using w(1) fi False p by (simp add: read_step_def Let_def word_less_nat_alt)
  moreover have "fat_geom fi nsec ssz" using vol by (simp add: vol_ok_def)
  then have "ft.same fi (fat_of secs ssz fi (s\<lparr>world := w\<rparr>)) (fat_of secs ssz fi s)" using w(3) by (intro fat_of_world) simp_all
  ultimately show ?thesis using vol_ok_world [OF vol w(2)] fat_step_world [of secs w s ssz fi] w(3) False
    by (intro exI [of _ "s\<lparr>world := w\<rparr>"] exI [of _ ?xs]) simp
qed

lemma read_loop_step:
  "read_step c off buf n tot s = Some ((Some (off', n', tot'), buf'), s1) \<Longrightarrow> read_fat c (fs_data s1) s1 = Some (d, s2) \<Longrightarrow>
    \<not> is_cluster_end d \<Longrightarrow> \<not> is_cluster_bad d \<Longrightarrow> n' > 0 \<Longrightarrow> read_loop c off buf n tot s = read_loop d off' buf' n' tot' s2"
  by (subst read_loop.simps) simp

lemma splice_parts:
  assumes "xs = ys @ zs" "length zs \<le> nat (n - int (length ys))" "0 \<le> tot" "n - int (length ys) > 0" "nat tot + nat n \<le> length buf"
  shows "splice (splice buf (nat tot) ys) (nat (tot + int (length ys))) zs = splice buf (nat tot) xs"
    "tot + int (length ys) + int (length zs) = tot + int (length xs)"
proof -
  have "nat tot + length ys + length zs \<le> length buf" using assms(2-5) by linarith
  moreover have "nat (tot + int (length ys)) = nat tot + length ys" using assms(3) by (simp add: nat_add_distrib)
  ultimately show "splice (splice buf (nat tot) ys) (nat (tot + int (length ys))) zs = splice buf (nat tot) xs"
    using splice_splice [of "nat tot" ys zs buf] assms(1) by simp
qed (simp add: assms(1))

lemma read_loop_ok:
  assumes links: "links_ok fi" and geom: "data_geom fi nsec ssz"
  shows "vol_ok rd wr good secs nsec ssz fi s \<Longrightarrow> fs_data s = fi \<Longrightarrow> fat_chain fi (fat_of secs ssz fi s) (c # cs) \<Longrightarrow> apart fi ssz (c # cs) \<Longrightarrow>
    0 \<le> n \<Longrightarrow> 0 \<le> tot \<Longrightarrow> nat tot + nat n \<le> length buf \<Longrightarrow>
    xs = take (nat n) (drop (unat off) (file_bytes secs fi (world s) (c # cs))) \<Longrightarrow>
    \<exists>s'. read_loop c off buf n tot s = Some ((tot + int (length xs), splice buf (nat tot) xs), s') \<and>
      vol_ok rd wr good secs nsec ssz fi s' \<and> ft.same fi (fat_of secs ssz fi s') (fat_of secs ssz fi s) \<and> fat_step secs ssz fi s s'"
proof (induction cs arbitrary: c off buf n tot s xs)
  case (Nil c off buf n tot s xs)
  note link = chain_link [OF links Nil.prems(3)]
  obtain s1 where 1: "read_step c off buf n tot s = Some ((Some (if unat off > unat (cluster_size fi) then off - cluster_size fi else 0,
      n - int (length xs), tot + int (length xs)), splice buf (nat tot) xs), s1)"
    "vol_ok rd wr good secs nsec ssz fi s1" "ft.same fi (fat_of secs ssz fi s1) (fat_of secs ssz fi s)" "fat_step secs ssz fi s s1"
    using read_step_ok [OF Nil.prems(1) geom Nil.prems(2) link(1) _ Nil.prems(5-7), of off] Nil.prems(4,8) by (auto simp: Let_def)
  obtain s2 where 2: "read_fat c fi s1 = Some (fat_of secs ssz fi s1 (unat c), s2)" "vol_ok rd wr good secs nsec ssz fi s2"
    "ft.same fi (fat_of secs ssz fi s2) (fat_of secs ssz fi s1)" "fat_step secs ssz fi s1 s2"
    by (rule read_linkE [OF 1(2) link(1)])
  have "fat_of secs ssz fi s1 (unat c) = fat_of secs ssz fi s (unat c)" using ft.same_at [OF 1(3)] link(1) by (simp add: in_vol_def)
  then have "read_loop c off buf n tot s = Some ((tot + int (length xs), splice buf (nat tot) xs), s2)"
    using 1(1) 2(1) link(2) fs_data_step [OF 1(4)] Nil.prems(2) by (subst read_loop.simps) simp
  then show ?case using 2 ft.same_trans [OF 2(3) 1(3)] fat_step_trans [OF 1(4) 2(4)] by blast
next
  case (Cons d cs c off buf n tot s xs)
  let ?csz = "unat (cluster_size fi)"
  let ?B = "cluster_bytes secs fi (world s) c" and ?R = "file_bytes secs fi (world s) (d # cs)"
  let ?ys = "take (nat n) (drop (unat off) ?B)"
  note link = chain_link [OF links Cons.prems(3)]
  have B: "length ?B = ?csz" using length_cluster_bytes [OF Cons.prems(1) geom link(1)] .
  obtain s1 where 1: "read_step c off buf n tot s = Some ((Some (if unat off > ?csz then off - cluster_size fi else 0,
      n - int (length ?ys), tot + int (length ?ys)), splice buf (nat tot) ?ys), s1)"
    "vol_ok rd wr good secs nsec ssz fi s1" "ft.same fi (fat_of secs ssz fi s1) (fat_of secs ssz fi s)" "fat_step secs ssz fi s s1"
    using read_step_ok [OF Cons.prems(1) geom Cons.prems(2) link(1) _ Cons.prems(5-7), of off] Cons.prems(4) by (auto simp: Let_def)
  obtain s2 where 2: "read_fat c fi s1 = Some (fat_of secs ssz fi s1 (unat c), s2)" "vol_ok rd wr good secs nsec ssz fi s2"
    "ft.same fi (fat_of secs ssz fi s2) (fat_of secs ssz fi s1)" "fat_step secs ssz fi s1 s2"
    by (rule read_linkE [OF 1(2) link(1)])
  have "fat_of secs ssz fi s1 (unat c) = fat_of secs ssz fi s (unat c)" using ft.same_at [OF 1(3)] link(1) by (simp add: in_vol_def)
  then have nxt: "fat_of secs ssz fi s1 (unat c) = d" using link(3) by simp
  have same: "ft.same fi (fat_of secs ssz fi s2) (fat_of secs ssz fi s)" using 2(3) 1(3) by (rule ft.same_trans)
  have step: "fat_step secs ssz fi s s2" using 1(4) 2(4) by (rule fat_step_trans)
  have xs: "xs = ?ys @ take (nat n - length ?ys) (drop (unat off - ?csz) ?R)"
  proof -
    have "file_bytes secs fi (world s) (c # d # cs) = ?B @ ?R" by (rule file_bytes_simps)
    moreover have "nat n - length (drop (unat off) ?B) = nat n - length ?ys" by simp
    ultimately show ?thesis unfolding Cons.prems(8) by (simp only: drop_append take_append B)
  qed
  show ?case
  proof (cases "n - int (length ?ys) > 0")
    case False
    then have "xs = ?ys" using xs by simp
    then have "read_loop c off buf n tot s = Some ((tot + int (length xs), splice buf (nat tot) xs), s2)"
      using 1(1) 2(1) nxt False fs_data_step [OF 1(4)] Cons.prems(2) by (subst read_loop.simps) simp
    then show ?thesis using 2(2) same step by blast
  next
    case True
    let ?off = "if unat off > ?csz then off - cluster_size fi else 0"
    let ?zs = "take (nat (n - int (length ?ys))) (drop (unat ?off) (file_bytes secs fi (world s2) (d # cs)))"
    have off: "unat ?off = unat off - ?csz" by (auto simp: unat_sub word_le_nat_alt)
    have chain: "fat_chain fi (fat_of secs ssz fi s2) (d # cs)" using link(3) fat_chain_same [OF same] by simp
    have ap: "apart fi ssz (d # cs)" using Cons.prems(4) by simp
    have R: "file_bytes secs fi (world s2) (d # cs) = ?R" using file_bytes_step [OF step ap] .
    have "nat (n - int (length ?ys)) = nat n - length ?ys" by simp
    then have zs: "xs = ?ys @ ?zs" using xs unfolding R off by simp
    have len: "nat (tot + int (length ?ys)) + nat (n - int (length ?ys)) \<le> length (splice buf (nat tot) ?ys)"
    proof -
      have yn: "length ?ys \<le> nat n" unfolding length_take by (rule min.cobounded2)
      then have "nat tot + length ?ys + nat (n - int (length ?ys)) = nat tot + nat n" using Cons.prems(5) by linarith
      moreover have "nat (tot + int (length ?ys)) = nat tot + length ?ys" using Cons.prems(6) by (simp add: nat_add_distrib)
      moreover have "nat tot + length ?ys \<le> length buf" using Cons.prems(7) yn by linarith
      then have "length (splice buf (nat tot) ?ys) = length buf" by (rule length_splice)
      ultimately show ?thesis using Cons.prems(7) by linarith
    qed
    have p: "fs_data s2 = fi" "0 \<le> n - int (length ?ys)" "0 \<le> tot + int (length ?ys)"
      using fs_data_step [OF step] Cons.prems(2,6) True by simp_all
    obtain s3 where 3: "read_loop d ?off (splice buf (nat tot) ?ys) (n - int (length ?ys)) (tot + int (length ?ys)) s2 =
        Some ((tot + int (length ?ys) + int (length ?zs), splice (splice buf (nat tot) ?ys) (nat (tot + int (length ?ys))) ?zs), s3)"
      "vol_ok rd wr good secs nsec ssz fi s3" "ft.same fi (fat_of secs ssz fi s3) (fat_of secs ssz fi s2)" "fat_step secs ssz fi s2 s3"
      using Cons.IH [OF 2(2) p(1) chain ap p(2,3) len refl] by blast
    have zl: "length ?zs \<le> nat (n - int (length ?ys))" unfolding length_take by (rule min.cobounded2)
    note splice_parts [OF zs zl Cons.prems(6) True Cons.prems(7)]
    moreover have "read_loop c off buf n tot s = read_loop d ?off (splice buf (nat tot) ?ys) (n - int (length ?ys)) (tot + int (length ?ys)) s2"
      using read_loop_step [OF 1(1)] 2(1) nxt True link(3) fs_data_step [OF 1(4)] Cons.prems(2) by metis
    ultimately show ?thesis using 3(1,2) ft.same_trans [OF 3(3) same] fat_step_trans [OF step 3(4)] by metis
  qed
qed

section \<open>Writing\<close>

text \<open>What a write leaves behind: only device, bitmap and cache change, and on the device only the
  clusters of the file and the copies of the table.\<close>

definition data_step :: "('w \<Rightarrow> nat \<Rightarrow> byte list) \<Rightarrow> nat \<Rightarrow> fat_data \<Rightarrow> u32 list \<Rightarrow>
    ('w, 'z) fat_state_scheme \<Rightarrow> ('w, 'z) fat_state_scheme \<Rightarrow> bool" where
  "data_step secs ssz fi cs s s' = (\<exists>w b k. s' = s\<lparr>world := w, bitmap := b, fat_cache := k\<rparr> \<and>
     (\<forall>x. x \<notin> fat_sectors fi ssz \<and> (\<forall>c \<in> set cs. x \<notin> cluster_area fi c) \<longrightarrow> secs w x = secs (world s) x))"

lemma data_step_fat: "fat_step secs ssz fi s s' \<Longrightarrow> data_step secs ssz fi cs s s'"
  unfolding fat_step_def data_step_def by blast

lemma data_step_trans:
  assumes "data_step secs ssz fi cs s s'" "data_step secs ssz fi ds s' s''" "set cs \<subseteq> set es" "set ds \<subseteq> set es"
  shows "data_step secs ssz fi es s s''"
proof -
  obtain w b k where 1: "s' = s\<lparr>world := w, bitmap := b, fat_cache := k\<rparr>"
    "\<forall>x. x \<notin> fat_sectors fi ssz \<and> (\<forall>c \<in> set cs. x \<notin> cluster_area fi c) \<longrightarrow> secs w x = secs (world s) x"
    using assms(1) unfolding data_step_def by blast
  obtain w' b' k' where 2: "s'' = s'\<lparr>world := w', bitmap := b', fat_cache := k'\<rparr>"
    "\<forall>x. x \<notin> fat_sectors fi ssz \<and> (\<forall>c \<in> set ds. x \<notin> cluster_area fi c) \<longrightarrow> secs w' x = secs (world s') x"
    using assms(2) unfolding data_step_def by blast
  have "s'' = s\<lparr>world := w', bitmap := b', fat_cache := k'\<rparr>" using 1(1) 2(1) by simp
  moreover have "world s' = w" using 1(1) by simp
  then have "secs w' x = secs (world s) x" if "x \<notin> fat_sectors fi ssz \<and> (\<forall>c \<in> set es. x \<notin> cluster_area fi c)" for x
  proof -
    have "\<forall>c \<in> set cs. x \<notin> cluster_area fi c" "\<forall>c \<in> set ds. x \<notin> cluster_area fi c" using that assms(3,4) by blast+
    then show ?thesis using 1(2) 2(2) that \<open>world s' = w\<close> by simp
  qed
  ultimately show ?thesis unfolding data_step_def by blast
qed

lemma data_step_outside:
  "data_step secs ssz fi cs s s' \<Longrightarrow> x \<notin> fat_sectors fi ssz \<Longrightarrow> (\<And>c. c \<in> set cs \<Longrightarrow> x \<notin> cluster_area fi c) \<Longrightarrow>
    secs (world s') x = secs (world s) x"
  unfolding data_step_def by auto

text \<open>Clusters the step is not about keep their bytes.\<close>

lemma file_bytes_others:
  assumes "data_geom fi nsec ssz" "data_step secs ssz fi cs s s'"
    and "\<forall>c \<in> set cs. in_vol fi c" "\<forall>d \<in> set ds. in_vol fi d \<and> d \<notin> set cs" "apart fi ssz ds"
  shows "file_bytes secs fi (world s') ds = file_bytes secs fi (world s) ds"
proof (rule file_bytes_eq)
  fix d i assume d: "d \<in> set ds" and i: "i \<in> cluster_area fi d"
  have "i \<notin> cluster_area fi c" if "c \<in> set cs" for c
    using cluster_areas_disjoint [OF assms(1), of c d] assms(3,4) that d i by blast
  then show "secs (world s') i = secs (world s) i" using data_step_outside [OF assms(2), of i] assms(5) d i by (auto simp: apart_def)
qed

lemma fs_data_data_step: "data_step secs ssz fi cs s s' \<Longrightarrow> fs_data s' = fs_data s"
  by (auto simp: data_step_def)

lemma write_step_ok:
  assumes vol: "vol_ok rd wr good secs nsec ssz fi s" and geom: "data_geom fi nsec ssz" and fi: "fs_data s = fi"
    and c: "in_vol fi c" and area: "cluster_area fi c \<inter> fat_sectors fi ssz = {}"
    and n: "0 \<le> n" "0 \<le> tot" "nat tot + nat n \<le> length data"
    and xs: "xs = take (min (unat (cluster_size fi) - unat off) (nat n)) (drop (nat tot) data)"
  shows "\<exists>s'. write_step c off data n tot s = Some (Some (if unat off > unat (cluster_size fi) then off - cluster_size fi else 0,
        n - int (length xs), tot + int (length xs)), s') \<and>
    cluster_bytes secs fi (world s') c = splice (cluster_bytes secs fi (world s) c) (unat off) xs \<and>
    vol_ok rd wr good secs nsec ssz fi s' \<and> ft.same fi (fat_of secs ssz fi s') (fat_of secs ssz fi s) \<and> data_step secs ssz fi [c] s s'"
proof (cases "unat off > unat (cluster_size fi)")
  case True
  then show ?thesis using vol fi xs data_step_fat [OF fat_step_refl]
    by (intro exI [of _ s]) (simp add: write_step_def Let_def word_less_nat_alt)
next
  case False
  let ?B = "cluster_bytes secs fi (world s) c"
  have small: "unat (cluster_size fi) < 2 ^ 31" using geom by (simp add: data_geom_def)
  have len: "length xs = min (unat (cluster_size fi) - unat off) (nat n)" using n(3) by (simp add: xs)
  then have room: "unat off + nat (int (length xs)) \<le> unat (cluster_size fi)" "nat (int (length xs)) \<le> length (drop (nat tot) data)"
    using False n(3) by (auto simp: min_def)
  have p: "portion fi off n = int (length xs)" using portion_eq [OF leI [OF False] small, of n] min_nat [OF n(1)] by (simp only: len)
  obtain w where w: "writeoff_cluster c off (drop (nat tot) data) (int (length xs)) fi s = Some (1, s\<lparr>world := w\<rparr>)" "good w"
    "cluster_bytes secs fi w c = splice ?B (unat off) (take (nat (int (length xs))) (drop (nat tot) data))"
    "\<forall>i. i \<notin> cluster_area fi c \<longrightarrow> secs w i = secs (world s) i"
    using writeoff_cluster_part [OF vol geom c room] by blast
  have "write_step c off data n tot s = Some (Some (0, n - int (length xs), tot + int (length xs)), s\<lparr>world := w\<rparr>)"
    using w(1) fi False p by (simp add: write_step_def Let_def word_less_nat_alt)
  moreover have "take (nat (int (length xs))) (drop (nat tot) data) = xs" using xs len by simp
  moreover have "fat_geom fi nsec ssz" using vol by (simp add: vol_ok_def)
  then have "ft.same fi (fat_of secs ssz fi (s\<lparr>world := w\<rparr>)) (fat_of secs ssz fi s)" using w(4) area by (intro fat_of_world) auto
  moreover have "data_step secs ssz fi [c] s (s\<lparr>world := w\<rparr>)"
    unfolding data_step_def using w(4) by (intro exI [of _ w] exI [of _ "bitmap s"] exI [of _ "fat_cache s"]) simp
  ultimately show ?thesis using vol_ok_world [OF vol w(2)] w(3) False by (intro exI [of _ "s\<lparr>world := w\<rparr>"]) simp
qed

lemma part_sizes:
  fixes l k off D :: nat
  assumes "0 \<le> n" "0 \<le> tot" "nat tot + nat n \<le> D" "n - int l > 0" "l = min (k - off) (nat n)"
  shows "0 \<le> n - int l" "0 \<le> tot + int l" "nat (tot + int l) + nat (n - int l) \<le> D" "l = k - off"
    "nat (tot + int l) = l + nat tot" "nat (n - int l) = nat n - l"
  using assms by linarith+

text \<open>How many bytes of a request fall into the chain, split at the first cluster.\<close>

lemma part_total:
  fixes l k off n m n' off' N j :: nat
  assumes "m = min n (N * k - off)" "N = Suc j" "l = k - off" "l < n" "n' = n - l" "off' = off - k"
  shows "m = l + min n' (j * k - off')"
  using assms by (simp add: min_def) linarith

lemma part_ints:
  fixes l mm :: nat
  shows "n - int l - int mm = n - int (l + mm)" "tot + int l + int mm = tot + int (l + mm)" "(int mm < n - int l) = (int (l + mm) < n)"
  by linarith+

lemma take_parts: "xs = take l ys \<Longrightarrow> zs = take k (drop l ys) \<Longrightarrow> xs @ zs = take (l + k) ys"
  by (simp add: take_add)

lemma write_loop_step:
  "write_step c off data n tot s = Some (Some (off', n', tot'), s1) \<Longrightarrow> read_fat c (fs_data s1) s1 = Some (d, s2) \<Longrightarrow>
    write_loop c off data n tot s = (if \<not> is_cluster_end d \<and> \<not> is_cluster_bad d \<and> n' > 0 then write_loop d off' data n' tot' s2
      else Some (Some (c, off', n', tot'), s2))"
  by (subst write_loop.simps) simp

lemma splice_two:
  assumes "length B = k" "length xs = k - off"
  shows "splice B off xs @ splice R (off - k) zs = splice (B @ R) off (xs @ zs)"
proof (cases "off \<le> k")
  case True
  then show ?thesis using assms by (simp add: splice_def)
next
  case False
  then have "xs = []" using assms(2) by simp
  then show ?thesis using False assms(1) by (simp add: splice_append_right)
qed

lemma write_loop_part:
  assumes links: "links_ok fi" and geom: "data_geom fi nsec ssz"
  shows "vol_ok rd wr good secs nsec ssz fi s \<Longrightarrow> fs_data s = fi \<Longrightarrow> fat_chain fi (fat_of secs ssz fi s) (c # cs) \<Longrightarrow> apart fi ssz (c # cs) \<Longrightarrow>
    0 \<le> n \<Longrightarrow> 0 \<le> tot \<Longrightarrow> nat tot + nat n \<le> length data \<Longrightarrow> m = min (nat n) (length (c # cs) * unat (cluster_size fi) - unat off) \<Longrightarrow>
    \<exists>s' lca off'. write_loop c off data n tot s = Some (Some (lca, off', n - int m, tot + int m), s') \<and>
      (int m < n \<longrightarrow> lca = last (c # cs) \<and> unat off' = unat off - length (c # cs) * unat (cluster_size fi)) \<and>
      file_bytes secs fi (world s') (c # cs) = splice (file_bytes secs fi (world s) (c # cs)) (unat off) (take m (drop (nat tot) data)) \<and>
      vol_ok rd wr good secs nsec ssz fi s' \<and> ft.same fi (fat_of secs ssz fi s') (fat_of secs ssz fi s) \<and> data_step secs ssz fi (c # cs) s s'"
proof (induction cs arbitrary: c off n tot s m)
  case (Nil c off n tot s m)
  let ?csz = "unat (cluster_size fi)" and ?xs = "take (min (unat (cluster_size fi) - unat off) (nat n)) (drop (nat tot) data)"
  let ?off = "if unat off > ?csz then off - cluster_size fi else 0"
  note link = chain_link [OF links Nil.prems(3)]
  have mm: "min (?csz - unat off) (nat n) = m" using Nil.prems(8) by (simp add: min.commute)
  then have "m \<le> length data - nat tot" using Nil.prems(7) by linarith
  then have m: "?xs = take m (drop (nat tot) data)" "length ?xs = m" unfolding mm by simp_all
  have off: "unat ?off = unat off - ?csz" by (auto simp: unat_sub word_le_nat_alt)
  have area: "cluster_area fi c \<inter> fat_sectors fi ssz = {}" using Nil.prems(4) by simp
  obtain s1 where 1: "write_step c off data n tot s = Some (Some (?off, n - int m, tot + int m), s1)"
    "cluster_bytes secs fi (world s1) c = splice (cluster_bytes secs fi (world s) c) (unat off) ?xs"
    "vol_ok rd wr good secs nsec ssz fi s1" "ft.same fi (fat_of secs ssz fi s1) (fat_of secs ssz fi s)" "data_step secs ssz fi [c] s s1"
    using write_step_ok [OF Nil.prems(1) geom Nil.prems(2) link(1) area Nil.prems(5-7) refl, of off] unfolding m(2) by blast
  obtain s2 where 2: "read_fat c fi s1 = Some (fat_of secs ssz fi s1 (unat c), s2)" "vol_ok rd wr good secs nsec ssz fi s2"
    "ft.same fi (fat_of secs ssz fi s2) (fat_of secs ssz fi s1)" "fat_step secs ssz fi s1 s2"
    by (rule read_linkE [OF 1(3) link(1)])
  have "fat_of secs ssz fi s1 (unat c) = fat_of secs ssz fi s (unat c)" using ft.same_at [OF 1(4)] link(1) by (simp add: in_vol_def)
  then have "write_loop c off data n tot s = Some (Some (c, ?off, n - int m, tot + int m), s2)"
    using write_loop_step [OF 1(1)] 2(1) fs_data_data_step [OF 1(5)] Nil.prems(2) link(2) by simp
  moreover have "file_bytes secs fi (world s2) [c] = file_bytes secs fi (world s1) [c]" by (rule file_bytes_step [OF 2(4) Nil.prems(4)])
  then have "file_bytes secs fi (world s2) [c] = splice (file_bytes secs fi (world s) [c]) (unat off) (take m (drop (nat tot) data))"
    using 1(2) m(1) by simp
  moreover have "data_step secs ssz fi [c] s s2" using data_step_trans [OF 1(5) data_step_fat [OF 2(4)]] by blast
  ultimately show ?case using 2(2) ft.same_trans [OF 2(3) 1(4)] off by (intro exI [of _ s2] exI [of _ c] exI [of _ ?off]) simp
next
  case (Cons d cs c off n tot s m)
  let ?csz = "unat (cluster_size fi)" and ?xs = "take (min (unat (cluster_size fi) - unat off) (nat n)) (drop (nat tot) data)"
  let ?B = "cluster_bytes secs fi (world s) c" and ?R = "file_bytes secs fi (world s) (d # cs)"
  let ?off = "if unat off > ?csz then off - cluster_size fi else 0"
  note link = chain_link [OF links Cons.prems(3)]
  have B: "length ?B = ?csz" using length_cluster_bytes [OF Cons.prems(1) geom link(1)] .
  have area: "cluster_area fi c \<inter> fat_sectors fi ssz = {}" and ap: "apart fi ssz (d # cs)" using Cons.prems(4) by simp_all
  have lx: "length ?xs = min (?csz - unat off) (nat n)" using Cons.prems(7) by simp
  obtain s1 where 1: "write_step c off data n tot s = Some (Some (?off, n - int (length ?xs), tot + int (length ?xs)), s1)"
    "cluster_bytes secs fi (world s1) c = splice ?B (unat off) ?xs"
    "vol_ok rd wr good secs nsec ssz fi s1" "ft.same fi (fat_of secs ssz fi s1) (fat_of secs ssz fi s)" "data_step secs ssz fi [c] s s1"
    using write_step_ok [OF Cons.prems(1) geom Cons.prems(2) link(1) area Cons.prems(5-7) refl, of off] by blast
  obtain s2 where 2: "read_fat c fi s1 = Some (fat_of secs ssz fi s1 (unat c), s2)" "vol_ok rd wr good secs nsec ssz fi s2"
    "ft.same fi (fat_of secs ssz fi s2) (fat_of secs ssz fi s1)" "fat_step secs ssz fi s1 s2"
    by (rule read_linkE [OF 1(3) link(1)])
  have fd: "fs_data s1 = fi" "fs_data s2 = fi" using fs_data_data_step [OF 1(5)] fs_data_step [OF 2(4)] Cons.prems(2) by simp_all
  have "fat_of secs ssz fi s1 (unat c) = fat_of secs ssz fi s (unat c)" using ft.same_at [OF 1(4)] link(1) by (simp add: in_vol_def)
  then have nxt: "read_fat c (fs_data s1) s1 = Some (d, s2)" using 2(1) link(3) fd(1) by simp
  have same: "ft.same fi (fat_of secs ssz fi s2) (fat_of secs ssz fi s)" using 2(3) 1(4) by (rule ft.same_trans)
  have step: "data_step secs ssz fi [c] s s2" using data_step_trans [OF 1(5) data_step_fat [OF 2(4)]] by blast
  have dis: "c \<notin> set (d # cs)" using fat_chain_distinct [OF links Cons.prems(3)] by simp
  have vols: "\<forall>e \<in> set (d # cs). in_vol fi e" using fat_chain_in_vol [OF Cons.prems(3)] by auto
  have R2: "file_bytes secs fi (world s2) (d # cs) = ?R" by (rule file_bytes_others [OF geom step]) (use link(1) vols dis ap in auto)
  have C2: "cluster_bytes secs fi (world s2) c = splice ?B (unat off) ?xs"
    using file_bytes_step [OF 2(4), of "[c]"] area 1(2) by simp
  show ?case
  proof (cases "n - int (length ?xs) > 0")
    case False
    then have "nat n \<le> length ?xs" by linarith
    then have l: "nat n \<le> ?csz - unat off" unfolding lx by linarith
    then have m: "m = nat n" using Cons.prems(8) by simp
    have n: "int (length ?xs) = n" "?xs = take m (drop (nat tot) data)"
    proof -
      have mm: "min (?csz - unat off) (nat n) = nat n" using l by (rule min_absorb2)
      from lx mm have e: "length ?xs = nat n" by (rule trans)
      show "int (length ?xs) = n" unfolding e by (rule nat_0_le) (rule Cons.prems(5))
      show "?xs = take m (drop (nat tot) data)" by (simp only: mm m)
    qed
    have "write_loop c off data n tot s = Some (Some (c, ?off, n - int m, tot + int m), s2)"
    proof -
      have im: "int m = n" unfolding m by (rule nat_0_le) (rule Cons.prems(5))
      show ?thesis using write_loop_step [OF 1(1) [unfolded n(1)] nxt] unfolding im by simp
    qed
    moreover have "file_bytes secs fi (world s2) (c # d # cs) = splice (?B @ ?R) (unat off) ?xs"
    proof (cases "?xs = []")
      case False
      then have "unat off + length ?xs \<le> length ?B" using lx B by (auto simp: min_def split: if_splits)
      then show ?thesis using C2 R2 by (simp add: splice_append_left)
    next
      case True then show ?thesis using C2 R2 unfolding True by simp
    qed
    ultimately show ?thesis using 2(2) same data_step_trans [OF step data_step_fat [OF fat_step_refl], of "c # d # cs" "[]"] n m by auto
  next
    case True
    define mm where "mm = min (nat (n - int (length ?xs))) (length (d # cs) * ?csz - unat ?off)"
    define zs where "zs = take mm (drop (nat (tot + int (length ?xs))) data)"
    have off: "unat ?off = unat off - ?csz" by (auto simp: unat_sub word_le_nat_alt)
    have chain: "fat_chain fi (fat_of secs ssz fi s2) (d # cs)" using link(3) fat_chain_same [OF same] by simp
    note sizes = part_sizes [OF Cons.prems(5-7) True lx]
    have "length ?xs < nat n" using True by linarith
    from part_total [OF Cons.prems(8) length_Cons sizes(4) this sizes(6) off] have m: "m = length ?xs + mm" unfolding mm_def .
    obtain s3 lca off' where 3: "write_loop d ?off data (n - int (length ?xs)) (tot + int (length ?xs)) s2 =
        Some (Some (lca, off', n - int (length ?xs) - int mm, tot + int (length ?xs) + int mm), s3)"
      "int mm < n - int (length ?xs) \<longrightarrow> lca = last (d # cs) \<and> unat off' = unat ?off - length (d # cs) * ?csz"
      "file_bytes secs fi (world s3) (d # cs) = splice (file_bytes secs fi (world s2) (d # cs)) (unat ?off) zs"
      "vol_ok rd wr good secs nsec ssz fi s3" "ft.same fi (fat_of secs ssz fi s3) (fat_of secs ssz fi s2)" "data_step secs ssz fi (d # cs) s2 s3"
      unfolding zs_def using Cons.IH [OF 2(2) fd(2) chain ap sizes(1-3) mm_def] by blast
    have "file_bytes secs fi (world s3) [c] = file_bytes secs fi (world s2) [c]"
      by (rule file_bytes_others [OF geom 3(6)]) (use link(1) vols dis area in auto)
    then have C3: "cluster_bytes secs fi (world s3) c = splice ?B (unat off) ?xs" using C2 by simp
    have "?xs = take (length ?xs) (drop (nat tot) data)" by (simp only: lx)
    moreover have "zs = take mm (drop (length ?xs) (drop (nat tot) data))" unfolding zs_def sizes(5) by (simp only: drop_drop)
    ultimately have "?xs @ zs = take m (drop (nat tot) data)" unfolding m by (rule take_parts)
    then have "file_bytes secs fi (world s3) (c # d # cs) = splice (?B @ ?R) (unat off) (take m (drop (nat tot) data))"
      using 3(3) C3 splice_two [OF B sizes(4), of ?R zs] unfolding R2 off by (simp only: file_bytes_simps(2))
    moreover have "write_loop c off data n tot s = Some (Some (lca, off', n - int m, tot + int m), s3)"
      using write_loop_step [OF 1(1) nxt] True link(3) 3(1) unfolding m part_ints by simp
    moreover have "int m < n \<longrightarrow> lca = last (c # d # cs) \<and> unat off' = unat off - length (c # d # cs) * ?csz"
      using 3(2) unfolding m part_ints off by simp
    moreover have "data_step secs ssz fi (c # d # cs) s s3" using data_step_trans [OF step 3(6)] by (metis set_subset_Cons list.set(1) list.simps(15) insert_mono empty_subsetI)
    ultimately show ?thesis using 3(4) ft.same_trans [OF 3(5) same] by auto
  qed
qed

lemma write_loop_ok:
  assumes links: "links_ok fi" and geom: "data_geom fi nsec ssz"
    and s: "vol_ok rd wr good secs nsec ssz fi s" "fs_data s = fi" "fat_chain fi (fat_of secs ssz fi s) (c # cs)" "apart fi ssz (c # cs)"
    and n: "0 \<le> n" "0 \<le> tot" "nat tot + nat n \<le> length data" "unat off + nat n \<le> length (c # cs) * unat (cluster_size fi)"
  shows "\<exists>s' lca off'. write_loop c off data n tot s = Some (Some (lca, off', 0, tot + n), s') \<and>
      file_bytes secs fi (world s') (c # cs) = splice (file_bytes secs fi (world s) (c # cs)) (unat off) (take (nat n) (drop (nat tot) data)) \<and>
      vol_ok rd wr good secs nsec ssz fi s' \<and> ft.same fi (fat_of secs ssz fi s') (fat_of secs ssz fi s) \<and> data_step secs ssz fi (c # cs) s s'"
proof -
  have "nat n = min (nat n) (length (c # cs) * unat (cluster_size fi) - unat off)" using n(4) by linarith
  from write_loop_part [OF links geom s n(1-3) this] n(1) show ?thesis by (simp only: nat_0_le diff_self) blast
qed

section \<open>The interface under its lock\<close>

lemma lock_api_free [wp, simp]: "fs_api_lock s = NULL_LOCK \<Longrightarrow> lock_api s = Some (1, s\<lparr>fs_api_lock := HELD\<rparr>)"
  by (simp add: lock_api_def)

lemma unlock_api_held [wp, simp]: "fs_api_lock s = HELD \<Longrightarrow> unlock_api s = Some (1, s\<lparr>fs_api_lock := NULL_LOCK\<rparr>)"
  by (simp add: unlock_api_def)

text \<open>Another thread is inside: it wrote the lock word, or readers hold it.\<close>

definition api_busy :: "('w, 'z) nifat_state_scheme \<Rightarrow> bool" where
  "api_busy s = (LOCK_IS_WRITE (fs_api_lock s) \<or> LOCK_GET_READERS (fs_api_lock s) \<noteq> 0)"

lemma lock_api_busy: "api_busy s \<Longrightarrow> lock_api s = Some (0, s)"
  by (auto simp: api_busy_def lock_api_def THR_require_write_eq)

lemma fs_api_busy [simp]: "api_busy s \<Longrightarrow> fs_api ret body s = Some (ret, s)" "api_busy s \<Longrightarrow> fs_api_late ret body s = Some (ret, s)"
  by (simp_all add: fs_api_def fs_api_late_def lock_api_busy)

lemma fs_api_free:
  assumes "fs_api_lock s = NULL_LOCK" "body (s\<lparr>fs_api_lock := HELD\<rparr>) = Some (r, s')" "fs_api_lock s' = HELD"
  shows "fs_api ret body s = Some (r, s'\<lparr>fs_api_lock := NULL_LOCK\<rparr>)"
  using assms by (simp add: fs_api_def)

lemma vol_ok_api [simp]: "vol_ok rd wr good secs nsec ssz fi (s\<lparr>fs_api_lock := l\<rparr>) = vol_ok rd wr good secs nsec ssz fi s"
  by (simp add: vol_ok_def fat_ready_def fat_open_def dsk_ready_def)

lemma fat_of_api [simp]: "fat_of secs ssz fi (s\<lparr>fs_api_lock := l\<rparr>) = fat_of secs ssz fi s"
  by (rule fat_of_cong) simp_all

lemma content_api [simp]:
  "get_content_mode ci (s\<lparr>fs_api_lock := l\<rparr>) = get_content_mode ci s" "get_content_data_ca ci (s\<lparr>fs_api_lock := l\<rparr>) = get_content_data_ca ci s"
  by (simp_all add: get_content_mode_def get_content_data_ca_def content_at_def)

lemma data_step_fields:
  "data_step secs ssz fi cs s s' \<Longrightarrow> fs_api_lock s' = fs_api_lock s \<and> content_table s' = content_table s \<and> fs_data s' = fs_data s"
  by (auto simp: data_step_def)

lemma content_step:
  assumes "content_table s' = content_table s"
  shows "get_content_mode ci s' = get_content_mode ci s" "get_content_data_ca ci s' = get_content_data_ca ci s"
  using assms by (simp_all add: get_content_mode_def get_content_data_ca_def content_at_def)

text \<open>A content that is open for reading and writing, on an idle volume, with its chain.\<close>

definition open_file :: "'w read_fun \<Rightarrow> 'w write_fun \<Rightarrow> ('w \<Rightarrow> bool) \<Rightarrow> ('w \<Rightarrow> nat \<Rightarrow> byte list) \<Rightarrow> nat \<Rightarrow> nat \<Rightarrow>
    ci_t \<Rightarrow> u32 list \<Rightarrow> ('w, 'z) nifat_state_scheme \<Rightarrow> bool" where
  "open_file rd wr good secs nsec ssz ci cs s = (let fi = fs_data s in
     vol_ok rd wr good secs nsec ssz fi s \<and> data_geom fi nsec ssz \<and> links_ok fi \<and> fs_api_lock s = NULL_LOCK \<and>
     IS_READ_MODE (get_content_mode ci s) \<and> IS_WRITE_MODE (get_content_mode ci s) \<and>
     cs \<noteq> [] \<and> hd cs = get_content_data_ca ci s \<and> fat_chain fi (fat_of secs ssz fi s) cs \<and> apart fi ssz cs)"

lemma content_write_ok:
  assumes f: "open_file rd wr good secs nsec ssz ci cs s" and n: "0 \<le> n" "nat n \<le> length data"
    and fit: "unat off + nat n \<le> length cs * unat (cluster_size (fs_data s))"
  shows "\<exists>s'. NIFAT32_write_buffer2content ci off data n s = Some (n, s') \<and> open_file rd wr good secs nsec ssz ci cs s' \<and>
    file_bytes secs (fs_data s) (world s') cs = splice (file_bytes secs (fs_data s) (world s) cs) (unat off) (take (nat n) data) \<and>
    ft.same (fs_data s) (fat_of secs ssz (fs_data s) s') (fat_of secs ssz (fs_data s) s) \<and> data_step secs ssz (fs_data s) cs s s'"
proof -
  let ?fi = "fs_data s" and ?h = "s\<lparr>fs_api_lock := HELD\<rparr>"
  obtain c cs' where cs: "cs = c # cs'" using f by (cases cs) (auto simp: open_file_def)
  have h: "vol_ok rd wr good secs nsec ssz ?fi ?h" "fs_data ?h = ?fi" "fat_chain ?fi (fat_of secs ssz ?fi ?h) (c # cs')" "apart ?fi ssz (c # cs')"
    and g: "links_ok ?fi" "data_geom ?fi nsec ssz" and lock: "fs_api_lock s = NULL_LOCK"
    and mode: "IS_WRITE_MODE (get_content_mode ci s)" "get_content_data_ca ci s = c"
    using f by (auto simp: open_file_def Let_def cs)
  have len: "nat 0 + nat n \<le> length data" using n by simp
  obtain s1 lca off' where 1: "write_loop c off data n 0 ?h = Some (Some (lca, off', 0, 0 + n), s1)"
    "file_bytes secs ?fi (world s1) (c # cs') = splice (file_bytes secs ?fi (world ?h) (c # cs')) (unat off) (take (nat n) (drop (nat 0) data))"
    "vol_ok rd wr good secs nsec ssz ?fi s1" "ft.same ?fi (fat_of secs ssz ?fi s1) (fat_of secs ssz ?fi ?h)" "data_step secs ssz ?fi (c # cs') ?h s1"
    using write_loop_ok [OF g h n(1) order_refl len fit [unfolded cs]] by blast
  let ?s = "s1\<lparr>fs_api_lock := NULL_LOCK\<rparr>"
  have held: "fs_api_lock s1 = HELD" "content_table s1 = content_table s" "fs_data s1 = ?fi" using data_step_fields [OF 1(5)] by simp_all
  have "extend_loop ci lca off' data 0 n s1 = Some (n, s1)" by (subst extend_loop.simps) simp
  then have "NIFAT32_write_buffer2content ci off data n s = Some (n, ?s)"
    unfolding NIFAT32_write_buffer2content_def using 1(1) mode held by (intro fs_api_free [OF lock]) simp_all
  moreover have "data_step secs ssz ?fi cs s ?s"
  proof -
    obtain w b k where "s1 = ?h\<lparr>world := w, bitmap := b, fat_cache := k\<rparr>"
      "\<forall>x. x \<notin> fat_sectors ?fi ssz \<and> (\<forall>c \<in> set cs. x \<notin> cluster_area ?fi c) \<longrightarrow> secs w x = secs (world s) x"
      using 1(5) unfolding data_step_def cs by auto
    moreover from this(1) have "?s = s\<lparr>world := w, bitmap := b, fat_cache := k\<rparr>" using lock by (cases s) simp
    ultimately show ?thesis unfolding data_step_def by blast
  qed
  moreover have "open_file rd wr good secs nsec ssz ci cs ?s"
    using f 1(3) held content_step [of ?s s] fat_chain_same [OF 1(4), of cs] by (simp add: open_file_def Let_def)
  ultimately show ?thesis using 1(2,4) by (intro exI [of _ ?s]) (simp add: cs)
qed

lemma content_read_ok:
  assumes f: "open_file rd wr good secs nsec ssz ci cs s" and n: "0 \<le> n" "nat n \<le> length buf"
    and xs: "xs = take (nat n) (drop (unat off) (file_bytes secs (fs_data s) (world s) cs))"
  shows "\<exists>s'. NIFAT32_read_content2buffer ci off buf n s = Some ((int (length xs), splice buf 0 xs), s') \<and> open_file rd wr good secs nsec ssz ci cs s' \<and>
    file_bytes secs (fs_data s) (world s') cs = file_bytes secs (fs_data s) (world s) cs \<and>
    ft.same (fs_data s) (fat_of secs ssz (fs_data s) s') (fat_of secs ssz (fs_data s) s) \<and> fat_step secs ssz (fs_data s) s s'"
proof -
  let ?fi = "fs_data s" and ?h = "s\<lparr>fs_api_lock := HELD\<rparr>"
  obtain c cs' where cs: "cs = c # cs'" using f by (cases cs) (auto simp: open_file_def)
  have h: "vol_ok rd wr good secs nsec ssz ?fi ?h" "fs_data ?h = ?fi" "fat_chain ?fi (fat_of secs ssz ?fi ?h) (c # cs')" "apart ?fi ssz (c # cs')"
    and g: "links_ok ?fi" "data_geom ?fi nsec ssz" and lock: "fs_api_lock s = NULL_LOCK"
    and mode: "IS_READ_MODE (get_content_mode ci s)" "get_content_data_ca ci s = c"
    using f by (auto simp: open_file_def Let_def cs)
  have len: "nat 0 + nat n \<le> length buf" and x: "xs = take (nat n) (drop (unat off) (file_bytes secs ?fi (world ?h) (c # cs')))"
    using n xs cs by simp_all
  obtain s1 where 1: "read_loop c off buf n 0 ?h = Some ((0 + int (length xs), splice buf (nat 0) xs), s1)"
    "vol_ok rd wr good secs nsec ssz ?fi s1" "ft.same ?fi (fat_of secs ssz ?fi s1) (fat_of secs ssz ?fi ?h)" "fat_step secs ssz ?fi ?h s1"
    using read_loop_ok [OF g h n(1) order_refl len x] by blast
  let ?s = "s1\<lparr>fs_api_lock := NULL_LOCK\<rparr>"
  have held: "fs_api_lock s1 = HELD" "content_table s1 = content_table s" "fs_data s1 = ?fi"
    using data_step_fields [OF data_step_fat [OF 1(4)]] by simp_all
  have "NIFAT32_read_content2buffer ci off buf n s = Some ((int (length xs), splice buf 0 xs), ?s)"
    unfolding NIFAT32_read_content2buffer_def using 1(1) mode held by (intro fs_api_free [OF lock]) simp_all
  moreover have st: "fat_step secs ssz ?fi s ?s"
  proof -
    obtain w b k where "s1 = ?h\<lparr>world := w, bitmap := b, fat_cache := k\<rparr>" "\<forall>x. x \<notin> fat_sectors ?fi ssz \<longrightarrow> secs w x = secs (world s) x"
      using 1(4) unfolding fat_step_def by auto
    moreover from this(1) have "?s = s\<lparr>world := w, bitmap := b, fat_cache := k\<rparr>" using lock by (cases s) simp
    ultimately show ?thesis unfolding fat_step_def by blast
  qed
  moreover have "open_file rd wr good secs nsec ssz ci cs ?s"
    using f 1(2) held content_step [of ?s s] fat_chain_same [OF 1(3), of cs] by (simp add: open_file_def Let_def)
  ultimately show ?thesis using 1(3) file_bytes_step [OF st h(4)] by (intro exI [of _ ?s]) (simp add: cs)
qed

section \<open>Properties\<close>

text \<open>C5 (what is written to a content is what is read from it). For a content that is open for reading and
  writing on a mounted volume, a write that ends within its chain returns the number of bytes
  written, replaces exactly these bytes of the content across cluster borders, and a read at the
  same offset returns them. The table, the descriptors and the lock are as before, and so is every
  cluster that is not part of the content and does not lie over a copy of the table.\<close>

theorem content_write_read:
  assumes f: "open_file rd wr good secs nsec ssz ci cs s"
    and fit: "unat off + length data \<le> length cs * unat (cluster_size (fs_data s))" and buf: "length buf = length data"
  shows "\<exists>s' s''. NIFAT32_write_buffer2content ci off data (int (length data)) s = Some (int (length data), s') \<and>
    NIFAT32_read_content2buffer ci off buf (int (length data)) s' = Some ((int (length data), data), s'') \<and>
    file_bytes secs (fs_data s) (world s'') cs = splice (file_bytes secs (fs_data s) (world s) cs) (unat off) data \<and>
    open_file rd wr good secs nsec ssz ci cs s'' \<and> fs_data s'' = fs_data s \<and> content_table s'' = content_table s \<and>
    (\<forall>d < unat (total_clusters (fs_data s)). fat_of secs ssz (fs_data s) s'' d = fat_of secs ssz (fs_data s) s d) \<and>
    (\<forall>d. in_vol (fs_data s) d \<and> d \<notin> set cs \<and> cluster_area (fs_data s) d \<inter> fat_sectors (fs_data s) ssz = {} \<longrightarrow>
       cluster_bytes secs (fs_data s) (world s'') d = cluster_bytes secs (fs_data s) (world s) d)"
proof -
  let ?fi = "fs_data s"
  have geom: "data_geom ?fi nsec ssz" and chain: "fat_chain ?fi (fat_of secs ssz ?fi s) cs" and vol: "vol_ok rd wr good secs nsec ssz ?fi s"
    using f by (simp_all add: open_file_def Let_def)
  obtain s1 where 1: "NIFAT32_write_buffer2content ci off data (int (length data)) s = Some (int (length data), s1)"
    "open_file rd wr good secs nsec ssz ci cs s1" "file_bytes secs ?fi (world s1) cs = splice (file_bytes secs ?fi (world s) cs) (unat off) data"
    "ft.same ?fi (fat_of secs ssz ?fi s1) (fat_of secs ssz ?fi s)" "data_step secs ssz ?fi cs s s1"
    using content_write_ok [OF f, of "int (length data)" data off] fit by auto
  have fd: "fs_data s1 = ?fi" using data_step_fields [OF 1(5)] by simp
  have len: "length (file_bytes secs ?fi (world s) cs) = length cs * unat (cluster_size ?fi)"
    using length_cluster_bytes [OF vol geom] fat_chain_in_vol [OF chain]
    by (simp add: file_bytes_def length_concat comp_def sum_list_triv cong: map_cong)
  then have all: "take (length data) (drop (unat off) (file_bytes secs ?fi (world s1) cs)) = data" using fit 1(3) by simp
  obtain s2 where 2: "NIFAT32_read_content2buffer ci off buf (int (length data)) s1 = Some ((int (length data), splice buf 0 data), s2)"
    "open_file rd wr good secs nsec ssz ci cs s2" "file_bytes secs ?fi (world s2) cs = file_bytes secs ?fi (world s1) cs"
    "ft.same ?fi (fat_of secs ssz ?fi s2) (fat_of secs ssz ?fi s1)" "fat_step secs ssz ?fi s1 s2"
    using content_read_ok [OF 1(2), of "int (length data)" buf data off] buf all fd by auto
  have step: "data_step secs ssz ?fi cs s s2" using data_step_trans [OF 1(5) data_step_fat [OF 2(5), of "[]"]] by simp
  have "splice buf 0 data = data" using buf by (simp add: splice_def)
  moreover have "cluster_bytes secs ?fi (world s2) d = cluster_bytes secs ?fi (world s) d"
    if d: "in_vol ?fi d" "d \<notin> set cs" "cluster_area ?fi d \<inter> fat_sectors ?fi ssz = {}" for d
  proof (rule cluster_bytes_cong)
    fix i assume i: "i \<in> cluster_area ?fi d"
    have "i \<notin> cluster_area ?fi c" if "c \<in> set cs" for c
      using cluster_areas_disjoint [OF geom d(1), of c] fat_chain_in_vol [OF chain that] d(2) that i by blast
    then show "secs (world s2) i = secs (world s) i" using data_step_outside [OF step, of i] d(3) i by blast
  qed
  moreover have "\<forall>d < unat (total_clusters ?fi). fat_of secs ssz ?fi s2 d = fat_of secs ssz ?fi s d"
    using ft.same_trans [OF 2(4) 1(4)] by (simp add: ft.same_def)
  ultimately show ?thesis using 1(1,3) 2(1-3) data_step_fields [OF step] by (intro exI [of _ s1] exI [of _ s2]) simp
qed

text \<open>A content of two clusters on the test volume.\<close>

definition file_start :: "fake_world nifat_state" where
  "file_start = cluster_start \<lparr>journal_index = 0, journal_lock = NULL_LOCK, stack_journal = journal_zero, stack_word = 0,
     ec_heap = (\<lambda>_. None), stack_flags = 0,
     content_table = [\<lparr>ct_names = [], ct_index = None, ct_parent_cluster = 2, ct_data_cluster = 5, ct_meta = zero_entry,
       ct_type = CONTENT_TYPE_FILE, ct_mode = DF_MODE\<rparr>] @ replicate 49 \<lparr>ct_names = [], ct_index = None, ct_parent_cluster = 0, ct_data_cluster = 0,
       ct_meta = zero_entry, ct_type = CONTENT_TYPE_EMPTY, ct_mode = 0\<rparr>, content_lock = NULL_LOCK,
     fs_data = test_vol, fs_api_lock = NULL_LOCK, stack_bs = []\<rparr>"

lemma test_fat_areas:
  assumes "in_vol test_vol c"
  shows "cluster_area test_vol c \<inter> fat_sectors test_vol TEST_SECTOR_SIZE = {}"
proof -
  have "unat c < 16" "2 \<le> unat c" using assms by (simp_all add: in_vol_def word_less_nat_alt word_le_nat_alt)
  then have "x < 48" if "x \<in> cluster_area test_vol c" for x
    using that by (auto simp: cluster_area_def cluster_at_def)
  moreover have "51 \<le> x" if x: "x \<in> fat_sectors test_vol TEST_SECTOR_SIZE" for x
  proof -
    obtain i d where i: "i < 3" "x = fat_loc test_vol 64 i d div 64" using x by (auto simp: fat_sectors_def TEST_SECTOR_SIZE_def)
    have "51 * 64 \<le> fat_loc test_vol 64 i d" using i(1) unfolding test_vol_loc [OF i(1)] less_3_cases by auto
    then show ?thesis unfolding i(2) by simp
  qed
  ultimately show ?thesis by fastforce
qed

lemma file_start_state:
  "\<exists>s :: fake_world nifat_state. open_file fake_read fake_write fake_ok fake_secs TEST_SECTORS TEST_SECTOR_SIZE 0 [5, 6] s \<and> fs_data s = test_vol \<and>
     fat_step fake_secs TEST_SECTOR_SIZE test_vol file_start s \<and>
     (\<forall>d < 16. test_fat s d = (if d = 5 then 6 else if d = 6 then FAT_CLUSTER_END else FAT_CLUSTER_FREE))"
proof -
  have "test_ok file_start" by (simp add: file_start_def cluster_start_ok)
  then obtain s1 where s1: "test_ok s1" "\<forall>d < 16. test_fat s1 d = (if d = unat (5 :: u32) then 6 else test_fat file_start d)"
    "fat_step fake_secs TEST_SECTOR_SIZE test_vol file_start s1"
    by (rule test_writeE [of _ 5 6]) simp_all
  obtain s2 where s2: "test_ok s2" "\<forall>d < 16. test_fat s2 d = (if d = unat (6 :: u32) then FAT_CLUSTER_END else test_fat s1 d)"
    "fat_step fake_secs TEST_SECTOR_SIZE test_vol s1 s2"
    by (rule test_writeE [OF s1(1), of 6 FAT_CLUSTER_END]) (use marks_28 in simp_all)
  have step: "fat_step fake_secs TEST_SECTOR_SIZE test_vol file_start s2" using s1(3) s2(3) by (rule fat_step_trans)
  have f: "fs_data s2 = test_vol" "fs_api_lock s2 = NULL_LOCK" "content_table s2 = content_table file_start"
    using data_step_fields [OF data_step_fat [OF step]] by (simp_all add: file_start_def cluster_start_def fat_start_def)
  have free: "test_fat file_start d = FAT_CLUSTER_FREE" if "d < 16" for d
    unfolding file_start_def using that by (rule fat_start_free)
  have vals: "\<forall>d < 16. test_fat s2 d = (if d = 5 then 6 else if d = 6 then FAT_CLUSTER_END else FAT_CLUSTER_FREE)"
    using s1(2) s2(2) free by simp
  then have chain: "fat_chain test_vol (test_fat s2) [5, 6]" by (simp add: in_vol_def)
  have m: "IS_READ_MODE (get_content_mode 0 s2)" "IS_WRITE_MODE (get_content_mode 0 s2)" "get_content_data_ca 0 s2 = 5"
    unfolding get_content_mode_def get_content_data_ca_def content_at_def f(3)
    by (simp_all add: file_start_def cluster_start_def fat_start_def ci_bad_def CONTENT_TABLE_SIZE_def DF_MODE_def MODE_def
        IS_READ_MODE_def IS_WRITE_MODE_def GET_MODE_def R_MODE_def W_MODE_def NO_TARGET_def)
  have "apart test_vol TEST_SECTOR_SIZE [5, 6]" using test_fat_areas [of 5] test_fat_areas [of 6] by (simp add: in_vol_def)
  then have "open_file fake_read fake_write fake_ok fake_secs TEST_SECTORS TEST_SECTOR_SIZE 0 [5, 6] s2"
    unfolding open_file_def Let_def f(1) using s2(1) test_data_geom test_links f(2) m chain by simp
  then show ?thesis using f(1) step vals by blast
qed

lemma file_start_open:
  "\<exists>s :: fake_world nifat_state. open_file fake_read fake_write fake_ok fake_secs TEST_SECTORS TEST_SECTOR_SIZE 0 [5, 6] s \<and> fs_data s = test_vol"
  using file_start_state by blast

theorem content_write_read_witness:
  "\<exists>s s' s'' :: fake_world nifat_state. NIFAT32_write_buffer2content 0 100 (replicate 60 9) 60 s = Some (60, s') \<and>
     NIFAT32_read_content2buffer 0 100 (replicate 60 0) 60 s' = Some ((60, replicate 60 9), s'')"
proof -
  obtain s :: "fake_world nifat_state" where s: "open_file fake_read fake_write fake_ok fake_secs TEST_SECTORS TEST_SECTOR_SIZE 0 [5, 6] s" "fs_data s = test_vol"
    using file_start_open by blast
  from content_write_read [OF s(1), of 100 "replicate 60 9" "replicate 60 0"] s(2) show ?thesis by (simp del: replicate.simps) blast
qed

text \<open>An API call beside another one is refused. While the lock word of the interface is held by
  another thread, every call on contents and the unload return their error value and change
  nothing.\<close>

theorem api_excludes:
  assumes "api_busy s"
  shows "NIFAT32_content_exists path s = Some (0, s) \<and> NIFAT32_open_content ci p mode s = Some (-1, s) \<and>
    NIFAT32_index_content ci s = Some (0, s) \<and> NIFAT32_close_content ci s = Some (0, s) \<and>
    NIFAT32_read_content2buffer ci off buf n s = Some ((0, buf), s) \<and> NIFAT32_write_buffer2content ci off data n s = Some (0, s) \<and>
    NIFAT32_change_meta ci info s = Some (0, s) \<and> NIFAT32_truncate_content ci off n s = Some (0, s) \<and>
    NIFAT32_put_content ci info n s = Some (0, s) \<and> NIFAT32_copy_content ci dst deep s = Some (0, s) \<and>
    NIFAT32_delete_content ci s = Some (0, s) \<and> NIFAT32_stat_content ci info s = Some ((0, info), s) \<and>
    NIFAT32_repair_content ci n s = Some (0, s) \<and> NIFAT32_repair_bootsectors s = Some (0, s) \<and>
    NIFAT32_repair_fat s = Some (0, s) \<and> NIFAT32_get_last_error s = Some (-1, s) \<and> NIFAT32_unload s = Some (0, s)"
  using assms by (simp add: NIFAT32_content_exists_def NIFAT32_open_content_def NIFAT32_index_content_def NIFAT32_close_content_def
    NIFAT32_read_content2buffer_def NIFAT32_write_buffer2content_def NIFAT32_change_meta_def NIFAT32_truncate_content_def
    NIFAT32_put_content_def NIFAT32_copy_content_def NIFAT32_delete_content_def NIFAT32_stat_content_def NIFAT32_repair_content_def
    NIFAT32_repair_bootsectors_def NIFAT32_repair_fat_def NIFAT32_get_last_error_def NIFAT32_unload_def)

theorem api_excludes_witness:
  "let s = file_start\<lparr>fs_api_lock := LOCK_PACK 0 True 3\<rparr> in
     NIFAT32_write_buffer2content 0 0 [1, 2] 2 s = Some (0, s) \<and> NIFAT32_unload s = Some (0, s)"
  using api_excludes [of "file_start\<lparr>fs_api_lock := LOCK_PACK 0 True 3\<rparr>"] by (simp add: api_busy_def Let_def)

end
