(* ===== verification/Formatter.thy ===== *)
theory Formatter
  imports Mount "HOL-Library.Char_ord"
begin

text \<open>
  The volume formatter of \<open>formatter/nifat32formatter.c\<close>, with its own copies of the placement
  macros, the Hamming encoder and the checksum, and its options (\<open>formatter/src/options.c\<close>).
  The calls to the operating system (\<open>open\<close>, \<open>ftruncate\<close>, \<open>lseek\<close>, \<open>read\<close>,
  \<open>write\<close>, \<open>pwrite\<close>, \<open>malloc\<close>) are the parameter \<open>'w host\<close>; reading the source
  directory is the list of its entries. Names that the driver also has end in \<open>_f\<close> here.
\<close>

unbundle bit_operations_syntax

section \<open>Options\<close>

record opt_t =
  save_path :: "string option"
  source_path :: "string option"
  opt_v_size :: int
  opt_spc :: int
  opt_fc :: int
  opt_bsbc :: int
  opt_b_bsbc :: int
  opt_jc :: int
  opt_ec :: int

definition opt_default :: opt_t where
  "opt_default = \<lparr>save_path = None, source_path = None, opt_v_size = 64, opt_spc = 8, opt_fc = 4, opt_bsbc = 5,
     opt_b_bsbc = 0, opt_jc = 2, opt_ec = 1\<rparr>"

text \<open>\<open>atoi\<close> of the C library in its locale: white space, a sign, digits; an overflow is undefined.\<close>

definition is_digit :: "char \<Rightarrow> bool" where
  "is_digit c = (48 \<le> (of_char c :: nat) \<and> (of_char c :: nat) \<le> 57)"

definition is_space :: "char \<Rightarrow> bool" where
  "is_space c = ((of_char c :: nat) = 32 \<or> 9 \<le> (of_char c :: nat) \<and> (of_char c :: nat) \<le> 13)"

definition digits_value :: "string \<Rightarrow> int" where
  "digits_value s = fold (\<lambda>c n. 10 * n + (int (of_char c) - 48)) (takeWhile is_digit s) 0"

definition atoi :: "string \<Rightarrow> int option" where
  "atoi s = (let s = dropWhile is_space s;
     n = (case s of [] \<Rightarrow> 0
       | c # cs \<Rightarrow> if c = CHR ''-'' then - digits_value cs else if c = CHR ''+'' then digits_value cs else digits_value s)
   in if - (2 ^ 31) \<le> n \<and> n < 2 ^ 31 then Some n else None)"

definition option_names :: "string list" where
  "option_names = [''-s'', ''-o'', ''--volume-size'', ''--spc'', ''--fc'', ''--bsbc'', ''--b-bsbc'', ''--jc'']"

text \<open>The loop of \<open>process_input\<close> over the arguments that are left.\<close>

fun process_input :: "string list \<Rightarrow> opt_t \<Rightarrow> (int \<times> opt_t) option" where
  "process_input [] opt = Some (1, opt)"
| "process_input [a] opt = Some (if a \<in> set option_names then 0 else 1, opt)"
| "process_input (a # v # as) opt =
    (if a = ''-s'' then process_input as (opt\<lparr>source_path := Some v\<rparr>)
     else if a = ''-o'' then process_input as (opt\<lparr>save_path := Some v\<rparr>)
     else if a = ''--volume-size'' then do { n \<leftarrow> atoi v; process_input as (opt\<lparr>opt_v_size := n\<rparr>) }
     else if a = ''--spc'' then do { n \<leftarrow> atoi v; process_input as (opt\<lparr>opt_spc := n\<rparr>) }
     else if a = ''--fc'' then do { n \<leftarrow> atoi v; process_input as (opt\<lparr>opt_fc := n\<rparr>) }
     else if a = ''--bsbc'' then do { n \<leftarrow> atoi v; process_input as (opt\<lparr>opt_bsbc := n\<rparr>) }
     else if a = ''--b-bsbc'' then do { n \<leftarrow> atoi v; process_input as (opt\<lparr>opt_b_bsbc := n\<rparr>) }
     else if a = ''--jc'' then do { n \<leftarrow> atoi v; process_input as (opt\<lparr>opt_jc := n\<rparr>) }
     else process_input (v # as) opt)"

section \<open>Placement and layout\<close>

definition BYTES_PER_SECTOR :: u32 where "BYTES_PER_SECTOR = 512"
definition RESERVED_SECTORS :: u32 where "RESERVED_SECTORS = 32"
definition ROOT_DIR_CLUSTER :: int where "ROOT_DIR_CLUSTER = 2"
definition CLUSTER_SIZE :: nat where "CLUSTER_SIZE = 4096"
definition FAT_ENTRY_FREE :: u32 where "FAT_ENTRY_FREE = 0"
definition FAT_ENTRY_END :: u32 where "FAT_ENTRY_END = 0x0FFFFFFF"
definition FAT_ENTRY_RESERVED :: u32 where "FAT_ENTRY_RESERVED = 0x0FFFFFF8"
definition ENTRY_END_f :: byte where "ENTRY_END_f = 0"

definition GET_BOOTSECTOR_f :: "u32 \<Rightarrow> u32 \<Rightarrow> u32 option" where
  "GET_BOOTSECTOR_f n ts = umod (drop_bit 11 ((n + 1) * 2654435761)) (ts - 2)"

definition GET_FATSECTOR_f :: "u32 \<Rightarrow> u32 \<Rightarrow> u32 option" where
  "GET_FATSECTOR_f n ts = umod (drop_bit 13 ((n + 7) * 340573321)) (ts - 32)"

definition GET_JOURNALSECTOR_f :: "u32 \<Rightarrow> u32 \<Rightarrow> u32 option" where
  "GET_JOURNALSECTOR_f n ts = umod (drop_bit 3 ((n + 35) * 12983229)) (ts - 2)"

definition GET_ERRORSSECTOR_f :: "u32 \<Rightarrow> u32 \<Rightarrow> u32 option" where
  "GET_ERRORSSECTOR_f n ts = umod (drop_bit 9 ((n + 23) * 10986542)) (ts - 2)"

record directory_entry_t_f =
  file_name_f :: "byte list"
  name_hash_f :: u32
  attributes_f :: byte
  cluster_f :: u32
  file_size_f :: u32
  checksum_f :: u32

definition sizeof_de_f :: nat where "sizeof_de_f = 28"

definition bytes_of_de_f :: "directory_entry_t_f \<Rightarrow> byte list" where
  "bytes_of_de_f e = file_name_f e @ bytes_of_u32 (name_hash_f e) @ [attributes_f e] @ bytes_of_u32 (cluster_f e)
     @ bytes_of_u32 (file_size_f e) @ bytes_of_u32 (checksum_f e)"

section \<open>The copies of the encoder and the checksum\<close>

definition encode_hamming_15_11_f :: "u16 \<Rightarrow> u16" where
  "encode_hamming_15_11_f data =
    (let encoded = 0;
         encoded = SET_BIT encoded 2 (GET_BIT data 0);
         encoded = SET_BIT encoded 4 (GET_BIT data 1);
         encoded = SET_BIT encoded 5 (GET_BIT data 2);
         encoded = SET_BIT encoded 6 (GET_BIT data 3);
         encoded = SET_BIT encoded 8 (GET_BIT data 4);
         encoded = SET_BIT encoded 9 (GET_BIT data 5);
         encoded = SET_BIT encoded 10 (GET_BIT data 6);
         encoded = SET_BIT encoded 11 (GET_BIT data 7);
         encoded = SET_BIT encoded 12 (GET_BIT data 8);
         encoded = SET_BIT encoded 13 (GET_BIT data 9);
         encoded = SET_BIT encoded 14 (GET_BIT data 10);
         p1 = (ucast (GET_BIT encoded 2 XOR GET_BIT encoded 4 XOR GET_BIT encoded 6 XOR GET_BIT encoded 8
               XOR GET_BIT encoded 10 XOR GET_BIT encoded 12 XOR GET_BIT encoded 14) :: byte);
         p2 = (ucast (GET_BIT encoded 2 XOR GET_BIT encoded 5 XOR GET_BIT encoded 6 XOR GET_BIT encoded 9
               XOR GET_BIT encoded 10 XOR GET_BIT encoded 13 XOR GET_BIT encoded 14) :: byte);
         p4 = (ucast (GET_BIT encoded 4 XOR GET_BIT encoded 5 XOR GET_BIT encoded 6 XOR GET_BIT encoded 11
               XOR GET_BIT encoded 12 XOR GET_BIT encoded 13 XOR GET_BIT encoded 14) :: byte);
         p8 = (ucast (GET_BIT encoded 8 XOR GET_BIT encoded 9 XOR GET_BIT encoded 10 XOR GET_BIT encoded 11
               XOR GET_BIT encoded 12 XOR GET_BIT encoded 13 XOR GET_BIT encoded 14) :: byte);
         encoded = SET_BIT encoded 0 p1;
         encoded = SET_BIT encoded 1 p2;
         encoded = SET_BIT encoded 3 p4;
         encoded = SET_BIT encoded 7 p8
     in encoded)"

definition set_byte_f :: "u16 list \<Rightarrow> nat \<Rightarrow> byte \<Rightarrow> u16 list option" where
  "set_byte_f ptr offset b = (if offset < length ptr then Some (ptr[offset := encode_hamming_15_11_f (ucast b)]) else None)"

primrec nft32_pack_memory_f :: "byte list \<Rightarrow> u16 list \<Rightarrow> nat \<Rightarrow> u16 list option" where
  "nft32_pack_memory_f src dst 0 = Some dst"
| "nft32_pack_memory_f src dst (Suc i) = do {
     dst \<leftarrow> nft32_pack_memory_f src dst i;
     if i < length src then set_byte_f dst i (src ! i) else None }"

definition rotl32_f :: "u32 \<Rightarrow> nat \<Rightarrow> u32" where
  "rotl32_f x r = push_bit r x OR drop_bit (32 - r) x"

definition fmix32_f :: "u32 \<Rightarrow> u32" where
  "fmix32_f h =
    (let h = h XOR drop_bit 16 h;
         h = h * 0x85ebca6b;
         h = h XOR drop_bit 13 h;
         h = h * 0xc2b2ae35;
         h = h XOR drop_bit 16 h
     in h)"

definition murmur_k1_f :: "u32 \<Rightarrow> u32" where
  "murmur_k1_f k1 = (let k1 = k1 * 0xcc9e2d51; k1 = rotl32_f k1 15; k1 = k1 * 0x1b873593 in k1)"

definition murmur_block_f :: "byte list \<Rightarrow> nat \<Rightarrow> u32 \<Rightarrow> u32" where
  "murmur_block_f key i h1 =
    (let k1 = murmur_k1_f (get_u32 key (4 * i)); h1 = h1 XOR k1; h1 = rotl32_f h1 13 in h1 * 5 + 0xe6546b64)"

definition murmur_tail_f :: "byte list \<Rightarrow> u32 \<Rightarrow> u32 \<Rightarrow> u32" where
  "murmur_tail_f tail rem h1 =
    (let k1 = 0;
         k1 = (if rem = 3 then k1 XOR push_bit 16 (ucast (tail ! 2)) else k1);
         k1 = (if rem = 3 \<or> rem = 2 then k1 XOR push_bit 8 (ucast (tail ! 1)) else k1)
     in if rem = 3 \<or> rem = 2 \<or> rem = 1 then (let k1 = k1 XOR ucast (tail ! 0) in h1 XOR murmur_k1_f k1) else h1)"

definition nft32_murmur3_x86_32_f :: "byte list \<Rightarrow> u32 \<Rightarrow> u32 \<Rightarrow> u32" where
  "nft32_murmur3_x86_32_f key len seed =
    (let nblocks = unat (len div 4);
         h1 = fold (murmur_block_f key) [0..<nblocks] seed;
         h1 = murmur_tail_f (drop (nblocks * 4) key) (len AND 3) h1
     in fmix32_f (h1 XOR len))"

section \<open>Sizes\<close>

text \<open>One round of the loop: \<open>clusters\<close> is 32 bits wide, its product with \<open>sizeof\<close> 64.\<close>

definition fat_size_step :: "opt_t \<Rightarrow> u32 \<Rightarrow> u32 \<Rightarrow> u32 option" where
  "fat_size_step opt ds fs = do {
     clusters \<leftarrow> udiv (ds - u32_of_int (opt_fc opt) * fs) (u32_of_int (opt_spc opt));
     Some (ucast ((ucast clusters * 4 + 512 - 1) div 512 :: u64)) }"

partial_function (option) fat_size_loop :: "opt_t \<Rightarrow> u32 \<Rightarrow> u32 \<Rightarrow> u32 option" where
  "fat_size_loop opt ds fs = do {
     n \<leftarrow> fat_size_step opt ds fs;
     if n \<noteq> fs then fat_size_loop opt ds n else Some n }"

definition calculate_fat_size :: "opt_t \<Rightarrow> u32 \<Rightarrow> u32 option" where
  "calculate_fat_size opt ts = fat_size_loop opt (ts - RESERVED_SECTORS) 0"

definition volume_bytes :: "opt_t \<Rightarrow> u32" where
  "volume_bytes opt = u32_of_int (opt_v_size opt) * 1024 * 1024"

definition total_clusters_f :: "opt_t \<Rightarrow> u32 \<Rightarrow> u32 \<Rightarrow> u32 option" where
  "total_clusters_f opt ts fs =
     udiv (ts - RESERVED_SECTORS - u32_of_int (opt_fc opt) * fs) (u32_of_int (opt_spc opt))"

definition data_start :: "opt_t \<Rightarrow> u32 \<Rightarrow> u32" where
  "data_start opt fs = (RESERVED_SECTORS + u32_of_int (opt_fc opt) * fs) * BYTES_PER_SECTOR"

section \<open>Host calls\<close>

record 'w host =
  h_open :: "'w \<Rightarrow> int \<times> 'w"
  h_ftruncate :: "int \<Rightarrow> 'w \<Rightarrow> int \<times> 'w"
  h_malloc :: "nat \<Rightarrow> 'w \<Rightarrow> bool \<times> 'w"
  h_pwrite :: "byte list \<Rightarrow> int \<Rightarrow> 'w \<Rightarrow> int \<times> 'w"
  h_lseek :: "int \<Rightarrow> 'w \<Rightarrow> int \<times> 'w"
  h_read :: "nat \<Rightarrow> 'w \<Rightarrow> (int \<times> byte list) \<times> 'w"
  h_write :: "byte list \<Rightarrow> 'w \<Rightarrow> int \<times> 'w"

text \<open>A write of a whole buffer at an offset of the image, with the comparison of its result.\<close>

definition put_at :: "'w host \<Rightarrow> byte list \<Rightarrow> u32 \<Rightarrow> 'w \<Rightarrow> bool \<times> 'w" where
  "put_at h buf off w = (let (r, w) = h_pwrite h buf (uint off) w in (r = int (length buf), w))"

section \<open>Boot sectors, journals, errors\<close>

definition label_nifat_32 :: "byte list" where
  "label_nifat_32 = [0x4E, 0x49, 0x46, 0x41, 0x54, 0x20, 0x33, 0x32]"

definition ext_f :: "u32 \<Rightarrow> nifat32_ext32_bootsector_t" where
  "ext_f fs = (let
     ext = \<lparr>table_size_32 = fs, extended_flags = 0, fat_version = 0, root_cluster = u32_of_int ROOT_DIR_CLUSTER,
       drive_number = 0x80, boot_signature = 0x29, volume_id = 0x12345678, volume_label = label_root,
       fat_type_label = label_nifat32, ext_checksum = 0\<rparr>
   in ext\<lparr>ext_checksum := nft32_murmur3_x86_32_f (bytes_of_ext ext) (of_nat sizeof_ext) 0\<rparr>)"

definition bs_f :: "opt_t \<Rightarrow> u32 \<Rightarrow> u32 \<Rightarrow> nifat32_bootsector_t" where
  "bs_f opt ts fs = (let
     bs = \<lparr>bootjmp = [0xEB, 0x58, 0x90], oem_name = label_nifat_32, bs_bytes_per_sector = ucast BYTES_PER_SECTOR,
       bs_sectors_per_cluster = word_of_int (opt_spc opt), reserved_sector_count = ucast RESERVED_SECTORS,
       table_count = word_of_int (opt_fc opt), root_entry_count = 0, total_sectors_16 = 0, media_type = 0xF8,
       table_size_16 = 0, sectors_per_track = 63, head_side_count = 255, hidden_sector_count = 0,
       total_sectors_32 = ts, extended_section = ext_f fs, bs_checksum = 0\<rparr>
   in bs\<lparr>bs_checksum := nft32_murmur3_x86_32_f (bytes_of_bs bs) (of_nat sizeof_bs) 0\<rparr>)"

primrec write_bs_loop :: "nat \<Rightarrow> int \<Rightarrow> 'w host \<Rightarrow> u32 \<Rightarrow> byte list \<Rightarrow> u16 list \<Rightarrow> 'w \<Rightarrow> (int \<times> 'w) option" where
  "write_bs_loop 0 i h ts bs encoded_bs w = Some (1, w)"
| "write_bs_loop (Suc k) i h ts bs encoded_bs w = do {
     ca \<leftarrow> GET_BOOTSECTOR_f (u32_of_int i) ts;
     encoded_bs \<leftarrow> nft32_pack_memory_f bs encoded_bs sizeof_bs;
     let (ok, w) = put_at h (replicate 512 0) (ca * BYTES_PER_SECTOR) w;
     if \<not> ok then Some (0, w)
     else do {
       let (ok, w) = put_at h (bytes_of_u16s encoded_bs) (ca * BYTES_PER_SECTOR) w;
       if \<not> ok then Some (0, w) else write_bs_loop k (i + 1) h ts bs encoded_bs w } }"

text \<open>The buffer comes from \<open>malloc\<close>; its old contents are overwritten before they are used.\<close>

definition write_bs :: "opt_t \<Rightarrow> 'w host \<Rightarrow> u32 \<Rightarrow> u32 \<Rightarrow> 'w \<Rightarrow> (int \<times> 'w) option" where
  "write_bs opt h ts fs w = (let (ok, w) = h_malloc h (2 * sizeof_bs) w in
     if \<not> ok then Some (0, w)
     else write_bs_loop (nat (opt_bsbc opt - opt_b_bsbc opt)) (opt_b_bsbc opt) h ts
       (bytes_of_bs (bs_f opt ts fs)) (replicate sizeof_bs 0) w)"

text \<open>The loops that wipe the journal and error areas differ in the placement only. A buffer of
  no sectors, or of a negative number, is undefined.\<close>

primrec wipe_areas :: "nat \<Rightarrow> int \<Rightarrow> (u32 \<Rightarrow> u32 \<Rightarrow> u32 option) \<Rightarrow> opt_t \<Rightarrow> 'w host \<Rightarrow> u32 \<Rightarrow> 'w \<Rightarrow> (int \<times> 'w) option" where
  "wipe_areas 0 i place opt h ts w = Some (1, w)"
| "wipe_areas (Suc k) i place opt h ts w =
    (if opt_spc opt \<le> 0 then None
     else do {
       sector \<leftarrow> place (u32_of_int i) ts;
       let (ok, w) = put_at h (replicate (512 * nat (opt_spc opt)) 0) (sector * BYTES_PER_SECTOR) w;
       if \<not> ok then Some (0, w) else wipe_areas k (i + 1) place opt h ts w })"

definition write_journals :: "opt_t \<Rightarrow> 'w host \<Rightarrow> u32 \<Rightarrow> 'w \<Rightarrow> (int \<times> 'w) option" where
  "write_journals opt h ts w = wipe_areas (nat (opt_jc opt)) 0 GET_JOURNALSECTOR_f opt h ts w"

definition write_errors :: "opt_t \<Rightarrow> 'w host \<Rightarrow> u32 \<Rightarrow> 'w \<Rightarrow> (int \<times> 'w) option" where
  "write_errors opt h ts w = wipe_areas (nat (opt_ec opt)) 0 GET_ERRORSSECTOR_f opt h ts w"

section \<open>The table\<close>

definition mark_reserved :: u32 where "mark_reserved = FAT_ENTRY_RESERVED OR push_bit 24 0xF8"
definition mark_end :: u32 where "mark_end = FAT_ENTRY_END OR push_bit 24 0xF8"

definition tset :: "u32 list \<Rightarrow> nat \<Rightarrow> u32 \<Rightarrow> u32 list option" where
  "tset t i v = (if i < length t then Some (t[i := v]) else None)"

definition tget :: "u32 list \<Rightarrow> nat \<Rightarrow> u32 option" where
  "tget t i = (if i < length t then Some (t ! i) else None)"

text \<open>The loops for boot sectors, journals and errors: one cluster each.\<close>

primrec reserve_sectors :: "nat \<Rightarrow> int \<Rightarrow> (u32 \<Rightarrow> u32 \<Rightarrow> u32 option) \<Rightarrow> opt_t \<Rightarrow> u32 \<Rightarrow> u32 \<Rightarrow> u32 list \<Rightarrow> u32 list option" where
  "reserve_sectors 0 i place opt ts tc t = Some t"
| "reserve_sectors (Suc k) i place opt ts tc t = do {
     sector \<leftarrow> place (u32_of_int i) ts;
     c \<leftarrow> udiv sector (u32_of_int (opt_spc opt));
     t \<leftarrow> (if c < tc then tset t (unat c) mark_reserved else Some t);
     reserve_sectors k (i + 1) place opt ts tc t }"

text \<open>The run of clusters of one copy of the table; \<open>k\<close> bounds the clusters that are left.\<close>

primrec reserve_run :: "nat \<Rightarrow> opt_t \<Rightarrow> u32 \<Rightarrow> nat \<Rightarrow> int \<Rightarrow> u32 list \<Rightarrow> u32 list option" where
  "reserve_run 0 opt tc c total_reserved t = Some t"
| "reserve_run (Suc k) opt tc c total_reserved t =
    (if c < unat tc \<and> total_reserved > 0 then do {
       t \<leftarrow> tset t c mark_reserved;
       reserve_run k opt tc (c + 1) (total_reserved - opt_spc opt * 512) t }
     else Some t)"

primrec reserve_fats :: "nat \<Rightarrow> int \<Rightarrow> opt_t \<Rightarrow> u32 \<Rightarrow> u32 \<Rightarrow> u32 list \<Rightarrow> u32 list option" where
  "reserve_fats 0 i opt ts tc t = Some t"
| "reserve_fats (Suc k) i opt ts tc t = do {
     base \<leftarrow> GET_FATSECTOR_f (u32_of_int i) ts;
     c \<leftarrow> udiv (RESERVED_SECTORS + base) (u32_of_int (opt_spc opt));
     t \<leftarrow> reserve_run (unat tc - unat c) opt tc (unat c) (int (unat tc * 4 * 2)) t;
     reserve_fats k (i + 1) opt ts tc t }"

definition initialize_fat :: "opt_t \<Rightarrow> u32 list \<Rightarrow> u32 \<Rightarrow> u32 \<Rightarrow> u32 list option" where
  "initialize_fat opt t ts tc = do {
     t \<leftarrow> tset t 0 mark_reserved;
     t \<leftarrow> tset t 1 mark_end;
     t \<leftarrow> tset t 2 mark_end;
     t \<leftarrow> reserve_sectors (nat (opt_bsbc opt)) 0 GET_BOOTSECTOR_f opt ts tc t;
     t \<leftarrow> reserve_fats (nat (opt_fc opt)) 0 opt ts tc t;
     t \<leftarrow> reserve_sectors (nat (opt_jc opt)) 0 GET_JOURNALSECTOR_f opt ts tc t;
     reserve_sectors (nat (opt_ec opt)) 0 GET_ERRORSSECTOR_f opt ts tc t }"

text \<open>The table and the heap bytes behind it, which the packing reads when the sectors of the table
  are longer than the table.\<close>

definition table_bytes :: "u32 list \<Rightarrow> byte list" where
  "table_bytes t = concat (map bytes_of_u32 t)"

primrec write_fats_loop :: "nat \<Rightarrow> int \<Rightarrow> 'w host \<Rightarrow> byte list \<Rightarrow> u32 \<Rightarrow> 'w \<Rightarrow> (int \<times> 'w) option" where
  "write_fats_loop 0 i h encoded_fat ts w = Some (1, w)"
| "write_fats_loop (Suc k) i h encoded_fat ts w = do {
     base \<leftarrow> GET_FATSECTOR_f (u32_of_int i) ts;
     let (ok, w) = put_at h encoded_fat ((RESERVED_SECTORS + base) * BYTES_PER_SECTOR) w;
     if \<not> ok then Some (0, w) else write_fats_loop k (i + 1) h encoded_fat ts w }"

definition write_fats :: "opt_t \<Rightarrow> 'w host \<Rightarrow> byte list \<Rightarrow> u32 list \<Rightarrow> u32 \<Rightarrow> u32 \<Rightarrow> 'w \<Rightarrow> (int \<times> 'w) option" where
  "write_fats opt h behind t fs ts w = (let
     fat_bytes = (ucast (ucast (fs * BYTES_PER_SECTOR) * 2 :: u64) :: u32);
     (ok, w) = h_malloc h (unat fat_bytes) w
   in if \<not> ok then Some (0, w)
     else do {
       enc \<leftarrow> nft32_pack_memory_f (table_bytes t @ behind) (replicate (unat fat_bytes div 2) 0)
         (nat (int_of_u32 (fs * BYTES_PER_SECTOR)));
       write_fats_loop (nat (opt_fc opt)) 0 h (bytes_of_u16s enc) ts w })"

section \<open>Directories and files\<close>

definition root_dir_offset :: "u32 \<Rightarrow> u32" where
  "root_dir_offset start = start + u32_of_int ((ROOT_DIR_CLUSTER - 2) * int CLUSTER_SIZE)"

definition write_root_directory :: "'w host \<Rightarrow> u32 \<Rightarrow> 'w \<Rightarrow> (int \<times> 'w) option" where
  "write_root_directory h start w = (let (ok, w) = put_at h (replicate CLUSTER_SIZE 0) (root_dir_offset start) w
     in Some (if ok then 1 else 0, w))"

text \<open>\<open>toupper\<close> of the C library in its locale, on the byte of a character.\<close>

definition toupper :: "byte \<Rightarrow> byte" where
  "toupper c = (if 97 \<le> c \<and> c \<le> 122 then c - 32 else c)"

text \<open>The position of the last dot.\<close>

definition last_dot :: "byte list \<Rightarrow> nat option" where
  "last_dot name = (case filter (\<lambda>i. name ! i = 46) [0..<length name] of [] \<Rightarrow> None | is \<Rightarrow> Some (last is))"

definition to_83_name :: "byte list \<Rightarrow> byte list" where
  "to_83_name name = (let (base, ext) = (case last_dot name of
       Some d \<Rightarrow> if d \<noteq> 0 then (take 8 (take d name), take 3 (drop (d + 1) name)) else (take 8 name, [])
     | None \<Rightarrow> (take 8 name, []))
   in map (\<lambda>i. if i < length base then toupper (base ! i) else 0x20) [0..<8] @
      map (\<lambda>i. if i < length ext then toupper (ext ! i) else 0x20) [0..<3])"

definition name_hash11 :: "byte list \<Rightarrow> u32" where
  "name_hash11 n = nft32_murmur3_x86_32_f n 11 0"

definition sum_f :: "directory_entry_t_f \<Rightarrow> u32" where
  "sum_f e = nft32_murmur3_x86_32_f (bytes_of_de_f e) (of_nat sizeof_de_f) 0"

definition with_sum_f :: "directory_entry_t_f \<Rightarrow> directory_entry_t_f" where
  "with_sum_f e = (let e = e\<lparr>checksum_f := 0\<rparr> in e\<lparr>checksum_f := sum_f e\<rparr>)"

text \<open>The scan for a free cluster: \<open>None\<close> is an access out of bounds, \<open>Some None\<close> a full table.\<close>

primrec free_scan_f :: "nat \<Rightarrow> u32 list \<Rightarrow> u32 \<Rightarrow> nat \<Rightarrow> nat option option" where
  "free_scan_f 0 t tc i = Some None"
| "free_scan_f (Suc k) t tc i =
    (if i < unat tc then do {
       v \<leftarrow> tget t i;
       if v = FAT_ENTRY_FREE then Some (Some i) else free_scan_f k t tc (i + 1) }
     else Some None)"

definition take_free_f :: "u32 list \<Rightarrow> u32 \<Rightarrow> nat \<Rightarrow> (nat option \<times> u32 list \<times> nat) option" where
  "take_free_f t tc last_alloc = do {
     r \<leftarrow> free_scan_f (unat tc - last_alloc) t tc last_alloc;
     (case r of None \<Rightarrow> Some (None, t, last_alloc)
      | Some i \<Rightarrow> do { t \<leftarrow> tset t i FAT_ENTRY_END; Some (Some i, t, i + 1) }) }"

text \<open>The offset of a cluster is computed in \<open>int\<close>, where an overflow is undefined.\<close>

definition cluster_offset_f :: "u32 \<Rightarrow> nat \<Rightarrow> u32 option" where
  "cluster_offset_f start i = (let n = (int i - 2) * int CLUSTER_SIZE
     in if n < 2 ^ 31 then Some (start + u32_of_int n) else None)"

definition dot_entries :: "nat \<Rightarrow> directory_entry_t_f list" where
  "dot_entries i = (let
     e0 = \<lparr>file_name_f = to_83_name [46], name_hash_f = name_hash11 (to_83_name [46]), attributes_f = 0x10,
       cluster_f = of_nat i, file_size_f = 0, checksum_f = 0\<rparr>;
     e1 = \<lparr>file_name_f = to_83_name [46, 46], name_hash_f = name_hash11 (to_83_name [46, 46]), attributes_f = 0x10,
       cluster_f = 0, file_size_f = 0, checksum_f = 0\<rparr>;
     zero = ENTRY_END_f # replicate 10 0;
     e2 = \<lparr>file_name_f = zero, name_hash_f = name_hash11 zero, attributes_f = 0x10, cluster_f = 0, file_size_f = 0,
       checksum_f = 0\<rparr>
   in map with_sum_f [e0, e1, e2])"

text \<open>Results: success, start cluster, table, last allocation.\<close>

definition create_directory :: "'w host \<Rightarrow> u32 list \<Rightarrow> u32 \<Rightarrow> u32 \<Rightarrow> nat \<Rightarrow> 'w \<Rightarrow>
    ((int \<times> u32 \<times> u32 list \<times> nat) \<times> 'w) option" where
  "create_directory h t start tc last_alloc w = do {
     (r, t, last_alloc) \<leftarrow> take_free_f t tc last_alloc;
     (case r of None \<Rightarrow> Some ((0, 0, t, last_alloc), w)
      | Some i \<Rightarrow> do {
          let entries = concat (map bytes_of_de_f (dot_entries i));
          let (ok, w) = h_malloc h (2 * (3 * sizeof_de_f)) w;
          if \<not> ok then Some ((0, of_nat i, t, last_alloc), w)
          else do {
            root_dirs \<leftarrow> nft32_pack_memory_f entries (replicate (3 * sizeof_de_f) 0) (3 * sizeof_de_f);
            off \<leftarrow> cluster_offset_f start i;
            let (ok, w) = put_at h (bytes_of_u16s root_dirs) off w;
            Some ((if ok then 1 else 0, of_nat i, t, last_alloc), w) } }) }"

text \<open>The blocks \<open>fread\<close> returns for a file with the given contents.\<close>

fun file_blocks :: "byte list \<Rightarrow> byte list list" where
  "file_blocks [] = []"
| "file_blocks (b # bs) = take CLUSTER_SIZE (b # bs) # file_blocks (drop (CLUSTER_SIZE - 1) bs)"

primrec copy_blocks :: "byte list list \<Rightarrow> 'w host \<Rightarrow> u32 list \<Rightarrow> nat option \<Rightarrow> u32 \<Rightarrow> nat \<Rightarrow> u32 \<Rightarrow> u32 \<Rightarrow> nat \<Rightarrow> 'w \<Rightarrow>
    ((int \<times> u32 \<times> nat \<times> u32 list \<times> nat) \<times> 'w) option" where
  "copy_blocks [] h t prev start_cluster file_size start tc last_alloc w =
     Some ((1, start_cluster, file_size, t, last_alloc), w)"
| "copy_blocks (b # bs) h t prev start_cluster file_size start tc last_alloc w = do {
     (r, t, last_alloc) \<leftarrow> take_free_f t tc last_alloc;
     (case r of None \<Rightarrow> Some ((0, start_cluster, file_size, t, last_alloc), w)
      | Some i \<Rightarrow> do {
          t \<leftarrow> (case prev of None \<Rightarrow> Some t | Some p \<Rightarrow> tset t p (of_nat i));
          let start_cluster = (if prev = None then of_nat i else start_cluster);
          off \<leftarrow> cluster_offset_f start i;
          let (r, w) = h_lseek h (uint off) w;
          if r \<noteq> uint off then Some ((0, start_cluster, file_size, t, last_alloc), w)
          else do {
            let (r, w) = h_write h b w;
            if r \<noteq> int (length b) then Some ((0, start_cluster, file_size, t, last_alloc), w)
            else copy_blocks bs h t (Some i) start_cluster (file_size + length b) start tc last_alloc w } }) }"

definition copy_file :: "'w host \<Rightarrow> byte list \<Rightarrow> u32 list \<Rightarrow> u32 \<Rightarrow> u32 \<Rightarrow> nat \<Rightarrow> 'w \<Rightarrow>
    ((int \<times> u32 \<times> nat \<times> u32 list \<times> nat) \<times> 'w) option" where
  "copy_file h contents t start tc last_alloc w =
     copy_blocks (file_blocks contents) h t None 0 0 start tc last_alloc w"

text \<open>An entry of the source directory: a directory, a regular file (with its contents, unless it
  cannot be opened), or something else, which includes what \<open>stat\<close> fails on.\<close>

datatype source = Src_dir | Src_file "byte list option" | Src_other

text \<open>Bytes of slot \<open>k\<close> of the root directory, out of bounds undefined; \<open>strlen\<close> from there.\<close>

definition rput :: "byte list \<Rightarrow> nat \<Rightarrow> nat \<Rightarrow> byte list \<Rightarrow> byte list option" where
  "rput root k off bs = (let p = k * sizeof_de_f + off
     in if p + length bs \<le> length root then Some (splice root p bs) else None)"

definition rbytes :: "byte list \<Rightarrow> nat \<Rightarrow> byte list" where
  "rbytes root k = take sizeof_de_f (drop (k * sizeof_de_f) root)"

definition strlen_at :: "byte list \<Rightarrow> nat option" where
  "strlen_at bs = (if 0 \<in> set bs then Some (length (takeWhile (\<lambda>b. b \<noteq> 0) bs)) else None)"

text \<open>The fields behind the name, and the checksum over the slot as it then is.\<close>

definition finish_entry :: "byte list \<Rightarrow> nat \<Rightarrow> u32 \<Rightarrow> byte \<Rightarrow> u32 \<Rightarrow> u32 \<Rightarrow> bool \<Rightarrow> byte list option" where
  "finish_entry root k hash attr cluster fsize clear = do {
     root \<leftarrow> rput root k 11 (bytes_of_u32 hash @ [attr] @ bytes_of_u32 cluster @ bytes_of_u32 fsize);
     root \<leftarrow> (if clear then rput root k 24 (bytes_of_u32 0) else Some root);
     rput root k 24 (bytes_of_u32 (nft32_murmur3_x86_32_f (rbytes root k) (of_nat sizeof_de_f) 0)) }"

primrec copy_entries :: "(byte list \<times> source) list \<Rightarrow> 'w host \<Rightarrow> u32 list \<Rightarrow> byte list \<Rightarrow> nat \<Rightarrow> nat \<Rightarrow> u32 \<Rightarrow> u32 \<Rightarrow> 'w \<Rightarrow>
    ((u32 list \<times> byte list \<times> nat) \<times> 'w) option" where
  "copy_entries [] h t root n last_alloc start tc w = Some ((t, root, n), w)"
| "copy_entries (e # es) h t root n last_alloc start tc w = (let (name, src) = e in
    if name = [46] \<or> name = [46, 46] then copy_entries es h t root n last_alloc start tc w
    else case src of
      Src_dir \<Rightarrow> do {
        ((ok, c, t, last_alloc), w) \<leftarrow> create_directory h t start tc last_alloc w;
        if ok = 0 then copy_entries es h t root n last_alloc start tc w
        else do {
          root \<leftarrow> rput root n 0 (to_83_name name);
          root \<leftarrow> finish_entry root n (name_hash11 (to_83_name name)) 0x10 c 0 False;
          copy_entries es h t root (n + 1) last_alloc start tc w } }
    | Src_file None \<Rightarrow> copy_entries es h t root n last_alloc start tc w
    | Src_file (Some contents) \<Rightarrow> do {
        ((ok, c, fsize, t, last_alloc), w) \<leftarrow> copy_file h contents t start tc last_alloc w;
        if ok = 0 then copy_entries es h t root n last_alloc start tc w
        else do {
          root \<leftarrow> rput root n 0 (to_83_name name);
          len \<leftarrow> strlen_at (drop (n * sizeof_de_f) root);
          root \<leftarrow> finish_entry root n (nft32_murmur3_x86_32_f (drop (n * sizeof_de_f) root) (of_nat len) 0) 0x20 c
            (of_nat fsize) True;
          copy_entries es h t root (n + 1) last_alloc start tc w } }
    | Src_other \<Rightarrow> copy_entries es h t root n last_alloc start tc w)"

text \<open>Of the encoded root directory, which is twice as long as a cluster, one cluster is written.
  \<open>None\<close> as the directory is a directory that cannot be opened.\<close>

definition copy_files_to_fs :: "'w host \<Rightarrow> (byte list \<times> source) list option \<Rightarrow> u32 list \<Rightarrow> u32 \<Rightarrow> u32 \<Rightarrow> 'w \<Rightarrow>
    ((int \<times> u32 list) \<times> 'w) option" where
  "copy_files_to_fs h dir t start tc w = (case dir of None \<Rightarrow> Some ((0, t), w)
   | Some es \<Rightarrow> do {
     let off = uint (root_dir_offset start);
     let (ok, w) = h_malloc h CLUSTER_SIZE w;
     if \<not> ok then Some ((0, t), w)
     else do {
       let (r, w) = h_lseek h off w;
       if r \<noteq> off then Some ((0, t), w)
       else do {
         let ((r, root), w) = h_read h CLUSTER_SIZE w;
         if r \<noteq> int CLUSTER_SIZE then Some ((0, t), w)
         else do {
           ((t, root, n), w) \<leftarrow> copy_entries es h t root 0 3 start tc w;
           root \<leftarrow> rput root n 0 [ENTRY_END_f];
           root \<leftarrow> finish_entry root n (name_hash11 (take 11 (rbytes root n))) 0 0 0 True;
           let (r, w) = h_lseek h off w;
           if r \<noteq> off then Some ((0, t), w)
           else do {
             enc \<leftarrow> nft32_pack_memory_f root (replicate CLUSTER_SIZE 0) CLUSTER_SIZE;
             let (r, w) = h_write h (take CLUSTER_SIZE (bytes_of_u16s enc)) w;
             Some ((if r = int CLUSTER_SIZE then 1 else 0, t), w) } } } } })"

section \<open>The program\<close>

text \<open>\<open>main\<close> after the options: the exit status. \<open>dir\<close> is what opening \<open>source_path\<close> gives,
  \<open>behind\<close> the heap behind the table.\<close>

definition format_volume :: "opt_t \<Rightarrow> 'w host \<Rightarrow> (byte list \<times> source) list option \<Rightarrow> byte list \<Rightarrow> 'w \<Rightarrow> (int \<times> 'w) option" where
  "format_volume opt h dir behind w =
    (if save_path opt = None then Some (1, w)
     else let (fd, w) = h_open h w in
     if fd < 0 then Some (1, w)
     else let (r, w) = h_ftruncate h (uint (volume_bytes opt)) w in
     if r \<noteq> 0 then Some (1, w)
     else do {
       let ts = volume_bytes opt div BYTES_PER_SECTOR;
       fs \<leftarrow> calculate_fat_size opt ts;
       tc \<leftarrow> total_clusters_f opt ts fs;
       let start = data_start opt fs;
       let (ok, w) = h_malloc h (unat tc * 4) w;
       if \<not> ok then Some (1, w)
       else do {
         (r, w) \<leftarrow> write_bs opt h ts fs w;
         if r = 0 then Some (1, w)
         else do {
           (r, w) \<leftarrow> write_journals opt h ts w;
           if r = 0 then Some (1, w)
           else do {
             (r, w) \<leftarrow> write_errors opt h ts w;
             if r = 0 then Some (1, w)
             else do {
               t \<leftarrow> initialize_fat opt (replicate (unat tc) FAT_ENTRY_FREE) ts tc;
               (r, w) \<leftarrow> write_root_directory h start w;
               if r = 0 then Some (1, w)
               else do {
                 ((r, t), w) \<leftarrow> (if source_path opt \<noteq> None then copy_files_to_fs h dir t start tc w else Some ((1, t), w));
                 if r = 0 then Some (1, w)
                 else do {
                   (_, w) \<leftarrow> write_fats opt h behind t fs ts w;
                   Some (0, w) } } } } } } })"

definition formatter_main :: "string list \<Rightarrow> 'w host \<Rightarrow> (byte list \<times> source) list option \<Rightarrow> byte list \<Rightarrow> 'w \<Rightarrow> (int \<times> 'w) option" where
  "formatter_main argv h dir behind w =
    (if length argv < 2 then Some (1, w)
     else do {
       (_, opt) \<leftarrow> process_input (tl argv) opt_default;
       format_volume opt h dir behind w })"

section \<open>The copies agree with the driver\<close>

named_theorems fm_copy "the formatter's copies of driver code"

lemma encode_hamming_15_11_f [fm_copy]: "encode_hamming_15_11_f = encode_hamming_15_11"
  by (rule ext) (simp only: encode_hamming_15_11_f_def encode_hamming_15_11_def)

lemma pack_memory_f [fm_copy]:
  "n \<le> length src \<Longrightarrow> n \<le> length dst \<Longrightarrow> nft32_pack_memory_f src dst n = Some (nft32_pack_memory src dst n)"
  by (induction n) (simp_all add: set_byte_f_def encode_hamming_15_11_f set_byte_def enc_byte_def)

lemma pack_memory_f_over: "length src < n \<Longrightarrow> nft32_pack_memory_f src dst n = None"
proof (induction n)
  case (Suc n)
  then show ?case by (cases "length src < n") (auto simp: not_less intro: option.exhaust split: option.splits bind_splits)
qed simp

lemma murmur3_f [fm_copy]: "nft32_murmur3_x86_32_f = nft32_murmur3_x86_32"
proof -
  have "rotl32_f = rotl32" "fmix32_f = fmix32" by (intro ext; simp add: rotl32_f_def rotl32_def fmix32_f_def fmix32_def)+
  then have "murmur_k1_f = mur_k1" by (intro ext) (simp add: murmur_k1_f_def mur_k1_def mur_c1_def mur_c2_def)
  then have "murmur_block_f = mur_block" "murmur_tail_f = mur_tail"
    using \<open>rotl32_f = rotl32\<close>
    by (intro ext; simp add: murmur_block_f_def mur_block_def murmur_tail_f_def mur_tail_def Let_def)+
  then show ?thesis using \<open>fmix32_f = fmix32\<close>
    by (intro ext) (simp add: nft32_murmur3_x86_32_f_def nft32_murmur3_x86_32_def Let_def)
qed

lemma placement_f [fm_copy]:
  "GET_BOOTSECTOR_f = GET_BOOTSECTOR" "GET_JOURNALSECTOR_f = GET_JOURNALSECTOR" "GET_ERRORSSECTOR_f = GET_ERRORSSECTOR"
  by (intro ext; simp add: GET_BOOTSECTOR_f_def GET_BOOTSECTOR_def BOOT_MULTIPLIER_def GET_JOURNALSECTOR_f_def
      GET_JOURNALSECTOR_def JOURNAL_MULTIPLIER_def GET_ERRORSSECTOR_f_def GET_ERRORSSECTOR_def ERRORS_MULTIPLIER_def)+

section \<open>Sizes\<close>

lemma fat_size_loop_fixpoint:
  assumes "fat_size_loop opt ds n = Some m"
  shows "fat_size_step opt ds m = Some m"
proof (rule fat_size_loop.raw_induct [where P = "\<lambda>o' d' n' m'. fat_size_step o' d' m' = Some m'", OF _ assms])
  fix f opt ds n m
  assume IH: "\<And>opt ds n m. f opt ds n = Some m \<Longrightarrow> fat_size_step opt ds m = Some m"
    and "fat_size_step opt ds n \<bind> (\<lambda>k. if k \<noteq> n then f opt ds k else Some k) = Some m"
  then obtain k where k: "fat_size_step opt ds n = Some k" "(if k \<noteq> n then f opt ds k else Some k) = Some m"
    by (auto simp: Option.bind_eq_Some_conv)
  then show "fat_size_step opt ds m = Some m" using IH by (cases "k = n") auto
qed

text \<open>A set that the rounds never leave and that holds no fixed point is never left by the loop.\<close>

lemma fat_size_loop_trapped:
  assumes "\<And>n. n \<in> S \<Longrightarrow> \<exists>m \<in> S. fat_size_step opt ds n = Some m \<and> m \<noteq> n" and "n \<in> S"
  shows "fat_size_loop opt ds n = None"
proof -
  have False if m: "fat_size_loop opt ds n = Some m" for m
  proof -
    have "opt = opt \<longrightarrow> ds = ds \<longrightarrow> n \<notin> S"
    proof (rule fat_size_loop.raw_induct [where P = "\<lambda>o' d' n' m'. o' = opt \<longrightarrow> d' = ds \<longrightarrow> n' \<notin> S", OF _ m], intro impI notI)
      fix f o' d' n' m'
      assume IH: "\<And>o' d' n' m'. f o' d' n' = Some m' \<Longrightarrow> o' = opt \<longrightarrow> d' = ds \<longrightarrow> n' \<notin> S"
        and s: "fat_size_step o' d' n' \<bind> (\<lambda>k. if k \<noteq> n' then f o' d' k else Some k) = Some m'"
        and n: "o' = opt" "d' = ds" "n' \<in> S"
      obtain k where "k \<in> S" "fat_size_step opt ds n' = Some k" "k \<noteq> n'" using assms(1) n(3) by blast
      then show False using s n(1,2) IH [of opt ds k m'] by simp
    qed
    then show False using assms(2) by simp
  qed
  then show ?thesis using assms(2) by (cases "fat_size_loop opt ds n") auto
qed

lemma opt_default_simps [simp]:
  "opt_spc opt_default = 8" "opt_fc opt_default = 4" "opt_bsbc opt_default = 5" "opt_b_bsbc opt_default = 0"
  "opt_jc opt_default = 2" "opt_ec opt_default = 1" "opt_v_size opt_default = 64"
  by (simp_all add: opt_default_def)

lemma default_step:
  "opt_fc opt = 4 \<Longrightarrow> opt_spc opt = 8 \<Longrightarrow> fat_size_step opt ds fs = Some (ucast ((511 + ucast ((ds - 4 * fs) div 8) * 4) div 512 :: u64))"
  by (simp add: fat_size_step_def udiv_def)

lemma fat_size_default: "calculate_fat_size opt_default 131072 = Some 128"
  by (simp add: calculate_fat_size_def RESERVED_SECTORS_def fat_size_loop.simps default_step)

lemma total_clusters_default: "total_clusters_f opt_default 131072 128 = Some 16316"
  by (simp add: total_clusters_f_def RESERVED_SECTORS_def udiv_def)

text \<open>C36 (the size of the table). What \<open>calculate_fat_size\<close> returns is a fixed point of its
  round: the number of sectors that hold the entries of the clusters that are left beside that many
  sectors per copy. But the call need not return: for the default options and a volume of 252 MB the
  rounds alternate between 502 and 503 sectors for ever.\<close>

theorem fat_size_fixpoint_or_diverges:
  "(calculate_fat_size opt ts = Some fs \<longrightarrow> fat_size_step opt (ts - RESERVED_SECTORS) fs = Some fs) \<and>
   calculate_fat_size (opt_default\<lparr>opt_v_size := 252\<rparr>) (volume_bytes (opt_default\<lparr>opt_v_size := 252\<rparr>) div BYTES_PER_SECTOR) = None"
proof
  show "calculate_fat_size opt ts = Some fs \<longrightarrow> fat_size_step opt (ts - RESERVED_SECTORS) fs = Some fs"
    by (simp add: calculate_fat_size_def fat_size_loop_fixpoint)
  let ?o = "opt_default\<lparr>opt_v_size := 252\<rparr>"
  have ts: "volume_bytes ?o div BYTES_PER_SECTOR - RESERVED_SECTORS = 516064"
    by (simp add: volume_bytes_def BYTES_PER_SECTOR_def RESERVED_SECTORS_def)
  have "fat_size_loop ?o 516064 0 = None"
    by (rule fat_size_loop_trapped [where S = "{0, 504, 502, 503}"]) (auto simp: default_step)
  then show "calculate_fat_size ?o (volume_bytes ?o div BYTES_PER_SECTOR) = None"
    by (simp add: calculate_fat_size_def ts)
qed

theorem fat_size_fixpoint_or_diverges_witness:
  "fat_size_step opt_default (131072 - RESERVED_SECTORS) 128 = Some 128"
  using fat_size_fixpoint_or_diverges [of opt_default 131072 128] fat_size_default by blast

text \<open>C29 (where the table is). The formatter takes its place for a copy modulo \<open>ts - 32\<close>, the driver
  modulo \<open>ts - 23\<close>: they agree on volumes of at least \<open>2 ^ 19 + 32\<close> sectors. On the default volume
  no copy is written where the driver looks for one.\<close>

theorem fat_placement_split:
  "(2 ^ 19 + 32 \<le> unat ts \<longrightarrow> GET_FATSECTOR_f n ts = GET_FATSECTOR n ts) \<and>
   (\<forall>i < 4. \<forall>j < 4. GET_FATSECTOR_f (of_nat i) 131072 \<noteq> GET_FATSECTOR (of_nat j) 131072)"
proof
  show "2 ^ 19 + 32 \<le> unat ts \<longrightarrow> GET_FATSECTOR_f n ts = GET_FATSECTOR n ts"
  proof
    assume ts: "2 ^ 19 + 32 \<le> unat ts"
    let ?x = "drop_bit 13 ((n + 7) * 340573321) :: u32"
    have "unat (drop_bit 13 y) < 2 ^ 19" for y :: u32
    proof -
      have "unat (drop_bit 13 y) = unat y div 2 ^ 13" by (simp only: unat_drop_bit_eq drop_bit_eq_div [of 13 "unat y"])
      then show ?thesis using unsigned_less [of y, where ?'a = nat] by (simp only:) simp
    qed
    then have x: "unat ?x < 2 ^ 19" .
    have "?x mod m = ?x" "m \<noteq> 0" if "unat m \<ge> 2 ^ 19" for m :: u32
      using x that by (auto simp: word_unat_eq_iff unat_mod_distrib)
    moreover have "unat (ts - 32) = unat ts - 32" "unat (ts - 23) = unat ts - 23"
      using ts by (simp_all add: unat_sub word_le_nat_alt)
    ultimately show "GET_FATSECTOR_f n ts = GET_FATSECTOR n ts"
      using ts by (auto simp: GET_FATSECTOR_f_def GET_FATSECTOR_def FAT_MULTIPLIER_def umod_def)
  qed
  have f: "GET_FATSECTOR_f 0 131072 = Some 28937" "GET_FATSECTOR_f 1 131072 = Some 70511"
    "GET_FATSECTOR_f 2 131072 = Some 112085" "GET_FATSECTOR_f 3 131072 = Some 22618"
    by (simp_all add: GET_FATSECTOR_f_def umod_def)
  have d: "GET_FATSECTOR 0 131072 = Some 28919" "GET_FATSECTOR 1 131072 = Some 70493"
    "GET_FATSECTOR 2 131072 = Some 112067" "GET_FATSECTOR 3 131072 = Some 22591"
    by (simp_all add: GET_FATSECTOR_def FAT_MULTIPLIER_def umod_def)
  have four: "(\<forall>i < 4. Q i) \<longleftrightarrow> Q 0 \<and> Q 1 \<and> Q 2 \<and> Q 3" for Q :: "nat \<Rightarrow> bool"
    by (auto simp: numeral_eq_Suc less_Suc_eq)
  show "\<forall>i < 4. \<forall>j < 4. GET_FATSECTOR_f (of_nat i) 131072 \<noteq> GET_FATSECTOR (of_nat j) 131072"
    unfolding four using f d by simp
qed

theorem fat_placement_split_witness: "GET_FATSECTOR_f 3 1048576 = GET_FATSECTOR 3 1048576"
  using fat_placement_split [of 1048576 3] by simp

section \<open>A formatted volume can be mounted\<close>

text \<open>What the formatter relies on: memory is there, and \<open>pwrite\<close> inside the image stores the bytes.\<close>

definition host_ok :: "'w host \<Rightarrow> ('w \<Rightarrow> byte list) \<Rightarrow> bool" where
  "host_ok h vol = ((\<forall>n w. fst (h_malloc h n w) \<and> vol (snd (h_malloc h n w)) = vol w) \<and>
     (\<forall>buf off w. 0 \<le> off \<and> nat off + length buf \<le> length (vol w) \<longrightarrow>
        fst (h_pwrite h buf off w) = int (length buf) \<and> vol (snd (h_pwrite h buf off w)) = splice (vol w) (nat off) buf))"

definition image_sector :: "byte list \<Rightarrow> nat \<Rightarrow> byte list" where
  "image_sector img k = take 512 (drop (512 * k) img)"

lemma nth_image_sector: "512 * k + x < length img \<Longrightarrow> x < 512 \<Longrightarrow> image_sector img k ! x = img ! (512 * k + x)"
  by (simp add: image_sector_def)

lemma image_sector_splice:
  assumes "512 * n \<le> length img" "k < n" "j < n" "length d \<le> 512"
  shows "image_sector (splice img (512 * k) d) j = (if j = k then splice (image_sector img k) 0 d else image_sector img j)"
proof -
  have fit: "512 * k + length d \<le> length img" "512 * j + 512 \<le> length img" "512 * k + 512 \<le> length img" using assms by auto
  have len: "length (splice img (512 * k) d) = length img" using fit by simp
  have ls: "length (image_sector img m) = 512" if "m < n" for m
    using assms(1) that by (simp add: image_sector_def)
  have lj: "length (image_sector (splice img (512 * k) d) j) = 512" using len fit by (simp add: image_sector_def)
  show ?thesis
  proof (rule nth_equalityI)
    show "length (image_sector (splice img (512 * k) d) j) = length (if j = k then splice (image_sector img k) 0 d else image_sector img j)"
      using lj ls assms by simp
    fix x assume "x < length (image_sector (splice img (512 * k) d) j)"
    then have x: "x < 512" using lj by simp
    then have "image_sector (splice img (512 * k) d) j ! x = splice img (512 * k) d ! (512 * j + x)"
      using fit len by (simp add: nth_image_sector)
    also have "\<dots> = (if 512 * k \<le> 512 * j + x \<and> 512 * j + x < 512 * k + length d then d ! (512 * j + x - 512 * k) else img ! (512 * j + x))"
      using fit x by (intro nth_splice) auto
    also have "\<dots> = (if j = k then splice (image_sector img k) 0 d else image_sector img j) ! x"
    proof (cases "j = k")
      case True
      then show ?thesis using x fit assms(4) ls [OF assms(2)] nth_splice [of 0 d "image_sector img k" x] by (simp add: nth_image_sector)
    next
      case False
      then have "\<not> (512 * k \<le> 512 * j + x \<and> 512 * j + x < 512 * k + length d)" using x assms(4) by linarith
      then show ?thesis unfolding if_not_P [OF \<open>\<not> (512 * k \<le> 512 * j + x \<and> 512 * j + x < 512 * k + length d)\<close>] using False x fit by (simp add: nth_image_sector)
    qed
    finally show "image_sector (splice img (512 * k) d) j ! x = (if j = k then splice (image_sector img k) 0 d else image_sector img j) ! x" .
  qed
qed

text \<open>The sector of a copy: the encoded structure and zeros.\<close>

definition boot_image :: "nifat32_bootsector_t \<Rightarrow> byte list" where
  "boot_image b = bytes_of_u16s (map enc_byte (bytes_of_bs b)) @ replicate (512 - 2 * sizeof_bs) 0"

lemma put_at_ok:
  assumes "host_ok h vol" "unat off + length buf \<le> length (vol w)"
  shows "\<exists>w'. put_at h buf off w = (True, w') \<and> vol w' = splice (vol w) (unat off) buf"
proof -
  have "fst (h_pwrite h buf (uint off) w) = int (length buf)" "vol (snd (h_pwrite h buf (uint off) w)) = splice (vol w) (nat (uint off)) buf"
    using assms by (auto simp: host_ok_def)
  then show ?thesis by (cases "h_pwrite h buf (uint off) w") (simp add: put_at_def)
qed

lemma sector_byte: "512 * unat ts \<le> 2 ^ 32 \<Longrightarrow> ca < ts \<Longrightarrow> unat (ca * BYTES_PER_SECTOR) = 512 * unat ca"
  by (simp add: BYTES_PER_SECTOR_def unat_word_ariths word_less_nat_alt)

lemma write_bs_copy:
  assumes h: "host_ok h vol" and b: "bs_fits b" and enc: "length enc = sizeof_bs"
    and ts: "512 * unat ts \<le> 2 ^ 32" "512 * unat ts \<le> length (vol w)" and ca: "ca < ts"
  shows "\<exists>w1 w2. put_at h (replicate 512 0) (ca * BYTES_PER_SECTOR) w = (True, w1) \<and>
    put_at h (bytes_of_u16s (map enc_byte (bytes_of_bs b))) (ca * BYTES_PER_SECTOR) w1 = (True, w2) \<and>
    length (vol w2) = length (vol w) \<and>
    (\<forall>j < unat ts. image_sector (vol w2) j = (if j = unat ca then boot_image b else image_sector (vol w) j))"
proof -
  let ?d = "bytes_of_u16s (map enc_byte (bytes_of_bs b))" and ?z = "replicate 512 0 :: byte list"
  have k: "unat ca < unat ts" using ca by (simp add: word_less_nat_alt)
  have off: "unat (ca * BYTES_PER_SECTOR) = 512 * unat ca" using sector_byte [OF ts(1) ca] .
  have d: "length ?d = 2 * sizeof_bs" using b by simp
  have "unat (ca * BYTES_PER_SECTOR) + length ?z \<le> length (vol w)" using off k ts(2) by simp
  then obtain w1 where w1: "put_at h ?z (ca * BYTES_PER_SECTOR) w = (True, w1)" "vol w1 = splice (vol w) (512 * unat ca) ?z"
    using put_at_ok [OF h] off by metis
  have l1: "length (vol w1) = length (vol w)" using k ts(2) by (simp add: w1(2))
  have "unat (ca * BYTES_PER_SECTOR) + length ?d \<le> length (vol w1)" using off k ts(2) d l1 by (simp add: sizeof_bs_def)
  then obtain w2 where w2: "put_at h ?d (ca * BYTES_PER_SECTOR) w1 = (True, w2)" "vol w2 = splice (vol w1) (512 * unat ca) ?d"
    using put_at_ok [OF h] off by metis
  have l2: "length (vol w2) = length (vol w)" using k ts(2) d l1 by (simp add: w2(2) sizeof_bs_def)
  have "image_sector (vol w2) j = (if j = unat ca then boot_image b else image_sector (vol w) j)" if j: "j < unat ts" for j
  proof -
    have "image_sector (vol w1) (unat ca) = splice (image_sector (vol w) (unat ca)) 0 ?z"
      unfolding w1(2) using image_sector_splice [OF ts(2) k k, of ?z] by simp
    moreover have "length (image_sector (vol w) (unat ca)) = 512" using k ts(2) by (simp add: image_sector_def)
    ultimately have z: "image_sector (vol w1) (unat ca) = ?z" by (simp add: splice_def)
    have "image_sector (vol w2) j = (if j = unat ca then splice ?z 0 ?d else image_sector (vol w1) j)"
      unfolding w2(2) using image_sector_splice [of "unat ts" "vol w1" "unat ca" j ?d] ts(2) l1 k j d z by (simp add: sizeof_bs_def)
    also have "\<dots> = (if j = unat ca then boot_image b else image_sector (vol w) j)"
      using image_sector_splice [OF ts(2) k j, of ?z] d by (simp add: w1(2) boot_image_def splice_def)
    finally show ?thesis .
  qed
  then show ?thesis using w1(1) w2(1) l2 by blast
qed

lemma write_bs_loop_ok:
  assumes h: "host_ok h vol" and b: "bs_fits b" and ts: "512 * unat ts \<le> 2 ^ 32" "2 < unat ts"
  shows "length enc = sizeof_bs \<Longrightarrow> 512 * unat ts \<le> length (vol w) \<Longrightarrow>
    \<exists>w'. write_bs_loop k i h ts (bytes_of_bs b) enc w = Some (1, w') \<and> length (vol w') = length (vol w) \<and>
      (\<forall>j < unat ts. image_sector (vol w) j = boot_image b \<longrightarrow> image_sector (vol w') j = boot_image b) \<and>
      (\<forall>m. i \<le> m \<and> m < i + int k \<longrightarrow>
        (\<exists>sa. GET_BOOTSECTOR (u32_of_int m) ts = Some sa \<and> sa < ts \<and> image_sector (vol w') (unat sa) = boot_image b))"
proof (induction k arbitrary: i enc w)
  case (Suc k)
  have nz: "ts - 2 \<noteq> 0" "ts - 2 < ts" using ts(2) by (auto simp: unat_sub word_le_nat_alt word_less_nat_alt)
  have "y mod (ts - 2) < ts" for y
    using nz by (meson order.strict_trans word_mod_less_divisor word_coorder.not_eq_extremum)
  then obtain ca where ca: "GET_BOOTSECTOR (u32_of_int i) ts = Some ca" "ca < ts"
    using nz(1) by (simp add: GET_BOOTSECTOR_def umod_def)
  have enc: "nft32_pack_memory_f (bytes_of_bs b) enc sizeof_bs = Some (map enc_byte (bytes_of_bs b))"
    using b Suc.prems(1) by (simp add: pack_memory_f pack_memory_map)
  obtain w1 w2 where w: "put_at h (replicate 512 0) (ca * BYTES_PER_SECTOR) w = (True, w1)"
    "put_at h (bytes_of_u16s (map enc_byte (bytes_of_bs b))) (ca * BYTES_PER_SECTOR) w1 = (True, w2)"
    "length (vol w2) = length (vol w)"
    "\<forall>j < unat ts. image_sector (vol w2) j = (if j = unat ca then boot_image b else image_sector (vol w) j)"
    using write_bs_copy [OF h b Suc.prems(1) ts(1) Suc.prems(2) ca(2)] by blast
  obtain w' where w': "write_bs_loop k (i + 1) h ts (bytes_of_bs b) (map enc_byte (bytes_of_bs b)) w2 = Some (1, w')"
    "length (vol w') = length (vol w2)"
    "\<forall>j < unat ts. image_sector (vol w2) j = boot_image b \<longrightarrow> image_sector (vol w') j = boot_image b"
    "\<forall>m. i + 1 \<le> m \<and> m < i + 1 + int k \<longrightarrow>
        (\<exists>sa. GET_BOOTSECTOR (u32_of_int m) ts = Some sa \<and> sa < ts \<and> image_sector (vol w') (unat sa) = boot_image b)"
    using Suc.IH [of "map enc_byte (bytes_of_bs b)" w2 "i + 1"] b Suc.prems(2) w(3) by auto
  have run: "write_bs_loop (Suc k) i h ts (bytes_of_bs b) enc w = Some (1, w')"
    using ca(1) enc w(1,2) w'(1) by (simp add: placement_f del: replicate.simps)
  have "image_sector (vol w') (unat ca) = boot_image b" using w(4) w'(3) ca(2) by (simp add: word_less_nat_alt)
  then have "\<exists>sa. GET_BOOTSECTOR (u32_of_int m) ts = Some sa \<and> sa < ts \<and> image_sector (vol w') (unat sa) = boot_image b"
    if "i \<le> m" "m < i + int (Suc k)" for m
    using ca w'(4) that by (cases "m = i") auto
  then show ?case using run w(3,4) w'(2,3) by (intro exI [of _ w']) auto
qed auto

lemma bs_f_fits [simp]: "bs_fits (bs_f opt ts fs)"
  by (simp add: bs_fits_def bs_f_def ext_f_def Let_def label_nifat_32_def label_root_def label_nifat32_def)

lemma bs_f_valid: "bs_valid (bs_f opt ts fs)"
  by (simp add: bs_valid_def with_checksums_def bs_f_def ext_f_def Let_def murmur3_f ext_sum_def bs_sum_def)

lemma small_int_word: "0 \<le> n \<Longrightarrow> n < 256 \<Longrightarrow> uint (word_of_int n :: byte) = n" "0 \<le> n \<Longrightarrow> n < 256 \<Longrightarrow> uint (u32_of_int n) = n"
  "0 \<le> n \<Longrightarrow> n < 256 \<Longrightarrow> ucast (word_of_int n :: byte) = u32_of_int n"
  by (auto simp: uint_word_of_int word_uint_eq_iff unsigned_ucast_eq take_bit_int_eq_self)

lemma sint_uint_small: "unat (d :: u32) < 2 ^ 31 \<Longrightarrow> sint d = uint d"
  by (simp only: sint_small uint_nat)

lemma bs_f_geometry:
  assumes spc: "0 < opt_spc opt" "opt_spc opt < 256" and fc: "0 \<le> opt_fc opt" "opt_fc opt < 256"
    and d: "ts - RESERVED_SECTORS - u32_of_int (opt_fc opt) * fs \<noteq> 0"
      "unat (ts - RESERVED_SECTORS - u32_of_int (opt_fc opt) * fs) < 2 ^ 31"
  shows "\<exists>fi'. load_geometry jc (bs_f opt ts fs) fi = Some fi' \<and> total_sectors fi' = ts \<and> fat_size fi' = fs \<and>
    fat_count fi' = word_of_int (opt_fc opt) \<and> sectors_per_cluster fi' = u32_of_int (opt_spc opt) \<and>
    bytes_per_sector fi' = BYTES_PER_SECTOR \<and> ext_root_cluster fi' = u32_of_int ROOT_DIR_CLUSTER \<and>
    sectors_padd fi' = RESERVED_SECTORS \<and>
    first_data_sector fi' = RESERVED_SECTORS + u32_of_int (opt_fc opt) * fs \<and> first_data_sector fi' * BYTES_PER_SECTOR = data_start opt fs \<and>
    total_clusters_f opt ts fs = Some (total_clusters fi')"
proof -
  let ?b = "bs_f opt ts fs" and ?d = "ts - RESERVED_SECTORS - u32_of_int (opt_fc opt) * fs"
  have b: "bs_bytes_per_sector ?b = 512" "bs_sectors_per_cluster ?b = word_of_int (opt_spc opt)" "reserved_sector_count ?b = 32"
    "table_count ?b = word_of_int (opt_fc opt)" "root_entry_count ?b = 0" "total_sectors_32 ?b = ts"
    "table_size_32 (extended_section ?b) = fs" "root_cluster (extended_section ?b) = 2"
    by (simp_all add: bs_f_def ext_f_def Let_def BYTES_PER_SECTOR_def RESERVED_SECTORS_def ROOT_DIR_CLUSTER_def)
  have rds: "root_dir_sectors ?b = Some 0" by (simp add: root_dir_sectors_def b signed_divide_int_def)
  have spc1: "spc_or_1 ?b = opt_spc opt" using spc by (simp add: spc_or_1_def b small_int_word word_uint_eq_iff)
  have ds: "data_sectors ?b f 0 = uint ?d" if "total_sectors f = ts" "fat_size f = fs" for f
  proof -
    have "total_sectors f - (ucast (reserved_sector_count ?b) + ucast (table_count ?b) * fat_size f + u32_of_int 0) = ?d"
      using that fc by (simp add: b small_int_word RESERVED_SECTORS_def)
    then show ?thesis using sint_uint_small [OF d(2)] by (simp add: data_sectors_def)
  qed
  have "uint ?d \<noteq> 0" using d(1) by (simp only: uint_0_iff) simp
  then have pos: "0 < uint ?d" using unsigned_greater_eq [of ?d, where ?'a = int] by linarith
  have "cluster_total ?b (uint ?d) = ?d div u32_of_int (opt_spc opt)"
    using pos spc by (simp add: cluster_total_def spc1 signed_divide_int_def sgn_1_pos word_div_def small_int_word sgn_if)
  moreover have "u32_of_int (opt_spc opt) \<noteq> 0" using spc by (simp add: word_uint_eq_iff small_int_word)
  ultimately have tc: "total_clusters_f opt ts fs = Some (cluster_total ?b (uint ?d))"
    by (simp add: total_clusters_f_def udiv_def)
  show ?thesis
    using tc fc spc by (simp add: load_geometry_def rds ds b small_int_word Let_def BYTES_PER_SECTOR_def RESERVED_SECTORS_def
        ROOT_DIR_CLUSTER_def data_start_def)
qed

text \<open>A host whose image is a byte list and whose calls always succeed inside it; \<open>lseek\<close> and the
  calls that follow it are not needed here and fail.\<close>

definition list_host :: "byte list host" where
  "list_host = \<lparr>h_open = (\<lambda>w. (3, [])), h_ftruncate = (\<lambda>n w. (0, take (nat n) w @ replicate (nat n - length w) 0)),
     h_malloc = (\<lambda>n w. (True, w)),
     h_pwrite = (\<lambda>buf off w. if 0 \<le> off \<and> nat off + length buf \<le> length w then (int (length buf), splice w (nat off) buf) else (-1, w)),
     h_lseek = (\<lambda>off w. (-1, w)), h_read = (\<lambda>n w. ((-1, []), w)), h_write = (\<lambda>buf w. (-1, w))\<rparr>"

lemma list_host_ok: "host_ok list_host (\<lambda>w. w)"
  by (simp add: host_ok_def list_host_def)

text \<open>C28 (a formatted volume can be mounted). On an image of the volume's size, below 4 GB,
  \<open>write_bs\<close> stores every copy of the boot sector where the driver looks for it; what the driver
  unpacks from that sector passes both checksums, and the geometry it takes from it is the geometry
  the formatter worked with.\<close>

theorem format_then_mount:
  assumes h: "host_ok h vol" and ts: "512 * unat ts \<le> 2 ^ 32" "2 < unat ts" "512 * unat ts \<le> length (vol w)"
    and spc: "0 < opt_spc opt" "opt_spc opt < 256" and fc: "0 \<le> opt_fc opt" "opt_fc opt < 256"
    and d: "ts - RESERVED_SECTORS - u32_of_int (opt_fc opt) * fs \<noteq> 0"
      "unat (ts - RESERVED_SECTORS - u32_of_int (opt_fc opt) * fs) < 2 ^ 31"
    and i: "opt_b_bsbc opt \<le> i" "i < opt_bsbc opt"
  shows "\<exists>w' sa b fi'. write_bs opt h ts fs w = Some (1, w') \<and> GET_BOOTSECTOR (u32_of_int i) ts = Some sa \<and>
    unpack_bs (take 512 (drop (512 * unat sa) (vol w'))) = Some b \<and> bs_valid b \<and> load_geometry jc b fi = Some fi' \<and>
    total_sectors fi' = ts \<and> fat_size fi' = fs \<and> total_clusters_f opt ts fs = Some (total_clusters fi') \<and>
    first_data_sector fi' * BYTES_PER_SECTOR = data_start opt fs \<and> sectors_per_cluster fi' = u32_of_int (opt_spc opt) \<and>
    fat_count fi' = word_of_int (opt_fc opt) \<and> ext_root_cluster fi' = u32_of_int ROOT_DIR_CLUSTER"
proof -
  let ?b = "bs_f opt ts fs"
  obtain w1 where w1: "h_malloc h (2 * sizeof_bs) w = (True, w1)" "vol w1 = vol w"
  proof -
    have "fst (h_malloc h (2 * sizeof_bs) w)" "vol (snd (h_malloc h (2 * sizeof_bs) w)) = vol w"
      using h unfolding host_ok_def by blast+
    then show thesis using that by (cases "h_malloc h (2 * sizeof_bs) w") auto
  qed
  obtain w' where w': "write_bs_loop (nat (opt_bsbc opt - opt_b_bsbc opt)) (opt_b_bsbc opt) h ts (bytes_of_bs ?b) (replicate sizeof_bs 0) w1 = Some (1, w')"
    "\<forall>m. opt_b_bsbc opt \<le> m \<and> m < opt_b_bsbc opt + int (nat (opt_bsbc opt - opt_b_bsbc opt)) \<longrightarrow>
        (\<exists>sa. GET_BOOTSECTOR (u32_of_int m) ts = Some sa \<and> sa < ts \<and> image_sector (vol w') (unat sa) = boot_image ?b)"
  proof -
    have l: "length (replicate sizeof_bs (0 :: u16)) = sizeof_bs" "512 * unat ts \<le> length (vol w1)" using w1(2) ts(3) by simp_all
    show thesis
      using write_bs_loop_ok [OF h bs_f_fits ts(1,2) l, of "nat (opt_bsbc opt - opt_b_bsbc opt)" "opt_b_bsbc opt" opt ts fs] that
      by blast
  qed
  have run: "write_bs opt h ts fs w = Some (1, w')" using w1(1) w'(1) by (simp add: write_bs_def)
  obtain sa where sa: "GET_BOOTSECTOR (u32_of_int i) ts = Some sa" "image_sector (vol w') (unat sa) = boot_image ?b"
    using w'(2) i by auto
  have "unpack_bs (take 512 (drop (512 * unat sa) (vol w'))) = Some ?b"
    using sa(2) unpack_bs_pack [OF bs_f_fits] by (simp add: image_sector_def boot_image_def)
  then show ?thesis using run sa(1) bs_f_valid bs_f_geometry [OF spc fc d, of jc fi] by blast
qed

theorem format_then_mount_witness:
  "\<exists>w' sa b fi'. write_bs opt_default list_host 131072 128 (replicate 67108864 0) = Some (1, w') \<and> GET_BOOTSECTOR 4 131072 = Some sa \<and>
    unpack_bs (take 512 (drop (512 * unat sa) w')) = Some b \<and> bs_valid b \<and> load_geometry 2 b fat_data_zero = Some fi' \<and>
    total_clusters fi' = 16316"
proof -
  have a: "512 * unat (131072 :: u32) \<le> 2 ^ 32" "2 < unat (131072 :: u32)" "512 * unat (131072 :: u32) \<le> length (replicate 67108864 (0 :: byte))"
    "0 < opt_spc opt_default" "opt_spc opt_default < 256" "0 \<le> opt_fc opt_default" "opt_fc opt_default < 256"
    "131072 - RESERVED_SECTORS - u32_of_int (opt_fc opt_default) * 128 \<noteq> 0"
    "unat (131072 - RESERVED_SECTORS - u32_of_int (opt_fc opt_default) * 128) < 2 ^ 31"
    "opt_b_bsbc opt_default \<le> 4" "4 < opt_bsbc opt_default"
    by (simp_all only: length_replicate opt_default_simps RESERVED_SECTORS_def) simp_all
  from format_then_mount [OF list_host_ok a, of 2 fat_data_zero] total_clusters_default
  show ?thesis by (auto simp del: replicate.simps)
qed

section \<open>Reading past the table\<close>

lemma length_table_bytes [simp]: "length (table_bytes t) = 4 * length t"
  by (induction t) (simp_all add: table_bytes_def)

text \<open>C39 (the formatter reads past its table). The table is encoded in whole sectors, but it is
  allocated by clusters: when the last sector is not full and the heap behind the table ends before it
  is, packing the table reads out of bounds.\<close>

theorem table_read_past_end:
  assumes "host_ok h vol" and "total_clusters_f opt ts fs = Some tc" "length t = unat tc"
    and "4 * unat tc + length behind < unat (fs * BYTES_PER_SECTOR)" "unat (fs * BYTES_PER_SECTOR) < 2 ^ 31"
  shows "write_fats opt h behind t fs ts w = None"
proof -
  let ?n = "fs * BYTES_PER_SECTOR"
  have "nat (int_of_u32 ?n) = unat ?n" using sint_small [OF assms(5)] by simp
  then have "nft32_pack_memory_f (table_bytes t @ behind) dst (nat (int_of_u32 ?n)) = None" for dst
    using assms(3,4) by (intro pack_memory_f_over) simp
  moreover have "\<exists>w'. h_malloc h n w = (True, w')" for n
  proof -
    have "fst (h_malloc h n w)" using assms(1) unfolding host_ok_def by blast
    then show ?thesis by (cases "h_malloc h n w") simp
  qed
  then obtain w' where "h_malloc h (unat (ucast (ucast ?n * 2 :: u64) :: u32)) w = (True, w')" by blast
  ultimately show ?thesis by (simp add: write_fats_def Let_def)
qed

text \<open>The default volume of 64 MB: 16316 clusters take 65264 bytes, the table 128 sectors.\<close>

theorem table_read_past_end_witness:
  "\<exists>fs tc. calculate_fat_size opt_default 131072 = Some fs \<and> total_clusters_f opt_default 131072 fs = Some tc \<and>
    write_fats opt_default list_host (replicate 271 0) (replicate (unat tc) 0) fs 131072 [] = None"
proof -
  have "4 * unat (16316 :: u32) + length (replicate 271 (0 :: byte)) < unat (128 * BYTES_PER_SECTOR)"
    "unat (128 * BYTES_PER_SECTOR) < 2 ^ 31" "length (replicate (unat (16316 :: u32)) (0 :: u32)) = unat (16316 :: u32)"
    by (simp_all only: length_replicate BYTES_PER_SECTOR_def) simp_all
  from table_read_past_end [OF list_host_ok total_clusters_default this(3,1,2), of "[]"] fat_size_default total_clusters_default
  show ?thesis by blast
qed

section \<open>Clusters the table leaves free\<close>

lemma tset_ok: "i < length t \<Longrightarrow> tset t i v = Some (t[i := v])"
  by (simp add: tset_def)

lemma reserve_sectors_keeps:
  assumes "u32_of_int (opt_spc opt) \<noteq> 0"
  shows "unat tc \<le> length t \<Longrightarrow>
    (\<forall>m. i \<le> m \<and> m < i + int k \<longrightarrow> (\<exists>s. place (u32_of_int m) ts = Some s \<and> unat (s div u32_of_int (opt_spc opt)) \<notin> C)) \<Longrightarrow>
    \<exists>t'. reserve_sectors k i place opt ts tc t = Some t' \<and> length t' = length t \<and> (\<forall>c \<in> C. t' ! c = t ! c)"
proof (induction k arbitrary: i t)
  case (Suc k)
  obtain s where s: "place (u32_of_int i) ts = Some s" "unat (s div u32_of_int (opt_spc opt)) \<notin> C" using Suc.prems(2) by auto
  let ?c = "s div u32_of_int (opt_spc opt)"
  define t1 where "t1 = (if ?c < tc then t[unat ?c := mark_reserved] else t)"
  let ?t = t1
  have t: "(if ?c < tc then tset t (unat ?c) mark_reserved else Some t) = Some ?t"
    using Suc.prems(1) by (simp add: tset_ok word_less_nat_alt t1_def)
  have lt: "unat tc \<le> length ?t" using Suc.prems(1) by (simp add: t1_def)
  have "\<forall>m. i + 1 \<le> m \<and> m < i + 1 + int k \<longrightarrow> (\<exists>s. place (u32_of_int m) ts = Some s \<and> unat (s div u32_of_int (opt_spc opt)) \<notin> C)"
    using Suc.prems(2) by simp
  note IH = Suc.IH [OF lt this]
  obtain t' where
    t': "reserve_sectors k (i + 1) place opt ts tc ?t = Some t'" "length t' = length ?t" "\<forall>c \<in> C. t' ! c = ?t ! c"
    using IH by (elim exE conjE) (rule that; assumption)
  have keep: "?t ! c = t ! c" if "c \<in> C" for c
  proof -
    have "unat ?c \<noteq> c" using s(2) that by (intro notI) simp
    from nth_list_update_neq [OF this, of t mark_reserved] show ?thesis unfolding t1_def by presburger
  qed
  have "\<forall>c \<in> C. t' ! c = t ! c" using t'(3) keep by metis
  moreover have "length t' = length t" using t'(2) by (simp add: t1_def)
  moreover have "reserve_sectors (Suc k) i place opt ts tc t = Some t'"
    unfolding reserve_sectors.simps s(1) udiv_def if_not_P [OF assms] bind.bind_lunit t by (rule t'(1))
  ultimately show ?case by blast
qed simp

lemma reserve_run_keeps:
  "unat tc \<le> length t \<Longrightarrow> 0 \<le> n \<Longrightarrow> rest \<le> int n * (opt_spc opt * 512) \<Longrightarrow> (\<forall>d. c \<le> d \<and> d < c + n \<longrightarrow> d \<notin> C) \<Longrightarrow>
    \<exists>t'. reserve_run k opt tc c rest t = Some t' \<and> length t' = length t \<and> (\<forall>d \<in> C. t' ! d = t ! d)"
proof (induction k arbitrary: c rest n t)
  case (Suc k)
  show ?case
  proof (cases "c < unat tc \<and> rest > 0")
    case True
    then obtain m where m: "n = Suc m" using Suc.prems(3) by (cases n) auto
    let ?t = "t[c := mark_reserved]"
    have "c \<notin> C" using Suc.prems(4) m by simp
    then have keep: "\<forall>d \<in> C. ?t ! d = t ! d" by (metis nth_list_update_neq)
    have "rest - opt_spc opt * 512 \<le> int m * (opt_spc opt * 512)" using Suc.prems(3) m by (simp add: algebra_simps)
    then obtain t' where "reserve_run k opt tc (c + 1) (rest - opt_spc opt * 512) ?t = Some t'" "length t' = length ?t" "\<forall>d \<in> C. t' ! d = ?t ! d"
      using Suc.IH [of ?t m "rest - opt_spc opt * 512" "c + 1"] Suc.prems(1,4) m by auto
    then show ?thesis using True keep Suc.prems(1) by (auto simp: tset_ok)
  qed auto
qed simp

lemma reserve_fats_keeps:
  assumes "u32_of_int (opt_spc opt) \<noteq> 0" "int (unat tc * 8) \<le> int n * (opt_spc opt * 512)"
  shows "unat tc \<le> length t \<Longrightarrow>
    (\<forall>m. i \<le> m \<and> m < i + int k \<longrightarrow> (\<exists>s. GET_FATSECTOR_f (u32_of_int m) ts = Some s \<and>
       (\<forall>d. unat ((RESERVED_SECTORS + s) div u32_of_int (opt_spc opt)) \<le> d \<and> d < unat ((RESERVED_SECTORS + s) div u32_of_int (opt_spc opt)) + n \<longrightarrow> d \<notin> C))) \<Longrightarrow>
    \<exists>t'. reserve_fats k i opt ts tc t = Some t' \<and> length t' = length t \<and> (\<forall>c \<in> C. t' ! c = t ! c)"
proof (induction k arbitrary: i t)
  case (Suc k)
  obtain s where s: "GET_FATSECTOR_f (u32_of_int i) ts = Some s"
    "\<forall>d. unat ((RESERVED_SECTORS + s) div u32_of_int (opt_spc opt)) \<le> d \<and> d < unat ((RESERVED_SECTORS + s) div u32_of_int (opt_spc opt)) + n \<longrightarrow> d \<notin> C"
    using Suc.prems(2) by auto
  define c where "c = unat ((RESERVED_SECTORS + s) div u32_of_int (opt_spc opt))"
  have "int (unat tc * 4 * 2) \<le> int n * (opt_spc opt * 512)" using assms(2) by simp
  from reserve_run_keeps [OF Suc.prems(1) _ this s(2), of "unat tc - c", folded c_def]
  obtain t1 where t1: "reserve_run (unat tc - c) opt tc c (int (unat tc * 4 * 2)) t = Some t1" "length t1 = length t" "\<forall>c \<in> C. t1 ! c = t ! c"
    by blast
  obtain t' where t': "reserve_fats k (i + 1) opt ts tc t1 = Some t'" "length t' = length t1" "\<forall>c \<in> C. t' ! c = t1 ! c"
    using Suc.IH [of t1 "i + 1"] Suc.prems t1(2) by auto
  have "reserve_fats (Suc k) i opt ts tc t = Some t'"
    unfolding reserve_fats.simps s(1) udiv_def if_not_P [OF assms(1)] bind.bind_lunit c_def [symmetric] t1(1) by (rule t'(1))
  moreover have "length t' = length t" using t'(2) t1(2) by simp
  moreover have "\<forall>c \<in> C. t' ! c = t ! c" using t'(3) t1(3) by metis
  ultimately show ?case by blast
qed simp

text \<open>The sectors in which the formatter lays the structures of a volume: the boot sectors, the areas of
  \<open>spc\<close> sectors for journals and errors, and the copies of the table, which are encoded and so twice as
  long as the table.\<close>

definition sectors_from :: "u32 option \<Rightarrow> nat \<Rightarrow> u32 list" where
  "sectors_from place n = (case place of None \<Rightarrow> [] | Some s \<Rightarrow> map (\<lambda>j. s + of_nat j) [0..<n])"

definition structure_sectors :: "opt_t \<Rightarrow> u32 \<Rightarrow> u32 \<Rightarrow> u32 list" where
  "structure_sectors opt ts fs =
     concat (map (\<lambda>i. sectors_from (GET_BOOTSECTOR_f (of_nat i) ts) 1) [0..<nat (opt_bsbc opt)]) @
     concat (map (\<lambda>i. sectors_from (GET_JOURNALSECTOR_f (of_nat i) ts) (nat (opt_spc opt))) [0..<nat (opt_jc opt)]) @
     concat (map (\<lambda>i. sectors_from (GET_ERRORSSECTOR_f (of_nat i) ts) (nat (opt_spc opt))) [0..<nat (opt_ec opt)]) @
     concat (map (\<lambda>i. sectors_from (map_option ((+) RESERVED_SECTORS) (GET_FATSECTOR_f (of_nat i) ts)) (2 * unat fs)) [0..<nat (opt_fc opt)])"

lemma sectors_from_unat:
  assumes "s \<in> set (sectors_from (Some b) n)" "unat b + n < 2 ^ 32"
  shows "unat b \<le> unat s \<and> unat s < unat b + n"
proof -
  obtain j where j: "j < n" "s = b + of_nat j" using assms(1) by (auto simp: sectors_from_def)
  then have "unat (of_nat j :: u32) = j" using assms(2) by (simp only: unat_of_nat) simp
  then have "unat s = unat b + j" using j assms(2) by (simp add: unat_word_ariths)
  then show ?thesis using j(1) by simp
qed

text \<open>The default volume: its places, and the clusters of the driver they belong to.\<close>

definition default_owners :: "nat set" where
  "default_owners = {14494, 12666, 10842, 9015, 7187, 5973, 5974, 12231, 12232, 12474, 12475} \<union>
     {3555..3587} \<union> {8751..8783} \<union> {13948..13980} \<union> {2765..2797}"

lemma default_places:
  "structure_sectors opt_default 131072 128 =
     concat (map (\<lambda>s. sectors_from (Some s) 1) [116481, 101860, 87271, 72650, 58030]) @
     concat (map (\<lambda>s. sectors_from (Some s) 8) [48316, 98380, 100326]) @
     concat (map (\<lambda>s. sectors_from (Some s) 256) [28969, 70543, 112117, 22650])"
  by (simp add: structure_sectors_def upt_rec GET_BOOTSECTOR_f_def GET_JOURNALSECTOR_f_def GET_ERRORSSECTOR_f_def GET_FATSECTOR_f_def
      umod_def RESERVED_SECTORS_def)

lemma default_owner:
  assumes "s \<in> set (structure_sectors opt_default 131072 128)"
  shows "544 \<le> unat s \<and> (unat s - 544) div 8 + 2 \<in> default_owners"
proof -
  have own: "544 \<le> unat s \<and> (unat s - 544) div 8 + 2 \<in> default_owners"
    if "s \<in> set (sectors_from (Some b) n)" "unat b + n < 2 ^ 32" "544 \<le> unat b"
      "\<forall>j < n. (unat b + j - 544) div 8 + 2 \<in> default_owners" for b n
  proof -
    have "unat b \<le> unat s" "unat s < unat b + n" using sectors_from_unat [OF that(1,2)] by simp_all
    then obtain j where "j < n" "unat s = unat b + j" by (metis add_less_cancel_left le_add_diff_inverse)
    then show ?thesis using that(3,4) by simp
  qed
  have one: "\<forall>b \<in> set [116481, 101860, 87271, 72650, 58030 :: u32]. \<forall>j < 1. (unat b + j - 544) div 8 + 2 \<in> default_owners"
    by (simp add: default_owners_def)
  have eight: "\<forall>b \<in> set [48316, 98380, 100326 :: u32]. \<forall>j < 8. (unat b + j - 544) div 8 + 2 \<in> default_owners"
  proof -
    have "(48316 + j - 544) div 8 + 2 = 5973 \<or> (48316 + j - 544) div 8 + 2 = 5974"
      "(98380 + j - 544) div 8 + 2 = 12231 \<or> (98380 + j - 544) div 8 + 2 = 12232"
      "(100326 + j - 544) div 8 + 2 = 12474 \<or> (100326 + j - 544) div 8 + 2 = 12475" if "j < 8" for j :: nat
      using that by presburger+
    then show ?thesis by (simp add: default_owners_def) blast
  qed
  have many: "\<forall>b \<in> set [28969, 70543, 112117, 22650 :: u32]. \<forall>j < 256. (unat b + j - 544) div 8 + 2 \<in> default_owners"
  proof -
    have "(28969 + j - 544) div 8 + 2 \<in> {3555..3587}" "(70543 + j - 544) div 8 + 2 \<in> {8751..8783}"
      "(112117 + j - 544) div 8 + 2 \<in> {13948..13980}" "(22650 + j - 544) div 8 + 2 \<in> {2765..2797}" if "j < 256" for j :: nat
      using that unfolding atLeastAtMost_iff by presburger+
    then show ?thesis by (simp add: default_owners_def)
  qed
  consider b where "b \<in> set [116481, 101860, 87271, 72650, 58030]" "s \<in> set (sectors_from (Some b) 1)"
    | b where "b \<in> set [48316, 98380, 100326]" "s \<in> set (sectors_from (Some b) 8)"
    | b where "b \<in> set [28969, 70543, 112117, 22650]" "s \<in> set (sectors_from (Some b) 256)"
    using assms unfolding default_places set_append set_concat set_map by blast
  then show ?thesis
  proof cases
    case 1
    then show ?thesis using own [OF 1(2)] one by auto
  next
    case 2
    then show ?thesis using own [OF 2(2)] eight by auto
  next
    case 3
    then show ?thesis using own [OF 3(2)] many by auto
  qed
qed

lemma default_table:
  "\<exists>t. initialize_fat opt_default (replicate 16316 0) 131072 16316 = Some t \<and> (\<forall>c \<in> default_owners. t ! c = FAT_ENTRY_FREE)"
proof -
  let ?C = default_owners let ?o = opt_default
  let ?t0 = "(replicate 16316 0)[0 := mark_reserved, 1 := mark_end, 2 := mark_end]"
  have o: "u32_of_int (opt_spc ?o) \<noteq> 0" by simp
  have l: "unat (16316 :: u32) \<le> 16316" by simp
  have five: "m = 0 \<or> m = 1 \<or> m = 2 \<or> m = 3 \<or> m = 4" if "0 \<le> m" "m < 0 + int (nat (opt_bsbc ?o))" for m :: int using that by auto
  have four: "m = 0 \<or> m = 1 \<or> m = 2 \<or> m = 3" if "0 \<le> m" "m < 0 + int (nat (opt_fc ?o))" for m :: int using that by auto
  have two: "m = 0 \<or> m = 1" if "0 \<le> m" "m < 0 + int (nat (opt_jc ?o))" for m :: int using that by auto
  have one: "m = 0" if "0 \<le> m" "m < 0 + int (nat (opt_ec ?o))" for m :: int using that by auto
  have b: "\<forall>m. 0 \<le> m \<and> m < 0 + int (nat (opt_bsbc ?o)) \<longrightarrow> (\<exists>s. GET_BOOTSECTOR_f (u32_of_int m) 131072 = Some s \<and> unat (s div u32_of_int (opt_spc ?o)) \<notin> ?C)"
  proof (intro allI impI, elim conjE)
    fix m :: int assume "0 \<le> m" "m < 0 + int (nat (opt_bsbc ?o))"
    from five [OF this] show "\<exists>s. GET_BOOTSECTOR_f (u32_of_int m) 131072 = Some s \<and> unat (s div u32_of_int (opt_spc ?o)) \<notin> ?C"
      by (elim disjE; simp add: GET_BOOTSECTOR_f_def umod_def default_owners_def)
  qed
  have j: "\<forall>m. 0 \<le> m \<and> m < 0 + int (nat (opt_jc ?o)) \<longrightarrow> (\<exists>s. GET_JOURNALSECTOR_f (u32_of_int m) 131072 = Some s \<and> unat (s div u32_of_int (opt_spc ?o)) \<notin> ?C)"
  proof (intro allI impI, elim conjE)
    fix m :: int assume "0 \<le> m" "m < 0 + int (nat (opt_jc ?o))"
    from two [OF this] show "\<exists>s. GET_JOURNALSECTOR_f (u32_of_int m) 131072 = Some s \<and> unat (s div u32_of_int (opt_spc ?o)) \<notin> ?C"
      by (elim disjE; simp add: GET_JOURNALSECTOR_f_def umod_def default_owners_def)
  qed
  have e: "\<forall>m. 0 \<le> m \<and> m < 0 + int (nat (opt_ec ?o)) \<longrightarrow> (\<exists>s. GET_ERRORSSECTOR_f (u32_of_int m) 131072 = Some s \<and> unat (s div u32_of_int (opt_spc ?o)) \<notin> ?C)"
  proof (intro allI impI, elim conjE)
    fix m :: int assume "0 \<le> m" "m < 0 + int (nat (opt_ec ?o))"
    from one [OF this] show "\<exists>s. GET_ERRORSSECTOR_f (u32_of_int m) 131072 = Some s \<and> unat (s div u32_of_int (opt_spc ?o)) \<notin> ?C"
      by (simp add: GET_ERRORSSECTOR_f_def umod_def default_owners_def)
  qed
  have f: "\<forall>m. 0 \<le> m \<and> m < 0 + int (nat (opt_fc ?o)) \<longrightarrow> (\<exists>s. GET_FATSECTOR_f (u32_of_int m) 131072 = Some s \<and>
       (\<forall>d. unat ((RESERVED_SECTORS + s) div u32_of_int (opt_spc ?o)) \<le> d \<and>
          d < unat ((RESERVED_SECTORS + s) div u32_of_int (opt_spc ?o)) + 32 \<longrightarrow> d \<notin> ?C))"
  proof (intro allI impI, elim conjE)
    fix m :: int assume m: "0 \<le> m" "m < 0 + int (nat (opt_fc ?o))"
    show "\<exists>s. GET_FATSECTOR_f (u32_of_int m) 131072 = Some s \<and>
       (\<forall>d. unat ((RESERVED_SECTORS + s) div u32_of_int (opt_spc ?o)) \<le> d \<and>
          d < unat ((RESERVED_SECTORS + s) div u32_of_int (opt_spc ?o)) + 32 \<longrightarrow> d \<notin> ?C)"
      using four [OF m] by (elim disjE; simp add: GET_FATSECTOR_f_def umod_def default_owners_def RESERVED_SECTORS_def)
  qed
  have n: "int (unat (16316 :: u32) * 8) \<le> int 32 * (opt_spc ?o * 512)" by simp
  have l0: "unat (16316 :: u32) \<le> length ?t0" by simp
  obtain t1 where t1: "reserve_sectors (nat (opt_bsbc ?o)) 0 GET_BOOTSECTOR_f ?o 131072 16316 ?t0 = Some t1" "length t1 = length ?t0" "\<forall>c \<in> ?C. t1 ! c = ?t0 ! c"
    using reserve_sectors_keeps [where place = GET_BOOTSECTOR_f and C = ?C, OF o l0 b] by blast
  have l1: "unat (16316 :: u32) \<le> length t1" using t1(2) l0 by simp
  obtain t2 where t2: "reserve_fats (nat (opt_fc ?o)) 0 ?o 131072 16316 t1 = Some t2" "length t2 = length t1" "\<forall>c \<in> ?C. t2 ! c = t1 ! c"
    using reserve_fats_keeps [where C = ?C, OF o n l1 f] by blast
  have l2: "unat (16316 :: u32) \<le> length t2" using t2(2) l1 by simp
  obtain t3 where t3: "reserve_sectors (nat (opt_jc ?o)) 0 GET_JOURNALSECTOR_f ?o 131072 16316 t2 = Some t3" "length t3 = length t2" "\<forall>c \<in> ?C. t3 ! c = t2 ! c"
    using reserve_sectors_keeps [where place = GET_JOURNALSECTOR_f and C = ?C, OF o l2 j] by blast
  have l3: "unat (16316 :: u32) \<le> length t3" using t3(2) l2 by simp
  obtain t4 where t4: "reserve_sectors (nat (opt_ec ?o)) 0 GET_ERRORSSECTOR_f ?o 131072 16316 t3 = Some t4" "\<forall>c \<in> ?C. t4 ! c = t3 ! c"
    using reserve_sectors_keeps [where place = GET_ERRORSSECTOR_f and C = ?C, OF o l3 e] by blast
  have "initialize_fat ?o (replicate 16316 0) 131072 16316 = Some t4"
    using t1(1) t2(1) t3(1) t4(1) by (simp add: initialize_fat_def tset_ok del: replicate.simps opt_default_simps)
  moreover have "\<forall>c \<in> ?C. ?t0 ! c = FAT_ENTRY_FREE" by (auto simp: default_owners_def FAT_ENTRY_FREE_def simp del: replicate.simps)
  ultimately show ?thesis using t1(3) t2(3) t3(3) t4(2) by simp
qed

lemma default_table_sector: "29069 \<in> set (structure_sectors opt_default 131072 128)"
proof -
  have "29069 \<in> set (sectors_from (Some 28969) 256)"
    unfolding sectors_from_def option.case set_map by (rule image_eqI [of _ _ 100]) simp_all
  then show ?thesis unfolding default_places by simp
qed

text \<open>C38 (the reserved clusters are the wrong ones). The formatter reserves the cluster \<open>sector / spc\<close>
  for a structure, but the driver counts clusters from the first data sector. On the default volume,
  with the sizes the formatter computes for it, every sector of a boot sector, of the areas of journals
  and errors and of the copies of the table lies in a cluster of the driver that is free in the table the
  formatter makes, so all of them can be allocated to files.\<close>

theorem default_structures_unreserved:
  "\<exists>fs tc t fi. let ts = volume_bytes opt_default div BYTES_PER_SECTOR in
    calculate_fat_size opt_default ts = Some fs \<and> total_clusters_f opt_default ts fs = Some tc \<and>
    initialize_fat opt_default (replicate (unat tc) FAT_ENTRY_FREE) ts tc = Some t \<and>
    load_geometry 2 (bs_f opt_default ts fs) fat_data_zero = Some fi \<and>
    (\<forall>s \<in> set (structure_sectors opt_default ts fs). \<exists>c. ext_root_cluster fi \<le> c \<and> c < total_clusters fi \<and>
      unat (cluster_sector c fi) \<le> unat s \<and> unat s < unat (cluster_sector c fi) + unat (sectors_per_cluster fi) \<and>
      t ! unat c = FAT_CLUSTER_FREE)"
proof -
  obtain t where t: "initialize_fat opt_default (replicate 16316 0) 131072 16316 = Some t" "\<forall>c \<in> default_owners. t ! c = 0"
    using default_table by (auto simp: FAT_ENTRY_FREE_def)
  have a: "0 < opt_spc opt_default" "opt_spc opt_default < 256" "0 \<le> opt_fc opt_default" "opt_fc opt_default < 256"
    "131072 - RESERVED_SECTORS - u32_of_int (opt_fc opt_default) * 128 \<noteq> 0"
    "unat (131072 - RESERVED_SECTORS - u32_of_int (opt_fc opt_default) * 128) < 2 ^ 31"
    by (simp_all add: RESERVED_SECTORS_def)
  obtain fi where fi: "load_geometry 2 (bs_f opt_default 131072 128) fat_data_zero = Some fi" "sectors_per_cluster fi = 8"
    "first_data_sector fi = 544" "ext_root_cluster fi = 2" "total_clusters fi = 16316"
    using bs_f_geometry [OF a, of 2 fat_data_zero] total_clusters_default
    by (auto simp: RESERVED_SECTORS_def ROOT_DIR_CLUSTER_def)
  have ts: "volume_bytes opt_default div BYTES_PER_SECTOR = 131072" by (simp add: volume_bytes_def BYTES_PER_SECTOR_def)
  have "\<exists>c. ext_root_cluster fi \<le> c \<and> c < total_clusters fi \<and> unat (cluster_sector c fi) \<le> unat s \<and>
      unat s < unat (cluster_sector c fi) + unat (sectors_per_cluster fi) \<and> t ! unat c = FAT_CLUSTER_FREE"
    if s: "s \<in> set (structure_sectors opt_default 131072 128)" for s
  proof -
    let ?n = "(unat s - 544) div 8"
    have o: "544 \<le> unat s" "?n + 2 \<in> default_owners" using default_owner [OF s] by simp_all
    then have lt: "?n + 2 < 16316" by (auto simp: default_owners_def)
    then have c: "unat (of_nat (?n + 2) :: u32) = ?n + 2" by (simp only: unat_of_nat) simp
    have sec: "unat (cluster_sector (of_nat (?n + 2)) fi) = ?n * 8 + 544"
    proof -
      have "cluster_sector (of_nat (?n + 2)) fi = of_nat (?n * 8 + 544)" by (simp add: cluster_sector_def fi)
      then show ?thesis using lt by (simp only: unat_of_nat) simp
    qed
    have "?n * 8 + 544 \<le> unat s" "unat s < ?n * 8 + 544 + 8" using o(1) by presburger+
    then show ?thesis using t(2) o(2) lt unfolding fi
      by (intro exI [of _ "of_nat (?n + 2)"] conjI)
        (simp_all only: c sec fi word_le_nat_alt word_less_nat_alt FAT_CLUSTER_FREE_def, simp_all)
  qed
  then show ?thesis using t(1) fi(1) fat_size_default total_clusters_default unfolding ts
    by (intro exI [of _ 128] exI [of _ 16316] exI [of _ t] exI [of _ fi]) (simp add: FAT_ENTRY_FREE_def Let_def del: replicate.simps)
qed

theorem default_structures_unreserved_witness:
  "\<exists>t fi c. initialize_fat opt_default (replicate 16316 FAT_ENTRY_FREE) 131072 16316 = Some t \<and>
    load_geometry 2 (bs_f opt_default 131072 128) fat_data_zero = Some fi \<and>
    unat (cluster_sector c fi) \<le> 29069 \<and> 29069 < unat (cluster_sector c fi) + unat (sectors_per_cluster fi) \<and>
    t ! unat c = FAT_CLUSTER_FREE"
proof -
  have ts: "volume_bytes opt_default div BYTES_PER_SECTOR = 131072" by (simp add: volume_bytes_def BYTES_PER_SECTOR_def)
  from default_structures_unreserved obtain t fi where
    "initialize_fat opt_default (replicate (unat (16316 :: u32)) FAT_ENTRY_FREE) 131072 16316 = Some t"
    "load_geometry 2 (bs_f opt_default 131072 128) fat_data_zero = Some fi"
    and all: "\<forall>s \<in> set (structure_sectors opt_default 131072 128). \<exists>c. ext_root_cluster fi \<le> c \<and> c < total_clusters fi \<and>
      unat (cluster_sector c fi) \<le> unat s \<and> unat s < unat (cluster_sector c fi) + unat (sectors_per_cluster fi) \<and>
      t ! unat c = FAT_CLUSTER_FREE"
    unfolding ts Let_def fat_size_default option.inject by (auto simp only: total_clusters_default option.inject)
  moreover have "unat (29069 :: u32) = 29069" by simp
  ultimately show ?thesis using bspec [OF all default_table_sector] by (auto simp del: replicate.simps)
qed

end
