(* ===== verification/Shell.thy ===== *)
theory Shell
  imports Filedata Formatter
begin

text \<open>
  The command line tool \<open>unix_nifat32.c\<close>: an image file as the disk, a loop that reads lines from
  standard input, and one command per operation of the interface. The image is the byte list \<open>img\<close>
  of the outside world, a line is the content of the 256-byte buffer, and a token is a pointer into
  it, that is a suffix of the buffer. Text for standard output is collected; text for standard error
  is left out. \<open>None\<close> stands for undefined behaviour as everywhere: a missing argument, a string
  that does not fit its buffer, a print of bytes without a terminator.
\<close>

unbundle bit_operations_syntax

section \<open>Strings of the C library\<close>

definition ascii :: "string \<Rightarrow> byte list" where "ascii s = map of_char s"

definition c_str :: "byte list \<Rightarrow> byte list option" where
  "c_str buf = (if 0 \<in> set buf then Some (takeWhile (\<lambda>b. b \<noteq> 0) buf) else None)"

definition strcpy_c :: "byte list \<Rightarrow> byte list \<Rightarrow> byte list option" where
  "strcpy_c dst src = do {
     c \<leftarrow> c_str src;
     poke dst 0 (c @ [0]) }"

definition strcat_c :: "byte list \<Rightarrow> byte list \<Rightarrow> byte list option" where
  "strcat_c dst src = do {
     d \<leftarrow> c_str dst;
     c \<leftarrow> c_str src;
     poke dst (length d) (c @ [0]) }"

text \<open>The index of the last occurrence of a byte in a string.\<close>

definition strrchr_c :: "byte list \<Rightarrow> byte \<Rightarrow> nat option" where
  "strrchr_c c b = (if b \<in> set c then Some (length c - 1 - length (takeWhile (\<lambda>x. x \<noteq> b) (rev c))) else None)"

definition atoi_c :: "byte list \<Rightarrow> int option" where
  "atoi_c tok = do { c \<leftarrow> c_str tok; atoi (map (\<lambda>b. char_of (unat b)) c) }"

fun dec_u :: "nat \<Rightarrow> byte list" where
  "dec_u n = (if n < 10 then [of_nat (48 + n)] else dec_u (n div 10) @ [of_nat (48 + n mod 10)])"

definition dec_i :: "int \<Rightarrow> byte list" where
  "dec_i i = (if i < 0 then ascii ''-'' @ dec_u (nat (- i)) else dec_u (nat i))"

definition hex_digit :: "nat \<Rightarrow> byte" where
  "hex_digit d = of_nat (if d < 10 then 48 + d else 55 + d)"

section \<open>Commands\<close>

datatype cmd_t = CP | MV | RM | MKDIR | MKFILE | FRENAME | READ | WRITE | TRUNC | CD | LS | UNKNOWN | CMD_RS | CMD_WS | LE

definition get_cmd :: "byte list \<Rightarrow> cmd_t option" where
  "get_cmd input = do {
     c \<leftarrow> c_str input;
     Some (if c = ascii ''cd'' then CD
       else if c = ascii ''cp'' then CP
       else if c = ascii ''mv'' then MV
       else if c = ascii ''read'' then READ
       else if c = ascii ''write'' then WRITE
       else if c = ascii ''frename'' then FRENAME
       else if c = ascii ''ls'' then LS
       else if c = ascii ''rm'' then RM
       else if c = ascii ''mkdir'' then MKDIR
       else if c = ascii ''mkfile'' then MKFILE
       else if c = ascii ''trunc'' then TRUNC
       else if c = ascii ''rs'' then CMD_RS
       else if c = ascii ''ws'' then CMD_WS
       else if c = ascii ''get_le'' then LE
       else UNKNOWN) }"

section \<open>The image as a disk\<close>

text \<open>\<open>pread\<close> and \<open>pwrite\<close> of a regular file, which a write past its end extends. The address is an
  \<open>unsigned int\<close>.\<close>

record tool_world =
  img :: "byte list"

definition image_at :: "int \<Rightarrow> u32 \<Rightarrow> int \<Rightarrow> nat" where
  "image_at ssz sa off = unat (sa * u32_of_int ssz + u32_of_int off)"

definition mock_sector_read :: "int \<Rightarrow> 'h tool_world_scheme read_fun" where
  "mock_sector_read ssz sa off n w = (let data = take (nat n) (drop (image_at ssz sa off) (img w))
     in (if 0 < length data then 1 else 0, data, w))"

definition pwrite :: "byte list \<Rightarrow> byte list \<Rightarrow> nat \<Rightarrow> byte list" where
  "pwrite file data p = splice (file @ replicate (p + length data - length file) 0) p data"

definition mock_sector_write :: "int \<Rightarrow> 'h tool_world_scheme write_fun" where
  "mock_sector_write ssz sa off data n w =
    (if n \<le> 0 then (0, w) else (1, w\<lparr>img := pwrite (img w) (take (nat n) data) (image_at ssz sa off)\<rparr>))"

section \<open>Paths\<close>

text \<open>The tool between two lines: the output so far, the current path, and what the stack holds
  where \<open>rs\<close> puts its array.\<close>

record shell =
  sh_out :: "byte list"
  sh_path :: "byte list"
  sh_stack :: "byte list"

definition say :: "byte list \<Rightarrow> shell \<Rightarrow> shell" where
  "say t sh = sh\<lparr>sh_out := sh_out sh @ t\<rparr>"

definition OPEN_SUCCESS :: "ci_t \<Rightarrow> bool" where "OPEN_SUCCESS ci = (ci \<ge> 0)"

text \<open>A separator goes to \<open>buf\<close> when the current path needs one.\<close>

definition add_slash :: "byte list \<Rightarrow> byte list \<Rightarrow> byte list option" where
  "add_slash path buf = do {
     c \<leftarrow> c_str path;
     if length c > 1 \<and> c \<noteq> ascii ''/'' then strcat_c buf (ascii ''/'' @ [0]) else Some buf }"

text \<open>The path of an argument, for the commands that copy and for the others.\<close>

definition copy_path :: "byte list \<Rightarrow> byte list \<Rightarrow> byte list option" where
  "copy_path path arg = do {
     p \<leftarrow> strcpy_c (replicate 128 0) path;
     p \<leftarrow> add_slash path p;
     p \<leftarrow> strcat_c p arg;
     nft32_path_to_fatnames p (replicate 128 0) }"

definition target_path :: "byte list \<Rightarrow> byte list \<Rightarrow> byte list option" where
  "target_path path arg = do {
     p \<leftarrow> strcpy_c (replicate 256 0) path;
     fatbuffer \<leftarrow> nft32_name_to_fatname arg (replicate 24 0);
     p \<leftarrow> add_slash p p;
     strcat_c p fatbuffer }"

text \<open>The directory of the current path; a path of one character counts as the root.\<close>

definition open_current :: "byte list \<Rightarrow> ('w, 'z) nifat_state_scheme \<Rightarrow> (ci_t \<times> ('w, 'z) nifat_state_scheme) option" where
  "open_current path s = do {
     c \<leftarrow> c_str path;
     if length c > 1 then NIFAT32_open_content NO_RCI (Some path) DF_MODE s
     else NIFAT32_open_content NO_RCI None DF_MODE s }"

section \<open>The commands\<close>

definition cd_upper :: "byte list \<Rightarrow> byte list option" where
  "cd_upper path = do {
     c \<leftarrow> c_str path;
     (case strrchr_c c PATH_SPLITTER of
        None \<Rightarrow> strcpy_c path [0]
      | Some i \<Rightarrow> if i \<noteq> 0 then bput path i 0 else strcpy_c path [0]) }"

definition cmd_cd :: "byte list option list \<Rightarrow> shell \<Rightarrow> ('w, 'z) nifat_state_scheme \<Rightarrow> (shell \<times> ('w, 'z) nifat_state_scheme) option" where
  "cmd_cd cmds sh s = (case cmds ! 1 of
     None \<Rightarrow> Some (say (ascii ''cd: missing path'' @ [10]) sh, s)
   | Some path \<Rightarrow> do {
       a \<leftarrow> c_str path;
       if a = ascii ''..'' then do { p \<leftarrow> cd_upper (sh_path sh); Some (sh\<lparr>sh_path := p\<rparr>, s) }
       else do {
         p \<leftarrow> add_slash (sh_path sh) (sh_path sh);
         fatbuffer \<leftarrow> strcpy_c (replicate 24 0) path;
         (_, up) \<leftarrow> nft32_str_uppercase (Some fatbuffer);
         f \<leftarrow> up;
         p \<leftarrow> strcat_c p f;
         (ok, s) \<leftarrow> NIFAT32_content_exists p s;
         p \<leftarrow> (if ok = 0 then cd_upper p else Some p);
         Some (sh\<lparr>sh_path := p\<rparr>, s) } })"

definition cmd_cp :: "byte list option list \<Rightarrow> shell \<Rightarrow> ('w, 'z) nifat_state_scheme \<Rightarrow> (shell \<times> ('w, 'z) nifat_state_scheme) option" where
  "cmd_cp cmds sh s = do {
     src \<leftarrow> cmds ! 1;
     dst \<leftarrow> cmds ! 2;
     src_83 \<leftarrow> copy_path (sh_path sh) src;
     dst_83 \<leftarrow> copy_path (sh_path sh) dst;
     (src_ci, s) \<leftarrow> NIFAT32_open_content NO_RCI (Some src_83) DF_MODE s;
     (dst_ci, s) \<leftarrow> NIFAT32_open_content NO_RCI (Some dst_83) DF_MODE s;
     if OPEN_SUCCESS src_ci \<and> OPEN_SUCCESS dst_ci then do {
       (_, s) \<leftarrow> NIFAT32_copy_content src_ci dst_ci SHALLOW_COPY s;
       (_, s) \<leftarrow> NIFAT32_close_content src_ci s;
       (_, s) \<leftarrow> NIFAT32_close_content dst_ci s;
       Some (sh, s) }
     else Some (sh, s) }"

definition cmd_mv :: "byte list option list \<Rightarrow> shell \<Rightarrow> ('w, 'z) nifat_state_scheme \<Rightarrow> (shell \<times> ('w, 'z) nifat_state_scheme) option" where
  "cmd_mv cmds sh s = do {
     src \<leftarrow> cmds ! 1;
     dst \<leftarrow> cmds ! 2;
     src_83 \<leftarrow> copy_path (sh_path sh) src;
     dst_83 \<leftarrow> copy_path (sh_path sh) dst;
     (src_ci, s) \<leftarrow> NIFAT32_open_content NO_RCI (Some src_83) DF_MODE s;
     (dst_ci, s) \<leftarrow> NIFAT32_open_content NO_RCI (Some dst_83) (MODE (W_MODE OR CR_MODE) FILE_TARGET) s;
     if OPEN_SUCCESS src_ci \<and> OPEN_SUCCESS dst_ci then do {
       (_, s) \<leftarrow> NIFAT32_copy_content src_ci dst_ci DEEP_COPY s;
       (_, s) \<leftarrow> NIFAT32_delete_content src_ci s;
       (_, s) \<leftarrow> NIFAT32_close_content dst_ci s;
       Some (sh, s) }
     else Some (sh, s) }"

text \<open>A name and an extension as the user gave them; each goes to a field of the structure with its
  terminator, and both to the 8.3 name.\<close>

definition copy_field :: "nat \<Rightarrow> byte list \<Rightarrow> byte list option" where
  "copy_field n arg = do { c \<leftarrow> c_str arg; nft32_str_memcpy (replicate n 0) arg (length c + 1) }"

definition file_info :: "byte list \<Rightarrow> byte list \<Rightarrow> u32 \<Rightarrow> cinfo_t option" where
  "file_info file_name file_ext fsize = do {
     name \<leftarrow> copy_field 8 file_name;
     ext \<leftarrow> copy_field 4 file_ext;
     n \<leftarrow> c_str file_name;
     e \<leftarrow> c_str file_ext;
     fullname \<leftarrow> poke (replicate 128 0) 0 (n @ ascii ''.'' @ e @ [0]);
     full_name \<leftarrow> nft32_name_to_fatname fullname (replicate 12 0);
     Some \<lparr>ci_full_name = full_name, ci_name = name, ci_extention = ext, ci_size = fsize, ci_type = STAT_FILE\<rparr> }"

definition put_in_current :: "cinfo_t \<Rightarrow> int \<Rightarrow> shell \<Rightarrow> ('w, 'z) nifat_state_scheme \<Rightarrow> (shell \<times> ('w, 'z) nifat_state_scheme) option" where
  "put_in_current info reserve sh s = do {
     (root_ci, s) \<leftarrow> open_current (sh_path sh) s;
     if \<not> OPEN_SUCCESS root_ci then Some (sh, s)
     else do {
       (_, s) \<leftarrow> NIFAT32_put_content root_ci info reserve s;
       (_, s) \<leftarrow> NIFAT32_close_content root_ci s;
       Some (sh, s) } }"

definition cmd_mkfile :: "byte list option list \<Rightarrow> shell \<Rightarrow> ('w, 'z) nifat_state_scheme \<Rightarrow> (shell \<times> ('w, 'z) nifat_state_scheme) option" where
  "cmd_mkfile cmds sh s = do {
     file_name \<leftarrow> cmds ! 1;
     file_ext \<leftarrow> cmds ! 2;
     reserve \<leftarrow> (case cmds ! 3 of None \<Rightarrow> Some NO_RESERVE | Some r \<Rightarrow> atoi_c r);
     info \<leftarrow> file_info file_name file_ext 0;
     put_in_current info reserve sh s }"

definition cmd_mkdir :: "byte list option list \<Rightarrow> shell \<Rightarrow> ('w, 'z) nifat_state_scheme \<Rightarrow> (shell \<times> ('w, 'z) nifat_state_scheme) option" where
  "cmd_mkdir cmds sh s = do {
     name \<leftarrow> cmds ! 1;
     n \<leftarrow> copy_field 8 name;
     full_name \<leftarrow> nft32_name_to_fatname name (replicate 12 0);
     put_in_current \<lparr>ci_full_name = full_name, ci_name = n, ci_extention = replicate 4 0, ci_size = 0, ci_type = STAT_DIR\<rparr>
       NO_RESERVE sh s }"

text \<open>The renamed file is looked up in the root, whatever the current path is.\<close>

definition cmd_frename :: "byte list option list \<Rightarrow> shell \<Rightarrow> ('w, 'z) nifat_state_scheme \<Rightarrow> (shell \<times> ('w, 'z) nifat_state_scheme) option" where
  "cmd_frename cmds sh s = do {
     name \<leftarrow> cmds ! 1;
     src_path \<leftarrow> nft32_name_to_fatname name (replicate 128 0);
     (src, s) \<leftarrow> NIFAT32_open_content NO_RCI (Some src_path) DF_MODE s;
     if OPEN_SUCCESS src then do {
       file_name \<leftarrow> cmds ! 2;
       file_ext \<leftarrow> cmds ! 3;
       info \<leftarrow> file_info file_name file_ext 12;
       (_, s) \<leftarrow> NIFAT32_change_meta src info s;
       (_, s) \<leftarrow> NIFAT32_close_content src s;
       Some (sh, s) }
     else Some (sh, s) }"

definition not_found :: "byte list" where
  "not_found = ascii ''Content not found!'' @ [10]"

definition cmd_rm :: "byte list option list \<Rightarrow> shell \<Rightarrow> ('w, 'z) nifat_state_scheme \<Rightarrow> (shell \<times> ('w, 'z) nifat_state_scheme) option" where
  "cmd_rm cmds sh s = do {
     path \<leftarrow> cmds ! 1;
     path_buffer \<leftarrow> target_path (sh_path sh) path;
     (ci, s) \<leftarrow> NIFAT32_open_content NO_RCI (Some path_buffer) DF_MODE s;
     if OPEN_SUCCESS ci then do { (_, s) \<leftarrow> NIFAT32_delete_content ci s; Some (sh, s) }
     else Some (say not_found sh, s) }"

definition cmd_read :: "byte list option list \<Rightarrow> shell \<Rightarrow> ('w, 'z) nifat_state_scheme \<Rightarrow> (shell \<times> ('w, 'z) nifat_state_scheme) option" where
  "cmd_read cmds sh s = do {
     path \<leftarrow> cmds ! 1;
     path_buffer \<leftarrow> target_path (sh_path sh) path;
     (ci, s) \<leftarrow> NIFAT32_open_content NO_RCI (Some path_buffer) DF_MODE s;
     if \<not> OPEN_SUCCESS ci then Some (say not_found sh, s)
     else do {
       ((_, content), s) \<leftarrow> NIFAT32_read_content2buffer ci 0 (replicate 512 0) 512 s;
       c \<leftarrow> c_str content;
       (_, s) \<leftarrow> NIFAT32_close_content ci s;
       Some (say (c @ [10]) sh, s) } }"

text \<open>The token is what is written, with 512 bytes from there on.\<close>

definition cmd_write :: "byte list option list \<Rightarrow> shell \<Rightarrow> ('w, 'z) nifat_state_scheme \<Rightarrow> (shell \<times> ('w, 'z) nifat_state_scheme) option" where
  "cmd_write cmds sh s = do {
     path \<leftarrow> cmds ! 1;
     path_buffer \<leftarrow> target_path (sh_path sh) path;
     (ci, s) \<leftarrow> NIFAT32_open_content NO_RCI (Some path_buffer) DF_MODE s;
     if \<not> OPEN_SUCCESS ci then Some (say not_found sh, s)
     else do {
       data \<leftarrow> cmds ! 2;
       (_, s) \<leftarrow> NIFAT32_write_buffer2content ci 0 data 512 s;
       (_, s) \<leftarrow> NIFAT32_close_content ci s;
       Some (sh, s) } }"

definition cmd_trunc :: "byte list option list \<Rightarrow> shell \<Rightarrow> ('w, 'z) nifat_state_scheme \<Rightarrow> (shell \<times> ('w, 'z) nifat_state_scheme) option" where
  "cmd_trunc cmds sh s = do {
     path \<leftarrow> cmds ! 1;
     path_buffer \<leftarrow> target_path (sh_path sh) path;
     o_tok \<leftarrow> cmds ! 2;
     offset \<leftarrow> atoi_c o_tok;
     s_tok \<leftarrow> cmds ! 3;
     size \<leftarrow> atoi_c s_tok;
     (ci, s) \<leftarrow> NIFAT32_open_content NO_RCI (Some path_buffer) DF_MODE s;
     if \<not> OPEN_SUCCESS ci then Some (say not_found sh, s)
     else do {
       (_, s) \<leftarrow> NIFAT32_truncate_content ci (u32_of_int offset) size s;
       (_, s) \<leftarrow> NIFAT32_close_content ci s;
       Some (sh, s) } }"

text \<open>\<open>k\<close> entries are left; the listing stops at the end marker and skips deleted entries.\<close>

primrec ls_loop :: "nat \<Rightarrow> nat \<Rightarrow> byte list \<Rightarrow> shell \<Rightarrow> shell option" where
  "ls_loop 0 i decoded sh = Some sh"
| "ls_loop (Suc k) i decoded sh = (let entry = entry_at decoded i in
     if de_file_name entry ! 0 = ENTRY_END then Some sh
     else if de_file_name entry ! 0 \<noteq> ENTRY_FREE then do {
       name \<leftarrow> nft32_fatname_to_name (de_file_name entry) (replicate 128 0);
       c \<leftarrow> c_str name;
       ls_loop k (i + 1) decoded (say (c @ [9] @ dec_u (unat (de_file_size entry)) @ [10]) sh) }
     else ls_loop k (i + 1) decoded sh)"

definition cmd_ls :: "shell \<Rightarrow> ('w, 'z) nifat_state_scheme \<Rightarrow> (shell \<times> ('w, 'z) nifat_state_scheme) option" where
  "cmd_ls sh s = do {
     (ci, s) \<leftarrow> open_current (sh_path sh) s;
     if \<not> OPEN_SUCCESS ci then Some (say not_found sh, s)
     else do {
       ((_, cluster_data), s) \<leftarrow> NIFAT32_read_content2buffer ci 0 (replicate 8192 0) 8192 s;
       let decoded = nft32_unpack_memory (u16s_of_bytes cluster_data) 4096;
       sh \<leftarrow> ls_loop (8192 div 2 div sizeof_entry) 0 decoded sh;
       (_, s) \<leftarrow> NIFAT32_close_content ci s;
       Some (sh, s) } }"

definition hex_dump :: "byte list \<Rightarrow> byte list" where
  "hex_dump buf = concat (map (\<lambda>i. [hex_digit (unat (buf ! i) div 16), hex_digit (unat (buf ! i) mod 16), 32]
     @ (if (i + 1) mod 16 = 0 then [10] else [])) [0 ..< length buf])"

definition cmd_rs :: "int \<Rightarrow> byte list option list \<Rightarrow> shell \<Rightarrow> ('w, 'z) nifat_state_scheme \<Rightarrow> (shell \<times> ('w, 'z) nifat_state_scheme) option" where
  "cmd_rs ssz cmds sh s = do {
     tok \<leftarrow> cmds ! 1;
     sector \<leftarrow> atoi_c tok;
     let buffer = take (nat ssz) (sh_stack sh @ replicate (nat ssz) 0);
     ((_, buffer), s) \<leftarrow> DSK_readoff_sectors (u32_of_int sector) 0 buffer ssz 1 s;
     c \<leftarrow> c_str buffer;
     Some (say (ascii ''Data: ['' @ c @ ascii '']'' @ [10] @ ascii ''Data (hex):'' @ [10] @ hex_dump buffer @ [10]) sh, s) }"

definition cmd_le :: "shell \<Rightarrow> ('w, 'z) nifat_state_scheme \<Rightarrow> (shell \<times> ('w, 'z) nifat_state_scheme) option" where
  "cmd_le sh s = do {
     (c, s) \<leftarrow> NIFAT32_get_last_error s;
     Some (say (ascii ''Last error code: '' @ dec_i (int_of_u32 c) @ [10]) sh, s) }"

definition run_cmd :: "int \<Rightarrow> cmd_t \<Rightarrow> byte list option list \<Rightarrow> shell \<Rightarrow>
    ('w, 'z) nifat_state_scheme \<Rightarrow> (shell \<times> ('w, 'z) nifat_state_scheme) option" where
  "run_cmd ssz cmd cmds sh s = (case cmd of
     CD \<Rightarrow> cmd_cd cmds sh s
   | CP \<Rightarrow> cmd_cp cmds sh s
   | MV \<Rightarrow> cmd_mv cmds sh s
   | MKFILE \<Rightarrow> cmd_mkfile cmds sh s
   | MKDIR \<Rightarrow> cmd_mkdir cmds sh s
   | FRENAME \<Rightarrow> cmd_frename cmds sh s
   | RM \<Rightarrow> cmd_rm cmds sh s
   | READ \<Rightarrow> cmd_read cmds sh s
   | WRITE \<Rightarrow> cmd_write cmds sh s
   | TRUNC \<Rightarrow> cmd_trunc cmds sh s
   | LS \<Rightarrow> cmd_ls sh s
   | CMD_RS \<Rightarrow> cmd_rs ssz cmds sh s
   | LE \<Rightarrow> cmd_le sh s
   | CMD_WS \<Rightarrow> Some (sh, s)
   | UNKNOWN \<Rightarrow> Some (sh, s))"

section \<open>The loop over the lines\<close>

text \<open>\<open>fgets\<close> with a buffer of \<open>n\<close> bytes: the bytes it stores and the rest of the input.\<close>

definition fgets_c :: "nat \<Rightarrow> byte list \<Rightarrow> byte list \<times> byte list" where
  "fgets_c n inp = (let l = takeWhile (\<lambda>b. b \<noteq> 10) inp; m = min (n - 1) (if length l < length inp then length l + 1 else length l)
     in (take m inp, drop m inp))"

text \<open>\<open>strtok\<close> with a space: \<open>p\<close> is where the search goes on. The tokens are positions, and the byte
  behind a token becomes its terminator. \<open>k\<close> places are left in the array; one token more would be
  stored past its end.\<close>

definition token_end :: "byte list \<Rightarrow> nat \<Rightarrow> nat" where
  "token_end buf p = p + length (takeWhile (\<lambda>b. b \<noteq> 32 \<and> b \<noteq> 0) (drop p buf))"

definition token_start :: "byte list \<Rightarrow> nat \<Rightarrow> nat" where
  "token_start buf p = p + length (takeWhile (\<lambda>b. b = 32) (drop p buf))"

primrec tokens :: "nat \<Rightarrow> byte list \<Rightarrow> nat \<Rightarrow> (nat list \<times> byte list) option" where
  "tokens 0 buf p = (if buf ! token_start buf p = 0 then Some ([], buf) else None)"
| "tokens (Suc k) buf p = (let a = token_start buf p; e = token_end buf a in
     if buf ! a = 0 then Some ([], buf)
     else do {
       (ps, buf) \<leftarrow> (if buf ! e = 0 then tokens k buf e else tokens k (buf[e := 0]) (e + 1));
       Some (a # ps, buf) })"

text \<open>One line: the newline is cut off, the tokens are stored in the array, the command runs.\<close>

definition run_line :: "int \<Rightarrow> byte list \<Rightarrow> shell \<Rightarrow>
    ('w, 'z) nifat_state_scheme \<Rightarrow> (shell \<times> ('w, 'z) nifat_state_scheme) option" where
  "run_line ssz line sh s = do {
     buffer \<leftarrow> poke (replicate 256 0) 0 (line @ [0]);
     c \<leftarrow> c_str buffer;
     let buffer = buffer[length (takeWhile (\<lambda>b. b \<noteq> 10) c) := 0];
     (ps, buffer) \<leftarrow> tokens 20 buffer 0;
     let cmds = map (\<lambda>p. Some (drop p buffer)) ps @ replicate (20 - length ps) None;
     if ps = [] then Some (sh, s)
     else do {
       cmd0 \<leftarrow> cmds ! 0;
       cmd \<leftarrow> get_cmd cmd0;
       run_cmd ssz cmd cmds sh s } }"

lemma fgets_shorter:
  "fgets_c n inp = (line, rest) \<Longrightarrow> inp \<noteq> [] \<Longrightarrow> 1 < n \<Longrightarrow> length rest < length inp"
  by (cases inp) (auto simp: fgets_c_def Let_def split: if_splits)

function shell_loop :: "int \<Rightarrow> byte list \<Rightarrow> shell \<Rightarrow>
    ('w, 'z) nifat_state_scheme \<Rightarrow> (shell \<times> ('w, 'z) nifat_state_scheme) option" where
  "shell_loop ssz inp sh s = do {
     c \<leftarrow> c_str (sh_path sh);
     let sh = say (c @ ascii '' > '') sh;
     if inp = [] then Some (sh, s)
     else do {
       let (line, rest) = fgets_c 256 inp;
       (sh, s) \<leftarrow> run_line ssz line sh s;
       shell_loop ssz rest sh s } }"
  by auto
termination
  by (relation "measure (\<lambda>(_, inp, _). length inp)") (auto dest!: sym [of "(_, _)" "fgets_c _ _"] dest: fgets_shorter)

declare shell_loop.simps [simp del]

section \<open>The program\<close>

text \<open>The calls to the operating system and to the allocator of the C library.\<close>

record 'w tool_host =
  th_open :: "string \<Rightarrow> 'w \<Rightarrow> bool \<times> 'w"
  th_malloc :: "u64 \<Rightarrow> 'w \<Rightarrow> nat option \<times> 'w"
  th_free :: "nat option \<Rightarrow> 'w \<Rightarrow> 'w"

definition tool_params :: "'h tool_world_scheme tool_host \<Rightarrow> int \<Rightarrow> int \<Rightarrow> int \<Rightarrow> int \<Rightarrow>
    'h tool_world_scheme nifat32_params_t option" where
  "tool_params h v_size ssz bs jc = (let v = v_size * (1024 * 1024) in
     if ssz = 0 \<or> v < - (2 ^ 31) \<or> v \<ge> 2 ^ 31 then None
     else Some \<lparr>p_fat_cache = CACHE, p_bs_num = 0, p_bs_count = word_of_int bs, p_ts = u32_of_int (v sdiv ssz),
       p_jc = word_of_int jc, p_ec = 0, p_ef = 5,
       p_disk_io = \<lparr>read_sector = Some (mock_sector_read ssz), write_sector = Some (mock_sector_write ssz), sector_size = ssz\<rparr>,
       p_mm_init = None, p_mm_malloc = Some (th_malloc h), p_mm_free = Some (th_free h)\<rparr>)"

definition tool_main :: "string list \<Rightarrow> 'h tool_world_scheme tool_host \<Rightarrow> byte list \<Rightarrow> byte list \<Rightarrow>
    ('h tool_world_scheme, 'z) nifat_state_scheme \<Rightarrow> ((int \<times> byte list) \<times> ('h tool_world_scheme, 'z) nifat_state_scheme) option" where
  "tool_main argv h inp stack s =
    (if length argv < 2 then None
     else let (ok, w) = th_open h (argv ! 1) (world s); s = s\<lparr>world := w\<rparr> in
       if \<not> ok then Some ((1, []), s)
       else if length argv < 6 then None
       else do {
         v_size \<leftarrow> atoi (argv ! 2);
         ssz \<leftarrow> atoi (argv ! 3);
         bs \<leftarrow> atoi (argv ! 4);
         jc \<leftarrow> atoi (argv ! 5);
         let banner = ascii ''v_size='' @ dec_i v_size @ ascii '', sector_size='' @ dec_i ssz @ ascii '', bs='' @ dec_i bs
           @ ascii '', jc='' @ dec_i jc @ [10];
         params \<leftarrow> tool_params h v_size ssz bs jc;
         ((r, _), s) \<leftarrow> NIFAT32_init params s;
         if r = 0 then Some ((1, banner), s)
         else do {
           (sh, s) \<leftarrow> shell_loop ssz inp \<lparr>sh_out = banner, sh_path = replicate 256 0, sh_stack = stack\<rparr> s;
           (_, s) \<leftarrow> NIFAT32_unload s;
           Some ((0, sh_out sh), s) } })"

section \<open>Lemmas on strings\<close>

lemma takeWhile_stop: "x \<notin> set a \<Longrightarrow> takeWhile (\<lambda>b. b \<noteq> x) (a @ x # r) = a"
  by (induction a) auto

lemma c_str_Some: "c_str buf = Some c \<longleftrightarrow> (\<exists>r. buf = c @ 0 # r) \<and> 0 \<notin> set c"
proof
  assume "c_str buf = Some c"
  then have b: "0 \<in> set buf" "c = takeWhile (\<lambda>b. b \<noteq> 0) buf" by (auto simp: c_str_def split: if_splits)
  then have "dropWhile (\<lambda>b. b \<noteq> 0) buf \<noteq> []" by (simp add: dropWhile_eq_Nil_conv)
  then obtain x r where r: "dropWhile (\<lambda>b. b \<noteq> 0) buf = x # r" by (meson neq_Nil_conv)
  then have "x = 0" using hd_dropWhile [of "\<lambda>b. b \<noteq> 0" buf] by simp
  then show "(\<exists>r. buf = c @ 0 # r) \<and> 0 \<notin> set c"
    using b(2) r takeWhile_dropWhile_id [of "\<lambda>b. b \<noteq> 0" buf] set_takeWhileD by metis
next
  assume "(\<exists>r. buf = c @ 0 # r) \<and> 0 \<notin> set c"
  then obtain r where r: "buf = c @ 0 # r" "0 \<notin> set c" by blast
  then have "takeWhile (\<lambda>b. b \<noteq> 0) buf = c" by (simp add: takeWhile_stop)
  then show "c_str buf = Some c" using r by (simp add: c_str_def)
qed

lemma c_strI [intro]: "0 \<notin> set c \<Longrightarrow> c_str (c @ 0 # r) = Some c"
  using c_str_Some by blast

lemma c_str_zero: "c_str buf = Some c \<Longrightarrow> 0 \<notin> set c"
  using c_str_Some by blast

lemma c_str_len: "c_str buf = Some c \<Longrightarrow> length c < length buf"
  by (auto simp: c_str_Some)

lemma poke_str:
  assumes "0 \<notin> set d" "0 \<notin> set c" "length d + length c < length (d @ r)"
  shows "\<exists>p. poke (d @ r) (length d) (c @ [0]) = Some p \<and> length p = length (d @ r) \<and> c_str p = Some (d @ c)"
proof -
  have "poke (d @ r) (length d) (c @ [0]) = Some (d @ c @ 0 # drop (length c + 1) r)"
    using assms(3) by (simp add: poke_def splice_def)
  moreover have "c_str ((d @ c) @ 0 # drop (length c + 1) r) = Some (d @ c)" using assms by (intro c_strI) simp
  ultimately show ?thesis using assms(3) by simp
qed

lemma strcpy_c_ok:
  assumes "c_str src = Some c" "length c < length dst"
  shows "\<exists>p. strcpy_c dst src = Some p \<and> length p = length dst \<and> c_str p = Some c"
  using poke_str [of "[]" c dst] assms c_str_zero [OF assms(1)] by (simp add: strcpy_c_def)

lemma strcat_c_ok:
  assumes "c_str dst = Some d" "c_str src = Some c" "length d + length c < length dst"
  shows "\<exists>p. strcat_c dst src = Some p \<and> length p = length dst \<and> c_str p = Some (d @ c)"
proof -
  obtain r where r: "dst = d @ 0 # r" using assms(1) c_str_Some by blast
  show ?thesis using poke_str [of d c "0 # r"] assms c_str_zero [OF assms(1)] c_str_zero [OF assms(2)]
    by (simp add: strcat_c_def r)
qed

lemma cut_str:
  assumes "c_str buf = Some c" "i \<le> length c"
  shows "\<exists>p. bput buf i 0 = Some p \<and> length p = length buf \<and> c_str p = Some (take i c)"
proof -
  obtain r where r: "buf = c @ 0 # r" and z: "0 \<notin> set c" using assms(1) c_str_Some by blast
  have "i < length buf" using assms(2) r by simp
  then have "buf[i := 0] = take i buf @ 0 # drop (Suc i) buf" by (rule upd_conv_take_nth_drop)
  moreover have "take i buf = take i c" using assms(2) r by simp
  moreover have "0 \<notin> set (take i c)" using z by (auto dest: in_set_takeD)
  ultimately have "c_str (buf[i := 0]) = Some (take i c)" by auto
  then show ?thesis using \<open>i < length buf\<close> by (simp add: bput_def)
qed

text \<open>The path one level up.\<close>

definition parent_path :: "byte list \<Rightarrow> byte list" where
  "parent_path c = (case strrchr_c c PATH_SPLITTER of None \<Rightarrow> [] | Some i \<Rightarrow> take i c)"

lemma strrchr_last: "b \<notin> set a \<Longrightarrow> strrchr_c (c @ b # a) b = Some (length c)"
  by (simp add: strrchr_c_def takeWhile_stop)

lemma parent_path_join: "PATH_SPLITTER \<notin> set a \<Longrightarrow> parent_path (c @ PATH_SPLITTER # a) = c"
  by (simp add: parent_path_def strrchr_last)

lemma parent_path_plain: "PATH_SPLITTER \<notin> set a \<Longrightarrow> parent_path a = []"
  by (simp add: parent_path_def strrchr_c_def)

lemma parent_path_single: "length c = 1 \<Longrightarrow> PATH_SPLITTER \<notin> set a \<Longrightarrow> parent_path (c @ a) = []"
  using parent_path_join [of a "[]"] parent_path_plain [of "c @ a"]
  by (cases c; cases "hd c = PATH_SPLITTER"; simp)

lemma cd_upper_ok:
  assumes "c_str path = Some c"
  shows "\<exists>p. cd_upper path = Some p \<and> length p = length path \<and> c_str p = Some (parent_path c)"
proof -
  have top: "\<exists>p. strcpy_c path [0] = Some p \<and> length p = length path \<and> c_str p = Some []"
    using strcpy_c_ok [of "[0]" "[]" path] c_strI [of "[]" "[]"] c_str_len [OF assms] by fastforce
  show ?thesis
  proof (cases "strrchr_c c PATH_SPLITTER")
    case None
    then show ?thesis using top assms by (simp add: cd_upper_def parent_path_def)
  next
    case (Some i)
    then have "i \<le> length c" by (auto simp: strrchr_c_def split: if_splits)
    then show ?thesis using Some top cut_str [OF assms, of i] assms by (simp add: cd_upper_def parent_path_def)
  qed
qed

lemma add_slash_ok:
  assumes "c_str path = Some c" "c_str buf = Some d" "length d + 1 < length buf"
  shows "\<exists>p. add_slash path buf = Some p \<and> length p = length buf \<and>
    c_str p = Some (if length c > 1 then d @ [PATH_SPLITTER] else d)"
proof -
  have s: "ascii ''/'' = [PATH_SPLITTER]" by (simp add: ascii_def PATH_SPLITTER_def)
  have "c_str (ascii ''/'' @ [0]) = Some [PATH_SPLITTER]" unfolding s by (intro c_strI) (simp add: PATH_SPLITTER_def)
  then show ?thesis using assms strcat_c_ok [OF assms(2), of "ascii ''/'' @ [0]" "[PATH_SPLITTER]"]
    by (auto simp: add_slash_def s)
qed

lemma toupper_splitter: "toupper_c x = PATH_SPLITTER \<longleftrightarrow> x = PATH_SPLITTER"
proof -
  have "x = (x - 97 + 65) + 32" by simp
  then have "x - 97 + 65 = 47 \<longrightarrow> x = 79" by (metis (mono_tags) numeral_plus_numeral semiring_norm)
  then show ?thesis by (auto simp: toupper_c_def islower_c_def PATH_SPLITTER_def)
qed

lemma upper_name:
  assumes "c_str tok = Some a" "length a < n"
  shows "\<exists>b f. strcpy_c (replicate n 0) tok = Some b \<and> nft32_str_uppercase (Some b) = Some (True, Some f) \<and>
    c_str f = Some (map toupper_c a)"
proof -
  obtain b where b: "strcpy_c (replicate n 0) tok = Some b" "c_str b = Some a"
    using strcpy_c_ok [OF assms(1), of "replicate n 0"] assms(2) by auto
  obtain r where r: "b = a @ 0 # r" and z: "0 \<notin> set a" using b(2) c_str_Some by blast
  have "0 \<notin> set (map toupper_c a)" using z toupper_c_nonzero by force
  then show ?thesis using b(1) z by (auto simp: nft32_str_uppercase_def r uppercase_eq)
qed

section \<open>The image is a disk, but for reads of no bytes\<close>

text \<open>What the layer below relies on is met by the callbacks of the tool except that a transfer of no
  byte reports a failure. \<open>lenient\<close> repairs that; the two devices behave alike where no such transfer
  is made.\<close>

definition lenient_read :: "int \<Rightarrow> 'h tool_world_scheme read_fun" where
  "lenient_read ssz sa off n w = (if n = 0 then (1, [], w) else mock_sector_read ssz sa off n w)"

definition lenient_write :: "int \<Rightarrow> 'h tool_world_scheme write_fun" where
  "lenient_write ssz sa off data n w = (if n = 0 then (1, w) else mock_sector_write ssz sa off data n w)"

definition image_secs :: "nat \<Rightarrow> 'h tool_world_scheme \<Rightarrow> nat \<Rightarrow> byte list" where
  "image_secs ssz w i = take ssz (drop (i * ssz) (img w))"

definition image_ok :: "nat \<Rightarrow> nat \<Rightarrow> 'h tool_world_scheme \<Rightarrow> bool" where
  "image_ok nsec ssz w = (length (img w) = nsec * ssz)"

lemma sector_inside: "i < nsec \<Longrightarrow> i * ssz + ssz \<le> nsec * (ssz :: nat)"
  using mult_le_mono1 [of "Suc i" nsec ssz] by simp

lemma image_at_inside:
  assumes "unat sa < nsec" "nsec * ssz \<le> 2 ^ 32" "0 \<le> off" "off < int ssz"
  shows "image_at (int ssz) sa off = unat sa * ssz + nat off"
proof -
  have b: "unat sa * ssz + nat off < 2 ^ 32" using sector_inside [OF assms(1), of ssz] assms(2-4) by linarith
  have "sa * u32_of_int (int ssz) + u32_of_int off = of_nat (unat sa * ssz + nat off)" using assms(3) by simp
  then show ?thesis using b by (simp add: image_at_def unat_of_nat del: of_nat_add of_nat_mult)
qed

lemma splice_window:
  assumes "p + n \<le> length f" "o' + length d \<le> n"
  shows "take n (drop p (splice f (p + o') d)) = splice (take n (drop p f)) o' d"
proof -
  have le: "p + o' \<le> length f" "min (p + o') (length f) = p + o'" using assms by linarith+
  have "drop p (splice f (p + o') d) = take o' (drop p f) @ d @ drop (o' + length d) (drop p f)"
    using le by (simp add: splice_def drop_take ac_simps)
  moreover have "length (take o' (drop p f)) = o'" using assms by simp
  moreover have "min o' n = o'" "n - o' - length d = n - (o' + length d)" using assms(2) by simp_all
  ultimately show ?thesis using assms(2) by (simp add: splice_def drop_take min.commute)
qed

lemma splice_sector:
  assumes "i * ssz + ssz \<le> length f" "o' + length d \<le> ssz"
  shows "take ssz (drop (j * ssz) (splice f (i * ssz + o') d)) =
    (if j = i then splice (take ssz (drop (j * ssz) f)) o' d else take ssz (drop (j * ssz) f))"
proof -
  have inside: "i * ssz + o' + length d \<le> length f" using assms by linarith
  consider "j = i" | "j < i" | "i < j" by linarith
  then show ?thesis
  proof cases
    case 1
    show ?thesis unfolding 1 using splice_window [OF assms] by simp
  next
    case 2
    then have le: "j * ssz + ssz \<le> i * ssz" by (rule sector_inside)
    have "take ssz (drop (j * ssz) (take (i * ssz + o') f)) = take ssz (drop (j * ssz) f)"
      using le by (simp add: take_drop min_def)
    then show ?thesis using 2 le inside by (simp add: splice_def)
  next
    case 3
    then have le: "i * ssz + ssz \<le> j * ssz" by (rule sector_inside)
    then have "drop (j * ssz) (splice f (i * ssz + o') d) = drop (j * ssz) f"
      using assms inside by (simp add: splice_def)
    then show ?thesis using 3 by simp
  qed
qed

lemma image_device:
  assumes "0 < ssz" "nsec < 2 ^ 32" "nsec * ssz \<le> 2 ^ 32"
  shows "block_device (lenient_read (int ssz)) (lenient_write (int ssz)) (image_ok nsec ssz) (image_secs ssz) nsec ssz"
proof unfold_locales
  show "length (image_secs ssz w i) = ssz" if "image_ok nsec ssz w" "i < nsec" for w i
    using that sector_inside [OF that(2), of ssz] by (simp add: image_secs_def image_ok_def)
  show "\<exists>w'. lenient_read (int ssz) sa off n w = (1, take (nat n) (drop (nat off) (image_secs ssz w (unat sa))), w') \<and>
      image_ok nsec ssz w' \<and> image_secs ssz w' = image_secs ssz w"
    if h: "image_ok nsec ssz w" "unat sa < nsec" "0 \<le> off" "0 \<le> n" "off + n \<le> int ssz" for w sa off n
  proof (cases "n = 0")
    case False
    let ?p = "unat sa * ssz"
    have len: "?p + ssz \<le> length (img w)" using sector_inside [OF h(2)] h(1) by (simp add: image_ok_def)
    have p: "image_at (int ssz) sa off = ?p + nat off" using False h assms(3) by (intro image_at_inside) auto
    have m: "nat off + nat n \<le> ssz" using h(3-5) by linarith
    then have "min (nat n) (ssz - nat off) = nat n" by simp
    then have "take (nat n) (drop (nat off) (image_secs ssz w (unat sa))) = take (nat n) (drop (?p + nat off) (img w))"
      by (simp add: image_secs_def drop_take add.commute)
    moreover have "0 < length (take (nat n) (drop (?p + nat off) (img w)))" using False h(4) m len by simp
    ultimately show ?thesis using False h(1) by (simp add: lenient_read_def mock_sector_read_def p)
  qed (use h in \<open>simp add: lenient_read_def\<close>)
  show "\<exists>w'. lenient_write (int ssz) sa off data n w = (1, w') \<and> image_ok nsec ssz w' \<and>
      image_secs ssz w' = (image_secs ssz w)(unat sa := splice (image_secs ssz w (unat sa)) (nat off) data)"
    if h: "image_ok nsec ssz w" "unat sa < nsec" "0 \<le> off" "0 \<le> n" "off + n \<le> int ssz" "length data = nat n" for w sa off n data
  proof (cases "n = 0")
    case False
    let ?p = "unat sa * ssz"
    have len: "?p + ssz \<le> length (img w)" using sector_inside [OF h(2)] h(1) by (simp add: image_ok_def)
    have p: "image_at (int ssz) sa off = ?p + nat off" using False h assms(3) by (intro image_at_inside) auto
    have m: "nat off + length data \<le> ssz" using h(3-6) by linarith
    then have "pwrite (img w) data (?p + nat off) = splice (img w) (?p + nat off) data" using len by (simp add: pwrite_def)
    then have "lenient_write (int ssz) sa off data n w = (1, w\<lparr>img := splice (img w) (?p + nat off) data\<rparr>)"
      using False h(4,6) by (simp add: lenient_write_def mock_sector_write_def p)
    moreover have "image_secs ssz (w\<lparr>img := splice (img w) (?p + nat off) data\<rparr>) =
        (image_secs ssz w)(unat sa := splice (image_secs ssz w (unat sa)) (nat off) data)"
      using splice_sector [OF len m] by (simp add: fun_eq_iff image_secs_def)
    ultimately show ?thesis using h(1) len m by (simp add: image_ok_def)
  qed (use h in \<open>simp add: lenient_write_def fun_eq_iff\<close>)
qed (use assms in simp_all)

text \<open>The two devices, as the settings of the disk layer.\<close>

definition tool_disk :: "int \<Rightarrow> 'h tool_world_scheme disk_io" where
  "tool_disk ssz = \<lparr>read_sector = Some (mock_sector_read ssz), write_sector = Some (mock_sector_write ssz), sector_size = ssz\<rparr>"

definition lenient_disk :: "int \<Rightarrow> 'h tool_world_scheme disk_io" where
  "lenient_disk ssz = \<lparr>read_sector = Some (lenient_read ssz), write_sector = Some (lenient_write ssz), sector_size = ssz\<rparr>"

lemma readoff_Suc:
  "0 < n \<Longrightarrow> off \<le> sector_size (disk_io s) \<Longrightarrow> m = min n (sector_size (disk_io s) - off) \<Longrightarrow>
    readoff_loop (Suc k) sa off buf pos n s = do {
      ((r, buf), s) \<leftarrow> call_read sa off buf pos m s;
      if r = 0 then Some ((0, buf), s) else readoff_loop k (sa + 1) 0 buf (pos + nat m) (n - m) s }"
  by (auto simp: min_def Let_def)

lemma writeoff_Suc:
  "0 < n \<Longrightarrow> off \<le> sector_size (disk_io s) \<Longrightarrow> m = min n (sector_size (disk_io s) - off) \<Longrightarrow>
    writeoff_loop (Suc k) sa off data pos n s = do {
      (r, s) \<leftarrow> call_write sa off data pos m s;
      if r = 0 then Some (0, s) else writeoff_loop k (sa + 1) 0 data (pos + nat m) (n - m) s }"
  by (auto simp: min_def Let_def)

lemma call_read_on:
  "n \<noteq> 0 \<Longrightarrow> io = tool_disk ssz \<or> io = lenient_disk ssz \<Longrightarrow> mock_sector_read ssz sa off n (world s) = (r, d, w) \<Longrightarrow>
    call_read sa off buf pos n (s\<lparr>disk_io := io\<rparr>) = map_option (\<lambda>b. ((r, b), s\<lparr>world := w\<rparr>\<lparr>disk_io := io\<rparr>)) (poke buf pos d)"
  by (cases "poke buf pos d") (auto simp: call_read_def tool_disk_def lenient_disk_def lenient_read_def)

lemma call_write_on:
  "n \<noteq> 0 \<Longrightarrow> io = tool_disk ssz \<or> io = lenient_disk ssz \<Longrightarrow>
    mock_sector_write ssz sa off (take (nat n) (drop pos data)) n (world s) = (r, w) \<Longrightarrow>
    call_write sa off data pos n (s\<lparr>disk_io := io\<rparr>) =
      (if pos + nat n \<le> length data then Some (r, s\<lparr>world := w\<rparr>\<lparr>disk_io := io\<rparr>) else None)"
  by (auto simp: call_write_def tool_disk_def lenient_disk_def lenient_write_def)

lemma disk_sizes [simp]: "sector_size (tool_disk ssz) = ssz" "sector_size (lenient_disk ssz) = ssz"
  by (simp_all add: tool_disk_def lenient_disk_def)

lemma readoff_alike:
  assumes "0 < ssz" "off < ssz"
  shows "readoff_loop k sa off buf pos n (s\<lparr>disk_io := tool_disk ssz\<rparr>) =
    map_option (\<lambda>(r, t). (r, t\<lparr>disk_io := tool_disk ssz\<rparr>)) (readoff_loop k sa off buf pos n (s\<lparr>disk_io := lenient_disk ssz\<rparr>))"
  using assms(2)
proof (induction k arbitrary: sa off buf pos n s)
  case (Suc k)
  show ?case
  proof (cases "n \<le> 0")
    case False
    define m where "m = min n (ssz - off)"
    have n: "0 < n" "m \<noteq> 0" using Suc.prems False by (auto simp: m_def)
    obtain r d w where w: "mock_sector_read ssz sa off m (world s) = (r, d, w)" by (metis prod_cases3)
    let ?s = "s\<lparr>world := w\<rparr>"
    have ih: "readoff_loop k (sa + 1) 0 b (pos + nat m) (n - m) (?s\<lparr>disk_io := tool_disk ssz\<rparr>) = map_option
        (\<lambda>(r, t). (r, t\<lparr>disk_io := tool_disk ssz\<rparr>)) (readoff_loop k (sa + 1) 0 b (pos + nat m) (n - m) (?s\<lparr>disk_io := lenient_disk ssz\<rparr>))" for b
      by (rule Suc.IH) (rule assms(1))
    show ?thesis using Suc.prems
      by (subst (1 2) readoff_Suc [OF n(1), where m = m]; simp add: m_def [symmetric] call_read_on [OF n(2) _ w] ih
        del: readoff_loop.simps; cases "poke buf pos d"; simp add: ih del: readoff_loop.simps)
  qed simp
qed simp

lemma writeoff_alike:
  assumes "0 < ssz" "off < ssz"
  shows "writeoff_loop k sa off data pos n (s\<lparr>disk_io := tool_disk ssz\<rparr>) =
    map_option (\<lambda>(r, t). (r, t\<lparr>disk_io := tool_disk ssz\<rparr>)) (writeoff_loop k sa off data pos n (s\<lparr>disk_io := lenient_disk ssz\<rparr>))"
  using assms(2)
proof (induction k arbitrary: sa off pos n s)
  case (Suc k)
  show ?case
  proof (cases "n \<le> 0")
    case False
    define m where "m = min n (ssz - off)"
    have n: "0 < n" "m \<noteq> 0" using Suc.prems False by (auto simp: m_def)
    obtain r w where w: "mock_sector_write ssz sa off (take (nat m) (drop pos data)) m (world s) = (r, w)" by (metis surj_pair)
    let ?s = "s\<lparr>world := w\<rparr>"
    have ih: "writeoff_loop k (sa + 1) 0 data (pos + nat m) (n - m) (?s\<lparr>disk_io := tool_disk ssz\<rparr>) = map_option
        (\<lambda>(r, t). (r, t\<lparr>disk_io := tool_disk ssz\<rparr>)) (writeoff_loop k (sa + 1) 0 data (pos + nat m) (n - m) (?s\<lparr>disk_io := lenient_disk ssz\<rparr>))"
      by (rule Suc.IH) (rule assms(1))
    show ?thesis using Suc.prems
      by (subst (1 2) writeoff_Suc [OF n(1), where m = m]; simp add: m_def [symmetric] call_write_on [OF n(2) _ w] ih
        del: writeoff_loop.simps)
  qed simp
qed simp

text \<open>Locking a sector area does not depend on the device.\<close>

definition onto :: "'w disk_io \<Rightarrow> ('a \<times> ('w, 'z) disk_state_scheme) option \<Rightarrow> ('a \<times> ('w, 'z) disk_state_scheme) option" where
  "onto io m = map_option (\<lambda>(r, t). (r, t\<lparr>disk_io := io\<rparr>)) m"

lemma lock_area_io: "lock_area sa sz ro (s\<lparr>disk_io := io\<rparr>) = onto io (lock_area sa sz ro s)"
  by (auto simp: lock_area_def lock_io_def unlock_io_def onto_def Let_def split: prod.splits option.splits bool.splits)

lemma unlock_area_io: "unlock_area sa sz (s\<lparr>disk_io := io\<rparr>) = onto io (unlock_area sa sz s)"
  by (auto simp: unlock_area_def lock_io_def unlock_io_def onto_def Let_def split: prod.splits)

lemma same_disk: "s\<lparr>disk_io := io\<rparr>\<lparr>disk_io := io'\<rparr> = s\<lparr>disk_io := io'\<rparr>"
  by simp

lemma DSK_alike:
  assumes "0 < ssz" "off < ssz"
  shows "DSK_readoff_sectors sa off buf n sc (s\<lparr>disk_io := tool_disk ssz\<rparr>) =
      onto (tool_disk ssz) (DSK_readoff_sectors sa off buf n sc (s\<lparr>disk_io := lenient_disk ssz\<rparr>))"
    and "DSK_writeoff_sectors sa off data n sc (s\<lparr>disk_io := tool_disk ssz\<rparr>) =
      onto (tool_disk ssz) (DSK_writeoff_sectors sa off data n sc (s\<lparr>disk_io := lenient_disk ssz\<rparr>))"
proof -
  have un: "unlock_area sa sc (t\<lparr>disk_io := tool_disk ssz\<rparr>) = onto (tool_disk ssz) (unlock_area sa sc t)" for t
    by (rule unlock_area_io)
  show "DSK_readoff_sectors sa off buf n sc (s\<lparr>disk_io := tool_disk ssz\<rparr>) =
      onto (tool_disk ssz) (DSK_readoff_sectors sa off buf n sc (s\<lparr>disk_io := lenient_disk ssz\<rparr>))"
    by (cases "lock_area sa sc READ_LOCK s")
      (auto simp: DSK_readoff_sectors_def lock_area_io onto_def readoff_alike [OF assms] un
        split: prod.splits option.splits Option.bind_splits)
  show "DSK_writeoff_sectors sa off data n sc (s\<lparr>disk_io := tool_disk ssz\<rparr>) =
      onto (tool_disk ssz) (DSK_writeoff_sectors sa off data n sc (s\<lparr>disk_io := lenient_disk ssz\<rparr>))"
    by (cases "lock_area sa sc WRITE_LOCK s")
      (auto simp: DSK_writeoff_sectors_def lock_area_io onto_def writeoff_alike [OF assms] un
        split: prod.splits option.splits Option.bind_splits)
qed

lemma flat_image:
  assumes "image_ok nsec ssz w" "a + k \<le> nsec"
  shows "flat (image_secs ssz w) a k = take (k * ssz) (drop (a * ssz) (img w))"
  using assms(2)
proof (induction k arbitrary: a)
  case (Suc k)
  then show ?case by (simp add: flat_Suc image_secs_def take_add add.commute)
qed simp

lemma splice_outside:
  assumes "p + m \<le> length f" "o' + length d \<le> m"
    and "take p g = take p f" "take m (drop p g) = splice (take m (drop p f)) o' d" "drop (p + m) g = drop (p + m) f"
  shows "g = splice f (p + o') d"
proof -
  have g: "g = take p g @ take m (drop p g) @ drop (p + m) g"
    by (metis append_take_drop_id drop_drop add.commute)
  have "take p f @ splice (take m (drop p f)) o' d @ drop (p + m) f = splice f (p + o') d"
  proof -
    let ?q = "o' + length d"
    have "drop (p + ?q) f = take (m - ?q) (drop (p + ?q) f) @ drop (m - ?q) (drop (p + ?q) f)" by (rule append_take_drop_id [symmetric])
    moreover have "m - ?q + (p + ?q) = p + m" "min m o' = o'" "min o' m = o'" using assms(2) by simp_all
    ultimately have "drop (p + ?q) f = take (m - ?q) (drop (p + ?q) f) @ drop (p + m) f" by (simp only: drop_drop)
    moreover have "take (p + o') f = take p f @ take o' (drop p f)" by (rule take_add)
    moreover have "splice (take m (drop p f)) o' d = take o' (drop p f) @ d @ take (m - ?q) (drop (p + ?q) f)"
      using \<open>min o' m = o'\<close> by (simp add: splice_def drop_take ac_simps)
    moreover have "splice f (p + o') d = take (p + o') f @ d @ drop (p + ?q) f" by (simp add: splice_def ac_simps)
    ultimately show ?thesis by (metis append.assoc)
  qed
  then show ?thesis using g assms(3-5) by metis
qed

section \<open>Transfers on the image\<close>

lemma lenient_ready:
  assumes "disk_io s = tool_disk (int ssz)" "io_areas s = idle_areas" "io_lock s = NULL_LOCK"
  shows "dsk_ready (lenient_read (int ssz)) (lenient_write (int ssz)) ssz (s\<lparr>disk_io := lenient_disk (int ssz)\<rparr>)"
    "s = s\<lparr>disk_io := tool_disk (int ssz)\<rparr>"
  using assms by (simp_all add: dsk_ready_def lenient_disk_def)

lemma image_write:
  fixes s :: "('h tool_world_scheme, 'z) disk_state_scheme"
  assumes geom: "0 < ssz" "nsec < 2 ^ 32" "nsec * ssz \<le> 2 ^ 32"
    and idle: "disk_io s = tool_disk (int ssz)" "io_areas s = idle_areas" "io_lock s = NULL_LOCK"
    and ok: "image_ok nsec ssz (world s)" and area: "unat sa + nat sc \<le> nsec"
    and off: "0 \<le> off" "off < int ssz" "nat off + length data \<le> nat sc * ssz"
  shows "\<exists>w. DSK_writeoff_sectors sa off data (int (length data)) sc s = Some (1, s\<lparr>world := w\<rparr>) \<and> image_ok nsec ssz w \<and>
    img w = splice (img (world s)) (unat sa * ssz + nat off) data"
proof -
  have dev: "block_device (lenient_read (int ssz)) (lenient_write (int ssz)) (image_ok nsec ssz) (image_secs ssz)
      nsec ssz" by (rule image_device [OF geom])
  let ?t = "s\<lparr>disk_io := lenient_disk (int ssz)\<rparr>" and ?f = "img (world s)" and ?p = "unat sa * ssz" and ?m = "nat sc * ssz"
  obtain w where w: "DSK_writeoff_sectors sa off data (int (length data)) sc ?t = Some (1, ?t\<lparr>world := w\<rparr>)" "image_ok nsec ssz w"
    "flat (image_secs ssz w) (unat sa) (nat sc) = splice (flat (image_secs ssz (world s)) (unat sa) (nat sc)) (nat off) data"
    "\<forall>i. i < unat sa \<or> unat sa + nat sc \<le> i \<longrightarrow> image_secs ssz w i = image_secs ssz (world s) i"
    using block_device.writeoff_inside [OF dev lenient_ready(1) [OF idle] _ area off(1), of "int (length data)" data] ok off(3) by auto
  have same: "flat (image_secs ssz w) a k = flat (image_secs ssz (world s)) a k" if "a + k \<le> unat sa \<or> unat sa + nat sc \<le> a" for a k
    by (rule block_device.flat_cong [OF dev]) (use w(4) that in auto)
  have len: "length (img w) = nsec * ssz" "length ?f = nsec * ssz" using ok w(2) by (simp_all add: image_ok_def)
  have fit: "?p + ?m \<le> nsec * ssz" using mult_le_mono1 [OF area, of ssz] by (simp add: add_mult_distrib)
  have "take ?p (img w) = take ?p ?f"
    using same [of 0 "unat sa"] flat_image [OF w(2), of 0 "unat sa"] flat_image [OF ok, of 0 "unat sa"] area by simp
  moreover have "take ?m (drop ?p (img w)) = splice (take ?m (drop ?p ?f)) (nat off) data"
    using w(3) flat_image [OF w(2) area] flat_image [OF ok area] by simp
  moreover have "drop (?p + ?m) (img w) = drop (?p + ?m) ?f"
  proof -
    let ?a = "unat sa + nat sc"
    have "nsec - ?a + ?a = nsec" using area by simp
    then have full: "(nsec - ?a) * ssz = nsec * ssz - (?p + ?m)" by (simp add: diff_mult_distrib add_mult_distrib)
    show ?thesis using same [of ?a "nsec - ?a"] flat_image [OF w(2), of ?a "nsec - ?a"] flat_image [OF ok, of ?a "nsec - ?a"]
      len area by (simp add: full add_mult_distrib)
  qed
  ultimately have "img w = splice ?f (?p + nat off) data" using splice_outside [of ?p ?m ?f "nat off" data "img w"] fit len off(3) by simp
  moreover have "DSK_writeoff_sectors sa off data (int (length data)) sc s = Some (1, s\<lparr>world := w\<rparr>)"
    using DSK_alike(2) [OF _ off(2), of sa data "int (length data)" sc s] w(1) geom(1) lenient_ready(2) [OF idle]
    by (cases s) (simp add: onto_def)
  ultimately show ?thesis using w(2) by blast
qed

lemma window_take:
  assumes "p + m \<le> length f" "o' + n \<le> m"
  shows "take n (drop o' (take m (drop p f))) = take n (drop (p + o') f)" "length (take n (drop o' (take m (drop p f)))) = n"
proof -
  have "min n (m - o') = n" using assms(2) by simp
  then show "take n (drop o' (take m (drop p f))) = take n (drop (p + o') f)" by (simp add: drop_take add.commute)
  show "length (take n (drop o' (take m (drop p f)))) = n" using assms by simp
qed

lemma image_read:
  fixes s :: "('h tool_world_scheme, 'z) disk_state_scheme"
  assumes geom: "0 < ssz" "nsec < 2 ^ 32" "nsec * ssz \<le> 2 ^ 32"
    and idle: "disk_io s = tool_disk (int ssz)" "io_areas s = idle_areas" "io_lock s = NULL_LOCK"
    and ok: "image_ok nsec ssz (world s)" and area: "unat sa + nat sc \<le> nsec"
    and off: "0 \<le> off" "off < int ssz" "nat off + length buf \<le> nat sc * ssz"
  shows "\<exists>w. DSK_readoff_sectors sa off buf (int (length buf)) sc s =
      Some ((1, take (length buf) (drop (unat sa * ssz + nat off) (img (world s)))), s\<lparr>world := w\<rparr>) \<and> img w = img (world s)"
proof -
  have dev: "block_device (lenient_read (int ssz)) (lenient_write (int ssz)) (image_ok nsec ssz) (image_secs ssz)
      nsec ssz" by (rule image_device [OF geom])
  let ?t = "s\<lparr>disk_io := lenient_disk (int ssz)\<rparr>" and ?f = "img (world s)" and ?p = "unat sa * ssz" and ?m = "nat sc * ssz"
  let ?d = "take (length buf) (drop (nat off) (flat (image_secs ssz (world s)) (unat sa) (nat sc)))"
  obtain w where w: "DSK_readoff_sectors sa off buf (int (length buf)) sc ?t = Some ((1, splice buf 0 ?d), ?t\<lparr>world := w\<rparr>)"
    "image_ok nsec ssz w" "image_secs ssz w = image_secs ssz (world s)"
    using block_device.readoff_ready [OF dev lenient_ready(1) [OF idle] _ area off(1), of "int (length buf)" buf] ok by auto
  have all: "img v = flat (image_secs ssz v) 0 nsec" if "image_ok nsec ssz v" for v :: "'h tool_world_scheme"
    using flat_image [OF that, of 0 nsec] that by (simp add: image_ok_def)
  have "?p + ?m \<le> length ?f" using mult_le_mono1 [OF area, of ssz] ok by (simp add: add_mult_distrib image_ok_def)
  then have "?d = take (length buf) (drop (?p + nat off) ?f)" "length ?d = length buf"
    using window_take [OF _ off(3), of ?p ?f] unfolding flat_image [OF ok area] by simp_all
  moreover from this(2) have "splice buf 0 ?d = ?d" by (simp add: splice_def)
  ultimately have "DSK_readoff_sectors sa off buf (int (length buf)) sc s =
      Some ((1, take (length buf) (drop (?p + nat off) ?f)), s\<lparr>world := w\<rparr>)"
    using DSK_alike(1) [OF _ off(2), of sa buf "int (length buf)" sc s] w(1) geom(1) lenient_ready(2) [OF idle]
    by (cases s) (simp add: onto_def)
  then show ?thesis using all [OF w(2)] all [OF ok] w(3) by metis
qed

lemma border_refused:
  fixes s :: "('h tool_world_scheme, 'z) disk_state_scheme"
  assumes idle: "disk_io s = tool_disk (int ssz)" "io_areas s = idle_areas" "io_lock s = NULL_LOCK" and n: "0 < n" "0 < sc"
  shows "DSK_writeoff_sectors sa (int ssz) data n sc s = Some (0, s)"
    "DSK_readoff_sectors sa (int ssz) buf n sc s = Some ((0, buf), s)"
proof -
  obtain k where k: "nat sc = Suc k" using n(2) gr0_conv_Suc zero_less_nat_eq by metis
  have p: "poke buf 0 [] = Some buf" by (simp add: poke_def)
  show "DSK_writeoff_sectors sa (int ssz) data n sc s = Some (0, s)"
    using idle n(1) by (cases s) (simp add: DSK_writeoff_sectors_def k call_write_def tool_disk_def mock_sector_write_def)
  show "DSK_readoff_sectors sa (int ssz) buf n sc s = Some ((0, buf), s)"
    using idle n(1) p by (cases s) (simp add: DSK_readoff_sectors_def k call_read_def tool_disk_def mock_sector_read_def)
qed

section \<open>Properties\<close>

text \<open>C40 (the image file as the disk). On an image of at most 4 GB, a transfer of the disk layer that
  begins inside the first sector of its area is stored in the file at its address and read back. A
  transfer that begins exactly at the end of that sector first makes one of no byte, for which
  \<open>pread\<close> and \<open>pwrite\<close> return 0, and is refused.\<close>

theorem image_disk:
  fixes s :: "('h tool_world_scheme, 'z) disk_state_scheme"
  assumes geom: "0 < ssz" "nsec < 2 ^ 32" "nsec * ssz \<le> 2 ^ 32"
    and idle: "disk_io s = tool_disk (int ssz)" "io_areas s = idle_areas" "io_lock s = NULL_LOCK"
    and file_fits: "length (img (world s)) = nsec * ssz" "unat sa + nat sc \<le> nsec" "0 < sc"
    and n: "0 < length data" "length buf = length data"
  shows "(0 \<le> off \<and> off < int ssz \<and> nat off + length data \<le> nat sc * ssz \<longrightarrow>
      (\<exists>s' s''. DSK_writeoff_sectors sa off data (int (length data)) sc s = Some (1, s') \<and>
        DSK_readoff_sectors sa off buf (int (length data)) sc s' = Some ((1, data), s'') \<and>
        img (world s') = splice (img (world s)) (unat sa * ssz + nat off) data \<and> img (world s'') = img (world s'))) \<and>
    DSK_writeoff_sectors sa (int ssz) data (int (length data)) sc s = Some (0, s) \<and>
    DSK_readoff_sectors sa (int ssz) buf (int (length data)) sc s = Some ((0, buf), s)"
proof (intro conjI impI)
  assume off: "0 \<le> off \<and> off < int ssz \<and> nat off + length data \<le> nat sc * ssz"
  have ok: "image_ok nsec ssz (world s)" using file_fits(1) by (simp add: image_ok_def)
  obtain w where w: "DSK_writeoff_sectors sa off data (int (length data)) sc s = Some (1, s\<lparr>world := w\<rparr>)" "image_ok nsec ssz w"
    "img w = splice (img (world s)) (unat sa * ssz + nat off) data"
    using image_write [OF geom idle ok file_fits(2), of off data] off by blast
  have "unat sa * ssz + nat sc * ssz \<le> nsec * ssz" using mult_le_mono1 [OF file_fits(2), of ssz] by (simp add: add_mult_distrib)
  then have fit: "(unat sa * ssz + nat off) + length data \<le> length (img (world s))" using off file_fits(1) by linarith
  obtain w' where "DSK_readoff_sectors sa off buf (int (length buf)) sc (s\<lparr>world := w\<rparr>) =
      Some ((1, take (length buf) (drop (unat sa * ssz + nat off) (img w))), s\<lparr>world := w'\<rparr>)" "img w' = img w"
    using image_read [OF geom, of "s\<lparr>world := w\<rparr>" sa sc off buf] idle w(2) file_fits(2) off n(2) by auto
  then show "\<exists>s' s''. DSK_writeoff_sectors sa off data (int (length data)) sc s = Some (1, s') \<and>
      DSK_readoff_sectors sa off buf (int (length data)) sc s' = Some ((1, data), s'') \<and>
      img (world s') = splice (img (world s)) (unat sa * ssz + nat off) data \<and> img (world s'') = img (world s')"
    using w(1,3) n(2) splice_read [OF fit] by (intro exI [of _ "s\<lparr>world := w\<rparr>"] exI [of _ "s\<lparr>world := w'\<rparr>"]) simp
qed (use border_refused [OF idle] n(1) file_fits(3) in simp_all)

text \<open>An image of two sectors of four bytes.\<close>

definition tool0 :: "tool_world disk_state" where
  "tool0 = \<lparr>world = \<lparr>img = replicate 8 0\<rparr>, mm_manager = \<lparr>mgr_init = Builtin, mgr_malloc = Builtin, mgr_free = Builtin\<rparr>,
     mm_heap = (\<lambda>_. None), mm_allocated = 0, malloc_lock = NULL_LOCK, disk_io = tool_disk 4, io_areas = idle_areas, io_lock = NULL_LOCK\<rparr>"

theorem image_disk_witness:
  "(\<exists>s' s''. DSK_writeoff_sectors 0 3 [7, 8, 9] 3 2 tool0 = Some (1, s') \<and> img (world s') = [0, 0, 0, 7, 8, 9, 0, 0] \<and>
     DSK_readoff_sectors 0 3 [0, 0, 0] 3 2 s' = Some ((1, [7, 8, 9]), s'')) \<and>
   DSK_readoff_sectors 0 4 [0, 0, 0] 3 2 tool0 = Some ((0, [0, 0, 0]), tool0)"
proof -
  have s: "disk_io tool0 = tool_disk (int 4)" "io_areas tool0 = idle_areas" "io_lock tool0 = NULL_LOCK" "length (img (world tool0)) = 2 * 4"
    by (simp_all add: tool0_def)
  have sp: "splice (img (world tool0)) 3 [7, 8, 9] = [0, 0, 0, 7, 8, 9, 0, 0]" by (simp add: tool0_def splice_def eval_nat_numeral)
  show ?thesis using image_disk [OF _ _ _ s, of 0 2 "[7, 8, 9]" "[0, 0, 0]" 3] sp by simp blast
qed

text \<open>\<open>cd\<close> goes down to a directory that exists, and \<open>cd ..\<close> comes back. From a path of no or of
  more than one character, \<open>cd\<close> with a name asks for the path with the name in capitals behind it;
  when the volume has it this is the new path, and the path is the old one again when it has not,
  or after \<open>cd ..\<close>. From a path of one character the name is glued to it without a separator and
  both lead back to the root.\<close>

theorem cd_down_up:
  fixes s :: "('w, 'z) nifat_state_scheme"
  assumes path: "c_str (sh_path sh) = Some c" "length (sh_path sh) = 256"
    and arg: "cmds ! 1 = Some tok" "c_str tok = Some a" "a \<noteq> ascii ''..''" "PATH_SPLITTER \<notin> set a" "length a < 24"
    and room: "length c + length a < 255"
    and up: "ups ! 1 = Some tok2" "c_str tok2 = Some (ascii ''..'')"
  shows "let d = (if length c > 1 then c @ [PATH_SPLITTER] else c) @ map toupper_c a; c0 = (if length c = 1 then [] else c) in
    \<exists>p. c_str p = Some d \<and> (\<forall>r s'. NIFAT32_content_exists p s = Some (r, s') \<longrightarrow>
      (\<exists>sh'. cmd_cd cmds sh s = Some (sh', s') \<and> sh_out sh' = sh_out sh \<and> length (sh_path sh') = 256 \<and>
        c_str (sh_path sh') = Some (if r = 0 then c0 else d) \<and>
        (r \<noteq> 0 \<longrightarrow> (\<exists>sh''. cmd_cd ups sh' s' = Some (sh'', s') \<and> sh_out sh'' = sh_out sh \<and> c_str (sh_path sh'') = Some c0))))"
proof -
  let ?A = "map toupper_c a" and ?e = "if length c > 1 then c @ [PATH_SPLITTER] else c" and ?c0 = "if length c = 1 then [] else c"
  have noA: "PATH_SPLITTER \<notin> set ?A" using arg(4) by (metis image_iff set_map toupper_splitter)
  have parent: "parent_path (?e @ ?A) = ?c0"
    using parent_path_join [OF noA, of c] parent_path_plain [OF noA] parent_path_single [OF _ noA, of c]
    by (cases "length c > 1"; cases c) auto
  obtain p1 where p1: "add_slash (sh_path sh) (sh_path sh) = Some p1" "length p1 = 256" "c_str p1 = Some ?e"
    using add_slash_ok [OF path(1,1)] room path(2) by auto
  obtain b f where f: "strcpy_c (replicate 24 0) tok = Some b" "nft32_str_uppercase (Some b) = Some (True, Some f)" "c_str f = Some ?A"
    using upper_name [OF arg(2,5)] by blast
  obtain p where p: "strcat_c p1 f = Some p" "length p = 256" "c_str p = Some (?e @ ?A)"
  proof -
    have "length ?e \<le> length c + 1" by simp
    then have "length ?e + length ?A < length p1" using room p1(2) unfolding length_map by linarith
    then show ?thesis using strcat_c_ok [OF p1(3) f(3)] p1(2) that by auto
  qed
  obtain q where q: "cd_upper p = Some q" "length q = 256" "c_str q = Some ?c0"
    using cd_upper_ok [OF p(3)] p(2) parent by auto
  have "cmd_cd cmds sh s = Some (sh\<lparr>sh_path := if r = 0 then q else p\<rparr>, s')"
    if "NIFAT32_content_exists p s = Some (r, s')" for r s'
    using that arg(1-3) p1(1) f(1,2) p(1) q(1) by (simp add: cmd_cd_def)
  moreover have "cmd_cd ups (sh\<lparr>sh_path := p\<rparr>) s' = Some (sh\<lparr>sh_path := q\<rparr>, s')" for s' :: "('w, 'z) nifat_state_scheme"
    using up q(1) by (simp add: cmd_cd_def)
  ultimately show ?thesis using p(2,3) q(2,3) unfolding Let_def by (intro exI [of _ p]) auto
qed

theorem cd_down_up_witness:
  "\<exists>sh'. cmd_cd [None, Some [98, 105, 110, 0]] \<lparr>sh_out = [], sh_path = [85, 83, 82, 0] @ replicate 252 0, sh_stack = []\<rparr>
     (file_start\<lparr>fs_api_lock := LOCK_PACK 0 True 3\<rparr>) = Some (sh', file_start\<lparr>fs_api_lock := LOCK_PACK 0 True 3\<rparr>) \<and>
     c_str (sh_path sh') = Some [85, 83, 82]"
proof -
  let ?s = "file_start\<lparr>fs_api_lock := LOCK_PACK 0 True 3\<rparr>" and ?sh = "\<lparr>sh_out = [], sh_path = [85, 83, 82, 0] @ replicate 252 0, sh_stack = []\<rparr>"
  have str: "c_str (sh_path ?sh) = Some [85, 83, 82]" "c_str [98, 105, 110, 0] = Some [98, 105, 110]"
    "c_str [46, 46, 0] = Some (ascii ''..'')" by (simp_all add: c_str_def ascii_def)
  have busy: "NIFAT32_content_exists p ?s = Some (0, ?s)" for p
    using fs_api_busy(1) [of ?s] by (simp add: NIFAT32_content_exists_def api_busy_def)
  show ?thesis
    using cd_down_up [OF str(1), of "[None, Some [98, 105, 110, 0]]" "[98, 105, 110, 0]" "[98, 105, 110]"
        "[None, Some [46, 46, 0]]" "[46, 46, 0]" ?s] str(2,3) busy
    by (fastforce simp: ascii_def PATH_SPLITTER_def)
qed

end
