(* ===== verification/Mounting.thy ===== *)
theory Mounting
  imports Filedata Errlog Formatter
begin

text \<open>
  Theorems on mounting (\<open>Mount\<close>): how \<open>NIFAT32_init\<close> falls back over damaged copies of the boot
  sector and rewrites them.
\<close>

section \<open>Whole sectors\<close>

context block_device begin

lemma read_sector_ok:
  assumes "dsk_ready rd wr ssz s" "wf (world s)" "unat sa < nsec" "length buf = ssz"
  shows "\<exists>w. DSK_read_sector sa buf (int ssz) s = Some ((1, secs (world s) (unat sa)), s\<lparr>world := w\<rparr>) \<and> wf w \<and> secs w = secs (world s)"
proof -
  have len: "length (secs (world s) (unat sa)) = ssz" using secs_length [OF assms(2,3)] .
  obtain w where w: "rd sa 0 (int ssz) (world s) = (1, secs (world s) (unat sa), w)" "wf w" "secs w = secs (world s)"
    using rd_ok [OF assms(2,3), of 0 "int ssz"] len by auto
  have "poke buf 0 (secs (world s) (unat sa)) = Some (secs (world s) (unat sa))" using len assms(4) by (simp add: poke_def splice_def)
  then show ?thesis using assms(1) w
    by (intro exI [of _ w]) (cases s, simp add: DSK_read_sector_def call_read_def dsk_ready_def)
qed

lemma write_sector_ok:
  assumes "dsk_ready rd wr ssz s" "wf (world s)" "unat sa < nsec" "length data = ssz"
  shows "\<exists>w. DSK_write_sector sa data (int ssz) s = Some (1, s\<lparr>world := w\<rparr>) \<and> wf w \<and> secs w = (secs (world s))(unat sa := data)"
proof -
  have len: "length (secs (world s) (unat sa)) = ssz" using secs_length [OF assms(2,3)] .
  obtain w where w: "wr sa 0 data (int ssz) (world s) = (1, w)" "wf w" "secs w = (secs (world s))(unat sa := splice (secs (world s) (unat sa)) 0 data)"
    using wr_ok [OF assms(2,3), of 0 "int ssz" data] assms(4) by auto
  have "splice (secs (world s) (unat sa)) 0 data = data" using len assms(4) by (simp add: splice_def)
  then show ?thesis using assms(1,4) w
    by (intro exI [of _ w]) (cases s, simp add: DSK_write_sector_def call_write_def dsk_ready_def)
qed

end

section \<open>One attempt\<close>

text \<open>What an attempt needs of the state, and the settings of a plain mount: no error ring, no
  caches, no journals, the built-in allocator.\<close>

definition mount_ready :: "('w \<Rightarrow> bool) \<Rightarrow> ('w, 'z) nifat_state_scheme \<Rightarrow> bool" where
  "mount_ready good s = (good (world s) \<and> fs_api_lock s = NULL_LOCK \<and> errors_lock s = NULL_LOCK \<and> io_lock s = NULL_LOCK \<and>
     mm_heap s mm_head \<noteq> None)"

definition plain_params :: "'w read_fun \<Rightarrow> 'w write_fun \<Rightarrow> nat \<Rightarrow> nat \<Rightarrow> 'w nifat32_params_t \<Rightarrow> bool" where
  "plain_params rd wr nsec ssz p = (p_disk_io p = \<lparr>read_sector = Some rd, write_sector = Some wr, sector_size = int ssz\<rparr> \<and>
     p_ec p = 0 \<and> p_jc p = 0 \<and> p_fat_cache p AND CACHE = 0 \<and> p_mm_init p = None \<and>
     (\<forall>i < p_bs_count p. \<exists>sa. GET_BOOTSECTOR (ucast i) (p_ts p) = Some sa \<and> unat sa < nsec))"

definition boot_at :: "'w nifat32_params_t \<Rightarrow> byte \<Rightarrow> nat" where
  "boot_at p i = unat (the (GET_BOOTSECTOR (ucast i) (p_ts p)))"

text \<open>The fields an attempt sets before it looks at the sector.\<close>

definition mount_base :: "'w nifat32_params_t \<Rightarrow> fat_data \<Rightarrow> fat_data" where
  "mount_base p fi = fi\<lparr>errors_count := p_ec p, bs_count := p_bs_count p\<rparr>"

lemma errors_off:
  assumes "errors_count (fs_data s) = 0" "errors_lock s = NULL_LOCK"
  shows "\<exists>e. api_error c s = Some (1, s\<lparr>errors_ring := e\<rparr>)"
  using assms by (cases s) (simp add: api_error_def errors_register_error_def write_error_def dump_info_def Let_def)

lemma init_io_plain:
  assumes "plain_params rd wr nsec ssz p" "p_bs_num p < p_bs_count p" "0 < ssz" "io_lock s = NULL_LOCK" "mm_heap s mm_head \<noteq> None"
  shows "\<exists>h. init_io p s = Some (1, s\<lparr>mm_manager := \<lparr>mgr_init = Builtin, mgr_malloc = fptr_or (p_mm_malloc p), mgr_free = fptr_or (p_mm_free p)\<rparr>,
    mm_heap := h, disk_io := p_disk_io p, io_areas := idle_areas, fs_data := (fs_data s)\<lparr>errors_count := 0\<rparr>\<rparr>) \<and> h mm_head \<noteq> None"
proof -
  obtain b where b: "mm_heap s mm_head = Some b" using assms(5) by blast
  show ?thesis
    using assms b by (cases s) (auto simp: init_io_def plain_params_def nft32_setup_mm_manager_def nft32_mm_init_def mm_init_def
      put_block_def DSK_setup_def fptr_or_def not_le)
qed

lemma init_read_plain:
  assumes dev: "block_device rd wr good secs nsec ssz" and p: "plain_params rd wr nsec ssz p" "p_bs_num p < p_bs_count p"
    and s: "dsk_ready rd wr ssz s" "good (world s)"
  shows "\<exists>w. init_read p s = Some (Some (secs (world s) (boot_at p (p_bs_num p))),
      s\<lparr>world := w, fs_data := (fs_data s)\<lparr>bs_count := p_bs_count p\<rparr>\<rparr>) \<and> good w \<and> secs w = secs (world s)"
proof -
  obtain sa where sa: "GET_BOOTSECTOR (ucast (p_bs_num p)) (p_ts p) = Some sa" "unat sa < nsec"
    using p by (auto simp: plain_params_def)
  let ?s = "s\<lparr>fs_data := (fs_data s)\<lparr>bs_count := p_bs_count p\<rparr>\<rparr>"
  have "dsk_ready rd wr ssz ?s" "good (world ?s)" using s by (simp_all add: dsk_ready_def)
  then obtain w where w: "DSK_read_sector sa (replicate ssz 0) (int ssz) ?s = Some ((1, secs (world s) (unat sa)), ?s\<lparr>world := w\<rparr>)"
    "good w" "secs w = secs (world s)"
    using block_device.read_sector_ok [OF dev _ _ sa(2), of ?s "replicate ssz 0"] by auto
  have "p_disk_io p = \<lparr>read_sector = Some rd, write_sector = Some wr, sector_size = int ssz\<rparr>" using p(1) by (simp add: plain_params_def)
  then have "init_read p s = Some (Some (secs (world s) (boot_at p (p_bs_num p))),
      s\<lparr>world := w, fs_data := (fs_data s)\<lparr>bs_count := p_bs_count p\<rparr>\<rparr>)"
    using w(1) sa(1) by (cases s) (simp add: init_read_def boot_at_def)
  then show ?thesis using w(2,3) by blast
qed

text \<open>The part of an attempt that comes before the checksums.\<close>

definition attempt_state :: "'w nifat32_params_t \<Rightarrow> ('w \<Rightarrow> bool) \<Rightarrow> 'w read_fun \<Rightarrow> 'w write_fun \<Rightarrow> ('w \<Rightarrow> nat \<Rightarrow> byte list) \<Rightarrow> nat \<Rightarrow>
    ('w, 'z) nifat_state_scheme \<Rightarrow> ('w, 'z) nifat_state_scheme \<Rightarrow> bool" where
  "attempt_state p good rd wr secs ssz s s1 = (dsk_ready rd wr ssz s1 \<and> good (world s1) \<and> secs (world s1) = secs (world s) \<and>
     fs_api_lock s1 = HELD \<and> errors_lock s1 = NULL_LOCK \<and> mm_heap s1 mm_head \<noteq> None \<and> fs_data s1 = mount_base p (fs_data s) \<and>
     content_table s1 = content_table s)"

lemma attempt:
  assumes dev: "block_device rd wr good secs nsec ssz" and p: "plain_params rd wr nsec ssz p" "p_bs_num p < p_bs_count p"
    and s: "mount_ready good s"
  shows "\<exists>s0 s1. init_io p (s\<lparr>fs_api_lock := HELD\<rparr>) = Some (1, s0) \<and>
    init_read p s0 = Some (Some (secs (world s) (boot_at p (p_bs_num p))), s1) \<and> attempt_state p good rd wr secs ssz s s1"
proof -
  let ?s = "s\<lparr>fs_api_lock := HELD\<rparr>"
  have pos: "0 < ssz" using block_device.ssz_pos [OF dev] .
  have m: "io_lock ?s = NULL_LOCK" "mm_heap ?s mm_head \<noteq> None" "good (world s)" "errors_lock s = NULL_LOCK"
    using s by (simp_all add: mount_ready_def)
  have io: "p_disk_io p = \<lparr>read_sector = Some rd, write_sector = Some wr, sector_size = int ssz\<rparr>" "p_ec p = 0"
    using p(1) by (simp_all add: plain_params_def)
  obtain h where h: "init_io p ?s = Some (1, ?s\<lparr>mm_manager := \<lparr>mgr_init = Builtin, mgr_malloc = fptr_or (p_mm_malloc p), mgr_free = fptr_or (p_mm_free p)\<rparr>,
      mm_heap := h, disk_io := p_disk_io p, io_areas := idle_areas, fs_data := (fs_data s)\<lparr>errors_count := 0\<rparr>\<rparr>)" (is "_ = Some (1, ?s0)") "h mm_head \<noteq> None"
    using init_io_plain [OF p pos m(1,2)] by auto
  have "dsk_ready rd wr ssz ?s0" "good (world ?s0)" using m io by (simp_all add: dsk_ready_def)
  then obtain w where w: "init_read p ?s0 = Some (Some (secs (world s) (boot_at p (p_bs_num p))),
      ?s0\<lparr>world := w, fs_data := (fs_data ?s0)\<lparr>bs_count := p_bs_count p\<rparr>\<rparr>)" (is "_ = Some (_, ?s1)") "good w" "secs w = secs (world s)"
    using init_read_plain [OF dev p, of ?s0] by auto
  have "attempt_state p good rd wr secs ssz s ?s1"
    using m io h(2) w(2,3) by (simp add: attempt_state_def dsk_ready_def mount_base_def)
  then show ?thesis using h(1) w(1) by blast
qed

lemma lock_api_ready: "mount_ready good s \<Longrightarrow> lock_api s = Some (1, s\<lparr>fs_api_lock := HELD\<rparr>)"
  by (simp add: mount_ready_def)

text \<open>A copy whose checksums fail starts the next attempt.\<close>

lemma init_damaged:
  assumes dev: "block_device rd wr good secs nsec ssz" and p: "plain_params rd wr nsec ssz p" "p_bs_num p < p_bs_count p"
    and s: "mount_ready good s" and bad: "unpack_bs (secs (world s) (boot_at p (p_bs_num p))) = Some b" "\<not> bs_valid b"
  shows "\<exists>s'. NIFAT32_init p s = NIFAT32_init (p\<lparr>p_bs_num := p_bs_num p + 1\<rparr>) s' \<and> mount_ready good s' \<and>
    secs (world s') = secs (world s) \<and> fs_data s' = mount_base p (fs_data s) \<and> content_table s' = content_table s"
proof -
  obtain s0 s1 where a: "init_io p (s\<lparr>fs_api_lock := HELD\<rparr>) = Some (1, s0)"
    "init_read p s0 = Some (Some (secs (world s) (boot_at p (p_bs_num p))), s1)" "attempt_state p good rd wr secs ssz s s1"
    using attempt [OF dev p s] by blast
  have s1: "errors_count (fs_data s1) = 0" "errors_lock s1 = NULL_LOCK" "fs_api_lock s1 = HELD"
    using a(3) p(1) by (simp_all add: attempt_state_def mount_base_def plain_params_def)
  obtain e where e: "api_error CHECKSUM_CHECK_ERROR s1 = Some (1, s1\<lparr>errors_ring := e\<rparr>)" using errors_off [OF s1(1,2)] by blast
  let ?t = "s1\<lparr>errors_ring := e, fs_api_lock := NULL_LOCK\<rparr>"
  have "NIFAT32_init p s = NIFAT32_init (p\<lparr>p_bs_num := p_bs_num p + 1\<rparr>) ?t"
    using a(1,2) bad e s1(3) lock_api_ready [OF s] by (subst NIFAT32_init.simps) simp
  moreover have "mount_ready good ?t" using a(3) by (simp add: attempt_state_def mount_ready_def dsk_ready_def)
  ultimately show ?thesis using a(3) by (intro exI [of _ ?t]) (simp add: attempt_state_def)
qed

section \<open>The mount on a good copy\<close>

text \<open>Rewriting the copies: every copy but the one that was read gets its bytes.\<close>

lemma restore_boot_ok:
  assumes dev: "block_device rd wr good secs nsec ssz" and p: "plain_params rd wr nsec ssz p"
    and n: "unat i + n \<le> unat (p_bs_count p)"
    and s: "dsk_ready rd wr ssz s" "good (world s)" "length data = ssz"
  shows "\<exists>w. restore_boot_loop n i data p s = Some ((), s\<lparr>world := w\<rparr>) \<and> good w \<and>
    secs w = (\<lambda>x. if \<exists>j. unat i \<le> unat j \<and> unat j < unat i + n \<and> j \<noteq> p_bs_num p \<and> x = boot_at p j then data else secs (world s) x)"
  using n s
proof (induction n arbitrary: i s)
  case (Suc n)
  have lt: "i < p_bs_count p" using Suc.prems(1) by (simp add: word_less_nat_alt)
  have "unat (p_bs_count p) < 2 ^ 8" by (rule order_less_le_trans [OF unsigned_less]) simp
  then have nxt: "unat (i + 1) = unat i + 1" using Suc.prems(1) by (simp add: unat_word_ariths)
  have split: "(\<exists>j. unat i \<le> unat j \<and> unat j < unat i + Suc n \<and> P j) \<longleftrightarrow> P i \<or> (\<exists>j. unat (i + 1) \<le> unat j \<and> unat j < unat (i + 1) + n \<and> P j)" for P
  proof -
    have "unat i \<le> unat j \<longleftrightarrow> j = i \<or> unat (i + 1) \<le> unat j" for j unfolding nxt using word_unat_eq_iff [of j i] by (auto simp del: unsigned_word_eqI)
    then show ?thesis using nxt by auto
  qed
  show ?case
  proof (cases "i = p_bs_num p")
    case True
    obtain w where w: "restore_boot_loop n (i + 1) data p s = Some ((), s\<lparr>world := w\<rparr>)" "good w"
      "secs w = (\<lambda>x. if \<exists>j. unat (i + 1) \<le> unat j \<and> unat j < unat (i + 1) + n \<and> j \<noteq> p_bs_num p \<and> x = boot_at p j then data else secs (world s) x)"
      using Suc.IH [of "i + 1" s] Suc.prems nxt by auto
    show ?thesis unfolding split using w True by (intro exI [of _ w]) simp
  next
    case False
    obtain sa where sa: "GET_BOOTSECTOR (ucast i) (p_ts p) = Some sa" "unat sa < nsec"
      using p lt by (auto simp: plain_params_def)
    obtain v where v: "DSK_write_sector sa data (int ssz) s = Some (1, s\<lparr>world := v\<rparr>)" "good v" "secs v = (secs (world s))(boot_at p i := data)"
      using block_device.write_sector_ok [OF dev Suc.prems(2,3) sa(2) Suc.prems(4)] sa(1) by (auto simp: boot_at_def)
    obtain w where w: "restore_boot_loop n (i + 1) data p (s\<lparr>world := v\<rparr>) = Some ((), s\<lparr>world := w\<rparr>)" "good w"
      "secs w = (\<lambda>x. if \<exists>j. unat (i + 1) \<le> unat j \<and> unat j < unat (i + 1) + n \<and> j \<noteq> p_bs_num p \<and> x = boot_at p j then data else secs v x)"
      using Suc.IH [of "i + 1" "s\<lparr>world := v\<rparr>"] Suc.prems nxt v(2) by (auto cong: if_cong)
    have "sector_size (p_disk_io p) = int ssz" using p by (simp add: plain_params_def)
    then show ?thesis unfolding split using w sa(1) v(1,3) False by (intro exI [of _ w]) (auto simp: fun_eq_iff)
  qed
next
  case (0 i s)
  then show ?case by (intro exI [of _ "world s"]) (auto simp: fun_eq_iff)
qed

lemma load_geometry_counts: "load_geometry jc b fi = Some fi' \<Longrightarrow> journals_count fi' = jc \<and> errors_count fi' = errors_count fi \<and> bs_count fi' = bs_count fi"
  by (auto simp: load_geometry_def Let_def Option.bind_eq_Some_conv)

lemma load_geometry_defined: "bs_bytes_per_sector b \<noteq> 0 \<Longrightarrow> \<exists>fi'. load_geometry jc b fi = Some fi'"
  by (simp add: load_geometry_def root_dir_sectors_def Let_def)

text \<open>The sectors after a mount that read copy \<open>k\<close>: untouched for the first copy, otherwise every other
  copy has its bytes.\<close>

definition boot_restored :: "'w nifat32_params_t \<Rightarrow> byte \<Rightarrow> (nat \<Rightarrow> byte list) \<Rightarrow> nat \<Rightarrow> byte list" where
  "boot_restored p k sec x = (if 0 < k \<and> (\<exists>j < p_bs_count p. x = boot_at p j) then sec (boot_at p k) else sec x)"

lemma init_good:
  assumes dev: "block_device rd wr good secs nsec ssz" and p: "plain_params rd wr nsec ssz p" "p_bs_num p < p_bs_count p"
    and s: "mount_ready good s" and b: "unpack_bs (secs (world s) (boot_at p (p_bs_num p))) = Some b" "bs_valid b" "bs_bytes_per_sector b \<noteq> 0"
  shows "\<exists>s' fi. NIFAT32_init p s = Some ((1, p), s') \<and> mount_ready good s' \<and> load_geometry 0 b (mount_base p (fs_data s)) = Some fi \<and>
    fs_data s' = fi \<and> secs (world s') = boot_restored p (p_bs_num p) (secs (world s)) \<and>
    content_table s' = map (\<lambda>c. c\<lparr>ct_type := CONTENT_TYPE_EMPTY, ct_index := NO_ECACHE\<rparr>) (content_table s)"
proof -
  obtain s0 s1 where a: "init_io p (s\<lparr>fs_api_lock := HELD\<rparr>) = Some (1, s0)"
    "init_read p s0 = Some (Some (secs (world s) (boot_at p (p_bs_num p))), s1)" "attempt_state p good rd wr secs ssz s s1"
    using attempt [OF dev p s] by blast
  let ?d = "secs (world s) (boot_at p (p_bs_num p))" and ?k = "p_bs_num p"
  obtain fi where fi: "load_geometry 0 b (mount_base p (fs_data s)) = Some fi" using load_geometry_defined [OF b(3)] by blast
  have plain: "p_jc p = 0" "p_fat_cache p AND CACHE = 0" using p(1) by (simp_all add: plain_params_def)
  have s1: "fs_data s1 = mount_base p (fs_data s)" "fs_api_lock s1 = HELD" "dsk_ready rd wr ssz s1" "good (world s1)" "errors_lock s1 = NULL_LOCK"
    "mm_heap s1 mm_head \<noteq> None" "content_table s1 = content_table s" "secs (world s1) = secs (world s)"
    using a(3) by (simp_all add: attempt_state_def)
  obtain sa where sa: "GET_BOOTSECTOR (ucast ?k) (p_ts p) = Some sa" "unat sa < nsec" using p by (auto simp: plain_params_def)
  have len: "length ?d = ssz" using block_device.secs_length [OF dev s1(4), of "unat sa"] s1(8) sa by (simp add: boot_at_def)
  let ?t = "s1\<lparr>fs_data := fi\<rparr>"
  obtain w where w: "(if 0 < ?k then restore_boot_loop (unat (p_bs_count p)) 0 ?d p ?t else Some ((), ?t)) = Some ((), ?t\<lparr>world := w\<rparr>)"
    "good w" "secs w = boot_restored p ?k (secs (world s))"
  proof (cases "0 < ?k")
    case True
    obtain w where w: "restore_boot_loop (unat (p_bs_count p)) 0 ?d p ?t = Some ((), ?t\<lparr>world := w\<rparr>)" "good w"
      "secs w = (\<lambda>x. if \<exists>j. unat 0 \<le> unat j \<and> unat j < unat 0 + unat (p_bs_count p) \<and> j \<noteq> ?k \<and> x = boot_at p j then ?d else secs (world ?t) x)"
      using restore_boot_ok [OF dev p(1), of 0 "unat (p_bs_count p)" ?t ?d] s1 len by (auto simp: dsk_ready_def)
    then have "secs w = boot_restored p ?k (secs (world s))"
      using True s1(8) p(2) by (auto simp: boot_restored_def fun_eq_iff word_less_nat_alt)
    then show thesis using that [of w] w True by simp
  next
    case False
    then show thesis using that [of "world s1"] s1 by (simp add: boot_restored_def fun_eq_iff)
  qed
  let ?u = "?t\<lparr>world := w, content_table := map (\<lambda>c. c\<lparr>ct_type := CONTENT_TYPE_EMPTY, ct_index := NO_ECACHE\<rparr>) (content_table s), fs_api_lock := NULL_LOCK\<rparr>"
  have "init_finish p ?d b s1 = Some (1, ?u)"
    using w(1) plain s1(1,2,7) fi by (simp add: init_finish_def init_caches_def ctable_init_def)
  then have "NIFAT32_init p s = Some ((1, p), ?u)"
    using a(1,2) b(1,2) lock_api_ready [OF s] by (subst NIFAT32_init.simps) simp
  moreover have "mount_ready good ?u" using s1 w(2) by (simp add: mount_ready_def dsk_ready_def)
  ultimately show ?thesis using fi w(3) by (intro exI [of _ ?u] exI [of _ fi]) simp
qed

section \<open>The fallback\<close>

lemma params_num [simp]:
  "plain_params rd wr nsec ssz (p\<lparr>p_bs_num := j\<rparr>) = plain_params rd wr nsec ssz p" "boot_at (p\<lparr>p_bs_num := j\<rparr>) i = boot_at p i"
  "mount_base (p\<lparr>p_bs_num := j\<rparr>) fi = mount_base p fi" "boot_restored (p\<lparr>p_bs_num := j\<rparr>) i sec = boot_restored p i sec"
  by (auto simp: plain_params_def boot_at_def mount_base_def boot_restored_def fun_eq_iff)

lemma mount_base_twice [simp]: "mount_base p (mount_base p fi) = mount_base p fi"
  by (simp add: mount_base_def)

lemma init_skips:
  assumes dev: "block_device rd wr good secs nsec ssz" and p: "plain_params rd wr nsec ssz p" "k \<le> p_bs_count p"
    and s: "mount_ready good s"
    and bad: "\<forall>i < k. \<exists>b. unpack_bs (secs (world s) (boot_at p i)) = Some b \<and> \<not> bs_valid b"
  shows "\<exists>s'. NIFAT32_init (p\<lparr>p_bs_num := 0\<rparr>) s = NIFAT32_init (p\<lparr>p_bs_num := k\<rparr>) s' \<and> mount_ready good s' \<and>
    secs (world s') = secs (world s) \<and> mount_base p (fs_data s') = mount_base p (fs_data s) \<and> content_table s' = content_table s"
proof -
  have "unat i \<le> unat k \<Longrightarrow> \<exists>s'. NIFAT32_init (p\<lparr>p_bs_num := 0\<rparr>) s = NIFAT32_init (p\<lparr>p_bs_num := i\<rparr>) s' \<and> mount_ready good s' \<and>
    secs (world s') = secs (world s) \<and> mount_base p (fs_data s') = mount_base p (fs_data s) \<and> content_table s' = content_table s" for i :: byte
  proof (induction "unat i" arbitrary: i)
    case 0
    then have "i = 0" by (simp add: unat_eq_0)
    then show ?case using s by blast
  next
    case (Suc n)
    define j where "j = i - 1"
    have "i \<noteq> 0" using Suc.hyps(2) by auto
    then have j: "unat j = n" "j + 1 = i" using Suc.hyps(2) unat_minus_one [of i] by (simp_all add: j_def)
    then obtain s1 where s1: "NIFAT32_init (p\<lparr>p_bs_num := 0\<rparr>) s = NIFAT32_init (p\<lparr>p_bs_num := j\<rparr>) s1" "mount_ready good s1"
      "secs (world s1) = secs (world s)" "mount_base p (fs_data s1) = mount_base p (fs_data s)" "content_table s1 = content_table s"
      using Suc.hyps(1) [of j] Suc.hyps(2) Suc.prems by auto
    have lt: "j < k" "j < p_bs_count p" using j Suc.hyps(2) Suc.prems p(2) by (simp_all add: word_less_nat_alt word_le_nat_alt)
    then obtain b where b: "unpack_bs (secs (world s) (boot_at p j)) = Some b" "\<not> bs_valid b" using bad by blast
    obtain s' where "NIFAT32_init (p\<lparr>p_bs_num := j\<rparr>) s1 = NIFAT32_init (p\<lparr>p_bs_num := j + 1\<rparr>) s'" "mount_ready good s'"
      "secs (world s') = secs (world s1)" "fs_data s' = mount_base p (fs_data s1)" "content_table s' = content_table s1"
      using init_damaged [OF dev, of "p\<lparr>p_bs_num := j\<rparr>" s1 b] p(1) lt(2) s1(2,3) b by auto
    then show ?case using s1 j(2) by (intro exI [of _ s']) simp
  qed
  then show ?thesis by blast
qed

text \<open>C13 (the mount falls back over damaged boot sectors). When the first \<open>k\<close> copies of the boot sector fail
  their checksums and copy \<open>k\<close> passes, a mount without caches, journals and error ring ends with 1, has the
  geometry of copy \<open>k\<close>, reports \<open>k\<close> in the parameters and closes all contents. When the first copy
  passed no sector has changed; when at least one was skipped, the other copies have been rewritten with
  the bytes of copy \<open>k\<close> and no other sector has changed. When all copies fail it ends with 0 and
  no sector has changed. Both leave the interface unlocked.\<close>

theorem mount_falls_back:
  assumes dev: "block_device rd wr good secs nsec ssz" and p: "plain_params rd wr nsec ssz p" "p_bs_num p = 0" "k \<le> p_bs_count p"
    and s: "mount_ready good s"
    and bad: "\<forall>i < k. \<exists>b. unpack_bs (secs (world s) (boot_at p i)) = Some b \<and> \<not> bs_valid b"
  shows "(k < p_bs_count p \<and> unpack_bs (secs (world s) (boot_at p k)) = Some b \<and> bs_valid b \<and> bs_bytes_per_sector b \<noteq> 0 \<longrightarrow>
      (\<exists>s'. NIFAT32_init p s = Some ((1, p\<lparr>p_bs_num := k\<rparr>), s') \<and> load_geometry 0 b (mount_base p (fs_data s)) = Some (fs_data s') \<and>
        secs (world s') = boot_restored p k (secs (world s)) \<and> (k = 0 \<longrightarrow> secs (world s') = secs (world s)) \<and>
        mount_ready good s' \<and> (\<forall>c \<in> set (content_table s'). ct_type c = CONTENT_TYPE_EMPTY))) \<and>
    (k = p_bs_count p \<longrightarrow> (\<exists>s'. NIFAT32_init p s = Some ((0, p\<lparr>p_bs_num := k\<rparr>), s') \<and> secs (world s') = secs (world s) \<and> mount_ready good s'))"
proof -
  have p0: "p\<lparr>p_bs_num := 0\<rparr> = p" using p(2) by (cases p) simp
  obtain s1 where s1: "NIFAT32_init p s = NIFAT32_init (p\<lparr>p_bs_num := k\<rparr>) s1" "mount_ready good s1"
    "secs (world s1) = secs (world s)" "mount_base p (fs_data s1) = mount_base p (fs_data s)"
    using init_skips [OF dev p(1,3) s bad] unfolding p0 by blast
  let ?p = "p\<lparr>p_bs_num := k\<rparr>"
  have "\<exists>s'. NIFAT32_init ?p s1 = Some ((1, ?p), s') \<and> load_geometry 0 b (mount_base p (fs_data s)) = Some (fs_data s') \<and>
      secs (world s') = boot_restored p k (secs (world s)) \<and> (k = 0 \<longrightarrow> secs (world s') = secs (world s)) \<and>
      mount_ready good s' \<and> (\<forall>c \<in> set (content_table s'). ct_type c = CONTENT_TYPE_EMPTY)"
    if "k < p_bs_count p" "unpack_bs (secs (world s) (boot_at p k)) = Some b" "bs_valid b" "bs_bytes_per_sector b \<noteq> 0"
    using init_good [OF dev, of ?p s1 b] that p(1) s1(2-4) by (auto simp: boot_restored_def fun_eq_iff)
  moreover have "\<exists>s'. NIFAT32_init ?p s1 = Some ((0, ?p), s') \<and> secs (world s') = secs (world s) \<and> mount_ready good s'"
    if "k = p_bs_count p"
  proof -
    have "NIFAT32_init ?p s1 = Some ((0, ?p), s1)"
      using that lock_api_ready [OF s1(2)] s1(2) by (subst NIFAT32_init.simps) (cases s1, simp add: init_io_def mount_ready_def)
    then show ?thesis using s1(2,3) by blast
  qed
  ultimately show ?thesis using s1(1) by simp
qed

text \<open>Three copies on the device of 512-byte sectors: the first is blank, the second was written by the
  formatter.\<close>

definition mount_place :: "nat \<Rightarrow> nat" where
  "mount_place i = [1775, 3550, 1229] ! i"

definition mount_start :: "(nat \<Rightarrow> byte list) nifat_state" where
  "mount_start = \<lparr>world = (\<lambda>_. replicate 512 0)(mount_place 1 := boot_image (bs_f opt_default 131072 128)),
     mm_manager = \<lparr>mgr_init = Builtin, mgr_malloc = Builtin, mgr_free = Builtin\<rparr>,
     mm_heap = (\<lambda>_. Some \<lparr>blk_magic = 0, blk_size = 0, blk_free = 0, blk_next = None\<rparr>), mm_allocated = 0, malloc_lock = NULL_LOCK,
     disk_io = \<lparr>read_sector = None, write_sector = None, sector_size = 0\<rparr>, io_areas = idle_areas, io_lock = NULL_LOCK,
     errors_lock = NULL_LOCK, errors_ring = \<lparr>first_error = 1, err_current = 1, last_error = 1\<rparr>, bitmap = None, fatmap_lock = NULL_LOCK,
     fat_cache = None, fat_lock = NULL_LOCK, allocater_lock = NULL_LOCK, last_allocated_cluster = 0, journal_index = 0, journal_lock = NULL_LOCK,
     stack_journal = journal_zero, stack_word = 0, ec_heap = (\<lambda>_. None), stack_flags = 0, content_table = [], content_lock = NULL_LOCK,
     fs_data = fat_data_zero, fs_api_lock = NULL_LOCK, stack_bs = []\<rparr>"

definition mount_params :: "(nat \<Rightarrow> byte list) nifat32_params_t" where
  "mount_params = \<lparr>p_fat_cache = 0, p_bs_num = 0, p_bs_count = 3, p_ts = 4098, p_jc = 0, p_ec = 0, p_ef = 0,
     p_disk_io = \<lparr>read_sector = Some mem_read, write_sector = Some mem_write, sector_size = 512\<rparr>,
     p_mm_init = None, p_mm_malloc = None, p_mm_free = None\<rparr>"

lemma mount_boot_at:
  "GET_BOOTSECTOR (ucast (0 :: byte)) 4098 = Some (of_nat (mount_place 0))" "GET_BOOTSECTOR (ucast (1 :: byte)) 4098 = Some (of_nat (mount_place 1))"
  "GET_BOOTSECTOR (ucast (2 :: byte)) 4098 = Some (of_nat (mount_place 2))"
  by (simp_all add: mount_place_def GET_BOOTSECTOR_def BOOT_MULTIPLIER_def umod_def)

lemma byte_below_3: "i < (3 :: byte) \<Longrightarrow> i = 0 \<or> i = 1 \<or> i = 2"
proof -
  assume "i < 3"
  then have "unat i < 3" by (simp add: word_less_nat_alt)
  then have "unat i = 0 \<or> unat i = 1 \<or> unat i = 2" by linarith
  then show ?thesis by (simp add: word_unat_eq_iff)
qed

lemma blank_boot: "unpack_bs (replicate 512 0) = Some (bs_of_bytes (replicate 81 0))"
proof -
  have "u16s_of_bytes (replicate (2 * n) 0) = replicate n 0" for n
    by (induction n) (simp_all add: u16_of_bytes_def)
  from this [of 256] have "nft32_unpack_memory (u16s_of_bytes (replicate 512 0)) sizeof_bs = nft32_unpack_memory (replicate sizeof_bs 0) sizeof_bs"
    by (simp add: unpack_memory_map sizeof_bs_def del: replicate.simps)
  then show ?thesis by (simp add: unpack_bs_def unpack_zero sizeof_bs_def del: replicate.simps)
qed

lemma blank_boot_invalid: "\<not> bs_valid (bs_of_bytes (replicate 81 0))"
  by code_simp

theorem mount_falls_back_witness:
  "\<exists>s'. NIFAT32_init mount_params mount_start = Some ((1, mount_params\<lparr>p_bs_num := 1\<rparr>), s') \<and>
     world s' (mount_place 0) = boot_image (bs_f opt_default 131072 128) \<and> world s' (mount_place 2) = boot_image (bs_f opt_default 131072 128) \<and>
     world s' 5 = replicate 512 0"
proof -
  let ?b = "bs_f opt_default 131072 128"
  have at: "boot_at mount_params 0 = mount_place 0" "boot_at mount_params 1 = mount_place 1" "boot_at mount_params 2 = mount_place 2"
    using mount_boot_at by (simp_all add: boot_at_def mount_params_def mount_place_def)
  have p: "plain_params mem_read mem_write 4096 512 mount_params"
    using mount_boot_at by (auto simp: plain_params_def mount_params_def mount_place_def dest!: byte_below_3)
  have len: "length (boot_image ?b) = 512" using bs_f_fits [of opt_default 131072 128] by (simp add: boot_image_def sizeof_bs_def)
  then have s: "mount_ready mem_ok mount_start" by (simp add: mount_ready_def mount_start_def mem_ok_def)
  have bad: "\<forall>i < 1. \<exists>b. unpack_bs (world mount_start (boot_at mount_params i)) = Some b \<and> \<not> bs_valid b"
    using blank_boot blank_boot_invalid at(1) by (auto simp: word_less_nat_alt unat_eq_0 mount_start_def mount_place_def)
  have good: "unpack_bs (world mount_start (boot_at mount_params 1)) = Some ?b"
    using unpack_bs_pack [OF bs_f_fits] unfolding at(2) by (simp add: mount_start_def boot_image_def)
  have bps: "bs_bytes_per_sector ?b \<noteq> 0" by (simp add: bs_f_def Let_def BYTES_PER_SECTOR_def)
  have num: "p_bs_num mount_params = 0" "p_bs_count mount_params = 3" by (simp_all add: mount_params_def)
  have "\<exists>s'. NIFAT32_init mount_params mount_start = Some ((1, mount_params\<lparr>p_bs_num := 1\<rparr>), s') \<and>
      world s' = boot_restored mount_params 1 (world mount_start)"
    using mount_falls_back [of mem_read mem_write mem_ok "\<lambda>w. w" 4096 512 mount_params 1 mount_start ?b, OF mem.block_device_axioms p _ _ s bad]
      good bs_f_valid [of opt_default 131072 128] bps num by auto
  moreover have "boot_restored mount_params 1 (world mount_start) (mount_place i) = boot_image ?b" if "i = 0 \<or> i = 2" for i
  proof -
    have "\<exists>j < 3. mount_place i = boot_at mount_params j" using that at by (elim disjE; intro exI [of _ "of_nat i"]; simp)
    then show ?thesis unfolding boot_restored_def num at(2) by (simp add: mount_start_def)
  qed
  moreover have "boot_restored mount_params 1 (world mount_start) 5 = replicate 512 0"
  proof -
    have "5 \<noteq> boot_at mount_params j" if "j < 3" for j using byte_below_3 [OF that] at by (auto simp: mount_place_def)
    then show ?thesis unfolding boot_restored_def num by (auto simp: mount_start_def mount_place_def)
  qed
  ultimately show ?thesis by auto
qed

section \<open>A mount with an error ring\<close>

text \<open>Before the first boot sector is read the instance has no sectors, and the places of the error
  ring are taken modulo \<open>2^32 - 2\<close>.\<close>

lemma ring_place:
  assumes "i < 255"
  shows "\<exists>sa. GET_ERRORSSECTOR (of_nat i) 0 = Some sa \<and> 493536 \<le> unat sa"
proof -
  have m: "(i + 23) * 10986542 < 2 ^ 32" "252690466 \<le> (i + 23) * 10986542" using assms by simp_all
  have "(of_nat i + 23) * ERRORS_MULTIPLIER = (of_nat ((i + 23) * 10986542) :: u32)" by (simp add: ERRORS_MULTIPLIER_def)
  then have "unat ((of_nat i + 23) * ERRORS_MULTIPLIER :: u32) = (i + 23) * 10986542"
    using m(1) by (simp add: unat_of_nat del: of_nat_add of_nat_mult)
  then have d: "unat (drop_bit 9 ((of_nat i + 23) * ERRORS_MULTIPLIER :: u32)) = (i + 23) * 10986542 div 2 ^ 9"
    by (simp add: drop_bit_eq_div unat_div)
  have "(i + 23) * 10986542 div 2 ^ 9 < 4294967294" "493536 \<le> (i + 23) * 10986542 div 2 ^ 9" using m by simp_all
  then show ?thesis using d by (simp add: GET_ERRORSSECTOR_def umod_def unat_mod)
qed

lemma ring_unreadable:
  assumes rd: "\<And>sa off n w. nsec \<le> unat sa \<Longrightarrow> rd sa off n w = (0, [], w)" and small: "nsec \<le> 493536"
    and s: "disk_io s = \<lparr>read_sector = Some rd, write_sector = wr, sector_size = ssz\<rparr>" "0 < ssz" "io_areas s = idle_areas" "io_lock s = NULL_LOCK"
    and t: "total_sectors fi = 0" and i: "i + k \<le> 255"
  shows "read_error_loop k (int i) 0 fi v p s = Some ((v, p), s)"
  using i
proof (induction k arbitrary: i)
  case (Suc k)
  obtain sa where sa: "GET_ERRORSSECTOR (of_nat i) 0 = Some sa" "493536 \<le> unat sa" using ring_place [of i] Suc.prems by auto
  have p0: "poke buf 0 [] = Some buf" for buf by (simp add: poke_def)
  have "DSK_readoff_sectors sa 0 buf 8 1 s = Some ((0, buf), s)" for buf
    using s rd [of sa] sa(2) small by (cases s) (simp add: DSK_readoff_sectors_def call_read_def Let_def p0)
  then have "read_error_copy 0 fi (int i) s = Some ((0, 0), s)"
    using sa(1) t by (simp add: read_error_copy_def sizeof_error_code_def)
  then show ?case using Suc.IH [of "i + 1"] Suc.prems by (simp add: add.commute)
qed simp

text \<open>C37 (a first mount with an error ring fails on small volumes). \<open>NIFAT32_init\<close> loads the error ring before it
  has read the number of sectors. On a device of at most 493536 sectors that refuses the others, every
  copy is looked for past the end, and the mount ends with 0 although the boot sectors may be sound.\<close>

theorem ring_blocks_mount:
  fixes s :: "('w, 'z) nifat_state_scheme"
  assumes io: "p_disk_io p = \<lparr>read_sector = Some rd, write_sector = Some wr, sector_size = ssz\<rparr>" "0 < ssz"
    and refuses: "\<And>sa off n w. nsec \<le> unat sa \<Longrightarrow> rd sa off n w = (0, [], w)" and small: "nsec \<le> 493536"
    and p: "p_bs_num p < p_bs_count p" "p_ec p \<noteq> 0" "p_mm_init p = None"
    and s: "mount_ready good s" "total_sectors (fs_data s) = 0"
  shows "\<exists>s'. NIFAT32_init p s = Some ((0, p), s') \<and> world s' = world s \<and> fs_api_lock s' = NULL_LOCK"
proof -
  obtain b where b: "mm_heap s mm_head = Some b" using s(1) by (auto simp: mount_ready_def)
  have l: "io_lock s = NULL_LOCK" "errors_lock s = NULL_LOCK" using s(1) by (simp_all add: mount_ready_def)
  have "unat (p_ec p) < 2 ^ 8" by (rule order_less_le_trans [OF unsigned_less]) simp
  then have ec: "unat (p_ec p) \<le> 255" by simp
  have load: "load_info fi t = Some (0, t)"
    if "disk_io t = \<lparr>read_sector = Some rd, write_sector = Some wr, sector_size = ssz\<rparr>" "io_areas t = idle_areas" "io_lock t = NULL_LOCK"
      "total_sectors fi = 0" "errors_count fi = p_ec p" for fi and t :: "('w, 'z) nifat_state_scheme"
    using ring_unreadable [OF refuses small that(1) io(2) that(2-4), of 0 "unat (p_ec p)" "vote_start (-1)" "-1"] ec that(5)
    by (simp add: load_info_def read_error_def vote_start_def)
  have ex: "\<exists>t :: ('w, 'z) nifat_state_scheme. world t = world s \<and> fs_api_lock t = NULL_LOCK" by (rule exI [of _ "s\<lparr>fs_api_lock := NULL_LOCK\<rparr>"]) simp
  have "\<not> p_bs_count p \<le> p_bs_num p" using p(1) by simp
  then show ?thesis
    using io p(2,3) b l s(2) lock_api_ready [OF s(1)] load ex
    by (subst NIFAT32_init.simps) (simp add: init_io_def nft32_setup_mm_manager_def nft32_mm_init_def mm_init_def put_block_def DSK_setup_def
      fptr_or_def errors_setup_def)
qed

text \<open>The unit tests' device of 128 sectors, with two copies of the ring.\<close>

definition ring_params :: "fake_world nifat32_params_t" where
  "ring_params = \<lparr>p_fat_cache = 0, p_bs_num = 0, p_bs_count = 3, p_ts = 128, p_jc = 0, p_ec = 2, p_ef = 0,
     p_disk_io = \<lparr>read_sector = Some fake_read, write_sector = Some fake_write, sector_size = 64\<rparr>,
     p_mm_init = None, p_mm_malloc = None, p_mm_free = None\<rparr>"

definition ring_start :: "fake_world nifat_state" where
  "ring_start = file_start\<lparr>mm_heap := \<lambda>_. Some \<lparr>blk_magic = 0, blk_size = 0, blk_free = 0, blk_next = None\<rparr>, fs_data := fat_data_zero\<rparr>"

theorem ring_blocks_mount_witness: "\<exists>s'. NIFAT32_init ring_params ring_start = Some ((0, ring_params), s') \<and> world s' = world ring_start"
proof -
  have p: "p_disk_io ring_params = \<lparr>read_sector = Some fake_read, write_sector = Some fake_write, sector_size = 64\<rparr>"
    "p_bs_num ring_params < p_bs_count ring_params" "p_ec ring_params \<noteq> 0" "p_mm_init ring_params = None"
    by (simp_all add: ring_params_def)
  have s: "mount_ready (\<lambda>_. True) ring_start" "total_sectors (fs_data ring_start) = 0"
    by (simp_all add: mount_ready_def ring_start_def file_start_def cluster_start_def fat_start_def fat_data_zero_def)
  have "fake_read sa off n w = (0, [], w)" if "128 \<le> unat sa" for sa off n w
    using that by (simp add: fake_read_def TEST_SECTORS_def)
  then show ?thesis using ring_blocks_mount [of ring_params fake_read fake_write 64 128, OF p(1) _ _ _ p(2-4) s] by auto
qed

end
