(* ===== verification/Growth.thy ===== *)
theory Growth
  imports Mounting
begin

text \<open>
  Files that grow: \<open>add_cluster_to_content\<close> takes a free cluster, ends the chain with it and links
  it; the extension loop of \<open>NIFAT32_write_buffer2content\<close> does so until all bytes are stored or no
  cluster is found.
\<close>

unbundle bit_operations_syntax

section \<open>The counter and the success of the allocation\<close>

text \<open>With a starting point of its own the allocation leaves the counter alone.\<close>

lemma fat_step_counter:
  fixes s :: "('w, 'z) cluster_state_scheme"
  shows "fat_step secs ssz fi s s' \<Longrightarrow> last_allocated_cluster s' = last_allocated_cluster s"
  by (auto simp: fat_step_def)

lemma take_cluster_count:
  assumes "vol_ok rd wr good secs nsec ssz fi s" "in_vol fi c" "allocater_lock s = HELD" "offt \<noteq> NO_CLUSTER_OFFSET"
    and "take_cluster fi offt c s = Some (r, s')"
  shows "last_allocated_cluster s' = last_allocated_cluster s"
proof -
  obtain s1 where s1: "write_fat c FAT_CLUSTER_RESERVED fi s = Some (1, s1)" "fat_step secs ssz fi s s1"
    using ft.writeE [OF assms(1), of c FAT_CLUSTER_RESERVED] assms(2) marks_28 by (auto simp: in_vol_def)
  have "allocater_lock s1 = HELD" using cl_step_lock [OF cl_step_fat [OF s1(2)]] assms(3) by simp
  then show ?thesis using s1 assms(4,5) fat_step_counter [OF s1(2)] by (auto simp: take_cluster_def store_offset_def)
qed

lemma alloc_scan_count:
  assumes "vol_ok rd wr good secs nsec ssz fi s" "links_ok fi" "allocater_lock s = HELD"
    and "ext_root_cluster fi \<le> c" "unat step \<le> unat c" and "offt \<noteq> NO_CLUSTER_OFFSET" "alloc_scan fi offt c step s = Some (r, s')"
  shows "last_allocated_cluster s' = last_allocated_cluster s"
  using assms
proof (induction "unat (total_clusters fi) - unat c" arbitrary: c step s rule: less_induct)
  case less
  show ?case
  proof (cases "c < total_clusters fi")
    case False
    then show ?thesis using less.prems(3,6,7) by (subst (asm) alloc_scan.simps) (auto simp: store_offset_def)
  next
    case True
    then have iv: "in_vol fi c" using less.prems(4) by (simp add: in_vol_def)
    obtain s1 where s1: "read_fat c fi s = Some (fat_of secs ssz fi s (unat c), s1)"
      "vol_ok rd wr good secs nsec ssz fi s1" "fat_step secs ssz fi s s1"
      using ft.readE [OF less.prems(1,4) True] by auto
    have l1: "allocater_lock s1 = HELD" using cl_step_lock [OF cl_step_fat [OF s1(3)]] less.prems(3) by simp
    have next_le: "last_allocated_cluster s' = last_allocated_cluster s"
      if "alloc_scan fi offt c' step' s1 = Some (r, s')" "unat c < unat c'" "unat step' \<le> unat c'" for c' step'
    proof -
      have "unat (total_clusters fi) - unat c' < unat (total_clusters fi) - unat c"
        using that(2) True by (simp add: word_less_nat_alt)
      moreover have "ext_root_cluster fi \<le> c'" using that(2) less.prems(4) by (simp add: word_le_nat_alt)
      ultimately show ?thesis
        using less.hyps [OF _ s1(2) less.prems(2) l1 _ that(3) less.prems(6) that(1)] fat_step_counter [OF s1(3)] by simp
    qed
    note nums = scan_next [OF less.prems(2) iv less.prems(5)]
    have run: "alloc_scan fi offt c step s =
        (if is_cluster_free (fat_of secs ssz fi s (unat c)) then take_cluster fi offt c s1
         else if is_cluster_bad (fat_of secs ssz fi s (unat c)) \<or> is_cluster_reserved (fat_of secs ssz fi s (unat c))
         then alloc_scan fi offt (c + step + 1) (step + 1) s1 else alloc_scan fi offt (c + 1) step s1)"
      using True s1(1) by (subst alloc_scan.simps) simp
    show ?thesis
      using less.prems(5,7) nums take_cluster_count [OF s1(2) iv l1 less.prems(6), of r s'] fat_step_counter [OF s1(3)]
        next_le [of "c + step + 1" "step + 1"] next_le [of "c + 1" step] unfolding run by (simp split: if_splits)
  qed
qed

lemma alloc_cluster_count:
  assumes vol: "vol_ok rd wr good secs nsec ssz fi s" and links: "links_ok fi" and l: "allocater_lock s = NULL_LOCK"
    and start: "offt \<noteq> NO_CLUSTER_OFFSET" "ext_root_cluster fi \<le> offt" and run: "alloc_cluster fi offt s = Some (r, s')"
  shows "last_allocated_cluster s' = last_allocated_cluster s"
proof -
  let ?h = "s\<lparr>allocater_lock := HELD\<rparr>"
  have hv: "vol_ok rd wr good secs nsec ssz fi ?h" using vol by simp
  obtain f where f: "fatmap_find_free offt 1 fi ?h = Some (f, ?h)" "f = 0 \<or> offt \<le> f \<and> f < total_clusters fi"
    using find_free_one [OF hv] by blast
  show ?thesis
  proof (cases "f = 0")
    case True
    then have "alloc_scan fi offt offt 0 ?h = Some (r, s')" using run l f(1) start(1) by (simp add: alloc_cluster_def Let_def)
    then show ?thesis using alloc_scan_count [OF hv links _ start(2) _ start(1), of 0] by simp
  next
    case False
    then have iv: "in_vol fi f" using f(2) start(2) by (auto simp: in_vol_def)
    obtain s1 where s1: "read_fat f fi ?h = Some (fat_of secs ssz fi s (unat f), s1)" "vol_ok rd wr good secs nsec ssz fi s1" "fat_step secs ssz fi ?h s1"
      using ft.readE [OF hv, of f] iv by (auto simp: in_vol_def)
    have l1: "allocater_lock s1 = HELD" using cl_step_lock [OF cl_step_fat [OF s1(3)]] by simp
    have "(if is_cluster_free (fat_of secs ssz fi s (unat f)) then take_cluster fi offt f s1 else alloc_scan fi offt offt 0 s1) = Some (r, s')"
      using run l f(1) start(1) False s1(1) by (simp add: alloc_cluster_def Let_def del: if_split)
    then show ?thesis
      using take_cluster_count [OF s1(2) iv l1 start(1)] alloc_scan_count [OF s1(2) links l1 start(2) _ start(1), of 0] fat_step_counter [OF s1(3)]
      by (simp split: if_splits)
  qed
qed

text \<open>A free cluster from the start on is found, whatever the bitmap says, when no cluster there is bad
  or reserved.\<close>

definition free_from :: "fat_data \<Rightarrow> u32 \<Rightarrow> (nat \<Rightarrow> u32) \<Rightarrow> u32 set" where
  "free_from fi st t = {d. in_vol fi d \<and> st \<le> d \<and> t (unat d) = FAT_CLUSTER_FREE}"

definition clean_from :: "fat_data \<Rightarrow> u32 \<Rightarrow> (nat \<Rightarrow> u32) \<Rightarrow> bool" where
  "clean_from fi st t = (\<forall>d. unat st \<le> d \<and> d < unat (total_clusters fi) \<longrightarrow> t d \<notin> {FAT_CLUSTER_BAD, FAT_CLUSTER_RESERVED})"

lemma alloc_scan_finds:
  assumes "vol_ok rd wr good secs nsec ssz fi s" "links_ok fi" "allocater_lock s = HELD" "ext_root_cluster fi \<le> st"
    and "free_from fi st (fat_of secs ssz fi s) \<noteq> {}" "clean_from fi st (fat_of secs ssz fi s)"
  shows "\<exists>c s'. in_vol fi c \<and> alloc_scan fi offt st step s = Some (c, s')"
proof -
  let ?t = "fat_of secs ssz fi s"
  obtain d where d: "in_vol fi d" "st \<le> d" "?t (unat d) = FAT_CLUSTER_FREE" using assms(5) by (auto simp: free_from_def)
  define e where "e = (LEAST e. unat st \<le> e \<and> ?t e = FAT_CLUSTER_FREE)"
  have ex: "unat st \<le> unat d \<and> ?t (unat d) = FAT_CLUSTER_FREE" using d by (simp add: word_le_nat_alt)
  have e: "unat st \<le> e" "?t e = FAT_CLUSTER_FREE" "e \<le> unat d" and before: "\<And>x. unat st \<le> x \<Longrightarrow> x < e \<Longrightarrow> ?t x \<noteq> FAT_CLUSTER_FREE"
    unfolding e_def using LeastI [of "\<lambda>e. unat st \<le> e \<and> ?t e = FAT_CLUSTER_FREE", OF ex] Least_le [of "\<lambda>e. unat st \<le> e \<and> ?t e = FAT_CLUSTER_FREE", OF ex]
      not_less_Least [of _ "\<lambda>e. unat st \<le> e \<and> ?t e = FAT_CLUSTER_FREE"] by blast+
  have k: "unat st + (e - unat st) = e" using e(1) by simp
  have lt: "e < unat (total_clusters fi)" using e(3) d(1) by (simp add: in_vol_def word_less_nat_alt)
  have "\<exists>s'. alloc_scan fi offt st step s = Some (st + of_nat (e - unat st), s')"
    using before lt assms(6) e(2) k by (intro alloc_scan_first [OF assms(1-4)]) (auto simp: clean_from_def)
  moreover have "unat (st + of_nat (e - unat st)) = e"
    using k lt unsigned_less [of "total_clusters fi", where ?'a = nat] by (simp add: unat_word_ariths unat_of_nat mod_simps)
  then have "in_vol fi (st + of_nat (e - unat st))" using e(1) lt assms(4) by (simp add: in_vol_def word_less_nat_alt word_le_nat_alt)
  ultimately show ?thesis by blast
qed

lemma alloc_cluster_finds:
  assumes vol: "vol_ok rd wr good secs nsec ssz fi s" and links: "links_ok fi" and l: "allocater_lock s = NULL_LOCK"
    and start: "offt \<noteq> NO_CLUSTER_OFFSET" "ext_root_cluster fi \<le> offt"
    and free: "free_from fi offt (fat_of secs ssz fi s) \<noteq> {}" "clean_from fi offt (fat_of secs ssz fi s)"
    and run: "alloc_cluster fi offt s = Some (r, s')"
  shows "r \<noteq> FAT_CLUSTER_BAD"
proof -
  let ?h = "s\<lparr>allocater_lock := HELD\<rparr>"
  have hv: "vol_ok rd wr good secs nsec ssz fi ?h" using vol by simp
  obtain f where f: "fatmap_find_free offt 1 fi ?h = Some (f, ?h)" "f = 0 \<or> offt \<le> f \<and> f < total_clusters fi"
    using find_free_one [OF hv] by blast
  have "in_vol fi r"
  proof (cases "f = 0")
    case True
    then have "alloc_scan fi offt offt 0 ?h = Some (r, s')" using run l f(1) start(1) by (simp add: alloc_cluster_def Let_def)
    then show ?thesis using alloc_scan_finds [OF hv links _ start(2), of offt 0] free by auto
  next
    case False
    then have iv: "in_vol fi f" using f(2) start(2) by (auto simp: in_vol_def)
    obtain s1 where s1: "read_fat f fi ?h = Some (fat_of secs ssz fi s (unat f), s1)" "vol_ok rd wr good secs nsec ssz fi s1"
      "ft.same fi (fat_of secs ssz fi s1) (fat_of secs ssz fi s)" "fat_step secs ssz fi ?h s1"
      using ft.readE [OF hv, of f] iv by (auto simp: in_vol_def)
    have l1: "allocater_lock s1 = HELD" using cl_step_lock [OF cl_step_fat [OF s1(4)]] by simp
    have s: "(if is_cluster_free (fat_of secs ssz fi s (unat f)) then take_cluster fi offt f s1 else alloc_scan fi offt offt 0 s1) = Some (r, s')"
      using run l f(1) start(1) False s1(1) by (simp add: alloc_cluster_def Let_def del: if_split)
    have "free_from fi offt (fat_of secs ssz fi s1) \<noteq> {}" "clean_from fi offt (fat_of secs ssz fi s1)"
      using free s1(3) by (auto simp: free_from_def clean_from_def ft.same_def in_vol_def word_less_nat_alt)
    then show ?thesis using s iv take_cluster_ok [OF s1(2) iv l1, of offt] alloc_scan_finds [OF s1(2) links l1 start(2), of offt 0]
      by (auto split: if_splits)
  qed
  then show ?thesis using in_vol_marks [OF links] by blast
qed

section \<open>One more cluster\<close>

text \<open>What the extension changes of the state: as a write, and the error ring in memory.\<close>

definition grow_step :: "('w \<Rightarrow> nat \<Rightarrow> byte list) \<Rightarrow> nat \<Rightarrow> fat_data \<Rightarrow> u32 list \<Rightarrow>
    ('w, 'z) nifat_state_scheme \<Rightarrow> ('w, 'z) nifat_state_scheme \<Rightarrow> bool" where
  "grow_step secs ssz fi cs s s' = (\<exists>w b k e. s' = s\<lparr>world := w, bitmap := b, fat_cache := k, errors_ring := e\<rparr> \<and>
     (\<forall>x. x \<notin> fat_sectors fi ssz \<and> (\<forall>c \<in> set cs. x \<notin> cluster_area fi c) \<longrightarrow> secs w x = secs (world s) x))"

lemma grow_step_data:
  fixes s :: "('w, 'z) nifat_state_scheme"
  assumes "data_step secs ssz fi cs s s'" shows "grow_step secs ssz fi cs s s'"
proof -
  obtain w b k where "s' = s\<lparr>world := w, bitmap := b, fat_cache := k\<rparr>"
    "\<forall>x. x \<notin> fat_sectors fi ssz \<and> (\<forall>c \<in> set cs. x \<notin> cluster_area fi c) \<longrightarrow> secs w x = secs (world s) x"
    using assms unfolding data_step_def by blast
  then show ?thesis unfolding grow_step_def by (intro exI [of _ w] exI [of _ b] exI [of _ k] exI [of _ "errors_ring s"]) simp
qed

lemma grow_step_refl: "grow_step secs ssz fi cs s s"
  by (rule grow_step_data [OF data_step_fat [OF fat_step_refl]])

lemma grow_step_ring:
  fixes s :: "('w, 'z) nifat_state_scheme"
  shows "grow_step secs ssz fi cs s (s\<lparr>errors_ring := e\<rparr>)"
  unfolding grow_step_def by (intro exI [of _ "world s"] exI [of _ "bitmap s"] exI [of _ "fat_cache s"] exI [of _ e]) simp

lemma grow_step_trans:
  fixes s :: "('w, 'z) nifat_state_scheme"
  assumes "grow_step secs ssz fi cs s s'" "grow_step secs ssz fi ds s' s''" "set cs \<subseteq> set es" "set ds \<subseteq> set es"
  shows "grow_step secs ssz fi es s s''"
proof -
  obtain w b k e where 1: "s' = s\<lparr>world := w, bitmap := b, fat_cache := k, errors_ring := e\<rparr>"
    "\<forall>x. x \<notin> fat_sectors fi ssz \<and> (\<forall>c \<in> set cs. x \<notin> cluster_area fi c) \<longrightarrow> secs w x = secs (world s) x"
    using assms(1) unfolding grow_step_def by blast
  obtain w' b' k' e' where 2: "s'' = s'\<lparr>world := w', bitmap := b', fat_cache := k', errors_ring := e'\<rparr>"
    "\<forall>x. x \<notin> fat_sectors fi ssz \<and> (\<forall>c \<in> set ds. x \<notin> cluster_area fi c) \<longrightarrow> secs w' x = secs (world s') x"
    using assms(2) unfolding grow_step_def by blast
  have "s'' = s\<lparr>world := w', bitmap := b', fat_cache := k', errors_ring := e'\<rparr>" using 1(1) 2(1) by simp
  moreover have "world s' = w" using 1(1) by simp
  then have "secs w' x = secs (world s) x" if "x \<notin> fat_sectors fi ssz \<and> (\<forall>c \<in> set es. x \<notin> cluster_area fi c)" for x
  proof -
    have "\<forall>c \<in> set cs. x \<notin> cluster_area fi c" "\<forall>c \<in> set ds. x \<notin> cluster_area fi c" using that assms(3,4) by blast+
    then show ?thesis using 1(2) 2(2) that \<open>world s' = w\<close> by simp
  qed
  ultimately show ?thesis unfolding grow_step_def by blast
qed

lemma grow_step_fields:
  "grow_step secs ssz fi cs s s' \<Longrightarrow> fs_api_lock s' = fs_api_lock s \<and> content_table s' = content_table s \<and> fs_data s' = fs_data s \<and>
     allocater_lock s' = allocater_lock s \<and> errors_lock s' = errors_lock s \<and> last_allocated_cluster s' = last_allocated_cluster s"
  by (auto simp: grow_step_def)

lemma grow_step_outside:
  "grow_step secs ssz fi cs s s' \<Longrightarrow> x \<notin> fat_sectors fi ssz \<Longrightarrow> (\<And>c. c \<in> set cs \<Longrightarrow> x \<notin> cluster_area fi c) \<Longrightarrow>
    secs (world s') x = secs (world s) x"
  unfolding grow_step_def by auto

lemma grow_bytes_others:
  assumes "data_geom fi nsec ssz" "grow_step secs ssz fi cs s s'"
    and "\<forall>c \<in> set cs. in_vol fi c" "\<forall>d \<in> set ds. in_vol fi d \<and> d \<notin> set cs" "apart fi ssz ds"
  shows "file_bytes secs fi (world s') ds = file_bytes secs fi (world s) ds"
proof (rule file_bytes_eq)
  fix d i assume d: "d \<in> set ds" and i: "i \<in> cluster_area fi d"
  have "i \<notin> cluster_area fi c" if "c \<in> set cs" for c
    using cluster_areas_disjoint [OF assms(1), of c d] assms(3,4) that d i by blast
  then show "secs (world s') i = secs (world s) i" using grow_step_outside [OF assms(2), of i] assms(5) d i by (auto simp: apart_def)
qed

text \<open>An allocation, seen from the API: it changes device, bitmap and cache.\<close>

lemma cl_step_grow:
  fixes s :: "('w, 'z) nifat_state_scheme"
  assumes "cl_step secs ssz fi s s'" "last_allocated_cluster s' = last_allocated_cluster s"
  shows "grow_step secs ssz fi cs s s'"
proof -
  obtain w b c n where s': "s' = s\<lparr>world := w, bitmap := b, fat_cache := c, last_allocated_cluster := n\<rparr>"
    "\<forall>x. x \<notin> fat_sectors fi ssz \<longrightarrow> secs w x = secs (world s) x" using assms(1) by (auto simp: cl_step_def)
  then have "n = last_allocated_cluster s" using assms(2) by simp
  then have "s' = s\<lparr>world := w, bitmap := b, fat_cache := c, errors_ring := errors_ring s\<rparr>" using s'(1) by simp
  then show ?thesis using s'(2) unfolding grow_step_def by blast
qed

text \<open>The volume accepts allocations: the error ring is off, the locks are free, and the fixed start of
  the search, a hash of the counter, is a cluster of the volume.\<close>

definition alloc_ready :: "u32 \<Rightarrow> ('w, 'z) nifat_state_scheme \<Rightarrow> bool" where
  "alloc_ready st s = (let fi = fs_data s in allocater_lock s = NULL_LOCK \<and> errors_lock s = NULL_LOCK \<and> errors_count fi = 0 \<and>
     entry_offset fi = 0 \<and> GET_CLUSTER_OFF (last_allocated_cluster s) (total_clusters fi - ext_root_cluster fi) = Some st \<and>
     ext_root_cluster fi \<le> st)"

lemma alloc_ready_step: "alloc_ready st s \<Longrightarrow> grow_step secs ssz fi cs s s' \<Longrightarrow> alloc_ready st s'"
  using grow_step_fields [of secs ssz fi cs s s'] by (simp add: alloc_ready_def Let_def)

lemma alloc_start_small:
  assumes "alloc_ready st s" "links_ok (fs_data s)" "in_vol (fs_data s) c"
  shows "st \<noteq> NO_CLUSTER_OFFSET"
proof -
  let ?fi = "fs_data s"
  have "st < total_clusters ?fi - ext_root_cluster ?fi"
    using assms(1) umod_less by (auto simp: alloc_ready_def Let_def GET_CLUSTER_OFF_def)
  moreover have "ext_root_cluster ?fi \<le> total_clusters ?fi" using assms(3) by (auto simp: in_vol_def)
  ultimately have "unat st < unat FAT_CLUSTER_BAD"
    using assms(2) unfolding links_ok_def word_less_nat_alt word_le_nat_alt by (simp add: unat_sub word_le_nat_alt) linarith
  then show ?thesis by (auto simp: FAT_CLUSTER_BAD_def NO_CLUSTER_OFFSET_def)
qed

lemma vol_ok_ring [simp]: "vol_ok rd wr good secs nsec ssz fi (s\<lparr>errors_ring := e\<rparr>) = vol_ok rd wr good secs nsec ssz fi s"
  by (simp add: vol_ok_def fat_ready_def fat_open_def dsk_ready_def)

lemma fat_of_ring [simp]: "fat_of secs ssz fi (s\<lparr>errors_ring := e\<rparr>) = fat_of secs ssz fi s"
  by (rule fat_of_cong) simp_all

lemma get_offset_ok:
  fixes s :: "('w, 'z) nifat_state_scheme"
  assumes "alloc_ready st s" shows "get_cluster_offset (fs_data s) s = Some (st, s)"
  using assms by (cases s) (simp add: alloc_ready_def get_cluster_offset_def Let_def)


lemma add_chain_ok:
  fixes s :: "('w, 'z) nifat_state_scheme"
  assumes vol: "vol_ok rd wr good secs nsec ssz fi s" and fi: "fs_data s = fi" and links: "links_ok fi" and ready: "alloc_ready st s"
    and lca: "in_vol fi lca"
  shows "\<exists>c s'. add_cluster_to_chain lca s = Some (c, s') \<and> vol_ok rd wr good secs nsec ssz fi s' \<and> grow_step secs ssz fi [] s s' \<and>
    (if c = FAT_CLUSTER_BAD then ft.same fi (fat_of secs ssz fi s') (fat_of secs ssz fi s)
     else c \<in> free_from fi st (fat_of secs ssz fi s) \<and>
       ft.same fi (fat_of secs ssz fi s') ((fat_of secs ssz fi s)(unat c := FAT_CLUSTER_END, unat lca := c))) \<and>
    (free_from fi st (fat_of secs ssz fi s) \<noteq> {} \<and> clean_from fi st (fat_of secs ssz fi s) \<longrightarrow> c \<noteq> FAT_CLUSTER_BAD)"
proof -
  let ?t = "fat_of secs ssz fi s"
  have no: "st \<noteq> NO_CLUSTER_OFFSET" using alloc_start_small [OF ready] links lca fi by simp
  have st: "ext_root_cluster fi \<le> st" "allocater_lock s = NULL_LOCK" and err: "errors_count fi = 0" "errors_lock s = NULL_LOCK"
    using ready fi by (simp_all add: alloc_ready_def Let_def)
  have off: "get_cluster_offset fi s = Some (st, s)" using get_offset_ok [OF ready] fi by simp
  obtain c s1 where 1: "alloc_cluster fi st s = Some (c, s1)" "vol_ok rd wr good secs nsec ssz fi s1" "cl_step secs ssz fi s s1"
    "alloc_post secs ssz fi ?t (unat st) c s1"
    using alloc_cluster_ok [OF vol links st(2), of st st] no st(1) by auto
  have g1: "grow_step secs ssz fi [] s s1"
    using cl_step_grow [OF 1(3)] alloc_cluster_count [OF vol links st(2) no st(1) 1(1)] by blast
  have found: "free_from fi st ?t \<noteq> {} \<and> clean_from fi st ?t \<longrightarrow> c \<noteq> FAT_CLUSTER_BAD"
    using alloc_cluster_finds [OF vol links st(2) no st(1) _ _ 1(1)] by blast
  have f1: "fs_data s1 = fi" "errors_lock s1 = NULL_LOCK" using grow_step_fields [OF g1] fi err by simp_all
  show ?thesis
  proof (cases "c = FAT_CLUSTER_BAD")
    case True
    obtain e where e: "api_error ALLOCATED_CLUSTER_BAD_ERROR s1 = Some (1, s1\<lparr>errors_ring := e\<rparr>)"
      using errors_off [of s1] f1 err by auto
    then have "add_cluster_to_chain lca s = Some (c, s1\<lparr>errors_ring := e\<rparr>)"
      using off 1(1) fi True by (simp add: add_cluster_to_chain_def is_cluster_bad_def Let_def)
    then show ?thesis using 1(2,4) True found grow_step_trans [OF g1 grow_step_ring] by (intro exI [of _ c] exI [of _ "s1\<lparr>errors_ring := e\<rparr>"])
      (auto simp: alloc_post_def)
  next
    case False
    then have c: "in_vol fi c" "c \<in> free_from fi st ?t" and t1: "ft.same fi (fat_of secs ssz fi s1) (?t(unat c := FAT_CLUSTER_RESERVED))"
      using 1(4) by (auto simp: alloc_post_def free_from_def word_le_nat_alt)
    obtain s2 where 2: "write_fat c FAT_CLUSTER_END fi s1 = Some (1, s2)" "vol_ok rd wr good secs nsec ssz fi s2"
      "ft.same fi (fat_of secs ssz fi s2) ((fat_of secs ssz fi s1)(unat c := FAT_CLUSTER_END))" "fat_step secs ssz fi s1 s2"
      using ft.writeE [OF 1(2), of c FAT_CLUSTER_END] c marks_28 by (auto simp: in_vol_def)
    obtain s3 where 3: "write_fat lca c fi s2 = Some (1, s3)" "vol_ok rd wr good secs nsec ssz fi s3"
      "ft.same fi (fat_of secs ssz fi s3) ((fat_of secs ssz fi s2)(unat lca := c))" "fat_step secs ssz fi s2 s3"
      using ft.writeE [OF 2(2), of lca c] lca in_vol_28 [OF links c(1)] by (auto simp: in_vol_def)
    have "add_cluster_to_chain lca s = Some (c, s3)"
      using off 1(1) fi False 2(1) 3(1) by (simp add: add_cluster_to_chain_def is_cluster_bad_def set_cluster_end_def Let_def)
    moreover have "ft.same fi (fat_of secs ssz fi s2) (?t(unat c := FAT_CLUSTER_END))"
      using ft.same_trans [OF 2(3) ft.same_upd [OF t1]] by simp
    then have "ft.same fi (fat_of secs ssz fi s3) (?t(unat c := FAT_CLUSTER_END, unat lca := c))"
      using ft.same_trans [OF 3(3) ft.same_upd] by blast
    moreover have "grow_step secs ssz fi [] s s3"
      using grow_step_trans [OF g1 grow_step_data [OF data_step_fat [OF fat_step_trans [OF 2(4) 3(4)]]], of "[]" "[]"] by simp
    ultimately show ?thesis using 3(2) c(2) False by auto
  qed
qed

lemma add_content_ok:
  "in_vol fi lca \<Longrightarrow> links_ok fi \<Longrightarrow> add_cluster_to_content ci lca s = add_cluster_to_chain lca s"
  using in_vol_marks(2) by (simp add: add_cluster_to_content_def)

text \<open>The chain with the cluster appended.\<close>

lemma fat_chain_append:
  assumes "fat_chain fi t cs" "in_vol fi c" "t (unat c) = FAT_CLUSTER_FREE" "links_ok fi"
  shows "c \<notin> set cs" "fat_chain fi (t(unat c := FAT_CLUSTER_END, unat (last cs) := c)) (cs @ [c])"
proof -
  show n: "c \<notin> set cs"
  proof
    assume "c \<in> set cs"
    then obtain xs ys where "cs = xs @ c # ys" by (meson split_list)
    then have "fat_chain fi t (c # ys)" using fat_chain_suffix assms(1) by blast
    then have "t (unat c) = FAT_CLUSTER_END \<or> in_vol fi (t (unat c))" using fat_chain_in_vol [of fi t] by (cases ys) auto
    then show False using assms(3) in_vol_marks(1) [OF assms(4), of "t (unat c)"] fat_marks_distinct(3) by argo
  qed
  show "fat_chain fi (t(unat c := FAT_CLUSTER_END, unat (last cs) := c)) (cs @ [c])"
    using assms(1) n fat_chain_distinct [OF assms(4,1)]
  proof (induction cs)
    case (Cons d cs)
    show ?case
    proof (cases cs)
      case Nil
      then show ?thesis using Cons.prems assms(2) by (simp add: word_unat_eq_iff)
    next
      case (Cons e es)
      have "d \<noteq> last cs" using Cons.prems Cons by auto
      then show ?thesis using Cons.IH Cons.prems Cons by (simp add: word_unat_eq_iff)
    qed
  qed simp
qed

section \<open>The extension loop\<close>

lemma extend_step:
  assumes "0 < n" "add_cluster_to_content ci ca s = Some (c, s1)" "\<not> is_cluster_bad c"
    and "write_step c off data n tot s1 = Some (Some (off', n', tot'), s2)"
  shows "extend_loop ci ca off data n tot s = extend_loop ci c off' data n' tot' s2"
  using assms by (subst extend_loop.simps) (auto simp: write_step_def Let_def bind_eq_Some_conv split: if_splits)

lemma extend_stop:
  "add_cluster_to_content ci ca s = Some (FAT_CLUSTER_BAD, s1) \<Longrightarrow> 0 < n \<Longrightarrow> extend_loop ci ca off data n tot s = Some (tot, s1)"
  by (subst extend_loop.simps) (simp add: is_cluster_bad_def)

lemma extend_none: "n \<le> 0 \<Longrightarrow> extend_loop ci ca off data n tot s = Some (tot, s)"
  by (subst extend_loop.simps) simp

text \<open>The clusters that are free after one was appended.\<close>

lemma free_after:
  assumes "links_ok fi" "c \<in> free_from fi st t" "in_vol fi l" "t (unat l) \<noteq> FAT_CLUSTER_FREE"
    and "ft.same fi t' (t(unat c := FAT_CLUSTER_END, unat l := c))"
  shows "free_from fi st t' = free_from fi st t - {c}" "clean_from fi st t \<Longrightarrow> clean_from fi st t'"
proof -
  have c: "in_vol fi c" using assms(2) by (simp add: free_from_def)
  note mc = in_vol_marks [OF assms(1) c]
  have at: "t' d = (if d = unat l then c else if d = unat c then FAT_CLUSTER_END else t d)" if "d < unat (total_clusters fi)" for d
    using assms(5) that by (simp add: ft.same_def)
  have "t' (unat d) = FAT_CLUSTER_FREE \<longleftrightarrow> t (unat d) = FAT_CLUSTER_FREE \<and> d \<noteq> c" if "in_vol fi d" for d
    using that mc(1) assms(4) at [of "unat d"] fat_marks_distinct(3) [symmetric]
    by (auto simp: in_vol_def word_less_nat_alt word_unat_eq_iff)
  then show "free_from fi st t' = free_from fi st t - {c}" by (auto simp: free_from_def)
  show "clean_from fi st t'" if "clean_from fi st t"
    using that mc at fat_marks_distinct(5,6) fat_marks_distinct(5,6) [symmetric] by (auto simp: clean_from_def)
qed

lemma splice_grow:
  assumes "length B = k" "length xs \<le> k - off" "length xs < k - off \<Longrightarrow> zs = []"
  shows "splice B off xs @ splice R (off - k) zs = splice (B @ R) off (xs @ zs)"
proof (cases "length xs = k - off")
  case True
  then show ?thesis using assms(1) by (intro splice_two)
next
  case False
  then have "zs = []" "off + length xs \<le> length B" using assms by simp_all
  then show ?thesis by (simp add: splice_append_left splice_nil)
qed

lemma grow_numbers:
  fixes C off n F l off' n' :: nat
  assumes "l = min (C - off) n" "off' = off - C" "n' = n - l" "0 < C" "0 < n"
  shows "n' + off' < n + off" "off + n \<le> F * C \<Longrightarrow> 0 < F \<and> off' + n' \<le> (F - 1) * C" "l + n' = n" "l \<le> C - off" "l < C - off \<Longrightarrow> n' = 0"
    "k * C < off' + n' + C \<Longrightarrow> Suc k * C < off + n + C"
proof -
  show "Suc k * C < off + n + C" if "k * C < off' + n' + C"
  proof (cases "C \<le> off + n")
    case True
    then show ?thesis using assms that by (simp add: min_def split: if_splits)
  next
    case False
    then have "off' + n' = 0" using assms by (simp add: min_def)
    then have "k = 0" using that by (cases k) auto
    then show ?thesis using assms(5) by simp
  qed

  show "0 < F \<and> off' + n' \<le> (F - 1) * C" if "off + n \<le> F * C"
  proof -
    have "F \<noteq> 0" using that assms(5) by (intro notI) simp
    then obtain G where "F = Suc G" by (cases F) auto
    then show ?thesis using assms that by (simp add: min_def) linarith
  qed
qed (use assms in \<open>auto simp: min_def\<close>)

text \<open>The loop ends: either all bytes are stored, or no cluster was found. The clusters it appended
  were free, the rest of the table is unchanged.\<close>

definition extended :: "('w \<Rightarrow> nat \<Rightarrow> byte list) \<Rightarrow> nat \<Rightarrow> fat_data \<Rightarrow> u32 \<Rightarrow> u32 list \<Rightarrow> u32 list \<Rightarrow> nat \<Rightarrow> byte list \<Rightarrow>
    ('w, 'z) nifat_state_scheme \<Rightarrow> ('w, 'z) nifat_state_scheme \<Rightarrow> bool" where
  "extended secs ssz fi st cs ds off xs s s' = (let t = fat_of secs ssz fi s; t' = fat_of secs ssz fi s' in
     grow_step secs ssz fi ds s s' \<and> set ds \<subseteq> free_from fi st t \<and> fat_chain fi t' (cs @ ds) \<and>
     (\<forall>d < unat (total_clusters fi). d \<notin> unat ` set (last cs # ds) \<longrightarrow> t' d = t d) \<and>
     file_bytes secs fi (world s') ds = splice (file_bytes secs fi (world s) ds) off xs)"

lemma chain_last: "fat_chain fi t cs \<Longrightarrow> in_vol fi (last cs) \<and> t (unat (last cs)) = FAT_CLUSTER_END"
  by (induction fi t cs rule: fat_chain.induct) auto

lemma extended_none:
  assumes "fat_chain fi (fat_of secs ssz fi s) cs" "grow_step secs ssz fi [] s s'" "ft.same fi (fat_of secs ssz fi s') (fat_of secs ssz fi s)"
  shows "extended secs ssz fi st cs [] off [] s s'"
  using assms fat_chain_same [OF assms(3)] by (simp add: extended_def Let_def ft.same_def splice_nil)

lemma extended_more:
  assumes links: "links_ok fi" and geom: "data_geom fi nsec ssz" and chain: "fat_chain fi (fat_of secs ssz fi s) cs"
    and c: "c \<in> free_from fi st (fat_of secs ssz fi s)" and ap: "cluster_area fi c \<inter> fat_sectors fi ssz = {}" "apart fi ssz ds"
    and same: "ft.same fi (fat_of secs ssz fi s2) ((fat_of secs ssz fi s)(unat c := FAT_CLUSTER_END, unat (last cs) := c))"
    and step: "grow_step secs ssz fi [c] s s2"
    and bytes: "length (cluster_bytes secs fi (world s) c) = k" "cluster_bytes secs fi (world s2) c = splice (cluster_bytes secs fi (world s) c) off xs"
    and fit: "length xs \<le> k - off" "length xs < k - off \<Longrightarrow> zs = []"
    and rest: "extended secs ssz fi st (cs @ [c]) ds (off - k) zs s2 s3"
  shows "extended secs ssz fi st cs (c # ds) off (xs @ zs) s s3"
proof -
  let ?t = "fat_of secs ssz fi s" and ?t2 = "fat_of secs ssz fi s2"
  have l: "in_vol fi (last cs)" "?t (unat (last cs)) \<noteq> FAT_CLUSTER_FREE"
    using chain_last [OF chain] fat_marks_distinct(3) [symmetric] by simp_all
  have civ: "in_vol fi c" using c by (simp add: free_from_def)
  note free = free_after [OF links c l same]
  have r: "grow_step secs ssz fi ds s2 s3" "set ds \<subseteq> free_from fi st ?t - {c}" "fat_chain fi (fat_of secs ssz fi s3) (cs @ c # ds)"
    "\<forall>d < unat (total_clusters fi). d \<notin> unat ` set (c # ds) \<longrightarrow> fat_of secs ssz fi s3 d = ?t2 d"
    "file_bytes secs fi (world s3) ds = splice (file_bytes secs fi (world s2) ds) (off - k) zs"
    using rest free(1) by (simp_all add: extended_def Let_def)
  have dvol: "\<forall>d \<in> set ds. in_vol fi d \<and> d \<notin> set [c]" using r(2) by (auto simp: free_from_def)
  have "file_bytes secs fi (world s3) [c] = file_bytes secs fi (world s2) [c]"
    by (rule grow_bytes_others [OF geom r(1)]) (use dvol civ ap in auto)
  moreover have "file_bytes secs fi (world s2) ds = file_bytes secs fi (world s) ds"
    by (rule grow_bytes_others [OF geom step]) (use dvol civ ap in auto)
  ultimately have "file_bytes secs fi (world s3) (c # ds) = splice (file_bytes secs fi (world s) (c # ds)) off (xs @ zs)"
    using r(5) bytes splice_grow [OF bytes(1) fit, of "file_bytes secs fi (world s) ds"] by simp
  moreover have "grow_step secs ssz fi (c # ds) s s3" using grow_step_trans [OF step r(1), of "c # ds"] by auto
  moreover have "fat_of secs ssz fi s3 d = ?t d" if "d < unat (total_clusters fi)" "d \<notin> unat ` set (last cs # c # ds)" for d
    using r(4) same that by (simp add: ft.same_def)
  ultimately show ?thesis using r(2,3) c unfolding extended_def Let_def by auto
qed


lemma extend_ok:
  assumes links: "links_ok fi" and geom: "data_geom fi nsec ssz"
  shows "vol_ok rd wr good secs nsec ssz fi s \<Longrightarrow> fs_data s = fi \<Longrightarrow> alloc_ready st s \<Longrightarrow> fat_chain fi (fat_of secs ssz fi s) cs \<Longrightarrow>
    \<forall>d \<in> free_from fi st (fat_of secs ssz fi s). cluster_area fi d \<inter> fat_sectors fi ssz = {} \<Longrightarrow>
    0 \<le> n \<Longrightarrow> 0 \<le> tot \<Longrightarrow> nat tot + nat n \<le> length data \<Longrightarrow>
    \<exists>ds m s'. extend_loop ci (last cs) off data n tot s = Some (tot + int m, s') \<and> m \<le> nat n \<and> vol_ok rd wr good secs nsec ssz fi s' \<and>
      extended secs ssz fi st cs ds (unat off) (take m (drop (nat tot) data)) s s' \<and>
      length ds * unat (cluster_size fi) < unat off + nat n + unat (cluster_size fi) \<and>
      (clean_from fi st (fat_of secs ssz fi s) \<and> unat off + nat n \<le> card (free_from fi st (fat_of secs ssz fi s)) * unat (cluster_size fi) \<longrightarrow> m = nat n)"
proof (induction "nat n + unat off" arbitrary: cs off n tot s rule: less_induct)
  case less
  let ?t = "fat_of secs ssz fi s" and ?csz = "unat (cluster_size fi)"
  have csz: "0 < ?csz" using geom less.prems(1) block_device.ssz_pos by (fastforce simp: data_geom_def vol_ok_def)
  show ?case
  proof (cases "n = 0")
    case True
    then have "extend_loop ci (last cs) off data n tot s = Some (tot + int 0, s)" by (simp add: extend_none)
    moreover have "extended secs ssz fi st cs [] (unat off) (take 0 (drop (nat tot) data)) s s"
      using extended_none [OF less.prems(4) grow_step_refl] by simp
    ultimately show ?thesis using less.prems(1) True csz by (intro exI [of _ "[]"] exI [of _ 0] exI [of _ s]) simp
  next
    case False
    then have pos: "0 < n" using less.prems(6) by simp
    have l: "in_vol fi (last cs)" using chain_last [OF less.prems(4)] by simp
    obtain c s1 where 1: "add_cluster_to_chain (last cs) s = Some (c, s1)" "vol_ok rd wr good secs nsec ssz fi s1" "grow_step secs ssz fi [] s s1"
      "if c = FAT_CLUSTER_BAD then ft.same fi (fat_of secs ssz fi s1) ?t
       else c \<in> free_from fi st ?t \<and> ft.same fi (fat_of secs ssz fi s1) (?t(unat c := FAT_CLUSTER_END, unat (last cs) := c))"
      "free_from fi st ?t \<noteq> {} \<and> clean_from fi st ?t \<longrightarrow> c \<noteq> FAT_CLUSTER_BAD"
      using add_chain_ok [OF less.prems(1,2) links less.prems(3) l] by blast
    have add: "add_cluster_to_content ci (last cs) s = Some (c, s1)" using 1(1) add_content_ok [OF l links, of ci s] by simp
    show ?thesis
    proof (cases "c = FAT_CLUSTER_BAD")
      case True
      have "extend_loop ci (last cs) off data n tot s = Some (tot + int 0, s1)" using extend_stop [OF add [unfolded True] pos] by simp
      moreover have "extended secs ssz fi st cs [] (unat off) (take 0 (drop (nat tot) data)) s s1"
        using extended_none [OF less.prems(4) 1(3)] 1(4) True by simp
      moreover have "free_from fi st ?t = {}" if "clean_from fi st ?t" using 1(5) True that by blast
      ultimately show ?thesis using 1(2) pos csz by (intro exI [of _ "[]"] exI [of _ 0] exI [of _ s1]) auto
    next
      case False
      then have c: "c \<in> free_from fi st ?t" "in_vol fi c" and same1: "ft.same fi (fat_of secs ssz fi s1) (?t(unat c := FAT_CLUSTER_END, unat (last cs) := c))"
        using 1(4) by (auto simp: free_from_def)
      have area: "cluster_area fi c \<inter> fat_sectors fi ssz = {}" using less.prems(5) c(1) by blast
      define xs where "xs = take (min (?csz - unat off) (nat n)) (drop (nat tot) data)"
      define l' where "l' = min (?csz - unat off) (nat n)"
      have "l' \<le> nat n" unfolding l'_def by simp
      then have lx: "length xs = l'" using less.prems(8) unfolding xs_def l'_def [symmetric] by simp
      let ?off = "if unat off > ?csz then off - cluster_size fi else 0"
      have off: "unat ?off = unat off - ?csz" by (auto simp: unat_sub word_le_nat_alt)
      have fd1: "fs_data s1 = fi" using grow_step_fields [OF 1(3)] less.prems(2) by simp
      obtain s2 where 2: "write_step c off data n tot s1 = Some (Some (?off, n - int (length xs), tot + int (length xs)), s2)"
        "cluster_bytes secs fi (world s2) c = splice (cluster_bytes secs fi (world s1) c) (unat off) xs"
        "vol_ok rd wr good secs nsec ssz fi s2" "ft.same fi (fat_of secs ssz fi s2) (fat_of secs ssz fi s1)" "data_step secs ssz fi [c] s1 s2"
        using write_step_ok [OF 1(2) geom fd1 c(2) area less.prems(6-8) xs_def] by blast
      have run: "extend_loop ci (last cs) off data n tot s = extend_loop ci c ?off data (n - int (length xs)) (tot + int (length xs)) s2"
        using extend_step [OF pos add _ 2(1)] False by (simp add: is_cluster_bad_def)
      have step: "grow_step secs ssz fi [c] s s2" using grow_step_trans [OF 1(3) grow_step_data [OF 2(5)]] by simp
      have same: "ft.same fi (fat_of secs ssz fi s2) (?t(unat c := FAT_CLUSTER_END, unat (last cs) := c))" using 2(4) same1 by (rule ft.same_trans)
      have notfree: "?t (unat (last cs)) \<noteq> FAT_CLUSTER_FREE" using chain_last [OF less.prems(4)] fat_marks_distinct(3) [symmetric] by simp
      note free = free_after [OF links c(1) l notfree same]
      have chain2: "fat_chain fi (fat_of secs ssz fi s2) (cs @ [c])"
        using fat_chain_append(2) [OF less.prems(4) c(2) _ links] c(1) fat_chain_same [OF same] by (simp add: free_from_def)
      have n': "nat (n - int (length xs)) = nat n - l'" unfolding lx using pos by simp
      note nums = grow_numbers [OF l'_def off n' csz]
      have p: "nat (n - int (length xs)) + unat ?off < nat n + unat off" using nums(1) pos by simp
      have q: "0 \<le> n - int (length xs)" "0 \<le> tot + int (length xs)"
        "nat (tot + int (length xs)) + nat (n - int (length xs)) \<le> length data" "nat (tot + int (length xs)) = length xs + nat tot"
        using \<open>l' \<le> nat n\<close> less.prems(6-8) unfolding lx by linarith+
      have fd2: "fs_data s2 = fi" using grow_step_fields [OF step] less.prems(2) by simp
      have ap2: "\<forall>d \<in> free_from fi st (fat_of secs ssz fi s2). cluster_area fi d \<inter> fat_sectors fi ssz = {}" using less.prems(5) free(1) by blast
      obtain ds m s3 where 3: "extend_loop ci (last (cs @ [c])) ?off data (n - int (length xs)) (tot + int (length xs)) s2 =
          Some (tot + int (length xs) + int m, s3)" "m \<le> nat (n - int (length xs))" "vol_ok rd wr good secs nsec ssz fi s3"
        "extended secs ssz fi st (cs @ [c]) ds (unat ?off) (take m (drop (nat (tot + int (length xs))) data)) s2 s3"
        "length ds * ?csz < unat ?off + nat (n - int (length xs)) + ?csz"
        "clean_from fi st (fat_of secs ssz fi s2) \<and> unat ?off + nat (n - int (length xs)) \<le> card (free_from fi st (fat_of secs ssz fi s2)) * ?csz \<longrightarrow>
           m = nat (n - int (length xs))"
        using less.hyps [OF p 2(3) fd2 alloc_ready_step [OF less.prems(3) step] chain2 ap2 q(1-3)] by blast
      define zs where "zs = take m (drop (nat (tot + int (length xs))) data)"
      have "xs = take (length xs) (drop (nat tot) data)" unfolding lx unfolding xs_def l'_def ..
      moreover have "zs = take m (drop (length xs) (drop (nat tot) data))" unfolding zs_def q(4) by (simp only: drop_drop)
      ultimately have parts: "xs @ zs = take (length xs + m) (drop (nat tot) data)" by (rule take_parts)
      have B: "length (cluster_bytes secs fi (world s) c) = ?csz" using length_cluster_bytes [OF less.prems(1) geom c(2)] .
      have "file_bytes secs fi (world s1) [c] = file_bytes secs fi (world s) [c]"
        by (rule grow_bytes_others [OF geom 1(3)]) (use c(2) area in auto)
      then have C: "cluster_bytes secs fi (world s2) c = splice (cluster_bytes secs fi (world s) c) (unat off) xs" using 2(2) by simp
      have "apart fi ssz ds"
        using 3(4) ap2 by (auto simp: extended_def Let_def apart_def)
      moreover have "length xs \<le> ?csz - unat off" unfolding lx using nums(4) pos by simp
      moreover have "zs = []" if "length xs < ?csz - unat off"
      proof -
        have "nat n - l' = 0" using nums(5) that pos unfolding lx by simp
        then show ?thesis using 3(2) unfolding n' zs_def by simp
      qed
      ultimately have ext: "extended secs ssz fi st cs (c # ds) (unat off) (xs @ zs) s s3"
        by (rule extended_more [OF links geom less.prems(4) c(1) area _ same step B C _ _ 3(4) [unfolded off, folded zs_def]])
      have "extend_loop ci (last cs) off data n tot s = Some (tot + int (length xs + m), s3)" using run 3(1) by simp
      moreover have "length xs + m \<le> nat n" using 3(2) \<open>l' \<le> nat n\<close> unfolding n' lx by linarith
      moreover have "length xs + m = nat n" if "clean_from fi st ?t" "unat off + nat n \<le> card (free_from fi st ?t) * ?csz"
      proof -
        have "card (free_from fi st (fat_of secs ssz fi s2)) = card (free_from fi st ?t) - 1" unfolding free(1) using c(1) by (simp add: card_Diff_singleton)
        moreover have "unat ?off + nat (n - int (length xs)) \<le> (card (free_from fi st ?t) - 1) * ?csz" using nums(2) that(2) pos by simp
        ultimately have "m = nat n - l'" using 3(6) free(2) that(1) unfolding n' by metis
        then show ?thesis using \<open>l' \<le> nat n\<close> unfolding lx by simp
      qed
      moreover have "length (c # ds) * ?csz < unat off + nat n + ?csz" using nums(6) [of "length ds"] 3(5) pos by simp
      ultimately show ?thesis using 3(3) ext unfolding parts by blast
    qed
  qed
qed

section \<open>The write that grows a file\<close>

text \<open>The write loop and the extension loop together, under the lock.\<close>

lemma write_extend:
  assumes links: "links_ok fi" and geom: "data_geom fi nsec ssz" and vol: "vol_ok rd wr good secs nsec ssz fi s" and fi: "fs_data s = fi"
    and chain: "fat_chain fi (fat_of secs ssz fi s) (c # cs)" "apart fi ssz (c # cs)" and ready: "alloc_ready st s"
    and free: "\<forall>d \<in> free_from fi st (fat_of secs ssz fi s). cluster_area fi d \<inter> fat_sectors fi ssz = {}"
    and L: "L = length (c # cs) * unat (cluster_size fi)"
  shows "\<exists>s1 s2 lca off' n' m0 m1 ds. write_loop c off data (int (length data)) 0 s = Some (Some (lca, off', n', int m0), s1) \<and>
    extend_loop ci lca off' data n' (int m0) s1 = Some (int (m0 + m1), s2) \<and> m0 + m1 \<le> length data \<and>
    m0 \<le> L - unat off \<and> (m0 < L - unat off \<longrightarrow> m1 = 0) \<and>
    file_bytes secs fi (world s1) (c # cs) = splice (file_bytes secs fi (world s) (c # cs)) (unat off) (take m0 data) \<and>
    ft.same fi (fat_of secs ssz fi s1) (fat_of secs ssz fi s) \<and> data_step secs ssz fi (c # cs) s s1 \<and>
    vol_ok rd wr good secs nsec ssz fi s2 \<and> extended secs ssz fi st (c # cs) ds (unat off - L) (take m1 (drop m0 data)) s1 s2 \<and>
    (ds \<noteq> [] \<longrightarrow> L + (length ds - 1) * unat (cluster_size fi) < unat off + length data) \<and>
    (clean_from fi st (fat_of secs ssz fi s) \<and> unat off + length data \<le> L + card (free_from fi st (fat_of secs ssz fi s)) * unat (cluster_size fi) \<longrightarrow>
       m0 + m1 = length data)"
proof -
  let ?t = "fat_of secs ssz fi s" and ?n = "length data"
  define m0 where "m0 = min ?n (L - unat off)"
  have m0: "m0 = min (nat (int ?n)) (length (c # cs) * unat (cluster_size fi) - unat off)" unfolding m0_def L by simp
  have le: "m0 \<le> ?n" "m0 \<le> L - unat off" "m0 < L - unat off \<Longrightarrow> m0 = ?n" unfolding m0_def by simp_all
  have n0: "0 \<le> int ?n" "nat 0 + nat (int ?n) \<le> ?n" by simp_all
  obtain s1 lca off' where 1: "write_loop c off data (int ?n) 0 s = Some (Some (lca, off', int ?n - int m0, 0 + int m0), s1)"
    "int m0 < int ?n \<longrightarrow> lca = last (c # cs) \<and> unat off' = unat off - length (c # cs) * unat (cluster_size fi)"
    "file_bytes secs fi (world s1) (c # cs) = splice (file_bytes secs fi (world s) (c # cs)) (unat off) (take m0 (drop (nat 0) data))"
    "vol_ok rd wr good secs nsec ssz fi s1" "ft.same fi (fat_of secs ssz fi s1) ?t" "data_step secs ssz fi (c # cs) s s1"
    using write_loop_part [OF links geom vol fi chain n0(1) order_refl n0(2) m0] by blast
  have g: "grow_step secs ssz fi (c # cs) s s1" using grow_step_data [OF 1(6)] .
  have chain1: "fat_chain fi (fat_of secs ssz fi s1) (c # cs)" using chain(1) fat_chain_same [OF 1(5)] by simp
  have fd: "fs_data s1 = fi" using grow_step_fields [OF g] fi by simp
  have same_free: "free_from fi st (fat_of secs ssz fi s1) = free_from fi st ?t" "clean_from fi st (fat_of secs ssz fi s1) = clean_from fi st ?t"
    using 1(5) by (auto simp: free_from_def clean_from_def ft.same_def in_vol_def word_less_nat_alt)
  show ?thesis
  proof (cases "m0 = ?n")
    case True
    have "extend_loop ci lca off' data (int ?n - int m0) (int m0) s1 = Some (int (m0 + 0), s1)" by (simp add: extend_none True)
    moreover have "extended secs ssz fi st (c # cs) [] (unat off - L) (take 0 (drop m0 data)) s1 s1"
      using extended_none [OF chain1 grow_step_refl] by simp
    ultimately show ?thesis using 1(1,3-6) True le(2)
      by (intro exI [of _ s1] exI [of _ s1] exI [of _ lca] exI [of _ off'] exI [of _ "int ?n - int m0"] exI [of _ m0] exI [of _ "0 :: nat"] exI [of _ "[]"]) simp
  next
    case False
    then have lt: "m0 < ?n" and full: "m0 = L - unat off" using le by linarith+
    then have lca: "lca = last (c # cs)" "unat off' = unat off - L" using 1(2) L by simp_all
    have p: "0 \<le> int ?n - int m0" "(0 :: int) \<le> int m0" "nat (int m0) + nat (int ?n - int m0) \<le> ?n" "nat (int ?n - int m0) = ?n - m0" "nat (int m0) = m0"
      using lt by simp_all
    obtain ds m1 s2 where 2: "extend_loop ci (last (c # cs)) off' data (int ?n - int m0) (int m0) s1 = Some (int m0 + int m1, s2)"
      "m1 \<le> ?n - m0" "vol_ok rd wr good secs nsec ssz fi s2"
      "extended secs ssz fi st (c # cs) ds (unat off') (take m1 (drop m0 data)) s1 s2"
      "length ds * unat (cluster_size fi) < unat off' + (?n - m0) + unat (cluster_size fi)"
      "clean_from fi st (fat_of secs ssz fi s1) \<and> unat off' + (?n - m0) \<le> card (free_from fi st (fat_of secs ssz fi s1)) * unat (cluster_size fi) \<longrightarrow> m1 = ?n - m0"
      using extend_ok [OF links geom 1(4) fd alloc_ready_step [OF ready g] chain1 _ p(1-3), of ci off'] free same_free(1) unfolding p(4,5) by blast
    have "m0 + m1 = ?n" if "clean_from fi st ?t" "unat off + ?n \<le> L + card (free_from fi st ?t) * unat (cluster_size fi)"
    proof -
      have "unat off - L + (?n - m0) \<le> card (free_from fi st ?t) * unat (cluster_size fi)" using that(2) full lt by linarith
      then show ?thesis using 2(6) that(1) lt unfolding same_free lca(2) by simp
    qed
    moreover have "L + (length ds - 1) * unat (cluster_size fi) < unat off + ?n" if "ds \<noteq> []"
    proof -
      have "length ds * unat (cluster_size fi) = (length ds - 1) * unat (cluster_size fi) + unat (cluster_size fi)"
        using that by (cases ds) simp_all
      then have "(length ds - 1) * unat (cluster_size fi) < unat off - L + (?n - m0)" using 2(5) unfolding lca(2) by linarith
      then show ?thesis using full lt by linarith
    qed
    moreover have "m0 + m1 \<le> ?n" using 2(2) lt by simp
    ultimately show ?thesis using 1(1,3-6) 2(1,3,4) le(2) full unfolding lca
      by (intro exI [of _ s1] exI [of _ s2] exI [of _ "last (c # cs)"] exI [of _ off'] exI [of _ "int ?n - int m0"] exI [of _ m0] exI [of _ m1] exI [of _ ds]) simp
  qed
qed

lemma grow_step_api:
  fixes s :: "('w, 'z) nifat_state_scheme"
  assumes "grow_step secs ssz fi cs (s\<lparr>fs_api_lock := HELD\<rparr>) s'" "fs_api_lock s = NULL_LOCK"
  shows "grow_step secs ssz fi cs s (s'\<lparr>fs_api_lock := NULL_LOCK\<rparr>)"
proof -
  obtain w b k e where "s' = s\<lparr>fs_api_lock := HELD, world := w, bitmap := b, fat_cache := k, errors_ring := e\<rparr>"
    "\<forall>x. x \<notin> fat_sectors fi ssz \<and> (\<forall>c \<in> set cs. x \<notin> cluster_area fi c) \<longrightarrow> secs w x = secs (world s) x"
    using assms(1) unfolding grow_step_def by auto
  moreover from this(1) have "s'\<lparr>fs_api_lock := NULL_LOCK\<rparr> = s\<lparr>world := w, bitmap := b, fat_cache := k, errors_ring := e\<rparr>"
    using assms(2) by (cases s) simp
  ultimately show ?thesis unfolding grow_step_def by blast
qed

lemma length_file_bytes:
  assumes "vol_ok rd wr good secs nsec ssz fi s" "data_geom fi nsec ssz" "\<forall>c \<in> set cs. in_vol fi c"
  shows "length (file_bytes secs fi (world s) cs) = length cs * unat (cluster_size fi)"
  using length_cluster_bytes [OF assms(1,2)] assms(3)
  by (simp add: file_bytes_def length_concat comp_def sum_list_triv cong: map_cong)

lemma file_bytes_append: "file_bytes secs fi w (cs @ ds) = file_bytes secs fi w cs @ file_bytes secs fi w ds"
  by (simp add: file_bytes_def)

lemma content_grow_ok:
  fixes s :: "('w, 'z) nifat_state_scheme"
  assumes f: "open_file rd wr good secs nsec ssz ci cs s" and fi: "fi = fs_data s" and t: "t = fat_of secs ssz fi s"
    and ready: "alloc_ready st s" and free: "\<forall>d \<in> free_from fi st t. cluster_area fi d \<inter> fat_sectors fi ssz = {}"
  shows "\<exists>m ds s'. NIFAT32_write_buffer2content ci off data (int (length data)) s = Some (int m, s') \<and> m \<le> length data \<and>
    open_file rd wr good secs nsec ssz ci (cs @ ds) s' \<and> set ds \<subseteq> free_from fi st t \<and>
    file_bytes secs fi (world s') (cs @ ds) = splice (file_bytes secs fi (world s) (cs @ ds)) (unat off) (take m data) \<and>
    (\<forall>d < unat (total_clusters fi). d \<notin> unat ` set (last cs # ds) \<longrightarrow> fat_of secs ssz fi s' d = t d) \<and>
    grow_step secs ssz fi (cs @ ds) s s' \<and>
    (ds \<noteq> [] \<longrightarrow> (length (cs @ ds) - 1) * unat (cluster_size fi) < unat off + length data) \<and>
    (clean_from fi st t \<and> unat off + length data \<le> (length cs + card (free_from fi st t)) * unat (cluster_size fi) \<longrightarrow> m = length data)"
proof -
  let ?h = "s\<lparr>fs_api_lock := HELD\<rparr>" and ?L = "length cs * unat (cluster_size fi)"
  obtain c cs' where cs: "cs = c # cs'" using f by (cases cs) (auto simp: open_file_def)
  have h: "vol_ok rd wr good secs nsec ssz fi ?h" "fs_data ?h = fi" "fat_chain fi (fat_of secs ssz fi ?h) cs" "apart fi ssz cs"
    and links: "links_ok fi" and geom: "data_geom fi nsec ssz" and lock: "fs_api_lock s = NULL_LOCK"
    and mode: "IS_WRITE_MODE (get_content_mode ci s)" "get_content_data_ca ci s = c"
    using f by (auto simp: open_file_def Let_def cs fi)
  have ready': "alloc_ready st ?h" using ready by (simp add: alloc_ready_def Let_def)
  have th: "fat_of secs ssz fi ?h = t" by (simp add: t)
  obtain s1 s2 lca off' n' m0 m1 ds where w: "write_loop c off data (int (length data)) 0 ?h = Some (Some (lca, off', n', int m0), s1)"
    "extend_loop ci lca off' data n' (int m0) s1 = Some (int (m0 + m1), s2)" "m0 + m1 \<le> length data"
    "m0 \<le> ?L - unat off" "m0 < ?L - unat off \<longrightarrow> m1 = 0"
    "file_bytes secs fi (world s1) cs = splice (file_bytes secs fi (world ?h) cs) (unat off) (take m0 data)"
    "ft.same fi (fat_of secs ssz fi s1) t" "data_step secs ssz fi cs ?h s1"
    "vol_ok rd wr good secs nsec ssz fi s2" "extended secs ssz fi st cs ds (unat off - ?L) (take m1 (drop m0 data)) s1 s2"
    "ds \<noteq> [] \<longrightarrow> ?L + (length ds - 1) * unat (cluster_size fi) < unat off + length data"
    "clean_from fi st t \<and> unat off + length data \<le> ?L + card (free_from fi st t) * unat (cluster_size fi) \<longrightarrow> m0 + m1 = length data"
    using write_extend [OF links geom h(1,2) h(3,4) [unfolded cs] ready' free [folded th] refl, of off data ci] unfolding th cs [symmetric] by blast
  have free1: "free_from fi st (fat_of secs ssz fi s1) = free_from fi st t"
    using w(7) by (auto simp: free_from_def ft.same_def in_vol_def word_less_nat_alt)
  have e: "grow_step secs ssz fi ds s1 s2" "set ds \<subseteq> free_from fi st t" "fat_chain fi (fat_of secs ssz fi s2) (cs @ ds)"
    "\<forall>d < unat (total_clusters fi). d \<notin> unat ` set (last cs # ds) \<longrightarrow> fat_of secs ssz fi s2 d = fat_of secs ssz fi s1 d"
    "file_bytes secs fi (world s2) ds = splice (file_bytes secs fi (world s1) ds) (unat off - ?L) (take m1 (drop m0 data))"
    using w(10) free1 by (simp_all add: extended_def Let_def)
  have vols: "\<forall>d \<in> set (cs @ ds). in_vol fi d" using fat_chain_in_vol [OF e(3)] by blast
  have dist: "set cs \<inter> set ds = {}" using fat_chain_distinct [OF links e(3)] by simp
  have ap: "apart fi ssz ds" using e(2) free by (auto simp: apart_def)
  have g1: "grow_step secs ssz fi cs ?h s1" using grow_step_data [OF w(8)] .
  have "file_bytes secs fi (world s2) cs = file_bytes secs fi (world s1) cs"
    by (rule grow_bytes_others [OF geom e(1)]) (use vols dist h(4) in auto)
  moreover have "file_bytes secs fi (world s1) ds = file_bytes secs fi (world ?h) ds"
    by (rule grow_bytes_others [OF geom g1]) (use vols dist ap in auto)
  moreover have "length (file_bytes secs fi (world ?h) cs) = ?L"
    using length_file_bytes [OF h(1) geom, of cs] vols by simp
  moreover have "length (take m0 data) = m0" using w(3) by simp
  moreover have "take m0 data @ take m1 (drop m0 data) = take (m0 + m1) data" by (rule take_add [symmetric])
  ultimately have bytes: "file_bytes secs fi (world s2) (cs @ ds) = splice (file_bytes secs fi (world s) (cs @ ds)) (unat off) (take (m0 + m1) data)"
    using splice_grow [of "file_bytes secs fi (world ?h) cs" ?L "take m0 data" "unat off" "take m1 (drop m0 data)" "file_bytes secs fi (world ?h) ds"]
      w(4-6) e(5) by (simp add: file_bytes_append)
  let ?s = "s2\<lparr>fs_api_lock := NULL_LOCK\<rparr>"
  have g2: "grow_step secs ssz fi (cs @ ds) ?h s2" using grow_step_trans [OF g1 e(1)] by simp
  have g: "grow_step secs ssz fi (cs @ ds) s ?s" using grow_step_api [OF g2 lock] .
  have held: "fs_api_lock s2 = HELD" "content_table s2 = content_table s" "fs_data s2 = fi" using grow_step_fields [OF g2] fi by simp_all
  have "NIFAT32_write_buffer2content ci off data (int (length data)) s = Some (int (m0 + m1), ?s)"
    unfolding NIFAT32_write_buffer2content_def using w(1,2) mode held by (intro fs_api_free [OF lock]) simp_all
  moreover have "open_file rd wr good secs nsec ssz ci (cs @ ds) ?s"
    using f w(9) held content_step [of ?s s] e(3) ap by (simp add: open_file_def Let_def fi apart_def ball_Un)
  moreover have "fat_of secs ssz fi ?s d = t d" if "d < unat (total_clusters fi)" "d \<notin> unat ` set (last cs # ds)" for d
    using e(4) w(7) that by (simp add: ft.same_def)
  moreover have "(length (cs @ ds) - 1) * unat (cluster_size fi) < unat off + length data" if "ds \<noteq> []"
    using w(11) that by (cases ds) (simp_all add: add_mult_distrib)
  moreover have "m0 + m1 = length data"
    if "clean_from fi st t" "unat off + length data \<le> (length cs + card (free_from fi st t)) * unat (cluster_size fi)"
    using w(12) that by (simp add: add_mult_distrib)
  ultimately show ?thesis using w(3) e(2) bytes g by (intro exI [of _ "m0 + m1"] exI [of _ ds] exI [of _ ?s]) simp
qed

section \<open>Properties\<close>


lemma test_free_from:
  assumes "\<forall>d < 16. t d = (if d = 5 then 6 else if d = 6 then FAT_CLUSTER_END else FAT_CLUSTER_FREE)"
  shows "clean_from test_vol 8 t" "{8, 9, 10} \<subseteq> free_from test_vol 8 t"
  using assms by (auto simp: clean_from_def free_from_def in_vol_def)


end
