(* ===== verification/Directory.thy ===== *)
theory Directory
  imports Growth
begin

text \<open>
  A directory as the lists of entries its clusters hold. \<open>entry_iterate\<close>, \<open>entry_search\<close>, \<open>entry_edit\<close>,
  \<open>entry_remove\<close> and \<open>entry_add\<close> are described on these lists, for volumes without journals and calls
  without the entry cache: which entries are in sight, which of them a search finds, and what each
  operation leaves of them.
\<close>

unbundle bit_operations_syntax

section \<open>Slots\<close>

definition de_wf :: "directory_entry \<Rightarrow> bool" where
  "de_wf e = (length (de_file_name e) = 11)"

lemma length_bytes_of_de [simp]: "de_wf e \<Longrightarrow> length (bytes_of_de e) = sizeof_entry"
  by (simp add: de_wf_def bytes_of_de_def sizeof_entry_def)

lemma get_u32_at: "length xs = k \<Longrightarrow> get_u32 (xs @ bytes_of_u32 w @ ys) k = w"
  by (simp add: get_u32_def bytes_of_u32_def nth_append)

lemma de_of_bytes_of_de [simp]:
  assumes "de_wf e" shows "de_of_bytes (bytes_of_de e) = e"
proof -
  let ?n = "de_file_name e" and ?b = bytes_of_u32
  have l: "length ?n = 11" using assms by (simp add: de_wf_def)
  have b: "bytes_of_de e = ?n @ ?b (de_name_hash e) @ [de_attributes e] @ ?b (de_rca e) @ ?b (de_dca e) @ ?b (de_file_size e) @ ?b (de_checksum e)"
    by (simp add: bytes_of_de_def)
  have h: "get_u32 (bytes_of_de e) 11 = de_name_hash e" unfolding b using l by (rule get_u32_at)
  have a: "bytes_of_de e ! 15 = de_attributes e" unfolding b using l by (simp add: nth_append)
  have r: "get_u32 (bytes_of_de e) 16 = de_rca e"
    using get_u32_at [of "?n @ ?b (de_name_hash e) @ [de_attributes e]" 16] l unfolding b by simp
  have d: "get_u32 (bytes_of_de e) 20 = de_dca e"
    using get_u32_at [of "?n @ ?b (de_name_hash e) @ [de_attributes e] @ ?b (de_rca e)" 20] l unfolding b by simp
  have z: "get_u32 (bytes_of_de e) 24 = de_file_size e"
    using get_u32_at [of "?n @ ?b (de_name_hash e) @ [de_attributes e] @ ?b (de_rca e) @ ?b (de_dca e)" 24] l unfolding b by simp
  have c: "get_u32 (bytes_of_de e) 28 = de_checksum e"
    using get_u32_at [of "?n @ ?b (de_name_hash e) @ [de_attributes e] @ ?b (de_rca e) @ ?b (de_dca e) @ ?b (de_file_size e)" 28 "de_checksum e" "[]"] l
    unfolding b by simp
  have "take 11 (bytes_of_de e) = ?n" unfolding b using l by simp
  then show ?thesis using h a r d z c by (simp add: de_of_bytes_def)
qed

lemma entry_at_wf [simp]: "Suc i * sizeof_entry \<le> length dec \<Longrightarrow> de_wf (entry_at dec i)"
  by (simp add: entry_at_def de_of_bytes_def de_wf_def sizeof_entry_def)

lemma slot_room: "i < n \<Longrightarrow> n * sizeof_entry \<le> m \<Longrightarrow> Suc i * sizeof_entry \<le> m"
  by (rule order_trans [OF mult_le_mono1]) simp_all

lemma entry_at_put:
  assumes "de_wf e" "Suc i * sizeof_entry \<le> length dec" "Suc j * sizeof_entry \<le> length dec"
  shows "entry_at (put_entry dec i e) j = (if i = j then e else entry_at dec j)"
proof (cases "i = j")
  case True
  have "i * sizeof_entry + length (bytes_of_de e) \<le> length dec" using assms(1,2) by simp
  from splice_read [OF this] show ?thesis using True assms(1) by (simp add: entry_at_def put_entry_def)
next
  case False
  have l: "length (bytes_of_de e) = sizeof_entry" using assms(1) by simp
  have "take sizeof_entry (drop (j * sizeof_entry) (put_entry dec i e)) = take sizeof_entry (drop (j * sizeof_entry) dec)"
  proof (rule nth_equalityI)
    show "length (take sizeof_entry (drop (j * sizeof_entry) (put_entry dec i e))) = length (take sizeof_entry (drop (j * sizeof_entry) dec))"
      using assms l by (simp add: put_entry_def)
    fix k assume "k < length (take sizeof_entry (drop (j * sizeof_entry) (put_entry dec i e)))"
    then have k: "k < sizeof_entry" by simp
    have "j * sizeof_entry + k < length dec" using assms(3) k by simp
    moreover have "\<not> (i * sizeof_entry \<le> j * sizeof_entry + k \<and> j * sizeof_entry + k < i * sizeof_entry + sizeof_entry)"
      using False k by (auto simp: sizeof_entry_def)
    ultimately have "put_entry dec i e ! (j * sizeof_entry + k) = dec ! (j * sizeof_entry + k)"
      using nth_splice [of "i * sizeof_entry" "bytes_of_de e" dec "j * sizeof_entry + k"] assms(2) l by (auto simp: put_entry_def)
    then show "take sizeof_entry (drop (j * sizeof_entry) (put_entry dec i e)) ! k = take sizeof_entry (drop (j * sizeof_entry) dec) ! k"
      using k assms l by (simp add: put_entry_def)
  qed
  then show ?thesis using False by (simp add: entry_at_def)
qed

lemma length_put_entry [simp]: "de_wf e \<Longrightarrow> Suc i * sizeof_entry \<le> length dec \<Longrightarrow> length (put_entry dec i e) = length dec"
  by (simp add: put_entry_def)

text \<open>Writing the end mark into the name of an entry.\<close>

definition end_mark :: "directory_entry \<Rightarrow> directory_entry" where
  "end_mark e = e\<lparr>de_file_name := (de_file_name e)[0 := ENTRY_END]\<rparr>"

lemma de_of_bytes_end: "length bs = sizeof_entry \<Longrightarrow> de_of_bytes (bs[0 := ENTRY_END]) = end_mark (de_of_bytes bs)"
  by (simp add: de_of_bytes_def end_mark_def get_u32_def sizeof_entry_def nth_list_update take_update_swap)

lemma entry_at_end:
  assumes "Suc i * sizeof_entry \<le> length dec" "Suc j * sizeof_entry \<le> length dec"
  shows "entry_at (dec[i * sizeof_entry := ENTRY_END]) j = (if i = j then end_mark (entry_at dec j) else entry_at dec j)"
proof -
  have "take sizeof_entry (drop (j * sizeof_entry) (dec[i * sizeof_entry := ENTRY_END])) =
      (if i = j then (take sizeof_entry (drop (j * sizeof_entry) dec))[0 := ENTRY_END] else take sizeof_entry (drop (j * sizeof_entry) dec))"
    using assms by (intro nth_equalityI) (auto simp: nth_list_update sizeof_entry_def)
  then show ?thesis using assms(2) by (simp add: entry_at_def de_of_bytes_end)
qed

definition slots :: "nat \<Rightarrow> byte list \<Rightarrow> directory_entry list" where
  "slots n dec = map (entry_at dec) [0..<n]"

lemma length_slots [simp]: "length (slots n dec) = n"
  by (simp add: slots_def)

lemma nth_slots [simp]: "i < n \<Longrightarrow> slots n dec ! i = entry_at dec i"
  by (simp add: slots_def)

lemma slots_wf: "n * sizeof_entry \<le> length dec \<Longrightarrow> e \<in> set (slots n dec) \<Longrightarrow> de_wf e"
  using slot_room by (auto simp: slots_def intro!: entry_at_wf)

lemma slots_put:
  assumes "de_wf e" "i < n" "n * sizeof_entry \<le> length dec"
  shows "slots n (put_entry dec i e) = (slots n dec)[i := e]"
proof (rule nth_equalityI)
  fix j assume "j < length (slots n (put_entry dec i e))"
  then have j: "j < n" by simp
  show "slots n (put_entry dec i e) ! j = (slots n dec)[i := e] ! j"
    using entry_at_put [OF assms(1) slot_room [OF assms(2,3)] slot_room [OF j assms(3)]] j by (simp add: nth_list_update)
qed simp

lemma slots_end:
  assumes "i < n" "n * sizeof_entry \<le> length dec"
  shows "slots n (dec[i * sizeof_entry := ENTRY_END]) = (slots n dec)[i := end_mark (slots n dec ! i)]"
proof (rule nth_equalityI)
  fix j assume "j < length (slots n (dec[i * sizeof_entry := ENTRY_END]))"
  then have j: "j < n" by simp
  show "slots n (dec[i * sizeof_entry := ENTRY_END]) ! j = (slots n dec)[i := end_mark (slots n dec ! i)] ! j"
    using entry_at_end [OF slot_room [OF assms] slot_room [OF j assms(2)]] j assms(1) by (simp add: nth_list_update)
qed simp

section \<open>Valid, live and last entries\<close>

definition valid :: "directory_entry \<Rightarrow> bool" where "valid e = fst (validate_entry e)"

definition scrub :: "directory_entry \<Rightarrow> directory_entry" where "scrub e = snd (validate_entry e)"

definition live_entry :: "directory_entry \<Rightarrow> bool" where
  "live_entry e = (valid e \<and> de_file_name e ! 0 \<noteq> ENTRY_FREE)"

definition is_end :: "directory_entry \<Rightarrow> bool" where "is_end e = (de_file_name e ! 0 = ENTRY_END)"

text \<open>The entries the traversals reach in a cluster.\<close>

definition visible :: "directory_entry list \<Rightarrow> directory_entry list" where
  "visible es = takeWhile (\<lambda>e. \<not> is_end e) es"

lemma validate_split: "validate_entry e = (valid e, scrub e)"
  by (simp add: valid_def scrub_def)

lemma scrub_simps [simp]:
  "de_file_name (scrub e) = de_file_name e" "de_wf (scrub e) = de_wf e" "is_end (scrub e) = is_end e"
  by (simp_all add: scrub_def validate_entry_def Let_def de_wf_def is_end_def)

lemma scrub_valid [simp]: "valid e \<Longrightarrow> scrub e = e"
  by (simp add: valid_def scrub_def validate_entry_def Let_def split: if_splits)

lemma scrub_invalid: "\<not> valid e \<Longrightarrow> scrub e = e\<lparr>de_checksum := 0\<rparr>"
  by (simp add: valid_def scrub_def validate_entry_def Let_def split: if_splits)

lemma valid_iff: "valid e = (de_checksum e = entry_sum (e\<lparr>de_checksum := 0\<rparr>))"
  by (auto simp: valid_def validate_entry_def Let_def)

text \<open>The entry a traversal stops at: the first that is live and satisfies \<open>P\<close>, if the end mark does
  not come before it; and what it leaves of the slots: an invalid entry loses its checksum, the entry it
  stops at is what the handler makes of it.\<close>

definition hit :: "(directory_entry \<Rightarrow> bool) \<Rightarrow> directory_entry list \<Rightarrow> directory_entry option" where
  "hit P es = List.find (\<lambda>e. live_entry e \<and> P e) (visible es)"

primrec settled :: "(directory_entry \<Rightarrow> bool) \<Rightarrow> (directory_entry \<Rightarrow> directory_entry) \<Rightarrow> directory_entry list \<Rightarrow> directory_entry list" where
  "settled P f [] = []"
| "settled P f (e # es) = (if is_end e then e # es else if live_entry e \<and> P e then f e # es else scrub e # settled P f es)"

lemma hit_simps [simp]:
  "hit P [] = None"
  "hit P (e # es) = (if is_end e then None else if live_entry e \<and> P e then Some e else hit P es)"
  by (auto simp: hit_def visible_def)

lemma hit_live: "hit P es = Some e \<Longrightarrow> e \<in> set es \<and> live_entry e \<and> P e"
  by (induction es) (auto split: if_splits)

lemma length_settled [simp]: "length (settled P f es) = length es"
  by (induction es) auto

section \<open>The walk over the slots of a cluster\<close>

lemma iterate_walk:
  assumes skip: "\<And>info e. de_wf e \<Longrightarrow> \<not> (live_entry e \<and> P e) \<Longrightarrow> h info e ctx s = Some ((0, scrub e, ctx), s)"
    and stop: "\<And>info e. ei_ca info = ca \<Longrightarrow> hit P (slots n dec0) = Some e \<Longrightarrow> h info e ctx s = Some ((1, f e, ctx'), s')"
    and wf: "\<And>e. hit P (slots n dec0) = Some e \<Longrightarrow> de_wf (f e)"
  shows "i + k = n \<Longrightarrow> n * sizeof_entry \<le> length dec \<Longrightarrow> hit P (drop i (slots n dec)) = hit P (slots n dec0) \<Longrightarrow>
    \<exists>D. iterate_slots k (Some h) i ca dec ctx s = Some (case hit P (slots n dec0) of None \<Rightarrow> ((0, D, ctx), s) | Some e \<Rightarrow> ((1, D, ctx'), s')) \<and>
      length D = length dec \<and> slots n D = take i (slots n dec) @ settled P f (drop i (slots n dec))"
proof (induction k arbitrary: i dec)
  case 0
  then show ?case by (intro exI [of _ dec]) auto
next
  case (Suc k)
  then have i: "i < n" by simp
  let ?e = "entry_at dec i"
  have es: "drop i (slots n dec) = ?e # drop (Suc i) (slots n dec)" using i by (simp add: Cons_nth_drop_Suc [symmetric])
  note room = slot_room [OF i Suc.prems(2)]
  have ewf: "de_wf ?e" using room by (rule entry_at_wf)
  have put: "slots n (put_entry dec i x) = take i (slots n dec) @ x # drop (Suc i) (slots n dec)" if "de_wf x" for x
    using slots_put [OF that i Suc.prems(2)] i by (simp add: upd_conv_take_nth_drop)
  show ?case
  proof (cases "is_end ?e")
    case True
    then have h: "hit P (slots n dec0) = None" "settled P f (drop i (slots n dec)) = drop i (slots n dec)" using Suc.prems(3) unfolding es by simp_all
    have "iterate_slots (Suc k) (Some h) i ca dec ctx s = Some ((0, dec, ctx), s)" using True by (simp add: is_end_def)
    then show ?thesis unfolding h by (intro exI [of _ dec]) simp
  next
    case more: False
    show ?thesis
    proof (cases "live_entry ?e \<and> P ?e")
      case True
      then have h: "hit P (slots n dec0) = Some ?e" "settled P f (drop i (slots n dec)) = f ?e # drop (Suc i) (slots n dec)"
        using Suc.prems(3) more unfolding es by simp_all
      have "iterate_slots (Suc k) (Some h) i ca dec ctx s = Some ((1, put_entry dec i (f ?e), ctx'), s')"
        using more stop [OF _ h(1), of "\<lparr>ei_ca = ca, ei_offset = int i\<rparr>"] by (simp add: is_end_def)
      then show ?thesis using put [OF wf [OF h(1)]] length_put_entry [OF wf [OF h(1)] room] unfolding h
        by (intro exI [of _ "put_entry dec i (f ?e)"]) simp
    next
      case False
      let ?dec = "put_entry dec i (scrub ?e)"
      have sw: "de_wf (scrub ?e)" using ewf by simp
      have len: "length ?dec = length dec" using sw room by (rule length_put_entry)
      have sl: "take (Suc i) (slots n ?dec) = take i (slots n dec) @ [scrub ?e]" "drop (Suc i) (slots n ?dec) = drop (Suc i) (slots n dec)"
        using i by (simp_all add: put [OF sw])
      have h: "hit P (drop i (slots n dec)) = hit P (drop (Suc i) (slots n dec))"
        "settled P f (drop i (slots n dec)) = scrub ?e # settled P f (drop (Suc i) (slots n dec))" unfolding es hit_simps settled.simps using False more by auto
      obtain D where D: "iterate_slots k (Some h) (Suc i) ca ?dec ctx s =
          Some (case hit P (slots n dec0) of None \<Rightarrow> ((0, D, ctx), s) | Some e \<Rightarrow> ((1, D, ctx'), s'))"
        "length D = length ?dec" "slots n D = take (Suc i) (slots n ?dec) @ settled P f (drop (Suc i) (slots n ?dec))"
        using Suc.IH [of "Suc i" ?dec] Suc.prems h(1) unfolding sl len by auto
      have "iterate_slots (Suc k) (Some h) i ca dec ctx s = iterate_slots k (Some h) (Suc i) ca ?dec ctx s"
        using more skip [OF ewf False] by (simp add: is_end_def)
      then show ?thesis using D h(2) len unfolding sl by (intro exI [of _ D]) simp
    qed
  qed
qed

section \<open>A directory cluster on the disk\<close>

definition dir_slots :: "('w \<Rightarrow> nat \<Rightarrow> byte list) \<Rightarrow> fat_data \<Rightarrow> 'w \<Rightarrow> u32 \<Rightarrow> directory_entry list" where
  "dir_slots secs fi w c = slots (entries_per_cluster fi)
     (nft32_unpack_memory (u16s_of_bytes (cluster_bytes secs fi w c)) (decoded_len fi))"

lemma length_dir_slots [simp]: "length (dir_slots secs fi w c) = entries_per_cluster fi"
  by (simp add: dir_slots_def)

lemma entries_fit: "entries_per_cluster fi * sizeof_entry \<le> decoded_len fi"
  by (simp add: entries_per_cluster_def decoded_len_def)

lemma dir_slots_wf: "e \<in> set (dir_slots secs fi w c) \<Longrightarrow> de_wf e"
  unfolding dir_slots_def by (rule slots_wf) (simp_all add: entries_fit)

lemma u16s_of_bytes_app: "u16s_of_bytes (bytes_of_u16s ws @ rest) = ws @ u16s_of_bytes rest"
  by (induction ws) (simp_all add: bytes_of_u16s_def bytes_of_u16_def)

lemma u16s_splice:
  assumes "length B div 2 = length ws"
  shows "u16s_of_bytes (splice B 0 (bytes_of_u16s ws)) = ws"
proof -
  have "length (u16s_of_bytes (drop (length (bytes_of_u16s ws)) B)) = 0" using assms by simp
  then have "u16s_of_bytes (drop (length (bytes_of_u16s ws)) B) = []" by (simp only: length_0_conv)
  then show ?thesis by (simp only: splice_def take_0 append_Nil add_0 u16s_of_bytes_app append_Nil2)
qed

lemma splice_whole: "length xs = length buf \<Longrightarrow> splice buf 0 xs = xs"
  by (simp add: splice_def)

lemma unpack_encoded:
  assumes "length D = decoded_len fi" "length B = unat (cluster_size fi)"
  shows "nft32_unpack_memory (u16s_of_bytes (encode_cluster D B fi)) (decoded_len fi) = D"
proof -
  have l: "length (u16s_of_bytes B) = decoded_len fi" using assms(2) by (simp add: decoded_len_def sizeof_encoded_def)
  have "u16s_of_bytes (encode_cluster D B fi) = nft32_pack_memory D (u16s_of_bytes B) (decoded_len fi)"
    unfolding encode_cluster_def by (rule u16s_splice) simp
  then show ?thesis using unpack_pack [of "decoded_len fi" D "u16s_of_bytes B"] assms(1) l by simp
qed

lemma length_encode_cluster [simp]: "length B = unat (cluster_size fi) \<Longrightarrow> length (encode_cluster D B fi) = unat (cluster_size fi)"
  by (simp add: encode_cluster_def)

lemma cluster_size_int:
  assumes "data_geom fi nsec ssz" shows "0 \<le> int_of_u32 (cluster_size fi)" "nat (int_of_u32 (cluster_size fi)) = unat (cluster_size fi)"
proof -
  have "unat (cluster_size fi) < 2 ^ 31" using assms by (simp add: data_geom_def)
  then show "0 \<le> int_of_u32 (cluster_size fi)" "nat (int_of_u32 (cluster_size fi)) = unat (cluster_size fi)"
    using sint_small [of "cluster_size fi"] by simp_all
qed

lemma read_encoded_ok:
  fixes s :: "('w, 'z) ecache_state_scheme"
  assumes vol: "vol_ok rd wr good secs nsec ssz fi s" and geom: "data_geom fi nsec ssz" and links: "links_ok fi" and c: "in_vol fi c"
  obtains w where "read_encoded_cluster c (replicate (unat (cluster_size fi)) 0) fi s = Some ((1, cluster_bytes secs fi (world s) c,
      nft32_unpack_memory (u16s_of_bytes (cluster_bytes secs fi (world s) c)) (decoded_len fi)), s\<lparr>world := w\<rparr>)"
    "good w" "secs w = secs (world s)"
proof -
  let ?B = "cluster_bytes secs fi (world s) c" and ?z = "replicate (unat (cluster_size fi)) 0 :: byte list"
  have B: "length ?B = unat (cluster_size fi)" using vol geom c by (rule length_cluster_bytes)
  note n = cluster_size_int [OF geom]
  obtain w where w: "readoff_cluster c 0 ?z (int_of_u32 (cluster_size fi)) fi s =
      Some ((1, splice ?z 0 (take (nat (int_of_u32 (cluster_size fi))) (drop (unat (0 :: u32)) ?B))), s\<lparr>world := w\<rparr>)" "good w" "secs w = secs (world s)"
    using readoff_cluster_ok [OF vol geom c n(1), of 0 ?z] n(2) by auto
  have "splice ?z 0 (take (nat (int_of_u32 (cluster_size fi))) (drop (unat (0 :: u32)) ?B)) = ?B"
    using n(2) B by (simp add: splice_whole)
  moreover have "\<not> is_cluster_bad c" using in_vol_marks [OF links c] by (simp add: cluster_tests)
  ultimately show ?thesis using w that [of w] by (simp add: read_encoded_cluster_def read_cluster_def)
qed

lemma write_encoded_ok:
  fixes s :: "('w, 'z) ecache_state_scheme"
  assumes vol: "vol_ok rd wr good secs nsec ssz fi s" and geom: "data_geom fi nsec ssz" and c: "in_vol fi c"
    and area: "cluster_area fi c \<inter> fat_sectors fi ssz = {}" and D: "length D = decoded_len fi" and B: "length B = unat (cluster_size fi)"
  obtains s' where "write_cluster c (encode_cluster D B fi) (int_of_u32 (cluster_size fi)) fi s = Some (1, s')"
    "vol_ok rd wr good secs nsec ssz fi s'" "ft.same fi (fat_of secs ssz fi s') (fat_of secs ssz fi s)" "data_step secs ssz fi [c] s s'"
    "dir_slots secs fi (world s') c = slots (entries_per_cluster fi) D"
proof -
  let ?E = "encode_cluster D B fi"
  note n = cluster_size_int [OF geom]
  have C: "length (cluster_bytes secs fi (world s) c) = unat (cluster_size fi)" using vol geom c by (rule length_cluster_bytes)
  have len: "unat (0 :: u32) + length ?E \<le> unat (cluster_size fi)" "int_of_u32 (cluster_size fi) = int (length ?E)"
    using B n(1) by (simp, simp only: length_encode_cluster [OF B] n(2) [symmetric] nat_0_le)
  obtain w where w: "writeoff_cluster c 0 ?E (int_of_u32 (cluster_size fi)) fi s = Some (1, s\<lparr>world := w\<rparr>)" "good w"
    "cluster_bytes secs fi w c = splice (cluster_bytes secs fi (world s) c) (unat (0 :: u32)) ?E"
    "\<forall>i. i \<notin> cluster_area fi c \<longrightarrow> secs w i = secs (world s) i"
    using writeoff_cluster_ok [OF vol geom c len] by blast
  have E: "cluster_bytes secs fi w c = ?E" using w(3) B C by (simp add: splice_whole)
  have "fat_geom fi nsec ssz" using vol by (simp add: vol_ok_def)
  then have same: "ft.same fi (fat_of secs ssz fi (s\<lparr>world := w\<rparr>)) (fat_of secs ssz fi s)"
    using w(4) area by (intro fat_of_world) auto
  have "data_step secs ssz fi [c] s (s\<lparr>world := w\<rparr>)"
    unfolding data_step_def using w(4) by (intro exI [of _ w] exI [of _ "bitmap s"] exI [of _ "fat_cache s"]) simp
  moreover have "dir_slots secs fi w c = slots (entries_per_cluster fi) D" unfolding dir_slots_def E unpack_encoded [OF D B] ..
  ultimately show ?thesis using that [of "s\<lparr>world := w\<rparr>"] w(1) vol_ok_world [OF vol w(2)] same by (simp add: write_cluster_def)
qed

lemma dir_slots_others:
  assumes "data_geom fi nsec ssz" "data_step secs ssz fi cs s s'" "\<And>c. c \<in> set cs \<Longrightarrow> in_vol fi c"
    and "in_vol fi d" "d \<notin> set cs" "cluster_area fi d \<inter> fat_sectors fi ssz = {}"
  shows "dir_slots secs fi (world s') d = dir_slots secs fi (world s) d"
  using file_bytes_others [OF assms(1,2), of "[d]"] assms(3-6) by (simp add: dir_slots_def)

section \<open>The walk over a directory\<close>

text \<open>Directories are chains of clusters. The end mark of a cluster only ends the walk in that cluster.\<close>

primrec found_in :: "(directory_entry \<Rightarrow> bool) \<Rightarrow> (u32 \<Rightarrow> directory_entry list) \<Rightarrow> u32 list \<Rightarrow> (u32 \<times> directory_entry) option" where
  "found_in P S [] = None"
| "found_in P S (c # cs) = (case hit P (S c) of Some e \<Rightarrow> Some (c, e) | None \<Rightarrow> found_in P S cs)"

primrec settled_in :: "(directory_entry \<Rightarrow> bool) \<Rightarrow> (directory_entry \<Rightarrow> directory_entry) \<Rightarrow> (u32 \<Rightarrow> directory_entry list) \<Rightarrow>
    u32 list \<Rightarrow> directory_entry list list" where
  "settled_in P f S [] = []"
| "settled_in P f S (c # cs) = settled P f (S c) # (if hit P (S c) = None then settled_in P f S cs else map S cs)"

lemma found_in_cong: "(\<And>c. c \<in> set cs \<Longrightarrow> S c = S' c) \<Longrightarrow> found_in P S cs = found_in P S' cs"
  by (induction cs) (auto split: option.splits)

lemma settled_in_cong: "(\<And>c. c \<in> set cs \<Longrightarrow> S c = S' c) \<Longrightarrow> settled_in P f S cs = settled_in P f S' cs"
  by (induction cs) auto

lemma found_in_entry: "found_in P S cs = Some (c, e) \<Longrightarrow> c \<in> set cs \<and> hit P (S c) = Some e \<and> e \<in> set (S c) \<and> live_entry e \<and> P e"
  by (induction cs) (auto split: option.splits dest: hit_live)

lemma walk_cluster:
  fixes s :: "('w, 'z) ecache_state_scheme"
  assumes links: "links_ok fi" and geom: "data_geom fi nsec ssz"
    and vol: "vol_ok rd wr good secs nsec ssz fi s" and same: "ft.same fi (fat_of secs ssz fi s) t"
    and c: "in_vol fi c" "cluster_area fi c \<inter> fat_sectors fi ssz = {}"
    and F: "hit P (dir_slots secs fi (world s) c) = F"
    and skip: "\<And>info e (s :: ('w, 'z) ecache_state_scheme). de_wf e \<Longrightarrow> \<not> (live_entry e \<and> P e) \<Longrightarrow> h info e ctx s = Some ((0, scrub e, ctx), s)"
    and stop: "\<And>e (s :: ('w, 'z) ecache_state_scheme). F = Some e \<Longrightarrow> vol_ok rd wr good secs nsec ssz fi s \<Longrightarrow>
      ft.same fi (fat_of secs ssz fi s) t \<Longrightarrow> \<exists>s'. (\<forall>info. ei_ca info = c \<longrightarrow> h info e ctx s = Some ((1, f e, g), s')) \<and>
        vol_ok rd wr good secs nsec ssz fi s' \<and> ft.same fi (fat_of secs ssz fi s') u \<and> fat_step secs ssz fi s s'"
    and wf: "\<And>e. F = Some e \<Longrightarrow> de_wf (f e)"
  shows "\<exists>s'. (F = None \<longrightarrow> entry_iterate c (Some h) ctx fi s =
        (if is_cluster_end (t (unat c)) then Some ((0, ctx), s') else entry_iterate (t (unat c)) (Some h) ctx fi s')) \<and>
      (F \<noteq> None \<longrightarrow> entry_iterate c (Some h) ctx fi s = Some ((1, g), s')) \<and>
      vol_ok rd wr good secs nsec ssz fi s' \<and> ft.same fi (fat_of secs ssz fi s') (if F = None then t else u) \<and> data_step secs ssz fi [c] s s' \<and>
      dir_slots secs fi (world s') c = settled P f (dir_slots secs fi (world s) c)"
proof -
  let ?B = "cluster_bytes secs fi (world s) c"
  let ?dec = "nft32_unpack_memory (u16s_of_bytes ?B) (decoded_len fi)"
  let ?n = "entries_per_cluster fi"
  have B: "length ?B = unat (cluster_size fi)" using vol geom c(1) by (rule length_cluster_bytes)
  have S: "dir_slots secs fi (world s) c = slots ?n ?dec" by (simp add: dir_slots_def)
  have room: "?n * sizeof_entry \<le> length ?dec" by (simp add: entries_fit)
  have fg: "fat_geom fi nsec ssz" using vol by (simp add: vol_ok_def)
  obtain w where w: "read_encoded_cluster c (replicate (unat (cluster_size fi)) 0) fi s = Some ((1, ?B, ?dec), s\<lparr>world := w\<rparr>)"
    "good w" "secs w = secs (world s)"
    by (rule read_encoded_ok [OF vol geom links c(1)])
  let ?s0 = "s\<lparr>world := w\<rparr>"
  have v0: "vol_ok rd wr good secs nsec ssz fi ?s0" using vol w(2) by (rule vol_ok_world)
  have same0: "ft.same fi (fat_of secs ssz fi ?s0) t"
    by (rule ft.same_trans [OF fat_of_world [OF fg] same]) (simp add: w(3))
  obtain s' where s': "\<And>info e. F = Some e \<Longrightarrow> ei_ca info = c \<Longrightarrow> h info e ctx ?s0 = Some ((1, f e, g), s')"
    "vol_ok rd wr good secs nsec ssz fi (if F = None then ?s0 else s')"
    "ft.same fi (fat_of secs ssz fi (if F = None then ?s0 else s')) (if F = None then t else u)"
    "fat_step secs ssz fi ?s0 (if F = None then ?s0 else s')"
  proof (cases F)
    case None
    then show ?thesis using that [of ?s0] v0 same0 fat_step_refl [of secs ssz fi ?s0] by simp
  next
    case (Some e)
    then show ?thesis using stop [OF Some v0 same0] that by auto
  qed
  let ?s1 = "if F = None then ?s0 else s'"
  have "\<exists>D. iterate_slots ?n (Some h) 0 c ?dec ctx ?s0 = Some (case hit P (slots ?n ?dec) of None \<Rightarrow> ((0, D, ctx), ?s0) | Some e \<Rightarrow> ((1, D, g), s')) \<and>
      length D = length ?dec \<and> slots ?n D = take 0 (slots ?n ?dec) @ settled P f (drop 0 (slots ?n ?dec))"
  proof (rule iterate_walk [where P = P and h = h and ctx = ctx and s = ?s0 and ca = c and n = ?n and ?dec0.0 = ?dec and f = f and ctx' = g and s' = s'])
    show "h info e ctx ?s0 = Some ((0, scrub e, ctx), ?s0)" if "de_wf e" "\<not> (live_entry e \<and> P e)" for info e using that by (rule skip)
    show "h info e ctx ?s0 = Some ((1, f e, g), s')" if "ei_ca info = c" "hit P (slots ?n ?dec) = Some e" for info e
      using s'(1) that F S by simp
    show "de_wf (f e)" if "hit P (slots ?n ?dec) = Some e" for e using wf that F S by simp
    show "?n * sizeof_entry \<le> length ?dec" by (rule room)
  qed simp_all
  then obtain D where D: "iterate_slots ?n (Some h) 0 c ?dec ctx ?s0 = Some (if F = None then (0, D, ctx) else (1, D, g), ?s1)"
    "length D = decoded_len fi" "slots ?n D = settled P f (slots ?n ?dec)"
    using F S by (auto split: option.splits)
  obtain s2 where s2: "write_cluster c (encode_cluster D ?B fi) (int_of_u32 (cluster_size fi)) fi ?s1 = Some (1, s2)"
    "vol_ok rd wr good secs nsec ssz fi s2" "ft.same fi (fat_of secs ssz fi s2) (fat_of secs ssz fi ?s1)" "data_step secs ssz fi [c] ?s1 s2"
    "dir_slots secs fi (world s2) c = slots ?n D"
    by (rule write_encoded_ok [OF s'(2) geom c D(2) B])
  let ?v = "fat_of secs ssz fi s2 (unat c)"
  obtain s3 where s3: "read_fat c fi s2 = Some (?v, s3)" "vol_ok rd wr good secs nsec ssz fi s3"
    "ft.same fi (fat_of secs ssz fi s3) (fat_of secs ssz fi s2)" "fat_step secs ssz fi s2 s3"
    by (rule read_linkE [OF s2(2) c(1)])
  have it: "entry_iterate c (Some h) ctx fi s = (if \<not> is_cluster_end ?v \<and> F = None then entry_iterate ?v (Some h) ctx fi s3
         else Some (if F = None then (0, ctx) else (1, g), s3))"
    using w(1) D(1) s2(1) s3(1) by (subst entry_iterate.simps) (cases F; simp add: Let_def)
  have same2: "ft.same fi (fat_of secs ssz fi s2) (if F = None then t else u)" using s2(3) s'(3) by (rule ft.same_trans)
  then have "?v = (if F = None then t else u) (unat c)" using ft.same_at [OF same2] c(1) by (simp add: in_vol_def)
  then have "(F = None \<longrightarrow> entry_iterate c (Some h) ctx fi s =
        (if is_cluster_end (t (unat c)) then Some ((0, ctx), s3) else entry_iterate (t (unat c)) (Some h) ctx fi s3)) \<and>
      (F \<noteq> None \<longrightarrow> entry_iterate c (Some h) ctx fi s = Some ((1, g), s3))" unfolding it by simp
  moreover have "fat_step secs ssz fi s ?s0" using w(3) by (rule fat_step_world)
  then have "fat_step secs ssz fi s ?s1" using s'(4) by (rule fat_step_trans)
  then have "data_step secs ssz fi [c] s s2" using data_step_trans [OF data_step_fat [of secs ssz fi s ?s1 "[]"] s2(4)] by simp
  then have "data_step secs ssz fi [c] s s3" using data_step_trans [OF _ data_step_fat [OF s3(4), of "[]"]] by simp
  moreover have "dir_slots secs fi (world s3) c = settled P f (dir_slots secs fi (world s) c)"
    using dir_slots_others [OF geom data_step_fat [OF s3(4), of "[]"], of c] c s2(5) D(3) S by simp
  ultimately show ?thesis using s3(2) ft.same_trans [OF s3(3) same2] by blast
qed

lemma walk_dir:
  fixes s :: "('w, 'z) ecache_state_scheme"
  assumes links: "links_ok fi" and geom: "data_geom fi nsec ssz"
    and skip: "\<And>info e (s :: ('w, 'z) ecache_state_scheme). de_wf e \<Longrightarrow> \<not> (live_entry e \<and> P e) \<Longrightarrow> h info e ctx s = Some ((0, scrub e, ctx), s)"
    and stop: "\<And>c e (s :: ('w, 'z) ecache_state_scheme). F = Some (c, e) \<Longrightarrow> vol_ok rd wr good secs nsec ssz fi s \<Longrightarrow>
      ft.same fi (fat_of secs ssz fi s) t \<Longrightarrow> \<exists>s'. (\<forall>info. ei_ca info = c \<longrightarrow> h info e ctx s = Some ((1, f e, g), s')) \<and>
        vol_ok rd wr good secs nsec ssz fi s' \<and> ft.same fi (fat_of secs ssz fi s') u \<and> fat_step secs ssz fi s s'"
    and wf: "\<And>c e. F = Some (c, e) \<Longrightarrow> de_wf (f e)"
  shows "vol_ok rd wr good secs nsec ssz fi s \<Longrightarrow> ft.same fi (fat_of secs ssz fi s) t \<Longrightarrow> fat_chain fi t (c # cs) \<Longrightarrow> apart fi ssz (c # cs) \<Longrightarrow>
    found_in P (dir_slots secs fi (world s)) (c # cs) = F \<Longrightarrow>
    \<exists>s'. entry_iterate c (Some h) ctx fi s = Some (if F = None then (0, ctx) else (1, g), s') \<and>
      vol_ok rd wr good secs nsec ssz fi s' \<and> ft.same fi (fat_of secs ssz fi s') (if F = None then t else u) \<and> data_step secs ssz fi (c # cs) s s' \<and>
      map (dir_slots secs fi (world s')) (c # cs) = settled_in P f (dir_slots secs fi (world s)) (c # cs)"
proof (induction cs arbitrary: c s)
  case (Nil c s)
  let ?S = "dir_slots secs fi (world s)"
  have c: "in_vol fi c" "cluster_area fi c \<inter> fat_sectors fi ssz = {}" using Nil.prems(3,4) by simp_all
  have F: "F = map_option (Pair c) (hit P (?S c))" using Nil.prems(5) by (auto split: option.splits)
  note one = walk_cluster [where h = h and ctx = ctx and f = f and g = g and u = u, OF links geom Nil.prems(1,2) c refl]
  have "\<exists>s'. (hit P (?S c) = None \<longrightarrow> entry_iterate c (Some h) ctx fi s =
        (if is_cluster_end (t (unat c)) then Some ((0, ctx), s') else entry_iterate (t (unat c)) (Some h) ctx fi s')) \<and>
      (hit P (?S c) \<noteq> None \<longrightarrow> entry_iterate c (Some h) ctx fi s = Some ((1, g), s')) \<and>
      vol_ok rd wr good secs nsec ssz fi s' \<and> ft.same fi (fat_of secs ssz fi s') (if hit P (?S c) = None then t else u) \<and> data_step secs ssz fi [c] s s' \<and>
      dir_slots secs fi (world s') c = settled P f (?S c)"
    by (rule one) (use skip stop wf F in auto)
  then show ?case using F chain_link(2) [OF links Nil.prems(3)] by (cases "hit P (?S c)") auto
next
  case (Cons d cs c s)
  let ?S = "dir_slots secs fi (world s)"
  have c: "in_vol fi c" "cluster_area fi c \<inter> fat_sectors fi ssz = {}" and ap: "apart fi ssz (d # cs)" using Cons.prems(3,4) by simp_all
  have F: "F = (case hit P (?S c) of Some e \<Rightarrow> Some (c, e) | None \<Rightarrow> found_in P ?S (d # cs))" using Cons.prems(5) by simp
  have dis: "c \<notin> set (d # cs)" using fat_chain_distinct [OF links Cons.prems(3)] by simp
  have vols: "in_vol fi x" "cluster_area fi x \<inter> fat_sectors fi ssz = {}" if "x \<in> set (d # cs)" for x
    using that fat_chain_in_vol [OF Cons.prems(3), of x] ap by (auto simp: apart_def)
  note one = walk_cluster [where h = h and ctx = ctx and f = f and g = g and u = u, OF links geom Cons.prems(1,2) c refl]
  have "\<exists>s'. (hit P (?S c) = None \<longrightarrow> entry_iterate c (Some h) ctx fi s =
        (if is_cluster_end (t (unat c)) then Some ((0, ctx), s') else entry_iterate (t (unat c)) (Some h) ctx fi s')) \<and>
      (hit P (?S c) \<noteq> None \<longrightarrow> entry_iterate c (Some h) ctx fi s = Some ((1, g), s')) \<and>
      vol_ok rd wr good secs nsec ssz fi s' \<and> ft.same fi (fat_of secs ssz fi s') (if hit P (?S c) = None then t else u) \<and> data_step secs ssz fi [c] s s' \<and>
      dir_slots secs fi (world s') c = settled P f (?S c)"
    by (rule one) (use skip stop wf F in auto)
  then obtain s2 where it: "hit P (?S c) = None \<longrightarrow> entry_iterate c (Some h) ctx fi s =
        (if is_cluster_end (t (unat c)) then Some ((0, ctx), s2) else entry_iterate (t (unat c)) (Some h) ctx fi s2)"
      "hit P (?S c) \<noteq> None \<longrightarrow> entry_iterate c (Some h) ctx fi s = Some ((1, g), s2)"
    and v2: "vol_ok rd wr good secs nsec ssz fi s2" and same: "ft.same fi (fat_of secs ssz fi s2) (if hit P (?S c) = None then t else u)"
    and step: "data_step secs ssz fi [c] s s2" and here: "dir_slots secs fi (world s2) c = settled P f (?S c)"
    by - (erule exE, elim conjE, rule that)
  have others: "dir_slots secs fi (world s2) x = ?S x" if "x \<in> set (d # cs)" for x
    using dir_slots_others [OF geom step, of x] c(1) vols [OF that] dis that by auto
  show ?case
  proof (cases "hit P (?S c)")
    case (Some e)
    have "data_step secs ssz fi (c # d # cs) s s2" using data_step_trans [OF step data_step_fat [OF fat_step_refl [of secs ssz fi s2], of "[]"]] by simp
    then show ?thesis using it(2) v2 same F Some here others by (intro exI [of _ s2]) simp
  next
    case None
    have go: "entry_iterate c (Some h) ctx fi s = entry_iterate d (Some h) ctx fi s2"
      using it(1) None chain_link(3) [OF links Cons.prems(3) refl] by simp
    have ch: "fat_chain fi t (d # cs)" using chain_link(3) [OF links Cons.prems(3) refl] by simp
    have F2: "found_in P (dir_slots secs fi (world s2)) (d # cs) = F" using found_in_cong [where P = P and cs = "d # cs", OF others] F None by simp
    have same2: "ft.same fi (fat_of secs ssz fi s2) t" using same None by simp
    obtain s3 where s3: "entry_iterate d (Some h) ctx fi s2 = Some (if F = None then (0, ctx) else (1, g), s3)"
      "vol_ok rd wr good secs nsec ssz fi s3" "ft.same fi (fat_of secs ssz fi s3) (if F = None then t else u)" "data_step secs ssz fi (d # cs) s2 s3"
      "map (dir_slots secs fi (world s3)) (d # cs) = settled_in P f (dir_slots secs fi (world s2)) (d # cs)"
      using Cons.IH [OF v2 same2 ch ap F2] by blast
    have "dir_slots secs fi (world s3) c = dir_slots secs fi (world s2) c"
      using dir_slots_others [OF geom s3(4), of c] vols c dis by auto
    moreover have "settled_in P f (dir_slots secs fi (world s2)) (d # cs) = settled_in P f ?S (d # cs)"
      using others by (rule settled_in_cong)
    ultimately have "map (dir_slots secs fi (world s3)) (c # d # cs) = settled_in P f ?S (c # d # cs)"
      using s3(5) here None by simp
    moreover have "data_step secs ssz fi (c # d # cs) s s3" using step s3(4) by (rule data_step_trans) auto
    ultimately show ?thesis using go s3(1-3) by (intro exI [of _ s3]) simp
  qed
qed

section \<open>Searching\<close>

text \<open>A directory: a chain of clusters off the table.\<close>

definition dir_ready :: "'w read_fun \<Rightarrow> 'w write_fun \<Rightarrow> ('w \<Rightarrow> bool) \<Rightarrow> ('w \<Rightarrow> nat \<Rightarrow> byte list) \<Rightarrow> nat \<Rightarrow> nat \<Rightarrow> fat_data \<Rightarrow> u32 list \<Rightarrow>
    ('w, 'z) ecache_state_scheme \<Rightarrow> bool" where
  "dir_ready rd wr good secs nsec ssz fi cs s = (vol_ok rd wr good secs nsec ssz fi s \<and> data_geom fi nsec ssz \<and> links_ok fi \<and>
     fat_chain fi (fat_of secs ssz fi s) cs \<and> apart fi ssz cs)"

text \<open>The test of the search handler: the hash of the name and its eleven characters, up to a NUL.\<close>

definition same_name :: "byte list \<Rightarrow> byte list \<Rightarrow> bool" where
  "same_name a b = (nft32_str_strncmp a b 11 = Some 0)"

definition named :: "byte list \<Rightarrow> directory_entry \<Rightarrow> bool" where
  "named name e = (de_name_hash e = nft32_murmur3_x86_32 name 11 0 \<and> same_name name (de_file_name e))"

lemma strncmp_loop_total: "i + k \<le> length p \<Longrightarrow> i + k \<le> length q \<Longrightarrow> \<exists>d. strncmp_loop p q k i = Some d"
  by (induction k arbitrary: i) auto

lemma strncmp_loop_sym: "i + k \<le> length p \<Longrightarrow> i + k \<le> length q \<Longrightarrow> (strncmp_loop p q k i = Some 0) = (strncmp_loop q p k i = Some 0)"
  by (induction k arbitrary: i) auto

lemma strncmp_loop_same: "i + k \<le> length p \<Longrightarrow> i + k \<le> length q \<Longrightarrow> (\<And>j. j < i + k \<Longrightarrow> p ! j = q ! j) \<Longrightarrow> strncmp_loop p q k i = Some 0"
  by (induction k arbitrary: i) auto

lemma strncmp_total: "11 \<le> length a \<Longrightarrow> 11 \<le> length b \<Longrightarrow> \<exists>d. nft32_str_strncmp a b 11 = Some d"
  unfolding nft32_str_strncmp_def by (rule strncmp_loop_total) simp_all

lemma strncmp_cases:
  assumes "11 \<le> length a" "11 \<le> length b"
  obtains "same_name a b" "nft32_str_strncmp a b 11 = Some 0" | d where "\<not> same_name a b" "nft32_str_strncmp a b 11 = Some d" "d \<noteq> 0"
proof -
  obtain d where "nft32_str_strncmp a b 11 = Some d" using strncmp_total [OF assms] by blast
  then show ?thesis using that by (cases "d = 0") (simp_all add: same_name_def)
qed

lemma same_name_sym: "11 \<le> length a \<Longrightarrow> 11 \<le> length b \<Longrightarrow> same_name a b = same_name b a"
  unfolding same_name_def nft32_str_strncmp_def by (rule strncmp_loop_sym) simp_all

lemma same_name_take: "11 \<le> length a \<Longrightarrow> same_name a (take 11 a)"
  unfolding same_name_def nft32_str_strncmp_def by (rule strncmp_loop_same) simp_all

lemma de_wf_name: "de_wf e \<Longrightarrow> 11 \<le> length (de_file_name e)"
  by (simp add: de_wf_def)

text \<open>The two outcomes of the search handler.\<close>

lemma search_skip:
  assumes "de_wf e" "11 \<le> length (ctx_name ctx)" "ctx_name_hash ctx = nft32_murmur3_x86_32 (ctx_name ctx) 11 0"
    and "\<not> (live_entry e \<and> named (ctx_name ctx) e)"
  shows "search_handler info e ctx s = Some ((0, scrub e, ctx), s)"
  using strncmp_cases [OF assms(2) de_wf_name [OF assms(1)]] assms(3,4)
  by cases (auto simp: search_handler_def validate_split Let_def live_entry_def named_def)

lemma search_stop:
  assumes "de_wf e" "11 \<le> length (ctx_name ctx)" "ctx_name_hash ctx = nft32_murmur3_x86_32 (ctx_name ctx) 11 0"
    and "live_entry e \<and> named (ctx_name ctx) e"
  shows "search_handler info e ctx s = Some ((1, e, ctx\<lparr>ctx_meta := map_option (\<lambda>_. e\<lparr>de_rca := ei_ca info\<rparr>) (ctx_meta ctx)\<rparr>), s)"
  using assms(3,4) by (auto simp: search_handler_def validate_split Let_def live_entry_def named_def same_name_def)

lemma found_in_wf:
  assumes "found_in P (dir_slots secs fi w) cs = Some (c, e)" shows "de_wf e"
  using found_in_entry [OF assms] by (intro dir_slots_wf [where secs = secs and fi = fi and w = w and c = c]) simp

lemma dir_ready_step:
  assumes "dir_ready rd wr good secs nsec ssz fi cs s" "vol_ok rd wr good secs nsec ssz fi s'" "ft.same fi (fat_of secs ssz fi s') (fat_of secs ssz fi s)"
  shows "dir_ready rd wr good secs nsec ssz fi cs s'"
  using assms fat_chain_same [OF assms(3)] by (simp add: dir_ready_def)

lemma entry_search_ok:
  fixes s :: "('w, 'z) ecache_state_scheme"
  assumes dir: "dir_ready rd wr good secs nsec ssz fi (c # cs) s" and name: "11 \<le> length name"
    and F: "found_in (named name) (dir_slots secs fi (world s)) (c # cs) = F"
  shows "\<exists>s'. entry_search (Some name) c None meta fi s =
      Some ((case F of None \<Rightarrow> (0, meta) | Some (d, e) \<Rightarrow> (1, map_option (\<lambda>_. e\<lparr>de_rca := d\<rparr>) meta)), s') \<and>
    dir_ready rd wr good secs nsec ssz fi (c # cs) s' \<and> ft.same fi (fat_of secs ssz fi s') (fat_of secs ssz fi s) \<and>
    data_step secs ssz fi (c # cs) s s' \<and>
    map (dir_slots secs fi (world s')) (c # cs) = settled_in (named name) id (dir_slots secs fi (world s)) (c # cs)"
proof -
  let ?ctx = "\<lparr>ctx_name = name, ctx_name_hash = nft32_murmur3_x86_32 name 11 0, ctx_meta = meta, ctx_index = None, ctx_ji = 0\<rparr>"
  let ?g = "case F of None \<Rightarrow> ?ctx | Some (d, e) \<Rightarrow> ?ctx\<lparr>ctx_meta := map_option (\<lambda>_. e\<lparr>de_rca := d\<rparr>) meta\<rparr>"
  let ?t = "fat_of secs ssz fi s"
  have d: "vol_ok rd wr good secs nsec ssz fi s" "data_geom fi nsec ssz" "links_ok fi" "fat_chain fi ?t (c # cs)" "apart fi ssz (c # cs)"
    using dir by (simp_all add: dir_ready_def)
  have "\<exists>s'. entry_iterate c (Some search_handler) ?ctx fi s = Some (if F = None then (0, ?ctx) else (1, ?g), s') \<and>
      vol_ok rd wr good secs nsec ssz fi s' \<and> ft.same fi (fat_of secs ssz fi s') (if F = None then ?t else ?t) \<and> data_step secs ssz fi (c # cs) s s' \<and>
      map (dir_slots secs fi (world s')) (c # cs) = settled_in (named name) id (dir_slots secs fi (world s)) (c # cs)"
  proof (rule walk_dir [OF d(3,2) _ _ _ d(1) ft.same_refl d(4,5) F])
    show "search_handler info e ?ctx s = Some ((0, scrub e, ?ctx), s)" if "de_wf e" "\<not> (live_entry e \<and> named name e)"
      for info e and s :: "('w, 'z) ecache_state_scheme" using that name by (intro search_skip) simp_all
    show "\<exists>s'. (\<forall>info. ei_ca info = ca \<longrightarrow> search_handler info e ?ctx s1 = Some ((1, id e, ?g), s')) \<and>
        vol_ok rd wr good secs nsec ssz fi s' \<and> ft.same fi (fat_of secs ssz fi s') ?t \<and> fat_step secs ssz fi s1 s'"
      if "F = Some (ca, e)" "vol_ok rd wr good secs nsec ssz fi s1" "ft.same fi (fat_of secs ssz fi s1) ?t"
      for ca e and s1 :: "('w, 'z) ecache_state_scheme"
    proof -
      note f = F [unfolded that(1)]
      have e: "live_entry e" "named name e" "de_wf e" using found_in_entry [OF f] found_in_wf [OF f] by simp_all
      have "search_handler info e ?ctx s1 = Some ((1, id e, ?g), s1)" if "ei_ca info = ca" for info
        using search_stop [OF e(3), of ?ctx info s1] e(1,2) name \<open>F = Some (ca, e)\<close> that by simp
      then show ?thesis using that fat_step_refl [of secs ssz fi s1] by (intro exI [of _ s1]) simp
    qed
    show "de_wf (id e)" if "F = Some (ca, e)" for ca e using found_in_wf [OF F [unfolded that]] by simp
  qed
  then obtain s' where s': "entry_iterate c (Some search_handler) ?ctx fi s = Some (if F = None then (0, ?ctx) else (1, ?g), s')"
    "vol_ok rd wr good secs nsec ssz fi s'" "ft.same fi (fat_of secs ssz fi s') ?t" "data_step secs ssz fi (c # cs) s s'"
    "map (dir_slots secs fi (world s')) (c # cs) = settled_in (named name) id (dir_slots secs fi (world s)) (c # cs)" by auto
  have "entry_search (Some name) c None meta fi s =
      Some ((case F of None \<Rightarrow> (0, meta) | Some (d, e) \<Rightarrow> (1, map_option (\<lambda>_. e\<lparr>de_rca := d\<rparr>) meta)), s')"
    using s'(1) name by (auto simp: entry_search_def hash11_def split: option.splits)
  then show ?thesis using dir_ready_step [OF dir s'(2,3)] s'(3-5) by blast
qed

section \<open>Removing a file\<close>

definition erased :: "directory_entry \<Rightarrow> directory_entry" where
  "erased e = e\<lparr>de_file_name := (de_file_name e)[0 := ENTRY_FREE]\<rparr>"

lemma erased_wf [simp]: "de_wf (erased e) = de_wf e"
  by (simp add: erased_def de_wf_def)

lemma erased_free: "de_wf e \<Longrightarrow> de_file_name (erased e) ! 0 = ENTRY_FREE"
  by (simp add: erased_def de_wf_def)

lemma fat_chain_freed: "set ds \<inter> set cs = {} \<Longrightarrow> fat_chain fi (freed t ds) cs = fat_chain fi t cs"
  by (induction fi t cs rule: fat_chain.induct) (auto simp: freed_def dest: word_unat_eq_iff [THEN iffD2])

lemma remove_skip:
  assumes "de_wf e" "11 \<le> length (ctx_name ctx)" "\<not> (live_entry e \<and> same_name (de_file_name e) (ctx_name ctx))"
  shows "remove_handler fi info e ctx s = Some ((0, scrub e, ctx), s)"
  using strncmp_cases [OF de_wf_name [OF assms(1)] assms(2)] assms(3)
  by cases (auto simp: remove_handler_def validate_split Let_def live_entry_def)

lemma erase_file: "entry_erase_rec (erase_depth fi) fi ca True s = dealloc_chain ca fi s"
  by (simp add: erase_depth_def)

lemma remove_stop:
  assumes "live_entry e" "same_name (de_file_name e) (ctx_name ctx)" "ctx_index ctx = None" "journals_count fi = 0" "\<not> is_dir_entry e"
    and "dealloc_chain (de_dca e) fi s = Some (1, s')"
  shows "remove_handler fi info e ctx s = Some ((1, erased e, ctx\<lparr>ctx_ji := 0\<rparr>), s')"
  using assms by (simp add: remove_handler_def validate_split Let_def live_entry_def same_name_def journal_add_operation_def erase_file erased_def)

lemma entry_remove_ok:
  fixes s :: "('w, 'z) ecache_state_scheme"
  assumes dir: "dir_ready rd wr good secs nsec ssz fi (c # cs) s" and name: "11 \<le> length name" and jc: "journals_count fi = 0"
    and F: "found_in (\<lambda>e. same_name (de_file_name e) name) (dir_slots secs fi (world s)) (c # cs) = Some (d, e)"
    and arch: "\<not> is_dir_entry e" "fat_chain fi (fat_of secs ssz fi s) (de_dca e # fs)" "set (de_dca e # fs) \<inter> set (c # cs) = {}"
  shows "\<exists>s'. entry_remove c name None fi s = Some (1, s') \<and> dir_ready rd wr good secs nsec ssz fi (c # cs) s' \<and>
    ft.same fi (fat_of secs ssz fi s') (freed (fat_of secs ssz fi s) (de_dca e # fs)) \<and> data_step secs ssz fi (c # cs) s s' \<and>
    map (dir_slots secs fi (world s')) (c # cs) =
      settled_in (\<lambda>e. same_name (de_file_name e) name) erased (dir_slots secs fi (world s)) (c # cs)"
proof -
  let ?ctx = "\<lparr>ctx_name = name, ctx_name_hash = 0, ctx_meta = None, ctx_index = None, ctx_ji = -1\<rparr>"
  let ?P = "\<lambda>e. same_name (de_file_name e) name"
  let ?t = "fat_of secs ssz fi s" let ?u = "freed ?t (de_dca e # fs)"
  have d: "vol_ok rd wr good secs nsec ssz fi s" "data_geom fi nsec ssz" "links_ok fi" "fat_chain fi ?t (c # cs)" "apart fi ssz (c # cs)"
    using dir by (simp_all add: dir_ready_def)
  have e: "live_entry e" "same_name (de_file_name e) name" "de_wf e" using found_in_entry [OF F] found_in_wf [OF F] by simp_all
  have "\<exists>s'. entry_iterate c (Some (remove_handler fi)) ?ctx fi s = Some (if Some (d, e) = None then (0, ?ctx) else (1, ?ctx\<lparr>ctx_ji := 0\<rparr>), s') \<and>
      vol_ok rd wr good secs nsec ssz fi s' \<and> ft.same fi (fat_of secs ssz fi s') (if Some (d, e) = None then ?t else ?u) \<and>
      data_step secs ssz fi (c # cs) s s' \<and>
      map (dir_slots secs fi (world s')) (c # cs) = settled_in ?P erased (dir_slots secs fi (world s)) (c # cs)"
  proof (rule walk_dir [OF d(3,2) _ _ _ d(1) ft.same_refl d(4,5) F])
    show "remove_handler fi info e ?ctx s = Some ((0, scrub e, ?ctx), s)" if "de_wf e" "\<not> (live_entry e \<and> ?P e)"
      for info e and s :: "('w, 'z) ecache_state_scheme" using that name by (intro remove_skip) simp_all
    show "\<exists>s'. (\<forall>info. ei_ca info = ca \<longrightarrow> remove_handler fi info x ?ctx s1 = Some ((1, erased x, ?ctx\<lparr>ctx_ji := 0\<rparr>), s')) \<and>
        vol_ok rd wr good secs nsec ssz fi s' \<and> ft.same fi (fat_of secs ssz fi s') ?u \<and> fat_step secs ssz fi s1 s'"
      if x: "Some (d, e) = Some (ca, x)" and s1: "vol_ok rd wr good secs nsec ssz fi s1" "ft.same fi (fat_of secs ssz fi s1) ?t"
      for ca x and s1 :: "('w, 'z) ecache_state_scheme"
    proof -
      have "fat_chain fi (fat_of secs ssz fi s1) (de_dca e # fs)" using fat_chain_same [OF s1(2)] arch(2) by simp
      then obtain s2 where s2: "dealloc_chain (de_dca e) fi s1 = Some (1, s2)" "vol_ok rd wr good secs nsec ssz fi s2"
        "ft.same fi (fat_of secs ssz fi s2) (freed (fat_of secs ssz fi s1) (de_dca e # fs))" "fat_step secs ssz fi s1 s2"
        using dealloc_chain_ok [OF d(3) s1(1)] by blast
      have "remove_handler fi info x ?ctx s1 = Some ((1, erased x, ?ctx\<lparr>ctx_ji := 0\<rparr>), s2)" for info
        using remove_stop [OF e(1), of ?ctx fi s1 s2 info] e(2) jc arch(1) s2(1) x by simp
      moreover have "ft.same fi (freed (fat_of secs ssz fi s1) (de_dca e # fs)) ?u" using s1(2) by (simp add: ft.same_def freed_def)
      then have "ft.same fi (fat_of secs ssz fi s2) ?u" by (rule ft.same_trans [OF s2(3)])
      ultimately show ?thesis using s2(2,4) by blast
    qed
    show "de_wf (erased x)" if "Some (d, e) = Some (ca, x)" for ca x using e(3) that by simp
  qed
  then obtain s' where s': "entry_iterate c (Some (remove_handler fi)) ?ctx fi s = Some ((1, ?ctx\<lparr>ctx_ji := 0\<rparr>), s')"
    "vol_ok rd wr good secs nsec ssz fi s'" "ft.same fi (fat_of secs ssz fi s') ?u" "data_step secs ssz fi (c # cs) s s'"
    "map (dir_slots secs fi (world s')) (c # cs) = settled_in ?P erased (dir_slots secs fi (world s)) (c # cs)" by auto
  have "entry_remove c name None fi s = Some (1, s')" using s'(1) jc by (simp add: entry_remove_def journal_solve_operation_def)
  moreover have "fat_chain fi (fat_of secs ssz fi s') (c # cs)" using fat_chain_same [OF s'(3)] fat_chain_freed [OF arch(3)] d(4) by simp
  then have "dir_ready rd wr good secs nsec ssz fi (c # cs) s'" using d s'(2) by (simp add: dir_ready_def)
  ultimately show ?thesis using s'(3-5) by blast
qed

section \<open>Editing\<close>

lemma edit_skip:
  assumes "de_wf e" "11 \<le> length (ctx_name ctx)" "ctx_name_hash ctx = nft32_murmur3_x86_32 (ctx_name ctx) 11 0"
    and "\<not> (live_entry e \<and> named (ctx_name ctx) e)"
  shows "edit_handler fi info e ctx s = Some ((0, scrub e, ctx), s)"
  using strncmp_cases [OF de_wf_name [OF assms(1)] assms(2)] assms(3,4) same_name_sym [OF assms(2) de_wf_name [OF assms(1)]]
  by cases (auto simp: edit_handler_def validate_split Let_def live_entry_def named_def)

lemma edit_stop:
  assumes "de_wf e" "11 \<le> length (ctx_name ctx)" "ctx_name_hash ctx = nft32_murmur3_x86_32 (ctx_name ctx) 11 0"
    and "live_entry e \<and> named (ctx_name ctx) e" and "ctx_index ctx = None" "journals_count fi = 0" "ctx_meta ctx = Some m"
  shows "edit_handler fi info e ctx s = Some ((1, m, ctx\<lparr>ctx_ji := 0\<rparr>), s)"
  using assms(3-7) same_name_sym [OF assms(2) de_wf_name [OF assms(1)]]
  by (auto simp: edit_handler_def validate_split Let_def live_entry_def named_def same_name_def journal_add_operation_def)

lemma entry_edit_ok:
  fixes s :: "('w, 'z) ecache_state_scheme"
  assumes dir: "dir_ready rd wr good secs nsec ssz fi (c # cs) s" and name: "11 \<le> length name" and jc: "journals_count fi = 0"
    and F: "found_in (named name) (dir_slots secs fi (world s)) (c # cs) = Some (d, e)" and m: "de_wf m"
  shows "\<exists>s'. entry_edit c None name m fi s = Some (1, s') \<and> dir_ready rd wr good secs nsec ssz fi (c # cs) s' \<and>
    ft.same fi (fat_of secs ssz fi s') (fat_of secs ssz fi s) \<and> data_step secs ssz fi (c # cs) s s' \<and>
    map (dir_slots secs fi (world s')) (c # cs) = settled_in (named name) (\<lambda>_. m) (dir_slots secs fi (world s)) (c # cs)"
proof -
  let ?ctx = "\<lparr>ctx_name = name, ctx_name_hash = nft32_murmur3_x86_32 name 11 0, ctx_meta = Some m, ctx_index = None, ctx_ji = -1\<rparr>"
  let ?t = "fat_of secs ssz fi s"
  have d: "vol_ok rd wr good secs nsec ssz fi s" "data_geom fi nsec ssz" "links_ok fi" "fat_chain fi ?t (c # cs)" "apart fi ssz (c # cs)"
    using dir by (simp_all add: dir_ready_def)
  have e: "live_entry e" "named name e" "de_wf e" using found_in_entry [OF F] found_in_wf [OF F] by simp_all
  have "\<exists>s'. entry_iterate c (Some (edit_handler fi)) ?ctx fi s = Some (if Some (d, e) = None then (0, ?ctx) else (1, ?ctx\<lparr>ctx_ji := 0\<rparr>), s') \<and>
      vol_ok rd wr good secs nsec ssz fi s' \<and> ft.same fi (fat_of secs ssz fi s') (if Some (d, e) = None then ?t else ?t) \<and>
      data_step secs ssz fi (c # cs) s s' \<and>
      map (dir_slots secs fi (world s')) (c # cs) = settled_in (named name) (\<lambda>_. m) (dir_slots secs fi (world s)) (c # cs)"
  proof (rule walk_dir [OF d(3,2) _ _ _ d(1) ft.same_refl d(4,5) F])
    show "edit_handler fi info e ?ctx s = Some ((0, scrub e, ?ctx), s)" if "de_wf e" "\<not> (live_entry e \<and> named name e)"
      for info e and s :: "('w, 'z) ecache_state_scheme" using that name by (intro edit_skip) simp_all
    show "\<exists>s'. (\<forall>info. ei_ca info = ca \<longrightarrow> edit_handler fi info x ?ctx s1 = Some ((1, m, ?ctx\<lparr>ctx_ji := 0\<rparr>), s')) \<and>
        vol_ok rd wr good secs nsec ssz fi s' \<and> ft.same fi (fat_of secs ssz fi s') ?t \<and> fat_step secs ssz fi s1 s'"
      if x: "Some (d, e) = Some (ca, x)" and s1: "vol_ok rd wr good secs nsec ssz fi s1" "ft.same fi (fat_of secs ssz fi s1) ?t"
      for ca x and s1 :: "('w, 'z) ecache_state_scheme"
    proof -
      have "edit_handler fi info x ?ctx s1 = Some ((1, m, ?ctx\<lparr>ctx_ji := 0\<rparr>), s1)" for info
        using edit_stop [OF e(3), of ?ctx fi m info s1] e(1,2) jc name x by simp
      then show ?thesis using s1 fat_step_refl [of secs ssz fi s1] by blast
    qed
    show "de_wf m" by (rule m)
  qed
  then obtain s' where s': "entry_iterate c (Some (edit_handler fi)) ?ctx fi s = Some ((1, ?ctx\<lparr>ctx_ji := 0\<rparr>), s')"
    "vol_ok rd wr good secs nsec ssz fi s'" "ft.same fi (fat_of secs ssz fi s') ?t" "data_step secs ssz fi (c # cs) s s'"
    "map (dir_slots secs fi (world s')) (c # cs) = settled_in (named name) (\<lambda>_. m) (dir_slots secs fi (world s)) (c # cs)" by auto
  have "entry_edit c None name m fi s = Some (1, s')"
    using s'(1) jc name by (simp add: entry_edit_def hash11_def journal_solve_operation_def)
  then show ?thesis using dir_ready_step [OF dir s'(2,3)] s'(3-5) by blast
qed

section \<open>Adding an entry\<close>

definition taken :: "directory_entry \<Rightarrow> bool" where
  "taken e = (live_entry e \<and> \<not> is_end e)"

lemma taken_scrub [simp]: "taken e \<Longrightarrow> scrub e = e"
  by (simp add: taken_def live_entry_def)

lemma find_slot_first:
  "i + k = n \<Longrightarrow> n * sizeof_entry \<le> length dec \<Longrightarrow> i \<le> j \<Longrightarrow> j < n \<Longrightarrow>
    (\<And>x. i \<le> x \<Longrightarrow> x < j \<Longrightarrow> taken (slots n dec ! x)) \<Longrightarrow> \<not> taken (slots n dec ! j) \<Longrightarrow>
    \<exists>D. find_slot k i dec = (Some j, D) \<and> length D = length dec \<and> slots n D = (slots n dec)[j := scrub (slots n dec ! j)]"
proof (induction k arbitrary: i dec)
  case (Suc k)
  then have i: "i < n" by simp
  let ?e = "entry_at dec i"
  note room = slot_room [OF i Suc.prems(2)]
  have wf: "de_wf (scrub ?e)" using room by simp
  have sl: "slots n (put_entry dec i (scrub ?e)) = (slots n dec)[i := scrub ?e]" using wf i Suc.prems(2) by (rule slots_put)
  have len: "length (put_entry dec i (scrub ?e)) = length dec" using wf room by (rule length_put_entry)
  show ?case
  proof (cases "i = j")
    case True
    then have "find_slot (Suc k) i dec = (Some j, put_entry dec i (scrub ?e))"
      using Suc.prems(6) i by (auto simp: validate_split Let_def taken_def live_entry_def is_end_def)
    then show ?thesis using True sl len i by simp
  next
    case False
    have tk: "taken ?e" using Suc.prems(5) [of i] Suc.prems(3) False i by simp
    then have go: "find_slot (Suc k) i dec = find_slot k (Suc i) (put_entry dec i (scrub ?e))"
      by (simp add: validate_split Let_def taken_def live_entry_def is_end_def)
    have same: "slots n (put_entry dec i (scrub ?e)) = slots n dec" using sl tk i by (simp add: list_update_same_conv)
    show ?thesis using Suc.IH [of "Suc i" "put_entry dec i (scrub ?e)"] Suc.prems False unfolding go same len by auto
  qed
qed simp

lemma find_slot_full:
  "i + k = n \<Longrightarrow> n * sizeof_entry \<le> length dec \<Longrightarrow> (\<And>x. i \<le> x \<Longrightarrow> x < n \<Longrightarrow> taken (slots n dec ! x)) \<Longrightarrow>
    fst (find_slot k i dec) = None"
proof (induction k arbitrary: i dec)
  case (Suc k)
  then have i: "i < n" by simp
  let ?e = "entry_at dec i"
  note room = slot_room [OF i Suc.prems(2)]
  have tk: "taken ?e" using Suc.prems(3) [of i] i by simp
  have wf: "de_wf (scrub ?e)" using room by simp
  have sl: "slots n (put_entry dec i (scrub ?e)) = slots n dec"
    using slots_put [OF wf i Suc.prems(2)] tk i by (simp add: list_update_same_conv)
  have len: "length (put_entry dec i (scrub ?e)) = length dec" using wf room by (rule length_put_entry)
  have "find_slot (Suc k) i dec = find_slot k (Suc i) (put_entry dec i (scrub ?e))"
    using tk by (simp add: validate_split Let_def taken_def live_entry_def is_end_def)
  then show ?case using Suc.IH [of "Suc i" "put_entry dec i (scrub ?e)"] Suc.prems unfolding sl len by simp
qed simp

text \<open>The entry as it is stored, and the slots after it is: the slot behind it becomes the end mark,
  whatever it held.\<close>

definition stamped :: "u32 \<Rightarrow> directory_entry \<Rightarrow> directory_entry" where
  "stamped c m = m\<lparr>de_rca := c, de_checksum := entry_sum (m\<lparr>de_rca := c\<rparr>)\<rparr>"

definition added :: "nat \<Rightarrow> directory_entry \<Rightarrow> directory_entry list \<Rightarrow> directory_entry list" where
  "added i m es = es[i := m, Suc i := end_mark (es ! Suc i)]"

lemma stamped_valid: "de_checksum m = 0 \<Longrightarrow> valid (stamped c m)"
  by (cases m) (simp add: valid_iff stamped_def)

lemma stamped_simps [simp]: "de_file_name (stamped c m) = de_file_name m" "de_wf (stamped c m) = de_wf m"
  "de_name_hash (stamped c m) = de_name_hash m" "(stamped c m)\<lparr>de_rca := c\<rparr> = stamped c m"
  by (simp_all add: stamped_def de_wf_def)

lemma place_slots:
  assumes m: "de_wf m" and i: "i < entries_per_cluster fi" and D: "length D = decoded_len fi"
    and sl: "slots (entries_per_cluster fi) D = es[i := x]" and es: "length es = entries_per_cluster fi"
  shows "length (end_next (put_entry D i m) i fi) = decoded_len fi"
    "slots (entries_per_cluster fi) (end_next (put_entry D i m) i fi) = added i m es"
proof -
  let ?n = "entries_per_cluster fi"
  have room: "?n * sizeof_entry \<le> length D" using D entries_fit by simp
  have l: "length (put_entry D i m) = decoded_len fi" using length_put_entry [OF m slot_room [OF i room]] D by simp
  then show "length (end_next (put_entry D i m) i fi) = decoded_len fi" by (simp add: end_next_def)
  have p: "slots ?n (put_entry D i m) = es[i := m]" using slots_put [OF m i room] sl by simp
  show "slots ?n (end_next (put_entry D i m) i fi) = added i m es"
  proof (cases "Suc i < ?n")
    case True
    then show ?thesis using slots_end [of "Suc i" ?n "put_entry D i m"] p l entries_fit [of fi] es by (simp add: end_next_def added_def)
  next
    case False
    then show ?thesis using p es by (simp add: end_next_def added_def list_update_beyond)
  qed
qed

lemma entry_add_here:
  fixes s :: "('w, 'z) ecache_state_scheme"
  assumes links: "links_ok fi" and geom: "data_geom fi nsec ssz" and vol: "vol_ok rd wr good secs nsec ssz fi s"
    and c: "in_vol fi c" "cluster_area fi c \<inter> fat_sectors fi ssz = {}"
    and m: "de_wf m" and jc: "journals_count fi = 0"
    and i: "i < entries_per_cluster fi" "\<And>x. x < i \<Longrightarrow> taken (dir_slots secs fi (world s) c ! x)" "\<not> taken (dir_slots secs fi (world s) c ! i)"
  shows "\<exists>s'. entry_add c None m fi s = Some ((1, stamped c m), s') \<and> vol_ok rd wr good secs nsec ssz fi s' \<and>
    ft.same fi (fat_of secs ssz fi s') (fat_of secs ssz fi s) \<and> data_step secs ssz fi [c] s s' \<and>
    dir_slots secs fi (world s') c = added i (stamped c m) (dir_slots secs fi (world s) c)"
proof -
  let ?B = "cluster_bytes secs fi (world s) c"
  let ?dec = "nft32_unpack_memory (u16s_of_bytes ?B) (decoded_len fi)"
  let ?n = "entries_per_cluster fi"
  have B: "length ?B = unat (cluster_size fi)" using vol geom c(1) by (rule length_cluster_bytes)
  have S: "dir_slots secs fi (world s) c = slots ?n ?dec" by (simp add: dir_slots_def)
  have room: "?n * sizeof_entry \<le> length ?dec" by (simp add: entries_fit)
  have fg: "fat_geom fi nsec ssz" using vol by (simp add: vol_ok_def)
  obtain w where w: "read_encoded_cluster c (replicate (unat (cluster_size fi)) 0) fi s = Some ((1, ?B, ?dec), s\<lparr>world := w\<rparr>)"
    "good w" "secs w = secs (world s)"
    by (rule read_encoded_ok [OF vol geom links c(1)])
  let ?s0 = "s\<lparr>world := w\<rparr>"
  have v0: "vol_ok rd wr good secs nsec ssz fi ?s0" using vol w(2) by (rule vol_ok_world)
  have same0: "ft.same fi (fat_of secs ssz fi ?s0) (fat_of secs ssz fi s)"
    by (rule fat_of_world [OF fg]) (simp add: w(3))
  obtain D where D: "find_slot ?n 0 ?dec = (Some i, D)" "length D = decoded_len fi" "slots ?n D = (slots ?n ?dec)[i := scrub (slots ?n ?dec ! i)]"
    using find_slot_first [of 0 ?n ?n ?dec i] room i S by auto
  let ?E = "end_next (put_entry D i (stamped c m)) i fi"
  have mw: "de_wf (stamped c m)" using m by simp
  have E: "length ?E = decoded_len fi" "slots ?n ?E = added i (stamped c m) (slots ?n ?dec)"
    using place_slots [OF mw i(1) D(2,3)] by simp_all
  obtain s1 where s1: "write_cluster c (encode_cluster ?E ?B fi) (int_of_u32 (cluster_size fi)) fi ?s0 = Some (1, s1)"
    "vol_ok rd wr good secs nsec ssz fi s1" "ft.same fi (fat_of secs ssz fi s1) (fat_of secs ssz fi ?s0)" "data_step secs ssz fi [c] ?s0 s1"
    "dir_slots secs fi (world s1) c = slots ?n ?E"
    by (rule write_encoded_ok [OF v0 geom c E(1) B])
  have st: "stamped c m = m\<lparr>de_rca := c\<rparr>\<lparr>de_checksum := entry_sum (m\<lparr>de_rca := c\<rparr>)\<rparr>" by (simp add: stamped_def)
  have "place_entry c None m i ?B D fi ?s0 = Some ((1, stamped c m), s1)"
    using s1(1) jc by (simp add: place_entry_def journal_add_operation_def journal_solve_operation_def Let_def st)
  then have "entry_add c None m fi s = Some ((1, stamped c m), s1)"
    using w(1) D(1) by (subst entry_add.simps) simp
  moreover have "fat_step secs ssz fi s ?s0" using w(3) by (rule fat_step_world)
  then have "data_step secs ssz fi [c] s s1" using data_step_trans [OF data_step_fat [of secs ssz fi s ?s0 "[]"] s1(4)] by simp
  ultimately show ?thesis using s1(2,5) ft.same_trans [OF s1(3) same0] E(2) S by metis
qed

lemma entry_add_full:
  fixes s :: "('w, 'z) ecache_state_scheme"
  assumes links: "links_ok fi" and geom: "data_geom fi nsec ssz" and vol: "vol_ok rd wr good secs nsec ssz fi s"
    and c: "fat_chain fi (fat_of secs ssz fi s) (c # d # cs)"
    and full: "\<And>e. e \<in> set (dir_slots secs fi (world s) c) \<Longrightarrow> taken e"
  shows "\<exists>s'. entry_add c None m fi s = entry_add d None m fi s' \<and> vol_ok rd wr good secs nsec ssz fi s' \<and>
    ft.same fi (fat_of secs ssz fi s') (fat_of secs ssz fi s) \<and> fat_step secs ssz fi s s'"
proof -
  let ?B = "cluster_bytes secs fi (world s) c"
  let ?dec = "nft32_unpack_memory (u16s_of_bytes ?B) (decoded_len fi)"
  let ?n = "entries_per_cluster fi"
  note link = chain_link [OF links c]
  have S: "dir_slots secs fi (world s) c = slots ?n ?dec" by (simp add: dir_slots_def)
  have fg: "fat_geom fi nsec ssz" using vol by (simp add: vol_ok_def)
  obtain w where w: "read_encoded_cluster c (replicate (unat (cluster_size fi)) 0) fi s = Some ((1, ?B, ?dec), s\<lparr>world := w\<rparr>)"
    "good w" "secs w = secs (world s)"
    by (rule read_encoded_ok [OF vol geom links link(1)])
  let ?s0 = "s\<lparr>world := w\<rparr>"
  have v0: "vol_ok rd wr good secs nsec ssz fi ?s0" using vol w(2) by (rule vol_ok_world)
  have same0: "ft.same fi (fat_of secs ssz fi ?s0) (fat_of secs ssz fi s)"
    by (rule fat_of_world [OF fg]) (simp add: w(3))
  have "taken (slots ?n ?dec ! x)" if "x < ?n" for x
    using full [of "slots ?n ?dec ! x"] that unfolding S by (metis length_slots nth_mem)
  then have "fst (find_slot ?n 0 ?dec) = None" by (intro find_slot_full [of 0 ?n ?n]) (simp_all add: entries_fit)
  then obtain D where D: "find_slot ?n 0 ?dec = (None, D)" by (metis prod.collapse)
  obtain s1 where s1: "read_fat c fi ?s0 = Some (fat_of secs ssz fi ?s0 (unat c), s1)" "vol_ok rd wr good secs nsec ssz fi s1"
    "ft.same fi (fat_of secs ssz fi s1) (fat_of secs ssz fi ?s0)" "fat_step secs ssz fi ?s0 s1"
    by (rule read_linkE [OF v0 link(1)])
  have v: "fat_of secs ssz fi ?s0 (unat c) = d" using ft.same_at [OF same0] link(1,3) by (simp add: in_vol_def)
  have "next_or_extend c fi ?s0 = Some (Some d, s1)" using s1(1) v link(3) by (simp add: next_or_extend_def)
  then have "entry_add c None m fi s = entry_add d None m fi s1"
    using w(1) D link(3) by (subst entry_add.simps) simp
  moreover have "fat_step secs ssz fi s ?s0" using w(3) by (rule fat_step_world)
  then have "fat_step secs ssz fi s s1" using s1(4) by (rule fat_step_trans)
  ultimately show ?thesis using s1(2) ft.same_trans [OF s1(3) same0] by blast
qed

lemma dir_slots_fat_step:
  assumes "fat_step secs ssz fi s s'" "cluster_area fi d \<inter> fat_sectors fi ssz = {}"
  shows "dir_slots secs fi (world s') d = dir_slots secs fi (world s) d"
  using file_bytes_step [OF assms(1), of "[d]"] assms(2) by (simp add: dir_slots_def)

lemma entry_add_ok:
  fixes s :: "('w, 'z) ecache_state_scheme"
  assumes m: "de_wf m" and jc: "journals_count fi = 0" and i: "i < entries_per_cluster fi"
  shows "dir_ready rd wr good secs nsec ssz fi (pre @ d # post) s \<Longrightarrow>
    (\<And>c e. c \<in> set pre \<Longrightarrow> e \<in> set (dir_slots secs fi (world s) c) \<Longrightarrow> taken e) \<Longrightarrow>
    (\<And>x. x < i \<Longrightarrow> taken (dir_slots secs fi (world s) d ! x)) \<Longrightarrow> \<not> taken (dir_slots secs fi (world s) d ! i) \<Longrightarrow>
    \<exists>s'. entry_add (hd (pre @ [d])) None m fi s = Some ((1, stamped d m), s') \<and> dir_ready rd wr good secs nsec ssz fi (pre @ d # post) s' \<and>
      ft.same fi (fat_of secs ssz fi s') (fat_of secs ssz fi s) \<and> data_step secs ssz fi [d] s s' \<and>
      (\<forall>x \<in> set (pre @ d # post). dir_slots secs fi (world s') x =
         (if x = d then added i (stamped d m) (dir_slots secs fi (world s) d) else dir_slots secs fi (world s) x))"
proof (induction pre arbitrary: s)
  case (Nil s)
  have d: "vol_ok rd wr good secs nsec ssz fi s" "data_geom fi nsec ssz" "links_ok fi" "fat_chain fi (fat_of secs ssz fi s) (d # post)"
      "apart fi ssz (d # post)" using Nil.prems(1) by (simp_all add: dir_ready_def)
  have vols: "in_vol fi x" "cluster_area fi x \<inter> fat_sectors fi ssz = {}" if "x \<in> set (d # post)" for x
    using that fat_chain_in_vol [OF d(4), of x] d(5) by (auto simp: apart_def)
  have dv: "in_vol fi d" "cluster_area fi d \<inter> fat_sectors fi ssz = {}" using vols [of d] by simp_all
  obtain s' where s': "entry_add d None m fi s = Some ((1, stamped d m), s')" "vol_ok rd wr good secs nsec ssz fi s'"
    "ft.same fi (fat_of secs ssz fi s') (fat_of secs ssz fi s)" "data_step secs ssz fi [d] s s'"
    "dir_slots secs fi (world s') d = added i (stamped d m) (dir_slots secs fi (world s) d)"
    using entry_add_here [OF d(3,2,1) dv m jc i Nil.prems(3,4)] by auto
  have "dir_slots secs fi (world s') x = dir_slots secs fi (world s) x" if "x \<in> set post" "x \<noteq> d" for x
    using dir_slots_others [OF d(2) s'(4), of x] vols that dv by auto
  then show ?case using s' dir_ready_step [OF Nil.prems(1) s'(2,3)] by (intro exI [of _ s']) simp
next
  case (Cons c pre s)
  have d: "vol_ok rd wr good secs nsec ssz fi s" "data_geom fi nsec ssz" "links_ok fi" "fat_chain fi (fat_of secs ssz fi s) (c # pre @ d # post)"
      "apart fi ssz (c # pre @ d # post)" using Cons.prems(1) by (simp_all add: dir_ready_def)
  obtain e es where es: "pre @ d # post = e # es" "e = hd (pre @ [d])" by (cases pre) auto
  obtain s1 where s1: "entry_add c None m fi s = entry_add e None m fi s1" "vol_ok rd wr good secs nsec ssz fi s1"
    "ft.same fi (fat_of secs ssz fi s1) (fat_of secs ssz fi s)" "fat_step secs ssz fi s s1"
    using entry_add_full [OF d(3,2,1) d(4) [unfolded es(1)], of m] Cons.prems(2) by auto
  have S: "dir_slots secs fi (world s1) x = dir_slots secs fi (world s) x" if "x \<in> set (c # pre @ d # post)" for x
    using d(5) that by (intro dir_slots_fat_step [OF s1(4)]) (auto simp: apart_def)
  have "fat_chain fi (fat_of secs ssz fi s) (pre @ d # post)" using d(4) es(1) by simp
  then have r1: "dir_ready rd wr good secs nsec ssz fi (pre @ d # post) s1"
    using d s1(2) fat_chain_same [OF s1(3)] by (simp add: dir_ready_def)
  have "\<exists>s'. entry_add (hd (pre @ [d])) None m fi s1 = Some ((1, stamped d m), s') \<and> dir_ready rd wr good secs nsec ssz fi (pre @ d # post) s' \<and>
      ft.same fi (fat_of secs ssz fi s') (fat_of secs ssz fi s1) \<and> data_step secs ssz fi [d] s1 s' \<and>
      (\<forall>x \<in> set (pre @ d # post). dir_slots secs fi (world s') x =
         (if x = d then added i (stamped d m) (dir_slots secs fi (world s1) d) else dir_slots secs fi (world s1) x))"
    by (rule Cons.IH [OF r1]) (use Cons.prems(2-4) S in auto)
  then obtain s' where s': "entry_add e None m fi s1 = Some ((1, stamped d m), s')" "dir_ready rd wr good secs nsec ssz fi (pre @ d # post) s'"
      "ft.same fi (fat_of secs ssz fi s') (fat_of secs ssz fi s1)" "data_step secs ssz fi [d] s1 s'"
      "\<forall>x \<in> set (pre @ d # post). dir_slots secs fi (world s') x =
         (if x = d then added i (stamped d m) (dir_slots secs fi (world s1) d) else dir_slots secs fi (world s1) x)"
    unfolding es(2) by blast
  have nc: "c \<notin> set (pre @ d # post)" using fat_chain_distinct [OF d(3,4)] by simp
  have "dir_slots secs fi (world s') c = dir_slots secs fi (world s1) c"
    using dir_slots_others [OF d(2) s'(4), of c] fat_chain_in_vol [OF d(4)] d(5) nc by auto
  moreover have same: "ft.same fi (fat_of secs ssz fi s') (fat_of secs ssz fi s)" using s'(3) s1(3) by (rule ft.same_trans)
  moreover have "vol_ok rd wr good secs nsec ssz fi s'" using s'(2) by (simp add: dir_ready_def)
  then have "dir_ready rd wr good secs nsec ssz fi (c # pre @ d # post) s'" using dir_ready_step [OF Cons.prems(1) _ same] by simp
  moreover have "data_step secs ssz fi [d] s s'" using data_step_trans [OF data_step_fat [OF s1(4), of "[]"] s'(4)] by simp
  ultimately show ?case using s1(1) s'(1,5) S nc by (intro exI [of _ s']) auto
qed

lemma entry_add_at:
  fixes s :: "('w, 'z) ecache_state_scheme"
  assumes "de_wf m" "journals_count fi = 0" "i < entries_per_cluster fi" "dir_ready rd wr good secs nsec ssz fi (pre @ d # post) s"
    and "\<forall>c \<in> set pre. \<forall>e \<in> set (dir_slots secs fi (world s) c). taken e" "\<forall>x < i. taken (dir_slots secs fi (world s) d ! x)"
    and "\<not> taken (dir_slots secs fi (world s) d ! i)"
  obtains s' where "entry_add (hd (pre @ [d])) None m fi s = Some ((1, stamped d m), s')" "dir_ready rd wr good secs nsec ssz fi (pre @ d # post) s'"
    "ft.same fi (fat_of secs ssz fi s') (fat_of secs ssz fi s)" "data_step secs ssz fi [d] s s'"
    "\<forall>x \<in> set (pre @ d # post). dir_slots secs fi (world s') x =
       (if x = d then added i (stamped d m) (dir_slots secs fi (world s) d) else dir_slots secs fi (world s) x)"
  using entry_add_ok [OF assms(1-4) _ _ assms(7)] assms(5,6) by blast

section \<open>Entries by position\<close>

lemma hit_at:
  "k < length es \<Longrightarrow> (\<And>x. x < k \<Longrightarrow> \<not> is_end (es ! x) \<and> \<not> (live_entry (es ! x) \<and> P (es ! x))) \<Longrightarrow>
    \<not> is_end (es ! k) \<Longrightarrow> live_entry (es ! k) \<Longrightarrow> P (es ! k) \<Longrightarrow> hit P es = Some (es ! k)"
proof (induction es arbitrary: k)
  case (Cons e es)
  show ?case
  proof (cases k)
    case (Suc k')
    have "hit P es = Some (es ! k')"
      by (rule Cons.IH) (use Cons.prems(1,3-5) Cons.prems(2) [of "Suc x" for x] Suc in auto)
    then show ?thesis using Cons.prems(2) [of 0] Suc by auto
  qed (use Cons.prems in simp)
qed simp

lemma hit_none:
  "(\<And>e. e \<in> set es \<Longrightarrow> \<not> (live_entry e \<and> P e)) \<Longrightarrow> hit P es = None"
  by (induction es) auto

lemma hit_ended:
  "k < length es \<Longrightarrow> (\<And>x. x < k \<Longrightarrow> \<not> (live_entry (es ! x) \<and> P (es ! x))) \<Longrightarrow> is_end (es ! k) \<Longrightarrow> hit P es = None"
proof (induction es arbitrary: k)
  case (Cons e es)
  show ?case
  proof (cases k)
    case (Suc k')
    have "hit P es = None"
      by (rule Cons.IH [of k']) (use Cons.prems(1,3) Cons.prems(2) [of "Suc x" for x] Suc in auto)
    then show ?thesis using Cons.prems(2) [of 0] Suc by auto
  qed (use Cons.prems in simp)
qed simp

lemma settled_at:
  "k < length es \<Longrightarrow> (\<And>x. x < k \<Longrightarrow> taken (es ! x) \<and> \<not> P (es ! x)) \<Longrightarrow> taken (es ! k) \<Longrightarrow> P (es ! k) \<Longrightarrow>
    settled P f es = es[k := f (es ! k)]"
proof (induction es arbitrary: k)
  case (Cons e es)
  show ?case
  proof (cases k)
    case 0
    then show ?thesis using Cons.prems by (simp add: taken_def)
  next
    case (Suc k')
    have "settled P f es = es[k' := f (es ! k')]"
      by (rule Cons.IH) (use Cons.prems(1,3,4) Cons.prems(2) [of "Suc x" for x] Suc in auto)
    moreover have "taken e" "\<not> P e" using Cons.prems(2) [of 0] Suc by simp_all
    ultimately show ?thesis using Suc by (simp add: taken_def live_entry_def)
  qed
qed simp

lemma found_in_after: "(\<And>c e. c \<in> set pre \<Longrightarrow> e \<in> set (S c) \<Longrightarrow> \<not> (live_entry e \<and> P e)) \<Longrightarrow> found_in P S (pre @ cs) = found_in P S cs"
proof (induction pre)
  case (Cons c pre)
  have "hit P (S c) = None" by (rule hit_none) (use Cons.prems in auto)
  moreover have "found_in P S (pre @ cs) = found_in P S cs" by (rule Cons.IH) (use Cons.prems in auto)
  ultimately show ?case by simp
qed simp

lemma end_mark_end: "de_wf e \<Longrightarrow> is_end (end_mark e)"
  by (simp add: de_wf_def end_mark_def is_end_def)

lemma nth_added: "i < length es \<Longrightarrow> added i m es ! i = m" "x < i \<Longrightarrow> added i m es ! x = es ! x"
  "Suc i < length es \<Longrightarrow> added i m es ! Suc i = end_mark (es ! Suc i)" "length (added i m es) = length es"
  by (simp_all add: added_def)

lemma found_added:
  assumes dis: "distinct (pre @ d # post)" and full: "\<forall>c \<in> set pre. \<forall>e \<in> set (S c). taken e \<and> \<not> P e"
    and i: "i < length (S d)" "\<forall>x < i. taken (S d ! x) \<and> \<not> P (S d ! x)" and m: "taken m" "P m"
    and T: "\<forall>x \<in> set (pre @ d # post). T x = (if x = d then added i m (S d) else S x)"
  shows "found_in P T (pre @ d # post) = Some (d, m)"
proof -
  have "T x = S x" if "x \<in> set pre" for x using that T dis by auto
  then have "found_in P T (pre @ d # post) = found_in P T (d # post)" by (intro found_in_after) (use full in auto)
  moreover have d: "T d = added i m (S d)" using T by simp
  have "hit P (T d) = Some (T d ! i)"
    by (rule hit_at) (use i m in \<open>auto simp: d nth_added taken_def\<close>)
  ultimately show ?thesis using i(1) by (simp add: d nth_added)
qed

section \<open>The entry of a new file\<close>

lemma murmur11_take: "11 \<le> length name \<Longrightarrow> nft32_murmur3_x86_32 (take 11 name) 11 0 = nft32_murmur3_x86_32 name 11 0"
  by (simp add: nft32_murmur3_x86_32_def mur_block_def mur_tail_def get_u32_def Let_def upt_rec)

lemma create_entryE:
  assumes "create_entry name isd ca sz = Some m"
  shows "11 \<le> length name" "de_wf m" "de_checksum m = 0" "de_file_name m = take 11 name" "named name (stamped d m)"
    "de_name_hash m = nft32_murmur3_x86_32 name 11 0" "de_dca m = ca" "is_dir_entry m = isd"
proof -
  show l: "11 \<le> length name" using assms by (simp add: create_entry_def split: if_splits)
  have m: "m = \<lparr>de_file_name = take 11 name, de_name_hash = nft32_murmur3_x86_32 (take 11 name) 11 0,
         de_attributes = (if isd then FILE_DIRECTORY else FILE_ARCHIVE), de_rca = FAT_CLUSTER_BAD, de_dca = ca,
         de_file_size = (if isd then 1 else sz), de_checksum = 0\<rparr>"
    using assms l by (simp add: create_entry_def Let_def split: if_splits)
  show "de_wf m" "de_checksum m = 0" "de_file_name m = take 11 name" "de_name_hash m = nft32_murmur3_x86_32 name 11 0" "de_dca m = ca"
    using l by (simp_all add: m de_wf_def murmur11_take)
  show "named name (stamped d m)" using l same_name_take [OF l] by (simp add: named_def m murmur11_take)
  show "is_dir_entry m = isd" by (simp add: m is_dir_entry_def FILE_DIRECTORY_def FILE_ARCHIVE_def)
qed

lemma created_taken:
  assumes "create_entry name isd ca sz = Some m" "name ! 0 \<noteq> ENTRY_FREE" "name ! 0 \<noteq> ENTRY_END"
  shows "taken (stamped d m)"
  using create_entryE [OF assms(1)] assms(2,3) stamped_valid by (simp add: taken_def live_entry_def is_end_def)

section \<open>Properties\<close>

text \<open>C8 (a search finds the first live entry of that name). Searching a directory without an index
  reads its clusters in order and in each one the entries up to the end mark. It returns 1 exactly when
  one of them is valid, not free and carries the name and its hash; the first of them is what the
  caller gets, with the cluster it lies in. Otherwise it returns 0, where the header promises -4. The
  directory stays a directory, and in its slots only entries with a wrong checksum change, which lose
  that checksum. With an index, which this does not cover, the caller gets an entry made from the index
  and not the stored one.\<close>

theorem entry_search_finds:
  fixes s :: "('w, 'z) ecache_state_scheme"
  assumes "dir_ready rd wr good secs nsec ssz fi (c # cs) s" and "11 \<le> length name"
  shows "\<exists>s'. entry_search (Some name) c None meta fi s =
      Some ((case found_in (named name) (dir_slots secs fi (world s)) (c # cs) of
        None \<Rightarrow> (0, meta) | Some (d, e) \<Rightarrow> (1, map_option (\<lambda>_. e\<lparr>de_rca := d\<rparr>) meta)), s') \<and>
    dir_ready rd wr good secs nsec ssz fi (c # cs) s' \<and>
    map (dir_slots secs fi (world s')) (c # cs) = settled_in (named name) id (dir_slots secs fi (world s)) (c # cs)"
  using entry_search_ok [OF assms refl, of meta] by blast

text \<open>An added entry is found. An entry made for a name is stored in the first slot of the
  directory that holds no live entry; when no entry before that slot carries the name, the search for
  it then returns the entry as it was stored. Directories that are full, and so would be extended, are
  left out.\<close>

theorem entry_add_search:
  fixes s :: "('w, 'z) ecache_state_scheme"
  assumes dir: "dir_ready rd wr good secs nsec ssz fi (pre @ d # post) s" and jc: "journals_count fi = 0"
    and new: "create_entry name isd ca sz = Some m" "name ! 0 \<noteq> ENTRY_FREE" "name ! 0 \<noteq> ENTRY_END"
    and full: "\<forall>c \<in> set pre. \<forall>e \<in> set (dir_slots secs fi (world s) c). taken e \<and> \<not> named name e"
    and slot: "i < entries_per_cluster fi" "\<not> taken (dir_slots secs fi (world s) d ! i)"
    and before: "\<forall>x < i. taken (dir_slots secs fi (world s) d ! x) \<and> \<not> named name (dir_slots secs fi (world s) d ! x)"
  shows "\<exists>s' s''. entry_add (hd (pre @ [d])) None m fi s = Some ((1, stamped d m), s') \<and>
    dir_slots secs fi (world s') d = added i (stamped d m) (dir_slots secs fi (world s) d) \<and>
    entry_search (Some name) (hd (pre @ [d])) None (Some old) fi s' = Some ((1, Some (stamped d m)), s'')"
proof -
  let ?S = "dir_slots secs fi (world s)"
  obtain s1 where s1: "entry_add (hd (pre @ [d])) None m fi s = Some ((1, stamped d m), s1)" "dir_ready rd wr good secs nsec ssz fi (pre @ d # post) s1"
    "\<forall>x \<in> set (pre @ d # post). dir_slots secs fi (world s1) x = (if x = d then added i (stamped d m) (?S d) else ?S x)"
    using entry_add_ok [OF create_entryE(2) [OF new(1)] jc slot(1) dir _ _ slot(2)] full before by blast
  let ?T = "dir_slots secs fi (world s1)"
  have "links_ok fi" "fat_chain fi (fat_of secs ssz fi s1) (pre @ d # post)" using s1(2) by (simp_all add: dir_ready_def)
  then have "distinct (pre @ d # post)" by (rule fat_chain_distinct)
  then have F: "found_in (named name) ?T (pre @ d # post) = Some (d, stamped d m)"
    by (rule found_added [where S = ?S and i = i]) (use full slot(1) before s1(3) created_taken [OF new] create_entryE(5) [OF new(1)] in auto)
  have d: "?T d = added i (stamped d m) (?S d)" using s1(3) by simp
  obtain c cs where c: "pre @ d # post = c # cs" "c = hd (pre @ [d])" by (cases pre) auto
  obtain s2 where "entry_search (Some name) c None (Some old) fi s1 = Some ((1, Some (stamped d m)), s2)"
    using entry_search_ok [OF s1(2) [unfolded c(1)] create_entryE(1) [OF new(1)] F [unfolded c(1)], of "Some old"] by auto
  then show ?thesis using s1(1) d c(2) by blast
qed

text \<open>C9 (removing a file frees its clusters and its slot). On a volume without journals and in a
  directory without an index, let the first live entry of that name be a file whose chain is outside the
  directory. The removal returns exactly the clusters of the chain to the table and marks the entry free;
  the other entries stay as they are, except that invalid ones the walk has passed lose their checksum.\<close>

theorem entry_remove_frees:
  fixes s :: "('w, 'z) ecache_state_scheme"
  assumes "dir_ready rd wr good secs nsec ssz fi (c # cs) s" and "11 \<le> length name" and "journals_count fi = 0"
    and "found_in (\<lambda>e. same_name (de_file_name e) name) (dir_slots secs fi (world s)) (c # cs) = Some (d, e)"
    and "\<not> is_dir_entry e" and "fat_chain fi (fat_of secs ssz fi s) (de_dca e # fs)" and "set (de_dca e # fs) \<inter> set (c # cs) = {}"
  shows "\<exists>s'. entry_remove c name None fi s = Some (1, s') \<and> dir_ready rd wr good secs nsec ssz fi (c # cs) s' \<and>
    (\<forall>x < unat (total_clusters fi). fat_of secs ssz fi s' x = (if x \<in> unat ` set (de_dca e # fs) then FAT_CLUSTER_FREE else fat_of secs ssz fi s x)) \<and>
    map (dir_slots secs fi (world s')) (c # cs) =
      settled_in (\<lambda>e. same_name (de_file_name e) name) (\<lambda>e. e\<lparr>de_file_name := (de_file_name e)[0 := ENTRY_FREE]\<rparr>)
        (dir_slots secs fi (world s)) (c # cs)"
proof -
  have "erased = (\<lambda>e. e\<lparr>de_file_name := (de_file_name e)[0 := ENTRY_FREE]\<rparr>)" by (simp add: fun_eq_iff erased_def)
  moreover obtain s' where "entry_remove c name None fi s = Some (1, s')" "dir_ready rd wr good secs nsec ssz fi (c # cs) s'"
    "ft.same fi (fat_of secs ssz fi s') (freed (fat_of secs ssz fi s) (de_dca e # fs))"
    "map (dir_slots secs fi (world s')) (c # cs) = settled_in (\<lambda>e. same_name (de_file_name e) name) erased (dir_slots secs fi (world s)) (c # cs)"
    using entry_remove_ok [OF assms] by blast
  ultimately show ?thesis by (intro exI [of _ s']) (simp add: ft.same_def freed_def)
qed


section \<open>A directory on the test volume\<close>

abbreviation "test_dir \<equiv> dir_ready fake_read fake_write fake_ok fake_secs TEST_SECTORS TEST_SECTOR_SIZE test_vol"
abbreviation "test_slots s \<equiv> dir_slots fake_secs test_vol (world s) 5"

definition test_meta :: "byte \<Rightarrow> u32 \<Rightarrow> directory_entry" where
  "test_meta b ca = \<lparr>de_file_name = replicate 11 b, de_name_hash = nft32_murmur3_x86_32 (replicate 11 b) 11 0,
     de_attributes = FILE_ARCHIVE, de_rca = FAT_CLUSTER_BAD, de_dca = ca, de_file_size = 0, de_checksum = 0\<rparr>"

lemma test_create: "create_entry (replicate 11 b) False ca 0 = Some (test_meta b ca)"
  by (simp add: create_entry_def test_meta_def Let_def)

lemma test_meta_taken: "b \<noteq> ENTRY_FREE \<Longrightarrow> b \<noteq> ENTRY_END \<Longrightarrow> taken (stamped 5 (test_meta b ca))"
  by (rule created_taken [OF test_create]) simp_all

lemma test_meta_wf: "de_wf (test_meta b ca)"
  by (simp add: test_meta_def de_wf_def)

lemma test_named: "named (replicate 11 b) (stamped 5 (test_meta b ca))"
  by (rule create_entryE(5) [OF test_create])

lemma test_other: "a \<noteq> b \<Longrightarrow> \<not> same_name (replicate 11 a) (replicate 11 b)"
  by (simp add: same_name_def nft32_str_strncmp_def numeral_eq_Suc word_uint_eq_iff)

lemma test_entries: "entries_per_cluster test_vol = 2"
  by (simp add: entries_per_cluster_def sizeof_encoded_def sizeof_entry_def)

text \<open>Every cluster of the fresh volume is an empty directory.\<close>

lemma test_zero_slots:
  fixes s z :: "fake_world nifat_state"
  assumes z: "world z = world disk0" and c: "in_vol test_vol c" and step: "fat_step fake_secs TEST_SECTOR_SIZE test_vol z s"
  shows "\<forall>e \<in> set (dir_slots fake_secs test_vol (world s) c). de_file_name e ! 0 = ENTRY_END"
proof
  fix e assume e: "e \<in> set (dir_slots fake_secs test_vol (world s) c)"
  have "unat c < 16" using c by (simp add: in_vol_def word_less_nat_alt)
  then have "cluster_bytes fake_secs test_vol (world z) c = replicate 64 0 @ replicate 64 0"
    unfolding z cluster_bytes_def by (simp add: flat_def cluster_at_def fake_secs_def disk0_def TEST_SECTORS_def TEST_SECTOR_SIZE_def upt_rec del: replicate.simps)
  then have z: "cluster_bytes fake_secs test_vol (world z) c = replicate 128 0" by (simp add: replicate_add [symmetric] del: replicate.simps)
  have "dir_slots fake_secs test_vol (world s) c = dir_slots fake_secs test_vol (world z) c"
    using step test_fat_areas [OF c] by (rule dir_slots_fat_step)
  moreover have "u16s_of_bytes (replicate (2 * n) 0) = replicate n 0" for n
    by (induction n) (simp_all add: u16_of_bytes_def)
  from this [of 64] have "u16s_of_bytes (replicate 128 0) = replicate 64 0" by (simp del: replicate.simps)
  moreover have "decoded_len test_vol = 64" by (simp add: decoded_len_def sizeof_encoded_def)
  ultimately have "dir_slots fake_secs test_vol (world s) c = slots 2 (replicate 64 0)"
    using z by (simp add: dir_slots_def test_entries unpack_zero del: replicate.simps)
  then obtain i where i: "i < 2" "e = entry_at (replicate 64 0) i" using e by (auto simp: slots_def)
  then show "de_file_name e ! 0 = ENTRY_END"
    by (simp add: entry_at_def de_of_bytes_def sizeof_entry_def ENTRY_END_def del: replicate.simps)
qed

lemma ended_not_taken: "de_file_name e ! 0 = ENTRY_END \<Longrightarrow> \<not> taken e"
  by (simp add: taken_def is_end_def)

lemma test_dir_one:
  fixes s :: "fake_world nifat_state"
  assumes "test_ok s" "in_vol test_vol c" "test_fat s (unat c) = FAT_CLUSTER_END" shows "test_dir [c] s"
  unfolding dir_ready_def using assms test_data_geom test_links test_fat_areas [OF assms(2)] by simp

text \<open>An empty directory at cluster 5, and a file of one cluster at 6.\<close>

lemma test_empty_dir:
  "\<exists>s :: fake_world nifat_state. test_dir [5] s \<and> fat_chain test_vol (test_fat s) [6] \<and> (\<forall>e \<in> set (test_slots s). \<not> taken e)"
proof -
  have "test_ok file_start" by (simp add: file_start_def cluster_start_ok)
  then obtain s1 where s1: "test_ok s1" "\<forall>d < 16. test_fat s1 d = (if d = unat (5 :: u32) then FAT_CLUSTER_END else test_fat file_start d)"
    "fat_step fake_secs TEST_SECTOR_SIZE test_vol file_start s1"
    by (rule test_writeE [of _ 5 FAT_CLUSTER_END]) (use marks_28 in simp_all)
  obtain s2 where s2: "test_ok s2" "\<forall>d < 16. test_fat s2 d = (if d = unat (6 :: u32) then FAT_CLUSTER_END else test_fat s1 d)"
    "fat_step fake_secs TEST_SECTOR_SIZE test_vol s1 s2"
    by (rule test_writeE [OF s1(1), of 6 FAT_CLUSTER_END]) (use marks_28 in simp_all)
  have step: "fat_step fake_secs TEST_SECTOR_SIZE test_vol file_start s2" using s1(3) s2(3) by (rule fat_step_trans)
  have "test_dir [5] s2" using s1(2) s2(1,2) by (intro test_dir_one) (simp_all add: in_vol_def)
  moreover have "fat_chain test_vol (test_fat s2) [6]" using s2(2) by (simp add: in_vol_def)
  moreover have "\<forall>e \<in> set (test_slots s2). \<not> taken e"
    using test_zero_slots [OF _ _ step, of 5] ended_not_taken by (simp add: in_vol_def file_start_def)
  ultimately show ?thesis by blast
qed

lemma test_journals: "journals_count test_vol = 0"
  by (simp add: test_vol_def fat_data_zero_def)

lemma test_addE:
  fixes s :: "fake_world nifat_state"
  assumes "test_dir [c] s" "i < 2" "\<forall>x < i. taken (dir_slots fake_secs test_vol (world s) c ! x)"
    "\<not> taken (dir_slots fake_secs test_vol (world s) c ! i)"
  obtains s' :: "fake_world nifat_state" where "test_dir [c] s'" "ft.same test_vol (test_fat s') (test_fat s)"
    "data_step fake_secs TEST_SECTOR_SIZE test_vol [c] s s'"
    "dir_slots fake_secs test_vol (world s') c = added i (stamped c (test_meta b ca)) (dir_slots fake_secs test_vol (world s) c)"
proof -
  obtain s' where "test_dir ([] @ c # []) s'" "ft.same test_vol (test_fat s') (test_fat s)" "data_step fake_secs TEST_SECTOR_SIZE test_vol [c] s s'"
    "\<forall>x \<in> set ([] @ c # []). dir_slots fake_secs test_vol (world s') x =
         (if x = c then added i (stamped c (test_meta b ca)) (dir_slots fake_secs test_vol (world s) c) else dir_slots fake_secs test_vol (world s) x)"
    by (rule entry_add_at [OF test_meta_wf [of b ca] test_journals, of i fake_read fake_write fake_ok fake_secs TEST_SECTORS TEST_SECTOR_SIZE "[]" c "[]" s])
      (use assms test_entries in simp_all)
  then show ?thesis by (intro that [of s']) simp_all
qed

text \<open>The same directory with two files in it.\<close>

lemma test_two_files:
  "\<exists>s :: fake_world nifat_state. test_dir [5] s \<and> fat_chain test_vol (test_fat s) [6] \<and>
     test_slots s = [stamped 5 (test_meta 65 6), stamped 5 (test_meta 66 7)]"
proof -
  obtain s :: "fake_world nifat_state" where s: "test_dir [5] s" "fat_chain test_vol (test_fat s) [6]" "\<forall>e \<in> set (test_slots s). \<not> taken e"
    using test_empty_dir by blast
  have l: "length (test_slots s) = 2" by (simp add: test_entries)
  then obtain a b where ab: "test_slots s = [a, b]" by (cases "test_slots s"; cases "tl (test_slots s)") auto
  have wf: "de_wf b" using dir_slots_wf [of b fake_secs test_vol "world s" 5] ab by simp
  have z: "\<not> taken (test_slots s ! 0)" using s(3) ab by simp
  obtain s1 :: "fake_world nifat_state" where s1: "test_dir [5] s1" "ft.same test_vol (test_fat s1) (test_fat s)"
    "test_slots s1 = added 0 (stamped 5 (test_meta 65 6)) (test_slots s)"
    by (rule test_addE [OF s(1), of 0 65 6]) (use z in simp_all)
  have S1: "test_slots s1 = [stamped 5 (test_meta 65 6), end_mark b]" by (simp add: s1(3) ab added_def)
  have t: "\<not> taken (test_slots s1 ! 1)" "taken (test_slots s1 ! 0)"
    using end_mark_end [OF wf] test_meta_taken [of 65 6] by (simp_all add: S1 taken_def ENTRY_FREE_def ENTRY_END_def)
  obtain s2 :: "fake_world nifat_state" where s2: "test_dir [5] s2" "ft.same test_vol (test_fat s2) (test_fat s1)"
    "test_slots s2 = added 1 (stamped 5 (test_meta 66 7)) (test_slots s1)"
    by (rule test_addE [OF s1(1), of 1 66 7]) (use t in simp_all)
  have "fat_chain test_vol (test_fat s2) [6]" using fat_chain_same [OF ft.same_trans [OF s2(2) s1(2)], of "[6]"] s(2) by (simp only:)
  moreover have "test_slots s2 = [stamped 5 (test_meta 65 6), stamped 5 (test_meta 66 7)]" by (simp add: s2(3) S1 added_def list_update_beyond)
  ultimately show ?thesis using s2(1) by blast
qed

theorem entry_search_finds_witness:
  "\<exists>s s' :: fake_world nifat_state. entry_search (Some (replicate 11 66)) 5 None (Some zero_entry) test_vol s =
     Some ((1, Some (stamped 5 (test_meta 66 7))), s')"
proof -
  obtain s :: "fake_world nifat_state" where s: "test_dir [5] s" "test_slots s = [stamped 5 (test_meta 65 6), stamped 5 (test_meta 66 7)]"
    using test_two_files by blast
  have t: "taken (stamped 5 (test_meta 65 6))" "taken (stamped 5 (test_meta 66 7))"
    by (rule test_meta_taken; simp add: ENTRY_FREE_def ENTRY_END_def)+
  have "\<not> named (replicate 11 66) (stamped 5 (test_meta 65 6))"
    using test_other [of 66 65] by (simp add: named_def test_meta_def del: replicate.simps)
  then have "found_in (named (replicate 11 66)) (dir_slots fake_secs test_vol (world s)) [5] = Some (5, stamped 5 (test_meta 66 7))"
    using s(2) t test_named [of 66 7] by (simp add: taken_def del: replicate.simps)
  then show ?thesis using entry_search_finds [OF s(1), of "replicate 11 66" "Some zero_entry"] by (auto simp del: replicate.simps)
qed

theorem entry_add_search_witness:
  "\<exists>s s' s'' :: fake_world nifat_state. entry_add 5 None (test_meta 65 6) test_vol s = Some ((1, stamped 5 (test_meta 65 6)), s') \<and>
     entry_search (Some (replicate 11 65)) 5 None (Some zero_entry) test_vol s' = Some ((1, Some (stamped 5 (test_meta 65 6))), s'')"
proof -
  obtain s :: "fake_world nifat_state" where s: "test_dir [5] s" "\<forall>e \<in> set (test_slots s). \<not> taken e"
    using test_empty_dir by blast
  have "\<not> taken (test_slots s ! 0)" using s(2) by (simp add: test_entries)
  then show ?thesis
    using entry_add_search [of fake_read fake_write fake_ok fake_secs TEST_SECTORS TEST_SECTOR_SIZE test_vol "[]" 5 "[]" s "replicate 11 65" False 6 0 "test_meta 65 6" 0 zero_entry]
      s(1) test_create [of 65 6] test_journals
    by (auto simp: test_entries ENTRY_FREE_def ENTRY_END_def simp del: replicate.simps)
qed

theorem entry_remove_frees_witness:
  "\<exists>s s' :: fake_world nifat_state. test_fat s 6 = FAT_CLUSTER_END \<and> entry_remove 5 (replicate 11 65) None test_vol s = Some (1, s') \<and>
     test_fat s' 6 = FAT_CLUSTER_FREE"
proof -
  obtain s :: "fake_world nifat_state" where s: "test_dir [5] s" "fat_chain test_vol (test_fat s) [6]"
      "test_slots s = [stamped 5 (test_meta 65 6), stamped 5 (test_meta 66 7)]"
    using test_two_files by blast
  have t: "taken (stamped 5 (test_meta 65 6))" by (rule test_meta_taken) (simp_all add: ENTRY_FREE_def ENTRY_END_def)
  have F: "found_in (\<lambda>e. same_name (de_file_name e) (replicate 11 65)) (dir_slots fake_secs test_vol (world s)) [5] = Some (5, stamped 5 (test_meta 65 6))"
    using s(3) t same_name_take [of "replicate 11 65"] by (simp add: taken_def test_meta_def del: replicate.simps)
  have d: "de_dca (stamped 5 (test_meta 65 6)) = 6" "\<not> is_dir_entry (stamped 5 (test_meta 65 6))"
    by (simp_all add: stamped_def test_meta_def is_dir_entry_def FILE_ARCHIVE_def FILE_DIRECTORY_def)
  have "\<exists>s'. entry_remove 5 (replicate 11 65) None test_vol s = Some (1, s') \<and> test_fat s' 6 = FAT_CLUSTER_FREE"
    using entry_remove_frees [OF s(1) _ test_journals F d(2), of "[]"] s(2) by (auto simp: d(1) simp del: replicate.simps)
  then show ?thesis using s(2) by auto
qed


end
