(* ===== verification/Creation.thy ===== *)
theory Creation
  imports Directory
begin

text \<open>
  The calls that make and change entries. \<open>NIFAT32_put_content\<close> on an open directory: the entry of the
  new content is stored and found; the cluster it gets keeps the bytes of its earlier use.
  \<open>NIFAT32_change_meta\<close>: the entry it writes is not found any more.
\<close>

unbundle bit_operations_syntax

section \<open>The cluster of a new content\<close>

lemma new_cluster_ok:
  fixes s :: "('w, 'z) nifat_state_scheme"
  assumes vol: "vol_ok rd wr good secs nsec ssz fi s" and fi: "fs_data s = fi" and links: "links_ok fi" and ready: "alloc_ready st s"
    and free: "free_from fi st (fat_of secs ssz fi s) \<noteq> {}" "clean_from fi st (fat_of secs ssz fi s)"
  shows "\<exists>c s1 s2. get_cluster_offset fi s = Some (st, s) \<and> alloc_cluster fi st s = Some (c, s1) \<and> set_cluster_end c fi s1 = Some (1, s2) \<and>
    c \<in> free_from fi st (fat_of secs ssz fi s) \<and> vol_ok rd wr good secs nsec ssz fi s2 \<and>
    ft.same fi (fat_of secs ssz fi s2) ((fat_of secs ssz fi s)(unat c := FAT_CLUSTER_END)) \<and> grow_step secs ssz fi [] s s2"
proof -
  let ?t = "fat_of secs ssz fi s"
  obtain d where "in_vol fi d" using free(1) by (auto simp: free_from_def)
  then have no: "st \<noteq> NO_CLUSTER_OFFSET" using alloc_start_small [OF ready] links fi by simp
  have st: "ext_root_cluster fi \<le> st" "allocater_lock s = NULL_LOCK" using ready fi by (simp_all add: alloc_ready_def Let_def)
  obtain c s1 where 1: "alloc_cluster fi st s = Some (c, s1)" "vol_ok rd wr good secs nsec ssz fi s1" "cl_step secs ssz fi s s1"
    "alloc_post secs ssz fi ?t (unat st) c s1"
    using alloc_cluster_ok [OF vol links st(2), of st st] no st(1) by auto
  have g1: "grow_step secs ssz fi [] s s1"
    using cl_step_grow [OF 1(3)] alloc_cluster_count [OF vol links st(2) no st(1) 1(1)] by blast
  have "c \<noteq> FAT_CLUSTER_BAD" using alloc_cluster_finds [OF vol links st(2) no st(1) free 1(1)] .
  then have c: "in_vol fi c" "c \<in> free_from fi st ?t" and t1: "ft.same fi (fat_of secs ssz fi s1) (?t(unat c := FAT_CLUSTER_RESERVED))"
    using 1(4) by (auto simp: alloc_post_def free_from_def word_le_nat_alt)
  obtain s2 where 2: "write_fat c FAT_CLUSTER_END fi s1 = Some (1, s2)" "vol_ok rd wr good secs nsec ssz fi s2"
    "ft.same fi (fat_of secs ssz fi s2) ((fat_of secs ssz fi s1)(unat c := FAT_CLUSTER_END))" "fat_step secs ssz fi s1 s2"
    using ft.writeE [OF 1(2), of c FAT_CLUSTER_END] c marks_28 by (auto simp: in_vol_def)
  have "ft.same fi (fat_of secs ssz fi s2) (?t(unat c := FAT_CLUSTER_END))"
    using ft.same_trans [OF 2(3) ft.same_upd [OF t1]] by simp
  moreover have "grow_step secs ssz fi [] s s2"
    using grow_step_trans [OF g1 grow_step_data [OF data_step_fat [OF 2(4)]], of "[]" "[]"] by simp
  ultimately show ?thesis using get_offset_ok [OF ready] fi 1(1) 2(1,2) c(2) by (simp add: set_cluster_end_def)
qed

section \<open>A search that finds nothing leaves the places as they are\<close>

lemma settled_nth: "hit P es = None \<Longrightarrow> x < length es \<Longrightarrow> settled P f es ! x = es ! x \<or> settled P f es ! x = scrub (es ! x)"
  by (induction es arbitrary: x) (auto split: if_splits simp: nth_Cons split: nat.splits)

lemma settled_none:
  assumes "hit P es = None" "x < length es"
  shows "taken (es ! x) \<Longrightarrow> settled P f es ! x = es ! x" "de_file_name (settled P f es ! x) = de_file_name (es ! x)"
  using settled_nth [OF assms, of f] by auto

lemma found_none: "found_in P S cs = None \<Longrightarrow> c \<in> set cs \<Longrightarrow> hit P (S c) = None"
  by (induction cs) (auto split: option.splits)

lemma settled_in_none: "found_in P S cs = None \<Longrightarrow> settled_in P f S cs = map (\<lambda>c. settled P f (S c)) cs"
  by (induction cs) (auto split: option.splits)

lemma not_taken_name: "de_file_name e ! 0 = ENTRY_FREE \<or> de_file_name e ! 0 = ENTRY_END \<Longrightarrow> \<not> taken e"
  by (auto simp: taken_def live_entry_def is_end_def)

lemma settled_full:
  assumes "hit P es = None" "\<forall>e \<in> set es. taken e" shows "settled P f es = es"
  by (rule nth_equalityI) (use settled_none(1) [OF assms(1)] assms(2) in auto)

text \<open>A directory with room: \<open>i\<close> is the first slot without a live entry, free or at the end mark.\<close>

definition room_at :: "(u32 \<Rightarrow> directory_entry list) \<Rightarrow> nat \<Rightarrow> u32 list \<Rightarrow> u32 \<Rightarrow> nat \<Rightarrow> bool" where
  "room_at S n pre d i = ((\<forall>c \<in> set pre. \<forall>e \<in> set (S c). taken e) \<and> i < n \<and> (\<forall>x < i. taken (S d ! x)) \<and>
     (de_file_name (S d ! i) ! 0 = ENTRY_FREE \<or> de_file_name (S d ! i) ! 0 = ENTRY_END))"

lemma room_at_settled:
  assumes "room_at S n pre d i" "found_in P S (pre @ d # post) = None" "length (S d) = n"
    and "\<And>c. c \<in> set (pre @ d # post) \<Longrightarrow> T c = settled P f (S c)"
  shows "room_at T n pre d i" "\<And>c. c \<in> set pre \<Longrightarrow> T c = S c" "\<And>x. x < i \<Longrightarrow> T d ! x = S d ! x"
proof -
  have h: "hit P (S c) = None" if "c \<in> set (pre @ d # post)" for c using found_none [OF assms(2) that] .
  have r: "\<forall>c \<in> set pre. \<forall>e \<in> set (S c). taken e" "i < n" "\<forall>x < i. taken (S d ! x)"
    "de_file_name (S d ! i) ! 0 = ENTRY_FREE \<or> de_file_name (S d ! i) ! 0 = ENTRY_END" using assms(1) by (simp_all add: room_at_def)
  show pre: "T c = S c" if "c \<in> set pre" for c using settled_full [OF h] assms(4) r(1) that by simp
  have Td: "T d = settled P f (S d)" and hd: "hit P (S d) = None" using assms(4) h by simp_all
  show low: "T d ! x = S d ! x" if "x < i" for x unfolding Td by (rule settled_none(1) [OF hd]) (use that r assms(3) in auto)
  have "de_file_name (T d ! i) = de_file_name (S d ! i)" unfolding Td by (rule settled_none(2) [OF hd]) (use r assms(3) in auto)
  then show "room_at T n pre d i" unfolding room_at_def using r pre low by simp
qed

lemma hit_none_taken: "hit P es = None \<Longrightarrow> x < length es \<Longrightarrow> (\<And>y. y \<le> x \<Longrightarrow> taken (es ! y)) \<Longrightarrow> \<not> P (es ! x)"
proof (induction es arbitrary: x)
  case (Cons e es)
  have e: "taken e" using Cons.prems(3) [of 0] by simp
  show ?case
  proof (cases x)
    case 0
    then show ?thesis using Cons.prems(1) e by (simp add: taken_def split: if_splits)
  next
    case (Suc x')
    have "\<not> P (es ! x')"
      by (rule Cons.IH) (use Cons.prems(1,2) Cons.prems(3) [of "Suc y" for y] e Suc in \<open>auto simp: taken_def split: if_splits\<close>)
    then show ?thesis using Suc by simp
  qed
qed simp

lemma room_at_absent:
  assumes "room_at S n pre d i" "found_in P S (pre @ d # post) = None" "length (S d) = n"
  shows "\<forall>c \<in> set pre. \<forall>e \<in> set (S c). taken e \<and> \<not> P e" "\<forall>x < i. taken (S d ! x) \<and> \<not> P (S d ! x)"
proof -
  have h: "hit P (S c) = None" if "c \<in> set (pre @ d # post)" for c using found_none [OF assms(2) that] .
  show "\<forall>c \<in> set pre. \<forall>e \<in> set (S c). taken e \<and> \<not> P e"
  proof (intro ballI)
    fix c e assume c: "c \<in> set pre" and e: "e \<in> set (S c)"
    then have all: "\<forall>e \<in> set (S c). taken e" using assms(1) by (simp add: room_at_def)
    obtain x where "x < length (S c)" "e = S c ! x" using e by (auto simp: in_set_conv_nth)
    then show "taken e \<and> \<not> P e" using hit_none_taken [OF h, of c x] c all e by auto
  qed
  show "\<forall>x < i. taken (S d ! x) \<and> \<not> P (S d ! x)"
    using hit_none_taken [OF h, of d] assms(1,3) by (auto simp: room_at_def)
qed

lemma free_from_same: "ft.same fi t u \<Longrightarrow> free_from fi st t = free_from fi st u"
  by (auto simp: free_from_def in_vol_def ft.same_at)

lemma clean_from_same: "ft.same fi t u \<Longrightarrow> clean_from fi st u \<Longrightarrow> clean_from fi st t"
  by (simp add: clean_from_def ft.same_def)

lemma dir_slots_grow:
  assumes "data_geom fi nsec ssz" "grow_step secs ssz fi [] s s'" "in_vol fi d" "cluster_area fi d \<inter> fat_sectors fi ssz = {}"
  shows "dir_slots secs fi (world s') d = dir_slots secs fi (world s) d"
  using grow_bytes_others [OF assms(1,2), of "[d]"] assms(3,4) by (simp add: dir_slots_def)

lemma dir_ready_api [simp]: "dir_ready rd wr good secs nsec ssz fi cs (s\<lparr>fs_api_lock := l\<rparr>) = dir_ready rd wr good secs nsec ssz fi cs s"
  by (simp add: dir_ready_def)

lemma ecache_api [simp]: "get_content_ecache ci (s\<lparr>fs_api_lock := l\<rparr>) = get_content_ecache ci s"
  by (simp add: get_content_ecache_def content_at_def)

section \<open>The whole call\<close>

lemma put_content_ok:
  fixes s :: "('w, 'z) nifat_state_scheme"
  assumes dir: "dir_ready rd wr good secs nsec ssz fi (pre @ d # post) s" and fi: "fs_data s = fi" and lock: "fs_api_lock s = NULL_LOCK"
    and tgt: "get_content_data_ca ci s = hd (pre @ [d])" "get_content_ecache ci s = None" and jc: "journals_count fi = 0"
    and ready: "alloc_ready st s" and t: "t = fat_of secs ssz fi s" and free: "free_from fi st t \<noteq> {}" "clean_from fi st t"
    and areas: "\<forall>c \<in> free_from fi st t. cluster_area fi c \<inter> fat_sectors fi ssz = {}"
    and name: "11 \<le> length (ci_full_name info)" and S: "S = dir_slots secs fi (world s)"
    and start: "ci_full_name info ! 0 \<noteq> ENTRY_FREE" "ci_full_name info ! 0 \<noteq> ENTRY_END"
    and absent: "found_in (named (ci_full_name info)) S (pre @ d # post) = None" and room: "room_at S (entries_per_cluster fi) pre d i"
  shows "\<exists>c m s'. NIFAT32_put_content ci info NO_RESERVE s = Some (1, s') \<and> c \<in> free_from fi st t \<and> c \<notin> set (pre @ d # post) \<and>
    create_entry (ci_full_name info) (ci_type info = STAT_DIR) c (cluster_size fi) = Some m \<and>
    dir_ready rd wr good secs nsec ssz fi (pre @ d # post) s' \<and> dir_ready rd wr good secs nsec ssz fi [c] s' \<and>
    ft.same fi (fat_of secs ssz fi s') (t(unat c := FAT_CLUSTER_END)) \<and> dir_slots secs fi (world s') c = S c \<and>
    found_in (named (ci_full_name info)) (dir_slots secs fi (world s')) (pre @ d # post) = Some (d, stamped d m)"
proof -
  let ?h = "s\<lparr>fs_api_lock := HELD\<rparr>" and ?name = "ci_full_name info" and ?cs = "pre @ d # post"
  obtain a as where as: "?cs = a # as" "a = hd (pre @ [d])" by (cases pre) auto
  have g: "data_geom fi nsec ssz" "links_ok fi" "fat_chain fi t ?cs" "apart fi ssz ?cs" using dir by (simp_all add: dir_ready_def t)
  have dh: "dir_ready rd wr good secs nsec ssz fi (a # as) ?h" and Sh: "found_in (named ?name) (dir_slots secs fi (world ?h)) (a # as) = None"
    using dir absent by (simp_all add: as(1) S)
  obtain s1 where s1: "entry_search (Some ?name) a None None fi ?h = Some ((0, None), s1)" "dir_ready rd wr good secs nsec ssz fi ?cs s1"
    "ft.same fi (fat_of secs ssz fi s1) t" "data_step secs ssz fi ?cs ?h s1"
    "map (dir_slots secs fi (world s1)) ?cs = settled_in (named ?name) id S ?cs"
    using entry_search_ok [OF dh name Sh, of None] unfolding as(1) [symmetric] S t by auto
  let ?S1 = "dir_slots secs fi (world s1)"
  have settle: "?S1 c = settled (named ?name) id (S c)" if "c \<in> set ?cs" for c
    using s1(5) that unfolding settled_in_none [OF absent] by auto
  have len: "length (S d) = entries_per_cluster fi" by (simp add: S)
  note r1 = room_at_settled [OF room absent len settle]
  have f1: "fs_api_lock s1 = HELD" "fs_data s1 = fi" using data_step_fields [OF s1(4)] fi by simp_all
  have g1: "grow_step secs ssz fi ?cs ?h s1" using s1(4) by (rule grow_step_data)
  have "alloc_ready st ?h" using ready by (simp add: alloc_ready_def Let_def)
  then have ready1: "alloc_ready st s1" using g1 by (rule alloc_ready_step)
  have v1: "vol_ok rd wr good secs nsec ssz fi s1" using s1(2) by (simp add: dir_ready_def)
  have free1: "free_from fi st (fat_of secs ssz fi s1) \<noteq> {}" "clean_from fi st (fat_of secs ssz fi s1)"
    using free free_from_same [OF s1(3)] clean_from_same [OF s1(3)] by simp_all
  obtain c s2 s3 where 3: "get_cluster_offset fi s1 = Some (st, s1)" "alloc_cluster fi st s1 = Some (c, s2)" "set_cluster_end c fi s2 = Some (1, s3)"
    "c \<in> free_from fi st (fat_of secs ssz fi s1)" "vol_ok rd wr good secs nsec ssz fi s3"
    "ft.same fi (fat_of secs ssz fi s3) ((fat_of secs ssz fi s1)(unat c := FAT_CLUSTER_END))" "grow_step secs ssz fi [] s1 s3"
    using new_cluster_ok [OF v1 f1(2) g(2) ready1 free1] by blast
  have c: "c \<in> free_from fi st t" "in_vol fi c" "t (unat c) = FAT_CLUSTER_FREE"
    using 3(4) free_from_same [OF s1(3)] by (auto simp: free_from_def)
  have ca: "cluster_area fi c \<inter> fat_sectors fi ssz = {}" using areas c(1) by blast
  have nc: "c \<notin> set ?cs" using fat_chain_append(1) [OF g(3) c(2,3) g(2)] .
  have t3: "ft.same fi (fat_of secs ssz fi s3) (t(unat c := FAT_CLUSTER_END))" using 3(6) ft.same_upd [OF s1(3)] by (rule ft.same_trans)
  have ch3: "fat_chain fi (fat_of secs ssz fi s3) ?cs" using fat_chain_same [OF t3] fat_chain_upd [OF nc] g(3) by simp
  have d3: "dir_ready rd wr good secs nsec ssz fi ?cs s3" using 3(5) g ch3 by (simp add: dir_ready_def)
  have vols: "in_vol fi x" "cluster_area fi x \<inter> fat_sectors fi ssz = {}" if "x \<in> set ?cs" for x
    using that fat_chain_in_vol [OF g(3), of x] g(4) by (auto simp: apart_def)
  have S3: "dir_slots secs fi (world s3) x = ?S1 x" if "x \<in> set ?cs" for x using dir_slots_grow [OF g(1) 3(7) vols [OF that]] .
  obtain m where m: "create_entry ?name (ci_type info = STAT_DIR) c (cluster_size fi) = Some m"
    using name by (simp add: create_entry_def Let_def)
  have full: "\<forall>x \<in> set pre. \<forall>e \<in> set (dir_slots secs fi (world s3) x). taken e"
    and low: "\<forall>x < i. taken (dir_slots secs fi (world s3) d ! x)" and slot: "\<not> taken (dir_slots secs fi (world s3) d ! i)" and i: "i < entries_per_cluster fi"
    using r1(1) S3 not_taken_name by (auto simp: room_at_def)
  obtain s4 where s4: "entry_add a None m fi s3 = Some ((1, stamped d m), s4)" "dir_ready rd wr good secs nsec ssz fi ?cs s4"
    "ft.same fi (fat_of secs ssz fi s4) (fat_of secs ssz fi s3)" "data_step secs ssz fi [d] s3 s4"
    "\<forall>x \<in> set ?cs. dir_slots secs fi (world s4) x = (if x = d then added i (stamped d m) (dir_slots secs fi (world s3) d) else dir_slots secs fi (world s3) x)"
    unfolding as(2) by (rule entry_add_at [OF create_entryE(2) [OF m] jc i d3 full low slot])
  have f3: "fs_api_lock s3 = HELD" "fs_data s3 = fi" using grow_step_fields [OF 3(7)] f1 by simp_all
  have f4: "fs_api_lock s4 = HELD" "fs_data s4 = fi" using data_step_fields [OF s4(4)] f3 by simp_all
  let ?s = "s4\<lparr>fs_api_lock := NULL_LOCK\<rparr>"
  have "NIFAT32_put_content ci info NO_RESERVE s = Some (1, ?s)"
    unfolding NIFAT32_put_content_def
    using s1(1) 3(1-3) m s4(1) f4 tgt fi as(2) by (intro fs_api_free [OF lock]) (simp_all add: Let_def NO_RESERVE_def)
  moreover have t4: "ft.same fi (fat_of secs ssz fi ?s) (t(unat c := FAT_CLUSTER_END))" using ft.same_trans [OF s4(3) t3] by simp
  moreover have v4: "vol_ok rd wr good secs nsec ssz fi ?s" using s4(2) by (simp add: dir_ready_def)
  have "fat_of secs ssz fi ?s (unat c) = FAT_CLUSTER_END" using ft.same_at [OF t4] c(2) by (simp add: in_vol_def)
  then have "dir_ready rd wr good secs nsec ssz fi [c] ?s" using v4 g(1,2) ca c(2) by (simp add: dir_ready_def)
  moreover have "dir_slots secs fi (world ?s) c = S c"
  proof -
    have "dir_slots secs fi (world s4) c = dir_slots secs fi (world s3) c"
      by (rule dir_slots_others [OF g(1) s4(4)]) (use c(2) ca nc vols in auto)
    moreover have "dir_slots secs fi (world s3) c = ?S1 c" using dir_slots_grow [OF g(1) 3(7) c(2) ca] .
    moreover have "?S1 c = dir_slots secs fi (world ?h) c"
      by (rule dir_slots_others [OF g(1) s1(4)]) (use c(2) ca nc vols in auto)
    ultimately show ?thesis by (simp add: S)
  qed
  moreover have "found_in (named ?name) (dir_slots secs fi (world ?s)) ?cs = Some (d, stamped d m)"
  proof (rule found_added [where S = "dir_slots secs fi (world s3)" and i = i])
    show "distinct ?cs" using g(2,3) by (rule fat_chain_distinct)
    show "\<forall>c \<in> set pre. \<forall>e \<in> set (dir_slots secs fi (world s3) c). taken e \<and> \<not> named ?name e"
      using room_at_absent(1) [OF room absent len] S3 r1(2) by simp
    show "\<forall>x < i. taken (dir_slots secs fi (world s3) d ! x) \<and> \<not> named ?name (dir_slots secs fi (world s3) d ! x)"
      using room_at_absent(2) [OF room absent len] S3 r1(3) by simp
    show "taken (stamped d m)" using m start by (rule created_taken)
    show "named ?name (stamped d m)" using m by (rule create_entryE(5))
  qed (use i s4(5) in simp_all)
  ultimately show ?thesis using c(1) nc m s4(2) by (intro exI [of _ c] exI [of _ m] exI [of _ ?s]) simp
qed

section \<open>Properties\<close>

text \<open>An idle volume on which the open content \<open>ci\<close> is a directory with room at slot \<open>i\<close> of its cluster
  \<open>d\<close>, no entry of the new name and no cache; the search for a free cluster starts at \<open>st\<close> and finds one.\<close>

definition can_put :: "'w read_fun \<Rightarrow> 'w write_fun \<Rightarrow> ('w \<Rightarrow> bool) \<Rightarrow> ('w \<Rightarrow> nat \<Rightarrow> byte list) \<Rightarrow> nat \<Rightarrow> nat \<Rightarrow>
    ci_t \<Rightarrow> u32 list \<Rightarrow> u32 \<Rightarrow> u32 list \<Rightarrow> nat \<Rightarrow> u32 \<Rightarrow> byte list \<Rightarrow> ('w, 'z) nifat_state_scheme \<Rightarrow> bool" where
  "can_put rd wr good secs nsec ssz ci pre d post i st name s = (let fi = fs_data s; t = fat_of secs ssz fi s; S = dir_slots secs fi (world s) in
     dir_ready rd wr good secs nsec ssz fi (pre @ d # post) s \<and> fs_api_lock s = NULL_LOCK \<and>
     get_content_data_ca ci s = hd (pre @ [d]) \<and> get_content_ecache ci s = None \<and> journals_count fi = 0 \<and>
     alloc_ready st s \<and> free_from fi st t \<noteq> {} \<and> clean_from fi st t \<and> (\<forall>c \<in> free_from fi st t. cluster_area fi c \<inter> fat_sectors fi ssz = {}) \<and>
     11 \<le> length name \<and> name ! 0 \<noteq> ENTRY_FREE \<and> name ! 0 \<noteq> ENTRY_END \<and>
     found_in (named name) S (pre @ d # post) = None \<and> room_at S (entries_per_cluster fi) pre d i)"

lemma can_putE:
  fixes s :: "('w, 'z) nifat_state_scheme"
  assumes "can_put rd wr good secs nsec ssz ci pre d post i st (ci_full_name info) s"
  obtains c m s' where "NIFAT32_put_content ci info NO_RESERVE s = Some (1, s')" "c \<in> free_from (fs_data s) st (fat_of secs ssz (fs_data s) s)"
    "create_entry (ci_full_name info) (ci_type info = STAT_DIR) c (cluster_size (fs_data s)) = Some m"
    "dir_ready rd wr good secs nsec ssz (fs_data s) (pre @ d # post) s'" "dir_ready rd wr good secs nsec ssz (fs_data s) [c] s'"
    "ft.same (fs_data s) (fat_of secs ssz (fs_data s) s') ((fat_of secs ssz (fs_data s) s)(unat c := FAT_CLUSTER_END))"
    "dir_slots secs (fs_data s) (world s') c = dir_slots secs (fs_data s) (world s) c"
    "found_in (named (ci_full_name info)) (dir_slots secs (fs_data s) (world s')) (pre @ d # post) = Some (d, stamped d m)"
proof -
  note p = assms [unfolded can_put_def Let_def]
  have "\<exists>c m s'. NIFAT32_put_content ci info NO_RESERVE s = Some (1, s') \<and> c \<in> free_from (fs_data s) st (fat_of secs ssz (fs_data s) s) \<and>
      c \<notin> set (pre @ d # post) \<and> create_entry (ci_full_name info) (ci_type info = STAT_DIR) c (cluster_size (fs_data s)) = Some m \<and>
      dir_ready rd wr good secs nsec ssz (fs_data s) (pre @ d # post) s' \<and> dir_ready rd wr good secs nsec ssz (fs_data s) [c] s' \<and>
      ft.same (fs_data s) (fat_of secs ssz (fs_data s) s') ((fat_of secs ssz (fs_data s) s)(unat c := FAT_CLUSTER_END)) \<and>
      dir_slots secs (fs_data s) (world s') c = dir_slots secs (fs_data s) (world s) c \<and>
      found_in (named (ci_full_name info)) (dir_slots secs (fs_data s) (world s')) (pre @ d # post) = Some (d, stamped d m)"
    by (rule put_content_ok [OF _ refl _ _ _ _ _ refl _ _ _ _ refl]) (use p in blast)+
  then show ?thesis by (elim exE conjE) (rule that)
qed

text \<open>C7 (a content that was put is found). Take an idle volume without journals and without error ring,
  and an open directory without an index that has no entry of the new name and, in its first slot that
  is not in use, one that is free or carries the end mark. Let there be a free cluster at or behind the
  cluster where the search for one starts, and no bad or reserved cluster from there on. Putting a new
  content without a reserve succeeds: one of these free clusters becomes the chain of the content, no
  other link of the table changes, and the search for the name then returns the new entry, with its
  cluster.\<close>

theorem put_content_found:
  fixes s :: "('w, 'z) nifat_state_scheme"
  assumes "can_put rd wr good secs nsec ssz ci pre d post i st (ci_full_name info) s" and "fi = fs_data s" and "t = fat_of secs ssz fi s"
  shows "\<exists>c m s' s''. NIFAT32_put_content ci info NO_RESERVE s = Some (1, s') \<and> in_vol fi c \<and> t (unat c) = FAT_CLUSTER_FREE \<and>
    (\<forall>x < unat (total_clusters fi). fat_of secs ssz fi s' x = (if x = unat c then FAT_CLUSTER_END else t x)) \<and>
    create_entry (ci_full_name info) (ci_type info = STAT_DIR) c (cluster_size fi) = Some m \<and>
    entry_search (Some (ci_full_name info)) (hd (pre @ [d])) None (Some old) fi s' = Some ((1, Some (stamped d m)), s'')"
proof -
  obtain c m s' where 1: "NIFAT32_put_content ci info NO_RESERVE s = Some (1, s')" "c \<in> free_from fi st t"
    "create_entry (ci_full_name info) (ci_type info = STAT_DIR) c (cluster_size fi) = Some m"
    "dir_ready rd wr good secs nsec ssz fi (pre @ d # post) s'"
    "ft.same fi (fat_of secs ssz fi s') (t(unat c := FAT_CLUSTER_END))"
    "found_in (named (ci_full_name info)) (dir_slots secs fi (world s')) (pre @ d # post) = Some (d, stamped d m)"
    using assms(1) unfolding assms(2,3) by (rule can_putE)
  obtain a as where a: "pre @ d # post = a # as" "a = hd (pre @ [d])" by (cases pre) auto
  obtain s'' where "entry_search (Some (ci_full_name info)) a None (Some old) fi s' = Some ((1, Some (stamped d m)), s'')"
    using entry_search_ok [OF 1(4) [unfolded a(1)] create_entryE(1) [OF 1(3)] 1(6) [unfolded a(1)], of "Some old"] by auto
  then show ?thesis using 1 a(2) by (intro exI [of _ c] exI [of _ m] exI [of _ s'] exI [of _ s'']) (simp add: ft.same_def free_from_def)
qed

text \<open>C12 (a new directory holds the entries of the one that had its cluster before). Under the conditions
  of the previous property \<open>NIFAT32_put_content\<close> makes a new directory in a free cluster, and does not
  clear it: every name that a search found in that cluster before the call, a search in the new directory
  finds after it, with the entry it had. After a directory was removed and another one created, the
  files of the old one are in the new one, and point to clusters that are free or in other use.\<close>

theorem new_dir_keeps_entries:
  fixes s :: "('w, 'z) nifat_state_scheme"
  assumes "can_put rd wr good secs nsec ssz ci pre d post i st (ci_full_name info) s" and "fi = fs_data s" and "ci_type info = STAT_DIR"
  shows "\<exists>c m s'. NIFAT32_put_content ci info NO_RESERVE s = Some (1, s') \<and> c \<in> free_from fi st (fat_of secs ssz fi s) \<and>
    create_entry (ci_full_name info) True c (cluster_size fi) = Some m \<and> de_dca m = c \<and>
    found_in (named (ci_full_name info)) (dir_slots secs fi (world s')) (pre @ d # post) = Some (d, stamped d m) \<and>
    (\<forall>other e. 11 \<le> length other \<and> hit (named other) (dir_slots secs fi (world s) c) = Some e \<longrightarrow>
      (\<exists>s''. entry_search (Some other) c None (Some old) fi s' = Some ((1, Some (e\<lparr>de_rca := c\<rparr>)), s'')))"
proof -
  obtain c m s' where 1: "NIFAT32_put_content ci info NO_RESERVE s = Some (1, s')" "c \<in> free_from fi st (fat_of secs ssz fi s)"
    "create_entry (ci_full_name info) (ci_type info = STAT_DIR) c (cluster_size fi) = Some m"
    "dir_ready rd wr good secs nsec ssz fi [c] s'" "dir_slots secs fi (world s') c = dir_slots secs fi (world s) c"
    "found_in (named (ci_full_name info)) (dir_slots secs fi (world s')) (pre @ d # post) = Some (d, stamped d m)"
    using assms(1) unfolding assms(2) by (rule can_putE)
  have "\<exists>s''. entry_search (Some other) c None (Some old) fi s' = Some ((1, Some (e\<lparr>de_rca := c\<rparr>)), s'')"
    if o: "11 \<le> length other" "hit (named other) (dir_slots secs fi (world s) c) = Some e" for other e
  proof -
    have "found_in (named other) (dir_slots secs fi (world s')) [c] = Some (c, e)" using 1(5) o(2) by simp
    from entry_search_ok [OF 1(4) o(1) this, of "Some old"] show ?thesis by auto
  qed
  then show ?thesis using 1(1,2,3,6) create_entryE(7) [OF 1(3)] assms(3)
    by (intro exI [of _ c] exI [of _ m] exI [of _ s']) simp
qed

text \<open>C10 (changing the metadata of a file loses the file). \<open>NIFAT32_change_meta\<close> replaces the entry of an
  open content by one made by \<open>create_entry\<close>, whose checksum field is 0, and nothing computes the
  checksum. On a volume without journals, in a directory of one cluster without an index, the call
  reports success and the new entry is stored in the slot of the old one with checksum field 0; the next
  search takes it for a damaged one and does not find the new name, unless the checksum of the entry
  happens to be 0.\<close>

theorem change_meta_loses:
  fixes s :: "('w, 'z) nifat_state_scheme"
  assumes dir: "dir_ready rd wr good secs nsec ssz fi [d] s" and fi: "fs_data s = fi" and lock: "fs_api_lock s = NULL_LOCK" and jc: "journals_count fi = 0"
    and ci: "get_content_root_ca ci s = d" "get_content_ecache ci s = None" "get_content_name ci s = Some name" "11 \<le> length name"
    and S: "S = dir_slots secs fi (world s) d" and j: "j < entries_per_cluster fi" "\<forall>x \<le> j. taken (S ! x)" "named name (S ! j)" "\<forall>x < j. \<not> named name (S ! x)"
    and new: "create_entry (ci_full_name info) (ci_type info = STAT_DIR) (get_content_data_ca ci s) (ci_size info) = Some m" "entry_sum m \<noteq> 0"
    and absent: "\<forall>x < entries_per_cluster fi. x \<noteq> j \<and> live_entry (S ! x) \<longrightarrow> \<not> named (ci_full_name info) (S ! x)"
  shows "\<exists>s' s''. NIFAT32_change_meta ci info s = Some (1, s') \<and>
    dir_slots secs fi (world s') d = S[j := m] \<and> de_checksum m = 0 \<and>
    entry_search (Some (ci_full_name info)) d None (Some old) fi s' = Some ((0, Some old), s'')"
proof -
  let ?h = "s\<lparr>fs_api_lock := HELD\<rparr>"
  have len: "length S = entries_per_cluster fi" by (simp add: S)
  have "hit (named name) S = Some (S ! j)"
    by (rule hit_at) (use j len in \<open>auto simp: taken_def\<close>)
  then have F: "found_in (named name) (dir_slots secs fi (world ?h)) [d] = Some (d, S ! j)" by (simp add: S)
  have dh: "dir_ready rd wr good secs nsec ssz fi [d] ?h" using dir by simp
  obtain s1 where s1: "entry_edit d None name m fi ?h = Some (1, s1)" "dir_ready rd wr good secs nsec ssz fi [d] s1" "data_step secs ssz fi [d] ?h s1"
    "map (dir_slots secs fi (world s1)) [d] = settled_in (named name) (\<lambda>_. m) (dir_slots secs fi (world ?h)) [d]"
    using entry_edit_ok [OF dh ci(4) jc F create_entryE(2) [OF new(1)]] by blast
  have "settled (named name) (\<lambda>_. m) S = S[j := m]" by (rule settled_at) (use j len in auto)
  then have S1: "dir_slots secs fi (world s1) d = S[j := m]" using s1(4) by (simp add: S)
  have f1: "fs_api_lock s1 = HELD" using data_step_fields [OF s1(3)] by simp
  let ?s = "s1\<lparr>fs_api_lock := NULL_LOCK\<rparr>"
  have "NIFAT32_change_meta ci info s = Some (1, ?s)"
    unfolding NIFAT32_change_meta_def using s1(1) ci(1-3) fi new(1) f1
    by (intro fs_api_free [OF lock]) (simp_all add: get_content_name_def get_content_root_ca_def content_at_def split: if_splits)
  moreover have "\<not> live_entry m"
    using new(2) create_entryE(3) [OF new(1)] by (cases m) (simp add: live_entry_def valid_iff)
  have "hit (named (ci_full_name info)) (S[j := m]) = None"
  proof (rule hit_none)
    fix e assume "e \<in> set (S[j := m])"
    then obtain x where "x < length S" "e = (if x = j then m else S ! x)" by (auto simp: in_set_conv_nth nth_list_update split: if_splits)
    then show "\<not> (live_entry e \<and> named (ci_full_name info) e)" using absent len \<open>\<not> live_entry m\<close> by auto
  qed
  then have "found_in (named (ci_full_name info)) (dir_slots secs fi (world ?s)) [d] = None" using S1 by simp
  moreover have "dir_ready rd wr good secs nsec ssz fi [d] ?s" using s1(2) by simp
  ultimately show ?thesis
    using entry_search_ok [of rd wr good secs nsec ssz fi d "[]" ?s "ci_full_name info" None "Some old"] create_entryE(1) [OF new(1)]
      create_entryE(3) [OF new(1)] S1 by auto
qed

text \<open>On the test volume the search starts at cluster 13, the only free one behind it: it once was a
  directory with a file in it.\<close>

definition test_info :: cinfo_t where
  "test_info = \<lparr>ci_full_name = replicate 11 66, ci_name = [], ci_extention = [], ci_size = 0, ci_type = STAT_DIR\<rparr>"

lemma test_put:
  "\<exists>s :: fake_world nifat_state. can_put fake_read fake_write fake_ok fake_secs TEST_SECTORS TEST_SECTOR_SIZE 0 [] 5 [] 0 13 (ci_full_name test_info) s \<and>
     fs_data s = test_vol \<and>
     (\<forall>c \<in> free_from test_vol 13 (test_fat s). hit (named (replicate 11 65)) (dir_slots fake_secs test_vol (world s) c) = Some (stamped 13 (test_meta 65 6)))"
proof -
  let ?z = "file_start\<lparr>last_allocated_cluster := 15\<rparr> :: fake_world nifat_state"
  have z: "test_ok ?z" "world ?z = world disk0" by (simp_all add: file_start_def cluster_start_ok)
  have free0: "test_fat ?z d = FAT_CLUSTER_FREE" if "d < 16" for d
  proof -
    have "test_fat (file_start :: fake_world nifat_state) d = FAT_CLUSTER_FREE" unfolding file_start_def using that by (rule fat_start_free)
    then show ?thesis by simp
  qed
  obtain s1 where s1: "test_ok s1" "\<forall>d < 16. test_fat s1 d = (if d = unat (5 :: u32) then FAT_CLUSTER_END else test_fat ?z d)"
    "fat_step fake_secs TEST_SECTOR_SIZE test_vol ?z s1"
    by (rule test_writeE [OF z(1), of 5 FAT_CLUSTER_END]) (use marks_28 in simp_all)
  obtain s2 where s2: "test_ok s2" "\<forall>d < 16. test_fat s2 d = (if d = unat (13 :: u32) then FAT_CLUSTER_END else test_fat s1 d)"
    "fat_step fake_secs TEST_SECTOR_SIZE test_vol s1 s2"
    by (rule test_writeE [OF s1(1), of 13 FAT_CLUSTER_END]) (use marks_28 in simp_all)
  obtain s3 where s3: "test_ok s3" "\<forall>d < 16. test_fat s3 d = (if d = unat (14 :: u32) then FAT_CLUSTER_END else test_fat s2 d)"
    "fat_step fake_secs TEST_SECTOR_SIZE test_vol s2 s3"
    by (rule test_writeE [OF s2(1), of 14 FAT_CLUSTER_END]) (use marks_28 in simp_all)
  obtain s4 where s4: "test_ok s4" "\<forall>d < 16. test_fat s4 d = (if d = unat (15 :: u32) then FAT_CLUSTER_END else test_fat s3 d)"
    "fat_step fake_secs TEST_SECTOR_SIZE test_vol s3 s4"
    by (rule test_writeE [OF s3(1), of 15 FAT_CLUSTER_END]) (use marks_28 in simp_all)
  have step4: "fat_step fake_secs TEST_SECTOR_SIZE test_vol ?z s4"
    using fat_step_trans [OF fat_step_trans [OF s1(3) s2(3)] fat_step_trans [OF s3(3) s4(3)]] .
  have iv: "in_vol test_vol 13" "in_vol test_vol 5" by (simp_all add: in_vol_def)
  have d4: "test_dir [13] s4" using s2(2) s3(2) s4(1,2) by (intro test_dir_one) (simp_all add: in_vol_def)
  have l: "length (dir_slots fake_secs test_vol (world s4) 13) = 2" "length (dir_slots fake_secs test_vol (world s4) 5) = 2" by (simp_all add: test_entries)
  have ends: "\<forall>e \<in> set (dir_slots fake_secs test_vol (world s4) c). de_file_name e ! 0 = ENTRY_END" if "in_vol test_vol c" for c
    using z(2) that step4 by (rule test_zero_slots)
  have nt: "\<not> taken (dir_slots fake_secs test_vol (world s4) 13 ! 0)" using ends [OF iv(1)] l(1) ended_not_taken by simp
  obtain s5 :: "fake_world nifat_state" where s5: "test_dir [13] s5" "ft.same test_vol (test_fat s5) (test_fat s4)"
    "data_step fake_secs TEST_SECTOR_SIZE test_vol [13] s4 s5"
    "dir_slots fake_secs test_vol (world s5) 13 = added 0 (stamped 13 (test_meta 65 6)) (dir_slots fake_secs test_vol (world s4) 13)"
    by (rule test_addE [OF d4, of 0 65 6]) (use nt in simp_all)
  have v5: "test_ok s5" using s5(1) by (simp add: dir_ready_def)
  obtain s6 where s6: "test_ok s6" "\<forall>d < 16. test_fat s6 d = (if d = unat (13 :: u32) then FAT_CLUSTER_FREE else test_fat s5 d)"
    "fat_step fake_secs TEST_SECTOR_SIZE test_vol s5 s6"
    by (rule test_writeE [OF v5, of 13 FAT_CLUSTER_FREE]) (use marks_28 in simp_all)
  have "\<forall>d < 16. test_fat s5 d = test_fat s4 d" using s5(2) [unfolded ft.same_def] by simp
  then have vals: "test_fat s6 d = (if d = 5 \<or> d = 14 \<or> d = 15 then FAT_CLUSTER_END else FAT_CLUSTER_FREE)" if "d < 16" for d
    using s1(2) s2(2) s3(2) s4(2) s6(2) free0 that by simp
  have "c = 13" if "c \<in> free_from test_vol 13 (test_fat s6)" for c
  proof -
    have "unat c < 16" "13 \<le> unat c" "test_fat s6 (unat c) = FAT_CLUSTER_FREE"
      using that by (auto simp: free_from_def in_vol_def word_less_nat_alt word_le_nat_alt)
    then have "unat c = 13" using vals [of "unat c"] by (auto split: if_splits simp: FAT_CLUSTER_END_def FAT_CLUSTER_FREE_def)
    then show ?thesis by (simp add: word_unat_eq_iff)
  qed
  moreover have "13 \<in> free_from test_vol 13 (test_fat s6)" using vals iv by (simp add: free_from_def)
  ultimately have free: "free_from test_vol 13 (test_fat s6) = {13}" by blast
  have clean: "clean_from test_vol 13 (test_fat s6)" using vals by (auto simp: clean_from_def FAT_CLUSTER_END_def FAT_CLUSTER_FREE_def FAT_CLUSTER_BAD_def FAT_CLUSTER_RESERVED_def)
  have S13: "dir_slots fake_secs test_vol (world s6) 13 = added 0 (stamped 13 (test_meta 65 6)) (dir_slots fake_secs test_vol (world s4) 13)"
    using dir_slots_fat_step [OF s6(3) test_fat_areas [OF iv(1)]] s5(4) by simp
  have "dir_slots fake_secs test_vol (world s5) 5 = dir_slots fake_secs test_vol (world s4) 5"
    by (rule dir_slots_others [OF test_data_geom s5(3)]) (use iv test_fat_areas in auto)
  then have S5: "dir_slots fake_secs test_vol (world s6) 5 = dir_slots fake_secs test_vol (world s4) 5"
    using dir_slots_fat_step [OF s6(3) test_fat_areas [OF iv(2)]] by simp
  have hit13: "hit (named (replicate 11 65)) (dir_slots fake_secs test_vol (world s6) 13) = Some (stamped 13 (test_meta 65 6))"
  proof -
    have t: "taken (stamped 13 (test_meta 65 6))" by (rule created_taken [OF test_create]) (simp_all add: ENTRY_FREE_def ENTRY_END_def)
    have n: "named (replicate 11 65) (stamped 13 (test_meta 65 6))" by (rule create_entryE(5) [OF test_create])
    have 0: "dir_slots fake_secs test_vol (world s6) 13 ! 0 = stamped 13 (test_meta 65 6)" using l(1) unfolding S13 by (simp add: nth_added)
    show ?thesis unfolding 0 [symmetric]
      by (rule hit_at) (use t n l(1) in \<open>simp_all add: 0 taken_def test_entries del: replicate.simps\<close>)
  qed
  have fs: "fs_data s6 = fs_data ?z \<and> fs_api_lock s6 = fs_api_lock ?z \<and> content_table s6 = content_table ?z \<and> allocater_lock s6 = allocater_lock ?z \<and>
      errors_lock s6 = errors_lock ?z \<and> last_allocated_cluster s6 = last_allocated_cluster ?z"
    using grow_step_fields [OF grow_step_data [OF data_step_fat [OF step4]]] grow_step_fields [OF grow_step_data [OF s5(3)]]
      grow_step_fields [OF grow_step_data [OF data_step_fat [OF s6(3)]]] by simp
  have ready: "alloc_ready 13 s6"
    using fs by (simp add: alloc_ready_def Let_def GET_CLUSTER_OFF_def CLUSTERS_MULTIPLIER_def umod_def file_start_def cluster_start_def fat_start_def)
  have tgt: "get_content_data_ca 0 s6 = 5" "get_content_ecache 0 s6 = None"
    using fs by (simp_all add: get_content_data_ca_def get_content_ecache_def content_at_def file_start_def cluster_start_def fat_start_def ci_bad_def CONTENT_TABLE_SIZE_def)
  have d6: "test_dir [5] s6" using s6(1) iv(2) vals [of 5] by (intro test_dir_one) simp_all
  have e0: "de_file_name (dir_slots fake_secs test_vol (world s6) 5 ! 0) ! 0 = ENTRY_END" using ends [OF iv(2)] l(2) by (simp add: S5)
  have room: "room_at (dir_slots fake_secs test_vol (world s6)) (entries_per_cluster test_vol) [] 5 0"
    using e0 by (simp add: room_at_def test_entries)
  have none: "hit P (dir_slots fake_secs test_vol (world s6) 5) = None" for P
    by (rule hit_ended [of 0]) (use e0 in \<open>simp_all add: is_end_def test_entries\<close>)
  have "can_put fake_read fake_write fake_ok fake_secs TEST_SECTORS TEST_SECTOR_SIZE 0 [] 5 [] 0 13 (ci_full_name test_info) s6"
    unfolding can_put_def Let_def using fs d6 tgt ready free clean room none test_fat_areas [OF iv(1)] test_journals
    by (simp add: file_start_def cluster_start_def fat_start_def test_info_def ENTRY_FREE_def ENTRY_END_def del: replicate.simps)
  then show ?thesis using free hit13 fs by (intro exI [of _ s6]) (simp add: file_start_def cluster_start_def fat_start_def del: replicate.simps)
qed

theorem put_content_found_witness:
  "\<exists>(m :: directory_entry) s s' s'' :: fake_world nifat_state. NIFAT32_put_content 0 test_info NO_RESERVE s = Some (1, s') \<and>
     entry_search (Some (replicate 11 66)) 5 None (Some zero_entry) test_vol s' = Some ((1, Some (stamped 5 m)), s'')"
proof -
  obtain s :: "fake_world nifat_state" where
    s: "can_put fake_read fake_write fake_ok fake_secs TEST_SECTORS TEST_SECTOR_SIZE 0 [] 5 [] 0 13 (ci_full_name test_info) s" "fs_data s = test_vol"
    using test_put by blast
  have n: "ci_full_name test_info = replicate 11 66" by (simp add: test_info_def)
  from put_content_found [OF s(1) s(2) [symmetric] refl, of zero_entry] show ?thesis unfolding n append_Nil list.sel by blast
qed

theorem new_dir_keeps_entries_witness:
  "\<exists>(m :: directory_entry) s s' s'' :: fake_world nifat_state. NIFAT32_put_content 0 test_info NO_RESERVE s = Some (1, s') \<and>
     create_entry (ci_full_name test_info) True (de_dca m) (cluster_size test_vol) = Some m \<and>
     entry_search (Some (replicate 11 65)) (de_dca m) None (Some zero_entry) test_vol s' =
       Some ((1, Some ((stamped 13 (test_meta 65 6))\<lparr>de_rca := de_dca m\<rparr>)), s'')"
proof -
  obtain s :: "fake_world nifat_state" where
    s: "can_put fake_read fake_write fake_ok fake_secs TEST_SECTORS TEST_SECTOR_SIZE 0 [] 5 [] 0 13 (ci_full_name test_info) s" "fs_data s = test_vol"
      "\<forall>c \<in> free_from test_vol 13 (test_fat s). hit (named (replicate 11 65)) (dir_slots fake_secs test_vol (world s) c) = Some (stamped 13 (test_meta 65 6))"
    using test_put by blast
  have i: "ci_type test_info = STAT_DIR" and l: "11 \<le> length (replicate 11 (65 :: byte))" by (simp_all add: test_info_def)
  obtain c m and s' :: "fake_world nifat_state" where 1: "NIFAT32_put_content 0 test_info NO_RESERVE s = Some (1, s')" "c \<in> free_from test_vol 13 (test_fat s)"
    "create_entry (ci_full_name test_info) True c (cluster_size test_vol) = Some m" "de_dca m = c"
    "\<forall>other e. 11 \<le> length other \<and> hit (named other) (dir_slots fake_secs test_vol (world s) c) = Some e \<longrightarrow>
      (\<exists>s''. entry_search (Some other) c None (Some zero_entry) test_vol s' = Some ((1, Some (e\<lparr>de_rca := c\<rparr>)), s''))"
    using new_dir_keeps_entries [OF s(1) s(2) [symmetric] i, of zero_entry] by blast
  then obtain s'' where "entry_search (Some (replicate 11 65)) c None (Some zero_entry) test_vol s' =
      Some ((1, Some ((stamped 13 (test_meta 65 6))\<lparr>de_rca := c\<rparr>)), s'')" using s(3) l by blast
  then show ?thesis using 1(1,3,4) by blast
qed

text \<open>The first of two files is renamed.\<close>

lemma test_sum: "entry_sum (test_meta 67 5) \<noteq> 0"
  by code_simp

lemma dir_ready_table [simp]:
  fixes s :: "('w, 'z) nifat_state_scheme"
  shows "dir_ready rd wr good secs nsec ssz fi cs (s\<lparr>fs_data := g, content_table := ts\<rparr>) = dir_ready rd wr good secs nsec ssz fi cs s"
proof -
  have "fat_of secs ssz fi (s\<lparr>fs_data := g, content_table := ts\<rparr>) = fat_of secs ssz fi s" by (rule fat_of_cong) simp_all
  then show ?thesis by (simp add: dir_ready_def vol_ok_def fat_ready_def fat_open_def dsk_ready_def)
qed

theorem change_meta_loses_witness:
  "\<exists>s s' s'' :: fake_world nifat_state. NIFAT32_change_meta 0 (test_info\<lparr>ci_full_name := replicate 11 67, ci_type := STAT_FILE\<rparr>) s = Some (1, s') \<and>
     test_slots s' = [test_meta 67 5, stamped 5 (test_meta 66 7)] \<and>
     entry_search (Some (replicate 11 67)) 5 None (Some zero_entry) test_vol s' = Some ((0, Some zero_entry), s'')"
proof -
  let ?A = "stamped 5 (test_meta 65 6)" and ?B = "stamped 5 (test_meta 66 7)" and ?i = "test_info\<lparr>ci_full_name := replicate 11 67, ci_type := STAT_FILE\<rparr>"
  obtain s0 :: "fake_world nifat_state" where s0: "test_dir [5] s0" "test_slots s0 = [?A, ?B]" using test_two_files by blast
  let ?s = "s0\<lparr>fs_data := test_vol, content_table := [\<lparr>ct_names = [], ct_index = None, ct_parent_cluster = 5, ct_data_cluster = 5, ct_meta = ?A,
       ct_type = CONTENT_TYPE_FILE, ct_mode = DF_MODE\<rparr>], fs_api_lock := NULL_LOCK\<rparr>"
  have d: "test_dir [5] ?s" using s0(1) by simp
  have S: "[?A, ?B] = dir_slots fake_secs test_vol (world ?s) 5" using s0(2) by simp
  have ci: "get_content_root_ca 0 ?s = 5" "get_content_ecache 0 ?s = None" "get_content_name 0 ?s = Some (replicate 11 65)" "get_content_data_ca 0 ?s = 5"
    by (simp_all add: get_content_root_ca_def get_content_ecache_def get_content_name_def get_content_data_ca_def content_at_def ci_bad_def
        CONTENT_TABLE_SIZE_def test_meta_def del: replicate.simps)
  have t: "taken ?A" by (rule test_meta_taken; simp add: ENTRY_FREE_def ENTRY_END_def)
  have n: "named (replicate 11 65) ?A" by (rule test_named)
  have new: "create_entry (ci_full_name ?i) (ci_type ?i = STAT_DIR) (get_content_data_ca 0 ?s) (ci_size ?i) = Some (test_meta 67 5)"
    unfolding ci using test_create [of 67 5] by (simp add: test_info_def STAT_FILE_def STAT_DIR_def)
  have o: "\<not> named (replicate 11 67) ?B" using test_other [of 67 66] by (simp add: named_def test_meta_def del: replicate.simps)
  have "\<exists>s' s''. NIFAT32_change_meta 0 ?i ?s = Some (1, s') \<and> dir_slots fake_secs test_vol (world s') 5 = [?A, ?B][0 := test_meta 67 5] \<and>
      de_checksum (test_meta 67 5) = 0 \<and> entry_search (Some (ci_full_name ?i)) 5 None (Some zero_entry) test_vol s' = Some ((0, Some zero_entry), s'')"
    by (rule change_meta_loses [OF d _ _ test_journals ci(1-3) _ S, of 0, OF _ _ _ _ _ _ _ new test_sum])
      (use t n o in \<open>auto simp: test_entries less_Suc_eq numeral_2_eq_2 simp del: replicate.simps\<close>)
  then show ?thesis by auto
qed

end
