(* ===== verification/Descriptors.thy ===== *)
theory Descriptors
  imports Mounting Etree
begin

text \<open>
  The table of open contents as a finite map from descriptors to contents, in which every descriptor
  owns the index its pointer reaches: the indices of two descriptors share no node, an unused
  descriptor has none, and the buffers of every slot have the sizes the C structure gives them.
\<close>

unbundle bit_operations_syntax

section \<open>Well-formed tables\<close>

text \<open>\<open>t\<close> is the index of the slot. The union of the names has the size of its larger member.\<close>

definition slot_ok :: "blocks \<Rightarrow> eheap \<Rightarrow> cell tree \<Rightarrow> content_t \<Rightarrow> bool" where
  "slot_ok bs h t c = (length (ct_names c) = 13 \<and> length (de_file_name (ct_meta c)) = 11 \<and> ct_index c = rp t \<and>
     tr_at h None t \<and> adist t \<and> nodes_live bs t \<and> (ct_type c = CONTENT_TYPE_EMPTY \<longrightarrow> t = Leaf))"

definition ct_ok :: "(nat \<Rightarrow> cell tree) \<Rightarrow> blocks \<Rightarrow> ('w, 'z) ctable_state_scheme \<Rightarrow> bool" where
  "ct_ok ts bs s = (length (content_table s) = CONTENT_TABLE_SIZE \<and> mm_ok bs s \<and> mgr_free (mm_manager s) = Builtin \<and>
     (\<forall>i < CONTENT_TABLE_SIZE. slot_ok bs (ec_heap s) (ts i) (content_table s ! i)) \<and>
     (\<forall>i < CONTENT_TABLE_SIZE. \<forall>j < CONTENT_TABLE_SIZE. i \<noteq> j \<longrightarrow> addrs (ts i) \<inter> addrs (ts j) = {}))"

definition descr :: "('w, 'z) ctable_state_scheme \<Rightarrow> nat \<Rightarrow> content_t option" where
  "descr s i = (if i < length (content_table s) \<and> ct_type (content_table s ! i) \<noteq> CONTENT_TYPE_EMPTY
     then Some (content_table s ! i) else None)"

lemma descr_cong: "content_table s = content_table s' \<Longrightarrow> descr s = descr s'"
  by (simp add: descr_def fun_eq_iff)

lemma ct_ok_cong:
  assumes "content_table s = content_table s'" "mm_heap s = mm_heap s'" "mm_allocated s = mm_allocated s'" "malloc_lock s = malloc_lock s'"
    "mm_manager s = mm_manager s'" "ec_heap s = ec_heap s'"
  shows "ct_ok ts bs s = ct_ok ts bs s'"
  using assms by (simp add: ct_ok_def mm_ok_def)

lemma ct_ok_locks [simp]:
  "ct_ok ts bs (s\<lparr>content_lock := l\<rparr>) = ct_ok ts bs s" "descr (s\<lparr>content_lock := l\<rparr>) = descr s"
  by (rule ct_ok_cong; simp) (rule descr_cong; simp)

lemma ct_ok_put:
  assumes "ct_ok ts bs s" "i < CONTENT_TABLE_SIZE" "slot_ok bs (ec_heap s) (ts i) c"
  shows "ct_ok ts bs (s\<lparr>content_table := (content_table s)[i := c]\<rparr>)"
  using assms by (auto simp: ct_ok_def mm_ok_def nth_list_update)

lemma descr_put:
  assumes "i < length (content_table s)"
  shows "descr (s\<lparr>content_table := (content_table s)[i := c]\<rparr>) =
    (descr s)(i := (if ct_type c = CONTENT_TYPE_EMPTY then None else Some c))"
  using assms by (auto simp: descr_def fun_eq_iff nth_list_update)

lemma lock_content_free [simp]: "content_lock s = NULL_LOCK \<Longrightarrow> lock_content s = Some (1, s\<lparr>content_lock := HELD\<rparr>)"
  by (simp add: lock_content_def)

lemma unlock_content_held [simp]: "content_lock s = HELD \<Longrightarrow> unlock_content s = Some (1, s\<lparr>content_lock := NULL_LOCK\<rparr>)"
  by (simp add: unlock_content_def)

lemma content_lock_id: "content_lock s = l \<Longrightarrow> s\<lparr>content_lock := l\<rparr> = s"
  by (cases s) simp

section \<open>Allocation\<close>

lemma first_empty_eq:
  assumes "0 \<le> k"
  shows "first_empty cs k = (if \<exists>i < length cs. ct_type (cs ! i) = CONTENT_TYPE_EMPTY
    then k + int (LEAST i. i < length cs \<and> ct_type (cs ! i) = CONTENT_TYPE_EMPTY) else -1)"
  using assms
proof (induction cs arbitrary: k)
  case (Cons c cs)
  let ?P = "\<lambda>i. i < length (c # cs) \<and> ct_type ((c # cs) ! i) = CONTENT_TYPE_EMPTY"
  show ?case
  proof (cases "ct_type c = CONTENT_TYPE_EMPTY")
    case True
    then have "(LEAST i. ?P i) = 0" by (intro Least_equality) auto
    then show ?thesis using True by auto
  next
    case False
    have ex: "(\<exists>i < length (c # cs). ct_type ((c # cs) ! i) = CONTENT_TYPE_EMPTY) = (\<exists>i < length cs. ct_type (cs ! i) = CONTENT_TYPE_EMPTY)"
      using False by (auto simp: less_Suc_eq_0_disj)
    have "(LEAST i. ?P i) = Suc (LEAST i. i < length cs \<and> ct_type (cs ! i) = CONTENT_TYPE_EMPTY)"
      if "\<exists>i < length cs. ct_type (cs ! i) = CONTENT_TYPE_EMPTY"
    proof -
      from that obtain n where "n < length cs" "ct_type (cs ! n) = CONTENT_TYPE_EMPTY" by blast
      then have "?P (Suc n)" by simp
      moreover have "\<not> ?P 0" using False by simp
      ultimately have "(LEAST i. ?P i) = Suc (LEAST i. ?P (Suc i))" by (rule Least_Suc)
      then show ?thesis by simp
    qed
    then show ?thesis using False ex Cons by (simp del: length_Cons)
  qed
qed simp

lemma descr_none_least:
  assumes "length (content_table s) = CONTENT_TABLE_SIZE" "dom (descr s) \<noteq> {..<CONTENT_TABLE_SIZE}"
  shows "first_empty (content_table s) 0 = int (LEAST i. descr s i = None)" "(LEAST i. descr s i = None) < CONTENT_TABLE_SIZE"
    "ct_type (content_table s ! (LEAST i. descr s i = None)) = CONTENT_TYPE_EMPTY"
proof -
  have "dom (descr s) \<subseteq> {..<CONTENT_TABLE_SIZE}" using assms(1) by (auto simp: descr_def split: if_splits)
  then obtain j where "j < CONTENT_TABLE_SIZE" "j \<notin> dom (descr s)" using assms(2) by blast
  then have j: "j < length (content_table s)" "ct_type (content_table s ! j) = CONTENT_TYPE_EMPTY" "descr s j = None"
    using assms(1) by (auto simp: descr_def split: if_splits)
  let ?P = "\<lambda>i. i < length (content_table s) \<and> ct_type (content_table s ! i) = CONTENT_TYPE_EMPTY"
  let ?l = "LEAST i. descr s i = None"
  have l: "descr s ?l = None" "?l \<le> j" using LeastI [of "\<lambda>i. descr s i = None", OF j(3)] Least_le [of "\<lambda>i. descr s i = None", OF j(3)] by simp_all
  then have p: "?P ?l" using j(1) by (auto simp: descr_def split: if_splits)
  then show "?l < CONTENT_TABLE_SIZE" "ct_type (content_table s ! ?l) = CONTENT_TYPE_EMPTY" using assms(1) by simp_all
  have "(LEAST i. ?P i) = ?l"
  proof (rule Least_equality)
    show "?P ?l" using p .
    fix y assume "?P y"
    then have "descr s y = None" by (simp add: descr_def)
    then show "?l \<le> y" by (rule Least_le)
  qed
  then show "first_empty (content_table s) 0 = int ?l" using first_empty_eq [of 0 "content_table s"] j by auto
qed

lemma alloc_ci_full:
  assumes "ct_ok ts bs s" "content_lock s = NULL_LOCK" "dom (descr s) = {..<CONTENT_TABLE_SIZE}"
  shows "alloc_ci s = Some (-1, s)"
proof -
  have "\<not> (\<exists>i < length (content_table s). ct_type (content_table s ! i) = CONTENT_TYPE_EMPTY)"
    using assms(1,3) by (auto simp: ct_ok_def descr_def dom_def set_eq_iff split: if_splits)
  then have "first_empty (content_table s) 0 = -1" using first_empty_eq [of 0 "content_table s"] by simp
  then show ?thesis using assms(2) content_lock_id [OF assms(2)] by (simp add: alloc_ci_def Let_def)
qed

lemma alloc_ci_free:
  assumes "ct_ok ts bs s" "content_lock s = NULL_LOCK" "dom (descr s) \<noteq> {..<CONTENT_TABLE_SIZE}" "i = (LEAST i. descr s i = None)"
  shows "i < CONTENT_TABLE_SIZE" "descr s i = None" "ts i = Leaf"
    "alloc_ci s = Some (int i, s\<lparr>content_table := (content_table s)[i := init_content (content_table s ! i)]\<rparr>)"
    "ct_ok ts bs (s\<lparr>content_table := (content_table s)[i := init_content (content_table s ! i)]\<rparr>)"
proof -
  have len: "length (content_table s) = CONTENT_TABLE_SIZE" using assms(1) by (simp add: ct_ok_def)
  note l = descr_none_least [OF len assms(3), folded assms(4)]
  show "i < CONTENT_TABLE_SIZE" using l(2) .
  show "descr s i = None" using l(3) by (simp add: descr_def)
  have slot: "slot_ok bs (ec_heap s) (ts i) (content_table s ! i)" using assms(1) l(2) by (simp add: ct_ok_def)
  then show leaf: "ts i = Leaf" using l(3) by (simp add: slot_ok_def)
  have "slot_ok bs (ec_heap s) (ts i) (init_content (content_table s ! i))" using slot leaf by (simp add: slot_ok_def init_content_def NO_ECACHE_def)
  then show "ct_ok ts bs (s\<lparr>content_table := (content_table s)[i := init_content (content_table s ! i)]\<rparr>)"
    by (rule ct_ok_put [OF assms(1) l(2)])
  have "s\<lparr>content_lock := HELD, content_table := x, content_lock := NULL_LOCK\<rparr> = s\<lparr>content_table := x\<rparr>" for x
    using assms(2) by (cases s) simp
  then show "alloc_ci s = Some (int i, s\<lparr>content_table := (content_table s)[i := init_content (content_table s ! i)]\<rparr>)"
    using assms(2) l(1) by (simp add: alloc_ci_def Let_def put_content_at_def content_at_def)
qed

section \<open>Setting up and reading a descriptor\<close>

text \<open>Copies of at most \<open>n\<close> characters stay inside buffers of \<open>n\<close> bytes.\<close>

lemma strncpy_total:
  assumes "n \<le> length dst" "n \<le> length src"
  shows "\<exists>d. nft32_str_strncpy dst src n = Some d \<and> length d = length dst"
proof -
  define cs where "cs = takeWhile (\<lambda>c. c \<noteq> 0) (take n src)"
  have pre: "take (length cs) (take n src) = cs" unfolding cs_def by (rule takeWhile_eq_take [symmetric])
  have le: "length cs \<le> n" unfolding cs_def using length_takeWhile_le [of "\<lambda>c. c \<noteq> 0" "take n src"] assms(2) by simp
  have z: "0 \<notin> set cs" unfolding cs_def by (auto dest: set_takeWhileD)
  have tk: "take (length cs) src = cs" using pre le by (simp add: min_def)
  have "length cs = n \<or> length cs < n \<and> (\<exists>r. src = cs @ 0 # r)"
  proof (cases "length cs = n")
    case False
    then have lt: "length cs < n" using le by simp
    then have "length cs < length (take n src)" using assms(2) by simp
    then have "take n src ! length cs = 0" unfolding cs_def using nth_length_takeWhile by blast
    then have zero: "src ! length cs = 0" using lt by simp
    have "src = take (length cs) src @ src ! length cs # drop (Suc (length cs)) src"
      by (rule id_take_nth_drop) (use lt assms(2) in simp)
    then have "src = cs @ 0 # drop (Suc (length cs)) src" unfolding tk zero .
    then show ?thesis using lt by blast
  qed simp
  then have "nft32_str_strncpy dst src n = Some (cs @ replicate (n - length cs) 0 @ drop n dst)"
    using strncpy_eq [OF assms(1) z _ tk] by blast
  then show ?thesis using le assms(1) by simp
qed

lemma unpack_83_total:
  assumes "11 \<le> length name83"
  shows "\<exists>n e. nft32_unpack_83_name name83 (replicate 12 0) (replicate 6 0) = Some (n, e) \<and> length n = 12 \<and> length e = 6"
  using memcpy_bytes_eq [of 0 8 "replicate 12 0" name83] memcpy_bytes_eq [of 0 3 "replicate 6 0" "drop 8 name83"] assms
  by (simp add: nft32_unpack_83_name_def del: replicate.simps)

lemma setup_names_total:
  assumes "11 \<le> length name83" "length names = 13"
  shows "\<exists>d. setup_names is_dir name83 names = Some d \<and> length d = 13"
proof (cases is_dir)
  case True
  then show ?thesis using strncpy_total [of 11 names name83] assms by (simp add: setup_names_def)
next
  case False
  obtain n e where ne: "nft32_unpack_83_name name83 (replicate 12 0) (replicate 6 0) = Some (n, e)" "length n = 12" "length e = 6"
    using unpack_83_total [OF assms(1)] by blast
  obtain d where d: "nft32_str_strncpy names n 8 = Some d" "length d = 13" using strncpy_total [of 8 names n] ne(2) assms(2) by auto
  obtain x where x: "nft32_str_strncpy (drop file_extension_at d) e 3 = Some x" "length x = 4"
    using strncpy_total [of 3 "drop file_extension_at d" e] ne(3) d(2) by (auto simp: file_extension_at_def)
  show ?thesis using False ne(1) d x by (simp add: setup_names_def file_extension_at_def del: replicate.simps)
qed

lemma setup_ok:
  assumes ok: "ct_ok ts bs s" and i: "i < CONTENT_TABLE_SIZE" and "11 \<le> length name83" "length (de_file_name m) = 11"
  shows "\<exists>names. let c = (content_table s ! i)\<lparr>ct_type := if is_dir then CONTENT_TYPE_DIRECTORY else CONTENT_TYPE_FILE, ct_names := names,
      ct_meta := m, ct_parent_cluster := de_rca m, ct_data_cluster := de_dca m, ct_mode := mode\<rparr> in
    setup_content (int i) is_dir name83 (Some m) mode s = Some (1, s\<lparr>content_table := (content_table s)[i := c]\<rparr>) \<and>
    ct_ok ts bs (s\<lparr>content_table := (content_table s)[i := c]\<rparr>)"
proof -
  have len: "length (content_table s) = CONTENT_TABLE_SIZE" and slot: "slot_ok bs (ec_heap s) (ts i) (content_table s ! i)"
    using ok i by (simp_all add: ct_ok_def)
  obtain names where n: "setup_names is_dir name83 (ct_names (content_table s ! i)) = Some names" "length names = 13"
    using setup_names_total [OF assms(3)] slot by (auto simp: slot_ok_def)
  let ?c = "(content_table s ! i)\<lparr>ct_type := if is_dir then CONTENT_TYPE_DIRECTORY else CONTENT_TYPE_FILE, ct_names := names,
      ct_meta := m, ct_parent_cluster := de_rca m, ct_data_cluster := de_dca m, ct_mode := mode\<rparr>"
  have "setup_content (int i) is_dir name83 (Some m) mode s = Some (1, s\<lparr>content_table := (content_table s)[i := ?c]\<rparr>)"
    using i len n(1) by (simp add: setup_content_def ci_bad_def put_content_at_def content_at_def Let_def)
  moreover have "slot_ok bs (ec_heap s) (ts i) ?c" using slot n(2) assms(4) by (simp add: slot_ok_def)
  ultimately show ?thesis using ct_ok_put [OF ok i] by (intro exI [of _ names]) (simp add: Let_def)
qed

lemma stat_total:
  assumes "ct_ok ts bs s" "0 \<le> ci" "ci < int CONTENT_TABLE_SIZE"
    and "length (ci_full_name info) = 12" "length (ci_name info) = 8" "length (ci_extention info) = 4"
  shows "\<exists>r info'. stat_content ci info s = Some (r, info') \<and>
    length (ci_full_name info') = 12 \<and> length (ci_name info') = 8 \<and> length (ci_extention info') = 4"
proof -
  let ?c = "content_table s ! nat ci"
  have l: "length (ct_names ?c) = 13" "length (de_file_name (ct_meta ?c)) = 11"
    using assms(1-3) by (simp_all add: ct_ok_def slot_ok_def)
  obtain n where n: "nft32_str_strncpy (ci_name info) (drop file_name_at (ct_names ?c)) 8 = Some n" "length n = 8"
    using strncpy_total [of 8 "ci_name info" "ct_names ?c"] l(1) assms(5) by (auto simp: file_name_at_def)
  obtain e where e: "nft32_str_strncpy (ci_extention info) (drop file_extension_at (ct_names ?c)) 3 = Some e" "length e = 4"
    using strncpy_total [of 3 "ci_extention info" "drop file_extension_at (ct_names ?c)"] l(1) assms(6) by (auto simp: file_extension_at_def)
  show ?thesis using assms l n e memcpy_eq [of 11 "ci_full_name info"]
    by (cases "ct_type ?c") (simp_all add: stat_content_def ci_bad_def content_at_def Let_def)
qed

section \<open>Destruction\<close>

lemma tr_at_same: "\<forall>a \<in> addrs u. g a = h a \<Longrightarrow> tr_at g q u = tr_at h q u"
  by (induction u arbitrary: q) auto

lemma destroy_none:
  "ci < 0 \<or> descr s (nat ci) = None \<Longrightarrow> length (content_table s) = CONTENT_TABLE_SIZE \<Longrightarrow> destroy_content ci s = Some (0, s)"
  by (auto simp: destroy_content_def ci_bad_def descr_def content_at_def split: if_splits)

lemma destroy_ok:
  assumes ok: "ct_ok ts bs s" and lock: "content_lock s = NULL_LOCK" and d: "descr s i \<noteq> None"
  shows "\<exists>s' bs'. destroy_content (int i) s = Some (1, s') \<and> ct_ok (ts(i := Leaf)) bs' s' \<and> descr s' = (descr s)(i := None) \<and>
    live bs' = {(a, n) \<in> live bs. a \<notin> addrs (ts i)} \<and>
    (\<exists>h al g tab. s' = s\<lparr>mm_heap := h, mm_allocated := al, ec_heap := g, content_table := tab\<rparr>)"
proof -
  let ?c = "content_table s ! i"
  have len: "length (content_table s) = CONTENT_TABLE_SIZE" and mm: "mm_ok bs s" "mgr_free (mm_manager s) = Builtin"
    and slots: "\<And>j. j < CONTENT_TABLE_SIZE \<Longrightarrow> slot_ok bs (ec_heap s) (ts j) (content_table s ! j)"
    and apart: "\<And>j k. j < CONTENT_TABLE_SIZE \<Longrightarrow> k < CONTENT_TABLE_SIZE \<Longrightarrow> j \<noteq> k \<Longrightarrow> addrs (ts j) \<inter> addrs (ts k) = {}"
    using ok by (simp_all add: ct_ok_def)
  have i: "i < CONTENT_TABLE_SIZE" "ct_type ?c \<noteq> CONTENT_TYPE_EMPTY" using d len by (auto simp: descr_def split: if_splits)
  have root: "ct_index ?c = rp (ts i)" and tr: "tr_at (ec_heap s) None (ts i)" "adist (ts i)" "nodes_live bs (ts i)"
    using slots [OF i(1)] by (simp_all add: slot_ok_def)
  let ?h = "s\<lparr>content_lock := HELD\<rparr>"
  have hmm: "mm_ok bs ?h" "mgr_free (mm_manager ?h) = Builtin" "tr_at (ec_heap ?h) None (ts i)" using mm tr by (simp_all add: mm_ok_def)
  let ?g = "\<lambda>a. if a \<in> addrs (ts i) then None else ec_heap s a"
  have same_heap: "ec_heap ?h = ec_heap s" by simp
  obtain h al bs' r where f: "ecache_free (rp (ts i)) ?h = Some (r, ?h\<lparr>mm_heap := h, mm_allocated := al, ec_heap := ?g\<rparr>)"
    "mm_ok bs' (?h\<lparr>mm_heap := h, mm_allocated := al, ec_heap := ?g\<rparr>)" "live bs' = {(a, n) \<in> live bs. a \<notin> addrs (ts i)}"
    using ecache_free_ok [OF hmm(3) tr(2) hmm(1,2) tr(3)] unfolding same_heap by blast
  let ?tab = "(content_table s)[i := ?c\<lparr>ct_type := CONTENT_TYPE_EMPTY, ct_index := NO_ECACHE\<rparr>]"
  let ?s' = "s\<lparr>mm_heap := h, mm_allocated := al, ec_heap := ?g, content_table := ?tab\<rparr>"
  have unlock: "?h\<lparr>mm_heap := h, mm_allocated := al, ec_heap := ?g, content_table := ?tab, content_lock := NULL_LOCK\<rparr> = ?s'"
    using lock by (cases s) simp
  have "destroy_content (int i) s = Some (1, ?s')"
  proof (cases "ts i")
    case Leaf
    have "Some (0, ?h) = Some (r, ?h\<lparr>mm_heap := h, mm_allocated := al, ec_heap := ?g\<rparr>)"
      using f(1) unfolding Leaf by (subst (asm) ecache_free.simps) simp
    then have "?h = ?h\<lparr>mm_heap := h, mm_allocated := al, ec_heap := ?g\<rparr>" by blast
    from arg_cong [OF this, of mm_heap] arg_cong [OF this, of mm_allocated] have "mm_heap ?h = h" "mm_allocated ?h = al" by simp_all
    moreover have "?g = ec_heap s" using Leaf by simp
    ultimately have "?s' = s\<lparr>content_table := ?tab\<rparr>" by simp
    moreover have "?h\<lparr>content_table := ?tab, content_lock := NULL_LOCK\<rparr> = s\<lparr>content_table := ?tab\<rparr>" using lock by (cases s) simp
    ultimately show ?thesis using i len lock root Leaf
      by (simp add: destroy_content_def ci_bad_def content_at_def put_content_at_def Let_def)
  next
    case (Node l v u)
    then have "ct_index ?c \<noteq> None" using root by simp
    then show ?thesis using f(1) i len lock unlock root
      by (simp add: destroy_content_def ci_bad_def content_at_def put_content_at_def Let_def del: rp.simps)
  qed
  moreover have "ct_ok (ts(i := Leaf)) bs' ?s'"
  proof -
    have "slot_ok bs' ?g ((ts(i := Leaf)) j) (?tab ! j)" if "j < CONTENT_TABLE_SIZE" for j
    proof (cases "j = i")
      case True
      then show ?thesis using slots [OF i(1)] i(1) len by (simp add: slot_ok_def nodes_live_def NO_ECACHE_def)
    next
      case False
      have dis: "addrs (ts j) \<inter> addrs (ts i) = {}" using apart [OF that i(1) False] .
      then have "tr_at ?g None (ts j) = tr_at (ec_heap s) None (ts j)" by (intro tr_at_same) auto
      moreover have "nodes_live bs' (ts j)" if nl: "nodes_live bs (ts j)" unfolding nodes_live_def
      proof
        fix a assume a: "a \<in> addrs (ts j)"
        then obtain n where "sizeof_ecache \<le> n" "(a, n) \<in> live bs" using nl by (auto simp: nodes_live_def)
        moreover have "a \<notin> addrs (ts i)" using a dis by blast
        ultimately show "\<exists>n \<ge> sizeof_ecache. (a, n) \<in> live bs'" unfolding f(3) by blast
      qed
      ultimately show ?thesis using slots [OF that] False by (simp add: slot_ok_def)
    qed
    moreover have "mm_ok bs' ?s'" using f(2) by (simp add: mm_ok_def)
    ultimately show ?thesis using len mm(2) apart by (simp add: ct_ok_def)
  qed
  moreover have "descr ?s' = (descr s)(i := None)"
    using i(1) len by (auto simp: descr_def fun_eq_iff nth_list_update)
  ultimately show ?thesis using f(3) by blast
qed

section \<open>The calls\<close>

lemma api_relock:
  assumes "fs_api_lock s = NULL_LOCK"
  shows "s\<lparr>fs_api_lock := HELD, content_table := x, fs_api_lock := NULL_LOCK\<rparr> = s\<lparr>content_table := x\<rparr>"
    "s\<lparr>fs_api_lock := HELD, fs_api_lock := NULL_LOCK\<rparr> = s"
  using assms by (cases s; simp)+

lemma open_root_ok:
  assumes ok: "ct_ok ts bs s" and locks: "content_lock s = NULL_LOCK" "fs_api_lock s = NULL_LOCK"
    and ring: "errors_count (fs_data s) = 0" "errors_lock s = NULL_LOCK"
  shows "\<exists>r s'. NIFAT32_open_content rci None mode s = Some (r, s') \<and> ct_ok ts bs s' \<and>
      content_lock s' = NULL_LOCK \<and> fs_api_lock s' = NULL_LOCK \<and>
      (if dom (descr s) = {..<CONTENT_TABLE_SIZE} then r = -1 \<and> descr s' = descr s
       else r = int (LEAST i. descr s i = None) \<and> ts (LEAST i. descr s i = None) = Leaf \<and>
         (\<exists>c. descr s' = (descr s)((LEAST i. descr s i = None) \<mapsto> c) \<and> ct_type c = CONTENT_TYPE_DIRECTORY \<and> ct_mode c = mode \<and>
            ct_data_cluster c = ext_root_cluster (fs_data s) \<and> ct_index c = None))"
proof -
  let ?h = "s\<lparr>fs_api_lock := HELD\<rparr>" and ?i = "LEAST i. descr s i = None"
  have h: "ct_ok ts bs ?h" "content_lock ?h = NULL_LOCK" and dh: "descr ?h = descr s"
    using ok locks ct_ok_cong [of ?h s] descr_cong [of ?h s] by simp_all
  have len: "length (content_table s) = CONTENT_TABLE_SIZE" using ok by (simp add: ct_ok_def)
  note relock = api_relock [OF locks(2)]
  show ?thesis
  proof (cases "dom (descr s) = {..<CONTENT_TABLE_SIZE}")
    case True
    obtain e where e: "api_error CTABLE_FULL_ERROR ?h = Some (1, ?h\<lparr>errors_ring := e\<rparr>)" using errors_off [of ?h] ring by auto
    have "alloc_ci ?h = Some (-1, ?h)" using alloc_ci_full [OF h] True dh by simp
    then have "NIFAT32_open_content rci None mode s = Some (-1, (?h\<lparr>errors_ring := e\<rparr>)\<lparr>fs_api_lock := NULL_LOCK\<rparr>)"
      unfolding NIFAT32_open_content_def using e by (intro fs_api_free [OF locks(2)]) simp_all
    moreover have "ct_ok ts bs ((?h\<lparr>errors_ring := e\<rparr>)\<lparr>fs_api_lock := NULL_LOCK\<rparr>)"
      "descr ((?h\<lparr>errors_ring := e\<rparr>)\<lparr>fs_api_lock := NULL_LOCK\<rparr>) = descr s"
      using ok ct_ok_cong [of "(?h\<lparr>errors_ring := e\<rparr>)\<lparr>fs_api_lock := NULL_LOCK\<rparr>" s]
        descr_cong [of "(?h\<lparr>errors_ring := e\<rparr>)\<lparr>fs_api_lock := NULL_LOCK\<rparr>" s] by simp_all
    ultimately show ?thesis using True locks by (intro exI [of _ "-1"] exI [of _ "(?h\<lparr>errors_ring := e\<rparr>)\<lparr>fs_api_lock := NULL_LOCK\<rparr>"]) simp
  next
    case False
    note a = alloc_ci_free [OF h _ refl, unfolded dh, OF False]
    let ?m = "zero_entry\<lparr>de_dca := ext_root_cluster (fs_data s), de_rca := FAT_CLUSTER_BAD\<rparr>"
    let ?t1 = "(content_table s)[?i := init_content (content_table s ! ?i)]"
    have nm: "11 \<le> length root_name" "length (de_file_name ?m) = 11" by (simp_all add: root_name_def zero_entry_def)
    obtain names where st: "let c = (?t1 ! ?i)\<lparr>ct_type := if True then CONTENT_TYPE_DIRECTORY else CONTENT_TYPE_FILE, ct_names := names,
        ct_meta := ?m, ct_parent_cluster := de_rca ?m, ct_data_cluster := de_dca ?m, ct_mode := mode\<rparr> in
      setup_content (int ?i) True root_name (Some ?m) mode (?h\<lparr>content_table := ?t1\<rparr>) = Some (1, (?h\<lparr>content_table := ?t1\<rparr>)\<lparr>content_table := ?t1[?i := c]\<rparr>) \<and>
      ct_ok ts bs ((?h\<lparr>content_table := ?t1\<rparr>)\<lparr>content_table := ?t1[?i := c]\<rparr>)"
      using setup_ok [OF a(5) a(1) nm, where is_dir = True and mode = mode] by auto
    define c where "c = (init_content (content_table s ! ?i))\<lparr>ct_type := CONTENT_TYPE_DIRECTORY, ct_names := names,
        ct_meta := ?m, ct_parent_cluster := FAT_CLUSTER_BAD, ct_data_cluster := ext_root_cluster (fs_data s), ct_mode := mode\<rparr>"
    let ?s1 = "?h\<lparr>content_table := (content_table s)[?i := c]\<rparr>"
    have s1: "setup_content (int ?i) True root_name (Some ?m) mode (?h\<lparr>content_table := ?t1\<rparr>) = Some (1, ?s1)" "ct_ok ts bs ?s1"
      using st a(1) len by (simp_all add: Let_def c_def)
    have "NIFAT32_open_content rci None mode s = Some (int ?i, ?s1\<lparr>fs_api_lock := NULL_LOCK\<rparr>)"
      unfolding NIFAT32_open_content_def using a(4) s1(1) by (intro fs_api_free [OF locks(2)]) (simp_all add: Let_def)
    then have run: "NIFAT32_open_content rci None mode s = Some (int ?i, s\<lparr>content_table := (content_table s)[?i := c]\<rparr>)"
      unfolding relock .
    moreover have "ct_ok ts bs (s\<lparr>content_table := (content_table s)[?i := c]\<rparr>)"
      using s1(2) ct_ok_cong [of ?s1 "s\<lparr>content_table := (content_table s)[?i := c]\<rparr>"] by simp
    moreover have "descr (s\<lparr>content_table := (content_table s)[?i := c]\<rparr>) = (descr s)(?i \<mapsto> c)"
      using descr_put [of ?i s c] a(1) len by (simp add: c_def)
    moreover have "ct_type c = CONTENT_TYPE_DIRECTORY" "ct_mode c = mode" "ct_data_cluster c = ext_root_cluster (fs_data s)" "ct_index c = None"
      by (simp_all add: c_def init_content_def NO_ECACHE_def)
    ultimately show ?thesis using False a(3) locks
      by (intro exI [of _ "int ?i"] exI [of _ "s\<lparr>content_table := (content_table s)[?i := c]\<rparr>"]) auto
  qed
qed

lemma close_any_ok:
  assumes ok: "ct_ok ts bs s" and locks: "content_lock s = NULL_LOCK" "fs_api_lock s = NULL_LOCK"
  shows "\<exists>r s' bs'. NIFAT32_close_content ci s = Some (r, s') \<and>
      (if 0 \<le> ci \<and> descr s (nat ci) \<noteq> None
       then r = 1 \<and> descr s' = (descr s)(nat ci := None) \<and> ct_ok (ts(nat ci := Leaf)) bs' s' \<and>
         live bs' = {(a, n) \<in> live bs. a \<notin> addrs (ts (nat ci))} \<and> content_lock s' = NULL_LOCK \<and> fs_api_lock s' = NULL_LOCK
       else r = 0 \<and> s' = s)"
proof -
  let ?h = "s\<lparr>fs_api_lock := HELD\<rparr>" and ?i = "LEAST i. descr s i = None"
  have h: "ct_ok ts bs ?h" "content_lock ?h = NULL_LOCK" and dh: "descr ?h = descr s"
    using ok locks ct_ok_cong [of ?h s] descr_cong [of ?h s] by simp_all
  have len: "length (content_table s) = CONTENT_TABLE_SIZE" using ok by (simp add: ct_ok_def)
  note relock = api_relock [OF locks(2)]
  show ?thesis
  proof (cases "0 \<le> ci \<and> descr s (nat ci) \<noteq> None")
    case True
    then have ci: "ci = int (nat ci)" "descr ?h (nat ci) \<noteq> None" using dh by simp_all
    obtain s' bs' where d: "destroy_content (int (nat ci)) ?h = Some (1, s')" "ct_ok (ts(nat ci := Leaf)) bs' s'" "descr s' = (descr ?h)(nat ci := None)"
      "live bs' = {(a, n) \<in> live bs. a \<notin> addrs (ts (nat ci))}"
      "\<exists>h al g tab. s' = ?h\<lparr>mm_heap := h, mm_allocated := al, ec_heap := g, content_table := tab\<rparr>"
      using destroy_ok [OF h ci(2)] by blast
    have f: "fs_api_lock s' = HELD" "content_lock s' = NULL_LOCK" using d(5) locks by auto
    have "NIFAT32_close_content ci s = Some (1, s'\<lparr>fs_api_lock := NULL_LOCK\<rparr>)"
      unfolding NIFAT32_close_content_def using d(1) ci(1) f by (intro fs_api_free [OF locks(2)]) simp_all
    moreover have "ct_ok (ts(nat ci := Leaf)) bs' (s'\<lparr>fs_api_lock := NULL_LOCK\<rparr>)" "descr (s'\<lparr>fs_api_lock := NULL_LOCK\<rparr>) = (descr s)(nat ci := None)"
      using d(2,3) dh ct_ok_cong [of "s'\<lparr>fs_api_lock := NULL_LOCK\<rparr>" s'] descr_cong [of "s'\<lparr>fs_api_lock := NULL_LOCK\<rparr>" s'] by simp_all
    ultimately show ?thesis using True d(4) f by (intro exI [of _ 1] exI [of _ "s'\<lparr>fs_api_lock := NULL_LOCK\<rparr>"] exI [of _ bs']) simp
  next
    case False
    have "destroy_content ci ?h = Some (0, ?h)" using destroy_none [of ci ?h] False dh len by auto
    then have "NIFAT32_close_content ci s = Some (0, ?h\<lparr>fs_api_lock := NULL_LOCK\<rparr>)"
      unfolding NIFAT32_close_content_def by (intro fs_api_free [OF locks(2)]) simp_all
    then show ?thesis using False unfolding relock by auto
  qed
qed

lemma stat_any_ok:
  assumes ok: "ct_ok ts bs s" and locks: "fs_api_lock s = NULL_LOCK"
    and ci: "0 \<le> ci" "ci < int CONTENT_TABLE_SIZE" "length (ci_full_name info) = 12" "length (ci_name info) = 8" "length (ci_extention info) = 4"
  shows "\<exists>r info'. NIFAT32_stat_content ci info s = Some ((r, info'), s) \<and>
        length (ci_full_name info') = 12 \<and> length (ci_name info') = 8 \<and> length (ci_extention info') = 4"
proof -
  let ?h = "s\<lparr>fs_api_lock := HELD\<rparr>"
  have "ct_ok ts bs ?h" using ok ct_ok_cong [of ?h s] by simp
  then obtain r info' where r: "stat_content ci info ?h = Some (r, info')" "length (ci_full_name info') = 12" "length (ci_name info') = 8" "length (ci_extention info') = 4"
    using stat_total [OF _ ci] by blast
  have "NIFAT32_stat_content ci info s = Some ((r, info'), ?h\<lparr>fs_api_lock := NULL_LOCK\<rparr>)"
    unfolding NIFAT32_stat_content_def using r(1) by (intro fs_api_free [OF locks]) simp_all
  then show ?thesis using r(2-4) unfolding api_relock(2) [OF locks] by blast
qed

section \<open>Properties\<close>

text \<open>C18 (descriptors stay well-formed and exclusive). On a well-formed table every call that opens the
  root or closes any descriptor number is defined, returns with both locks free and leaves a
  well-formed table. Opening returns the least descriptor not in use and sets only this one up, or
  -1 when all fifty are in use; closing a descriptor in use removes exactly it and frees exactly the
  nodes of its index; any other number is refused with 0 and nothing changes. The status of a slot is
  copied without leaving the caller's buffers.\<close>

theorem descriptors_type:
  assumes ok: "ct_ok ts bs s" and locks: "content_lock s = NULL_LOCK" "fs_api_lock s = NULL_LOCK"
    and ring: "errors_count (fs_data s) = 0" "errors_lock s = NULL_LOCK"
  shows "(\<exists>r s'. NIFAT32_open_content rci None mode s = Some (r, s') \<and> ct_ok ts bs s' \<and>
      content_lock s' = NULL_LOCK \<and> fs_api_lock s' = NULL_LOCK \<and>
      (if dom (descr s) = {..<CONTENT_TABLE_SIZE} then r = -1 \<and> descr s' = descr s
       else r = int (LEAST i. descr s i = None) \<and> ts (LEAST i. descr s i = None) = Leaf \<and>
         (\<exists>c. descr s' = (descr s)((LEAST i. descr s i = None) \<mapsto> c) \<and> ct_type c = CONTENT_TYPE_DIRECTORY \<and> ct_mode c = mode \<and>
            ct_data_cluster c = ext_root_cluster (fs_data s) \<and> ct_index c = None))) \<and>
    (\<exists>r s' bs'. NIFAT32_close_content ci s = Some (r, s') \<and>
      (if 0 \<le> ci \<and> descr s (nat ci) \<noteq> None
       then r = 1 \<and> descr s' = (descr s)(nat ci := None) \<and> ct_ok (ts(nat ci := Leaf)) bs' s' \<and>
         live bs' = {(a, n) \<in> live bs. a \<notin> addrs (ts (nat ci))} \<and> content_lock s' = NULL_LOCK \<and> fs_api_lock s' = NULL_LOCK
       else r = 0 \<and> s' = s)) \<and>
    (0 \<le> ci \<and> ci < int CONTENT_TABLE_SIZE \<and> length (ci_full_name info) = 12 \<and> length (ci_name info) = 8 \<and> length (ci_extention info) = 4 \<longrightarrow>
      (\<exists>r info'. NIFAT32_stat_content ci info s = Some ((r, info'), s) \<and>
        length (ci_full_name info') = 12 \<and> length (ci_name info') = 8 \<and> length (ci_extention info') = 4))"
  using open_root_ok [OF assms, of rci mode] close_any_ok [OF ok locks, of ci] stat_any_ok [OF ok locks(2), of ci info] by (intro conjI impI) simp_all

text \<open>Descriptor 0 is a directory with an index of three entries, the others are unused.\<close>

definition slot_start :: content_t where
  "slot_start = \<lparr>ct_names = replicate 13 0, ct_index = None, ct_parent_cluster = 0, ct_data_cluster = 0, ct_meta = zero_entry,
     ct_type = CONTENT_TYPE_EMPTY, ct_mode = 0\<rparr>"

definition open_start :: "fake_world nifat_state" where
  "open_start = file_start\<lparr>mm_heap := mm_heap ec_three, mm_allocated := mm_allocated ec_three, malloc_lock := malloc_lock ec_three,
     mm_manager := \<lparr>mgr_init = Builtin, mgr_malloc = Builtin, mgr_free = Builtin\<rparr>, ec_heap := ec_heap ec_three,
     content_table := slot_start\<lparr>ct_type := CONTENT_TYPE_DIRECTORY, ct_index := Some 24\<rparr> # replicate 49 slot_start\<rparr>"

lemma open_start_ok: "ct_ok ((\<lambda>_. Leaf)(0 := tree_three)) blocks_three open_start"
proof -
  have e: "mm_ok blocks_three ec_three" "mgr_free (mm_manager open_start) = Builtin" "rp tree_three = Some 24" "tr_at (ec_heap ec_three) None tree_three"
    "adist tree_three" "nodes_live blocks_three tree_three"
    using ec_three_ok by (simp_all add: cache_ok_def rtree_def open_start_def del: rp.simps tr_at.simps adist.simps)
  have "slot_ok blocks_three (ec_heap open_start) (((\<lambda>_. Leaf)(0 := tree_three)) i) (content_table open_start ! i)" if "i < CONTENT_TABLE_SIZE" for i
  proof (cases i)
    case 0
    then show ?thesis using e(3-6)
      by (simp add: slot_ok_def open_start_def slot_start_def zero_entry_def del: rp.simps tr_at.simps adist.simps)
  next
    case (Suc j)
    then show ?thesis using that by (simp add: slot_ok_def open_start_def slot_start_def zero_entry_def nodes_live_def CONTENT_TABLE_SIZE_def)
  qed
  moreover have "mm_ok blocks_three open_start" using e(1) by (simp add: mm_ok_def open_start_def)
  moreover have "length (content_table open_start) = CONTENT_TABLE_SIZE" by (simp add: open_start_def CONTENT_TABLE_SIZE_def)
  ultimately show ?thesis using e(2) by (simp add: ct_ok_def open_start_def)
qed

lemma open_start_descr: "dom (descr open_start) = {0}"
  by (auto simp: descr_def open_start_def slot_start_def nth_Cons split: nat.splits if_splits)

theorem descriptors_type_witness:
  "\<exists>s1 s2 bs. NIFAT32_open_content 0 None 3 open_start = Some (1, s1) \<and> NIFAT32_close_content 0 open_start = Some (1, s2) \<and>
     ct_ok (\<lambda>_. Leaf) bs s2 \<and> descr s2 = (\<lambda>_. None) \<and> live bs = {}"
proof -
  have locks: "content_lock open_start = NULL_LOCK" "fs_api_lock open_start = NULL_LOCK" "errors_count (fs_data open_start) = 0"
    "errors_lock open_start = NULL_LOCK"
    by (simp_all add: open_start_def file_start_def cluster_start_def fat_start_def)
  have d: "descr open_start i = None \<longleftrightarrow> i \<noteq> 0" for i
    using domIff [of i "descr open_start"] unfolding open_start_descr by simp
  have l: "(LEAST i. descr open_start i = None) = 1" unfolding d by (rule Least_equality) auto
  have nf: "dom (descr open_start) \<noteq> {..<CONTENT_TABLE_SIZE}"
  proof
    assume "dom (descr open_start) = {..<CONTENT_TABLE_SIZE}"
    then have "1 \<in> dom (descr open_start)" by (simp add: CONTENT_TABLE_SIZE_def)
    then show False unfolding open_start_descr by simp
  qed
  note p = descriptors_type [OF open_start_ok locks, of 0 3 0 undefined]
  obtain s1 where s1: "NIFAT32_open_content 0 None 3 open_start = Some (1, s1)" using p nf l by auto
  obtain s2 bs where s2: "NIFAT32_close_content 0 open_start = Some (1, s2)" "descr s2 = (descr open_start)(0 := None)"
    "ct_ok (((\<lambda>_. Leaf)(0 := tree_three))(0 := Leaf)) bs s2" "live bs = {(a, n) \<in> live blocks_three. a \<notin> addrs tree_three}"
    using p d [of 0] by auto
  have "live bs = {}" using s2(4) by (auto simp: live_three cell_a_def cell_b_def cell_z_def)
  moreover have "descr s2 = (\<lambda>_. None)" using s2(2) d by (auto simp: fun_eq_iff)
  moreover have eq: "(((\<lambda>_. Leaf)(0 := tree_three))(0 := Leaf) :: nat \<Rightarrow> cell tree) = (\<lambda>_. Leaf)" by auto
  have "ct_ok (\<lambda>_. Leaf) bs s2" using s2(3) unfolding eq .
  ultimately show ?thesis using s1 s2(1) by blast
qed

end
