(* ===== verification/Progress.thy ===== *)
theory Progress
  imports Threading
begin

text \<open>
  Progress of the lock words: a thread that runs alone finishes its operation from every reachable
  state, holders can always release, and so the lock can always become free again.
\<close>

unbundle bit_operations_syntax

section \<open>A thread alone\<close>

text \<open>A step that leaves every other thread where it is.\<close>

definition alone :: "(nat \<Rightarrow> owner_t) \<Rightarrow> nat \<Rightarrow> lock_world \<Rightarrow> lock_world \<Rightarrow> bool" where
  "alone own t w w' = (lock_step own w w' \<and> length (pcs w') = length (pcs w) \<and> (\<forall>u. u \<noteq> t \<longrightarrow> pcs w' ! u = pcs w ! u))"

fun pending :: "thr_pc \<Rightarrow> bool" where
  "pending (Load op d) = True"
| "pending (Try op d old_val new_val) = True"
| "pending _ = False"

text \<open>Where an operation ends that starts over with the word as it is.\<close>

definition outcome :: "(nat \<Rightarrow> owner_t) \<Rightarrow> nat \<Rightarrow> thr_op \<Rightarrow> lock_t \<Rightarrow> thr_pc \<times> lock_t" where
  "outcome own t op l = (case attempt_of op (own t) l of Cas v \<Rightarrow> (acquired op, v) | _ \<Rightarrow> (Outside, l))"

definition end_at :: "nat \<Rightarrow> thr_pc \<times> lock_t \<Rightarrow> lock_world \<Rightarrow> lock_world" where
  "end_at t r w = goto t (fst r) (w\<lparr>word_of_lock := snd r\<rparr>)"

lemma goto_goto [simp]: "goto t p (goto t q w) = goto t p w"
  by (simp add: goto_def)

lemma goto_word [simp]: "goto t p (w\<lparr>word_of_lock := l\<rparr>) = (goto t p w)\<lparr>word_of_lock := l\<rparr>"
  by (simp add: goto_def)

lemma alone_goto:
  "lock_step own w (goto t p w) \<Longrightarrow> alone own t w (goto t p w)"
  by (simp add: alone_def)

lemma alone_lock_step: "(alone own t)\<^sup>*\<^sup>* w w' \<Longrightarrow> (lock_step own)\<^sup>*\<^sup>* w w'"
  by (rule mono_rtranclp [rule_format, of "alone own t"]) (auto simp: alone_def)

lemma alone_others:
  "(alone own t)\<^sup>*\<^sup>* w w' \<Longrightarrow> length (pcs w') = length (pcs w) \<and> (\<forall>u. u \<noteq> t \<longrightarrow> pcs w' ! u = pcs w ! u)"
  by (induction rule: rtranclp_induct) (auto simp: alone_def)

lemma reachable_steps: "(lock_step own)\<^sup>*\<^sup>* w w' \<Longrightarrow> lock_reachable own n w \<Longrightarrow> lock_reachable own n w'"
  by (induction rule: rtranclp_induct) (auto intro: lock_reachable.step)

lemma try_commits:
  assumes "t < length (pcs w)" "pcs w ! t = Try op d (word_of_lock w) v"
  shows "alone own t w (end_at t (acquired op, v) w)"
  using lock_step.cas_ok [OF assms refl] by (simp add: alone_def end_at_def)

lemma load_cas:
  assumes t: "t < length (pcs w)" "pcs w ! t = Load op d" and cas: "attempt_of op (own t) (word_of_lock w) = Cas v"
  shows "(alone own t)\<^sup>*\<^sup>* w (end_at t (outcome own t op (word_of_lock w)) w)"
proof -
  let ?w = "goto t (Try op d (word_of_lock w) v) w"
  have 1: "alone own t w ?w" using alone_goto [OF lock_step.load_try [where own = own and t = t, OF t cas]] .
  have "alone own t ?w (end_at t (acquired op, v) ?w)" using t(1) by (intro try_commits) simp_all
  moreover have "end_at t (acquired op, v) ?w = end_at t (outcome own t op (word_of_lock w)) w"
    by (simp add: end_at_def outcome_def cas)
  ultimately show ?thesis using 1 by (metis converse_rtranclp_into_rtranclp rtranclp.rtrancl_refl)
qed

lemma end_same: "end_at t (p, word_of_lock w) w = goto t p w"
  by (simp add: end_at_def goto_def)

lemma load_gives:
  assumes t: "t < length (pcs w)" "pcs w ! t = Load op d" and g: "attempt_of op (own t) (word_of_lock w) = Give r"
  shows "(alone own t)\<^sup>*\<^sup>* w (end_at t (outcome own t op (word_of_lock w)) w)"
  using alone_goto [OF lock_step.load_give [where own = own and t = t, OF t g]] g by (auto simp: outcome_def end_same)

text \<open>A request that finds the lock taken counts down and ends outside.\<close>

lemma load_spins:
  assumes "attempt_of op (own t) (word_of_lock w) = Spin" "op \<in> {ReqRead, ReqWrite}"
  shows "t < length (pcs w) \<Longrightarrow> pcs w ! t = Load op d \<Longrightarrow> (alone own t)\<^sup>*\<^sup>* w (goto t Outside w)"
  using assms(1)
proof (induction d arbitrary: w)
  case (Suc d)
  let ?w = "goto t (retry op (tick op (Suc d))) w"
  have 1: "alone own t w ?w" using alone_goto [OF lock_step.load_spin [where own = own and t = t, OF Suc.prems]] .
  show ?case
  proof (cases "d = 0")
    case True
    then have "?w = goto t Outside w" using assms(2) by auto
    then show ?thesis using 1 by auto
  next
    case False
    then have "pcs ?w ! t = Load op d" using assms(2) Suc.prems(1) by auto
    then have "(alone own t)\<^sup>*\<^sup>* ?w (goto t Outside ?w)" using Suc.prems(1,3) by (intro Suc.IH) simp_all
    then show ?thesis using 1 by (simp add: converse_rtranclp_into_rtranclp)
  qed
next
  case 0
  have "alone own t w (goto t (retry op (tick op 0)) w)" using alone_goto [OF lock_step.load_spin [where own = own and t = t, OF 0]] .
  then show ?case using assms(2) by auto
qed

lemma load_completes:
  assumes "t < length (pcs w)" "pcs w ! t = Load op d"
  shows "(alone own t)\<^sup>*\<^sup>* w (end_at t (outcome own t op (word_of_lock w)) w)"
proof (cases "attempt_of op (own t) (word_of_lock w)")
  case Spin
  then have "op \<in> {ReqRead, ReqWrite}" using release_attempts_decide by (cases op) auto
  then have "(alone own t)\<^sup>*\<^sup>* w (goto t Outside w)" using load_spins [where own = own and t = t, OF Spin _ assms] by blast
  then show ?thesis using Spin by (simp add: outcome_def end_same)
next
  case (Cas v)
  then show ?thesis by (rule load_cas [OF assms])
next
  case (Give r)
  then show ?thesis by (rule load_gives [OF assms])
qed

text \<open>A thread that holds the lock runs alone to the end of its release; any other thread runs out of
  its operation.\<close>

lemma pending_cases:
  "pending pc \<Longrightarrow> (\<And>op d. pc = Load op d \<Longrightarrow> P) \<Longrightarrow> (\<And>op d old_val v. pc = Try op d old_val v \<Longrightarrow> P) \<Longrightarrow> P"
  by (cases pc) auto

lemma try_completes:
  assumes t: "t < length (pcs w)" "pcs w ! t = Try op d old_val v"
  shows "\<exists>r. (alone own t)\<^sup>*\<^sup>* w (end_at t r w) \<and>
    (word_of_lock w = old_val \<and> r = (acquired op, v) \<or>
     r = outcome own t op (word_of_lock w) \<or> op \<in> {ReqRead, ReqWrite} \<and> r = (Outside, word_of_lock w))"
proof (cases "word_of_lock w = old_val")
  case True
  then show ?thesis using try_commits [of t w op d v own] t by (intro exI [of _ "(acquired op, v)"]) auto
next
  case False
  let ?w = "goto t (retry op (tick op d)) w"
  have 1: "alone own t w ?w" using alone_goto [OF lock_step.cas_lost [OF t False]] .
  show ?thesis
  proof (cases "retry op (tick op d) = Outside")
    case True
    then have "op \<in> {ReqRead, ReqWrite}" by (cases op) auto
    then show ?thesis using 1 True by (intro exI [of _ "(Outside, word_of_lock w)"]) (auto simp: end_same)
  next
    case False
    then have "pcs ?w ! t = Load op (tick op d)" using t(1) by (cases op) auto
    then have "(alone own t)\<^sup>*\<^sup>* ?w (end_at t (outcome own t op (word_of_lock ?w)) ?w)" using t(1) by (intro load_completes) simp_all
    moreover have "end_at t (outcome own t op (word_of_lock ?w)) ?w = end_at t (outcome own t op (word_of_lock w)) w"
      by (simp add: end_at_def)
    ultimately show ?thesis using 1 by (intro exI [of _ "outcome own t op (word_of_lock w)"]) (simp add: converse_rtranclp_into_rtranclp)
  qed
qed

text \<open>A release by a holder finds its word.\<close>

lemma release_outcome:
  assumes inv: "lock_inv own w" and t: "t < length (pcs w)"
  shows "pcs w ! t = Load RelWrite d \<or> pcs w ! t = Try RelWrite d old_val v \<Longrightarrow> outcome own t RelWrite (word_of_lock w) = (Outside, NULL_LOCK)"
    and "pcs w ! t = Load RelRead d \<or> pcs w ! t = Try RelRead d old_val v \<Longrightarrow> \<not> LOCK_IS_WRITE (word_of_lock w) \<and> LOCK_GET_READERS (word_of_lock w) \<noteq> 0"
proof -
  assume "pcs w ! t = Load RelWrite d \<or> pcs w ! t = Try RelWrite d old_val v"
  then have h: "holds_write (pcs w ! t)" by auto
  then have "0 < writers_of w" using t writers_pos by blast
  then have "LOCK_IS_WRITE (word_of_lock w)" "LOCK_GET_OWNER (word_of_lock w) = ucast (own t)"
    using inv h t by (auto simp: lock_inv_def split: if_splits)
  then show "outcome own t RelWrite (word_of_lock w) = (Outside, NULL_LOCK)" by (simp add: outcome_def release_write_attempt_def)
next
  assume "pcs w ! t = Load RelRead d \<or> pcs w ! t = Try RelRead d old_val v"
  then have "holds_read (pcs w ! t)" by auto
  then have "0 < readers_of w" using t readers_pos by blast
  then show "\<not> LOCK_IS_WRITE (word_of_lock w) \<and> LOCK_GET_READERS (word_of_lock w) \<noteq> 0"
    using inv by (auto simp: lock_inv_def split: if_splits)
qed

text \<open>Every word the lock takes is one the operations packed.\<close>

definition packed :: "lock_t \<Rightarrow> bool" where
  "packed l = ((\<exists>r. l = LOCK_PACK r False NO_OWNER) \<or> LOCK_IS_WRITE l)"

lemma attempt_packed: "attempt_of op o' l = Cas v \<Longrightarrow> packed v"
  by (cases op) (auto simp: packed_def require_read_attempt_def release_read_attempt_def require_write_attempt_def
      release_write_attempt_def Let_def NULL_LOCK_def split: if_splits)

lemma packed_reachable: "lock_reachable own n w \<Longrightarrow> packed (word_of_lock w)"
proof (induction rule: lock_reachable.induct)
  case start
  then show ?case by (auto simp: packed_def NULL_LOCK_def)
next
  case (step w w')
  from step(2) show ?case
  proof (cases rule: lock_step.cases)
    case (cas_ok t op d old_val new_val)
    then have "attempt_of op (own t) old_val = Cas new_val"
      using lock_inv_reachable [OF step(1)] by (auto simp: lock_inv_def try_ok_def)
    then show ?thesis using cas_ok(1) attempt_packed by simp
  qed (use step(3) in auto)
qed

lemma packed_free:
  assumes "packed l" "\<not> LOCK_IS_WRITE l" "LOCK_GET_READERS l = 0"
  shows "l = NULL_LOCK"
proof -
  obtain r where r: "l = LOCK_PACK r False NO_OWNER" using assms(1,2) by (auto simp: packed_def)
  then have "r AND 0xFF = 0" using assms(3) by simp
  then show ?thesis by (simp add: r NULL_LOCK_def LOCK_PACK_def LOCK_READERS_MASK_def)
qed

section \<open>The lock becomes free\<close>

lemma reachable_length: "lock_reachable own n w \<Longrightarrow> length (pcs w) = n"
proof (induction rule: lock_reachable.induct)
  case (step w w')
  from step(2) show ?case by (cases rule: lock_step.cases) (use step(3) in auto)
qed simp

lemma acquired_outside: "\<not> pending (acquired op)" "op \<in> {RelRead, RelWrite} \<Longrightarrow> acquired op = Outside"
  by (cases op; simp)+

lemma end_at_simps [simp]:
  "word_of_lock (end_at t r w) = snd r" "pcs (end_at t r w) = (pcs w)[t := fst r]"
  by (simp_all add: end_at_def)

lemma outcome_rest: "\<not> pending (fst (outcome own t op l))"
  by (auto simp: outcome_def acquired_outside split: attempt.splits)

text \<open>A pending operation ends, and what it leaves.\<close>

lemma pending_completes:
  assumes reach: "lock_reachable own n w" and t: "t < n" "pending (pcs w ! t)"
  shows "\<exists>r. (alone own t)\<^sup>*\<^sup>* w (end_at t r w) \<and> \<not> pending (fst r) \<and>
    (holds_read (pcs w ! t) \<longrightarrow> fst r = Outside) \<and> (holds_write (pcs w ! t) \<longrightarrow> r = (Outside, NULL_LOCK))"
proof -
  have inv: "lock_inv own w" using lock_inv_reachable [OF reach] .
  have len: "t < length (pcs w)" using reachable_length [OF reach] t(1) by simp
  from t(2) show ?thesis
  proof (rule pending_cases)
    fix op d assume pc: "pcs w ! t = Load op d"
    have "(alone own t)\<^sup>*\<^sup>* w (end_at t (outcome own t op (word_of_lock w)) w)" using load_completes [OF len pc] .
    moreover have "holds_read (pcs w ! t) \<Longrightarrow> fst (outcome own t op (word_of_lock w)) = Outside"
      unfolding pc by (cases op) (auto simp: outcome_def split: attempt.splits)
    moreover have "holds_write (pcs w ! t) \<Longrightarrow> outcome own t op (word_of_lock w) = (Outside, NULL_LOCK)"
      using release_outcome(1) [OF inv len] pc by (cases op) auto
    ultimately show ?thesis using outcome_rest [of own t op] by blast
  next
    fix op d old_val v assume pc: "pcs w ! t = Try op d old_val v"
    have att: "attempt_of op (own t) old_val = Cas v" using inv len pc by (auto simp: lock_inv_def try_ok_def)
    obtain r where r: "(alone own t)\<^sup>*\<^sup>* w (end_at t r w)"
      "word_of_lock w = old_val \<and> r = (acquired op, v) \<or> r = outcome own t op (word_of_lock w) \<or>
       op \<in> {ReqRead, ReqWrite} \<and> r = (Outside, word_of_lock w)"
      using try_completes [OF len pc] by blast
    have "\<not> pending (fst r)" using r(2) acquired_outside outcome_rest by auto
    moreover have "holds_read (pcs w ! t) \<Longrightarrow> fst r = Outside"
      using r(2) unfolding pc by (cases op) (auto simp: outcome_def split: attempt.splits)
    moreover have "holds_write (pcs w ! t) \<Longrightarrow> r = (Outside, NULL_LOCK)"
      using r(2) release_outcome(1) [OF inv len] pc att by (cases op) (auto simp: release_write_attempt_def split: if_splits)
    ultimately show ?thesis using r(1) by blast
  qed
qed

text \<open>Every thread can leave.\<close>

lemma holder_leaves:
  assumes reach: "lock_reachable own n w" and t: "t < n" "pcs w ! t = Reading \<or> pcs w ! t = Writing"
  shows "\<exists>w'. (alone own t)\<^sup>*\<^sup>* w w' \<and> pcs w' ! t = Outside"
proof -
  define op where "op = (if pcs w ! t = Reading then RelRead else RelWrite)"
  let ?w = "goto t (Load op 0) w"
  have len: "t < length (pcs w)" using reachable_length [OF reach] t(1) by simp
  have "lock_step own w ?w" using t(2) len lock_step.leave_read [of t w own] lock_step.leave_write [of t w own] by (auto simp: op_def)
  then have 1: "alone own t w ?w" "lock_reachable own n ?w" using alone_goto reach lock_reachable.step by blast+
  obtain r where r: "(alone own t)\<^sup>*\<^sup>* ?w (end_at t r ?w)" "holds_read (pcs ?w ! t) \<longrightarrow> fst r = Outside" "holds_write (pcs ?w ! t) \<longrightarrow> r = (Outside, NULL_LOCK)"
    using pending_completes [OF 1(2) t(1)] len by auto
  have "fst r = Outside" using r(2,3) len by (cases "pcs w ! t = Reading") (auto simp: op_def)
  then show ?thesis using r(1) 1(1) len by (intro exI [of _ "end_at t r ?w"]) (simp add: converse_rtranclp_into_rtranclp)
qed

lemma thread_leaves:
  assumes reach: "lock_reachable own n w" and t: "t < n"
  shows "\<exists>w'. (alone own t)\<^sup>*\<^sup>* w w' \<and> pcs w' ! t = Outside"
proof -
  have len: "t < length (pcs w)" using reachable_length [OF reach] t by simp
  have rest: "\<exists>w'. (alone own t)\<^sup>*\<^sup>* v w' \<and> pcs w' ! t = Outside" if "lock_reachable own n v" "\<not> pending (pcs v ! t)" for v
    using that holder_leaves [OF that(1) t] by (cases "pcs v ! t") auto
  show ?thesis
  proof (cases "pending (pcs w ! t)")
    case True
    obtain r where r: "(alone own t)\<^sup>*\<^sup>* w (end_at t r w)" "\<not> pending (fst r)" using pending_completes [OF reach t True] by blast
    have "lock_reachable own n (end_at t r w)" using reachable_steps [OF alone_lock_step [OF r(1)] reach] .
    then show ?thesis using rest [of "end_at t r w"] r len by (auto intro: rtranclp_trans)
  qed (rule rest [OF reach])
qed

lemma all_leave:
  assumes "lock_reachable own n w" "k \<le> n"
  shows "\<exists>w'. (lock_step own)\<^sup>*\<^sup>* w w' \<and> (\<forall>u < k. pcs w' ! u = Outside)"
  using assms(2)
proof (induction k)
  case (Suc k)
  then obtain w1 where 1: "(lock_step own)\<^sup>*\<^sup>* w w1" "\<forall>u < k. pcs w1 ! u = Outside" by auto
  have "lock_reachable own n w1" using reachable_steps [OF 1(1) assms(1)] .
  then obtain w2 where 2: "(alone own k)\<^sup>*\<^sup>* w1 w2" "pcs w2 ! k = Outside" using thread_leaves Suc.prems by (metis Suc_le_lessD)
  have "pcs w2 ! u = Outside" if "u < Suc k" for u
    using that 1(2) 2(2) alone_others [OF 2(1)] by (cases "u = k") auto
  then show ?case using 1(1) alone_lock_step [OF 2(1)] by (meson rtranclp_trans)
qed auto

section \<open>Properties\<close>

text \<open>C22 (progress of the lock words). From every state that any number of threads can reach by interleaving
  the four operations, a thread that is inside an operation finishes it when it runs alone: a request
  ends with the lock or without it, the release of a reader ends outside with one reader less, the
  release of a writer ends outside with the free word. So no stalled thread keeps another from
  finishing its own operation, and from every reachable state the lock can become free again with
  every thread outside.\<close>

theorem lock_progress:
  assumes reach: "lock_reachable own n w"
  shows "(t < n \<and> pending (pcs w ! t) \<longrightarrow> (\<exists>w'. (alone own t)\<^sup>*\<^sup>* w w' \<and> \<not> pending (pcs w' ! t) \<and>
      (\<forall>u. u \<noteq> t \<longrightarrow> pcs w' ! u = pcs w ! u) \<and>
      (holds_read (pcs w ! t) \<longrightarrow> pcs w' ! t = Outside \<and> readers_of w' + 1 = readers_of w) \<and>
      (holds_write (pcs w ! t) \<longrightarrow> pcs w' ! t = Outside \<and> word_of_lock w' = NULL_LOCK))) \<and>
    (\<exists>w'. (lock_step own)\<^sup>*\<^sup>* w w' \<and> word_of_lock w' = NULL_LOCK \<and> (\<forall>u < n. pcs w' ! u = Outside))"
proof (intro conjI impI)
  assume t: "t < n \<and> pending (pcs w ! t)"
  then obtain r where r: "(alone own t)\<^sup>*\<^sup>* w (end_at t r w)" "\<not> pending (fst r)"
    "holds_read (pcs w ! t) \<longrightarrow> fst r = Outside" "holds_write (pcs w ! t) \<longrightarrow> r = (Outside, NULL_LOCK)"
    using pending_completes [OF reach] by blast
  have len: "t < length (pcs w)" using reachable_length [OF reach] t by simp
  have "readers_of (end_at t r w) + 1 = readers_of w" if "holds_read (pcs w ! t)"
    using readers_goto [of t "w\<lparr>word_of_lock := snd r\<rparr>" "fst r"] that r(3) len by (simp add: end_at_def readers_of_def)
  then show "\<exists>w'. (alone own t)\<^sup>*\<^sup>* w w' \<and> \<not> pending (pcs w' ! t) \<and> (\<forall>u. u \<noteq> t \<longrightarrow> pcs w' ! u = pcs w ! u) \<and>
      (holds_read (pcs w ! t) \<longrightarrow> pcs w' ! t = Outside \<and> readers_of w' + 1 = readers_of w) \<and>
      (holds_write (pcs w ! t) \<longrightarrow> pcs w' ! t = Outside \<and> word_of_lock w' = NULL_LOCK)"
    using r len by (intro exI [of _ "end_at t r w"]) auto
next
  obtain w' where w': "(lock_step own)\<^sup>*\<^sup>* w w'" "\<forall>u < n. pcs w' ! u = Outside" using all_leave [OF reach order_refl] by blast
  have reach': "lock_reachable own n w'" using reachable_steps [OF w'(1) reach] .
  have "filter holds_read (pcs w') = []" "filter holds_write (pcs w') = []"
    using w'(2) reachable_length [OF reach'] by (auto simp: filter_empty_conv in_set_conv_nth)
  then have "readers_of w' = 0" "writers_of w' = 0" by (simp_all add: readers_of_def writers_of_def)
  then have "\<not> LOCK_IS_WRITE (word_of_lock w')" "LOCK_GET_READERS (word_of_lock w') = 0"
    using lock_inv_reachable [OF reach'] by (auto simp: lock_inv_def unat_eq_0 split: if_splits)
  then have "word_of_lock w' = NULL_LOCK" using packed_free packed_reachable [OF reach'] by blast
  then show "\<exists>w'. (lock_step own)\<^sup>*\<^sup>* w w' \<and> word_of_lock w' = NULL_LOCK \<and> (\<forall>u < n. pcs w' ! u = Outside)" using w' by blast
qed

text \<open>Two threads on a fresh word, the second has just called the request for reading.\<close>

theorem lock_progress_witness:
  "\<exists>w w' w''. lock_reachable (\<lambda>_. 7) 2 w \<and> pcs w = [Outside, Load ReqRead REQUIRE_TIME] \<and>
     (alone (\<lambda>_. 7) 1)\<^sup>*\<^sup>* w w' \<and> \<not> pending (pcs w' ! 1) \<and> (lock_step (\<lambda>_. 7))\<^sup>*\<^sup>* w w'' \<and> word_of_lock w'' = NULL_LOCK"
proof -
  let ?own = "\<lambda>_. 7 :: owner_t"
  define w0 where "w0 = \<lparr>word_of_lock = NULL_LOCK, pcs = replicate 2 Outside\<rparr>"
  let ?w = "goto 1 (Load ReqRead REQUIRE_TIME) w0"
  have "lock_reachable ?own 2 w0" unfolding w0_def by (rule lock_reachable.start)
  moreover have "lock_step ?own w0 ?w" by (rule lock_step.call_read) (simp_all add: w0_def)
  ultimately have r: "lock_reachable ?own 2 ?w" by (rule lock_reachable.step)
  have p: "pcs ?w = [Outside, Load ReqRead REQUIRE_TIME]" by (simp add: w0_def numeral_2_eq_2)
  then have "1 < (2 :: nat) \<and> pending (pcs ?w ! 1)" by simp
  then show ?thesis using lock_progress [OF r, of 1] r p by blast
qed

end
