(* ===== verification/Logging.thy ===== *)
theory Logging
  imports Prelude
begin

text \<open>
  The messages of \<open>std/logging.c\<close> and \<open>include/std/logging.h\<close>, in a build with logging, and the packed
  times of \<open>include/std/fattime.h\<close>. A message goes to the two print functions of the platform,
  which act on the outside world; the other theories leave their messages out, since none of them
  reads what a message changes.
\<close>

unbundle bit_operations_syntax

section \<open>Messages\<close>

datatype log_arg = Log_str string | Log_int int

text \<open>The print functions take a format with its arguments, or with a list \<open>'v\<close> that they walk.\<close>

record ('v, 'w) log_io_t =
  fd_fprintf :: "(string \<Rightarrow> log_arg list \<Rightarrow> 'w \<Rightarrow> int \<times> 'w) option"
  fd_vfprintf :: "(string \<Rightarrow> 'v \<Rightarrow> 'w \<Rightarrow> int \<times> 'w) option"

definition log_io_unset :: "('v, 'w) log_io_t" where
  "log_io_unset = \<lparr>fd_fprintf = None, fd_vfprintf = None\<rparr>"

definition LOG_setup :: "(string \<Rightarrow> log_arg list \<Rightarrow> 'w \<Rightarrow> int \<times> 'w) option \<Rightarrow> (string \<Rightarrow> 'v \<Rightarrow> 'w \<Rightarrow> int \<times> 'w) option \<Rightarrow>
    ('v, 'w) log_io_t \<Rightarrow> ('v, 'w) log_io_t" where
  "LOG_setup fp vfp io = io\<lparr>fd_fprintf := fp, fd_vfprintf := vfp\<rparr>"

definition or_null :: "string option \<Rightarrow> string" where
  "or_null s = (case s of None \<Rightarrow> ''(null)'' | Some t \<Rightarrow> t)"

definition write_log :: "('v, 'w) log_io_t \<Rightarrow> string option \<Rightarrow> string option \<Rightarrow> int \<Rightarrow> string option \<Rightarrow> 'v \<Rightarrow> 'w \<Rightarrow> int \<times> 'w" where
  "write_log io level file_name ln message args w = (case (fd_fprintf io, fd_vfprintf io) of
     (Some fp, Some vfp) \<Rightarrow> (let
         (_, w) = fp ''[%s] (%s:%i) '' [Log_str (or_null level), Log_str (or_null file_name), Log_int ln] w;
         (_, w) = vfp (or_null message) args w;
         (_, w) = fp [CHR 0x0A] [] w
       in (1, w))
   | _ \<Rightarrow> (0, w))"

definition LOG_emmit_message :: "('v, 'w) log_io_t \<Rightarrow> string option \<Rightarrow> string option \<Rightarrow> int \<Rightarrow> string option \<Rightarrow> 'v \<Rightarrow> 'w \<Rightarrow> 'w" where
  "LOG_emmit_message io level file_name ln message args w = snd (write_log io level file_name ln message args w)"

text \<open>The levels, each with the flag of the build that turns it on.\<close>

datatype log_level = Log_error | Log_warn | Log_info | Log_debug | Log_io | Log_mm | Log_log | Log_spec

definition level_name :: "log_level \<Rightarrow> string" where
  "level_name l = (case l of
     Log_error \<Rightarrow> ''ERROR''
   | Log_warn \<Rightarrow> ''WARN''
   | Log_info \<Rightarrow> ''INFO''
   | Log_debug \<Rightarrow> ''DEBUG''
   | Log_io \<Rightarrow> ''I/O''
   | Log_mm \<Rightarrow> ''MEM''
   | Log_log \<Rightarrow> ''LOG''
   | Log_spec \<Rightarrow> ''SPEC'')"

definition print_level :: "log_level set \<Rightarrow> ('v, 'w) log_io_t \<Rightarrow> log_level \<Rightarrow> string \<Rightarrow> int \<Rightarrow> string \<Rightarrow> 'v \<Rightarrow> 'w \<Rightarrow> 'w" where
  "print_level flags io l file_name ln message args w =
    (if l \<in> flags then LOG_emmit_message io (Some (level_name l)) (Some file_name) ln (Some message) args w else w)"

lemma print_level_off [simp]:
  "l \<notin> flags \<Longrightarrow> print_level flags io l f n m args w = w"
  "fd_fprintf io = None \<or> fd_vfprintf io = None \<Longrightarrow> print_level flags io l f n m args w = w"
  by (auto simp: print_level_def LOG_emmit_message_def write_log_def split: option.splits)

section \<open>Packed times\<close>

definition NFT32_MAKE_TIME :: "int \<Rightarrow> int \<Rightarrow> int \<Rightarrow> u16" where
  "NFT32_MAKE_TIME hour minute second =
     push_bit 11 (word_of_int (hour AND 0x1F)) OR push_bit 5 (word_of_int (minute AND 0x3F))
     OR word_of_int ((if second < 0 then - (- second div 2) else second div 2) AND 0x1F)"

definition NFT32_MAKE_DATE :: "int \<Rightarrow> int \<Rightarrow> int \<Rightarrow> u16" where
  "NFT32_MAKE_DATE year month day =
     push_bit 9 (word_of_int ((year - 1980) AND 0x7F)) OR push_bit 5 (word_of_int (month AND 0x0F)) OR word_of_int (day AND 0x1F)"

definition NFT32_MAKE_CREATION_TIME_TENTHS :: "int \<Rightarrow> int \<Rightarrow> byte" where
  "NFT32_MAKE_CREATION_TIME_TENTHS second centisecond = word_of_int ((second AND 1) * 100 + (centisecond AND 0x7F))"

text \<open>The fields of a packed time or date can be read back from it.\<close>

lemma bit_below: "0 \<le> (h :: int) \<Longrightarrow> h < 2 ^ n \<Longrightarrow> bit h k \<longleftrightarrow> k < n \<and> bit h k"
  by (metis bit_take_bit_iff take_bit_int_eq_self)

lemma mask_bits: "(0x1F :: int) = mask 5" "(0x3F :: int) = mask 6" "(0x7F :: int) = mask 7" "(0x0F :: int) = mask 4"
  "(0x1F :: u16) = mask 5" "(0x3F :: u16) = mask 6" "(0x0F :: u16) = mask 4"
  by (simp_all add: mask_eq_exp_minus_1)

lemma bit_MAKE_TIME:
  assumes "0 \<le> t"
  shows "bit (NFT32_MAKE_TIME h m t) k = (if k < 5 then bit (t div 2) k else if k < 11 then bit m (k - 5) else k < 16 \<and> bit h (k - 11))"
  using assms unfolding NFT32_MAKE_TIME_def mask_bits by (auto simp: bit_simps dest: bit_imp_le_length)

lemma time_fields:
  assumes "0 \<le> h" "h < 24" "0 \<le> m" "m < 60" "0 \<le> t" "t < 60"
  shows "uint (drop_bit 11 (NFT32_MAKE_TIME h m t)) = h" "uint (drop_bit 5 (NFT32_MAKE_TIME h m t) AND 0x3F) = m"
    "uint (NFT32_MAKE_TIME h m t AND 0x1F) = t div 2"
proof -
  have b: "bit h k \<longleftrightarrow> k < 5 \<and> bit h k" "bit m k \<longleftrightarrow> k < 6 \<and> bit m k" "bit (t div 2) k \<longleftrightarrow> k < 5 \<and> bit (t div 2) k" for k
    using assms by (intro bit_below; simp)+
  show "uint (drop_bit 11 (NFT32_MAKE_TIME h m t)) = h"
    by (rule bit_eqI) (use b(1) in \<open>auto simp: bit_simps bit_MAKE_TIME assms\<close>)
  show "uint (drop_bit 5 (NFT32_MAKE_TIME h m t) AND 0x3F) = m" unfolding mask_bits
    by (rule bit_eqI) (use b(2) in \<open>auto simp: bit_simps bit_MAKE_TIME assms\<close>)
  show "uint (NFT32_MAKE_TIME h m t AND 0x1F) = t div 2" unfolding mask_bits
    by (rule bit_eqI) (use b(3) in \<open>auto simp: bit_simps bit_MAKE_TIME assms\<close>)
qed

lemma bit_MAKE_DATE:
  "bit (NFT32_MAKE_DATE y m d) k = (if k < 5 then bit d k else if k < 9 then bit m (k - 5) else k < 16 \<and> bit (y - 1980) (k - 9))"
  unfolding NFT32_MAKE_DATE_def mask_bits by (auto simp: bit_simps dest: bit_imp_le_length)

lemma date_fields:
  assumes "1980 \<le> y" "y < 2108" "0 \<le> m" "m < 13" "0 \<le> d" "d < 32"
  shows "uint (drop_bit 9 (NFT32_MAKE_DATE y m d)) = y - 1980" "uint (drop_bit 5 (NFT32_MAKE_DATE y m d) AND 0x0F) = m"
    "uint (NFT32_MAKE_DATE y m d AND 0x1F) = d"
proof -
  have b: "bit (y - 1980) k \<longleftrightarrow> k < 7 \<and> bit (y - 1980) k" "bit m k \<longleftrightarrow> k < 4 \<and> bit m k" "bit d k \<longleftrightarrow> k < 5 \<and> bit d k" for k
    using assms by (intro bit_below; simp)+
  show "uint (drop_bit 9 (NFT32_MAKE_DATE y m d)) = y - 1980"
    by (rule bit_eqI) (use b(1) in \<open>auto simp: bit_simps bit_MAKE_DATE\<close>)
  show "uint (drop_bit 5 (NFT32_MAKE_DATE y m d) AND 0x0F) = m" unfolding mask_bits
    by (rule bit_eqI) (use b(2) in \<open>auto simp: bit_simps bit_MAKE_DATE\<close>)
  show "uint (NFT32_MAKE_DATE y m d AND 0x1F) = d" unfolding mask_bits
    by (rule bit_eqI) (use b(3) in \<open>auto simp: bit_simps bit_MAKE_DATE\<close>)
qed

end
