(* ===== verification/Spec2Isabelle.thy ===== *)
theory Spec2Isabelle
  imports Content Table Chain Errlog Jlog Etree Filedata Formatter Shell Mounting Growth Directory Creation Descriptors Progress Logging
begin

text \<open>
  NiFAT32: a fault-tolerant FAT32-like file system in C.

  The program. The driver is a stack of modules over two platform callbacks that read and write a
  sector: \<open>src/disk.c\<close> turns them into byte-addressed I/O on runs of sectors under a table of locked
  areas, \<open>src/fat.c\<close> keeps several Hamming-coded copies of the allocation table, votes over them and
  caches them, \<open>src/fatmap.c\<close> is a bitmap of free clusters, \<open>src/cluster.c\<close> allocates clusters and moves
  their data, \<open>src/journal.c\<close> and \<open>src/errors.c\<close> are replicated logs, \<open>src/ecache.c\<close> is a red-black tree
  over directory entries, \<open>src/entry.c\<close> walks and changes directories, \<open>src/ctable.c\<close> is the table of open
  contents and \<open>nifat32.c\<close> is the public interface under one lock. \<open>std/\<close> holds the Hamming code, the
  checksum, string helpers, 8.3 names, spin locks and the allocator. Two programs go with it: the
  formatter in \<open>formatter/\<close>, which lays out a volume, and the command line tool
  \<open>unix_nifat32.c\<close>, which mounts an image file and calls the interface.

  The model. One theory per module, in the order of the calls. The state of the program is one
  record that grows along the chain of theories by record extension: \<open>mm_state\<close> (world, allocator),
  \<open>disk_state\<close>, \<open>errors_state\<close>, \<open>fatmap_state\<close>, \<open>fat_state\<close>, \<open>cluster_state\<close>, \<open>journal_state\<close>,
  \<open>ecache_state\<close>, \<open>ctable_state\<close>, \<open>nifat_state\<close>; each field is a static variable of the C file the
  theory is named after, and the type variable of \<open>world\<close> is the outside world of the callbacks. An
  operation is a function from its arguments and a state to \<open>Some (result, state)\<close>, or \<open>None\<close> where
  the C code is undefined (an out-of-range or \<open>NULL\<close> access, a division by zero) or does not return.
  Machine integers are words of their width, C buffers are byte lists. The C names are kept without
  leading underscores.

  \<^item> \<open>Prelude\<close>: types, outcomes, little-endian layouts. \<open>Hamming\<close>, \<open>Checksum\<close>, \<open>Strs\<close>, \<open>Fatname\<close>,
    \<open>Threading\<close>, \<open>Mm\<close>, \<open>Logging\<close> (with the packed times): the files of \<open>std/\<close>.
  \<^item> \<open>Disk\<close>: \<open>src/disk.c\<close>; the locale \<open>block_device\<close> states what the callbacks promise and is interpreted on
    the device of the unit tests.
  \<^item> \<open>Fatinfo\<close>: geometry, placement macros, error codes. \<open>Voting\<close>: the vote shared by the replicated
    structures. \<open>Errors\<close>, \<open>Fatmap\<close>, \<open>Fat\<close>: the files of the same name.
  \<^item> \<open>Table\<close>: the contract of the table as a map (locale \<open>fat_table\<close>), met by \<open>read_fat\<close> and \<open>write_fat\<close>.
  \<^item> \<open>Cluster\<close>, \<open>Journal\<close>, \<open>Ecache\<close>, \<open>Entry\<close>, \<open>Ctable\<close>: the files of the same name.
  \<^item> \<open>Mount\<close>, \<open>Content\<close>: \<open>nifat32.c\<close>. \<open>Formatter\<close>: the program of \<open>formatter/\<close> with its command line.
    \<open>Shell\<close>: \<open>unix_nifat32.c\<close>, with the image as a byte list in the world of the callbacks.
  \<^item> Theorems only: \<open>Replica\<close> (slots that several copies share), \<open>Errlog\<close> on \<open>Errors\<close>, \<open>Chain\<close> on \<open>Cluster\<close>,
    \<open>Jlog\<close> on \<open>Journal\<close>, \<open>Etree\<close> on \<open>Ecache\<close> (locale \<open>dictionary\<close>), \<open>Filedata\<close>, \<open>Growth\<close> and \<open>Creation\<close> on \<open>Content\<close>,
    \<open>Directory\<close> on \<open>Entry\<close>, \<open>Mounting\<close> on \<open>Mount\<close>, \<open>Descriptors\<close> on \<open>Ctable\<close> and its calls, \<open>Progress\<close> on \<open>Threading\<close>.

  What the lemmas show.
  \<^item> Bytes. Hamming-coded bytes survive a flipped bit per codeword; the checksum separates buffers that
    differ in one group; a name becomes its 8.3 form and comes back in upper case; the layouts of boot sectors and journal entries do.
  \<^item> Memory and threads. The spin lock excludes in every interleaving, and from each of its states
    every thread finishes when it runs alone; the allocator hands out disjoint
    regions and frees exactly what it is given; an interface call beside another one changes nothing.
  \<^item> Sectors and clusters. The disk layer reads back what it wrote, on any device that meets
    \<open>block_device\<close>, and grants an area exactly when it shares no sector with one in use for writing; the table with its copies, cache,
    bitmap and votes is one map, and a read repairs a damaged copy; allocation takes a free cluster
    and the first one, deallocation frees exactly a chain; cluster data is separate.
  \<^item> Logs. The error ring refines a bounded queue (locale \<open>bounded_queue\<close>) in which codes past the one sector
    of a copy count as 0; journal entries are added and
    solved; which copy wins, and when replay does not return.
  \<^item> Index. The heap of nodes represents a red-black search tree, insertion refines the update of a
    map, a sequence of insertions leaves exactly their first bindings, release is exact, and the deletion of a black inner node fails.
  \<^item> Directories. A directory is described by the entries of its clusters: a search finds the first live
    one of a name, a removal frees the chain and the slot of a file, an addition takes the first slot
    without a live entry, and hides all entries behind it in the cluster.
  \<^item> Interface. A content that was put is found, a new directory keeps what its cluster held, a file
    whose metadata was changed is lost. Bytes written to an open content within its chain are read back across clusters, and
    nothing else changes; a write past its end appends free clusters, as few as it needs; descriptors
    are handed out to one content at a time and own disjoint indices; the mount falls back over
    damaged boot sectors and restores them.
  \<^item> Programs. A formatted volume mounts with the geometry the formatter worked with; where formatter
    and driver disagree on the places of the table and on the clusters to reserve; what the tool's disk and its \<open>cd\<close> do.

  Bounds. The spin loops have the fuel of the code (\<open>REQUIRE_TIME\<close>); loops over copies and clusters
  recurse on their trip count; loops whose end depends on the disk are \<open>partial_function\<close>s, so
  that a run that does not return is \<open>None\<close>. The recursion over nested directories has depth
  \<open>total_clusters + 2\<close>: a deeper nesting repeats a cluster, and then the C code overflows its stack.
  The loop of the tool over its lines ends because every line takes a byte of the input.

  Not modelled. The messages the modules send to \<open>Logging\<close> are left out of them, as nothing reads what
  a message changes; so is text for standard error. The tests are drivers around the library. The builds with
  \<open>NIFAT32_RO\<close>, \<open>NO_HEAP\<close>, \<open>ENTRY_WITH_TIME\<close> or OpenMP compile other variants
  of the same functions. The calls to the operating system that open and read host files, and the
  allocator of the C library, are parameters.
\<close>

end
